(* ===== verification/Prelude.thy ===== *)
theory Prelude
  imports Main
    "HOL-Library.Word"
    "HOL-Library.Multiset"
    "HOL-Library.Finite_Map"
    "HOL-Library.Char_ord"
    "HOL-Library.List_Lexorder"
    "HOL-Library.Product_Lexorder"
begin

text \<open>
  Shared vocabulary of the bgPLS development: machine integers, Go strings and maps, errors as
  values, IEEE doubles as far as the program compares them, decimal and hexadecimal formatting,
  and the generic lemmas on sorting by a key, on finite maps and on words that the component
  theories use.
\<close>

named_theorems go_simps \<open>unfolding rules for the operations of the model\<close>
named_theorems inv_intros \<open>introduction rules for invariants\<close>

section \<open>Types of the Go program\<close>

type_synonym u8 = "8 word"
type_synonym u16 = "16 word"
type_synonym u32 = "32 word"
type_synonym u64 = "64 word"

text \<open>A Go map keyed by strings: a finite map. A missing key is the value None.\<close>

type_synonym 'v gomap = "(string, 'v) fmap"

text \<open>
  An instant, in nanoseconds since the Unix epoch; \<open>zero_time\<close> is Go's zero \<open>time.Time\<close>, the
  first instant of year 1. A \<open>*timestamppb.Timestamp\<close> is an optional instant, and its
  \<open>AsTime\<close> reads a nil pointer as the epoch.
\<close>

type_synonym time = int

definition zero_time :: time where
  "zero_time = - 62135596800000000000"

definition AsTime :: "time option \<Rightarrow> time" where
  "AsTime ts = (case ts of None \<Rightarrow> 0 | Some t \<Rightarrow> t)"

section \<open>Errors as values\<close>

text \<open>
  Go errors: the package-level sentinels, \<open>errors.New\<close>, and \<open>fmt.Errorf\<close> with one \<open>%w\<close>, which
  keeps the wrapped error between the text before and after it. \<open>External\<close> is an error returned
  by code outside the repository, with its message.
\<close>

datatype sentinel = ErrNotFound | ErrNoPath | errUnsupportedNLRI

datatype go_error =
    Sentinel sentinel
  | New string
  | Wrapf string go_error string
  | External string

fun sentinel_text :: "sentinel \<Rightarrow> string" where
  "sentinel_text ErrNotFound = ''not found''"
| "sentinel_text ErrNoPath = ''no path satisfies the requested constraints''"
| "sentinel_text errUnsupportedNLRI = ''unsupported BGP-LS NLRI''"

fun error_text :: "go_error \<Rightarrow> string" where
  "error_text (Sentinel s) = sentinel_text s"
| "error_text (New msg) = msg"
| "error_text (Wrapf pre e post) = pre @ error_text e @ post"
| "error_text (External msg) = msg"

fun errors_Is :: "go_error \<Rightarrow> sentinel \<Rightarrow> bool" where
  "errors_Is (Sentinel s) t = (s = t)"
| "errors_Is (New msg) t = False"
| "errors_Is (Wrapf pre e post) t = errors_Is e t"
| "errors_Is (External msg) t = False"

text \<open>
  What a call can do instead of returning: give an error, panic (a nil dereference), or block or
  loop for ever. The last two are faults of the model's result type, so that their absence is a
  theorem and not an assumption.
\<close>

datatype fault = Error go_error | Panic | Hang

type_synonym 'a result = "fault + 'a"

definition bindR :: "'e + 'a \<Rightarrow> ('a \<Rightarrow> 'e + 'b) \<Rightarrow> 'e + 'b" where
  "bindR r f = (case r of Inl e \<Rightarrow> Inl e | Inr x \<Rightarrow> f x)"

lemma bindR_simps [simp]:
  "bindR (Inl e) f = Inl e"
  "bindR (Inr x) f = f x"
  by (simp_all add: bindR_def)

lemma bindR_Inr_iff: "bindR r f = Inr y \<longleftrightarrow> (\<exists>x. r = Inr x \<and> f x = Inr y)"
  by (cases r) auto

section \<open>Doubles\<close>

text \<open>
  The program stores and compares float64 values and computes nothing with them, so a double is
  an exact rational, an infinity or NaN, with IEEE comparison: every comparison with NaN is false.
\<close>

datatype float64 = NaN | NegInf | Fin rat | PosInf

fun f_less :: "float64 \<Rightarrow> float64 \<Rightarrow> bool" where
  "f_less NaN y = False"
| "f_less NegInf y = (y \<noteq> NaN \<and> y \<noteq> NegInf)"
| "f_less (Fin a) y = (case y of Fin b \<Rightarrow> a < b | PosInf \<Rightarrow> True | _ \<Rightarrow> False)"
| "f_less PosInf y = False"

definition f_eq :: "float64 \<Rightarrow> float64 \<Rightarrow> bool" where
  "f_eq x y = (x \<noteq> NaN \<and> x = y)"

definition f_zero :: float64 where
  "f_zero = Fin 0"

definition MaxFloat64 :: float64 where
  "MaxFloat64 = Fin
     179769313486231570814527423731704356798070567525844996598917476803157260780028538760589558632766878171540458953514382464234321326889464182768467546703537516986049910576551282076245490090389328944075868508455133942304583236903222948165808559332123348274797826204144723168738177180919299881250404026184124858368"

lemma MaxFloat64_eq: "MaxFloat64 = Fin ((2 ^ 53 - 1) * 2 ^ 971)"
  by (simp add: MaxFloat64_def)

definition f_finite :: "float64 \<Rightarrow> bool" where
  "f_finite x = (case x of Fin q \<Rightarrow> True | _ \<Rightarrow> False)"

lemma f_less_irrefl [simp]: "\<not> f_less x x"
  by (cases x) auto

lemma f_less_trans: "f_less x y \<Longrightarrow> f_less y z \<Longrightarrow> f_less x z"
  by (cases x; cases y; cases z) auto

lemma f_less_not_NaN: "f_less x y \<Longrightarrow> x \<noteq> NaN \<and> y \<noteq> NaN"
  by (cases x; cases y) auto

lemma f_less_total: "x \<noteq> NaN \<Longrightarrow> y \<noteq> NaN \<Longrightarrow> f_less x y \<or> x = y \<or> f_less y x"
  by (cases x; cases y) auto

section \<open>Strings\<close>

text \<open>
  A Go string is a byte string, \<open>char list\<close> here, and \<open><\<close> on strings is the bytewise
  lexicographic order that the imported orders on \<open>char\<close> and lists give.
\<close>

fun join :: "string \<Rightarrow> string list \<Rightarrow> string" where
  "join sep [] = []"
| "join sep [s] = s"
| "join sep (s # ss) = s @ sep @ join sep ss"

fun HasPrefix :: "string \<Rightarrow> string \<Rightarrow> bool" where
  "HasPrefix s [] = True"
| "HasPrefix [] (p # ps) = False"
| "HasPrefix (c # cs) (p # ps) = (c = p \<and> HasPrefix cs ps)"

fun Contains :: "string \<Rightarrow> string \<Rightarrow> bool" where
  "Contains [] sub = (sub = [])"
| "Contains (c # cs) sub = (HasPrefix (c # cs) sub \<or> Contains cs sub)"

lemma HasPrefix_iff: "HasPrefix s p \<longleftrightarrow> (\<exists>r. s = p @ r)"
  by (induction s p rule: HasPrefix.induct) auto

lemma Contains_iff: "Contains s sub \<longleftrightarrow> (\<exists>l r. s = l @ sub @ r)"
proof (induction s)
  case Nil
  then show ?case by auto
next
  case (Cons c cs)
  show ?case
  proof
    assume "Contains (c # cs) sub"
    then consider "HasPrefix (c # cs) sub" | "Contains cs sub" by auto
    then show "\<exists>l r. c # cs = l @ sub @ r"
    proof cases
      case 1
      then show ?thesis by (metis HasPrefix_iff append_Nil)
    next
      case 2
      then show ?thesis using Cons.IH by (metis append_Cons)
    qed
  next
    assume "\<exists>l r. c # cs = l @ sub @ r"
    then obtain l r where lr: "c # cs = l @ sub @ r" by blast
    show "Contains (c # cs) sub"
    proof (cases l)
      case Nil
      with lr have "HasPrefix (c # cs) sub" by (auto simp only: HasPrefix_iff append_Nil)
      then show ?thesis by simp
    next
      case (Cons x l')
      with lr have "\<exists>l r. cs = l @ sub @ r" by auto
      then show ?thesis using Cons.IH by simp
    qed
  qed
qed

lemma Contains_empty [simp]: "Contains s []"
  by (cases s) auto

text \<open>Decimal text of an unsigned integer (\<open>fmt.Sprint\<close>, \<open>%d\<close>) and its zero-padded form.\<close>

definition digit_char :: "nat \<Rightarrow> char" where
  "digit_char d = char_of (48 + d)"

fun decimal :: "nat \<Rightarrow> string" where
  "decimal n = (if n < 10 then [digit_char n] else decimal (n div 10) @ [digit_char (n mod 10)])"

declare decimal.simps [simp del]

definition Sprint_u64 :: "u64 \<Rightarrow> string" where
  "Sprint_u64 w = decimal (unat w)"

section \<open>Iterating over maps\<close>

text \<open>
  Go ranges over a map in an unspecified order. The operations that do so take the order as an
  argument \<open>it\<close>, a function that permutes a list of keys; \<open>iter_order\<close> is all that is known
  of it.
\<close>

definition keys_of :: "('k::linorder, 'v) fmap \<Rightarrow> 'k list" where
  "keys_of m = sorted_list_of_fset (fmdom m)"

definition iter_order :: "('k list \<Rightarrow> 'k list) \<Rightarrow> bool" where
  "iter_order it \<longleftrightarrow> (\<forall>ks. mset (it ks) = mset ks)"

definition range_values :: "('k::linorder list \<Rightarrow> 'k list) \<Rightarrow> ('k, 'v) fmap \<Rightarrow> 'v list" where
  "range_values it m = map (\<lambda>k. the (fmlookup m k)) (it (keys_of m))"

definition range_entries ::
  "('k::linorder list \<Rightarrow> 'k list) \<Rightarrow> ('k, 'v) fmap \<Rightarrow> ('k \<times> 'v) list" where
  "range_entries it m = map (\<lambda>k. (k, the (fmlookup m k))) (it (keys_of m))"

lemma set_keys_of [simp]: "set (keys_of m) = fmdom' m"
  by (simp add: keys_of_def fmdom'_alt_def)

lemma distinct_keys_of [simp]: "distinct (keys_of m)"
  by (simp add: keys_of_def sorted_list_of_fset.rep_eq)

lemma sorted_keys_of [simp]: "sorted (keys_of m)"
  by (simp add: keys_of_def sorted_list_of_fset.rep_eq)

lemma iter_order_set: "iter_order it \<Longrightarrow> set (it ks) = set ks"
  by (metis iter_order_def set_mset_mset)

lemma iter_order_distinct: "iter_order it \<Longrightarrow> distinct (it ks) = distinct ks"
  by (metis iter_order_def mset_eq_imp_distinct_iff)

lemma iter_order_id [simp, intro]: "iter_order id" "iter_order (\<lambda>ks. ks)"
  by (simp_all add: iter_order_def)

lemma iter_order_rev [simp, intro]: "iter_order rev"
  by (simp add: iter_order_def)

lemma mset_range_values:
  assumes "iter_order it"
  shows "mset (range_values it m) = mset (range_values id m)"
proof -
  have "mset (it (keys_of m)) = mset (keys_of m)"
    using assms by (simp add: iter_order_def)
  then show ?thesis by (simp add: range_values_def)
qed

lemma set_range_values:
  assumes "iter_order it"
  shows "set (range_values it m) = fmran' m"
proof -
  have "set (it (keys_of m)) = fmdom' m"
    using assms by (simp add: iter_order_set)
  then show ?thesis
    by (force simp: range_values_def fmlookup_ran'_iff fmlookup_dom'_iff image_iff)
qed

section \<open>Lists of options\<close>

lemma map_filter_map: "List.map_filter f xs = List.map_filter (\<lambda>x. x) (map f xs)"
  by (induction xs) (simp_all split: option.split)

lemma map_filter_append: "List.map_filter f (xs @ ys) = List.map_filter f xs @ List.map_filter f ys"
  by (simp add: List.map_filter_def)

lemma map_filter_map_Some: "List.map_filter (\<lambda>x. x) (map Some xs) = xs"
  by (induction xs) simp_all

section \<open>Sorting by a key\<close>

text \<open>
  \<open>sort.Slice\<close> with a comparison of keys sorts; it does not promise an order among elements with
  equal keys. \<open>sort_key\<close> stands for it, and the next lemma says that on elements with distinct
  keys every sorting function returns the same list.
\<close>

lemma sorted_map_mset_unique:
  assumes "mset xs = mset ys" and "inj_on f (set xs)"
    and "sorted (map f xs)" and "sorted (map f ys)"
  shows "xs = ys"
proof -
  have "mset (map f xs) = mset (map f ys)" using assms(1) by simp
  then have eq: "map f xs = map f ys"
    using assms(3,4) by (metis properties_for_sort)
  have "set xs = set ys" using assms(1) by (metis set_mset_mset)
  then show ?thesis
    using eq assms(2) by (auto intro: map_inj_on)
qed

lemma sort_key_unique:
  assumes "mset xs = mset ys" and "inj_on f (set xs)"
  shows "sort_key f xs = sort_key f ys"
  using assms by (intro sorted_map_mset_unique[of _ _ f]) simp_all

end
