(* ===== verification/Types.thy ===== *)
theory Types
  imports Prelude
begin

text \<open>
  The protobuf messages of \<open>gen/bgpls/v1/types.pb.go\<close> and \<open>topology.pb.go\<close> that the program
  keeps and computes with, as records and datatypes with the messages' fields. A pointer to a
  message is an option value, a repeated field a list. Field names carry a prefix per message,
  since Isabelle's record fields share one name space.
\<close>

section \<open>Enumerations\<close>

text \<open>
  Protobuf enumerations are open int32 types: a message may carry a number no constant names.
  The last constructor of each datatype stands for the numbers above the declared ones,
  \<open>FRESHNESS_OTHER k\<close> for the number \<open>4 + k\<close> and so on.
\<close>

datatype Freshness =
    FRESHNESS_UNSPECIFIED
  | FRESHNESS_ACTIVE
  | FRESHNESS_STALE_SOURCE_LOST
  | FRESHNESS_WITHDRAWN
  | FRESHNESS_OTHER nat

datatype Protocol =
    PROTOCOL_UNSPECIFIED
  | PROTOCOL_ISIS_LEVEL_1
  | PROTOCOL_ISIS_LEVEL_2
  | PROTOCOL_OSPFV2
  | PROTOCOL_DIRECT
  | PROTOCOL_STATIC
  | PROTOCOL_OSPFV3
  | PROTOCOL_BGP
  | PROTOCOL_OTHER nat

datatype PeerSessionState =
    PEER_SESSION_STATE_UNSPECIFIED
  | PEER_SESSION_STATE_DISABLED
  | PEER_SESSION_STATE_IDLE
  | PEER_SESSION_STATE_CONNECT
  | PEER_SESSION_STATE_ACTIVE
  | PEER_SESSION_STATE_OPEN_SENT
  | PEER_SESSION_STATE_OPEN_CONFIRM
  | PEER_SESSION_STATE_ESTABLISHED
  | PEER_SESSION_STATE_OTHER nat

datatype EntityKind =
    ENTITY_KIND_UNSPECIFIED
  | ENTITY_KIND_NODE
  | ENTITY_KIND_LINK
  | ENTITY_KIND_PREFIX
  | ENTITY_KIND_PEER
  | ENTITY_KIND_OTHER nat

datatype PathMetric =
    PATH_METRIC_UNSPECIFIED
  | PATH_METRIC_IGP
  | PATH_METRIC_TE
  | PATH_METRIC_DELAY
  | PATH_METRIC_OTHER nat

section \<open>Messages\<close>

record RawTlv =
  tlv_type :: u32
  tlv_value :: string
  tlv_registry :: string
  tlv_enterprise_number :: u32

record Attribute =
  at_name :: string
  at_value :: string
  at_source_peer_id :: string

record Conflict =
  cf_field :: string
  cf_selected_value :: string
  cf_selected_peer_id :: string
  cf_rejected_value :: string
  cf_rejected_peer_id :: string

record EntityMeta =
  em_id :: string
  em_domain_id :: string
  em_revision :: u64
  em_first_seen :: "time option"
  em_last_seen :: "time option"
  em_freshness :: Freshness
  em_source_peer_ids :: "string list"
  em_conflicts :: "Conflict list"
  em_decoded_tlvs :: "RawTlv list"

record Domain =
  dm_id :: string
  dm_name :: string
  dm_description :: string
  dm_revision :: u64

record Node =
  nd_meta :: "EntityMeta option"
  nd_protocol :: Protocol
  nd_autonomous_system :: u32
  nd_area_id :: string
  nd_igp_router_id :: string
  nd_bgp_router_id :: string
  nd_name :: string
  nd_pseudonode :: bool
  nd_multi_topology_ids :: "u32 list"
  nd_algorithms :: "u32 list"
  nd_segment_routing_global_blocks :: "u32 list"
  nd_attributes :: "Attribute list"
  nd_ipv4_router_id :: string
  nd_ipv6_router_id :: string

record Link =
  lk_meta :: "EntityMeta option"
  lk_local_node_id :: string
  lk_remote_node_id :: string
  lk_local_address :: string
  lk_remote_address :: string
  lk_local_link_id :: u64
  lk_remote_link_id :: u64
  lk_multi_topology_id :: u32
  lk_igp_metric :: u64
  lk_te_metric :: u64
  lk_delay_microseconds :: u64
  lk_max_bandwidth :: float64
  lk_reservable_bandwidth :: float64
  lk_unreserved_bandwidth :: "float64 list"
  lk_admin_groups :: "u32 list"
  lk_srlgs :: "u32 list"
  lk_adjacency_sids :: "u32 list"
  lk_attributes :: "Attribute list"
  lk_local_ipv4_address :: string
  lk_remote_ipv4_address :: string
  lk_local_ipv6_address :: string
  lk_remote_ipv6_address :: string

record Prefix =
  px_meta :: "EntityMeta option"
  px_prefix :: string
  px_origin_node_id :: string
  px_multi_topology_id :: u32
  px_metric :: u64
  px_route_tags :: "u32 list"
  px_forwarding_address :: string
  px_prefix_sid :: u32
  px_attributes :: "Attribute list"

record Peer =
  pr_id :: string
  pr_domain_id :: string
  pr_name :: string
  pr_remote_address :: string
  pr_local_address :: string
  pr_local_as :: u32
  pr_remote_as :: u32
  pr_source_preference :: u32
  pr_enabled :: bool
  pr_passive :: bool
  pr_ebgp_multihop :: bool
  pr_multihop_ttl :: u32
  pr_gtsm :: bool
  pr_tcp_md5_secret :: string
  pr_session_state :: PeerSessionState
  pr_router_id :: string
  pr_established_at :: "time option"
  pr_last_state_change :: "time option"
  pr_last_error :: string
  pr_received_updates :: u64
  pr_rejected_updates :: u64
  pr_resource_version :: u64
  pr_capabilities :: "string list"

text \<open>A \<open>proto.Message\<close> value that the store accepts: one of the five entity messages.\<close>

datatype entity =
    NodeE Node
  | LinkE Link
  | PrefixE Prefix
  | PeerE Peer
  | DomainE Domain

section \<open>Zero values and nil-safe getters\<close>

definition zero_EntityMeta :: EntityMeta where
  "zero_EntityMeta = \<lparr>em_id = [], em_domain_id = [], em_revision = 0, em_first_seen = None,
     em_last_seen = None, em_freshness = FRESHNESS_UNSPECIFIED, em_source_peer_ids = [],
     em_conflicts = [], em_decoded_tlvs = []\<rparr>"

definition zero_Domain :: Domain where
  "zero_Domain = \<lparr>dm_id = [], dm_name = [], dm_description = [], dm_revision = 0\<rparr>"

definition zero_Node :: Node where
  "zero_Node = \<lparr>nd_meta = None, nd_protocol = PROTOCOL_UNSPECIFIED, nd_autonomous_system = 0,
     nd_area_id = [], nd_igp_router_id = [], nd_bgp_router_id = [], nd_name = [],
     nd_pseudonode = False, nd_multi_topology_ids = [], nd_algorithms = [],
     nd_segment_routing_global_blocks = [], nd_attributes = [], nd_ipv4_router_id = [],
     nd_ipv6_router_id = []\<rparr>"

definition zero_Link :: Link where
  "zero_Link = \<lparr>lk_meta = None, lk_local_node_id = [], lk_remote_node_id = [],
     lk_local_address = [], lk_remote_address = [], lk_local_link_id = 0, lk_remote_link_id = 0,
     lk_multi_topology_id = 0, lk_igp_metric = 0, lk_te_metric = 0, lk_delay_microseconds = 0,
     lk_max_bandwidth = f_zero, lk_reservable_bandwidth = f_zero, lk_unreserved_bandwidth = [],
     lk_admin_groups = [], lk_srlgs = [], lk_adjacency_sids = [], lk_attributes = [],
     lk_local_ipv4_address = [], lk_remote_ipv4_address = [], lk_local_ipv6_address = [],
     lk_remote_ipv6_address = []\<rparr>"

definition zero_Prefix :: Prefix where
  "zero_Prefix = \<lparr>px_meta = None, px_prefix = [], px_origin_node_id = [], px_multi_topology_id = 0,
     px_metric = 0, px_route_tags = [], px_forwarding_address = [], px_prefix_sid = 0,
     px_attributes = []\<rparr>"

definition zero_Peer :: Peer where
  "zero_Peer = \<lparr>pr_id = [], pr_domain_id = [], pr_name = [], pr_remote_address = [],
     pr_local_address = [], pr_local_as = 0, pr_remote_as = 0, pr_source_preference = 0,
     pr_enabled = False, pr_passive = False, pr_ebgp_multihop = False, pr_multihop_ttl = 0,
     pr_gtsm = False, pr_tcp_md5_secret = [], pr_session_state = PEER_SESSION_STATE_UNSPECIFIED,
     pr_router_id = [], pr_established_at = None, pr_last_state_change = None, pr_last_error = [],
     pr_received_updates = 0, pr_rejected_updates = 0, pr_resource_version = 0,
     pr_capabilities = []\<rparr>"

definition GetId :: "EntityMeta option \<Rightarrow> string" where
  "GetId m = (case m of None \<Rightarrow> [] | Some x \<Rightarrow> em_id x)"

definition GetDomainId :: "EntityMeta option \<Rightarrow> string" where
  "GetDomainId m = (case m of None \<Rightarrow> [] | Some x \<Rightarrow> em_domain_id x)"

definition GetFreshness :: "EntityMeta option \<Rightarrow> Freshness" where
  "GetFreshness m = (case m of None \<Rightarrow> FRESHNESS_UNSPECIFIED | Some x \<Rightarrow> em_freshness x)"

definition GetSourcePeerIds :: "EntityMeta option \<Rightarrow> string list" where
  "GetSourcePeerIds m = (case m of None \<Rightarrow> [] | Some x \<Rightarrow> em_source_peer_ids x)"

definition GetDecodedTlvs :: "EntityMeta option \<Rightarrow> RawTlv list" where
  "GetDecodedTlvs m = (case m of None \<Rightarrow> [] | Some x \<Rightarrow> em_decoded_tlvs x)"

lemmas getter_simps = GetId_def GetDomainId_def GetFreshness_def GetSourcePeerIds_def
  GetDecodedTlvs_def

text \<open>The identifiers by which the store's maps and the snapshots order the messages.\<close>

definition node_id :: "Node \<Rightarrow> string" where
  "node_id n = GetId (nd_meta n)"

definition link_id :: "Link \<Rightarrow> string" where
  "link_id l = GetId (lk_meta l)"

definition prefix_id :: "Prefix \<Rightarrow> string" where
  "prefix_id p = GetId (px_meta p)"

end
