(* ===== verification/Codec.thy ===== *)
theory Codec
  imports Types "HOL-Library.Monad_Syntax"
begin

text \<open>
  The JSON documents in which \<open>internal/store\<close> keeps entities and events: \<open>encoding/json\<close> over the
  generated structs, whose tags give the field names and \<open>omitempty\<close>. A document is modelled up to
  its text, as the tree of its values. A \<open>[]byte\<close> field that holds a document, which Go writes in
  base64, is a \<open>JDoc\<close> node. As in Go, strings that are not UTF-8 come out with every offending byte
  replaced by U+FFFD, and NaN or an infinity anywhere makes \<open>json.Marshal\<close> fail. Every encoder has
  the matching decoder as an interpretation of the locale \<open>codec\<close>.
\<close>

named_theorems codec_reads \<open>reading back a field that was written with omitempty\<close>

section \<open>Documents\<close>

datatype json =
    JNull
  | JBool bool
  | JInt int
  | JFloat float64
  | JStr string
  | JDoc json
  | JArr "json list"
  | JObj "(string \<times> json) list"

text \<open>Decoding one rune as \<open>utf8.DecodeRune\<close> does: the length of the rune a string starts with.\<close>

definition byte_in :: "char \<Rightarrow> nat \<Rightarrow> nat \<Rightarrow> bool" where
  "byte_in c lo hi \<longleftrightarrow> lo \<le> of_char c \<and> of_char c \<le> hi"

definition rune_len :: "string \<Rightarrow> nat option" where
  "rune_len s = (case s of [] \<Rightarrow> None
     | a # as \<Rightarrow>
        if byte_in a 0 0x7F then Some 1
        else (case as of [] \<Rightarrow> None
        | b # bs \<Rightarrow>
           if byte_in a 0xC2 0xDF \<and> byte_in b 0x80 0xBF then Some 2
           else (case bs of [] \<Rightarrow> None
           | c # cs \<Rightarrow>
              if byte_in c 0x80 0xBF \<and>
                 (byte_in a 0xE0 0xE0 \<and> byte_in b 0xA0 0xBF \<or> byte_in a 0xE1 0xEC \<and> byte_in b 0x80 0xBF \<or>
                  byte_in a 0xED 0xED \<and> byte_in b 0x80 0x9F \<or> byte_in a 0xEE 0xEF \<and> byte_in b 0x80 0xBF)
              then Some 3
              else (case cs of [] \<Rightarrow> None
              | d # ds \<Rightarrow>
                 if byte_in c 0x80 0xBF \<and> byte_in d 0x80 0xBF \<and>
                    (byte_in a 0xF0 0xF0 \<and> byte_in b 0x90 0xBF \<or> byte_in a 0xF1 0xF3 \<and> byte_in b 0x80 0xBF \<or>
                     byte_in a 0xF4 0xF4 \<and> byte_in b 0x80 0x8F)
                 then Some 4 else None))))"

definition replacement :: string where
  "replacement = [CHR 0xEF, CHR 0xBF, CHR 0xBD]"

function to_valid_utf8 :: "string \<Rightarrow> string" where
  "to_valid_utf8 [] = []"
| "to_valid_utf8 (c # cs) = (case rune_len (c # cs) of
     None \<Rightarrow> replacement @ to_valid_utf8 cs
   | Some n \<Rightarrow> take n (c # cs) @ to_valid_utf8 (drop (n - 1) cs))"
  by pat_completeness auto
termination by (relation "measure length") auto

definition utf8_valid :: "string \<Rightarrow> bool" where
  "utf8_valid s \<longleftrightarrow> to_valid_utf8 s = s"

fun coerce_json :: "json \<Rightarrow> json" where
  "coerce_json (JStr s) = JStr (to_valid_utf8 s)"
| "coerce_json (JArr js) = JArr (map coerce_json js)"
| "coerce_json (JObj fs) = JObj (map (\<lambda>(n, j). (n, coerce_json j)) fs)"
| "coerce_json j = j"

fun finite_json :: "json \<Rightarrow> bool" where
  "finite_json (JFloat x) = f_finite x"
| "finite_json (JArr js) = list_all finite_json js"
| "finite_json (JObj fs) = list_all (\<lambda>(n, j). finite_json j) fs"
| "finite_json j = True"

definition json_ok :: "json \<Rightarrow> bool" where
  "json_ok j \<longleftrightarrow> finite_json j \<and> coerce_json j = j"

definition marshal :: "json \<Rightarrow> go_error + json" where
  "marshal j = (if finite_json j then Inr (coerce_json j) else Inl (External ''json: unsupported value''))"

lemma marshal_ok: "json_ok j \<Longrightarrow> marshal j = Inr j"
  by (simp add: marshal_def json_ok_def)

section \<open>Objects with omitted empty fields\<close>

definition omit :: "'a \<Rightarrow> ('a \<Rightarrow> json) \<Rightarrow> 'a \<Rightarrow> json option" where
  "omit z enc x = (if x = z then None else Some (enc x))"

definition present :: "(string \<times> json option) list \<Rightarrow> (string \<times> json) list" where
  "present fs = List.map_filter (\<lambda>(n, v). map_option (Pair n) v) fs"

definition read :: "(json \<Rightarrow> 'a option) \<Rightarrow> 'a \<Rightarrow> json option \<Rightarrow> 'a option" where
  "read dec z v = (case v of None \<Rightarrow> Some z | Some j \<Rightarrow> if j = JNull then Some z else dec j)"

definition get :: "(string \<times> json) list \<Rightarrow> string \<Rightarrow> (json \<Rightarrow> 'a option) \<Rightarrow> 'a \<Rightarrow> 'a option" where
  "get fs n dec z = read dec z (map_of fs n)"

definition dec_obj :: "((string \<times> json) list \<Rightarrow> 'a option) \<Rightarrow> json \<Rightarrow> 'a option" where
  "dec_obj f j = (case j of JNull \<Rightarrow> f [] | JObj fs \<Rightarrow> f fs | _ \<Rightarrow> None)"

lemma dec_obj_JObj [simp]: "dec_obj f (JObj fs) = f fs"
  by (simp add: dec_obj_def)

lemma present_simps [simp]:
  "present [] = []"
  "present ((n, v) # fs) = (case v of None \<Rightarrow> present fs | Some j \<Rightarrow> (n, j) # present fs)"
  by (simp_all add: present_def split: option.split)

lemma present_names: "fst ` set (present fs) \<subseteq> fst ` set fs"
proof (induction fs)
  case (Cons f fs)
  obtain m v where "f = (m, v)" by (cases f)
  then show ?case using Cons by (cases v) (simp_all, blast+)
qed simp

lemma map_of_present:
  "distinct (map fst fs) \<Longrightarrow> map_of (present fs) n = (case map_of fs n of None \<Rightarrow> None | Some v \<Rightarrow> v)"
proof (induction fs)
  case (Cons f fs)
  obtain m v where f: "f = (m, v)" by (cases f)
  have "map_of (present fs) m = None"
    using Cons.prems present_names[of fs] by (auto simp: f map_of_eq_None_iff)
  then show ?case using Cons by (cases v; cases "n = m") (simp_all add: f)
qed simp

declare present_simps [simp del]

lemma get_present:
  "distinct (map fst fs) \<Longrightarrow>
     get (present fs) n dec z = read dec z (case map_of fs n of None \<Rightarrow> None | Some v \<Rightarrow> v)"
  by (simp add: get_def map_of_present)

section \<open>Codecs\<close>

fun dec_all :: "(json \<Rightarrow> 'a option) \<Rightarrow> json list \<Rightarrow> 'a list option" where
  "dec_all dec [] = Some []"
| "dec_all dec (j # js) = do { x \<leftarrow> dec j; xs \<leftarrow> dec_all dec js; Some (x # xs) }"

definition enc_list :: "('a \<Rightarrow> json) \<Rightarrow> 'a list \<Rightarrow> json" where
  "enc_list enc xs = JArr (map enc xs)"

definition dec_list :: "(json \<Rightarrow> 'a option) \<Rightarrow> json \<Rightarrow> 'a list option" where
  "dec_list dec j = (case j of JArr js \<Rightarrow> dec_all dec js | _ \<Rightarrow> None)"

definition enc_ptr :: "('a \<Rightarrow> json) \<Rightarrow> 'a option \<Rightarrow> json" where
  "enc_ptr enc x = (case x of None \<Rightarrow> JNull | Some y \<Rightarrow> enc y)"

definition dec_ptr :: "(json \<Rightarrow> 'a option) \<Rightarrow> json \<Rightarrow> 'a option option" where
  "dec_ptr dec j = map_option Some (dec j)"

locale codec =
  fixes enc :: "'a \<Rightarrow> json" and dec :: "json \<Rightarrow> 'a option"
  assumes dec_enc: "dec (enc x) = Some x"
    and enc_not_null: "enc x \<noteq> JNull"
begin

lemma read_omit: "read dec z (omit z enc x) = Some x"
  by (simp add: read_def omit_def dec_enc enc_not_null)

lemma dec_all_map: "dec_all dec (map enc xs) = Some xs"
  by (induction xs) (simp_all add: dec_enc)

lemma read_omit_list: "read (dec_list dec) [] (omit [] (enc_list enc) xs) = Some xs"
  by (simp add: read_def omit_def dec_list_def enc_list_def dec_all_map)

lemma read_omit_ptr: "read (dec_ptr dec) None (omit None (enc_ptr enc) x) = Some x"
  by (cases x) (simp_all add: read_def omit_def dec_ptr_def enc_ptr_def dec_enc enc_not_null)

lemma enc_inject: "enc x = enc y \<longleftrightarrow> x = y"
  using dec_enc by (metis option.inject)

end

definition dec_bool :: "json \<Rightarrow> bool option" where
  "dec_bool j = (case j of JBool b \<Rightarrow> Some b | _ \<Rightarrow> None)"

definition dec_string :: "json \<Rightarrow> string option" where
  "dec_string j = (case j of JStr s \<Rightarrow> Some s | _ \<Rightarrow> None)"

definition dec_float :: "json \<Rightarrow> float64 option" where
  "dec_float j = (case j of JFloat x \<Rightarrow> Some x | _ \<Rightarrow> None)"

definition dec_doc :: "json \<Rightarrow> json option" where
  "dec_doc j = (case j of JDoc d \<Rightarrow> Some d | _ \<Rightarrow> None)"

definition enc_word :: "'a::len word \<Rightarrow> json" where
  "enc_word w = JInt (uint w)"

definition dec_word :: "json \<Rightarrow> 'a::len word option" where
  "dec_word j = (case j of
     JInt i \<Rightarrow> if 0 \<le> i \<and> i < 2 ^ LENGTH('a) then Some (word_of_int i) else None | _ \<Rightarrow> None)"

text \<open>A \<open>timestamppb.Timestamp\<close> holds whole seconds and the nanoseconds of the rest.\<close>

definition dec_int :: "json \<Rightarrow> int option" where
  "dec_int j = (case j of JInt i \<Rightarrow> Some i | _ \<Rightarrow> None)"

definition enc_time :: "time \<Rightarrow> json" where
  "enc_time t = JObj (present [(''seconds'', omit 0 JInt (t div 1000000000)),
     (''nanos'', omit 0 JInt (t mod 1000000000))])"

definition dec_time :: "json \<Rightarrow> time option" where
  "dec_time = dec_obj (\<lambda>fs. do {
     seconds \<leftarrow> get fs ''seconds'' dec_int 0; nanos \<leftarrow> get fs ''nanos'' dec_int 0;
     Some (seconds * 1000000000 + nanos) })"

interpretation bool_codec: codec JBool dec_bool
  by unfold_locales (simp_all add: dec_bool_def)

interpretation string_codec: codec JStr dec_string
  by unfold_locales (simp_all add: dec_string_def)

interpretation float_codec: codec JFloat dec_float
  by unfold_locales (simp_all add: dec_float_def)

interpretation doc_codec: codec JDoc dec_doc
  by unfold_locales (simp_all add: dec_doc_def)

interpretation int_codec: codec JInt dec_int
  by unfold_locales (simp_all add: dec_int_def)

interpretation word_codec: codec "enc_word :: 'a::len word \<Rightarrow> json" dec_word
proof
  fix x :: "'a word"
  have "uint x < 2 ^ LENGTH('a)" by (rule uint_lt2p)
  then show "dec_word (enc_word x) = Some x" by (simp add: dec_word_def enc_word_def)
qed (simp add: enc_word_def)

lemmas basic_reads [codec_reads] = bool_codec.read_omit string_codec.read_omit float_codec.read_omit
  int_codec.read_omit word_codec.read_omit string_codec.read_omit_list float_codec.read_omit_list
  word_codec.read_omit_list doc_codec.read_omit_ptr

lemma dec_enc_time: "dec_time (enc_time t) = Some t"
  by (simp add: dec_time_def enc_time_def get_present codec_reads)

interpretation time_codec: codec enc_time dec_time
  by unfold_locales (simp_all add: dec_enc_time, simp add: enc_time_def)

lemmas time_reads [codec_reads] = time_codec.read_omit_ptr

section \<open>Enumerations, by number\<close>

fun Freshness_number :: "Freshness \<Rightarrow> nat" where
  "Freshness_number FRESHNESS_UNSPECIFIED = 0"
| "Freshness_number FRESHNESS_ACTIVE = 1"
| "Freshness_number FRESHNESS_STALE_SOURCE_LOST = 2"
| "Freshness_number FRESHNESS_WITHDRAWN = 3"
| "Freshness_number (FRESHNESS_OTHER k) = 4 + k"

definition Freshness_of :: "nat \<Rightarrow> Freshness" where
  "Freshness_of n = (if n < 4 then [FRESHNESS_UNSPECIFIED, FRESHNESS_ACTIVE, FRESHNESS_STALE_SOURCE_LOST, FRESHNESS_WITHDRAWN] ! n
     else FRESHNESS_OTHER (n - 4))"

definition enc_Freshness :: "Freshness \<Rightarrow> json" where
  "enc_Freshness x = JInt (int (Freshness_number x))"

definition dec_Freshness :: "json \<Rightarrow> Freshness option" where
  "dec_Freshness j = (case j of JInt i \<Rightarrow> if 0 \<le> i then Some (Freshness_of (nat i)) else None | _ \<Rightarrow> None)"

lemma Freshness_of_number [simp]: "Freshness_of (Freshness_number x) = x"
  by (cases x) (simp_all add: Freshness_of_def)

interpretation Freshness_codec: codec enc_Freshness dec_Freshness
  by unfold_locales (simp_all add: dec_Freshness_def enc_Freshness_def)

lemmas Freshness_reads [codec_reads] = Freshness_codec.read_omit

fun Protocol_number :: "Protocol \<Rightarrow> nat" where
  "Protocol_number PROTOCOL_UNSPECIFIED = 0"
| "Protocol_number PROTOCOL_ISIS_LEVEL_1 = 1"
| "Protocol_number PROTOCOL_ISIS_LEVEL_2 = 2"
| "Protocol_number PROTOCOL_OSPFV2 = 3"
| "Protocol_number PROTOCOL_DIRECT = 4"
| "Protocol_number PROTOCOL_STATIC = 5"
| "Protocol_number PROTOCOL_OSPFV3 = 6"
| "Protocol_number PROTOCOL_BGP = 7"
| "Protocol_number (PROTOCOL_OTHER k) = 8 + k"

definition Protocol_of :: "nat \<Rightarrow> Protocol" where
  "Protocol_of n = (if n < 8 then [PROTOCOL_UNSPECIFIED, PROTOCOL_ISIS_LEVEL_1, PROTOCOL_ISIS_LEVEL_2, PROTOCOL_OSPFV2, PROTOCOL_DIRECT, PROTOCOL_STATIC, PROTOCOL_OSPFV3, PROTOCOL_BGP] ! n
     else PROTOCOL_OTHER (n - 8))"

definition enc_Protocol :: "Protocol \<Rightarrow> json" where
  "enc_Protocol x = JInt (int (Protocol_number x))"

definition dec_Protocol :: "json \<Rightarrow> Protocol option" where
  "dec_Protocol j = (case j of JInt i \<Rightarrow> if 0 \<le> i then Some (Protocol_of (nat i)) else None | _ \<Rightarrow> None)"

lemma Protocol_of_number [simp]: "Protocol_of (Protocol_number x) = x"
  by (cases x) (simp_all add: Protocol_of_def)

interpretation Protocol_codec: codec enc_Protocol dec_Protocol
  by unfold_locales (simp_all add: dec_Protocol_def enc_Protocol_def)

lemmas Protocol_reads [codec_reads] = Protocol_codec.read_omit

fun PeerSessionState_number :: "PeerSessionState \<Rightarrow> nat" where
  "PeerSessionState_number PEER_SESSION_STATE_UNSPECIFIED = 0"
| "PeerSessionState_number PEER_SESSION_STATE_DISABLED = 1"
| "PeerSessionState_number PEER_SESSION_STATE_IDLE = 2"
| "PeerSessionState_number PEER_SESSION_STATE_CONNECT = 3"
| "PeerSessionState_number PEER_SESSION_STATE_ACTIVE = 4"
| "PeerSessionState_number PEER_SESSION_STATE_OPEN_SENT = 5"
| "PeerSessionState_number PEER_SESSION_STATE_OPEN_CONFIRM = 6"
| "PeerSessionState_number PEER_SESSION_STATE_ESTABLISHED = 7"
| "PeerSessionState_number (PEER_SESSION_STATE_OTHER k) = 8 + k"

definition PeerSessionState_of :: "nat \<Rightarrow> PeerSessionState" where
  "PeerSessionState_of n = (if n < 8 then [PEER_SESSION_STATE_UNSPECIFIED, PEER_SESSION_STATE_DISABLED, PEER_SESSION_STATE_IDLE, PEER_SESSION_STATE_CONNECT, PEER_SESSION_STATE_ACTIVE, PEER_SESSION_STATE_OPEN_SENT, PEER_SESSION_STATE_OPEN_CONFIRM, PEER_SESSION_STATE_ESTABLISHED] ! n
     else PEER_SESSION_STATE_OTHER (n - 8))"

definition enc_PeerSessionState :: "PeerSessionState \<Rightarrow> json" where
  "enc_PeerSessionState x = JInt (int (PeerSessionState_number x))"

definition dec_PeerSessionState :: "json \<Rightarrow> PeerSessionState option" where
  "dec_PeerSessionState j = (case j of JInt i \<Rightarrow> if 0 \<le> i then Some (PeerSessionState_of (nat i)) else None | _ \<Rightarrow> None)"

lemma PeerSessionState_of_number [simp]: "PeerSessionState_of (PeerSessionState_number x) = x"
  by (cases x) (simp_all add: PeerSessionState_of_def)

interpretation PeerSessionState_codec: codec enc_PeerSessionState dec_PeerSessionState
  by unfold_locales (simp_all add: dec_PeerSessionState_def enc_PeerSessionState_def)

lemmas PeerSessionState_reads [codec_reads] = PeerSessionState_codec.read_omit

fun EntityKind_number :: "EntityKind \<Rightarrow> nat" where
  "EntityKind_number ENTITY_KIND_UNSPECIFIED = 0"
| "EntityKind_number ENTITY_KIND_NODE = 1"
| "EntityKind_number ENTITY_KIND_LINK = 2"
| "EntityKind_number ENTITY_KIND_PREFIX = 3"
| "EntityKind_number ENTITY_KIND_PEER = 4"
| "EntityKind_number (ENTITY_KIND_OTHER k) = 5 + k"

definition EntityKind_of :: "nat \<Rightarrow> EntityKind" where
  "EntityKind_of n = (if n < 5 then [ENTITY_KIND_UNSPECIFIED, ENTITY_KIND_NODE, ENTITY_KIND_LINK, ENTITY_KIND_PREFIX, ENTITY_KIND_PEER] ! n
     else ENTITY_KIND_OTHER (n - 5))"

definition enc_EntityKind :: "EntityKind \<Rightarrow> json" where
  "enc_EntityKind x = JInt (int (EntityKind_number x))"

definition dec_EntityKind :: "json \<Rightarrow> EntityKind option" where
  "dec_EntityKind j = (case j of JInt i \<Rightarrow> if 0 \<le> i then Some (EntityKind_of (nat i)) else None | _ \<Rightarrow> None)"

lemma EntityKind_of_number [simp]: "EntityKind_of (EntityKind_number x) = x"
  by (cases x) (simp_all add: EntityKind_of_def)

interpretation EntityKind_codec: codec enc_EntityKind dec_EntityKind
  by unfold_locales (simp_all add: dec_EntityKind_def enc_EntityKind_def)

lemmas EntityKind_reads [codec_reads] = EntityKind_codec.read_omit

section \<open>Messages\<close>

definition enc_RawTlv :: "RawTlv \<Rightarrow> json" where
  "enc_RawTlv v = JObj (present [
     (''type'', omit 0 enc_word (tlv_type v)), (''value'', omit [] JStr (tlv_value v)),
     (''registry'', omit [] JStr (tlv_registry v)),
     (''enterprise_number'', omit 0 enc_word (tlv_enterprise_number v))])"

definition dec_RawTlv :: "json \<Rightarrow> RawTlv option" where
  "dec_RawTlv = dec_obj (\<lambda>fs. do {
     tlv_type' \<leftarrow> get fs ''type'' dec_word 0;
     tlv_value' \<leftarrow> get fs ''value'' dec_string [];
     tlv_registry' \<leftarrow> get fs ''registry'' dec_string [];
     tlv_enterprise_number' \<leftarrow> get fs ''enterprise_number'' dec_word 0;
     Some \<lparr>tlv_type = tlv_type', tlv_value = tlv_value', tlv_registry = tlv_registry',
       tlv_enterprise_number = tlv_enterprise_number'\<rparr> })"

lemma dec_enc_RawTlv: "dec_RawTlv (enc_RawTlv v) = Some v"
  by (simp add: dec_RawTlv_def enc_RawTlv_def get_present codec_reads)

interpretation RawTlv_codec: codec enc_RawTlv dec_RawTlv
  by unfold_locales (simp_all add: dec_enc_RawTlv, simp add: enc_RawTlv_def)

lemmas RawTlv_reads [codec_reads] = RawTlv_codec.read_omit_ptr RawTlv_codec.read_omit_list

definition enc_Attribute :: "Attribute \<Rightarrow> json" where
  "enc_Attribute v = JObj (present [
     (''name'', omit [] JStr (at_name v)), (''value'', omit [] JStr (at_value v)),
     (''source_peer_id'', omit [] JStr (at_source_peer_id v))])"

definition dec_Attribute :: "json \<Rightarrow> Attribute option" where
  "dec_Attribute = dec_obj (\<lambda>fs. do {
     at_name' \<leftarrow> get fs ''name'' dec_string [];
     at_value' \<leftarrow> get fs ''value'' dec_string [];
     at_source_peer_id' \<leftarrow> get fs ''source_peer_id'' dec_string [];
     Some \<lparr>at_name = at_name', at_value = at_value', at_source_peer_id = at_source_peer_id'\<rparr> })"

lemma dec_enc_Attribute: "dec_Attribute (enc_Attribute v) = Some v"
  by (simp add: dec_Attribute_def enc_Attribute_def get_present codec_reads)

interpretation Attribute_codec: codec enc_Attribute dec_Attribute
  by unfold_locales (simp_all add: dec_enc_Attribute, simp add: enc_Attribute_def)

lemmas Attribute_reads [codec_reads] = Attribute_codec.read_omit_ptr Attribute_codec.read_omit_list

definition enc_Conflict :: "Conflict \<Rightarrow> json" where
  "enc_Conflict v = JObj (present [
     (''field'', omit [] JStr (cf_field v)),
     (''selected_value'', omit [] JStr (cf_selected_value v)),
     (''selected_peer_id'', omit [] JStr (cf_selected_peer_id v)),
     (''rejected_value'', omit [] JStr (cf_rejected_value v)),
     (''rejected_peer_id'', omit [] JStr (cf_rejected_peer_id v))])"

definition dec_Conflict :: "json \<Rightarrow> Conflict option" where
  "dec_Conflict = dec_obj (\<lambda>fs. do {
     cf_field' \<leftarrow> get fs ''field'' dec_string [];
     cf_selected_value' \<leftarrow> get fs ''selected_value'' dec_string [];
     cf_selected_peer_id' \<leftarrow> get fs ''selected_peer_id'' dec_string [];
     cf_rejected_value' \<leftarrow> get fs ''rejected_value'' dec_string [];
     cf_rejected_peer_id' \<leftarrow> get fs ''rejected_peer_id'' dec_string [];
     Some \<lparr>cf_field = cf_field', cf_selected_value = cf_selected_value',
       cf_selected_peer_id = cf_selected_peer_id', cf_rejected_value = cf_rejected_value',
       cf_rejected_peer_id = cf_rejected_peer_id'\<rparr> })"

lemma dec_enc_Conflict: "dec_Conflict (enc_Conflict v) = Some v"
  by (simp add: dec_Conflict_def enc_Conflict_def get_present codec_reads)

interpretation Conflict_codec: codec enc_Conflict dec_Conflict
  by unfold_locales (simp_all add: dec_enc_Conflict, simp add: enc_Conflict_def)

lemmas Conflict_reads [codec_reads] = Conflict_codec.read_omit_ptr Conflict_codec.read_omit_list

definition enc_EntityMeta :: "EntityMeta \<Rightarrow> json" where
  "enc_EntityMeta v = JObj (present [
     (''id'', omit [] JStr (em_id v)), (''domain_id'', omit [] JStr (em_domain_id v)),
     (''revision'', omit 0 enc_word (em_revision v)),
     (''first_seen'', omit None (enc_ptr enc_time) (em_first_seen v)),
     (''last_seen'', omit None (enc_ptr enc_time) (em_last_seen v)),
     (''freshness'', omit FRESHNESS_UNSPECIFIED enc_Freshness (em_freshness v)),
     (''source_peer_ids'', omit [] (enc_list JStr) (em_source_peer_ids v)),
     (''conflicts'', omit [] (enc_list enc_Conflict) (em_conflicts v)),
     (''decoded_tlvs'', omit [] (enc_list enc_RawTlv) (em_decoded_tlvs v))])"

definition dec_EntityMeta :: "json \<Rightarrow> EntityMeta option" where
  "dec_EntityMeta = dec_obj (\<lambda>fs. do {
     em_id' \<leftarrow> get fs ''id'' dec_string [];
     em_domain_id' \<leftarrow> get fs ''domain_id'' dec_string [];
     em_revision' \<leftarrow> get fs ''revision'' dec_word 0;
     em_first_seen' \<leftarrow> get fs ''first_seen'' (dec_ptr dec_time) None;
     em_last_seen' \<leftarrow> get fs ''last_seen'' (dec_ptr dec_time) None;
     em_freshness' \<leftarrow> get fs ''freshness'' dec_Freshness FRESHNESS_UNSPECIFIED;
     em_source_peer_ids' \<leftarrow> get fs ''source_peer_ids'' (dec_list dec_string) [];
     em_conflicts' \<leftarrow> get fs ''conflicts'' (dec_list dec_Conflict) [];
     em_decoded_tlvs' \<leftarrow> get fs ''decoded_tlvs'' (dec_list dec_RawTlv) [];
     Some \<lparr>em_id = em_id', em_domain_id = em_domain_id', em_revision = em_revision',
       em_first_seen = em_first_seen', em_last_seen = em_last_seen', em_freshness = em_freshness',
       em_source_peer_ids = em_source_peer_ids', em_conflicts = em_conflicts',
       em_decoded_tlvs = em_decoded_tlvs'\<rparr> })"

lemma dec_enc_EntityMeta: "dec_EntityMeta (enc_EntityMeta v) = Some v"
  by (simp add: dec_EntityMeta_def enc_EntityMeta_def get_present codec_reads)

interpretation EntityMeta_codec: codec enc_EntityMeta dec_EntityMeta
  by unfold_locales (simp_all add: dec_enc_EntityMeta, simp add: enc_EntityMeta_def)

lemmas EntityMeta_reads [codec_reads] = EntityMeta_codec.read_omit_ptr EntityMeta_codec.read_omit_list

definition enc_Domain :: "Domain \<Rightarrow> json" where
  "enc_Domain v = JObj (present [
     (''id'', omit [] JStr (dm_id v)), (''name'', omit [] JStr (dm_name v)),
     (''description'', omit [] JStr (dm_description v)),
     (''revision'', omit 0 enc_word (dm_revision v))])"

definition dec_Domain :: "json \<Rightarrow> Domain option" where
  "dec_Domain = dec_obj (\<lambda>fs. do {
     dm_id' \<leftarrow> get fs ''id'' dec_string [];
     dm_name' \<leftarrow> get fs ''name'' dec_string [];
     dm_description' \<leftarrow> get fs ''description'' dec_string [];
     dm_revision' \<leftarrow> get fs ''revision'' dec_word 0;
     Some \<lparr>dm_id = dm_id', dm_name = dm_name', dm_description = dm_description',
       dm_revision = dm_revision'\<rparr> })"

lemma dec_enc_Domain: "dec_Domain (enc_Domain v) = Some v"
  by (simp add: dec_Domain_def enc_Domain_def get_present codec_reads)

interpretation Domain_codec: codec enc_Domain dec_Domain
  by unfold_locales (simp_all add: dec_enc_Domain, simp add: enc_Domain_def)

lemmas Domain_reads [codec_reads] = Domain_codec.read_omit_ptr Domain_codec.read_omit_list

definition enc_Node :: "Node \<Rightarrow> json" where
  "enc_Node v = JObj (present [
     (''meta'', omit None (enc_ptr enc_EntityMeta) (nd_meta v)),
     (''protocol'', omit PROTOCOL_UNSPECIFIED enc_Protocol (nd_protocol v)),
     (''autonomous_system'', omit 0 enc_word (nd_autonomous_system v)),
     (''area_id'', omit [] JStr (nd_area_id v)),
     (''igp_router_id'', omit [] JStr (nd_igp_router_id v)),
     (''bgp_router_id'', omit [] JStr (nd_bgp_router_id v)), (''name'', omit [] JStr (nd_name v)),
     (''pseudonode'', omit False JBool (nd_pseudonode v)),
     (''multi_topology_ids'', omit [] (enc_list enc_word) (nd_multi_topology_ids v)),
     (''algorithms'', omit [] (enc_list enc_word) (nd_algorithms v)),
     (''segment_routing_global_blocks'', omit [] (enc_list enc_word) (nd_segment_routing_global_blocks v)),
     (''attributes'', omit [] (enc_list enc_Attribute) (nd_attributes v)),
     (''ipv4_router_id'', omit [] JStr (nd_ipv4_router_id v)),
     (''ipv6_router_id'', omit [] JStr (nd_ipv6_router_id v))])"

definition dec_Node :: "json \<Rightarrow> Node option" where
  "dec_Node = dec_obj (\<lambda>fs. do {
     nd_meta' \<leftarrow> get fs ''meta'' (dec_ptr dec_EntityMeta) None;
     nd_protocol' \<leftarrow> get fs ''protocol'' dec_Protocol PROTOCOL_UNSPECIFIED;
     nd_autonomous_system' \<leftarrow> get fs ''autonomous_system'' dec_word 0;
     nd_area_id' \<leftarrow> get fs ''area_id'' dec_string [];
     nd_igp_router_id' \<leftarrow> get fs ''igp_router_id'' dec_string [];
     nd_bgp_router_id' \<leftarrow> get fs ''bgp_router_id'' dec_string [];
     nd_name' \<leftarrow> get fs ''name'' dec_string [];
     nd_pseudonode' \<leftarrow> get fs ''pseudonode'' dec_bool False;
     nd_multi_topology_ids' \<leftarrow> get fs ''multi_topology_ids'' (dec_list dec_word) [];
     nd_algorithms' \<leftarrow> get fs ''algorithms'' (dec_list dec_word) [];
     nd_segment_routing_global_blocks' \<leftarrow> get fs ''segment_routing_global_blocks'' (dec_list dec_word) [];
     nd_attributes' \<leftarrow> get fs ''attributes'' (dec_list dec_Attribute) [];
     nd_ipv4_router_id' \<leftarrow> get fs ''ipv4_router_id'' dec_string [];
     nd_ipv6_router_id' \<leftarrow> get fs ''ipv6_router_id'' dec_string [];
     Some \<lparr>nd_meta = nd_meta', nd_protocol = nd_protocol',
       nd_autonomous_system = nd_autonomous_system', nd_area_id = nd_area_id',
       nd_igp_router_id = nd_igp_router_id', nd_bgp_router_id = nd_bgp_router_id',
       nd_name = nd_name', nd_pseudonode = nd_pseudonode',
       nd_multi_topology_ids = nd_multi_topology_ids', nd_algorithms = nd_algorithms',
       nd_segment_routing_global_blocks = nd_segment_routing_global_blocks',
       nd_attributes = nd_attributes', nd_ipv4_router_id = nd_ipv4_router_id',
       nd_ipv6_router_id = nd_ipv6_router_id'\<rparr> })"

lemma dec_enc_Node: "dec_Node (enc_Node v) = Some v"
  by (simp add: dec_Node_def enc_Node_def get_present codec_reads)

interpretation Node_codec: codec enc_Node dec_Node
  by unfold_locales (simp_all add: dec_enc_Node, simp add: enc_Node_def)

lemmas Node_reads [codec_reads] = Node_codec.read_omit_ptr Node_codec.read_omit_list

definition enc_Link :: "Link \<Rightarrow> json" where
  "enc_Link v = JObj (present [
     (''meta'', omit None (enc_ptr enc_EntityMeta) (lk_meta v)),
     (''local_node_id'', omit [] JStr (lk_local_node_id v)),
     (''remote_node_id'', omit [] JStr (lk_remote_node_id v)),
     (''local_address'', omit [] JStr (lk_local_address v)),
     (''remote_address'', omit [] JStr (lk_remote_address v)),
     (''local_link_id'', omit 0 enc_word (lk_local_link_id v)),
     (''remote_link_id'', omit 0 enc_word (lk_remote_link_id v)),
     (''multi_topology_id'', omit 0 enc_word (lk_multi_topology_id v)),
     (''igp_metric'', omit 0 enc_word (lk_igp_metric v)),
     (''te_metric'', omit 0 enc_word (lk_te_metric v)),
     (''delay_microseconds'', omit 0 enc_word (lk_delay_microseconds v)),
     (''max_bandwidth_bytes_per_second'', omit f_zero JFloat (lk_max_bandwidth v)),
     (''reservable_bandwidth_bytes_per_second'', omit f_zero JFloat (lk_reservable_bandwidth v)),
     (''unreserved_bandwidth_bytes_per_second'', omit [] (enc_list JFloat) (lk_unreserved_bandwidth v)),
     (''admin_groups'', omit [] (enc_list enc_word) (lk_admin_groups v)),
     (''srlgs'', omit [] (enc_list enc_word) (lk_srlgs v)),
     (''adjacency_sids'', omit [] (enc_list enc_word) (lk_adjacency_sids v)),
     (''attributes'', omit [] (enc_list enc_Attribute) (lk_attributes v)),
     (''local_ipv4_address'', omit [] JStr (lk_local_ipv4_address v)),
     (''remote_ipv4_address'', omit [] JStr (lk_remote_ipv4_address v)),
     (''local_ipv6_address'', omit [] JStr (lk_local_ipv6_address v)),
     (''remote_ipv6_address'', omit [] JStr (lk_remote_ipv6_address v))])"

definition dec_Link :: "json \<Rightarrow> Link option" where
  "dec_Link = dec_obj (\<lambda>fs. do {
     lk_meta' \<leftarrow> get fs ''meta'' (dec_ptr dec_EntityMeta) None;
     lk_local_node_id' \<leftarrow> get fs ''local_node_id'' dec_string [];
     lk_remote_node_id' \<leftarrow> get fs ''remote_node_id'' dec_string [];
     lk_local_address' \<leftarrow> get fs ''local_address'' dec_string [];
     lk_remote_address' \<leftarrow> get fs ''remote_address'' dec_string [];
     lk_local_link_id' \<leftarrow> get fs ''local_link_id'' dec_word 0;
     lk_remote_link_id' \<leftarrow> get fs ''remote_link_id'' dec_word 0;
     lk_multi_topology_id' \<leftarrow> get fs ''multi_topology_id'' dec_word 0;
     lk_igp_metric' \<leftarrow> get fs ''igp_metric'' dec_word 0;
     lk_te_metric' \<leftarrow> get fs ''te_metric'' dec_word 0;
     lk_delay_microseconds' \<leftarrow> get fs ''delay_microseconds'' dec_word 0;
     lk_max_bandwidth' \<leftarrow> get fs ''max_bandwidth_bytes_per_second'' dec_float f_zero;
     lk_reservable_bandwidth' \<leftarrow> get fs ''reservable_bandwidth_bytes_per_second'' dec_float f_zero;
     lk_unreserved_bandwidth' \<leftarrow> get fs ''unreserved_bandwidth_bytes_per_second'' (dec_list dec_float) [];
     lk_admin_groups' \<leftarrow> get fs ''admin_groups'' (dec_list dec_word) [];
     lk_srlgs' \<leftarrow> get fs ''srlgs'' (dec_list dec_word) [];
     lk_adjacency_sids' \<leftarrow> get fs ''adjacency_sids'' (dec_list dec_word) [];
     lk_attributes' \<leftarrow> get fs ''attributes'' (dec_list dec_Attribute) [];
     lk_local_ipv4_address' \<leftarrow> get fs ''local_ipv4_address'' dec_string [];
     lk_remote_ipv4_address' \<leftarrow> get fs ''remote_ipv4_address'' dec_string [];
     lk_local_ipv6_address' \<leftarrow> get fs ''local_ipv6_address'' dec_string [];
     lk_remote_ipv6_address' \<leftarrow> get fs ''remote_ipv6_address'' dec_string [];
     Some \<lparr>lk_meta = lk_meta', lk_local_node_id = lk_local_node_id',
       lk_remote_node_id = lk_remote_node_id', lk_local_address = lk_local_address',
       lk_remote_address = lk_remote_address', lk_local_link_id = lk_local_link_id',
       lk_remote_link_id = lk_remote_link_id', lk_multi_topology_id = lk_multi_topology_id',
       lk_igp_metric = lk_igp_metric', lk_te_metric = lk_te_metric',
       lk_delay_microseconds = lk_delay_microseconds', lk_max_bandwidth = lk_max_bandwidth',
       lk_reservable_bandwidth = lk_reservable_bandwidth',
       lk_unreserved_bandwidth = lk_unreserved_bandwidth', lk_admin_groups = lk_admin_groups',
       lk_srlgs = lk_srlgs', lk_adjacency_sids = lk_adjacency_sids',
       lk_attributes = lk_attributes', lk_local_ipv4_address = lk_local_ipv4_address',
       lk_remote_ipv4_address = lk_remote_ipv4_address',
       lk_local_ipv6_address = lk_local_ipv6_address',
       lk_remote_ipv6_address = lk_remote_ipv6_address'\<rparr> })"

lemma dec_enc_Link: "dec_Link (enc_Link v) = Some v"
  by (simp add: dec_Link_def enc_Link_def get_present codec_reads)

interpretation Link_codec: codec enc_Link dec_Link
  by unfold_locales (simp_all add: dec_enc_Link, simp add: enc_Link_def)

lemmas Link_reads [codec_reads] = Link_codec.read_omit_ptr Link_codec.read_omit_list

definition enc_Prefix :: "Prefix \<Rightarrow> json" where
  "enc_Prefix v = JObj (present [
     (''meta'', omit None (enc_ptr enc_EntityMeta) (px_meta v)),
     (''prefix'', omit [] JStr (px_prefix v)),
     (''origin_node_id'', omit [] JStr (px_origin_node_id v)),
     (''multi_topology_id'', omit 0 enc_word (px_multi_topology_id v)),
     (''metric'', omit 0 enc_word (px_metric v)),
     (''route_tags'', omit [] (enc_list enc_word) (px_route_tags v)),
     (''forwarding_address'', omit [] JStr (px_forwarding_address v)),
     (''prefix_sid'', omit 0 enc_word (px_prefix_sid v)),
     (''attributes'', omit [] (enc_list enc_Attribute) (px_attributes v))])"

definition dec_Prefix :: "json \<Rightarrow> Prefix option" where
  "dec_Prefix = dec_obj (\<lambda>fs. do {
     px_meta' \<leftarrow> get fs ''meta'' (dec_ptr dec_EntityMeta) None;
     px_prefix' \<leftarrow> get fs ''prefix'' dec_string [];
     px_origin_node_id' \<leftarrow> get fs ''origin_node_id'' dec_string [];
     px_multi_topology_id' \<leftarrow> get fs ''multi_topology_id'' dec_word 0;
     px_metric' \<leftarrow> get fs ''metric'' dec_word 0;
     px_route_tags' \<leftarrow> get fs ''route_tags'' (dec_list dec_word) [];
     px_forwarding_address' \<leftarrow> get fs ''forwarding_address'' dec_string [];
     px_prefix_sid' \<leftarrow> get fs ''prefix_sid'' dec_word 0;
     px_attributes' \<leftarrow> get fs ''attributes'' (dec_list dec_Attribute) [];
     Some \<lparr>px_meta = px_meta', px_prefix = px_prefix', px_origin_node_id = px_origin_node_id',
       px_multi_topology_id = px_multi_topology_id', px_metric = px_metric',
       px_route_tags = px_route_tags', px_forwarding_address = px_forwarding_address',
       px_prefix_sid = px_prefix_sid', px_attributes = px_attributes'\<rparr> })"

lemma dec_enc_Prefix: "dec_Prefix (enc_Prefix v) = Some v"
  by (simp add: dec_Prefix_def enc_Prefix_def get_present codec_reads)

interpretation Prefix_codec: codec enc_Prefix dec_Prefix
  by unfold_locales (simp_all add: dec_enc_Prefix, simp add: enc_Prefix_def)

lemmas Prefix_reads [codec_reads] = Prefix_codec.read_omit_ptr Prefix_codec.read_omit_list

definition enc_Peer :: "Peer \<Rightarrow> json" where
  "enc_Peer v = JObj (present [
     (''id'', omit [] JStr (pr_id v)), (''domain_id'', omit [] JStr (pr_domain_id v)),
     (''name'', omit [] JStr (pr_name v)),
     (''remote_address'', omit [] JStr (pr_remote_address v)),
     (''local_address'', omit [] JStr (pr_local_address v)),
     (''local_as'', omit 0 enc_word (pr_local_as v)),
     (''remote_as'', omit 0 enc_word (pr_remote_as v)),
     (''source_preference'', omit 0 enc_word (pr_source_preference v)),
     (''enabled'', omit False JBool (pr_enabled v)),
     (''passive'', omit False JBool (pr_passive v)),
     (''ebgp_multihop'', omit False JBool (pr_ebgp_multihop v)),
     (''multihop_ttl'', omit 0 enc_word (pr_multihop_ttl v)),
     (''gtsm'', omit False JBool (pr_gtsm v)),
     (''tcp_md5_secret'', omit [] JStr (pr_tcp_md5_secret v)),
     (''session_state'', omit PEER_SESSION_STATE_UNSPECIFIED enc_PeerSessionState (pr_session_state v)),
     (''router_id'', omit [] JStr (pr_router_id v)),
     (''established_at'', omit None (enc_ptr enc_time) (pr_established_at v)),
     (''last_state_change'', omit None (enc_ptr enc_time) (pr_last_state_change v)),
     (''last_error'', omit [] JStr (pr_last_error v)),
     (''received_updates'', omit 0 enc_word (pr_received_updates v)),
     (''rejected_updates'', omit 0 enc_word (pr_rejected_updates v)),
     (''resource_version'', omit 0 enc_word (pr_resource_version v)),
     (''capabilities'', omit [] (enc_list JStr) (pr_capabilities v))])"

definition dec_Peer :: "json \<Rightarrow> Peer option" where
  "dec_Peer = dec_obj (\<lambda>fs. do {
     pr_id' \<leftarrow> get fs ''id'' dec_string [];
     pr_domain_id' \<leftarrow> get fs ''domain_id'' dec_string [];
     pr_name' \<leftarrow> get fs ''name'' dec_string [];
     pr_remote_address' \<leftarrow> get fs ''remote_address'' dec_string [];
     pr_local_address' \<leftarrow> get fs ''local_address'' dec_string [];
     pr_local_as' \<leftarrow> get fs ''local_as'' dec_word 0;
     pr_remote_as' \<leftarrow> get fs ''remote_as'' dec_word 0;
     pr_source_preference' \<leftarrow> get fs ''source_preference'' dec_word 0;
     pr_enabled' \<leftarrow> get fs ''enabled'' dec_bool False;
     pr_passive' \<leftarrow> get fs ''passive'' dec_bool False;
     pr_ebgp_multihop' \<leftarrow> get fs ''ebgp_multihop'' dec_bool False;
     pr_multihop_ttl' \<leftarrow> get fs ''multihop_ttl'' dec_word 0;
     pr_gtsm' \<leftarrow> get fs ''gtsm'' dec_bool False;
     pr_tcp_md5_secret' \<leftarrow> get fs ''tcp_md5_secret'' dec_string [];
     pr_session_state' \<leftarrow> get fs ''session_state'' dec_PeerSessionState PEER_SESSION_STATE_UNSPECIFIED;
     pr_router_id' \<leftarrow> get fs ''router_id'' dec_string [];
     pr_established_at' \<leftarrow> get fs ''established_at'' (dec_ptr dec_time) None;
     pr_last_state_change' \<leftarrow> get fs ''last_state_change'' (dec_ptr dec_time) None;
     pr_last_error' \<leftarrow> get fs ''last_error'' dec_string [];
     pr_received_updates' \<leftarrow> get fs ''received_updates'' dec_word 0;
     pr_rejected_updates' \<leftarrow> get fs ''rejected_updates'' dec_word 0;
     pr_resource_version' \<leftarrow> get fs ''resource_version'' dec_word 0;
     pr_capabilities' \<leftarrow> get fs ''capabilities'' (dec_list dec_string) [];
     Some \<lparr>pr_id = pr_id', pr_domain_id = pr_domain_id', pr_name = pr_name',
       pr_remote_address = pr_remote_address', pr_local_address = pr_local_address',
       pr_local_as = pr_local_as', pr_remote_as = pr_remote_as',
       pr_source_preference = pr_source_preference', pr_enabled = pr_enabled',
       pr_passive = pr_passive', pr_ebgp_multihop = pr_ebgp_multihop',
       pr_multihop_ttl = pr_multihop_ttl', pr_gtsm = pr_gtsm',
       pr_tcp_md5_secret = pr_tcp_md5_secret', pr_session_state = pr_session_state',
       pr_router_id = pr_router_id', pr_established_at = pr_established_at',
       pr_last_state_change = pr_last_state_change', pr_last_error = pr_last_error',
       pr_received_updates = pr_received_updates', pr_rejected_updates = pr_rejected_updates',
       pr_resource_version = pr_resource_version', pr_capabilities = pr_capabilities'\<rparr> })"

lemma dec_enc_Peer: "dec_Peer (enc_Peer v) = Some v"
  by (simp add: dec_Peer_def enc_Peer_def get_present codec_reads)

interpretation Peer_codec: codec enc_Peer dec_Peer
  by unfold_locales (simp_all add: dec_enc_Peer, simp add: enc_Peer_def)

lemmas Peer_reads [codec_reads] = Peer_codec.read_omit_ptr Peer_codec.read_omit_list

section \<open>Events\<close>

text \<open>
  A topology event; \<open>before_json\<close> and \<open>after_json\<close> are documents, and None is the empty byte slice.
\<close>

record TopologyEvent =
  ev_revision :: u64
  ev_observed_at :: "time option"
  ev_entity_kind :: EntityKind
  ev_entity_id :: string
  ev_domain_id :: string
  ev_operation :: string
  ev_source_peer_id :: string
  ev_before_json :: "json option"
  ev_after_json :: "json option"
  ev_reason :: string

definition enc_TopologyEvent :: "TopologyEvent \<Rightarrow> json" where
  "enc_TopologyEvent v = JObj (present [
     (''revision'', omit 0 enc_word (ev_revision v)),
     (''observed_at'', omit None (enc_ptr enc_time) (ev_observed_at v)),
     (''entity_kind'', omit ENTITY_KIND_UNSPECIFIED enc_EntityKind (ev_entity_kind v)),
     (''entity_id'', omit [] JStr (ev_entity_id v)),
     (''domain_id'', omit [] JStr (ev_domain_id v)),
     (''operation'', omit [] JStr (ev_operation v)),
     (''source_peer_id'', omit [] JStr (ev_source_peer_id v)),
     (''before_json'', omit None (enc_ptr JDoc) (ev_before_json v)),
     (''after_json'', omit None (enc_ptr JDoc) (ev_after_json v)),
     (''reason'', omit [] JStr (ev_reason v))])"

definition dec_TopologyEvent :: "json \<Rightarrow> TopologyEvent option" where
  "dec_TopologyEvent = dec_obj (\<lambda>fs. do {
     ev_revision' \<leftarrow> get fs ''revision'' dec_word 0;
     ev_observed_at' \<leftarrow> get fs ''observed_at'' (dec_ptr dec_time) None;
     ev_entity_kind' \<leftarrow> get fs ''entity_kind'' dec_EntityKind ENTITY_KIND_UNSPECIFIED;
     ev_entity_id' \<leftarrow> get fs ''entity_id'' dec_string [];
     ev_domain_id' \<leftarrow> get fs ''domain_id'' dec_string [];
     ev_operation' \<leftarrow> get fs ''operation'' dec_string [];
     ev_source_peer_id' \<leftarrow> get fs ''source_peer_id'' dec_string [];
     ev_before_json' \<leftarrow> get fs ''before_json'' (dec_ptr dec_doc) None;
     ev_after_json' \<leftarrow> get fs ''after_json'' (dec_ptr dec_doc) None;
     ev_reason' \<leftarrow> get fs ''reason'' dec_string [];
     Some \<lparr>ev_revision = ev_revision', ev_observed_at = ev_observed_at',
       ev_entity_kind = ev_entity_kind', ev_entity_id = ev_entity_id',
       ev_domain_id = ev_domain_id', ev_operation = ev_operation',
       ev_source_peer_id = ev_source_peer_id', ev_before_json = ev_before_json',
       ev_after_json = ev_after_json', ev_reason = ev_reason'\<rparr> })"

lemma dec_enc_TopologyEvent: "dec_TopologyEvent (enc_TopologyEvent v) = Some v"
  by (simp add: dec_TopologyEvent_def enc_TopologyEvent_def get_present codec_reads)

interpretation TopologyEvent_codec: codec enc_TopologyEvent dec_TopologyEvent
  by unfold_locales (simp_all add: dec_enc_TopologyEvent, simp add: enc_TopologyEvent_def)

lemmas TopologyEvent_reads [codec_reads] = TopologyEvent_codec.read_omit_ptr TopologyEvent_codec.read_omit_list

end
