(* ===== verification/Keys.thy ===== *)
theory Keys
  imports Types
begin

unbundle bit_operations_syntax

text \<open>
  The keys under which \<open>internal/store\<close> keeps its records. Pebble orders keys bytewise and reads
  half-open ranges, so three facts carry the store: the range of a key prefix holds exactly the
  keys with that prefix, the zero-padded event keys are in the order of the revisions, and parsing
  an event key gives the revision back. The revision counter itself is stored in eight bytes, most
  significant first.
\<close>

section \<open>Key functions\<close>

definition pad_zero :: "nat \<Rightarrow> string \<Rightarrow> string" where
  "pad_zero w s = replicate (w - length s) (digit_char 0) @ s"

definition eventKey :: "u64 \<Rightarrow> string" where
  "eventKey r = ''event/'' @ pad_zero 20 (decimal (unat r))"

definition prefixEnd :: "string \<Rightarrow> string" where
  "prefixEnd p = butlast p @ [char_of (of_char (last p) + 1 :: nat)]"

fun parse_loop :: "nat \<Rightarrow> string \<Rightarrow> nat" where
  "parse_loop n [] = n"
| "parse_loop n (c # cs) =
     (if \<not> (CHR ''0'' \<le> c \<and> c \<le> CHR ''9'') then 0
      else let n1 = n * 10 + (of_char c - 48) in
        if 2 ^ 64 \<le> n1 then 2 ^ 64 - 1 else parse_loop n1 cs)"

text \<open>The first result of \<open>strconv.ParseUint(s, 10, 64)\<close>, also when the second is an error.\<close>

definition ParseUint :: "string \<Rightarrow> u64" where
  "ParseUint s = of_nat (if s = [] then 0 else parse_loop 0 s)"

definition TrimPrefix :: "string \<Rightarrow> string \<Rightarrow> string" where
  "TrimPrefix s p = (if HasPrefix s p then drop (length p) s else s)"

definition PutUint64 :: "u64 \<Rightarrow> u8 list" where
  "PutUint64 w = map (\<lambda>i. ucast (drop_bit i w)) [56, 48, 40, 32, 24, 16, 8, 0]"

definition BigEndian_Uint64 :: "u8 list \<Rightarrow> u64" where
  "BigEndian_Uint64 bs = fold (\<lambda>b acc. push_bit 8 acc OR ucast b) (take 8 bs) 0"

section \<open>Fixed-width decimals\<close>

fun digits :: "nat \<Rightarrow> nat \<Rightarrow> string" where
  "digits 0 n = []"
| "digits (Suc k) n = digits k (n div 10) @ [digit_char (n mod 10)]"

lemma length_digits [simp]: "length (digits k n) = k"
  by (induction k arbitrary: n) simp_all

lemma digits_zero: "digits k 0 = replicate k (digit_char 0)"
  by (induction k) (simp_all flip: replicate_append_same)

lemma length_decimal_le: "n < 10 ^ k \<Longrightarrow> 0 < k \<Longrightarrow> length (decimal n) \<le> k"
proof (induction n arbitrary: k rule: decimal.induct)
  case (1 n)
  show ?case
  proof (cases "n < 10")
    case False
    then obtain k' where k: "k = Suc k'" "0 < k'"
      using 1(2,3) by (cases k; cases "k - 1") auto
    with 1(2) have "n div 10 < 10 ^ k'" by (simp add: less_mult_imp_div_less mult.commute)
    with 1(1)[OF False _ k(2)] have "length (decimal (n div 10)) \<le> k'" by simp
    then show ?thesis using False k by (subst decimal.simps) simp
  qed (use 1 in \<open>subst decimal.simps, simp\<close>)
qed

lemma pad_zero_decimal: "n < 10 ^ k \<Longrightarrow> 0 < k \<Longrightarrow> pad_zero k (decimal n) = digits k n"
proof (induction n arbitrary: k rule: decimal.induct)
  case (1 n)
  obtain k' where k: "k = Suc k'" using 1(3) by (cases k) auto
  show ?case
  proof (cases "n < 10")
    case True
    then show ?thesis
      by (subst decimal.simps) (simp add: k pad_zero_def digits_zero)
  next
    case False
    have k': "0 < k'" using False 1(2) k by (cases k') auto
    have lt: "n div 10 < 10 ^ k'" using 1(2) k by (simp add: less_mult_imp_div_less mult.commute)
    have "pad_zero k' (decimal (n div 10)) = digits k' (n div 10)"
      using 1(1)[OF False lt k'] .
    then show ?thesis using False by (subst decimal.simps) (simp add: k pad_zero_def)
  qed
qed

lemma snoc_less_snoc:
  fixes xs ys :: "'a::linorder list"
  assumes "length xs = length ys"
  shows "xs @ [x] < ys @ [y] \<longleftrightarrow> xs < ys \<or> xs = ys \<and> x < y"
  using assms by (induction xs ys rule: list_induct2) auto

lemma digit_char_less: "a < 10 \<Longrightarrow> b < 10 \<Longrightarrow> digit_char a < digit_char b \<longleftrightarrow> a < b"
  by (simp add: digit_char_def less_char_def)

lemma digit_char_inj: "a < 10 \<Longrightarrow> b < 10 \<Longrightarrow> digit_char a = digit_char b \<longleftrightarrow> a = b"
  by (metis digit_char_less less_irrefl nat_neq_iff)

lemma div_10_less: "m < 10 ^ Suc k \<Longrightarrow> m div 10 < (10 :: nat) ^ k"
  by (simp add: less_mult_imp_div_less mult.commute)

lemma digits_inj: "m < 10 ^ k \<Longrightarrow> n < 10 ^ k \<Longrightarrow> digits k m = digits k n \<longleftrightarrow> m = n"
proof (induction k arbitrary: m n)
  case (Suc k)
  have "m div 10 = n div 10 \<and> m mod 10 = n mod 10 \<longleftrightarrow> m = n" by (metis div_mult_mod_eq)
  moreover note Suc.IH[OF div_10_less[OF Suc.prems(1)] div_10_less[OF Suc.prems(2)]]
  ultimately show ?case
    by (simp only: digits.simps append1_eq_conv digit_char_inj mod_less_divisor zero_less_numeral)
qed simp

lemma div_mod_less:
  "m div 10 < n div 10 \<or> m div 10 = n div 10 \<and> m mod 10 < n mod 10 \<longleftrightarrow> m < (n :: nat)"
proof (cases "m div 10" "n div 10" rule: linorder_cases)
  case less
  then show ?thesis using div_le_mono[of n m 10] by linarith
next
  case equal
  then show ?thesis using div_mult_mod_eq[of m 10] div_mult_mod_eq[of n 10] by linarith
next
  case greater
  then show ?thesis using div_le_mono[of m n 10] by linarith
qed

lemma digits_less: "m < 10 ^ k \<Longrightarrow> n < 10 ^ k \<Longrightarrow> digits k m < digits k n \<longleftrightarrow> m < n"
proof (induction k arbitrary: m n)
  case (Suc k)
  note div_mod_less[of m n]
  moreover note Suc.IH[OF div_10_less[OF Suc.prems(1)] div_10_less[OF Suc.prems(2)]]
    digits_inj[OF div_10_less[OF Suc.prems(1)] div_10_less[OF Suc.prems(2)]]
  ultimately show ?case
    by (simp only: digits.simps snoc_less_snoc length_digits digit_char_less mod_less_divisor zero_less_numeral)
qed simp

lemma parse_loop_digits:
  assumes "n * 10 ^ k + m < 2 ^ 64" and "m < 10 ^ k"
  shows "parse_loop n (digits k m @ cs) = parse_loop (n * 10 ^ k + m) cs"
  using assms
proof (induction k arbitrary: m cs)
  case (Suc k)
  have split: "m div 10 * 10 + m mod 10 = m" by simp
  have lt: "m div 10 < 10 ^ k" using Suc.prems by (simp add: less_mult_imp_div_less mult.commute)
  have eq: "(n * 10 ^ k + m div 10) * 10 + m mod 10 = n * 10 ^ Suc k + m"
    by (simp add: algebra_simps)
  have "n * 10 ^ k + m div 10 \<le> (n * 10 ^ k + m div 10) * 10 + m mod 10" by simp
  also note eq
  also note Suc.prems(1)
  finally have "parse_loop n (digits k (m div 10) @ digit_char (m mod 10) # cs)
      = parse_loop (n * 10 ^ k + m div 10) (digit_char (m mod 10) # cs)"
    by (rule Suc.IH[OF _ lt])
  then have "parse_loop n (digits (Suc k) m @ cs)
      = parse_loop (n * 10 ^ k + m div 10) (digit_char (m mod 10) # cs)"
    by simp
  also have "\<dots> = parse_loop (n * 10 ^ Suc k + m) cs"
  proof -
    have "m mod 10 < 10" by simp
    then have d: "CHR ''0'' \<le> digit_char (m mod 10) \<and> digit_char (m mod 10) \<le> CHR ''9''"
      and v: "of_char (digit_char (m mod 10)) - 48 = m mod 10"
      by (auto simp: digit_char_def less_eq_char_def)
    then show ?thesis using Suc.prems(1) by (simp add: Let_def eq[symmetric] del: power_Suc)
  qed
  finally show ?case .
qed simp

section \<open>Event keys\<close>

lemma u64_less: "unat (w :: u64) < 2 ^ 64"
proof -
  have "unat w < 2 ^ LENGTH(64)" by (rule unsigned_less)
  then show ?thesis by simp
qed

lemma u64_bound: "unat (w :: u64) < 10 ^ 20"
  using u64_less[of w] by simp

lemma eventKey_digits: "eventKey r = ''event/'' @ digits 20 (unat r)"
  by (simp only: eventKey_def pad_zero_decimal[OF u64_bound] zero_less_numeral)

lemma append_less_append: "(p :: string) @ xs < p @ ys \<longleftrightarrow> xs < ys"
  by (induction p) simp_all

lemma eventKey_less: "eventKey a < eventKey b \<longleftrightarrow> a < b"
  by (simp only: eventKey_digits append_less_append digits_less[OF u64_bound u64_bound] word_less_nat_alt)

lemma eventKey_inj [simp]: "eventKey a = eventKey b \<longleftrightarrow> a = b"
  by (metis eventKey_less less_irrefl neqE)

lemma eventKey_le: "eventKey a \<le> eventKey b \<longleftrightarrow> a \<le> b"
  by (metis eventKey_less not_less)

lemma ParseUint_eventKey: "ParseUint (TrimPrefix (eventKey r) ''event/'') = r"
proof -
  have trim: "TrimPrefix (eventKey r) ''event/'' = digits 20 (unat r)"
    by (simp add: TrimPrefix_def eventKey_digits del: digits.simps)
  have "parse_loop 0 (digits 20 (unat r) @ []) = parse_loop (0 * 10 ^ 20 + unat r) []"
    by (rule parse_loop_digits) (simp_all only: mult_0 add_0 u64_less u64_bound)
  moreover have "digits 20 (unat r) \<noteq> []"
    by (metis length_digits list.size(3) zero_neq_numeral)
  ultimately show ?thesis unfolding trim ParseUint_def by simp
qed

section \<open>Prefix ranges\<close>

lemma char_succ:
  assumes "(of_char c :: nat) < 255"
  shows "d < char_of (of_char c + 1 :: nat) \<longleftrightarrow> d \<le> c"
proof -
  have "of_char (char_of (of_char c + 1 :: nat)) = (of_char c + 1 :: nat)"
    using assms by (simp add: of_char_of)
  then show ?thesis
    unfolding less_char_def less_eq_char_def by linarith
qed

lemma in_prefix_range:
  fixes c c' :: char
  assumes "\<And>d. d < c' \<longleftrightarrow> d \<le> c"
  shows "p @ [c] \<le> k \<and> k < p @ [c'] \<longleftrightarrow> HasPrefix k (p @ [c])"
proof (induction p arbitrary: k)
  case Nil
  show ?case
  proof (cases k)
    case (Cons d ds)
    have "(c < d \<or> c = d) \<and> d < c' \<longleftrightarrow> d = c" unfolding assms by auto
    then show ?thesis by (simp add: Cons)
  qed simp
next
  case (Cons a p)
  show ?case
  proof (cases k)
    case k: (Cons d ds)
    then show ?thesis using Cons.IH[of ds] by (cases "a = d") auto
  qed simp
qed

lemma prefix_range:
  assumes "p \<noteq> []" and "(of_char (last p) :: nat) < 255"
  shows "p \<le> k \<and> k < prefixEnd p \<longleftrightarrow> HasPrefix k p"
  using in_prefix_range[OF char_succ[OF assms(2)], of "butlast p" k]
  unfolding prefixEnd_def append_butlast_last_id[OF assms(1)] .

section \<open>The stored revision\<close>

lemma push_byte:
  "push_bit 8 (drop_bit (i + 8) w) OR ucast (ucast (drop_bit i w) :: u8) = drop_bit i (w :: u64)"
proof (rule bit_word_eqI)
  fix n assume "n < LENGTH(64)"
  then show "bit (push_bit 8 (drop_bit (i + 8) w) OR ucast (ucast (drop_bit i w) :: u8)) n = bit (drop_bit i w) n"
    by (cases "n < 8") (simp_all add: bit_simps not_less add.commute add.left_commute)
qed

lemma BigEndian_PutUint64: "BigEndian_Uint64 (PutUint64 w) = w"
proof -
  have "drop_bit 64 w = 0" by (rule bit_word_eqI) (simp add: bit_simps)
  then have "ucast (ucast (drop_bit 56 w) :: u8) = drop_bit 56 w"
    using push_byte[of 56 w] by simp
  then show ?thesis
    using push_byte[of 48 w] push_byte[of 40 w] push_byte[of 32 w] push_byte[of 24 w]
      push_byte[of 16 w] push_byte[of 8 w] push_byte[of 0 w]
    by (simp add: BigEndian_Uint64_def PutUint64_def)
qed

lemma length_PutUint64 [simp]: "length (PutUint64 w) = 8"
  by (simp add: PutUint64_def)

end
