(* ===== verification/Store.thy ===== *)
theory Store
  imports Codec Keys
begin

text \<open>
  The embedded store of \<open>internal/store/store.go\<close>: the current entities in five maps, every change
  as an event with the document before and after it, both in Pebble and written in one batch.

  Pebble is a library outside the repository, so its operations are an argument, the record
  \<open>pebble\<close>, of every operation that reads or writes the database, and what the store relies on is
  the predicate \<open>pebble_laws\<close> in the theory of the store's invariant. The clock, the error state of a
  context and Go's map iteration order are arguments too. A channel is a buffer in a table of
  channels, since a subscriber goes on reading it after the store has let go of it; a send that
  would block for ever is the fault \<open>Hang\<close>.
\<close>

section \<open>The database\<close>

text \<open>
  A stored value: bytes that are no document (the revision counter), or the text of a document.
  An iteration yields the entries of a half-open key range in order and the error it ended with.
\<close>

datatype dbvalue = Raw "u8 list" | Doc json

datatype batch_op = BSet string dbvalue | BDelete string

record 'db pebble =
  db_get :: "'db \<Rightarrow> string \<Rightarrow> go_error + dbvalue option"
  db_iter :: "'db \<Rightarrow> string \<Rightarrow> string \<Rightarrow> go_error + (string \<times> dbvalue) list \<times> go_error option"
  db_commit :: "'db \<Rightarrow> batch_op list \<Rightarrow> go_error option \<times> 'db"
  db_delete_range :: "'db \<Rightarrow> string \<Rightarrow> string \<Rightarrow> go_error option \<times> 'db"
  db_compact :: "'db \<Rightarrow> string \<Rightarrow> string \<Rightarrow> go_error option \<times> 'db"
  db_disk_usage :: "'db \<Rightarrow> u64"
  db_value_len :: "dbvalue \<Rightarrow> nat"

definition unmarshal :: "(json \<Rightarrow> 'a option) \<Rightarrow> dbvalue \<Rightarrow> 'a option" where
  "unmarshal decode v = (case v of Raw bs \<Rightarrow> None | Doc j \<Rightarrow> decode j)"

section \<open>State\<close>

text \<open>The five maps of a store, which \<open>SnapshotAt\<close> also rebuilds for an older revision.\<close>

record memory =
  m_nodes :: "Node gomap"
  m_links :: "Link gomap"
  m_prefixes :: "Prefix gomap"
  m_peers :: "Peer gomap"
  m_domains :: "Domain gomap"

definition empty_memory :: memory where
  "empty_memory = \<lparr>m_nodes = fmempty, m_links = fmempty, m_prefixes = fmempty, m_peers = fmempty,
     m_domains = fmempty\<rparr>"

record Snapshot =
  sn_revision :: u64
  sn_observed :: time
  sn_domains :: "Domain list"
  sn_nodes :: "Node list"
  sn_links :: "Link list"
  sn_prefixes :: "Prefix list"
  sn_peers :: "Peer list"

record Mutation =
  mu_kind :: EntityKind
  mu_id :: string
  mu_domain_id :: string
  mu_peer_id :: string
  mu_reason :: string
  mu_delete :: bool
  mu_value :: "entity option"

record channel =
  ch_buffer :: "TopologyEvent list"
  ch_closed :: bool

record 'db Store =
  st_db :: 'db
  st_revision :: u64
  st_observed :: time
  st_memory :: memory
  st_nextSub :: nat
  st_subs :: "(nat, nat) fmap"
  st_channels :: "(nat, channel) fmap"

definition enc_entity :: "entity \<Rightarrow> json" where
  "enc_entity e = (case e of NodeE v \<Rightarrow> enc_Node v | LinkE v \<Rightarrow> enc_Link v | PrefixE v \<Rightarrow> enc_Prefix v
     | PeerE v \<Rightarrow> enc_Peer v | DomainE v \<Rightarrow> enc_Domain v)"

definition marshal_value :: "entity option \<Rightarrow> go_error + json" where
  "marshal_value v = (case v of None \<Rightarrow> marshal JNull | Some e \<Rightarrow> marshal (enc_entity e))"

section \<open>Opening\<close>

fun load_entries ::
  "(json \<Rightarrow> 'a option) \<Rightarrow> ('a \<Rightarrow> memory \<Rightarrow> memory) \<Rightarrow> (string \<times> dbvalue) list \<Rightarrow> memory \<Rightarrow> go_error + memory" where
  "load_entries decode put [] mem = Inr mem"
| "load_entries decode put ((k, v) # es) mem = (case unmarshal decode v of
     None \<Rightarrow> Inl (Wrapf (''decode '' @ k @ '': '') (External ''json'') [])
   | Some x \<Rightarrow> load_entries decode put es (put x mem))"

definition load_prefix ::
  "'db pebble \<Rightarrow> 'db \<Rightarrow> string \<Rightarrow> (json \<Rightarrow> 'a option) \<Rightarrow> ('a \<Rightarrow> memory \<Rightarrow> memory) \<Rightarrow> memory \<Rightarrow> go_error + memory" where
  "load_prefix P db p decode put mem = (case db_iter P db p (prefixEnd p) of Inl e \<Rightarrow> Inl e
     | Inr (es, err) \<Rightarrow> (case load_entries decode put es mem of Inl e \<Rightarrow> Inl e
        | Inr mem' \<Rightarrow> (case err of Some e \<Rightarrow> Inl e | None \<Rightarrow> Inr mem')))"

definition load_memory :: "'db pebble \<Rightarrow> 'db \<Rightarrow> go_error + memory" where
  "load_memory P db =
     (case load_prefix P db ''domain/'' dec_Domain
        (\<lambda>v m. m\<lparr>m_domains := fmupd (dm_id v) v (m_domains m)\<rparr>) empty_memory of Inl e \<Rightarrow> Inl e
      | Inr m1 \<Rightarrow> (case load_prefix P db ''node/'' dec_Node
        (\<lambda>v m. m\<lparr>m_nodes := fmupd (node_id v) v (m_nodes m)\<rparr>) m1 of Inl e \<Rightarrow> Inl e
      | Inr m2 \<Rightarrow> (case load_prefix P db ''link/'' dec_Link
        (\<lambda>v m. m\<lparr>m_links := fmupd (link_id v) v (m_links m)\<rparr>) m2 of Inl e \<Rightarrow> Inl e
      | Inr m3 \<Rightarrow> (case load_prefix P db ''prefix/'' dec_Prefix
        (\<lambda>v m. m\<lparr>m_prefixes := fmupd (prefix_id v) v (m_prefixes m)\<rparr>) m3 of Inl e \<Rightarrow> Inl e
      | Inr m4 \<Rightarrow> load_prefix P db ''peer/'' dec_Peer
        (\<lambda>v m. m\<lparr>m_peers := fmupd (pr_id v) v (m_peers m)\<rparr>) m4))))"

definition load_revision :: "'db pebble \<Rightarrow> 'db \<Rightarrow> go_error + u64" where
  "load_revision P db = (case db_get P db ''meta/revision'' of
     Inl e \<Rightarrow> Inl (Wrapf ''load revision: '' e [])
   | Inr (Some (Raw bs)) \<Rightarrow> Inr (if length bs = 8 then BigEndian_Uint64 bs else 0)
   | Inr _ \<Rightarrow> Inr 0)"

definition load_observed :: "'db pebble \<Rightarrow> 'db \<Rightarrow> u64 \<Rightarrow> time" where
  "load_observed P db revision = (if 0 < revision then
      (case db_get P db (eventKey revision) of
         Inr (Some v) \<Rightarrow> (case unmarshal dec_TopologyEvent v of
             Some event \<Rightarrow> (case ev_observed_at event of Some t \<Rightarrow> t | None \<Rightarrow> zero_time)
           | None \<Rightarrow> zero_time)
       | _ \<Rightarrow> zero_time)
     else zero_time)"

definition Open :: "'db pebble \<Rightarrow> go_error + 'db \<Rightarrow> go_error + 'db Store" where
  "Open P opened = (case opened of Inl e \<Rightarrow> Inl (Wrapf ''open topology store: '' e [])
     | Inr db \<Rightarrow> (case load_revision P db of Inl e \<Rightarrow> Inl e
     | Inr revision \<Rightarrow> (case load_memory P db of Inl e \<Rightarrow> Inl e
     | Inr mem \<Rightarrow> Inr \<lparr>st_db = db, st_revision = revision, st_observed = load_observed P db revision,
          st_memory = mem, st_nextSub = 0, st_subs = fmempty, st_channels = fmempty\<rparr>)))"

definition Store_Revision :: "'db Store \<Rightarrow> u64" where
  "Store_Revision s = st_revision s"

definition DiskUsage :: "'db pebble \<Rightarrow> 'db Store \<Rightarrow> u64" where
  "DiskUsage P s = db_disk_usage P (st_db s)"

section \<open>Applying a mutation\<close>

definition ensureMeta :: "EntityMeta option \<Rightarrow> u64 \<Rightarrow> time \<Rightarrow> EntityMeta" where
  "ensureMeta meta r now = (let m0 = (case meta of None \<Rightarrow> zero_EntityMeta | Some m \<Rightarrow> m);
       m1 = m0\<lparr>em_revision := r, em_last_seen := Some now\<rparr>;
       m2 = (if em_first_seen m1 = None then m1\<lparr>em_first_seen := Some now\<rparr> else m1)
     in if em_freshness m2 = FRESHNESS_UNSPECIFIED then m2\<lparr>em_freshness := FRESHNESS_ACTIVE\<rparr> else m2)"

fun setRevision :: "u64 \<Rightarrow> time \<Rightarrow> entity \<Rightarrow> entity" where
  "setRevision r now (NodeE x) = NodeE (x\<lparr>nd_meta := Some (ensureMeta (nd_meta x) r now)\<rparr>)"
| "setRevision r now (LinkE x) = LinkE (x\<lparr>lk_meta := Some (ensureMeta (lk_meta x) r now)\<rparr>)"
| "setRevision r now (PrefixE x) = PrefixE (x\<lparr>px_meta := Some (ensureMeta (px_meta x) r now)\<rparr>)"
| "setRevision r now (PeerE x) = PeerE (x\<lparr>pr_resource_version := r\<rparr>)"
| "setRevision r now (DomainE x) = DomainE (x\<lparr>dm_revision := r\<rparr>)"

definition found :: "string \<Rightarrow> ('a \<Rightarrow> entity) \<Rightarrow> 'a option \<Rightarrow> string \<times> entity option \<times> go_error option" where
  "found keyPrefix wrap v = (case v of
     Some x \<Rightarrow> (keyPrefix, Some (wrap x), None) | None \<Rightarrow> (keyPrefix, None, Some (Sentinel ErrNotFound)))"

fun lookupLocked :: "memory \<Rightarrow> EntityKind \<Rightarrow> string \<Rightarrow> string \<times> entity option \<times> go_error option" where
  "lookupLocked m ENTITY_KIND_NODE i = found ''node/'' NodeE (fmlookup (m_nodes m) i)"
| "lookupLocked m ENTITY_KIND_LINK i = found ''link/'' LinkE (fmlookup (m_links m) i)"
| "lookupLocked m ENTITY_KIND_PREFIX i = found ''prefix/'' PrefixE (fmlookup (m_prefixes m) i)"
| "lookupLocked m ENTITY_KIND_PEER i = found ''peer/'' PeerE (fmlookup (m_peers m) i)"
| "lookupLocked m ENTITY_KIND_UNSPECIFIED i = found ''domain/'' DomainE (fmlookup (m_domains m) i)"
| "lookupLocked m (ENTITY_KIND_OTHER k) i =
     ([], None, Some (New (''unsupported entity kind '' @ decimal (EntityKind_number (ENTITY_KIND_OTHER k)))))"

fun delete_entity :: "EntityKind \<Rightarrow> string \<Rightarrow> memory \<Rightarrow> memory" where
  "delete_entity ENTITY_KIND_NODE i m = m\<lparr>m_nodes := fmdrop i (m_nodes m)\<rparr>"
| "delete_entity ENTITY_KIND_LINK i m = m\<lparr>m_links := fmdrop i (m_links m)\<rparr>"
| "delete_entity ENTITY_KIND_PREFIX i m = m\<lparr>m_prefixes := fmdrop i (m_prefixes m)\<rparr>"
| "delete_entity ENTITY_KIND_PEER i m = m\<lparr>m_peers := fmdrop i (m_peers m)\<rparr>"
| "delete_entity k i m = m\<lparr>m_domains := fmdrop i (m_domains m)\<rparr>"

fun put_entity :: "string \<Rightarrow> entity \<Rightarrow> memory \<Rightarrow> memory" where
  "put_entity i (NodeE v) m = m\<lparr>m_nodes := fmupd i v (m_nodes m)\<rparr>"
| "put_entity i (LinkE v) m = m\<lparr>m_links := fmupd i v (m_links m)\<rparr>"
| "put_entity i (PrefixE v) m = m\<lparr>m_prefixes := fmupd i v (m_prefixes m)\<rparr>"
| "put_entity i (PeerE v) m = m\<lparr>m_peers := fmupd i v (m_peers m)\<rparr>"
| "put_entity i (DomainE v) m = m\<lparr>m_domains := fmupd i v (m_domains m)\<rparr>"

definition applyMemoryLocked :: "Mutation \<Rightarrow> memory \<Rightarrow> memory" where
  "applyMemoryLocked mu m = (if mu_delete mu then delete_entity (mu_kind mu) (mu_id mu) m
     else case mu_value mu of None \<Rightarrow> m | Some v \<Rightarrow> put_entity (mu_id mu) v m)"

definition channel_capacity :: nat where
  "channel_capacity = 256"

text \<open>
  One turn of the loop over the subscriptions: the event goes into the channel, or a full channel
  is dropped and closed. A turn touches only its own subscription, so the order of the turns does
  not matter.
\<close>

definition deliver :: "TopologyEvent \<Rightarrow> nat \<Rightarrow> 'db Store \<Rightarrow> 'db Store" where
  "deliver event i s = (case fmlookup (st_subs s) i of None \<Rightarrow> s
     | Some c \<Rightarrow> (case fmlookup (st_channels s) c of None \<Rightarrow> s
     | Some ch \<Rightarrow>
        if length (ch_buffer ch) < channel_capacity
        then s\<lparr>st_channels := fmupd c (ch\<lparr>ch_buffer := ch_buffer ch @ [event]\<rparr>) (st_channels s)\<rparr>
        else s\<lparr>st_subs := fmdrop i (st_subs s),
               st_channels := fmupd c (ch\<lparr>ch_closed := True\<rparr>) (st_channels s)\<rparr>))"

definition publish :: "TopologyEvent \<Rightarrow> 'db Store \<Rightarrow> 'db Store" where
  "publish event s = fold (deliver event) (keys_of (st_subs s)) s"

text \<open>
  \<open>Apply\<close> also sets the revision in the message it is given, so the second component of the
  result is that message as the caller finds it afterwards.
\<close>

definition Apply ::
  "'db pebble \<Rightarrow> go_error option \<Rightarrow> time \<Rightarrow> Mutation \<Rightarrow> 'db Store
    \<Rightarrow> 'db Store \<times> entity option \<times> TopologyEvent result" where
  "Apply P ctxErr now m s =
     (case ctxErr of Some e \<Rightarrow> (s, mu_value m, Inl (Error e)) | None \<Rightarrow>
      if mu_id m = [] then (s, mu_value m, Inl (Error (New ''mutation id is required''))) else
      case lookupLocked (st_memory s) (mu_kind m) (mu_id m) of (keyPrefix, current, err) \<Rightarrow>
      if (case err of None \<Rightarrow> False | Some e \<Rightarrow> \<not> errors_Is e ErrNotFound)
      then (s, mu_value m, Inl (Error (the err))) else
      let before = (case marshal_value current of Inl e \<Rightarrow> None | Inr j \<Rightarrow> Some j);
          r = st_revision s + 1
      in if \<not> mu_delete m \<and> mu_value m = None
         then (s, None, Inl (Error (New ''mutation value is required''))) else
      let m' = (if mu_delete m then m else m\<lparr>mu_value := map_option (setRevision r now) (mu_value m)\<rparr>)
      in case marshal_value (mu_value m') of
           Inl e \<Rightarrow> (s, mu_value m', Inl (Error (Wrapf ''marshal entity: '' e [])))
         | Inr after \<Rightarrow>
      let event = \<lparr>ev_revision = r, ev_observed_at = Some now, ev_entity_kind = mu_kind m,
            ev_entity_id = mu_id m, ev_domain_id = mu_domain_id m,
            ev_operation = (if mu_delete m then ''DELETE'' else ''UPSERT''),
            ev_source_peer_id = mu_peer_id m, ev_before_json = before,
            ev_after_json = (if mu_delete m then None else Some after), ev_reason = mu_reason m\<rparr>
      in case marshal (enc_TopologyEvent event) of
           Inl e \<Rightarrow> (s, mu_value m', Inl (Error e))
         | Inr eventBytes \<Rightarrow>
      let entityKey = keyPrefix @ mu_id m;
          batch = [(if mu_delete m then BDelete entityKey else BSet entityKey (Doc after)),
                   BSet (eventKey r) (Doc eventBytes), BSet ''meta/revision'' (Raw (PutUint64 r))]
      in case db_commit P (st_db s) batch of
           (Some e, db') \<Rightarrow>
             (s\<lparr>st_db := db'\<rparr>, mu_value m', Inl (Error (Wrapf ''commit topology revision: '' e [])))
         | (None, db') \<Rightarrow>
             (publish event (s\<lparr>st_db := db', st_memory := applyMemoryLocked m' (st_memory s),
                               st_revision := r, st_observed := now\<rparr>),
              mu_value m', Inr event))"

section \<open>Reading\<close>

definition Get :: "'db Store \<Rightarrow> EntityKind \<Rightarrow> string \<Rightarrow> go_error + entity" where
  "Get s kind i = (case lookupLocked (st_memory s) kind i of (p, v, err) \<Rightarrow>
     (case err of Some e \<Rightarrow> Inl e | None \<Rightarrow> Inr (the v)))"

definition snapshot_of ::
  "(string list \<Rightarrow> string list) \<Rightarrow> u64 \<Rightarrow> time \<Rightarrow> memory \<Rightarrow> Snapshot" where
  "snapshot_of it r observed m =
     \<lparr>sn_revision = r, sn_observed = observed,
      sn_domains = sort_key dm_id (range_values it (m_domains m)),
      sn_nodes = sort_key node_id (range_values it (m_nodes m)),
      sn_links = sort_key link_id (range_values it (m_links m)),
      sn_prefixes = sort_key prefix_id (range_values it (m_prefixes m)),
      sn_peers = sort_key pr_id (range_values it (m_peers m))\<rparr>"

definition Store_Snapshot :: "(string list \<Rightarrow> string list) \<Rightarrow> 'db Store \<Rightarrow> Snapshot" where
  "Store_Snapshot it s = snapshot_of it (st_revision s) (st_observed s) (st_memory s)"

fun decode_events :: "nat \<Rightarrow> (string \<times> dbvalue) list \<Rightarrow> TopologyEvent list \<Rightarrow> go_error + TopologyEvent list" where
  "decode_events limit [] out = Inr out"
| "decode_events limit ((k, v) # es) out =
     (if length out < limit then
        (case unmarshal dec_TopologyEvent v of None \<Rightarrow> Inl (External ''json'')
         | Some event \<Rightarrow> decode_events limit es (out @ [event]))
      else Inr out)"

definition Events ::
  "'db pebble \<Rightarrow> 'db Store \<Rightarrow> u64 \<Rightarrow> u64 \<Rightarrow> int \<Rightarrow> go_error + TopologyEvent list" where
  "Events P s after before limit0 =
     (let limit = nat (if limit0 \<le> 0 \<or> limit0 > 10000 then 1000 else limit0);
          upper = (if before \<noteq> 0 \<and> before \<noteq> - 1 then eventKey (before + 1) else prefixEnd ''event/'')
      in case db_iter P (st_db s) (eventKey (after + 1)) upper of Inl e \<Rightarrow> Inl e
         | Inr (es, err) \<Rightarrow> (case decode_events limit es [] of Inl e \<Rightarrow> Inl e
            | Inr out \<Rightarrow> (case err of Some e \<Rightarrow> if length es \<le> limit then Inl e else Inr out
                         | None \<Rightarrow> Inr out)))"

definition OldestRevision :: "'db pebble \<Rightarrow> 'db Store \<Rightarrow> u64" where
  "OldestRevision P s = (case db_iter P (st_db s) ''event/'' (prefixEnd ''event/'') of
     Inl e \<Rightarrow> 0
   | Inr ([], err) \<Rightarrow> 0
   | Inr ((k, v) # es, err) \<Rightarrow> ParseUint (TrimPrefix k ''event/''))"

definition restore ::
  "(json \<Rightarrow> 'a option) \<Rightarrow> json \<Rightarrow> ('a \<Rightarrow> memory \<Rightarrow> memory) \<Rightarrow> memory \<Rightarrow> memory" where
  "restore decode j put m = (case decode j of None \<Rightarrow> m | Some v \<Rightarrow> put v m)"

definition undoEntity :: "TopologyEvent \<Rightarrow> memory \<Rightarrow> memory" where
  "undoEntity event m = (let i = ev_entity_id event in case ev_before_json event of
       None \<Rightarrow> delete_entity (ev_entity_kind event) i m
     | Some j \<Rightarrow> if j = JNull then delete_entity (ev_entity_kind event) i m
        else (case ev_entity_kind event of
            ENTITY_KIND_NODE \<Rightarrow> restore dec_Node j (\<lambda>v m. m\<lparr>m_nodes := fmupd i v (m_nodes m)\<rparr>) m
          | ENTITY_KIND_LINK \<Rightarrow> restore dec_Link j (\<lambda>v m. m\<lparr>m_links := fmupd i v (m_links m)\<rparr>) m
          | ENTITY_KIND_PREFIX \<Rightarrow> restore dec_Prefix j (\<lambda>v m. m\<lparr>m_prefixes := fmupd i v (m_prefixes m)\<rparr>) m
          | ENTITY_KIND_PEER \<Rightarrow> restore dec_Peer j (\<lambda>v m. m\<lparr>m_peers := fmupd i v (m_peers m)\<rparr>) m
          | _ \<Rightarrow> restore dec_Domain j (\<lambda>v m. m\<lparr>m_domains := fmupd i v (m_domains m)\<rparr>) m))"

text \<open>The maps \<open>SnapshotAt\<close> starts from: the current snapshot, keyed by the identifier of each message.\<close>

definition index_by :: "('a \<Rightarrow> string) \<Rightarrow> 'a list \<Rightarrow> 'a gomap" where
  "index_by f vs = fold (\<lambda>v. fmupd (f v) v) vs fmempty"

definition index_snapshot :: "Snapshot \<Rightarrow> memory" where
  "index_snapshot sn = \<lparr>m_nodes = index_by node_id (sn_nodes sn), m_links = index_by link_id (sn_links sn),
     m_prefixes = index_by prefix_id (sn_prefixes sn), m_peers = index_by pr_id (sn_peers sn),
     m_domains = index_by dm_id (sn_domains sn)\<rparr>"

partial_function (option) collect ::
  "(u64 \<Rightarrow> go_error + TopologyEvent list) \<Rightarrow> u64 \<Rightarrow> u64 \<Rightarrow> TopologyEvent list
    \<Rightarrow> (go_error + TopologyEvent list) option" where
  "collect chunk_after cursor current events =
     (if \<not> cursor < current then Some (Inr events)
      else case chunk_after cursor of Inl e \<Rightarrow> Some (Inl e)
        | Inr chunk \<Rightarrow> if chunk = [] then Some (Inr events)
            else collect chunk_after (ev_revision (last chunk)) current (events @ chunk))"

declare collect.simps [code]

definition SnapshotAt ::
  "'db pebble \<Rightarrow> (string list \<Rightarrow> string list) \<Rightarrow> 'db Store \<Rightarrow> u64 \<Rightarrow> Snapshot result" where
  "SnapshotAt P it s revision =
     (let snap = Store_Snapshot it s in
      if revision = 0 \<or> revision = sn_revision snap then Inr snap
      else if sn_revision snap < revision
      then Inl (Error (New (''revision '' @ Sprint_u64 revision @ '' is newer than current revision ''
             @ Sprint_u64 (sn_revision snap))))
      else let oldest = OldestRevision P s in
      if oldest \<noteq> 0 \<and> revision + 1 < oldest
      then Inl (Error (New (''revision '' @ Sprint_u64 revision
             @ '' has expired; oldest available revision is '' @ Sprint_u64 (oldest - 1))))
      else case collect (\<lambda>cursor. Events P s cursor (sn_revision snap) 10000) revision (sn_revision snap) [] of
          None \<Rightarrow> Inl Hang
        | Some (Inl e) \<Rightarrow> Inl (Error e)
        | Some (Inr events) \<Rightarrow>
            let mem = fold undoEntity (rev events) (index_snapshot snap);
                observed = (case Events P s (revision - 1) revision 1 of
                  Inr [marker] \<Rightarrow> AsTime (ev_observed_at marker) | _ \<Rightarrow> zero_time)
            in Inr (snapshot_of it revision observed mem))"

section \<open>Subscriptions\<close>

definition Subscribe :: "'db pebble \<Rightarrow> u64 \<Rightarrow> 'db Store \<Rightarrow> 'db Store \<times> nat result" where
  "Subscribe P after s = (case Events P s after 0 10000 of Inl e \<Rightarrow> (s, Inl (Error e))
     | Inr events \<Rightarrow>
         if length events \<le> channel_capacity
         then let i = st_nextSub s in
           (s\<lparr>st_nextSub := i + 1, st_subs := fmupd i i (st_subs s),
              st_channels := fmupd i \<lparr>ch_buffer = events, ch_closed = False\<rparr> (st_channels s)\<rparr>, Inr i)
         else (s, Inl Hang))"

text \<open>What the goroutine of a subscription does when its context ends.\<close>

definition unsubscribe :: "nat \<Rightarrow> 'db Store \<Rightarrow> 'db Store" where
  "unsubscribe i s = (case fmlookup (st_subs s) i of None \<Rightarrow> s
     | Some c \<Rightarrow> s\<lparr>st_subs := fmdrop i (st_subs s),
          st_channels := (case fmlookup (st_channels s) c of None \<Rightarrow> st_channels s
            | Some ch \<Rightarrow> fmupd c (ch\<lparr>ch_closed := True\<rparr>) (st_channels s))\<rparr>)"

text \<open>A subscriber takes the oldest buffered event from its channel.\<close>

definition receive :: "nat \<Rightarrow> 'db Store \<Rightarrow> 'db Store \<times> TopologyEvent option" where
  "receive c s = (case fmlookup (st_channels s) c of None \<Rightarrow> (s, None)
     | Some ch \<Rightarrow> (case ch_buffer ch of [] \<Rightarrow> (s, None)
        | e # es \<Rightarrow> (s\<lparr>st_channels := fmupd c (ch\<lparr>ch_buffer := es\<rparr>) (st_channels s)\<rparr>, Some e)))"

section \<open>Compaction of the history\<close>

text \<open>The context is polled once per event; \<open>ctx i\<close> is its error state at the i-th poll.\<close>

fun age_scan ::
  "(nat \<Rightarrow> go_error option) \<Rightarrow> time \<Rightarrow> nat \<Rightarrow> (string \<times> dbvalue) list \<Rightarrow> string \<Rightarrow> go_error + string" where
  "age_scan ctx cutoff i [] deleteTo = Inr deleteTo"
| "age_scan ctx cutoff i ((k, v) # es) deleteTo = (case ctx i of Some e \<Rightarrow> Inl e
     | None \<Rightarrow> (case unmarshal dec_TopologyEvent v of
         None \<Rightarrow> age_scan ctx cutoff (Suc i) es deleteTo
       | Some event \<Rightarrow> if AsTime (ev_observed_at event) < cutoff
            then age_scan ctx cutoff (Suc i) es k else Inr deleteTo))"

fun size_scan :: "'db pebble \<Rightarrow> u64 \<Rightarrow> u64 \<Rightarrow> (string \<times> dbvalue) list \<Rightarrow> string \<Rightarrow> string" where
  "size_scan P target accumulated [] deleteTo = deleteTo"
| "size_scan P target accumulated ((k, v) # es) deleteTo =
     (let acc' = accumulated + of_nat (length k + db_value_len P v) in
      if target \<le> acc' then k else size_scan P target acc' es k)"

definition CompactHistory ::
  "'db pebble \<Rightarrow> (nat \<Rightarrow> go_error option) \<Rightarrow> time \<Rightarrow> u64 \<Rightarrow> 'db Store \<Rightarrow> 'db Store \<times> go_error option" where
  "CompactHistory P ctx cutoff maxBytes s =
     (case db_iter P (st_db s) ''event/'' (prefixEnd ''event/'') of Inl e \<Rightarrow> (s, Some e)
      | Inr (es, err) \<Rightarrow> (case age_scan ctx cutoff 0 es [] of Inl e \<Rightarrow> (s, Some e)
      | Inr aged \<Rightarrow>
         let usage = db_disk_usage P (st_db s);
             deleteTo = (if 0 < maxBytes \<and> maxBytes < usage
               then size_scan P (usage - maxBytes + maxBytes div 10) 0 es aged else aged)
         in if deleteTo = [] then (s, None)
            else case db_delete_range P (st_db s) ''event/'' (deleteTo @ [CHR 0x00]) of
                (Some e, db') \<Rightarrow> (s\<lparr>st_db := db'\<rparr>, Some e)
              | (None, db') \<Rightarrow> (case db_compact P db' ''event/'' (prefixEnd ''event/'') of
                  (e, db'') \<Rightarrow> (s\<lparr>st_db := db''\<rparr>, e))))"

end
