(* ===== verification/Store_Inv.thy ===== *)
theory Store_Inv
  imports Store
begin

text \<open>
  The invariant of the store. What the store relies on in Pebble is \<open>pebble_laws\<close>, over a function
  that gives the contents of a database as a finite map. The invariant says that the contents are
  exactly the documents of the entities in memory, the events of the retained revisions and the
  revision counter, and that undoing the event of a revision takes the entities one revision back.
\<close>

section \<open>What the store relies on in Pebble\<close>

type_synonym contents = "(string, dbvalue) fmap"

definition range_of :: "contents \<Rightarrow> string \<Rightarrow> string \<Rightarrow> (string \<times> dbvalue) list" where
  "range_of c lo hi = map (\<lambda>k. (k, the (fmlookup c k))) (filter (\<lambda>k. lo \<le> k \<and> k < hi) (keys_of c))"

fun apply_op :: "batch_op \<Rightarrow> contents \<Rightarrow> contents" where
  "apply_op (BSet k v) c = fmupd k v c"
| "apply_op (BDelete k) c = fmdrop k c"

text \<open>
  Reads see the contents; an iteration yields the entries of its range in key order, all of them
  unless it reports an error; a batch is applied in order and as a whole or not at all; deleting a
  range removes its keys; compaction changes no contents.
\<close>

definition pebble_laws :: "'db pebble \<Rightarrow> ('db \<Rightarrow> contents) \<Rightarrow> bool" where
  "pebble_laws P cont \<longleftrightarrow>
     (\<forall>db k v. db_get P db k = Inr v \<longrightarrow> v = fmlookup (cont db) k) \<and>
     (\<forall>db lo hi es err. db_iter P db lo hi = Inr (es, err) \<longrightarrow>
        (\<exists>rest. range_of (cont db) lo hi = es @ rest \<and> (err = None \<longrightarrow> rest = []))) \<and>
     (\<forall>db ops err db'. db_commit P db ops = (err, db') \<longrightarrow>
        cont db' = (if err = None then fold apply_op ops (cont db) else cont db)) \<and>
     (\<forall>db lo hi err db'. db_delete_range P db lo hi = (err, db') \<longrightarrow>
        cont db' = (if err = None then fmfilter (\<lambda>k. \<not> (lo \<le> k \<and> k < hi)) (cont db) else cont db)) \<and>
     (\<forall>db lo hi err db'. db_compact P db lo hi = (err, db') \<longrightarrow> cont db' = cont db)"

text \<open>A database whose reads do not fail.\<close>

definition pebble_reads :: "'db pebble \<Rightarrow> bool" where
  "pebble_reads P \<longleftrightarrow> (\<forall>db k. \<exists>v. db_get P db k = Inr v) \<and>
     (\<forall>db lo hi. \<exists>es. db_iter P db lo hi = Inr (es, None))"

lemma pebble_get: "pebble_laws P cont \<Longrightarrow> db_get P db k = Inr v \<Longrightarrow> v = fmlookup (cont db) k"
  by (simp add: pebble_laws_def)

lemma pebble_iter:
  "pebble_laws P cont \<Longrightarrow> db_iter P db lo hi = Inr (es, None) \<Longrightarrow> es = range_of (cont db) lo hi"
  unfolding pebble_laws_def by (metis append_Nil2)

lemma pebble_reads_get: "pebble_laws P cont \<Longrightarrow> pebble_reads P \<Longrightarrow> db_get P db k = Inr (fmlookup (cont db) k)"
  unfolding pebble_reads_def by (metis pebble_get)

lemma pebble_reads_iter:
  "pebble_laws P cont \<Longrightarrow> pebble_reads P \<Longrightarrow> db_iter P db lo hi = Inr (range_of (cont db) lo hi, None)"
  unfolding pebble_reads_def by (metis pebble_iter)

lemma pebble_commit:
  "pebble_laws P cont \<Longrightarrow> db_commit P db ops = (err, db') \<Longrightarrow>
     cont db' = (if err = None then fold apply_op ops (cont db) else cont db)"
  by (simp add: pebble_laws_def)

text \<open>An in-memory database that satisfies the laws: the contents themselves.\<close>

definition memory_pebble :: "contents pebble" where
  "memory_pebble = \<lparr>db_get = \<lambda>c k. Inr (fmlookup c k),
     db_iter = \<lambda>c lo hi. Inr (range_of c lo hi, None),
     db_commit = \<lambda>c ops. (None, fold apply_op ops c),
     db_delete_range = \<lambda>c lo hi. (None, fmfilter (\<lambda>k. \<not> (lo \<le> k \<and> k < hi)) c),
     db_compact = \<lambda>c lo hi. (None, c),
     db_disk_usage = \<lambda>c. of_nat (length (keys_of c)),
     db_value_len = \<lambda>v. 1\<rparr>"

lemma memory_pebble_laws: "pebble_laws memory_pebble (\<lambda>c. c)" "pebble_reads memory_pebble"
  by (auto simp: pebble_laws_def pebble_reads_def memory_pebble_def)

section \<open>Tables of entities\<close>

lemma fmlookup_index:
  "fmlookup (fold (\<lambda>v. fmupd (f v) v) vs m) k =
     (case find (\<lambda>v. f v = k) (rev vs) of Some v \<Rightarrow> Some v | None \<Rightarrow> fmlookup m k)"
proof (induction vs rule: rev_induct)
  case (snoc v vs)
  then show ?case by simp
qed simp

lemma index_by_eq:
  assumes keyed: "\<And>i v. fmlookup m i = Some v \<Longrightarrow> f v = i"
    and vals: "\<And>v. v \<in> set vs \<longleftrightarrow> fmlookup m (f v) = Some v"
  shows "index_by f vs = m"
proof (rule fmap_ext)
  fix k
  show "fmlookup (index_by f vs) k = fmlookup m k"
  proof (cases "find (\<lambda>v. f v = k) (rev vs)")
    case None
    have "fmlookup m k = None"
    proof (rule ccontr)
      assume "fmlookup m k \<noteq> None"
      then obtain v where "fmlookup m k = Some v" by blast
      then have "v \<in> set vs" "f v = k" using keyed vals by auto
      then show False using None by (simp add: find_None_iff)
    qed
    then show ?thesis using None by (simp add: index_by_def fmlookup_index)
  next
    case (Some v)
    then have "f v = k" "v \<in> set vs" by (metis (mono_tags, lifting) find_Some_iff nth_mem set_rev)+
    then show ?thesis using Some vals by (auto simp: index_by_def fmlookup_index)
  qed
qed

definition table_ok :: "('a \<Rightarrow> string) \<Rightarrow> ('a \<Rightarrow> json) \<Rightarrow> 'a gomap \<Rightarrow> bool" where
  "table_ok ident enc m \<longleftrightarrow> (\<forall>i v. fmlookup m i = Some v \<longrightarrow> ident v = i \<and> i \<noteq> [] \<and> json_ok (enc v))"

definition on_disk :: "contents \<Rightarrow> string \<Rightarrow> ('a \<Rightarrow> json) \<Rightarrow> 'a gomap \<Rightarrow> bool" where
  "on_disk c kp enc m \<longleftrightarrow> (\<forall>i. fmlookup c (kp @ i) = map_option (\<lambda>v. Doc (enc v)) (fmlookup m i))"

lemma index_range_values:
  assumes "table_ok ident enc m" and "iter_order it"
  shows "index_by ident (sort_key ident (range_values it m)) = m"
proof (rule index_by_eq)
  show "\<And>i v. fmlookup m i = Some v \<Longrightarrow> ident v = i" using assms(1) by (simp add: table_ok_def)
  show "v \<in> set (sort_key ident (range_values it m)) \<longleftrightarrow> fmlookup m (ident v) = Some v" for v
    using assms by (auto simp: set_range_values fmlookup_ran'_iff table_ok_def)
qed

lemma range_values_inj:
  assumes "table_ok ident enc m"
  shows "inj_on ident (set (range_values id m))"
  using assms by (intro inj_onI) (auto simp: set_range_values fmlookup_ran'_iff table_ok_def)

lemma sorted_range_values:
  assumes "table_ok ident enc m" and "iter_order it"
  shows "sort_key ident (range_values it m) = sort_key ident (range_values id m)"
  using sort_key_unique[OF mset_range_values[OF assms(2), symmetric] range_values_inj[OF assms(1)]] ..

locale entity_table = codec enc dec for enc :: "'a \<Rightarrow> json" and dec :: "json \<Rightarrow> 'a option" +
  fixes ident :: "'a \<Rightarrow> string" and kp :: string
  assumes kp_not_empty: "kp \<noteq> []" and kp_last: "(of_char (last kp) :: nat) < 255"
begin

lemma range_values_of_prefix:
  assumes "on_disk c kp enc m"
  shows "\<exists>vs. range_of c kp (prefixEnd kp) = map (\<lambda>(i, v). (kp @ i, Doc (enc v))) vs \<and>
    (\<forall>i v. (i, v) \<in> set vs \<longleftrightarrow> fmlookup m i = Some v)"
proof -
  have in_range: "kp \<le> k \<and> k < prefixEnd kp \<longleftrightarrow> HasPrefix k kp" for k
    by (rule prefix_range[OF kp_not_empty kp_last])
  let ?ks = "filter (\<lambda>k. HasPrefix k kp) (keys_of c)"
  let ?vs = "map (\<lambda>k. (drop (length kp) k, the (fmlookup m (drop (length kp) k)))) ?ks"
  have k: "k = kp @ drop (length kp) k \<and>
      fmlookup m (drop (length kp) k) = Some (the (fmlookup m (drop (length kp) k))) \<and>
      the (fmlookup c k) = Doc (enc (the (fmlookup m (drop (length kp) k))))" if "k \<in> set ?ks" for k
  proof -
    from that obtain i where i: "k = kp @ i" and "k \<in> fmdom' c" by (auto simp: HasPrefix_iff)
    then obtain x where "fmlookup c (kp @ i) = Some x" by (auto simp: fmlookup_dom'_iff)
    then show ?thesis
      using assms i by (cases "fmlookup m i") (auto simp: on_disk_def)
  qed
  have "range_of c kp (prefixEnd kp) = map (\<lambda>(i, v). (kp @ i, Doc (enc v))) ?vs"
    unfolding range_of_def in_range using k by simp
  moreover have "(i, v) \<in> set ?vs \<longleftrightarrow> fmlookup m i = Some v" for i v
  proof
    assume "(i, v) \<in> set ?vs"
    then show "fmlookup m i = Some v" using k by auto
  next
    assume v: "fmlookup m i = Some v"
    then have "kp @ i \<in> set ?ks"
      using assms by (auto simp: on_disk_def fmlookup_dom'_iff HasPrefix_iff)
    then show "(i, v) \<in> set ?vs" using v by (force simp: image_iff)
  qed
  ultimately show ?thesis by blast
qed

lemma load_entries_range:
  "load_entries dec put (map (\<lambda>(i, v). (kp @ i, Doc (enc v))) vs) mem = Inr (fold put (map snd vs) mem)"
  by (induction vs arbitrary: mem) (auto simp: unmarshal_def dec_enc)

lemma load_prefix_table:
  assumes "pebble_laws P cont" "pebble_reads P" "on_disk (cont db) kp enc m" "table_ok ident enc m"
  shows "\<exists>vs. load_prefix P db kp dec put mem = Inr (fold put vs mem) \<and> index_by ident vs = m"
proof -
  obtain vs where vs: "range_of (cont db) kp (prefixEnd kp) = map (\<lambda>(i, v). (kp @ i, Doc (enc v))) vs"
    "\<forall>i v. (i, v) \<in> set vs \<longleftrightarrow> fmlookup m i = Some v"
    using range_values_of_prefix[OF assms(3)] by blast
  have "load_prefix P db kp dec put mem = Inr (fold put (map snd vs) mem)"
    by (simp add: load_prefix_def pebble_reads_iter[OF assms(1,2)] vs(1) load_entries_range)
  moreover have "index_by ident (map snd vs) = m"
    using assms(4) vs(2) by (intro index_by_eq) (force simp: table_ok_def)+
  ultimately show ?thesis by blast
qed

end

interpretation node_table: entity_table enc_Node dec_Node node_id "''node/''"
  by unfold_locales simp_all

interpretation link_table: entity_table enc_Link dec_Link link_id "''link/''"
  by unfold_locales simp_all

interpretation prefix_table: entity_table enc_Prefix dec_Prefix prefix_id "''prefix/''"
  by unfold_locales simp_all

interpretation peer_table: entity_table enc_Peer dec_Peer pr_id "''peer/''"
  by unfold_locales simp_all

interpretation domain_table: entity_table enc_Domain dec_Domain dm_id "''domain/''"
  by unfold_locales simp_all

section \<open>Documents that survive the encoding\<close>

lemma json_ok_simps [simp]:
  "json_ok JNull" "json_ok (JBool b)" "json_ok (JInt i)" "json_ok (JDoc j)"
  "json_ok (JFloat x) \<longleftrightarrow> f_finite x"
  "json_ok (JStr s) \<longleftrightarrow> utf8_valid s"
  by (simp_all add: json_ok_def utf8_valid_def)

lemma json_ok_JArr [simp]: "json_ok (JArr js) \<longleftrightarrow> list_all json_ok js"
  by (auto simp: json_ok_def list_all_iff map_idI) (metis map_eq_conv map_ident)

lemma json_ok_JObj: "json_ok (JObj fs) \<longleftrightarrow> list_all (\<lambda>(n, j). json_ok j) fs"
proof (induction fs)
  case (Cons f fs)
  then show ?case by (cases f) (auto simp: json_ok_def)
qed (simp add: json_ok_def)

lemma json_ok_present [simp]:
  "json_ok (JObj (present fs)) \<longleftrightarrow> list_all (\<lambda>(n, v). case v of None \<Rightarrow> True | Some j \<Rightarrow> json_ok j) fs"
  unfolding json_ok_JObj
proof (induction fs)
  case (Cons f fs)
  obtain n v where "f = (n, v)" by (cases f)
  then show ?case using Cons by (cases v) (simp_all add: present_simps)
qed (simp add: present_simps)

lemma json_ok_omit [simp]:
  "json_ok (enc z) \<Longrightarrow> (case omit z enc x of None \<Rightarrow> True | Some j \<Rightarrow> json_ok j) \<longleftrightarrow> json_ok (enc x)"
  by (auto simp: omit_def)

lemma utf8_valid_Nil [simp]: "utf8_valid []"
  by (simp add: utf8_valid_def)

lemma f_finite_zero [simp]: "f_finite f_zero"
  by (simp add: f_finite_def f_zero_def)

lemma json_ok_enc [simp]:
  "json_ok (enc_word w)" "json_ok (enc_Freshness f)" "json_ok (enc_Protocol p)"
  "json_ok (enc_EntityKind k)" "json_ok (enc_PeerSessionState q)" "json_ok (enc_time t)"
  "json_ok (enc_ptr enc x) \<longleftrightarrow> (case x of None \<Rightarrow> True | Some y \<Rightarrow> json_ok (enc y))"
  "json_ok (enc_list enc xs) \<longleftrightarrow> list_all (\<lambda>x. json_ok (enc x)) xs"
  by (simp_all add: enc_word_def enc_Freshness_def enc_Protocol_def enc_EntityKind_def
      enc_PeerSessionState_def enc_time_def enc_ptr_def enc_list_def list.pred_map comp_def split: option.split)

lemma json_ok_ensureMeta:
  "(case m of None \<Rightarrow> True | Some x \<Rightarrow> json_ok (enc_EntityMeta x)) \<Longrightarrow> json_ok (enc_EntityMeta (ensureMeta m r now))"
  by (cases m) (simp_all add: enc_EntityMeta_def ensureMeta_def Let_def zero_EntityMeta_def)

lemma json_ok_setRevision: "json_ok (enc_entity v) \<Longrightarrow> json_ok (enc_entity (setRevision r now v))"
  by (cases v)
    (simp_all add: enc_entity_def enc_Node_def enc_Link_def enc_Prefix_def enc_Peer_def enc_Domain_def
      json_ok_ensureMeta)

lemma json_ok_event [simp]:
  "json_ok (enc_TopologyEvent e) \<longleftrightarrow> utf8_valid (ev_entity_id e) \<and> utf8_valid (ev_domain_id e) \<and>
     utf8_valid (ev_operation e) \<and> utf8_valid (ev_source_peer_id e) \<and> utf8_valid (ev_reason e)"
  by (simp add: enc_TopologyEvent_def split: option.split)

section \<open>The invariant\<close>

definition memory_ok :: "memory \<Rightarrow> bool" where
  "memory_ok m \<longleftrightarrow> table_ok node_id enc_Node (m_nodes m) \<and> table_ok link_id enc_Link (m_links m) \<and>
     table_ok prefix_id enc_Prefix (m_prefixes m) \<and> table_ok pr_id enc_Peer (m_peers m) \<and>
     table_ok dm_id enc_Domain (m_domains m)"

definition memory_on_disk :: "contents \<Rightarrow> memory \<Rightarrow> bool" where
  "memory_on_disk c m \<longleftrightarrow> on_disk c ''node/'' enc_Node (m_nodes m) \<and> on_disk c ''link/'' enc_Link (m_links m) \<and>
     on_disk c ''prefix/'' enc_Prefix (m_prefixes m) \<and> on_disk c ''peer/'' enc_Peer (m_peers m) \<and>
     on_disk c ''domain/'' enc_Domain (m_domains m)"

definition events_on_disk :: "contents \<Rightarrow> nat \<Rightarrow> nat \<Rightarrow> (nat \<Rightarrow> TopologyEvent) \<Rightarrow> bool" where
  "events_on_disk c lo n E \<longleftrightarrow>
     (\<forall>i. lo < i \<and> i \<le> n \<longrightarrow> fmlookup c (eventKey (of_nat i)) = Some (Doc (enc_TopologyEvent (E i)))) \<and>
     (\<forall>k. HasPrefix k ''event/'' \<longrightarrow> k \<in> fmdom' c \<longrightarrow> (\<exists>i. lo < i \<and> i \<le> n \<and> k = eventKey (of_nat i)))"

definition history_ok :: "nat \<Rightarrow> nat \<Rightarrow> (nat \<Rightarrow> memory) \<Rightarrow> (nat \<Rightarrow> TopologyEvent) \<Rightarrow> bool" where
  "history_ok lo n M E \<longleftrightarrow> (\<forall>i. lo < i \<and> i \<le> n \<longrightarrow>
     ev_revision (E i) = of_nat i \<and> undoEntity (E i) (M i) = M (i - 1) \<and> memory_ok (M (i - 1)))"

text \<open>
  \<open>lo\<close> is the last revision whose event has been pruned, \<open>M i\<close> the entities at revision \<open>i\<close> and
  \<open>E i\<close> the event that led to it.
\<close>

definition store_inv ::
  "('db \<Rightarrow> contents) \<Rightarrow> nat \<Rightarrow> (nat \<Rightarrow> memory) \<Rightarrow> (nat \<Rightarrow> TopologyEvent) \<Rightarrow> 'db Store \<Rightarrow> bool" where
  "store_inv cont lo M E s \<longleftrightarrow> (let n = unat (st_revision s); c = cont (st_db s) in
     lo \<le> n \<and> M n = st_memory s \<and> memory_ok (st_memory s) \<and> memory_on_disk c (st_memory s) \<and>
     events_on_disk c lo n E \<and> history_ok lo n M E \<and>
     (fmlookup c ''meta/revision'' = Some (Raw (PutUint64 (st_revision s))) \<or>
      fmlookup c ''meta/revision'' = None \<and> n = 0) \<and>
     (lo < n \<longrightarrow> ev_observed_at (E n) = Some (st_observed s)))"

fun kind_of :: "entity \<Rightarrow> EntityKind" where
  "kind_of (NodeE v) = ENTITY_KIND_NODE"
| "kind_of (LinkE v) = ENTITY_KIND_LINK"
| "kind_of (PrefixE v) = ENTITY_KIND_PREFIX"
| "kind_of (PeerE v) = ENTITY_KIND_PEER"
| "kind_of (DomainE v) = ENTITY_KIND_UNSPECIFIED"

fun ident_of :: "entity \<Rightarrow> string" where
  "ident_of (NodeE v) = node_id v"
| "ident_of (LinkE v) = link_id v"
| "ident_of (PrefixE v) = prefix_id v"
| "ident_of (PeerE v) = pr_id v"
| "ident_of (DomainE v) = dm_id v"

text \<open>
  The mutations the collector and the API make: the value is of the mutation's kind, carries the
  mutation's identifier and can be written as JSON without loss.
\<close>

definition mutation_ok :: "Mutation \<Rightarrow> bool" where
  "mutation_ok m \<longleftrightarrow> utf8_valid (mu_id m) \<and> utf8_valid (mu_domain_id m) \<and> utf8_valid (mu_peer_id m) \<and>
     utf8_valid (mu_reason m) \<and> (mu_delete m \<or> (case mu_value m of None \<Rightarrow> True
       | Some v \<Rightarrow> kind_of v = mu_kind m \<and> ident_of v = mu_id m \<and> json_ok (enc_entity v)))"

lemma setRevision_kind [simp]: "kind_of (setRevision r now v) = kind_of v"
  by (cases v) simp_all

lemma ensureMeta_id: "em_id (ensureMeta m r now) = GetId m"
  by (cases m) (simp_all add: ensureMeta_def Let_def zero_EntityMeta_def GetId_def)

lemma setRevision_ident [simp]: "ident_of (setRevision r now v) = ident_of v"
  using ensureMeta_id[of _ r now]
  by (cases v) (simp_all add: node_id_def link_id_def prefix_id_def GetId_def)

section \<open>Applying a mutation\<close>

lemma deliver_frame [simp]:
  "st_db (deliver e i s) = st_db s" "st_revision (deliver e i s) = st_revision s"
  "st_observed (deliver e i s) = st_observed s" "st_memory (deliver e i s) = st_memory s"
  "st_nextSub (deliver e i s) = st_nextSub s"
  by (simp_all add: deliver_def split: option.split)

lemma publish_frame [simp]:
  "st_db (publish e s) = st_db s" "st_revision (publish e s) = st_revision s"
  "st_observed (publish e s) = st_observed s" "st_memory (publish e s) = st_memory s"
  "st_nextSub (publish e s) = st_nextSub s"
proof -
  have "st_db (fold (deliver e) ks t) = st_db t \<and> st_revision (fold (deliver e) ks t) = st_revision t \<and>
      st_observed (fold (deliver e) ks t) = st_observed t \<and> st_memory (fold (deliver e) ks t) = st_memory t \<and>
      st_nextSub (fold (deliver e) ks t) = st_nextSub t" for ks and t :: "'a Store"
    by (induction ks arbitrary: t) simp_all
  then show "st_db (publish e s) = st_db s" "st_revision (publish e s) = st_revision s"
    "st_observed (publish e s) = st_observed s" "st_memory (publish e s) = st_memory s"
    "st_nextSub (publish e s) = st_nextSub s"
    by (simp_all add: publish_def)
qed

definition stamped :: "u64 \<Rightarrow> time \<Rightarrow> Mutation \<Rightarrow> Mutation" where
  "stamped r now m = (if mu_delete m then m else m\<lparr>mu_value := map_option (setRevision r now) (mu_value m)\<rparr>)"

definition change_of :: "u64 \<Rightarrow> time \<Rightarrow> Mutation \<Rightarrow> memory \<Rightarrow> json \<Rightarrow> TopologyEvent" where
  "change_of r now m mem after = \<lparr>ev_revision = r, ev_observed_at = Some now, ev_entity_kind = mu_kind m,
     ev_entity_id = mu_id m, ev_domain_id = mu_domain_id m,
     ev_operation = (if mu_delete m then ''DELETE'' else ''UPSERT''), ev_source_peer_id = mu_peer_id m,
     ev_before_json = (case marshal_value (fst (snd (lookupLocked mem (mu_kind m) (mu_id m)))) of
        Inl e \<Rightarrow> None | Inr j \<Rightarrow> Some j),
     ev_after_json = (if mu_delete m then None else Some after), ev_reason = mu_reason m\<rparr>"

lemma found_error: "found kp w v = (p, cur, Some e) \<Longrightarrow> e = Sentinel ErrNotFound"
  by (cases v) (simp_all add: found_def)

lemma lookupLocked_kind:
  "lookupLocked mem k i = (kp, cur, err) \<Longrightarrow> (case err of None \<Rightarrow> True | Some e \<Rightarrow> errors_Is e ErrNotFound) \<Longrightarrow>
     \<forall>j. k \<noteq> ENTITY_KIND_OTHER j"
  by (cases k) auto

lemma Apply_Inr:
  assumes "Apply P ctxErr now m s = (s', v, Inr ev)"
  shows "\<exists>after eventBytes db'. marshal_value (mu_value (stamped (st_revision s + 1) now m)) = Inr after \<and>
     ev = change_of (st_revision s + 1) now m (st_memory s) after \<and>
     marshal (enc_TopologyEvent ev) = Inr eventBytes \<and>
     db_commit P (st_db s)
       [(let k = fst (lookupLocked (st_memory s) (mu_kind m) (mu_id m)) @ mu_id m in
           if mu_delete m then BDelete k else BSet k (Doc after)),
        BSet (eventKey (st_revision s + 1)) (Doc eventBytes),
        BSet ''meta/revision'' (Raw (PutUint64 (st_revision s + 1)))] = (None, db') \<and>
     s' = publish ev (s\<lparr>st_db := db',
        st_memory := applyMemoryLocked (stamped (st_revision s + 1) now m) (st_memory s),
        st_revision := st_revision s + 1, st_observed := now\<rparr>) \<and>
     v = mu_value (stamped (st_revision s + 1) now m) \<and>
     ctxErr = None \<and> mu_id m \<noteq> [] \<and> (mu_delete m \<or> mu_value m \<noteq> None) \<and> (\<forall>j. mu_kind m \<noteq> ENTITY_KIND_OTHER j)"
proof -
  obtain kp cur err where look: "lookupLocked (st_memory s) (mu_kind m) (mu_id m) = (kp, cur, err)"
    by (cases "lookupLocked (st_memory s) (mu_kind m) (mu_id m)")
  note u = assms[unfolded Apply_def look Let_def prod.case]
  have ctx: "ctxErr = None" using u by (cases ctxErr) simp_all
  note u = u[unfolded ctx option.case]
  have mid: "mu_id m \<noteq> []" using u by (auto split: if_splits)
  note u = u[unfolded if_not_P[OF mid]]
  have err: "(case err of None \<Rightarrow> True | Some e \<Rightarrow> errors_Is e ErrNotFound)"
    using u by (auto split: option.splits if_splits)
  then have neg: "\<not> (case err of None \<Rightarrow> False | Some e \<Rightarrow> \<not> errors_Is e ErrNotFound)" by (cases err) simp_all
  note u = u[unfolded if_not_P[OF neg]]
  have val: "\<not> (\<not> mu_delete m \<and> mu_value m = None)" using u by (auto split: if_splits)
  note u = u[unfolded if_not_P[OF val], folded stamped_def]
  obtain after where after: "marshal_value (mu_value (stamped (st_revision s + 1) now m)) = Inr after"
    using u by (cases "marshal_value (mu_value (stamped (st_revision s + 1) now m))") simp_all
  let ?ev = "change_of (st_revision s + 1) now m (st_memory s) after"
  have ev: "\<lparr>ev_revision = st_revision s + 1, ev_observed_at = Some now, ev_entity_kind = mu_kind m,
     ev_entity_id = mu_id m, ev_domain_id = mu_domain_id m,
     ev_operation = (if mu_delete m then ''DELETE'' else ''UPSERT''), ev_source_peer_id = mu_peer_id m,
     ev_before_json = (case marshal_value cur of Inl e \<Rightarrow> None | Inr j \<Rightarrow> Some j),
     ev_after_json = (if mu_delete m then None else Some after), ev_reason = mu_reason m\<rparr> = ?ev"
    by (simp add: change_of_def look)
  note u = u[unfolded after sum.case ev]
  obtain eb where eb: "marshal (enc_TopologyEvent ?ev) = Inr eb"
    using u by (cases "marshal (enc_TopologyEvent ?ev)") simp_all
  note u = u[unfolded eb sum.case]
  show ?thesis
    using u ctx mid val lookupLocked_kind[OF look err] after eb
    by (auto simp: look Let_def split: option.splits prod.splits)
qed

lemma table_ok_upd: "table_ok f enc m \<Longrightarrow> f v = i \<Longrightarrow> i \<noteq> [] \<Longrightarrow> json_ok (enc v) \<Longrightarrow> table_ok f enc (fmupd i v m)"
  by (simp add: table_ok_def)

lemma table_ok_drop: "table_ok f enc m \<Longrightarrow> table_ok f enc (fmdrop i m)"
  by (simp add: table_ok_def)

lemma memory_ok_delete: "memory_ok mem \<Longrightarrow> memory_ok (delete_entity k i mem)"
  by (cases k) (simp_all add: memory_ok_def table_ok_drop)

lemma memory_ok_put:
  "memory_ok mem \<Longrightarrow> ident_of v = i \<Longrightarrow> i \<noteq> [] \<Longrightarrow> json_ok (enc_entity v) \<Longrightarrow> memory_ok (put_entity i v mem)"
  by (cases v) (auto simp: memory_ok_def table_ok_upd enc_entity_def)

lemma on_disk_upd:
  "on_disk c kp enc m \<Longrightarrow> k = kp @ i \<Longrightarrow> on_disk (fmupd k (Doc (enc v)) c) kp enc (fmupd i v m)"
  by (simp add: on_disk_def)

lemma on_disk_drop: "on_disk c kp enc m \<Longrightarrow> k = kp @ i \<Longrightarrow> on_disk (fmdrop k c) kp enc (fmdrop i m)"
  by (simp add: on_disk_def)

lemma on_disk_other:
  assumes "\<And>i. k \<noteq> kp @ i"
  shows "on_disk (fmupd k x c) kp enc m \<longleftrightarrow> on_disk c kp enc m" and "on_disk (fmdrop k c) kp enc m \<longleftrightarrow> on_disk c kp enc m"
proof -
  have "fmlookup (fmupd k x c) (kp @ i) = fmlookup c (kp @ i)"
    "fmlookup (fmdrop k c) (kp @ i) = fmlookup c (kp @ i)" for i
    using assms by (metis fmupd_lookup, metis fmlookup_drop)
  then show "on_disk (fmupd k x c) kp enc m \<longleftrightarrow> on_disk c kp enc m"
    and "on_disk (fmdrop k c) kp enc m \<longleftrightarrow> on_disk c kp enc m"
    by (simp_all only: on_disk_def)
qed

lemma memory_on_disk_log:
  "memory_on_disk (fmupd ''meta/revision'' x (fmupd (eventKey r) y c)) mem \<longleftrightarrow> memory_on_disk c mem"
  by (simp add: memory_on_disk_def on_disk_other eventKey_def)

lemma memory_on_disk_delete:
  assumes "memory_on_disk c mem" and "\<forall>j. k \<noteq> ENTITY_KIND_OTHER j"
  shows "memory_on_disk (fmdrop (fst (lookupLocked mem k i) @ i) c) (delete_entity k i mem)"
  using assms by (cases k) (auto simp: memory_on_disk_def on_disk_other on_disk_drop found_def split: option.splits)

lemma memory_on_disk_put:
  assumes "memory_on_disk c mem"
  shows "memory_on_disk (fmupd (fst (lookupLocked mem (kind_of v) i) @ i) (Doc (enc_entity v)) c) (put_entity i v mem)"
  using assms by (cases v) (auto simp: memory_on_disk_def on_disk_other on_disk_upd enc_entity_def found_def split: option.splits)

lemma fmdrop_fmupd_absent: "fmlookup m i = None \<Longrightarrow> fmdrop i (fmupd i v m) = m"
  by (rule fmap_ext) auto

lemma fmdrop_absent: "fmlookup m i = None \<Longrightarrow> fmdrop i m = m"
  by (rule fmap_ext) auto

lemma fmupd_present: "fmlookup m i = Some v \<Longrightarrow> fmupd i v m = m"
  by (rule fmap_ext) auto

lemma fmupd_fmdrop_present: "fmlookup m i = Some v \<Longrightarrow> fmupd i v (fmdrop i m) = m"
  by (rule fmap_ext) auto

lemmas undo_simps = fmdrop_fmupd_absent fmdrop_absent fmupd_present fmupd_fmdrop_present

lemma table_ok_marshal: "table_ok f enc m \<Longrightarrow> fmlookup m i = Some v \<Longrightarrow> marshal (enc v) = Inr (enc v)"
  by (simp add: table_ok_def marshal_ok)

lemma marshal_None [simp]: "marshal_value None = Inr JNull"
  by (simp add: marshal_value_def marshal_def)

lemmas dec_enc_entities = Node_codec.dec_enc Link_codec.dec_enc Prefix_codec.dec_enc Peer_codec.dec_enc
  Domain_codec.dec_enc
lemmas enc_not_nulls = Node_codec.enc_not_null Link_codec.enc_not_null Prefix_codec.enc_not_null
  Peer_codec.enc_not_null Domain_codec.enc_not_null

lemma marshal_current:
  assumes "memory_ok mem"
  shows "marshal_value (fst (snd (lookupLocked mem k i))) =
    Inr (case fst (snd (lookupLocked mem k i)) of None \<Rightarrow> JNull | Some e \<Rightarrow> enc_entity e)"
  using assms
  by (cases k)
    (auto simp: found_def marshal_value_def enc_entity_def memory_ok_def marshal_def table_ok_marshal[unfolded marshal_def]
      split: option.split dest: table_ok_marshal)

lemma undo_delete:
  assumes "memory_ok mem" and "\<forall>j. k \<noteq> ENTITY_KIND_OTHER j"
    and "ev_entity_kind ev = k" "ev_entity_id ev = i"
    and "ev_before_json ev = Some (case fst (snd (lookupLocked mem k i)) of None \<Rightarrow> JNull | Some e \<Rightarrow> enc_entity e)"
  shows "undoEntity ev (delete_entity k i mem) = mem"
  using assms
  by (cases k) (auto simp: undoEntity_def Let_def found_def enc_entity_def restore_def dec_enc_entities enc_not_nulls
      undo_simps split: option.splits)

lemma undo_put:
  assumes "memory_ok mem" and "kind_of v = k"
    and "ev_entity_kind ev = k" "ev_entity_id ev = i"
    and "ev_before_json ev = Some (case fst (snd (lookupLocked mem k i)) of None \<Rightarrow> JNull | Some e \<Rightarrow> enc_entity e)"
  shows "undoEntity ev (put_entity i v mem) = mem"
  using assms
  by (cases v) (auto simp: undoEntity_def Let_def found_def enc_entity_def restore_def dec_enc_entities enc_not_nulls
      undo_simps split: option.splits)

lemma entity_key:
  assumes "\<forall>j. k \<noteq> ENTITY_KIND_OTHER j"
  shows "fst (lookupLocked mem k i) @ i' \<noteq> eventKey r" and "fst (lookupLocked mem k i) @ i' \<noteq> ''meta/revision''"
    and "\<not> HasPrefix (fst (lookupLocked mem k i) @ i') ''event/''"
  using assms by (cases k; simp add: found_def eventKey_def split: option.split)+

lemma HasPrefix_eventKey [simp]: "HasPrefix (eventKey r) ''event/''"
  by (simp add: eventKey_def)

lemma meta_not_event: "''meta/revision'' \<noteq> eventKey r" "\<not> HasPrefix ''meta/revision'' ''event/''"
  by (simp_all add: eventKey_def)

lemma unat_of_nat_u64: "i < 2 ^ 64 \<Longrightarrow> unat (of_nat i :: u64) = i"
  by (simp add: unat_of_nat)

lemma eventKey_of_nat_inj:
  "i < 2 ^ 64 \<Longrightarrow> j < 2 ^ 64 \<Longrightarrow> eventKey (of_nat i) = eventKey (of_nat j) \<longleftrightarrow> i = j"
  by (metis eventKey_inj unat_of_nat_u64)

lemma events_on_disk_other:
  assumes "\<And>r. k \<noteq> eventKey r" and "events_on_disk c lo n E"
  shows "\<not> HasPrefix k ''event/'' \<Longrightarrow> events_on_disk (fmupd k x c) lo n E"
    and "events_on_disk (fmdrop k c) lo n E"
  using assms by (auto simp: events_on_disk_def)

lemma events_on_disk_append:
  assumes "events_on_disk c lo n E" and "lo \<le> n" and "Suc n < 2 ^ 64"
  shows "events_on_disk (fmupd (eventKey (of_nat (Suc n))) (Doc (enc_TopologyEvent ev)) c) lo (Suc n) (E(Suc n := ev))"
  unfolding events_on_disk_def
proof (intro conjI allI impI)
  fix i assume i: "lo < i \<and> i \<le> Suc n"
  then have "eventKey (of_nat i) = eventKey (of_nat (Suc n)) \<longleftrightarrow> i = Suc n"
    using assms(3) by (intro eventKey_of_nat_inj) linarith+
  then show "fmlookup (fmupd (eventKey (of_nat (Suc n))) (Doc (enc_TopologyEvent ev)) c) (eventKey (of_nat i)) =
      Some (Doc (enc_TopologyEvent ((E(Suc n := ev)) i)))"
    using assms(1) i by (cases "i = Suc n") (auto simp: events_on_disk_def)
next
  fix k assume "HasPrefix k ''event/''"
    and "k \<in> fmdom' (fmupd (eventKey (of_nat (Suc n))) (Doc (enc_TopologyEvent ev)) c)"
  then consider "k = eventKey (of_nat (Suc n))" | "k \<in> fmdom' c" "HasPrefix k ''event/''" by auto
  then show "\<exists>i. lo < i \<and> i \<le> Suc n \<and> k = eventKey (of_nat i)"
  proof cases
    case 1
    then show ?thesis using assms(2) by (intro exI[of _ "Suc n"]) simp
  next
    case 2
    then show ?thesis using assms(1) unfolding events_on_disk_def by (meson le_SucI)
  qed
qed

lemma utf8_operations: "utf8_valid ''DELETE''" "utf8_valid ''UPSERT''"
  by code_simp+

text \<open>
  A successful \<open>Apply\<close> keeps the invariant and extends the two histories by one entry: the new
  revision has the entities the mutation describes and the event that is returned.
\<close>

lemma Apply_store_inv:
  assumes laws: "pebble_laws P cont" and inv: "store_inv cont lo M E s" and ok: "mutation_ok m"
    and app: "Apply P ctxErr now m s = (s', v, Inr ev)" and room: "Suc (unat (st_revision s)) < 2 ^ 64"
  shows "unat (st_revision s') = Suc (unat (st_revision s))"
    and "store_inv cont lo (M(unat (st_revision s') := st_memory s')) (E(unat (st_revision s') := ev)) s'"
proof -
  let ?r = "st_revision s + 1" and ?n = "unat (st_revision s)"
  let ?mem = "applyMemoryLocked (stamped ?r now m) (st_memory s)"
  obtain after eb db' where A: "marshal_value (mu_value (stamped ?r now m)) = Inr after"
      "ev = change_of ?r now m (st_memory s) after" "marshal (enc_TopologyEvent ev) = Inr eb"
      "db_commit P (st_db s) [(let k = fst (lookupLocked (st_memory s) (mu_kind m) (mu_id m)) @ mu_id m in
           if mu_delete m then BDelete k else BSet k (Doc after)),
         BSet (eventKey ?r) (Doc eb), BSet ''meta/revision'' (Raw (PutUint64 ?r))] = (None, db')"
      "s' = publish ev (s\<lparr>st_db := db', st_memory := ?mem, st_revision := ?r, st_observed := now\<rparr>)"
      "mu_delete m \<or> mu_value m \<noteq> None" "\<forall>j. mu_kind m \<noteq> ENTITY_KIND_OTHER j" "mu_id m \<noteq> []"
    using Apply_Inr[OF app] by metis
  have r: "?r = of_nat (Suc ?n)" by simp
  have un: "unat ?r = Suc ?n" using room by (simp add: unat_word_ariths)
  show rev: "unat (st_revision s') = Suc ?n" using A(5) un by simp
  have mem_ok: "memory_ok (st_memory s)" and on: "memory_on_disk (cont (st_db s)) (st_memory s)"
    and evs: "events_on_disk (cont (st_db s)) lo ?n E" and hist: "history_ok lo ?n M E"
    and lo: "lo \<le> ?n" and M: "M ?n = st_memory s"
    using inv by (simp_all add: store_inv_def Let_def)
  define op where "op = (let k = fst (lookupLocked (st_memory s) (mu_kind m) (mu_id m)) @ mu_id m in
      if mu_delete m then BDelete k else BSet k (Doc after))"
  have "json_ok (enc_TopologyEvent ev)"
    using ok by (simp add: A(2) change_of_def mutation_ok_def utf8_operations)
  then have eb: "eb = enc_TopologyEvent ev" using A(3) by (simp add: marshal_ok)
  have c': "cont db' = fmupd ''meta/revision'' (Raw (PutUint64 ?r)) (fmupd (eventKey ?r)
      (Doc (enc_TopologyEvent ev)) (apply_op op (cont (st_db s))))"
    using pebble_commit[OF laws A(4)] by (simp add: op_def eb)
  have before: "ev_before_json ev = Some (case fst (snd (lookupLocked (st_memory s) (mu_kind m) (mu_id m))) of
      None \<Rightarrow> JNull | Some e \<Rightarrow> enc_entity e)"
    by (simp add: A(2) change_of_def marshal_current[OF mem_ok])
  have step: "memory_ok ?mem \<and> memory_on_disk (apply_op op (cont (st_db s))) ?mem \<and> undoEntity ev ?mem = st_memory s"
  proof (cases "mu_delete m")
    case True
    then show ?thesis
      using memory_ok_delete[OF mem_ok] memory_on_disk_delete[OF on A(7)]
        undo_delete[OF mem_ok A(7) _ _ before]
      by (simp add: applyMemoryLocked_def stamped_def op_def Let_def A(2) change_of_def)
  next
    case False
    with A(6) obtain w where w: "mu_value m = Some w" by auto
    let ?w = "setRevision ?r now w"
    have w_ok: "kind_of ?w = mu_kind m" "ident_of ?w = mu_id m" "json_ok (enc_entity ?w)"
      using ok False w by (simp_all add: mutation_ok_def json_ok_setRevision)
    have "after = enc_entity ?w"
      using A(1) False w w_ok(3) by (simp add: stamped_def marshal_value_def marshal_ok)
    then show ?thesis
      using memory_ok_put[OF mem_ok w_ok(2) A(8) w_ok(3)] memory_on_disk_put[OF on, of ?w "mu_id m"] w_ok(1)
        undo_put[OF mem_ok w_ok(1) _ _ before] False w
      by (simp add: applyMemoryLocked_def stamped_def op_def Let_def A(2) change_of_def)
  qed
  have "events_on_disk (apply_op op (cont (st_db s))) lo ?n E"
    using events_on_disk_other[OF _ evs] entity_key[OF A(7)] by (simp add: op_def Let_def)
  note log = events_on_disk_append[OF this lo room, of ev]
  have "events_on_disk (cont db') lo (Suc ?n) (E(Suc ?n := ev))"
    unfolding c' using events_on_disk_other(1)[OF _ log] meta_not_event by (simp only: r) auto
  moreover have "history_ok lo (Suc ?n) (M(Suc ?n := ?mem)) (E(Suc ?n := ev))"
    using hist step M mem_ok by (auto simp: history_ok_def le_Suc_eq A(2) change_of_def)
  moreover have "memory_on_disk (cont db') ?mem"
    unfolding c' memory_on_disk_log using step by blast
  moreover have "fmlookup (cont db') ''meta/revision'' = Some (Raw (PutUint64 ?r))" by (simp add: c')
  moreover have "ev_observed_at ev = Some now" by (simp add: A(2) change_of_def)
  ultimately show "store_inv cont lo (M(unat (st_revision s') := st_memory s')) (E(unat (st_revision s') := ev)) s'"
    using step lo unfolding rev store_inv_def Let_def by (simp add: A(5) un)
qed

end
