(* ===== verification/Store_History.thy ===== *)
theory Store_History
  imports Store_Inv
begin

text \<open>
  Reading the event log of a store that satisfies the invariant: the window that \<open>Events\<close> returns,
  the oldest retained revision, the loop that collects the events after a revision in chunks, and
  undoing them.
\<close>

section \<open>Ranges of event keys\<close>

definition logged :: "(nat \<Rightarrow> TopologyEvent) \<Rightarrow> nat \<Rightarrow> string \<times> dbvalue" where
  "logged E i = (eventKey (of_nat i), Doc (enc_TopologyEvent (E i)))"

lemma sorted_event_keys:
  assumes "\<forall>i\<in>set is. i < 2 ^ 64" and "sorted_wrt (<) is"
  shows "sorted_wrt (<) (map (\<lambda>i. eventKey (of_nat i)) is)"
  unfolding sorted_wrt_map
proof (rule sorted_wrt_mono_rel[OF _ assms(2)])
  fix i j assume "i \<in> set is" "j \<in> set is" "i < j"
  then show "eventKey (of_nat i) < eventKey (of_nat j)"
    using assms(1) by (simp only: eventKey_less word_less_nat_alt unat_of_nat_u64)
qed

lemma event_range:
  assumes log: "events_on_disk c lo n E" and n: "n < 2 ^ 64"
    and events: "\<And>k. L \<le> k \<and> k < H \<Longrightarrow> HasPrefix k ''event/''"
    and q: "\<And>i. lo < i \<Longrightarrow> i \<le> n \<Longrightarrow> L \<le> eventKey (of_nat i) \<and> eventKey (of_nat i) < H \<longleftrightarrow> q i"
  shows "range_of c L H = map (logged E) (filter q [Suc lo..<Suc n])"
proof -
  let ?ks = "filter (\<lambda>k. L \<le> k \<and> k < H) (keys_of c)"
  let ?is = "filter q [Suc lo..<Suc n]"
  have in_is: "lo < i \<and> i \<le> n \<and> q i" if "i \<in> set ?is" for i using that by auto
  have sorted_is: "sorted_wrt (<) (map (\<lambda>i. eventKey (of_nat i)) ?is)"
    using in_is n by (intro sorted_event_keys sorted_wrt_filter sorted_wrt_upt) (auto simp del: upt_Suc)
  have "?ks = map (\<lambda>i. eventKey (of_nat i)) ?is"
  proof (rule sorted_distinct_set_unique)
    show "sorted ?ks" "distinct ?ks" by (simp_all add: sorted_wrt_filter)
    show "sorted (map (\<lambda>i. eventKey (of_nat i)) ?is)" "distinct (map (\<lambda>i. eventKey (of_nat i)) ?is)"
      using sorted_is strict_sorted_iff by blast+
    show "set ?ks = set (map (\<lambda>i. eventKey (of_nat i)) ?is)"
    proof (intro set_eqI iffI)
      fix k assume "k \<in> set ?ks"
      then have "L \<le> k \<and> k < H" "k \<in> fmdom' c" by auto
      then obtain i where i: "lo < i" "i \<le> n" "k = eventKey (of_nat i)"
        using events[of k] log unfolding events_on_disk_def by blast
      then have "q i" using q[of i] \<open>L \<le> k \<and> k < H\<close> by blast
      then have "i \<in> set ?is" using i by (simp del: upt_Suc)
      then show "k \<in> set (map (\<lambda>i. eventKey (of_nat i)) ?is)" unfolding i(3) set_map by (rule imageI)
    next
      fix k assume "k \<in> set (map (\<lambda>i. eventKey (of_nat i)) ?is)"
      then obtain i where "i \<in> set ?is" and k: "k = eventKey (of_nat i)" unfolding set_map by blast
      then have i: "lo < i" "i \<le> n" "q i" using in_is by blast+
      then have "fmlookup c k = Some (Doc (enc_TopologyEvent (E i)))"
        using log k by (simp add: events_on_disk_def)
      then show "k \<in> set ?ks" using i q[of i] k by (simp add: fmlookup_dom'_iff)
    qed
  qed
  note keys = this
  have "the (fmlookup c (eventKey (of_nat i))) = Doc (enc_TopologyEvent (E i))" if "i \<in> set ?is" for i
    using in_is[OF that] log by (simp add: events_on_disk_def)
  then show ?thesis
    unfolding range_of_def keys map_map by (intro map_cong refl) (simp add: logged_def)
qed

lemma event_prefix: "''event/'' \<le> k \<and> k < prefixEnd ''event/'' \<longleftrightarrow> HasPrefix k ''event/''"
  by (rule prefix_range) simp_all

lemma all_events_range:
  assumes "events_on_disk c lo n E" and "n < 2 ^ 64"
  shows "range_of c ''event/'' (prefixEnd ''event/'') = map (logged E) [Suc lo..<Suc n]"
proof -
  have "range_of c ''event/'' (prefixEnd ''event/'') = map (logged E) (filter (\<lambda>i. True) [Suc lo..<Suc n])"
    by (rule event_range[OF assms]) (simp_all only: event_prefix HasPrefix_eventKey)
  then show ?thesis by simp
qed

definition upper_revision :: "nat \<Rightarrow> u64 \<Rightarrow> nat" where
  "upper_revision n before = (if before = 0 \<or> before = - 1 then n else min n (unat before))"

lemma unat_Suc_u64: "w \<noteq> - 1 \<Longrightarrow> unat (w + 1 :: u64) = Suc (unat w)"
  by (metis add.commute add.inverse_unique unatSuc)

lemma window_filter:
  "filter (\<lambda>i. a \<le> i \<and> i \<le> b) [Suc lo..<Suc n] = [max (Suc lo) a..<Suc (min n b)]"
proof (rule sorted_distinct_set_unique)
  show "set (filter (\<lambda>i. a \<le> i \<and> i \<le> b) [Suc lo..<Suc n]) = set [max (Suc lo) a..<Suc (min n b)]" by auto
qed (simp_all add: sorted_wrt_filter del: upt_Suc)

lemma window_range:
  fixes before after :: u64
  assumes log: "events_on_disk c lo n E" and n: "n < 2 ^ 64"
  defines "H \<equiv> (if before \<noteq> 0 \<and> before \<noteq> - 1 then eventKey (before + 1) else prefixEnd ''event/'')"
  shows "range_of c (eventKey (after + 1)) H =
    map (logged E) [max (Suc lo) (unat (after + 1))..<Suc (upper_revision n before)]"
proof -
  have L: "''event/'' \<le> eventKey (after + 1)" "eventKey w < prefixEnd ''event/''" for w
    using event_prefix HasPrefix_eventKey by blast+
  have "H \<le> prefixEnd ''event/''" using L(2) by (simp add: H_def less_imp_le)
  then have ev: "HasPrefix k ''event/''" if "eventKey (after + 1) \<le> k \<and> k < H" for k
    using that L(1) event_prefix by (meson order.trans order.strict_trans2)
  have q: "eventKey (after + 1) \<le> eventKey (of_nat i) \<and> eventKey (of_nat i) < H \<longleftrightarrow>
      unat (after + 1) \<le> i \<and> i \<le> upper_revision n before" if "lo < i" "i \<le> n" for i
  proof -
    have i: "unat (of_nat i :: u64) = i" using that n by (intro unat_of_nat_u64) linarith
    have "eventKey (of_nat i) < eventKey (before + 1) \<longleftrightarrow> i \<le> unat before" if "before \<noteq> - 1"
      by (simp only: eventKey_less word_less_nat_alt i unat_Suc_u64[OF that] less_Suc_eq_le)
    then have "eventKey (of_nat i) < H \<longleftrightarrow> i \<le> upper_revision n before"
      using that L(2) by (auto simp: H_def upper_revision_def)
    then show ?thesis by (simp only: eventKey_le word_le_nat_alt i)
  qed
  have "range_of c (eventKey (after + 1)) H =
      map (logged E) (filter (\<lambda>i. unat (after + 1) \<le> i \<and> i \<le> upper_revision n before) [Suc lo..<Suc n])"
    by (rule event_range[OF log n ev q])
  moreover have "min n (upper_revision n before) = upper_revision n before"
    by (simp add: upper_revision_def)
  ultimately show ?thesis by (simp only: window_filter)
qed

lemma decode_logged:
  "decode_events limit (map (logged E) is) out = Inr (out @ map E (take (limit - length out) is))"
proof (induction "is" arbitrary: out)
  case (Cons i "is")
  show ?case
  proof (cases "length out < limit")
    case True
    then have "limit - length out = Suc (limit - length (out @ [E i]))" by simp
    then show ?thesis
      using True Cons.IH[of "out @ [E i]"]
      by (simp add: logged_def unmarshal_def TopologyEvent_codec.dec_enc)
  qed (simp add: logged_def)
qed simp

section \<open>The operations on the log\<close>

lemma Events_eq:
  assumes "pebble_laws P cont" "pebble_reads P" "store_inv cont lo M E s"
  shows "Events P s after before limit = Inr (map E
    (take (nat (if limit \<le> 0 \<or> limit > 10000 then 1000 else limit))
      [max (Suc lo) (unat (after + 1))..<Suc (upper_revision (unat (st_revision s)) before)]))"
proof -
  have log: "events_on_disk (cont (st_db s)) lo (unat (st_revision s)) E"
    using assms(3) by (simp add: store_inv_def Let_def)
  show ?thesis
    unfolding Events_def Let_def pebble_reads_iter[OF assms(1,2)] window_range[OF log u64_less]
    by (simp only: sum.case prod.case option.case decode_logged list.size(3) diff_zero append_Nil)
qed

lemma OldestRevision_eq:
  assumes "pebble_laws P cont" "pebble_reads P" "store_inv cont lo M E s"
  shows "OldestRevision P s = (if lo < unat (st_revision s) then of_nat (Suc lo) else 0)"
proof -
  have log: "events_on_disk (cont (st_db s)) lo (unat (st_revision s)) E"
    using assms(3) by (simp add: store_inv_def Let_def)
  have "range_of (cont (st_db s)) ''event/'' (prefixEnd ''event/'') = map (logged E) [Suc lo..<Suc (unat (st_revision s))]"
    by (rule all_events_range[OF log u64_less])
  then show ?thesis
    by (simp add: OldestRevision_def pebble_reads_iter[OF assms(1,2)] upt_rec[of "Suc lo"] logged_def
        ParseUint_eventKey del: upt_Suc)
qed

lemma collect_eq:
  assumes chunk: "\<And>a. lo \<le> a \<Longrightarrow> a < n \<Longrightarrow>
      chunk_after (of_nat a) = Inr (map E (take 10000 [Suc a..<Suc n]))"
    and rev: "\<And>i. lo < i \<Longrightarrow> i \<le> n \<Longrightarrow> ev_revision (E i) = of_nat i"
    and "n < 2 ^ 64" and "lo \<le> a" and "a \<le> n"
  shows "collect chunk_after (of_nat a) (of_nat n) evs = Some (Inr (evs @ map E [Suc a..<Suc n]))"
  using assms(4,5)
proof (induction "n - a" arbitrary: a evs rule: less_induct)
  case less
  have less_iff: "of_nat a < (of_nat n :: u64) \<longleftrightarrow> a < n"
    using less.prems assms(3) by (simp only: word_less_nat_alt unat_of_nat_u64)
  show ?case
  proof (cases "a < n")
    case False
    then show ?thesis using less.prems less_iff by (subst collect.simps) simp
  next
    case True
    define b where "b = min n (a + 10000)"
    have b: "a < b" "b \<le> n" using True by (auto simp: b_def)
    have take: "take 10000 [Suc a..<Suc n] = [Suc a..<Suc b]"
      using take_upt[of "Suc a" 10000 "Suc n"] by (cases "a + 10000 \<le> n") (simp_all add: b_def del: upt_Suc)
    have last: "ev_revision (last (map E [Suc a..<Suc b])) = of_nat b"
      using b less.prems rev[of b] by simp
    have "collect chunk_after (of_nat a) (of_nat n) evs
        = collect chunk_after (of_nat b) (of_nat n) (evs @ map E [Suc a..<Suc b])"
      using True b chunk[OF less.prems(1) True] less_iff last take
      by (subst collect.simps) (simp del: upt_Suc)
    also have "\<dots> = Some (Inr ((evs @ map E [Suc a..<Suc b]) @ map E [Suc b..<Suc n]))"
      using b less.prems by (intro less.hyps) auto
    also have "[Suc a..<Suc b] @ [Suc b..<Suc n] = [Suc a..<Suc n]"
      using b upt_add_eq_append[of "Suc a" "Suc b" "n - b"] by simp
    then have "(evs @ map E [Suc a..<Suc b]) @ map E [Suc b..<Suc n] = evs @ map E [Suc a..<Suc n]"
      by (metis append.assoc map_append)
    finally show ?thesis .
  qed
qed

lemma fold_undo:
  assumes "history_ok lo n M E" and "lo \<le> a" and "a \<le> n"
  shows "fold undoEntity (rev (map E [Suc a..<Suc n])) (M n) = M a"
  using assms
proof (induction "n - a" arbitrary: n)
  case (Suc k)
  then obtain n' where n: "n = Suc n'" by (cases n) auto
  have "undoEntity (E n) (M n) = M n'" using Suc.prems n Suc.hyps(2) by (simp add: history_ok_def)
  moreover have "history_ok lo n' M E" using Suc.prems(1) n by (simp add: history_ok_def)
  ultimately show ?case using Suc.hyps Suc.prems n by simp
qed simp

lemma index_snapshot_memory:
  assumes "memory_ok m" and "iter_order it"
  shows "index_snapshot (snapshot_of it r t m) = m"
  using assms(1) unfolding memory_ok_def
  by (cases m) (auto simp: index_snapshot_def snapshot_of_def dest: index_range_values[OF _ assms(2)])

section \<open>An older revision\<close>

lemma store_invD:
  assumes "store_inv cont lo M E s"
  shows "lo \<le> unat (st_revision s)" "M (unat (st_revision s)) = st_memory s" "memory_ok (st_memory s)"
    "memory_on_disk (cont (st_db s)) (st_memory s)"
    "events_on_disk (cont (st_db s)) lo (unat (st_revision s)) E" "history_ok lo (unat (st_revision s)) M E"
  using assms by (simp_all add: store_inv_def Let_def)

definition marker_time :: "nat \<Rightarrow> (nat \<Rightarrow> TopologyEvent) \<Rightarrow> nat \<Rightarrow> time" where
  "marker_time lo E a = (if lo < a then AsTime (ev_observed_at (E a)) else zero_time)"

lemma marker_Events:
  assumes "pebble_laws P cont" "pebble_reads P" "store_inv cont lo M E s"
    and "0 < a" "a < unat (st_revision s)"
  shows "Events P s (of_nat a - 1) (of_nat a) 1 = Inr (if lo < a then [E a] else [])"
proof -
  have a: "a < 2 ^ 64" using assms(5) u64_less[of "st_revision s"] by linarith
  have "of_nat a \<noteq> (0 :: u64)" using unat_of_nat_u64[OF a] assms(4) by (metis less_irrefl unat_0)
  moreover have "of_nat a \<noteq> (- 1 :: u64)"
  proof
    assume "of_nat a = (- 1 :: u64)"
    then have "unat (- 1 :: u64) = a" using unat_of_nat_u64[OF a] by simp
    then show False using assms(5) u64_less[of "st_revision s"] by (simp add: unsigned_minus_1_eq_mask mask_eq_exp_minus_1)
  qed
  ultimately have up: "upper_revision (unat (st_revision s)) (of_nat a) = a"
    using assms(5) unat_of_nat_u64[OF a] by (simp add: upper_revision_def)
  have "max (Suc lo) a = (if lo < a then a else Suc lo)" by auto
  then show ?thesis
    unfolding Events_eq[OF assms(1-3)] up diff_add_cancel unat_of_nat_u64[OF a] by simp
qed

lemma SnapshotAt_eq:
  assumes "pebble_laws P cont" "pebble_reads P" "store_inv cont lo M E s" "iter_order it"
    and "0 < a" "a < unat (st_revision s)" "lo \<le> a \<or> lo = unat (st_revision s)"
  shows "SnapshotAt P it s (of_nat a) = Inr (snapshot_of it (of_nat a) (marker_time lo E a)
    (if lo \<le> a then M a else M (unat (st_revision s))))"
proof -
  let ?n = "unat (st_revision s)"
  note inv = store_invD[OF assms(3)]
  have a64: "a < 2 ^ 64" "?n < 2 ^ 64" using assms(6) u64_less[of "st_revision s"] by linarith+
  have ua: "unat (of_nat a :: u64) = a" by (rule unat_of_nat_u64[OF a64(1)])
  have current: "\<not> (of_nat a = (0 :: u64) \<or> of_nat a = st_revision s)" "\<not> st_revision s < of_nat a"
    using assms(5,6) ua by (auto simp: word_less_nat_alt)
  have Sa: "unat (of_nat a + 1 :: u64) = Suc a"
    using unat_of_nat_u64[of "Suc a"] assms(6) a64(2) by (simp add: add.commute)
  have oldest: "\<not> (OldestRevision P s \<noteq> 0 \<and> of_nat a + 1 < OldestRevision P s)"
  proof (cases "lo < ?n")
    case True
    then have "unat (of_nat (Suc lo) :: u64) = Suc lo" using a64(2) by (intro unat_of_nat_u64) linarith
    then show ?thesis
      using True assms(7) Sa unfolding OldestRevision_eq[OF assms(1-3)] word_less_nat_alt by (simp only: if_True) linarith
  qed (simp add: OldestRevision_eq[OF assms(1-3)])
  have chunk: "Events P s (of_nat b) (st_revision s) 10000 = Inr (map E (take 10000 [Suc b..<Suc ?n]))"
    if "lo \<le> b" "b < ?n" for b
  proof -
    have "unat (of_nat b + 1 :: u64) = Suc b"
      using unat_of_nat_u64[of "Suc b"] that(2) a64(2) by (simp add: add.commute)
    moreover have "upper_revision ?n (st_revision s) = ?n" by (simp add: upper_revision_def)
    ultimately show ?thesis using that(1) by (simp add: Events_eq[OF assms(1-3)] del: upt_Suc)
  qed
  have events: "collect (\<lambda>cursor. Events P s cursor (st_revision s) 10000) (of_nat a) (st_revision s) []
      = Some (Inr (if lo \<le> a then map E [Suc a..<Suc ?n] else []))"
  proof (cases "lo \<le> a")
    case True
    have "ev_revision (E i) = of_nat i" if "lo < i" "i \<le> ?n" for i
      using inv(6) that by (simp add: history_ok_def)
    note collect_eq[where chunk_after = "\<lambda>cursor. Events P s cursor (st_revision s) 10000",
        OF chunk this a64(2) True less_imp_le[OF assms(6)]]
    then show ?thesis using True by simp
  next
    case False
    then have lo: "lo = ?n" using assms(7) by blast
    have "Events P s (of_nat a) (st_revision s) 10000 = Inr []"
      by (simp add: Events_eq[OF assms(1-3)] lo upper_revision_def)
    then show ?thesis using False by (subst collect.simps) simp
  qed
  have undo: "fold undoEntity (rev (if lo \<le> a then map E [Suc a..<Suc ?n] else [])) (st_memory s)
      = (if lo \<le> a then M a else M ?n)"
    using fold_undo[OF inv(6), of a] inv(2) assms(6) by simp
  have mark: "(case Events P s (of_nat a - 1) (of_nat a) 1 of
      Inr [marker] \<Rightarrow> AsTime (ev_observed_at marker) | _ \<Rightarrow> zero_time) = marker_time lo E a"
    by (simp add: marker_Events[OF assms(1-3,5,6)] marker_time_def)
  have snap: "sn_revision (Store_Snapshot it s) = st_revision s"
    "index_snapshot (Store_Snapshot it s) = st_memory s"
    using index_snapshot_memory[OF inv(3) assms(4)] by (simp_all add: Store_Snapshot_def snapshot_of_def)
  show ?thesis
    unfolding SnapshotAt_def Let_def snap if_not_P[OF current(1)] if_not_P[OF current(2)]
      if_not_P[OF oldest] events mark
    by (simp only: option.case sum.case undo)
qed

end
