(* ===== verification/Store_Machine.thy ===== *)
theory Store_Machine
  imports Store_History
begin

text \<open>
  The store as a state machine: mutations, compaction of the history, subscriptions and reopening,
  with the invariant along every run and the properties that rest on it.
\<close>

section \<open>Compaction\<close>

lemma pebble_iter_prefix:
  "pebble_laws P cont \<Longrightarrow> db_iter P db lo hi = Inr (es, err) \<Longrightarrow> \<exists>rest. range_of (cont db) lo hi = es @ rest"
  unfolding pebble_laws_def by metis

lemma pebble_delete_range:
  "pebble_laws P cont \<Longrightarrow> db_delete_range P db lo hi = (err, db') \<Longrightarrow>
     cont db' = (if err = None then fmfilter (\<lambda>k. \<not> (lo \<le> k \<and> k < hi)) (cont db) else cont db)"
  by (simp add: pebble_laws_def)

lemma pebble_compact: "pebble_laws P cont \<Longrightarrow> db_compact P db lo hi = (err, db') \<Longrightarrow> cont db' = cont db"
  by (simp add: pebble_laws_def)

lemma age_scan_key:
  "age_scan ctx cutoff i es d = Inr d' \<Longrightarrow> d' = d \<or> d' \<in> fst ` set es"
  by (induction ctx cutoff i es d rule: age_scan.induct) (auto split: option.splits if_splits)

lemma size_scan_key: "size_scan P target acc es d = d \<or> size_scan P target acc es d \<in> fst ` set es"
proof (induction es arbitrary: acc d)
  case (Cons e es)
  obtain k v where e: "e = (k, v)" by (cases e)
  show ?case using Cons.IH[of "acc + of_nat (length k + db_value_len P v)" k]
    by (auto simp add: e Let_def)
qed simp

lemma less_snoc: "length xs = length (ys :: 'a::linorder list) \<Longrightarrow> xs < ys @ [z] \<longleftrightarrow> xs \<le> ys"
  by (induction xs ys rule: list_induct2) auto

lemma length_eventKey: "length (eventKey r) = 26"
  by (simp add: eventKey_digits del: digits.simps)

lemma deleted_keys:
  "''event/'' \<le> k \<and> k < eventKey r @ [z] \<Longrightarrow> HasPrefix k ''event/''"
  "''event/'' \<le> eventKey q \<and> eventKey q < eventKey r @ [z] \<longleftrightarrow> q \<le> r"
proof -
  have "HasPrefix (eventKey r @ [z]) ''event/''" by (simp add: eventKey_def)
  then have "eventKey r @ [z] < prefixEnd ''event/''" using event_prefix by blast
  then show "''event/'' \<le> k \<and> k < eventKey r @ [z] \<Longrightarrow> HasPrefix k ''event/''"
    using event_prefix by (meson order.strict_trans)
  have "''event/'' \<le> eventKey q" using event_prefix HasPrefix_eventKey by blast
  then show "''event/'' \<le> eventKey q \<and> eventKey q < eventKey r @ [z] \<longleftrightarrow> q \<le> r"
    by (simp add: less_snoc length_eventKey eventKey_le)
qed

lemma prune_inv:
  assumes inv: "store_inv cont lo M E s" and b: "lo < b" "b \<le> unat (st_revision s)"
    and c': "cont db' = fmfilter (\<lambda>k. \<not> (''event/'' \<le> k \<and> k < eventKey (of_nat b) @ [z])) (cont (st_db s))"
  shows "store_inv cont b M E (s\<lparr>st_db := db'\<rparr>)"
proof -
  let ?c = "cont (st_db s)" and ?n = "unat (st_revision s)"
  note inv' = store_invD[OF inv]
  have b64: "unat (of_nat b :: u64) = b" using b(2) u64_less[of "st_revision s"] by (intro unat_of_nat_u64) linarith
  have keep: "fmlookup (cont db') k = fmlookup ?c k" if "\<not> HasPrefix k ''event/''" for k
    using that deleted_keys(1)[of k "of_nat b" z] by (auto simp: c' fmlookup_filter)
  have "memory_on_disk (cont db') (st_memory s)"
    using inv'(4) by (simp add: memory_on_disk_def on_disk_def keep)
  moreover have "events_on_disk (cont db') b ?n E"
    unfolding events_on_disk_def
  proof (intro conjI allI impI)
    fix i assume i: "b < i \<and> i \<le> ?n"
    then have "unat (of_nat i :: u64) = i" using u64_less[of "st_revision s"] by (intro unat_of_nat_u64) linarith
    then have "\<not> of_nat i \<le> (of_nat b :: u64)" using i b64 by (simp add: word_le_nat_alt)
    then have "fmlookup (cont db') (eventKey (of_nat i)) = fmlookup ?c (eventKey (of_nat i))"
      using deleted_keys(2)[of "of_nat i" "of_nat b" z] by (simp only: c' fmlookup_filter) simp
    then show "fmlookup (cont db') (eventKey (of_nat i)) = Some (Doc (enc_TopologyEvent (E i)))"
      using inv'(5) b(1) i by (simp add: events_on_disk_def)
  next
    fix k assume k: "HasPrefix k ''event/''" "k \<in> fmdom' (cont db')"
    then have dom: "k \<in> fmdom' ?c" and out: "\<not> (''event/'' \<le> k \<and> k < eventKey (of_nat b) @ [z])"
      by (auto simp: c')
    obtain i where i: "lo < i" "i \<le> ?n" "k = eventKey (of_nat i)"
      using inv'(5) k(1) dom unfolding events_on_disk_def by blast
    then have "unat (of_nat i :: u64) = i" using u64_less[of "st_revision s"] by (intro unat_of_nat_u64) linarith
    then have "b < i" using out b64 unfolding i(3) deleted_keys(2) by (simp add: word_le_nat_alt)
    then show "\<exists>i. b < i \<and> i \<le> ?n \<and> k = eventKey (of_nat i)" using i by blast
  qed
  moreover have "history_ok b ?n M E" using inv'(6) b(1) by (simp add: history_ok_def)
  moreover have "fmlookup (cont db') ''meta/revision'' = fmlookup ?c ''meta/revision''"
    by (rule keep) simp
  ultimately show ?thesis using inv b by (auto simp: store_inv_def Let_def)
qed

lemma store_inv_contents:
  "store_inv cont lo M E s \<Longrightarrow> cont db' = cont (st_db s) \<Longrightarrow> store_inv cont lo M E (s\<lparr>st_db := db'\<rparr>)"
  by (simp add: store_inv_def)

lemma scanned_keys:
  assumes "pebble_laws P cont" "store_inv cont lo M E s"
    and "db_iter P (st_db s) ''event/'' (prefixEnd ''event/'') = Inr (es, err)" and "k \<in> fst ` set es"
  shows "\<exists>b. lo < b \<and> b \<le> unat (st_revision s) \<and> k = eventKey (of_nat b)"
proof -
  obtain rest where "range_of (cont (st_db s)) ''event/'' (prefixEnd ''event/'') = es @ rest"
    using pebble_iter_prefix[OF assms(1,3)] by blast
  then have "set es \<subseteq> set (map (logged E) [Suc lo..<Suc (unat (st_revision s))])"
    using all_events_range[OF store_invD(5)[OF assms(2)] u64_less] by (metis set_append Un_upper1)
  moreover obtain v where "(k, v) \<in> set es" using assms(4) by auto
  ultimately have "(k, v) \<in> set (map (logged E) [Suc lo..<Suc (unat (st_revision s))])" by blast
  then show ?thesis by (auto simp: logged_def less_Suc_eq_le Suc_le_eq simp del: upt_Suc)
qed

lemma CompactHistory_store_inv:
  assumes laws: "pebble_laws P cont" and inv: "store_inv cont lo M E s"
    and run: "CompactHistory P ctx cutoff maxBytes s = (s', err)"
  shows "\<exists>lo' db'. lo \<le> lo' \<and> lo' \<le> unat (st_revision s) \<and> s' = s\<lparr>st_db := db'\<rparr> \<and> store_inv cont lo' M E s'"
proof -
  have same: ?thesis if "s' = s"
    using that inv store_invD(1)[OF inv] by (intro exI[of _ lo] exI[of _ "st_db s"]) simp
  have unchanged: ?thesis if "s' = s\<lparr>st_db := db'\<rparr>" "cont db' = cont (st_db s)" for db'
    using that inv store_invD(1)[OF inv] store_inv_contents[OF inv] by blast
  show ?thesis
  proof (cases "db_iter P (st_db s) ''event/'' (prefixEnd ''event/'')")
    case (Inl e)
    then show ?thesis using run same by (simp add: CompactHistory_def)
  next
    case (Inr r)
    obtain es ierr where r: "r = (es, ierr)" by (cases r)
    show ?thesis
    proof (cases "age_scan ctx cutoff 0 es []")
      case (Inl e)
      then show ?thesis using run same Inr r by (simp add: CompactHistory_def)
    next
      case aged: (Inr a)
      define d where "d = (if 0 < maxBytes \<and> maxBytes < db_disk_usage P (st_db s)
        then size_scan P (db_disk_usage P (st_db s) - maxBytes + maxBytes div 10) 0 es a else a)"
      have d_key: "d = [] \<or> d \<in> fst ` set es"
        using age_scan_key[OF aged] size_scan_key[of P _ 0 es a] by (auto simp: d_def)
      note u = run[unfolded CompactHistory_def Inr r sum.case prod.case aged Let_def, folded d_def]
      show ?thesis
      proof (cases "d = []")
        case True
        then show ?thesis using u same by simp
      next
        case False
        then obtain b where b: "lo < b" "b \<le> unat (st_revision s)" "d = eventKey (of_nat b)"
          using d_key scanned_keys[OF laws inv Inr[unfolded r]] by blast
        obtain derr db1 where del: "db_delete_range P (st_db s) ''event/'' (d @ [CHR 0x00]) = (derr, db1)"
          by (cases "db_delete_range P (st_db s) ''event/'' (d @ [CHR 0x00])")
        have c1: "cont db1 = (if derr = None
            then fmfilter (\<lambda>k. \<not> (''event/'' \<le> k \<and> k < d @ [CHR 0x00])) (cont (st_db s)) else cont (st_db s))"
          by (rule pebble_delete_range[OF laws del])
        obtain cerr db2 where cmp: "db_compact P db1 ''event/'' (prefixEnd ''event/'') = (cerr, db2)"
          by (cases "db_compact P db1 ''event/'' (prefixEnd ''event/'')")
        have c2: "cont db2 = cont db1" by (rule pebble_compact[OF laws cmp])
        show ?thesis
        proof (cases derr)
          case None
          then have "s' = s\<lparr>st_db := db2\<rparr>" using u False del cmp by simp
          moreover have "store_inv cont b M E (s\<lparr>st_db := db2\<rparr>)"
            using c1 c2 None b(3) by (intro prune_inv[OF inv b(1,2), where z = "CHR 0x00"]) simp
          ultimately show ?thesis using b by (intro exI[of _ b] exI[of _ db2]) simp
        next
          case (Some e)
          then have "cont db1 = cont (st_db s)" using c1 by simp
          moreover have "s' = s\<lparr>st_db := db1\<rparr>" using u False del Some by simp
          ultimately show ?thesis by (intro unchanged)
        qed
      qed
    qed
  qed
qed

section \<open>Reopening\<close>

lemma fold_put:
  "fold (\<lambda>v m. m\<lparr>m_domains := fmupd (dm_id v) v (m_domains m)\<rparr>) ds m =
     m\<lparr>m_domains := fold (\<lambda>v. fmupd (dm_id v) v) ds (m_domains m)\<rparr>"
  "fold (\<lambda>v m. m\<lparr>m_nodes := fmupd (node_id v) v (m_nodes m)\<rparr>) ns m =
     m\<lparr>m_nodes := fold (\<lambda>v. fmupd (node_id v) v) ns (m_nodes m)\<rparr>"
  "fold (\<lambda>v m. m\<lparr>m_links := fmupd (link_id v) v (m_links m)\<rparr>) ls m =
     m\<lparr>m_links := fold (\<lambda>v. fmupd (link_id v) v) ls (m_links m)\<rparr>"
  "fold (\<lambda>v m. m\<lparr>m_prefixes := fmupd (prefix_id v) v (m_prefixes m)\<rparr>) xs m =
     m\<lparr>m_prefixes := fold (\<lambda>v. fmupd (prefix_id v) v) xs (m_prefixes m)\<rparr>"
  "fold (\<lambda>v m. m\<lparr>m_peers := fmupd (pr_id v) v (m_peers m)\<rparr>) rs m =
     m\<lparr>m_peers := fold (\<lambda>v. fmupd (pr_id v) v) rs (m_peers m)\<rparr>"
proof -
  show "fold (\<lambda>v m. m\<lparr>m_domains := fmupd (dm_id v) v (m_domains m)\<rparr>) ds m =
     m\<lparr>m_domains := fold (\<lambda>v. fmupd (dm_id v) v) ds (m_domains m)\<rparr>"
    by (induction ds arbitrary: m) simp_all
  show "fold (\<lambda>v m. m\<lparr>m_nodes := fmupd (node_id v) v (m_nodes m)\<rparr>) ns m =
     m\<lparr>m_nodes := fold (\<lambda>v. fmupd (node_id v) v) ns (m_nodes m)\<rparr>"
    by (induction ns arbitrary: m) simp_all
  show "fold (\<lambda>v m. m\<lparr>m_links := fmupd (link_id v) v (m_links m)\<rparr>) ls m =
     m\<lparr>m_links := fold (\<lambda>v. fmupd (link_id v) v) ls (m_links m)\<rparr>"
    by (induction ls arbitrary: m) simp_all
  show "fold (\<lambda>v m. m\<lparr>m_prefixes := fmupd (prefix_id v) v (m_prefixes m)\<rparr>) xs m =
     m\<lparr>m_prefixes := fold (\<lambda>v. fmupd (prefix_id v) v) xs (m_prefixes m)\<rparr>"
    by (induction xs arbitrary: m) simp_all
  show "fold (\<lambda>v m. m\<lparr>m_peers := fmupd (pr_id v) v (m_peers m)\<rparr>) rs m =
     m\<lparr>m_peers := fold (\<lambda>v. fmupd (pr_id v) v) rs (m_peers m)\<rparr>"
    by (induction rs arbitrary: m) simp_all
qed

lemma loadI:
  assumes "\<exists>vs. L = Inr (fold put vs m0) \<and> index_by f vs = t"
    and "\<And>vs. fold put vs m0 = upd (fold (\<lambda>v. fmupd (f v) v) vs fmempty)"
  shows "L = Inr (upd t)"
  using assms by (auto simp: index_by_def)

lemma load_memory_eq:
  assumes "pebble_laws P cont" "pebble_reads P" "memory_ok m" "memory_on_disk (cont db) m"
  shows "load_memory P db = Inr m"
proof -
  note laws = assms(1,2)
  have t: "table_ok node_id enc_Node (m_nodes m)" "table_ok link_id enc_Link (m_links m)"
    "table_ok prefix_id enc_Prefix (m_prefixes m)" "table_ok pr_id enc_Peer (m_peers m)"
    "table_ok dm_id enc_Domain (m_domains m)"
    using assms(3) by (simp_all add: memory_ok_def)
  have d: "on_disk (cont db) ''node/'' enc_Node (m_nodes m)" "on_disk (cont db) ''link/'' enc_Link (m_links m)"
    "on_disk (cont db) ''prefix/'' enc_Prefix (m_prefixes m)" "on_disk (cont db) ''peer/'' enc_Peer (m_peers m)"
    "on_disk (cont db) ''domain/'' enc_Domain (m_domains m)"
    using assms(4) by (simp_all add: memory_on_disk_def)
  let ?m1 = "empty_memory\<lparr>m_domains := m_domains m\<rparr>"
  let ?m2 = "?m1\<lparr>m_nodes := m_nodes m\<rparr>"
  let ?m3 = "?m2\<lparr>m_links := m_links m\<rparr>"
  let ?m4 = "?m3\<lparr>m_prefixes := m_prefixes m\<rparr>"
  have "load_prefix P db ''domain/'' dec_Domain (\<lambda>v m. m\<lparr>m_domains := fmupd (dm_id v) v (m_domains m)\<rparr>)
      empty_memory = Inr ?m1"
    by (rule loadI[where upd = "\<lambda>t. empty_memory\<lparr>m_domains := t\<rparr>", OF domain_table.load_prefix_table[OF laws d(5) t(5)]])
      (simp add: fold_put empty_memory_def)
  moreover have "load_prefix P db ''node/'' dec_Node (\<lambda>v m. m\<lparr>m_nodes := fmupd (node_id v) v (m_nodes m)\<rparr>)
      ?m1 = Inr ?m2"
    by (rule loadI[where upd = "\<lambda>t. ?m1\<lparr>m_nodes := t\<rparr>", OF node_table.load_prefix_table[OF laws d(1) t(1)]])
      (simp add: fold_put empty_memory_def)
  moreover have "load_prefix P db ''link/'' dec_Link (\<lambda>v m. m\<lparr>m_links := fmupd (link_id v) v (m_links m)\<rparr>)
      ?m2 = Inr ?m3"
    by (rule loadI[where upd = "\<lambda>t. ?m2\<lparr>m_links := t\<rparr>", OF link_table.load_prefix_table[OF laws d(2) t(2)]])
      (simp add: fold_put empty_memory_def)
  moreover have "load_prefix P db ''prefix/'' dec_Prefix (\<lambda>v m. m\<lparr>m_prefixes := fmupd (prefix_id v) v (m_prefixes m)\<rparr>)
      ?m3 = Inr ?m4"
    by (rule loadI[where upd = "\<lambda>t. ?m3\<lparr>m_prefixes := t\<rparr>", OF prefix_table.load_prefix_table[OF laws d(3) t(3)]])
      (simp add: fold_put empty_memory_def)
  moreover have "load_prefix P db ''peer/'' dec_Peer (\<lambda>v m. m\<lparr>m_peers := fmupd (pr_id v) v (m_peers m)\<rparr>)
      ?m4 = Inr (?m4\<lparr>m_peers := m_peers m\<rparr>)"
    by (rule loadI[where upd = "\<lambda>t. ?m4\<lparr>m_peers := t\<rparr>", OF peer_table.load_prefix_table[OF laws d(4) t(4)]])
      (simp add: fold_put empty_memory_def)
  moreover have "?m4\<lparr>m_peers := m_peers m\<rparr> = m" by simp
  ultimately show ?thesis unfolding load_memory_def by (simp only: sum.case)
qed

lemma Open_eq:
  assumes "pebble_laws P cont" "pebble_reads P" "store_inv cont lo M E s"
  shows "Open P (Inr (st_db s)) = Inr \<lparr>st_db = st_db s, st_revision = st_revision s,
    st_observed = (if lo < unat (st_revision s) then st_observed s else zero_time),
    st_memory = st_memory s, st_nextSub = 0, st_subs = fmempty, st_channels = fmempty\<rparr>"
proof -
  note inv = store_invD[OF assms(3)]
  let ?n = "unat (st_revision s)" and ?c = "cont (st_db s)"
  have rev: "of_nat ?n = st_revision s" by simp
  have "load_revision P (st_db s) = Inr (st_revision s)"
    using assms(3) by (auto simp: load_revision_def pebble_reads_get[OF assms(1,2)] store_inv_def Let_def
        BigEndian_PutUint64 unat_eq_zero)
  moreover have "load_observed P (st_db s) (st_revision s) = (if lo < ?n then st_observed s else zero_time)"
  proof (cases "lo < ?n")
    case True
    then have "fmlookup ?c (eventKey (st_revision s)) = Some (Doc (enc_TopologyEvent (E ?n)))"
      using inv(5) events_on_disk_def[of ?c lo ?n E] rev by (metis order.refl)
    moreover have "ev_observed_at (E ?n) = Some (st_observed s)"
      using True assms(3) by (simp add: store_inv_def Let_def)
    ultimately show ?thesis
      using True by (auto simp: load_observed_def pebble_reads_get[OF assms(1,2)] unmarshal_def
          TopologyEvent_codec.dec_enc word_less_nat_alt)
  next
    case False
    have "fmlookup ?c (eventKey (st_revision s)) = None"
    proof (rule ccontr)
      assume "fmlookup ?c (eventKey (st_revision s)) \<noteq> None"
      then have "eventKey (st_revision s) \<in> fmdom' ?c" by (simp add: fmlookup_dom'_iff)
      then show False using inv(5) False HasPrefix_eventKey unfolding events_on_disk_def
        by (meson le_less_trans linorder_not_less)
    qed
    then show ?thesis using False by (simp add: load_observed_def pebble_reads_get[OF assms(1,2)])
  qed
  ultimately show ?thesis
    by (simp add: Open_def load_memory_eq[OF assms(1,2) inv(3,4)])
qed

lemma store_inv_reopened:
  assumes "store_inv cont lo M E s"
  shows "store_inv cont lo M E \<lparr>st_db = st_db s, st_revision = st_revision s,
    st_observed = (if lo < unat (st_revision s) then st_observed s else zero_time),
    st_memory = st_memory s, st_nextSub = 0, st_subs = fmempty, st_channels = fmempty\<rparr>"
  using assms by (auto simp: store_inv_def Let_def)

section \<open>Steps\<close>

lemma Apply_Inl:
  assumes "pebble_laws P cont" and "Apply P ctxErr now m s = (s', v, Inl f)"
  shows "\<exists>db'. s' = s\<lparr>st_db := db'\<rparr> \<and> cont db' = cont (st_db s) \<and> (\<exists>e. f = Error e)"
proof -
  have "\<exists>db'. s' = s\<lparr>st_db := db'\<rparr> \<and> (db' = st_db s \<or> (\<exists>ops e. db_commit P (st_db s) ops = (Some e, db'))) \<and>
      (\<exists>e. f = Error e)"
    using assms(2) unfolding Apply_def Let_def
    by (auto split: option.splits if_splits prod.splits sum.splits intro: exI[of _ "st_db s"])
  then show ?thesis using pebble_commit[OF assms(1)] by fastforce
qed

text \<open>
  One step of a running store. The label is the event a subscriber takes from a channel, if the
  step is such a read.
\<close>

inductive live_step :: "'db pebble \<Rightarrow> 'db Store \<Rightarrow> (nat \<times> TopologyEvent) option \<Rightarrow> 'db Store \<Rightarrow> bool" for P where
  apply_step: "Apply P ctxErr now m s = (s', v, res) \<Longrightarrow> mutation_ok m \<Longrightarrow>
     Suc (unat (st_revision s)) < 2 ^ 64 \<Longrightarrow> live_step P s None s'"
| compact_step: "CompactHistory P ctx cutoff maxBytes s = (s', err) \<Longrightarrow> live_step P s None s'"
| subscribe_step: "Subscribe P after s = (s', res) \<Longrightarrow> live_step P s None s'"
| unsubscribe_step: "live_step P s None (unsubscribe i s)"
| receive_step: "receive c s = (s', Some e) \<Longrightarrow> live_step P s (Some (c, e)) s'"

inductive store_step :: "'db pebble \<Rightarrow> 'db Store \<Rightarrow> 'db Store \<Rightarrow> bool" for P where
  live: "live_step P s l s' \<Longrightarrow> store_step P s s'"
| reopen: "Open P (Inr (st_db s)) = Inr s' \<Longrightarrow> store_step P s s'"

text \<open>The histories of \<open>s'\<close> extend those of \<open>s\<close>.\<close>

definition extends_history ::
  "('db \<Rightarrow> contents) \<Rightarrow> nat \<Rightarrow> (nat \<Rightarrow> memory) \<Rightarrow> (nat \<Rightarrow> TopologyEvent) \<Rightarrow> 'db Store \<Rightarrow>
   nat \<Rightarrow> (nat \<Rightarrow> memory) \<Rightarrow> (nat \<Rightarrow> TopologyEvent) \<Rightarrow> 'db Store \<Rightarrow> bool" where
  "extends_history cont lo M E s lo' M' E' s' \<longleftrightarrow> store_inv cont lo' M' E' s' \<and> lo \<le> lo' \<and>
     unat (st_revision s) \<le> unat (st_revision s') \<and>
     (\<forall>i \<le> unat (st_revision s). M' i = M i \<and> E' i = E i)"

lemma frame_step:
  assumes "store_inv cont lo M E s" and "cont (st_db s') = cont (st_db s)"
    and "st_revision s' = st_revision s" "st_memory s' = st_memory s" "st_observed s' = st_observed s"
  shows "store_inv cont lo M E s'"
  using assms by (simp add: store_inv_def)

lemma frame_extends:
  assumes "store_inv cont lo M E s" and "cont (st_db s') = cont (st_db s)"
    and "st_revision s' = st_revision s" "st_memory s' = st_memory s" "st_observed s' = st_observed s"
  shows "\<exists>lo' M' E'. extends_history cont lo M E s lo' M' E' s'"
  using frame_step[OF assms] assms(3)
  by (intro exI[of _ lo] exI[of _ M] exI[of _ E]) (simp add: extends_history_def)

lemma Subscribe_frame:
  "Subscribe P after s = (s', res) \<Longrightarrow> st_db s' = st_db s \<and> st_revision s' = st_revision s \<and>
     st_memory s' = st_memory s \<and> st_observed s' = st_observed s"
  by (auto simp: Subscribe_def Let_def split: sum.splits if_splits)

lemma unsubscribe_frame:
  "st_db (unsubscribe i s) = st_db s \<and> st_revision (unsubscribe i s) = st_revision s \<and>
     st_memory (unsubscribe i s) = st_memory s \<and> st_observed (unsubscribe i s) = st_observed s"
  by (simp add: unsubscribe_def split: option.split)

lemma receive_frame:
  "receive c s = (s', r) \<Longrightarrow> st_db s' = st_db s \<and> st_revision s' = st_revision s \<and>
     st_memory s' = st_memory s \<and> st_observed s' = st_observed s"
  by (auto simp: receive_def split: option.splits list.splits)

lemma live_step_inv:
  assumes laws: "pebble_laws P cont" and inv: "store_inv cont lo M E s" and step: "live_step P s l s'"
  shows "\<exists>lo' M' E'. extends_history cont lo M E s lo' M' E' s'"
  using step inv
proof cases
  case (apply_step ctxErr now m v res)
  show ?thesis
  proof (cases res)
    case (Inl f)
    then show ?thesis
      using Apply_Inl[OF laws] apply_step(2) frame_step[OF inv]
      by (intro exI[of _ lo] exI[of _ M] exI[of _ E]) (fastforce simp: extends_history_def)
  next
    case (Inr ev)
    note a = Apply_store_inv[OF laws inv apply_step(3) apply_step(2)[unfolded Inr] apply_step(4)]
    then show ?thesis
      by (intro exI[of _ lo] exI[of _ "M(unat (st_revision s') := st_memory s')"]
          exI[of _ "E(unat (st_revision s') := ev)"]) (simp add: extends_history_def)
  qed
next
  case (compact_step ctx cutoff maxBytes err)
  obtain lo' db' where "lo \<le> lo'" "s' = s\<lparr>st_db := db'\<rparr>" "store_inv cont lo' M E s'"
    using CompactHistory_store_inv[OF laws inv compact_step(2)] by blast
  then show ?thesis by (intro exI[of _ lo'] exI[of _ M] exI[of _ E]) (simp add: extends_history_def)
next
  case (subscribe_step after res)
  then show ?thesis using frame_extends[OF inv] Subscribe_frame[OF subscribe_step(2)] by simp
next
  case (unsubscribe_step i)
  then show ?thesis using frame_extends[OF inv] unsubscribe_frame[of i s] by simp
next
  case (receive_step c e)
  then show ?thesis using frame_extends[OF inv] receive_frame[OF receive_step(2)] by simp
qed

lemma extends_history_trans:
  assumes "extends_history cont lo M E s lo' M' E' s'" and "extends_history cont lo' M' E' s' lo'' M'' E'' s''"
  shows "extends_history cont lo M E s lo'' M'' E'' s''"
  using assms by (fastforce simp: extends_history_def)

lemma store_step_inv:
  assumes "pebble_laws P cont" "pebble_reads P" and inv: "store_inv cont lo M E s" and "store_step P s s'"
  shows "\<exists>lo' M' E'. extends_history cont lo M E s lo' M' E' s'"
  using assms(4)
proof cases
  case (live l)
  then show ?thesis using live_step_inv[OF assms(1) inv] by blast
next
  case reopen
  then have "s' = \<lparr>st_db = st_db s, st_revision = st_revision s,
    st_observed = (if lo < unat (st_revision s) then st_observed s else zero_time),
    st_memory = st_memory s, st_nextSub = 0, st_subs = fmempty, st_channels = fmempty\<rparr>"
    unfolding Open_eq[OF assms(1-3)] by simp
  then show ?thesis using store_inv_reopened[OF inv]
    by (intro exI[of _ lo] exI[of _ M] exI[of _ E]) (simp add: extends_history_def)
qed

lemma store_steps_inv:
  assumes "pebble_laws P cont" "pebble_reads P" "store_inv cont lo M E s" and "(store_step P)\<^sup>*\<^sup>* s s'"
  shows "\<exists>lo' M' E'. extends_history cont lo M E s lo' M' E' s'"
  using assms(4)
proof (induction rule: rtranclp_induct)
  case base
  then show ?case using assms(3) by (auto simp: extends_history_def)
next
  case (step s1 s2)
  then obtain lo' M' E' where h: "extends_history cont lo M E s lo' M' E' s1" by blast
  then have "store_inv cont lo' M' E' s1" by (simp add: extends_history_def)
  from store_step_inv[OF assms(1,2) this step(2)] obtain lo2 M2 E2 where
    "extends_history cont lo' M' E' s1 lo2 M2 E2 s2" by blast
  with h show ?case using extends_history_trans by blast
qed

end
