(* ===== verification/Heap.thy ===== *)
theory Heap
  imports Types
begin

text \<open>
  The priority queue of \<open>internal/topology/graph.go\<close>: \<open>queueItem\<close>, the methods of
  \<open>priorityQueue\<close>, and the operations of Go's \<open>container/heap\<close> that act on them, on the slice
  as a list. The locale \<open>priority_queue\<close> is the contract the path search relies on; the heap is
  its instance.
\<close>

section \<open>Items and the methods of priorityQueue\<close>

record queueItem =
  qi_id :: string
  qi_cost :: u64
  qi_index :: nat

type_synonym priorityQueue = "queueItem list"

definition pq_Len :: "priorityQueue \<Rightarrow> nat" where
  "pq_Len p = length p"

definition pq_Less :: "priorityQueue \<Rightarrow> nat \<Rightarrow> nat \<Rightarrow> bool" where
  "pq_Less p i j =
     (if qi_cost (p ! i) = qi_cost (p ! j) then qi_id (p ! i) < qi_id (p ! j)
      else qi_cost (p ! i) < qi_cost (p ! j))"

definition pq_Swap :: "priorityQueue \<Rightarrow> nat \<Rightarrow> nat \<Rightarrow> priorityQueue" where
  "pq_Swap p i j =
     (let a = (p ! j)\<lparr>qi_index := i\<rparr>; b = (p ! i)\<lparr>qi_index := j\<rparr> in p[i := a, j := b])"

definition pq_Push :: "queueItem \<Rightarrow> priorityQueue \<Rightarrow> priorityQueue" where
  "pq_Push x p = p @ [x\<lparr>qi_index := length p\<rparr>]"

definition pq_Pop :: "priorityQueue \<Rightarrow> queueItem \<times> priorityQueue" where
  "pq_Pop p = (last p, butlast p)"

section \<open>container/heap\<close>

function heap_up :: "priorityQueue \<Rightarrow> nat \<Rightarrow> priorityQueue" where
  "heap_up p j =
     (let i = (j - 1) div 2 in
      if i = j \<or> \<not> pq_Less p j i then p else heap_up (pq_Swap p i j) i)"
  by pat_completeness auto
termination
  by (relation "measure snd") auto

function heap_down :: "priorityQueue \<Rightarrow> nat \<Rightarrow> nat \<Rightarrow> priorityQueue" where
  "heap_down p i n =
     (let j1 = 2 * i + 1 in
      if n \<le> j1 then p
      else let j = (if j1 + 1 < n \<and> pq_Less p (j1 + 1) j1 then j1 + 1 else j1) in
        if \<not> pq_Less p j i then p else heap_down (pq_Swap p i j) j n)"
  by pat_completeness auto
termination
  by (relation "measure (\<lambda>(p, i, n). n - i)") (auto simp: Let_def)

declare heap_up.simps [simp del] heap_down.simps [simp del]

definition heap_Init :: "priorityQueue \<Rightarrow> priorityQueue" where
  "heap_Init p = (let n = pq_Len p in fold (\<lambda>i q. heap_down q i n) (rev [0..<n div 2]) p)"

definition heap_Push :: "queueItem \<Rightarrow> priorityQueue \<Rightarrow> priorityQueue" where
  "heap_Push x p = (let q = pq_Push x p in heap_up q (pq_Len q - 1))"

definition heap_Pop :: "priorityQueue \<Rightarrow> queueItem \<times> priorityQueue" where
  "heap_Pop p = (let n = pq_Len p - 1 in pq_Pop (heap_down (pq_Swap p 0 n) 0 n))"

section \<open>The contract of a priority queue\<close>

locale priority_queue =
  fixes push :: "'a \<Rightarrow> 'q \<Rightarrow> 'q"
    and pop :: "'q \<Rightarrow> 'a \<times> 'q"
    and key :: "'a \<Rightarrow> 'k::linorder"
    and keys :: "'q \<Rightarrow> 'k multiset"
    and invar :: "'q \<Rightarrow> bool"
  assumes invar_push: "invar q \<Longrightarrow> invar (push x q)"
    and keys_push: "invar q \<Longrightarrow> keys (push x q) = add_mset (key x) (keys q)"
    and invar_pop: "invar q \<Longrightarrow> keys q \<noteq> {#} \<Longrightarrow> invar (snd (pop q))"
    and keys_pop: "invar q \<Longrightarrow> keys q \<noteq> {#} \<Longrightarrow>
      keys q = add_mset (key (fst (pop q))) (keys (snd (pop q)))"
    and pop_least: "invar q \<Longrightarrow> k \<in># keys q \<Longrightarrow> key (fst (pop q)) \<le> k"
begin

lemma pop_mem: "invar q \<Longrightarrow> keys q \<noteq> {#} \<Longrightarrow> key (fst (pop q)) \<in># keys q"
  using keys_pop[of q] by (metis union_single_eq_member)

lemma pop_size: "invar q \<Longrightarrow> keys q \<noteq> {#} \<Longrightarrow> size (keys (snd (pop q))) < size (keys q)"
  using keys_pop[of q] by (metis lessI size_add_mset)

lemma pop_rest:
  assumes "invar q" and "keys q \<noteq> {#}" and "k \<in># keys (snd (pop q))"
  shows "key (fst (pop q)) \<le> k"
proof -
  have "k \<in># keys q" using keys_pop[OF assms(1,2)] assms(3) by (metis insertCI set_mset_add_mset_insert)
  with assms(1) show ?thesis by (rule pop_least)
qed

end

section \<open>The binary heap keeps the contract\<close>

definition qkey :: "queueItem \<Rightarrow> u64 \<times> string" where
  "qkey x = (qi_cost x, qi_id x)"

definition heap_keys :: "priorityQueue \<Rightarrow> (u64 \<times> string) multiset" where
  "heap_keys p = image_mset qkey (mset p)"

abbreviation parent :: "nat \<Rightarrow> nat" where
  "parent k \<equiv> (k - 1) div 2"

definition is_heap :: "priorityQueue \<Rightarrow> nat \<Rightarrow> bool" where
  "is_heap p n \<longleftrightarrow> (\<forall>k<n. 0 < k \<longrightarrow> qkey (p ! parent k) \<le> qkey (p ! k))"

lemma pq_Less_iff: "pq_Less p i j \<longleftrightarrow> qkey (p ! i) < qkey (p ! j)"
  by (auto simp: pq_Less_def qkey_def)

lemma length_pq_Swap [simp]: "length (pq_Swap p i j) = length p"
  by (simp add: pq_Swap_def Let_def)

lemma qkey_index [simp]: "qkey (x\<lparr>qi_index := i\<rparr>) = qkey x"
  by (simp add: qkey_def)

lemma qkey_pq_Swap:
  assumes "i < length p" and "j < length p" and "k < length p"
  shows "qkey (pq_Swap p i j ! k) =
    (if k = j then qkey (p ! i) else if k = i then qkey (p ! j) else qkey (p ! k))"
  using assms by (auto simp: pq_Swap_def Let_def nth_list_update)

lemma heap_keys_pq_Swap [simp]:
  assumes "i < length p" and "j < length p"
  shows "heap_keys (pq_Swap p i j) = heap_keys p"
proof -
  have "map qkey (pq_Swap p i j) = (map qkey p)[i := map qkey p ! j, j := map qkey p ! i]"
    using assms by (intro nth_equalityI) (auto simp: qkey_pq_Swap nth_list_update)
  then have "mset (map qkey (pq_Swap p i j)) = mset (map qkey p)"
    using assms mset_swap[of j "map qkey p" i] by simp
  then show ?thesis by (simp add: heap_keys_def)
qed

lemma parent_iff: "0 < k \<Longrightarrow> parent k = i \<longleftrightarrow> k = 2 * i + 1 \<or> k = 2 * i + 2"
  by (cases k) auto

lemma parent_less: "0 < k \<Longrightarrow> parent k < k"
  by auto

text \<open>
  While an item moves up, the heap order may fail only between it and its parent, and its
  children are not below that parent; while one moves down, it may fail only between it and its
  children.
\<close>

definition heap_but :: "priorityQueue \<Rightarrow> nat \<Rightarrow> nat \<Rightarrow> bool" where
  "heap_but p n j \<longleftrightarrow>
     (\<forall>k<n. 0 < k \<longrightarrow> k \<noteq> j \<longrightarrow> qkey (p ! parent k) \<le> qkey (p ! k)) \<and>
     (\<forall>k<n. 0 < k \<longrightarrow> parent k = j \<longrightarrow> 0 < j \<longrightarrow> qkey (p ! parent j) \<le> qkey (p ! k))"

definition heap_sub :: "priorityQueue \<Rightarrow> nat \<Rightarrow> nat \<Rightarrow> bool" where
  "heap_sub p n i \<longleftrightarrow>
     (\<forall>k<n. 0 < k \<longrightarrow> parent k \<noteq> i \<longrightarrow> qkey (p ! parent k) \<le> qkey (p ! k)) \<and>
     (\<forall>k<n. 0 < k \<longrightarrow> parent k = i \<longrightarrow> 0 < i \<longrightarrow> qkey (p ! parent i) \<le> qkey (p ! k))"

lemma heap_but_swap:
  assumes but: "heap_but p n j" and j: "0 < j" "j < n" "n \<le> length p"
    and less: "qkey (p ! j) < qkey (p ! parent j)"
  shows "heap_but (pq_Swap p (parent j) j) n (parent j)"
proof -
  let ?i = "parent j" and ?q = "pq_Swap p (parent j) j"
  have i: "?i < j" using j(1) by (rule parent_less)
  have q: "qkey (?q ! k) = (if k = j then qkey (p ! ?i) else if k = ?i then qkey (p ! j) else qkey (p ! k))"
    if "k < n" for k
    using that i j by (intro qkey_pq_Swap) auto
  have ord: "qkey (p ! parent k) \<le> qkey (p ! k)" if "k < n" "0 < k" "k \<noteq> j" for k
    using but that by (simp add: heap_but_def)
  have below: "qkey (p ! ?i) \<le> qkey (p ! k)" if "k < n" "0 < k" "parent k = j" for k
    using but that j(1) by (simp add: heap_but_def)
  have "qkey (?q ! parent k) \<le> qkey (?q ! k)" if k: "k < n" "0 < k" "k \<noteq> ?i" for k
  proof (cases "k = j")
    case True
    with q[of j] q[of ?i] i j less show ?thesis by auto
  next
    case False
    have pk: "parent k < n" using parent_less[OF k(2)] k(1) by simp
    show ?thesis
    proof (cases "parent k = j")
      case True
      with q[of k] q[of j] j k False below[of k] show ?thesis by simp
    next
      case nj: False
      show ?thesis
      proof (cases "parent k = ?i")
        case True
        with q[of k] q[of ?i] k False i j ord[of k] less show ?thesis by auto
      next
        case nochild: False
        with q[OF k(1)] q[OF pk] k False nj ord[of k] show ?thesis by auto
      qed
    qed
  qed
  moreover have "qkey (?q ! parent ?i) \<le> qkey (?q ! k)"
    if k: "k < n" "0 < k" "parent k = ?i" "0 < ?i" for k
  proof -
    have pi: "parent ?i < ?i" using k(4) by (rule parent_less)
    have gp: "qkey (p ! parent ?i) \<le> qkey (p ! ?i)" using ord[of ?i] k(4) i j by simp
    have "qkey (?q ! parent ?i) = qkey (p ! parent ?i)" using q[of "parent ?i"] pi i j by auto
    moreover have "qkey (p ! ?i) \<le> qkey (?q ! k)"
      using q[of k] k ord[of k] parent_less[of k] by (cases "k = j") auto
    ultimately show ?thesis using gp by simp
  qed
  ultimately show ?thesis by (simp add: heap_but_def)
qed

lemma heap_but_stop:
  assumes "heap_but p n j" and "j = 0 \<or> \<not> qkey (p ! j) < qkey (p ! parent j)"
  shows "is_heap p n"
  using assms by (auto simp: heap_but_def is_heap_def not_less)

lemma heap_up_heap:
  assumes "heap_but p n j" and "j < n" and "n \<le> length p"
  shows "is_heap (heap_up p j) n \<and> length (heap_up p j) = length p \<and>
    heap_keys (heap_up p j) = heap_keys p"
  using assms
proof (induction p j rule: heap_up.induct)
  case (1 p j)
  show ?case
  proof (cases "parent j = j \<or> \<not> pq_Less p j (parent j)")
    case True
    then have "j = 0 \<or> \<not> qkey (p ! j) < qkey (p ! parent j)"
      by (auto simp: pq_Less_iff)
    with "1.prems"(1) have "is_heap p n" by (rule heap_but_stop)
    with True show ?thesis by (simp add: heap_up.simps[of p j])
  next
    case False
    then have j: "0 < j" and less: "qkey (p ! j) < qkey (p ! parent j)"
      by (auto simp: pq_Less_iff intro: ccontr)
    have "heap_but (pq_Swap p (parent j) j) n (parent j)"
      using "1.prems" j less by (intro heap_but_swap)
    moreover have "parent j < n" using j "1.prems"(2) by auto
    ultimately show ?thesis
      using "1.IH"[OF refl False] "1.prems"(2,3) False
      by (simp add: heap_up.simps[of p j] Let_def)
  qed
qed

lemma heap_sub_swap:
  assumes sub: "heap_sub p n i" and j: "0 < j" "j < n" "parent j = i" "n \<le> length p"
    and less: "qkey (p ! j) < qkey (p ! i)"
    and least: "\<And>k. k < n \<Longrightarrow> 0 < k \<Longrightarrow> parent k = i \<Longrightarrow> qkey (p ! j) \<le> qkey (p ! k)"
  shows "heap_sub (pq_Swap p i j) n j"
proof -
  let ?q = "pq_Swap p i j"
  have i: "i < j" using parent_less[OF j(1)] j(3) by simp
  have q: "qkey (?q ! k) = (if k = j then qkey (p ! i) else if k = i then qkey (p ! j) else qkey (p ! k))"
    if "k < n" for k
    using that i j by (intro qkey_pq_Swap) auto
  have ord: "qkey (p ! parent k) \<le> qkey (p ! k)" if "k < n" "0 < k" "parent k \<noteq> i" for k
    using sub that by (simp add: heap_sub_def)
  have above: "qkey (p ! parent i) \<le> qkey (p ! k)" if "k < n" "0 < k" "parent k = i" "0 < i" for k
    using sub that by (simp add: heap_sub_def)
  have "qkey (?q ! parent k) \<le> qkey (?q ! k)" if k: "k < n" "0 < k" "parent k \<noteq> j" for k
  proof (cases "parent k = i")
    case True
    then have "qkey (?q ! parent k) = qkey (p ! j)" using q[of i] i j by simp
    moreover have "qkey (p ! j) \<le> qkey (?q ! k)"
      using q[OF k(1)] least[OF k(1,2) True] less parent_less[OF k(2)] True
      by (cases "k = j") auto
    ultimately show ?thesis by simp
  next
    case False
    have pk: "parent k < n" using parent_less[OF k(2)] k(1) by simp
    have "k \<noteq> j" using False j(3) by auto
    show ?thesis
    proof (cases "k = i")
      case True
      with k above[OF j(2,1,3)] q[OF k(1)] q[OF pk] False \<open>k \<noteq> j\<close> show ?thesis by auto
    next
      case nk: False
      with q[OF k(1)] q[OF pk] False k \<open>k \<noteq> j\<close> ord[of k] show ?thesis by auto
    qed
  qed
  moreover have "qkey (?q ! parent j) \<le> qkey (?q ! k)"
    if k: "k < n" "0 < k" "parent k = j" for k
  proof -
    have "qkey (p ! j) \<le> qkey (p ! k)" using ord[of k] k i by auto
    moreover have "k \<noteq> j" "k \<noteq> i" using parent_less[OF k(2)] k(3) i by auto
    ultimately show ?thesis using q[of i] q[OF k(1)] i j by simp
  qed
  ultimately show ?thesis by (simp add: heap_sub_def)
qed

text \<open>The child of i that \<open>heap_down\<close> compares with it: the lesser of the two.\<close>

definition lesser_child :: "priorityQueue \<Rightarrow> nat \<Rightarrow> nat \<Rightarrow> nat" where
  "lesser_child p i n =
     (if 2 * i + 1 + 1 < n \<and> pq_Less p (2 * i + 1 + 1) (2 * i + 1) then 2 * i + 1 + 1 else 2 * i + 1)"

lemma heap_down_eq:
  "heap_down p i n =
     (if n \<le> 2 * i + 1 \<or> \<not> pq_Less p (lesser_child p i n) i then p
      else heap_down (pq_Swap p i (lesser_child p i n)) (lesser_child p i n) n)"
  unfolding lesser_child_def by (subst heap_down.simps) (simp only: Let_def if_bool_eq_disj, auto)

lemma lesser_child_bounds:
  "\<not> n \<le> 2 * i + 1 \<Longrightarrow>
    i < lesser_child p i n \<and> lesser_child p i n < n \<and> parent (lesser_child p i n) = i"
  by (auto simp: lesser_child_def)

lemma lesser_child_least:
  assumes "k < n" and "0 < k" and "parent k = i"
  shows "qkey (p ! lesser_child p i n) \<le> qkey (p ! k)"
proof -
  have "k = 2 * i + 1 \<or> k = 2 * i + 2" using assms(2,3) parent_iff by blast
  then show ?thesis using assms(1) by (auto simp: lesser_child_def pq_Less_iff)
qed

lemma heap_sub_stop:
  assumes "heap_sub p n i"
    and "\<And>k. k < n \<Longrightarrow> 0 < k \<Longrightarrow> parent k = i \<Longrightarrow> qkey (p ! i) \<le> qkey (p ! k)"
  shows "is_heap p n"
  using assms by (auto simp: heap_sub_def is_heap_def)

lemma heap_down_heap:
  assumes "heap_sub p n i" and "n \<le> length p"
  shows "is_heap (heap_down p i n) n \<and> length (heap_down p i n) = length p \<and>
    heap_keys (heap_down p i n) = heap_keys p"
  using assms
proof (induction "n - i" arbitrary: p i rule: less_induct)
  case less
  let ?j = "lesser_child p i n"
  show ?case
  proof (cases "n \<le> 2 * i + 1 \<or> \<not> pq_Less p ?j i")
    case True
    have "is_heap p n"
    proof (rule heap_sub_stop[OF less.prems(1)])
      fix k assume k: "k < n" "0 < k" "parent k = i"
      then have "k = 2 * i + 1 \<or> k = 2 * i + 2" using parent_iff by blast
      with True k have "qkey (p ! i) \<le> qkey (p ! ?j)" by (auto simp: pq_Less_iff)
      with lesser_child_least[OF k] show "qkey (p ! i) \<le> qkey (p ! k)" by (rule order_trans[rotated])
    qed
    with True show ?thesis by (subst (1 2 3) heap_down_eq) simp
  next
    case False
    then have j: "i < ?j" "?j < n" "parent ?j = i" using lesser_child_bounds[of n i p] by auto
    have "heap_sub (pq_Swap p i ?j) n ?j"
      using less.prems j False by (intro heap_sub_swap lesser_child_least) (auto simp: pq_Less_iff)
    then have "is_heap (heap_down (pq_Swap p i ?j) ?j n) n \<and>
        length (heap_down (pq_Swap p i ?j) ?j n) = length p \<and>
        heap_keys (heap_down (pq_Swap p i ?j) ?j n) = heap_keys p"
      using less.hyps[of ?j "pq_Swap p i ?j"] j less.prems(2) by simp
    with False show ?thesis by (subst (1 2 3) heap_down_eq) simp
  qed
qed

text \<open>Moving an item down among the first n positions leaves the others as they are.\<close>

lemma heap_down_frame: "n \<le> k \<Longrightarrow> heap_down p i n ! k = p ! k"
proof (induction "n - i" arbitrary: p i rule: less_induct)
  case less
  let ?j = "lesser_child p i n"
  show ?case
  proof (cases "n \<le> 2 * i + 1 \<or> \<not> pq_Less p ?j i")
    case True
    then show ?thesis by (subst heap_down_eq) simp
  next
    case False
    then have j: "i < ?j" "?j < n" using lesser_child_bounds[of n i p] by auto
    then have "pq_Swap p i ?j ! k = p ! k"
      using less.prems by (simp add: pq_Swap_def Let_def)
    then show ?thesis using False j less by (subst heap_down_eq) simp
  qed
qed

lemma length_heap_up [simp]: "length (heap_up p j) = length p"
proof (induction p j rule: heap_up.induct)
  case (1 p j)
  then show ?case by (subst heap_up.simps) (auto simp: Let_def)
qed

lemma length_heap_down [simp]: "length (heap_down p i n) = length p"
proof (induction "n - i" arbitrary: p i rule: less_induct)
  case less
  then show ?case
    using lesser_child_bounds[of n i p] by (subst heap_down_eq) auto
qed

lemma length_heap_Push [simp]: "length (heap_Push x q) = Suc (length q)"
  by (simp add: heap_Push_def pq_Push_def Let_def)

lemma length_snd_heap_Pop [simp]: "length (snd (heap_Pop q)) = length q - 1"
  by (simp add: heap_Pop_def pq_Pop_def Let_def)

lemma heap_root_least:
  assumes "is_heap p n" and "k < n"
  shows "qkey (p ! 0) \<le> qkey (p ! k)"
  using assms(2)
proof (induction k rule: less_induct)
  case (less k)
  show ?case
  proof (cases "k = 0")
    case False
    then have "parent k < k" by auto
    then have "qkey (p ! 0) \<le> qkey (p ! parent k)" using less by simp
    moreover have "qkey (p ! parent k) \<le> qkey (p ! k)"
      using assms(1) less.prems False by (simp add: is_heap_def)
    ultimately show ?thesis by (rule order_trans)
  qed simp
qed

definition heap_ok :: "priorityQueue \<Rightarrow> bool" where
  "heap_ok p \<longleftrightarrow> is_heap p (length p)"

lemma heap_Push_ok:
  assumes "heap_ok p"
  shows "heap_ok (heap_Push x p) \<and> heap_keys (heap_Push x p) = add_mset (qkey x) (heap_keys p)"
proof -
  let ?q = "pq_Push x p"
  have len: "length ?q = Suc (length p)" by (simp add: pq_Push_def)
  have low: "?q ! k = p ! k" if "k < length p" for k
    using that by (simp add: pq_Push_def nth_append)
  have up: "parent k < length p" if "k < length ?q" "0 < k" for k
    using that len parent_less[of k] by simp
  have "heap_but ?q (length ?q) (length p)"
    unfolding heap_but_def
  proof (intro conjI allI impI)
    fix k assume k: "k < length ?q" "0 < k" "k \<noteq> length p"
    then have "k < length p" using len by simp
    then show "qkey (?q ! parent k) \<le> qkey (?q ! k)"
      using assms k(2) low[of k] low[of "parent k"] up[OF k(1,2)]
      by (simp add: heap_ok_def is_heap_def)
  next
    fix k assume "k < length ?q" "0 < k" "parent k = length p"
    then show "qkey (?q ! parent (length p)) \<le> qkey (?q ! k)"
      using up[of k] by simp
  qed
  then have "is_heap (heap_up ?q (length p)) (length ?q) \<and>
      length (heap_up ?q (length p)) = length ?q \<and>
      heap_keys (heap_up ?q (length p)) = heap_keys ?q"
    by (rule heap_up_heap) (simp_all add: len)
  moreover have "heap_keys ?q = add_mset (qkey x) (heap_keys p)"
    by (simp add: heap_keys_def pq_Push_def)
  ultimately show ?thesis
    by (simp add: heap_Push_def heap_ok_def pq_Len_def len Let_def)
qed

lemma heap_Pop_ok:
  assumes ok: "heap_ok p" and ne: "p \<noteq> []" and pop: "heap_Pop p = (x, q)"
  shows "heap_ok q \<and> heap_keys p = add_mset (qkey x) (heap_keys q) \<and> qkey x = qkey (p ! 0)
    \<and> length q = length p - 1"
proof -
  define n where "n = length p - 1"
  define r where "r = pq_Swap p 0 n"
  define d where "d = heap_down r 0 n"
  have n: "n < length p" "0 < length p" using ne by (auto simp: n_def)
  have rk: "qkey (r ! k) = (if k = n then qkey (p ! 0) else if k = 0 then qkey (p ! n) else qkey (p ! k))"
    if "k < length p" for k
    unfolding r_def using that n by (intro qkey_pq_Swap) auto
  have "heap_sub r n 0"
    using ok n rk parent_less by (auto simp: heap_sub_def heap_ok_def is_heap_def)
  then have d: "is_heap d n" "length d = length p" "heap_keys d = heap_keys p"
    using heap_down_heap[of r n 0] n by (auto simp: d_def r_def)
  have keep: "d ! n = r ! n"
    unfolding d_def using heap_down_frame[of n n r 0] n by simp
  have dn: "d \<noteq> []" "length d = Suc n" using d(2) n by (auto simp: n_def)
  have xq: "x = d ! n" "q = butlast d"
    using pop dn by (auto simp: heap_Pop_def pq_Pop_def pq_Len_def d_def r_def n_def Let_def last_conv_nth)
  have "d = q @ [x]" using xq dn by (metis append_butlast_last_id diff_Suc_1 last_conv_nth)
  then have "heap_keys p = add_mset (qkey x) (heap_keys q)"
    using d(3) by (simp add: heap_keys_def flip: d(3))
  moreover have "heap_ok q"
    using d(1) dn xq(2) by (simp add: heap_ok_def is_heap_def nth_butlast)
  moreover have "qkey x = qkey (p ! 0)" using xq(1) keep rk[of n] n by simp
  ultimately show ?thesis using xq(2) d(2) by simp
qed

interpretation pq: priority_queue heap_Push heap_Pop qkey heap_keys heap_ok
proof (unfold_locales, goal_cases)
  case (1 q x)
  then show ?case using heap_Push_ok by blast
next
  case (2 q x)
  then show ?case using heap_Push_ok by blast
next
  case (3 q)
  then show ?case using heap_Pop_ok[of q "fst (heap_Pop q)" "snd (heap_Pop q)"]
    by (auto simp: heap_keys_def)
next
  case (4 q)
  then show ?case using heap_Pop_ok[of q "fst (heap_Pop q)" "snd (heap_Pop q)"]
    by (auto simp: heap_keys_def)
next
  case (5 q k)
  then obtain i where i: "i < length q" "k = qkey (q ! i)"
    by (auto simp: heap_keys_def in_set_conv_nth)
  then have "q \<noteq> []" by auto
  then have "qkey (fst (heap_Pop q)) = qkey (q ! 0)"
    using heap_Pop_ok[of q "fst (heap_Pop q)" "snd (heap_Pop q)"] 5(1) by simp
  then show ?case using heap_root_least[of q "length q" i] 5(1) i by (simp add: heap_ok_def)
qed

lemma heap_Init_singleton [simp]: "heap_Init [x] = [x]"
  by (simp add: heap_Init_def pq_Len_def)

lemma heap_ok_simps [simp]: "heap_ok []" "heap_ok [x]"
  by (simp_all add: heap_ok_def is_heap_def)

lemma heap_keys_empty_iff [simp]: "heap_keys q = {#} \<longleftrightarrow> q = []"
  by (simp add: heap_keys_def)

end
