(* ===== verification/Graph.thy ===== *)
theory Graph
  imports Heap
begin

text \<open>
  \<open>internal/topology/graph.go\<close>: the active graph of a revision, the link metric and the
  constraint test, the shortest-path search with its priority queue, path assembly over
  waypoints, equal-cost alternatives and the failure-impact analysis. This theory holds the
  definitions and the termination proofs of the two loops whose end is not structural.
\<close>

section \<open>Requests, responses and the graph\<close>

record PathConstraints =
  pc_multi_topology_id :: u32
  pc_minimum_reservable_bandwidth :: float64
  pc_require_admin_groups :: "u32 list"
  pc_exclude_admin_groups :: "u32 list"
  pc_include_node_ids :: "string list"
  pc_avoid_node_ids :: "string list"
  pc_avoid_link_ids :: "string list"

definition zero_PathConstraints :: PathConstraints where
  "zero_PathConstraints = \<lparr>pc_multi_topology_id = 0, pc_minimum_reservable_bandwidth = f_zero,
     pc_require_admin_groups = [], pc_exclude_admin_groups = [], pc_include_node_ids = [],
     pc_avoid_node_ids = [], pc_avoid_link_ids = []\<rparr>"

record PathHop =
  hop_index :: u32
  hop_node :: "Node option"
  hop_outgoing_link :: "Link option"

record ComputedPath =
  cp_hops :: "PathHop list"
  cp_total_metric :: u64
  cp_total_delay_microseconds :: u64
  cp_bottleneck_bandwidth :: float64

record AnalyzeImpactResponse =
  ai_revision :: u64
  ai_unreachable_node_ids :: "string list"
  ai_unreachable_prefix_ids :: "string list"
  ai_disconnected_components :: "string list list"

record Graph =
  g_revision :: u64
  g_nodes :: "Node gomap"
  g_links :: "Link gomap"
  g_adj :: "Link list gomap"

text \<open>A missing key of a map of slices reads as the empty slice.\<close>

definition slice_at :: "(string, 'a list) fmap \<Rightarrow> string \<Rightarrow> 'a list" where
  "slice_at m k = (case fmlookup m k of None \<Rightarrow> [] | Some xs \<Rightarrow> xs)"

definition append_at :: "string \<Rightarrow> 'a \<Rightarrow> (string, 'a list) fmap \<Rightarrow> (string, 'a list) fmap" where
  "append_at k x m = fmupd k (slice_at m k @ [x]) m"

section \<open>NewGraph\<close>

definition add_node :: "Node \<Rightarrow> Graph \<Rightarrow> Graph" where
  "add_node n g =
     (if GetFreshness (nd_meta n) = FRESHNESS_ACTIVE
      then g\<lparr>g_nodes := fmupd (node_id n) n (g_nodes g)\<rparr> else g)"

definition add_link :: "Link \<Rightarrow> Graph \<Rightarrow> Graph" where
  "add_link l g =
     (if GetFreshness (lk_meta l) \<noteq> FRESHNESS_ACTIVE then g
      else if fmlookup (g_nodes g) (lk_local_node_id l) = None then g
      else if fmlookup (g_nodes g) (lk_remote_node_id l) = None then g
      else g\<lparr>g_links := fmupd (link_id l) l (g_links g),
             g_adj := append_at (lk_local_node_id l) l (g_adj g)\<rparr>)"

definition NewGraph :: "u64 \<Rightarrow> Node list \<Rightarrow> Link list \<Rightarrow> Graph" where
  "NewGraph revision nodes links =
     (let g0 = \<lparr>g_revision = revision, g_nodes = fmempty, g_links = fmempty, g_adj = fmempty\<rparr>;
          g1 = fold add_node nodes g0;
          g2 = fold add_link links g1
      in g2\<lparr>g_adj := fmmap (sort_key link_id) (g_adj g2)\<rparr>)"

section \<open>Metric and constraints\<close>

definition metric :: "Link \<Rightarrow> PathMetric \<Rightarrow> u64 option" where
  "metric link m = (case m of
     PATH_METRIC_TE \<Rightarrow> (if lk_te_metric link = 0 then None else Some (lk_te_metric link))
   | PATH_METRIC_DELAY \<Rightarrow>
       (if lk_delay_microseconds link = 0 then None else Some (lk_delay_microseconds link))
   | _ \<Rightarrow> (if lk_igp_metric link = 0 then Some 1 else Some (lk_igp_metric link)))"

definition eligible :: "Link \<Rightarrow> PathConstraints option \<Rightarrow> bool" where
  "eligible l co = (case co of None \<Rightarrow> True | Some c \<Rightarrow>
     if pc_multi_topology_id c \<noteq> 0 \<and> lk_multi_topology_id l \<noteq> pc_multi_topology_id c then False
     else if f_less f_zero (pc_minimum_reservable_bandwidth c) \<and>
        f_less (lk_reservable_bandwidth l) (pc_minimum_reservable_bandwidth c) then False
     else if \<exists>id\<in>set (pc_avoid_link_ids c). id = link_id l then False
     else if \<exists>id\<in>set (pc_avoid_node_ids c). id = lk_local_node_id l \<or> id = lk_remote_node_id l then False
     else let groups = set (lk_admin_groups l) in
        if \<exists>v\<in>set (pc_require_admin_groups c). v \<notin> groups then False
        else if \<exists>v\<in>set (pc_exclude_admin_groups c). v \<in> groups then False
        else True)"

section \<open>shortest\<close>

type_synonym search_state = "u64 gomap \<times> Link gomap \<times> priorityQueue"

definition prev_id :: "Link gomap \<Rightarrow> string \<Rightarrow> string" where
  "prev_id prev v = (case fmlookup prev v of None \<Rightarrow> [] | Some l \<Rightarrow> link_id l)"

definition relax_link ::
  "PathMetric \<Rightarrow> PathConstraints option \<Rightarrow> u64 \<Rightarrow> Link \<Rightarrow> search_state \<Rightarrow> search_state" where
  "relax_link mt c cost link st =
     (if \<not> eligible link c then st
      else case metric link mt of None \<Rightarrow> st | Some weight \<Rightarrow>
        if cost > - 1 - weight then st
        else case st of (dist, prev, q) \<Rightarrow>
          let next = cost + weight; remote = lk_remote_node_id link;
              better = (case fmlookup dist remote of None \<Rightarrow> True
                | Some old \<Rightarrow> next < old \<or> (next = old \<and> link_id link < prev_id prev remote))
          in if better
             then (fmupd remote next dist, fmupd remote link prev,
                   heap_Push \<lparr>qi_id = remote, qi_cost = next, qi_index = 0\<rparr> q)
             else st)"

definition known :: "u64 gomap \<Rightarrow> string \<Rightarrow> u64" where
  "known dist v = (case fmlookup dist v of None \<Rightarrow> 0 | Some d \<Rightarrow> d)"

text \<open>
  The search loop ends because every push lowers, for one node, the pair of its distance and
  the identifier of its incoming link; \<open>search_rank\<close> counts the room left below that pair.
\<close>

definition graph_links :: "Graph \<Rightarrow> Link list" where
  "graph_links g = concat (map (slice_at (g_adj g)) (keys_of (g_adj g)))"

definition id_rank :: "Graph \<Rightarrow> string \<Rightarrow> nat" where
  "id_rank g i = card {l \<in> set (graph_links g). link_id l < i}"

definition node_rank :: "Graph \<Rightarrow> u64 gomap \<Rightarrow> Link gomap \<Rightarrow> string \<Rightarrow> nat" where
  "node_rank g dist prev v = (let room = Suc (length (graph_links g)) in
     case fmlookup dist v of None \<Rightarrow> 2 ^ 64 * room
     | Some d \<Rightarrow> unat d * room + id_rank g (prev_id prev v))"

definition search_rank :: "Graph \<Rightarrow> search_state \<Rightarrow> nat" where
  "search_rank g st = (case st of (dist, prev, q) \<Rightarrow>
     2 * (\<Sum>v \<in> lk_remote_node_id ` set (graph_links g). node_rank g dist prev v) + length q)"

lemma set_slice_at: "set (slice_at (g_adj g) u) \<subseteq> set (graph_links g)"
proof (cases "fmlookup (g_adj g) u")
  case (Some ls)
  then have "u \<in> set (keys_of (g_adj g))" by (simp add: fmlookup_dom'_iff)
  then show ?thesis by (auto simp: graph_links_def)
qed (simp add: slice_at_def)

lemma id_rank_le: "id_rank g i \<le> length (graph_links g)"
proof -
  have "id_rank g i \<le> card (set (graph_links g))"
    unfolding id_rank_def by (rule card_mono) auto
  then show ?thesis using card_length order_trans by blast
qed

lemma id_rank_less:
  assumes "l \<in> set (graph_links g)" and "link_id l < i"
  shows "id_rank g (link_id l) < id_rank g i"
  unfolding id_rank_def using assms by (intro psubset_card_mono) auto

lemma node_rank_lower:
  assumes "l \<in> set (graph_links g)"
    and "case fmlookup dist v of None \<Rightarrow> True
      | Some old \<Rightarrow> next < old \<or> (next = old \<and> link_id l < prev_id prev v)"
  shows "node_rank g (fmupd v next dist) (fmupd v l prev) v < node_rank g dist prev v"
proof -
  let ?r = "Suc (length (graph_links g))"
  have new: "node_rank g (fmupd v next dist) (fmupd v l prev) v = unat next * ?r + id_rank g (link_id l)"
    by (simp add: node_rank_def prev_id_def Let_def)
  have below: "unat next * ?r + id_rank g (link_id l) < b * ?r" if "unat next < b" for b
  proof -
    have "unat next * ?r + id_rank g (link_id l) < Suc (unat next) * ?r"
      using id_rank_le[of g "link_id l"] by simp
    also have "\<dots> \<le> b * ?r" using that by (intro mult_le_mono1) simp
    finally show ?thesis .
  qed
  show ?thesis
  proof (cases "fmlookup dist v")
    case None
    have "unat next < 2 ^ 64" using unsigned_less[of "next"] by simp
    from below[OF this] None new show ?thesis by (simp add: node_rank_def Let_def)
  next
    case (Some old)
    with assms(2) consider "next < old" | "next = old" "link_id l < prev_id prev v" by auto
    then show ?thesis
    proof cases
      case 1
      then have "unat next < unat old" by (simp add: word_less_nat_alt)
      from below[OF this] Some new show ?thesis by (simp add: node_rank_def Let_def)
    next
      case 2
      with id_rank_less[OF assms(1)] Some new show ?thesis by (simp add: node_rank_def Let_def)
    qed
  qed
qed

lemma relax_link_rank:
  assumes "l \<in> set (graph_links g)"
  shows "search_rank g (relax_link mt c cost l st) \<le> search_rank g st"
proof (cases "relax_link mt c cost l st = st")
  case False
  obtain dist prev q where st: "st = (dist, prev, q)" by (cases st)
  let ?v = "lk_remote_node_id l" and ?U = "lk_remote_node_id ` set (graph_links g)"
  from False st obtain nxt where
    new: "relax_link mt c cost l st = (fmupd ?v nxt dist, fmupd ?v l prev,
        heap_Push \<lparr>qi_id = ?v, qi_cost = nxt, qi_index = 0\<rparr> q)" and
    better: "case fmlookup dist ?v of None \<Rightarrow> True
      | Some old \<Rightarrow> nxt < old \<or> (nxt = old \<and> link_id l < prev_id prev ?v)"
    by (auto simp: relax_link_def Let_def split: if_splits option.splits)
  have "(\<Sum>v\<in>?U. node_rank g (fmupd ?v nxt dist) (fmupd ?v l prev) v) < (\<Sum>v\<in>?U. node_rank g dist prev v)"
  proof (rule sum_strict_mono_ex1)
    show "\<forall>v\<in>?U. node_rank g (fmupd ?v nxt dist) (fmupd ?v l prev) v \<le> node_rank g dist prev v"
    proof
      fix v assume "v \<in> ?U"
      show "node_rank g (fmupd ?v nxt dist) (fmupd ?v l prev) v \<le> node_rank g dist prev v"
        using node_rank_lower[OF assms better]
        by (cases "v = ?v") (auto simp: node_rank_def prev_id_def Let_def split: option.splits)
    qed
    show "\<exists>v\<in>?U. node_rank g (fmupd ?v nxt dist) (fmupd ?v l prev) v < node_rank g dist prev v"
      using node_rank_lower[OF assms better] assms by blast
  qed simp
  then show ?thesis unfolding new by (simp add: st search_rank_def)
qed simp

lemma fold_relax_rank:
  assumes "set ls \<subseteq> set (graph_links g)"
  shows "search_rank g (fold (relax_link mt c cost) ls st) \<le> search_rank g st"
  using assms
proof (induction ls arbitrary: st)
  case (Cons l ls)
  then have "search_rank g (fold (relax_link mt c cost) ls (relax_link mt c cost l st))
      \<le> search_rank g (relax_link mt c cost l st)" by simp
  also have "\<dots> \<le> search_rank g st" using Cons.prems by (intro relax_link_rank) simp
  finally show ?case by simp
qed simp

function search ::
  "Graph \<Rightarrow> PathMetric \<Rightarrow> PathConstraints option \<Rightarrow> string \<Rightarrow> search_state \<Rightarrow> search_state" where
  "search g mt c destination (dist, prev, q) =
     (if pq_Len q = 0 then (dist, prev, q)
      else let item = fst (heap_Pop q); q' = snd (heap_Pop q) in
        if qi_cost item \<noteq> known dist (qi_id item)
        then search g mt c destination (dist, prev, q')
        else if qi_id item = destination then (dist, prev, q')
        else search g mt c destination
          (fold (relax_link mt c (qi_cost item)) (slice_at (g_adj g) (qi_id item)) (dist, prev, q')))"
  by pat_completeness auto
termination
proof (relation "measure (\<lambda>(g, mt, c, d, st). search_rank g st)", goal_cases)
  case 1
  show ?case by simp
next
  case (2 g mt c destination dist prev q item q')
  then show ?case by (cases q) (simp_all add: search_rank_def pq_Len_def)
next
  case (3 g mt c destination dist prev q item q')
  have "search_rank g (dist, prev, q') < search_rank g (dist, prev, q)"
    using 3 by (cases q) (simp_all add: search_rank_def pq_Len_def)
  moreover have "search_rank g (fold (relax_link mt c (qi_cost item)) (slice_at (g_adj g) (qi_id item))
      (dist, prev, q')) \<le> search_rank g (dist, prev, q')"
    by (rule fold_relax_rank) (rule set_slice_at)
  ultimately show ?case by simp
qed

declare search.simps [simp del]

text \<open>The walk back along \<open>prev\<close>. Nothing in the loop itself bounds it, so it may be None.\<close>

partial_function (option) walk_back ::
  "Link gomap \<Rightarrow> string \<Rightarrow> string \<Rightarrow> Link list \<Rightarrow> (go_error + Link list) option" where
  "walk_back prev source current reversed =
     (if current = source then Some (Inr reversed)
      else case fmlookup prev current of None \<Rightarrow> Some (Inl (Sentinel ErrNoPath))
        | Some link \<Rightarrow> walk_back prev source (lk_local_node_id link) (reversed @ [link]))"

declare walk_back.simps [code]

definition shortest ::
  "Graph \<Rightarrow> string \<Rightarrow> string \<Rightarrow> PathMetric \<Rightarrow> PathConstraints option \<Rightarrow> (Link list \<times> u64) result" where
  "shortest g source destination mt c =
     (if fmlookup (g_nodes g) source = None \<or> fmlookup (g_nodes g) destination = None
      then Inl (Error (Wrapf [] (Sentinel ErrNoPath)
        '': source or destination does not exist in the active graph''))
      else let q = heap_Init [\<lparr>qi_id = source, qi_cost = 0, qi_index = 0\<rparr>];
               (dist, prev, q') = search g mt c destination (fmupd source 0 fmempty, fmempty, q)
        in case fmlookup dist destination of None \<Rightarrow> Inl (Error (Sentinel ErrNoPath))
          | Some tot \<Rightarrow>
              (case walk_back prev source destination [] of None \<Rightarrow> Inl Hang
               | Some (Inl e) \<Rightarrow> Inl (Error e)
               | Some (Inr reversed) \<Rightarrow> Inr (rev reversed, tot)))"

section \<open>Compute and ComputeMany\<close>

fun compute_segments ::
  "Graph \<Rightarrow> PathMetric \<Rightarrow> PathConstraints option \<Rightarrow> string list \<Rightarrow> Link list \<Rightarrow> u64
    \<Rightarrow> (Link list \<times> u64) result" where
  "compute_segments g mt c (a # b # ws) links tot =
     (case shortest g a b mt c of Inl e \<Rightarrow> Inl e
      | Inr (segment, cost) \<Rightarrow> compute_segments g mt c (b # ws) (links @ segment) (tot + cost))"
| "compute_segments g mt c ws links tot = Inr (links, tot)"

definition add_hop :: "Graph \<Rightarrow> Link \<Rightarrow> nat \<times> string \<times> ComputedPath \<Rightarrow> nat \<times> string \<times> ComputedPath" where
  "add_hop g link st = (case st of (i, current, result) \<Rightarrow>
     (Suc i, lk_remote_node_id link,
      result\<lparr>cp_hops := cp_hops result @ [\<lparr>hop_index = of_nat i,
                hop_node = fmlookup (g_nodes g) current, hop_outgoing_link = Some link\<rparr>],
             cp_total_delay_microseconds :=
               cp_total_delay_microseconds result + lk_delay_microseconds link,
             cp_bottleneck_bandwidth :=
               (if f_less (lk_reservable_bandwidth link) (cp_bottleneck_bandwidth result)
                then lk_reservable_bandwidth link else cp_bottleneck_bandwidth result)\<rparr>))"

definition Compute ::
  "Graph \<Rightarrow> string \<Rightarrow> string \<Rightarrow> PathMetric \<Rightarrow> PathConstraints option \<Rightarrow> ComputedPath result" where
  "Compute g source destination mt c =
     (let waypoints = [source] @ (case c of None \<Rightarrow> [] | Some x \<Rightarrow> pc_include_node_ids x) @ [destination]
      in case compute_segments g mt c waypoints [] 0 of Inl e \<Rightarrow> Inl e
         | Inr (links, tot) \<Rightarrow>
             let r0 = \<lparr>cp_hops = [], cp_total_metric = tot, cp_total_delay_microseconds = 0,
                        cp_bottleneck_bandwidth = MaxFloat64\<rparr>;
                 (i, current, r1) = fold (add_hop g) links (0, source, r0);
                 r2 = r1\<lparr>cp_hops := cp_hops r1 @ [\<lparr>hop_index = of_nat (length links),
                        hop_node = fmlookup (g_nodes g) current, hop_outgoing_link = None\<rparr>]\<rparr>
             in Inr (if links = [] then r2\<lparr>cp_bottleneck_bandwidth := f_zero\<rparr>
                     else if f_eq (cp_bottleneck_bandwidth r2) MaxFloat64
                     then r2\<lparr>cp_bottleneck_bandwidth := f_zero\<rparr> else r2))"

definition hop_id :: "PathHop \<Rightarrow> string" where
  "hop_id h = (case hop_node h of None \<Rightarrow> [] | Some n \<Rightarrow> node_id n)"

definition pathKey :: "ComputedPath \<Rightarrow> string" where
  "pathKey path = join ''/'' (map hop_id (cp_hops path))"

definition avoid_also :: "PathConstraints option \<Rightarrow> string \<Rightarrow> PathConstraints" where
  "avoid_also c i = (let n = (case c of None \<Rightarrow> zero_PathConstraints | Some x \<Rightarrow> x)
     in n\<lparr>pc_avoid_link_ids := pc_avoid_link_ids n @ [i]\<rparr>)"

fun alternatives ::
  "Graph \<Rightarrow> string \<Rightarrow> string \<Rightarrow> PathMetric \<Rightarrow> PathConstraints option \<Rightarrow> int \<Rightarrow> ComputedPath
    \<Rightarrow> PathHop list \<Rightarrow> ComputedPath list \<Rightarrow> string set \<Rightarrow> ComputedPath list result" where
  "alternatives g s d mt c limit first [] out seen = Inr out"
| "alternatives g s d mt c limit first (hop # hops) out seen =
     (if limit \<le> int (length out) then Inr out
      else case hop_outgoing_link hop of None \<Rightarrow> Inr out
      | Some link \<Rightarrow>
          (case Compute g s d mt (Some (avoid_also c (link_id link))) of
             Inl (Error e) \<Rightarrow> alternatives g s d mt c limit first hops out seen
           | Inl f \<Rightarrow> Inl f
           | Inr candidate \<Rightarrow>
               if cp_total_metric candidate \<noteq> cp_total_metric first
               then alternatives g s d mt c limit first hops out seen
               else let key = pathKey candidate in
                 if key \<notin> seen
                 then alternatives g s d mt c limit first hops (out @ [candidate]) (insert key seen)
                 else alternatives g s d mt c limit first hops out seen))"

definition ComputeMany ::
  "Graph \<Rightarrow> string \<Rightarrow> string \<Rightarrow> PathMetric \<Rightarrow> PathConstraints option \<Rightarrow> int \<Rightarrow> ComputedPath list result" where
  "ComputeMany g source destination mt c limit0 =
     (let limit1 = (if limit0 \<le> 0 then 1 else limit0);
          limit = (if limit1 > 16 then 16 else limit1)
      in case Compute g source destination mt c of Inl e \<Rightarrow> Inl e
         | Inr first \<Rightarrow>
             alternatives g source destination mt c limit first (cp_hops first) [first] {pathKey first})"

section \<open>Analyze\<close>

definition add_undirected ::
  "string set \<Rightarrow> string set \<Rightarrow> string \<times> Link \<Rightarrow> string list gomap \<Rightarrow> string list gomap" where
  "add_undirected blockedNode blockedLink e und = (case e of (i, l) \<Rightarrow>
     if i \<in> blockedLink \<or> lk_local_node_id l \<in> blockedNode \<or> lk_remote_node_id l \<in> blockedNode then und
     else append_at (lk_remote_node_id l) (lk_local_node_id l)
            (append_at (lk_local_node_id l) (lk_remote_node_id l) und))"

definition visit :: "string \<Rightarrow> string list \<times> string set \<Rightarrow> string list \<times> string set" where
  "visit nxt st = (case st of (queue, seen) \<Rightarrow>
     if nxt \<notin> seen then (queue @ [nxt], insert nxt seen) else (queue, seen))"

definition und_nodes :: "string list gomap \<Rightarrow> string set" where
  "und_nodes und = \<Union> (set ` fmran' und)"

lemma finite_und_nodes [simp]: "finite (und_nodes und)"
proof -
  have "fmran' und = fset (fmran und)" by (simp add: fmran'_alt_def)
  then show ?thesis by (simp add: und_nodes_def)
qed

lemma visit_rank:
  assumes "x \<in> U" and "finite U"
  shows "2 * card (U - snd (visit x st)) + length (fst (visit x st))
    \<le> 2 * card (U - snd st) + length (fst st)"
proof (cases "x \<in> snd st")
  case False
  obtain queue seen where st: "st = (queue, seen)" by (cases st)
  have "card (U - insert x seen) < card (U - seen)"
    using assms False st by (intro psubset_card_mono) auto
  with False st show ?thesis by (simp add: visit_def)
qed (auto simp: visit_def split: prod.splits)

lemma fold_visit_rank:
  assumes "set xs \<subseteq> U" and "finite U"
  shows "2 * card (U - snd (fold visit xs st)) + length (fst (fold visit xs st))
    \<le> 2 * card (U - snd st) + length (fst st)"
  using assms
proof (induction xs arbitrary: st)
  case (Cons x xs)
  then have "2 * card (U - snd (fold visit xs (visit x st))) + length (fst (fold visit xs (visit x st)))
      \<le> 2 * card (U - snd (visit x st)) + length (fst (visit x st))" by simp
  also have "\<dots> \<le> 2 * card (U - snd st) + length (fst st)"
    using Cons.prems by (intro visit_rank) auto
  finally show ?case by simp
qed simp

lemma set_slice_at_und: "set (slice_at und n) \<subseteq> und_nodes und"
  by (cases "fmlookup und n") (auto simp: slice_at_def und_nodes_def intro: fmran'I)

function bfs ::
  "string list gomap \<Rightarrow> string list \<Rightarrow> string set \<Rightarrow> string list \<Rightarrow> string list \<times> string set" where
  "bfs und [] seen found = (found, seen)"
| "bfs und (n # queue) seen found =
     bfs und (fst (fold visit (slice_at und n) (queue, seen)))
       (snd (fold visit (slice_at und n) (queue, seen))) (found @ [n])"
  by pat_completeness auto
termination
proof (relation "measure (\<lambda>(und, queue, seen, found). 2 * card (und_nodes und - seen) + length queue)",
    goal_cases)
  case 1
  show ?case by simp
next
  case (2 und n queue seen found)
  have "2 * card (und_nodes und - snd (fold visit (slice_at und n) (queue, seen)))
      + length (fst (fold visit (slice_at und n) (queue, seen)))
      \<le> 2 * card (und_nodes und - seen) + length queue"
    using fold_visit_rank[of "slice_at und n" "und_nodes und" "(queue, seen)"] set_slice_at_und by simp
  then show ?case by simp
qed

fun components ::
  "string list gomap \<Rightarrow> string set \<Rightarrow> string list \<Rightarrow> string set \<Rightarrow> string list list" where
  "components und blockedNode [] seen = []"
| "components und blockedNode (i # ids) seen =
     (if i \<in> blockedNode \<or> i \<in> seen then components und blockedNode ids seen
      else case bfs und [i] (insert i seen) [] of (found, seen') \<Rightarrow>
        sort found # components und blockedNode ids seen')"

definition unreachable_prefixes :: "string set \<Rightarrow> string list \<Rightarrow> Prefix list \<Rightarrow> string list" where
  "unreachable_prefixes blockedNode unreachable prefixes =
     map prefix_id (filter (\<lambda>p. px_origin_node_id p \<in> blockedNode \<or>
       (\<exists>id\<in>set unreachable. px_origin_node_id p = id)) prefixes)"

definition Analyze ::
  "(string list \<Rightarrow> string list) \<Rightarrow> Graph \<Rightarrow> string list \<Rightarrow> string list \<Rightarrow> Prefix list
    \<Rightarrow> AnalyzeImpactResponse" where
  "Analyze it g failedNodes failedLinks prefixes =
     (let blockedNode = set failedNodes; blockedLink = set failedLinks;
          und = fold (add_undirected blockedNode blockedLink) (range_entries it (g_links g)) fmempty;
          comps = sort_key (\<lambda>c. (- int (length c), hd c))
            (components und blockedNode (it (keys_of (g_nodes g))) {});
          split = length comps > 1;
          unreachable = (if split then concat (tl comps) else [])
      in \<lparr>ai_revision = g_revision g,
          ai_unreachable_node_ids = sort unreachable,
          ai_unreachable_prefix_ids = sort (unreachable_prefixes blockedNode unreachable prefixes),
          ai_disconnected_components = (if split then comps else [])\<rparr>)"

end
