(* ===== verification/Graph_Search.thy ===== *)
theory Graph_Search
  imports Graph
begin

text \<open>
  Correctness of the shortest-path search of \<open>internal/topology/graph.go\<close>: walks over usable
  links and their cost as the specification, the invariant of the search loop with its set of
  settled nodes, and the lemmas that carry it through one relaxation, one pop and the whole loop.
\<close>

section \<open>Walks over usable links\<close>

fun walk :: "('v \<Rightarrow> 'e \<Rightarrow> bool) \<Rightarrow> ('e \<Rightarrow> 'v) \<Rightarrow> 'v \<Rightarrow> 'e list \<Rightarrow> 'v \<Rightarrow> bool" where
  "walk out tgt u [] v = (u = v)"
| "walk out tgt u (e # es) v = (out u e \<and> walk out tgt (tgt e) es v)"

text \<open>Links with a source, a target and a positive weight: what the search needs of a graph.\<close>

locale weighted_links =
  fixes out :: "'v \<Rightarrow> 'e \<Rightarrow> bool" and src :: "'e \<Rightarrow> 'v" and tgt :: "'e \<Rightarrow> 'v" and wt :: "'e \<Rightarrow> nat"
  assumes out_src: "out u e \<Longrightarrow> src e = u"
    and wt_pos: "out u e \<Longrightarrow> 0 < wt e"
begin

lemma walk_snoc: "walk out tgt u (es @ [e]) v \<longleftrightarrow> (walk out tgt u es (src e) \<and> out (src e) e \<and> tgt e = v)"
  by (induction es arbitrary: u) (auto dest: out_src)

lemma walk_append:
  "walk out tgt u (es @ fs) v \<longleftrightarrow> (\<exists>x. walk out tgt u es x \<and> walk out tgt x fs v)"
  by (induction es arbitrary: u) auto

lemma walk_cost_pos: "walk out tgt u es v \<Longrightarrow> u \<noteq> v \<Longrightarrow> 0 < sum_list (map wt es)"
  by (cases es) (auto dest: wt_pos)

lemma walk_consecutive:
  "walk out tgt u es v \<Longrightarrow> Suc i < length es \<Longrightarrow> tgt (es ! i) = src (es ! Suc i)"
proof (induction es arbitrary: u i)
  case (Cons e es)
  then have step: "out u e" "walk out tgt (tgt e) es v" by simp_all
  show ?case
  proof (cases i)
    case 0
    then show ?thesis using Cons.prems(2) step by (cases es) (auto dest: out_src)
  next
    case (Suc j)
    then show ?thesis using Cons.IH[OF step(2), of j] Cons.prems(2) by simp
  qed
qed simp

end

text \<open>
  A graph stores its links under their local node. In such a graph a link is usable from a node
  when it is in the node's adjacency, passes the constraints and carries the requested metric.
\<close>

definition graph_ok :: "Graph \<Rightarrow> bool" where
  "graph_ok g \<longleftrightarrow> (\<forall>u ls. fmlookup (g_adj g) u = Some ls \<longrightarrow> (\<forall>l\<in>set ls. lk_local_node_id l = u))"

definition usable :: "Graph \<Rightarrow> PathMetric \<Rightarrow> PathConstraints option \<Rightarrow> string \<Rightarrow> Link \<Rightarrow> bool" where
  "usable g mt c u l \<longleftrightarrow> l \<in> set (slice_at (g_adj g) u) \<and> lk_local_node_id l = u \<and> eligible l c \<and>
     metric l mt \<noteq> None"

definition weight :: "PathMetric \<Rightarrow> Link \<Rightarrow> nat" where
  "weight mt l = (case metric l mt of None \<Rightarrow> 0 | Some w \<Rightarrow> unat w)"

abbreviation link_walk ::
  "Graph \<Rightarrow> PathMetric \<Rightarrow> PathConstraints option \<Rightarrow> string \<Rightarrow> Link list \<Rightarrow> string \<Rightarrow> bool" where
  "link_walk g mt c \<equiv> walk (usable g mt c) lk_remote_node_id"

definition walk_cost :: "PathMetric \<Rightarrow> Link list \<Rightarrow> nat" where
  "walk_cost mt ls = sum_list (map (weight mt) ls)"

lemma metric_pos: "metric l mt = Some w \<Longrightarrow> 0 < w"
  by (auto simp: metric_def word_gt_0 split: PathMetric.splits if_splits)

lemma metric_default: "mt \<noteq> PATH_METRIC_TE \<Longrightarrow> mt \<noteq> PATH_METRIC_DELAY \<Longrightarrow> metric l mt \<noteq> None"
  by (cases mt) (auto simp: metric_def)

interpretation ul: weighted_links "usable g mt c" lk_local_node_id lk_remote_node_id "weight mt" for g mt c
  by unfold_locales
    (auto simp: usable_def weight_def unat_gt_0 word_gt_0 dest: metric_pos split: option.splits)

lemma walk_cost_simps [simp]:
  "walk_cost mt [] = 0"
  "walk_cost mt (l # ls) = weight mt l + walk_cost mt ls"
  "walk_cost mt (ls @ ms) = walk_cost mt ls + walk_cost mt ms"
  by (simp_all add: walk_cost_def)

section \<open>The invariant of the search\<close>

text \<open>
  \<open>S\<close> is the set of settled nodes. Every known node but the source has a tight incoming link
  from a settled node; every known node that is not settled is queued with its distance; the
  links \<open>done\<close> of settled nodes are relaxed; no queue entry is below a settled distance.
\<close>

definition tree_inv ::
  "Graph \<Rightarrow> PathMetric \<Rightarrow> PathConstraints option \<Rightarrow> string \<Rightarrow> string set \<Rightarrow> u64 gomap \<Rightarrow> Link gomap \<Rightarrow> bool" where
  "tree_inv g mt c s S dist prev \<longleftrightarrow> fmlookup dist s = Some 0 \<and>
     (\<forall>v d. fmlookup dist v = Some d \<longrightarrow> v = s \<or> (\<exists>l du. fmlookup prev v = Some l \<and>
        lk_local_node_id l \<in> S \<and> usable g mt c (lk_local_node_id l) l \<and> lk_remote_node_id l = v \<and>
        fmlookup dist (lk_local_node_id l) = Some du \<and> unat d = unat du + weight mt l))"

definition queue_inv :: "string set \<Rightarrow> u64 gomap \<Rightarrow> priorityQueue \<Rightarrow> bool" where
  "queue_inv S dist q \<longleftrightarrow> heap_ok q \<and>
     (\<forall>v d. fmlookup dist v = Some d \<longrightarrow> v \<notin> S \<longrightarrow> (d, v) \<in># heap_keys q) \<and>
     (\<forall>d v. (d, v) \<in># heap_keys q \<longrightarrow> (\<exists>d0. fmlookup dist v = Some d0 \<and> d0 \<le> d) \<and>
        (\<forall>u\<in>S. known dist u \<le> d))"

definition relaxed_inv ::
  "Graph \<Rightarrow> PathMetric \<Rightarrow> PathConstraints option \<Rightarrow> string set \<Rightarrow> (string \<Rightarrow> Link \<Rightarrow> bool) \<Rightarrow> u64 gomap \<Rightarrow> bool" where
  "relaxed_inv g mt c S fin dist \<longleftrightarrow> S \<subseteq> fmdom' dist \<and>
     (\<forall>u\<in>S. \<forall>l. fin u l \<longrightarrow> usable g mt c u l \<longrightarrow> unat (known dist u) + weight mt l < 2 ^ 64 \<longrightarrow>
        (\<exists>d. fmlookup dist (lk_remote_node_id l) = Some d \<and> unat d \<le> unat (known dist u) + weight mt l))"

definition search_inv ::
  "Graph \<Rightarrow> PathMetric \<Rightarrow> PathConstraints option \<Rightarrow> string \<Rightarrow> string set \<Rightarrow> (string \<Rightarrow> Link \<Rightarrow> bool)
    \<Rightarrow> search_state \<Rightarrow> bool" where
  "search_inv g mt c s S fin st \<longleftrightarrow> (case st of (dist, prev, q) \<Rightarrow>
     tree_inv g mt c s S dist prev \<and> queue_inv S dist q \<and> relaxed_inv g mt c S fin dist)"

lemma known_Some [simp]: "fmlookup dist v = Some d \<Longrightarrow> known dist v = d"
  by (simp add: known_def)

lemma graph_ok_slice: "graph_ok g \<Longrightarrow> l \<in> set (slice_at (g_adj g) u) \<Longrightarrow> lk_local_node_id l = u"
  by (cases "fmlookup (g_adj g) u") (auto simp: graph_ok_def slice_at_def)

lemma relaxed_inv_dom: "relaxed_inv g mt c S fin dist \<Longrightarrow> u \<in> S \<Longrightarrow> \<exists>d. fmlookup dist u = Some d"
  by (meson fmlookup_dom'_iff relaxed_inv_def subsetD)

lemma fits_iff: "(\<not> cost > - 1 - w) \<longleftrightarrow> unat cost + unat w < 2 ^ 64" for cost w :: u64
proof -
  have "unat (- 1 - w) = 2 ^ 64 - 1 - unat w"
    by (simp add: unat_sub unsigned_minus_1_eq_mask mask_eq_exp_minus_1)
  moreover have "unat w < 2 ^ 64" using unsigned_less[of w] by simp
  ultimately show ?thesis by (simp add: word_less_nat_alt not_less) linarith
qed

lemma unat_plus_fits: "unat cost + unat w < 2 ^ 64 \<Longrightarrow> unat (cost + w) = unat cost + unat w" for cost w :: u64
  by (simp add: unat_word_ariths)

text \<open>One successful relaxation from the settled node \<open>u\<close>: the remote node is not settled yet.\<close>

lemma relax_better:
  assumes inv: "search_inv g mt c s S fin (dist, prev, q)"
    and u: "u \<in> S" "fmlookup dist u = Some cost" and le: "\<forall>x\<in>S. known dist x \<le> cost"
    and use: "usable g mt c u l" and fits: "unat cost + weight mt l < 2 ^ 64"
    and nxt: "unat nxt = unat cost + weight mt l"
    and better: "case fmlookup dist (lk_remote_node_id l) of None \<Rightarrow> True
      | Some old \<Rightarrow> nxt < old \<or> (nxt = old \<and> link_id l < prev_id prev (lk_remote_node_id l))"
  shows "search_inv g mt c s S (\<lambda>x l'. fin x l' \<or> x = u \<and> l' = l)
    (fmupd (lk_remote_node_id l) nxt dist, fmupd (lk_remote_node_id l) l prev,
     heap_Push \<lparr>qi_id = lk_remote_node_id l, qi_cost = nxt, qi_index = 0\<rparr> q)"
proof -
  let ?v = "lk_remote_node_id l"
  let ?x = "\<lparr>qi_id = ?v, qi_cost = nxt, qi_index = 0\<rparr>"
  let ?dist = "fmupd ?v nxt dist" and ?prev = "fmupd ?v l prev"
  have tree: "tree_inv g mt c s S dist prev" and que: "queue_inv S dist q"
    and rel: "relaxed_inv g mt c S fin dist"
    using inv by (simp_all add: search_inv_def)
  have pos: "cost < nxt" using nxt ul.wt_pos[OF use] by (simp add: word_less_nat_alt)
  have low: "nxt \<le> old" if "fmlookup dist ?v = Some old" for old using better that by auto
  have vS: "?v \<notin> S"
  proof
    assume v: "?v \<in> S"
    then obtain old where "fmlookup dist ?v = Some old"
      using relaxed_inv_dom[OF rel] by blast
    with low le v pos show False by fastforce
  qed
  have src: "fmlookup dist s = Some 0" using tree by (simp add: tree_inv_def)
  have vs: "?v \<noteq> s" using low[of 0] src pos by auto
  have keep: "fmlookup ?dist x = fmlookup dist x" if "x \<in> S" for x using that vS by auto
  have keepk: "known ?dist x = known dist x" if "x \<in> S" for x using keep[OF that] by (simp add: known_def)
  have down: "\<exists>d'. fmlookup ?dist x = Some d' \<and> d' \<le> d" if "fmlookup dist x = Some d" for x d
    using that low by (cases "x = ?v") auto
  have local_l: "lk_local_node_id l = u" using use by (simp add: usable_def)
  have "tree_inv g mt c s S ?dist ?prev"
    unfolding tree_inv_def
  proof (intro conjI allI impI)
    show "fmlookup ?dist s = Some 0" using src vs by simp
  next
    fix v d assume vd: "fmlookup ?dist v = Some d"
    show "v = s \<or> (\<exists>l' du. fmlookup ?prev v = Some l' \<and> lk_local_node_id l' \<in> S \<and>
      usable g mt c (lk_local_node_id l') l' \<and> lk_remote_node_id l' = v \<and>
      fmlookup ?dist (lk_local_node_id l') = Some du \<and> unat d = unat du + weight mt l')"
    proof (cases "v = ?v")
      case True
      then show ?thesis using vd u use local_l keep[OF u(1)] nxt by auto
    next
      case False
      then have "fmlookup dist v = Some d" using vd by simp
      then consider "v = s" | l' du where "fmlookup prev v = Some l'" "lk_local_node_id l' \<in> S"
        "usable g mt c (lk_local_node_id l') l'" "lk_remote_node_id l' = v"
        "fmlookup dist (lk_local_node_id l') = Some du" "unat d = unat du + weight mt l'"
        using tree unfolding tree_inv_def by blast
      then show ?thesis
      proof cases
        case 2
        then show ?thesis using False keep by auto
      qed simp
    qed
  qed
  moreover have "queue_inv S ?dist (heap_Push ?x q)"
  proof -
    have ok: "heap_ok q" using que by (simp add: queue_inv_def)
    have keys: "heap_keys (heap_Push ?x q) = add_mset (nxt, ?v) (heap_keys q)"
      using pq.keys_push[OF ok, of ?x] by (simp add: qkey_def)
    show ?thesis
      unfolding queue_inv_def keys
    proof (intro conjI allI impI)
      show "heap_ok (heap_Push ?x q)" using ok by (rule pq.invar_push)
    next
      fix v d assume "fmlookup ?dist v = Some d" "v \<notin> S"
      then show "(d, v) \<in># add_mset (nxt, ?v) (heap_keys q)"
        using que by (cases "v = ?v") (auto simp: queue_inv_def)
    next
      fix d v assume dv: "(d, v) \<in># add_mset (nxt, ?v) (heap_keys q)"
      show "\<exists>d0. fmlookup ?dist v = Some d0 \<and> d0 \<le> d"
        using dv que down by (fastforce simp: queue_inv_def)
      have "\<forall>x\<in>S. known dist x \<le> d"
        using dv que le pos by (auto simp: queue_inv_def)
      then show "\<forall>x\<in>S. known ?dist x \<le> d" using keepk by simp
    qed
  qed
  moreover have "relaxed_inv g mt c S (\<lambda>x l'. fin x l' \<or> x = u \<and> l' = l) ?dist"
    unfolding relaxed_inv_def
  proof (intro conjI ballI allI impI)
    show "S \<subseteq> fmdom' ?dist" using rel by (auto simp: relaxed_inv_def)
  next
    fix x l' assume x: "x \<in> S" "fin x l' \<or> x = u \<and> l' = l" "usable g mt c x l'"
      "unat (known ?dist x) + weight mt l' < 2 ^ 64"
    then have lim: "unat (known dist x) + weight mt l' < 2 ^ 64" using keepk by simp
    consider "fin x l'" | "x = u" "l' = l" using x(2) by blast
    then have "\<exists>d. fmlookup ?dist (lk_remote_node_id l') = Some d \<and>
        unat d \<le> unat (known dist x) + weight mt l'"
    proof cases
      case 1
      then obtain d where d: "fmlookup dist (lk_remote_node_id l') = Some d"
        "unat d \<le> unat (known dist x) + weight mt l'"
        using rel x lim unfolding relaxed_inv_def by blast
      with down[OF d(1)] show ?thesis by (auto simp: word_le_nat_alt intro: order_trans)
    next
      case 2
      then show ?thesis using u(2) nxt by simp
    qed
    then show "\<exists>d. fmlookup ?dist (lk_remote_node_id l') = Some d \<and>
        unat d \<le> unat (known ?dist x) + weight mt l'"
      using keepk[OF x(1)] by simp
  qed
  ultimately show ?thesis by (simp add: search_inv_def)
qed

lemma relax_link_inv:
  assumes inv: "search_inv g mt c s S fin st" and st: "st = (dist, prev, q)"
    and u: "u \<in> S" "fmlookup dist u = Some cost" and le: "\<forall>x\<in>S. known dist x \<le> cost"
    and l: "l \<in> set (slice_at (g_adj g) u)" and ok: "graph_ok g"
  shows "search_inv g mt c s S (\<lambda>x l'. fin x l' \<or> x = u \<and> l' = l) (relax_link mt c cost l st)"
proof -
  have local_l: "lk_local_node_id l = u"
    using ok l by (rule graph_ok_slice)
  let ?fin = "\<lambda>x l'. fin x l' \<or> x = u \<and> l' = l"
  have same: "search_inv g mt c s S ?fin st"
    if new: "usable g mt c u l \<Longrightarrow> unat cost + weight mt l < 2 ^ 64 \<Longrightarrow>
      \<exists>d. fmlookup dist (lk_remote_node_id l) = Some d \<and> unat d \<le> unat cost + weight mt l"
    using inv new u(2) unfolding st search_inv_def relaxed_inv_def by auto
  show ?thesis
  proof (cases "eligible l c \<and> metric l mt \<noteq> None")
    case False
    then have "relax_link mt c cost l st = st" by (auto simp: relax_link_def)
    moreover have "\<not> usable g mt c u l" using False by (auto simp: usable_def)
    ultimately show ?thesis using same by simp
  next
    case True
    then obtain w where w: "metric l mt = Some w" by auto
    have use: "usable g mt c u l" using True l local_l by (simp add: usable_def)
    have wt: "weight mt l = unat w" using w by (simp add: weight_def)
    let ?nxt = "cost + w"
    let ?better = "case fmlookup dist (lk_remote_node_id l) of None \<Rightarrow> True
      | Some old \<Rightarrow> ?nxt < old \<or> (?nxt = old \<and> link_id l < prev_id prev (lk_remote_node_id l))"
    show ?thesis
    proof (cases "cost > - 1 - w")
      case over: True
      then have "relax_link mt c cost l st = st" using True w by (simp add: relax_link_def)
      moreover have "\<not> unat cost + weight mt l < 2 ^ 64" using over fits_iff[of w cost] unfolding wt by blast
      ultimately show ?thesis using same by simp
    next
      case fits: False
      then have lim: "unat cost + weight mt l < 2 ^ 64" using fits_iff[of w cost] unfolding wt by blast
      then have nxt: "unat ?nxt = unat cost + weight mt l" using unat_plus_fits wt by simp
      show ?thesis
      proof (cases ?better)
        case better: True
        then have "relax_link mt c cost l st = (fmupd (lk_remote_node_id l) ?nxt dist,
            fmupd (lk_remote_node_id l) l prev,
            heap_Push \<lparr>qi_id = lk_remote_node_id l, qi_cost = ?nxt, qi_index = 0\<rparr> q)"
          using True w fits st by (simp add: relax_link_def Let_def)
        then show ?thesis
          using relax_better[OF inv[unfolded st] u le use lim nxt better] by simp
      next
        case worse: False
        then have "relax_link mt c cost l st = st"
          using True w fits st by (auto simp: relax_link_def Let_def split: option.splits)
        moreover have "\<exists>d. fmlookup dist (lk_remote_node_id l) = Some d \<and>
            unat d \<le> unat cost + weight mt l"
          using worse nxt by (auto simp: word_less_nat_alt split: option.splits)
        ultimately show ?thesis using same by simp
      qed
    qed
  qed
qed

text \<open>Relaxation changes neither the distance nor the presence of a settled node.\<close>

lemma relax_link_frame:
  assumes "search_inv g mt c s S fin (dist, prev, q)" and "u \<in> S" "fmlookup dist u = Some cost"
    and "\<forall>x\<in>S. known dist x \<le> cost" and "relax_link mt c cost l (dist, prev, q) = (dist', prev', q')"
  shows "\<forall>x\<in>S. fmlookup dist' x = fmlookup dist x"
proof
  fix x assume x: "x \<in> S"
  obtain d where d: "fmlookup dist x = Some d"
    using assms(1) x relaxed_inv_dom by (fastforce simp: search_inv_def)
  have "d \<le> cost" using assms(4) x d by auto
  moreover have "cost < cost + w" if "metric l mt = Some w" "\<not> cost > - 1 - w" for w
  proof -
    have "unat cost + unat w < 2 ^ 64" using fits_iff[of w cost] that(2) by blast
    then show ?thesis using metric_pos[OF that(1)] unat_plus_fits[of cost w] by (simp add: word_less_nat_alt)
  qed
  ultimately show "fmlookup dist' x = fmlookup dist x"
    using assms(5) d
    by (fastforce simp: relax_link_def Let_def split: if_splits option.splits)
qed

lemma fold_relax_inv:
  assumes "search_inv g mt c s S fin (dist, prev, q)" and "u \<in> S" "fmlookup dist u = Some cost"
    and "\<forall>x\<in>S. known dist x \<le> cost" and "set ls \<subseteq> set (slice_at (g_adj g) u)" and "graph_ok g"
  shows "search_inv g mt c s S (\<lambda>x l. fin x l \<or> x = u \<and> l \<in> set ls)
    (fold (relax_link mt c cost) ls (dist, prev, q))"
  using assms
proof (induction ls arbitrary: fin dist prev q)
  case Nil
  then show ?case by simp
next
  case (Cons l ls)
  obtain dist' prev' q' where new: "relax_link mt c cost l (dist, prev, q) = (dist', prev', q')"
    by (metis prod_cases3)
  have inv: "search_inv g mt c s S (\<lambda>x l'. fin x l' \<or> x = u \<and> l' = l) (dist', prev', q')"
    using relax_link_inv[OF Cons.prems(1) refl Cons.prems(2,3,4) _ Cons.prems(6), of l] Cons.prems(5) new
    by simp
  have frame: "\<forall>x\<in>S. fmlookup dist' x = fmlookup dist x"
    using relax_link_frame[OF Cons.prems(1-4) new] .
  then have le: "\<forall>x\<in>S. known dist' x \<le> cost" using Cons.prems(4) by (simp add: known_def)
  have "search_inv g mt c s S (\<lambda>x l'. (fin x l' \<or> x = u \<and> l' = l) \<or> x = u \<and> l' \<in> set ls)
      (fold (relax_link mt c cost) ls (dist', prev', q'))"
    using Cons.IH[OF inv Cons.prems(2) _ le] frame Cons.prems by auto
  moreover have "(\<lambda>x l'. (fin x l' \<or> x = u \<and> l' = l) \<or> x = u \<and> l' \<in> set ls) =
      (\<lambda>x l'. fin x l' \<or> x = u \<and> l' \<in> set (l # ls))" by (auto simp: fun_eq_iff)
  ultimately show ?case using new by simp
qed

section \<open>Popping the least entry\<close>

abbreviation all_done :: "string \<Rightarrow> Link \<Rightarrow> bool" where
  "all_done \<equiv> \<lambda>u l. True"

text \<open>
  Every walk from the source whose cost fits a uint64 either ends in a settled node that is at
  least as near, or passes a queue entry that is not above its cost.
\<close>

lemma walk_frontier:
  assumes inv: "search_inv g mt c s S all_done (dist, prev, q)"
    and "link_walk g mt c s ls v" and "walk_cost mt ls < 2 ^ 64"
  shows "(v \<in> S \<and> unat (known dist v) \<le> walk_cost mt ls) \<or>
    (\<exists>d y. (d, y) \<in># heap_keys q \<and> unat d \<le> walk_cost mt ls)"
  using assms(2,3)
proof (induction ls arbitrary: v rule: rev_induct)
  case Nil
  have zero: "fmlookup dist s = Some 0" using inv by (simp add: search_inv_def tree_inv_def)
  show ?case
  proof (cases "s \<in> S")
    case True
    then show ?thesis using Nil zero by simp
  next
    case False
    then have "(0, s) \<in># heap_keys q" using inv zero by (simp add: search_inv_def queue_inv_def)
    then show ?thesis by (metis unsigned_0 le0)
  qed
next
  case (snoc l ls)
  let ?u = "lk_local_node_id l"
  have w: "link_walk g mt c s ls ?u" and use: "usable g mt c ?u l" and v: "lk_remote_node_id l = v"
    using snoc.prems(1) by (simp_all add: ul.walk_snoc)
  from snoc.IH[OF w] snoc.prems(2) consider
    (settled) "?u \<in> S" "unat (known dist ?u) \<le> walk_cost mt ls" |
    (queued) "\<exists>d y. (d, y) \<in># heap_keys q \<and> unat d \<le> walk_cost mt ls" by auto
  then show ?case
  proof cases
    case settled
    then have lim: "unat (known dist ?u) + weight mt l < 2 ^ 64" using snoc.prems(2) by simp
    have rel: "relaxed_inv g mt c S all_done dist" using inv by (simp add: search_inv_def)
    then obtain d where d: "fmlookup dist v = Some d" "unat d \<le> unat (known dist ?u) + weight mt l"
      using settled(1) use lim v unfolding relaxed_inv_def by blast
    then have near: "unat d \<le> walk_cost mt (ls @ [l])" using settled(2) by simp
    show ?thesis
    proof (cases "v \<in> S")
      case True
      then show ?thesis using d(1) near by simp
    next
      case False
      then have "(d, v) \<in># heap_keys q" using inv d(1) by (simp add: search_inv_def queue_inv_def)
      then show ?thesis using near by blast
    qed
  next
    case queued
    then show ?thesis by (auto intro: le_trans)
  qed
qed

lemma pop_entry:
  assumes inv: "search_inv g mt c s S fin (dist, prev, q)" and ne: "pq_Len q \<noteq> 0"
    and item: "item = fst (heap_Pop q)" and rest: "q' = snd (heap_Pop q)"
  shows "heap_ok q'" and "heap_keys q = add_mset (qi_cost item, qi_id item) (heap_keys q')"
    and "\<And>d v. (d, v) \<in># heap_keys q \<Longrightarrow> qi_cost item \<le> d"
proof -
  have ok: "heap_ok q" using inv by (simp add: search_inv_def queue_inv_def)
  have nonempty: "heap_keys q \<noteq> {#}" using ne by (simp add: pq_Len_def)
  show "heap_ok q'" using pq.invar_pop[OF ok nonempty] rest by simp
  show "heap_keys q = add_mset (qi_cost item, qi_id item) (heap_keys q')"
    using pq.keys_pop[OF ok nonempty] rest item by (simp add: qkey_def)
  show "qi_cost item \<le> d" if "(d, v) \<in># heap_keys q" for d v
    using pq.pop_least[OF ok that] item by (auto simp: qkey_def less_eq_prod_simp)
qed

text \<open>A popped entry whose cost is not the recorded distance is dropped.\<close>

lemma pop_stale:
  assumes inv: "search_inv g mt c s S fin (dist, prev, q)" and ne: "pq_Len q \<noteq> 0"
    and item: "item = fst (heap_Pop q)" and rest: "q' = snd (heap_Pop q)"
    and stale: "qi_cost item \<noteq> known dist (qi_id item)"
  shows "search_inv g mt c s S fin (dist, prev, q')"
proof -
  note p = pop_entry[OF inv ne item rest]
  have "queue_inv S dist q'"
    using inv p(1,2) stale unfolding search_inv_def queue_inv_def by fastforce
  then show ?thesis using inv by (simp add: search_inv_def)
qed

text \<open>A popped entry that carries the recorded distance settles its node.\<close>

lemma pop_settles:
  assumes inv: "search_inv g mt c s S all_done (dist, prev, q)" and ne: "pq_Len q \<noteq> 0"
    and item: "item = fst (heap_Pop q)" and rest: "q' = snd (heap_Pop q)"
    and fresh: "qi_cost item = known dist (qi_id item)"
  shows "search_inv g mt c s (insert (qi_id item) S) (\<lambda>u l. u \<in> S) (dist, prev, q')"
    and "fmlookup dist (qi_id item) = Some (qi_cost item)"
    and "\<forall>x\<in>insert (qi_id item) S. known dist x \<le> qi_cost item"
proof -
  note p = pop_entry[OF inv ne item rest]
  let ?v = "qi_id item" and ?d = "qi_cost item"
  have que: "queue_inv S dist q" and tree: "tree_inv g mt c s S dist prev"
    and rel: "relaxed_inv g mt c S all_done dist"
    using inv by (simp_all add: search_inv_def)
  have mem: "(?d, ?v) \<in># heap_keys q" using p(2) by simp
  then obtain d0 where "fmlookup dist ?v = Some d0" using que unfolding queue_inv_def by blast
  then show look: "fmlookup dist ?v = Some ?d" using fresh by simp
  show le: "\<forall>x\<in>insert ?v S. known dist x \<le> ?d"
    using que mem look unfolding queue_inv_def by auto
  have "queue_inv (insert ?v S) dist q'"
    unfolding queue_inv_def
  proof (intro conjI allI impI)
    show "heap_ok q'" by (rule p(1))
  next
    fix v d assume "fmlookup dist v = Some d" "v \<notin> insert ?v S"
    then show "(d, v) \<in># heap_keys q'" using que p(2) unfolding queue_inv_def by fastforce
  next
    fix d v assume dv: "(d, v) \<in># heap_keys q'"
    then have "(d, v) \<in># heap_keys q" using p(2) by simp
    then show "\<exists>d0. fmlookup dist v = Some d0 \<and> d0 \<le> d"
      and "\<forall>u\<in>insert ?v S. known dist u \<le> d"
      using que p(3) le unfolding queue_inv_def by (blast, auto intro: order_trans)
  qed
  moreover have "tree_inv g mt c s (insert ?v S) dist prev" using tree unfolding tree_inv_def by blast
  moreover have "relaxed_inv g mt c (insert ?v S) (\<lambda>u l. u \<in> S) dist"
    using rel look unfolding relaxed_inv_def by (auto simp: fmlookup_dom'_iff)
  ultimately show "search_inv g mt c s (insert ?v S) (\<lambda>u l. u \<in> S) (dist, prev, q')"
    by (simp add: search_inv_def)
qed

lemma expand_node:
  assumes inv: "search_inv g mt c s S all_done (dist, prev, q)" and ne: "pq_Len q \<noteq> 0"
    and item: "item = fst (heap_Pop q)" and rest: "q' = snd (heap_Pop q)"
    and fresh: "qi_cost item = known dist (qi_id item)" and ok: "graph_ok g"
  shows "search_inv g mt c s (insert (qi_id item) S) all_done
    (fold (relax_link mt c (qi_cost item)) (slice_at (g_adj g) (qi_id item)) (dist, prev, q'))"
proof -
  note pop = pop_settles[OF inv ne item rest fresh]
  let ?u = "qi_id item" and ?S = "insert (qi_id item) S"
  have "search_inv g mt c s ?S (\<lambda>x l. x \<in> S \<or> x = ?u \<and> l \<in> set (slice_at (g_adj g) ?u))
      (fold (relax_link mt c (qi_cost item)) (slice_at (g_adj g) ?u) (dist, prev, q'))"
    by (rule fold_relax_inv[OF pop(1) _ pop(2,3) _ ok]) simp_all
  then show ?thesis
    unfolding search_inv_def relaxed_inv_def by (fastforce simp: usable_def split: prod.splits)
qed

section \<open>The whole search\<close>

text \<open>
  What the search leaves: a tree of tight links into the known nodes, and a distance for the
  destination that no walk undercuts.
\<close>

definition search_result ::
  "Graph \<Rightarrow> PathMetric \<Rightarrow> PathConstraints option \<Rightarrow> string \<Rightarrow> string \<Rightarrow> search_state \<Rightarrow> bool" where
  "search_result g mt c s t st \<longleftrightarrow> (case st of (dist, prev, q) \<Rightarrow>
     (\<exists>S. tree_inv g mt c s S dist prev) \<and>
     (\<forall>ls. link_walk g mt c s ls t \<longrightarrow> walk_cost mt ls < 2 ^ 64 \<longrightarrow>
        (\<exists>d. fmlookup dist t = Some d \<and> unat d \<le> walk_cost mt ls)))"

lemma settled_result:
  assumes inv: "search_inv g mt c s S all_done (dist, prev, q)"
    and bound: "\<And>d y. (d, y) \<in># heap_keys q \<Longrightarrow> \<exists>d0. fmlookup dist t = Some d0 \<and> d0 \<le> d"
  shows "search_result g mt c s t (dist, prev, q')"
  unfolding search_result_def prod.case
proof (intro conjI allI impI)
  show "\<exists>S. tree_inv g mt c s S dist prev" using inv by (auto simp: search_inv_def)
next
  fix ls assume ls: "link_walk g mt c s ls t" "walk_cost mt ls < 2 ^ 64"
  from walk_frontier[OF inv ls] show "\<exists>d. fmlookup dist t = Some d \<and> unat d \<le> walk_cost mt ls"
  proof (elim disjE exE conjE)
    assume "t \<in> S" and le: "unat (known dist t) \<le> walk_cost mt ls"
    then obtain d where "fmlookup dist t = Some d"
      using inv relaxed_inv_dom by (fastforce simp: search_inv_def)
    then show ?thesis using le by simp
  next
    fix d y assume "(d, y) \<in># heap_keys q" "unat d \<le> walk_cost mt ls"
    then show ?thesis using bound[of d y] by (auto simp: word_le_nat_alt)
  qed
qed

lemma search_correct:
  assumes "search_inv g mt c s S all_done st" and "graph_ok g"
  shows "search_result g mt c s t (search g mt c t st)"
  using assms
proof (induction g mt c t st arbitrary: S rule: search.induct)
  case (1 g mt c t dist prev q)
  let ?item = "fst (heap_Pop q)" and ?q = "snd (heap_Pop q)"
  note inv = "1.prems"(1) and ok = "1.prems"(2)
  show ?case
  proof (cases "pq_Len q = 0")
    case True
    then have "heap_keys q = {#}" by (simp add: pq_Len_def)
    with settled_result[OF inv, of t q] True show ?thesis by (simp add: search.simps)
  next
    case ne: False
    show ?thesis
    proof (cases "qi_cost ?item = known dist (qi_id ?item)")
      case stale: False
      from pop_stale[OF inv ne refl refl stale]
      have "search_result g mt c s t (search g mt c t (dist, prev, ?q))"
        using "1.IH"(1)[OF ne refl refl stale] ok by blast
      then show ?thesis using ne stale by (subst search.simps) (simp add: Let_def)
    next
      case fresh: True
      show ?thesis
      proof (cases "qi_id ?item = t")
        case True
        have "search_result g mt c s t (dist, prev, ?q)"
        proof (rule settled_result[OF inv])
          fix d y assume "(d, y) \<in># heap_keys q"
          then show "\<exists>d0. fmlookup dist t = Some d0 \<and> d0 \<le> d"
            using pop_entry(3)[OF inv ne refl refl] pop_settles(2)[OF inv ne refl refl fresh] True by auto
        qed
        then show ?thesis using ne fresh True by (subst search.simps) (simp add: Let_def)
      next
        case False
        have "search_result g mt c s t (search g mt c t
            (fold (relax_link mt c (qi_cost ?item)) (slice_at (g_adj g) (qi_id ?item)) (dist, prev, ?q)))"
          using "1.IH"(2)[OF ne refl refl _ False] fresh ok expand_node[OF inv ne refl refl fresh ok] by blast
        then show ?thesis using ne fresh False by (subst search.simps) (simp add: Let_def)
      qed
    qed
  qed
qed

lemma search_inv_init:
  "search_inv g mt c s {} fin (fmupd s 0 fmempty, fmempty, [\<lparr>qi_id = s, qi_cost = 0, qi_index = 0\<rparr>])"
  by (auto simp: search_inv_def tree_inv_def queue_inv_def relaxed_inv_def heap_keys_def qkey_def
      split: if_splits)

text \<open>The walk back along a tight tree ends at the source, with a walk of the recorded cost.\<close>

lemma walk_back_correct:
  assumes tree: "tree_inv g mt c s S dist prev" and "fmlookup dist v = Some d"
  shows "\<exists>ls. walk_back prev s v acc = Some (Inr (acc @ rev ls)) \<and> link_walk g mt c s ls v \<and>
    walk_cost mt ls = unat d"
  using assms(2)
proof (induction "unat d" arbitrary: v d acc rule: less_induct)
  case less
  show ?case
  proof (cases "v = s")
    case True
    then have "d = 0" using less.prems tree by (simp add: tree_inv_def)
    then show ?thesis using True by (intro exI[of _ "[]"]) (simp add: walk_back.simps)
  next
    case False
    then obtain l du where l: "fmlookup prev v = Some l" "usable g mt c (lk_local_node_id l) l"
      "lk_remote_node_id l = v" "fmlookup dist (lk_local_node_id l) = Some du"
      "unat d = unat du + weight mt l"
      using tree less.prems unfolding tree_inv_def by blast
    have "unat du < unat d" using l(5) ul.wt_pos[OF l(2)] by simp
    from less.hyps[OF this l(4), of "acc @ [l]"] obtain ls where ls:
      "walk_back prev s (lk_local_node_id l) (acc @ [l]) = Some (Inr ((acc @ [l]) @ rev ls))"
      "link_walk g mt c s ls (lk_local_node_id l)" "walk_cost mt ls = unat du" by blast
    have "walk_back prev s v acc = Some (Inr (acc @ rev (ls @ [l])))"
      using False l(1) ls(1) by (simp add: walk_back.simps)
    moreover have "link_walk g mt c s (ls @ [l]) v" using ls(2) l by (simp add: ul.walk_snoc)
    ultimately show ?thesis using ls(3) l(5) by (intro exI[of _ "ls @ [l]"]) simp
  qed
qed

text \<open>The four outcomes of \<open>shortest\<close>, which the properties below are read off from.\<close>

lemma shortest_cases:
  assumes ok: "graph_ok g"
  obtains (unknown) "fmlookup (g_nodes g) s = None \<or> fmlookup (g_nodes g) t = None"
      "shortest g s t mt c = Inl (Error (Wrapf [] (Sentinel ErrNoPath)
        '': source or destination does not exist in the active graph''))"
  | (no_path) "fmlookup (g_nodes g) s \<noteq> None" "fmlookup (g_nodes g) t \<noteq> None"
      "shortest g s t mt c = Inl (Error (Sentinel ErrNoPath))"
      "\<And>ls. link_walk g mt c s ls t \<Longrightarrow> 2 ^ 64 \<le> walk_cost mt ls"
  | (path) ls d where "fmlookup (g_nodes g) s \<noteq> None" "fmlookup (g_nodes g) t \<noteq> None"
      "shortest g s t mt c = Inr (ls, d)" "link_walk g mt c s ls t" "walk_cost mt ls = unat d"
      "\<And>ms. link_walk g mt c s ms t \<Longrightarrow> unat d \<le> walk_cost mt ms"
proof (cases "fmlookup (g_nodes g) s = None \<or> fmlookup (g_nodes g) t = None")
  case True
  then show thesis by (intro unknown) (auto simp: shortest_def)
next
  case False
  then have nodes: "fmlookup (g_nodes g) s \<noteq> None" "fmlookup (g_nodes g) t \<noteq> None" by auto
  let ?st = "(fmupd s 0 fmempty, fmempty, [\<lparr>qi_id = s, qi_cost = 0, qi_index = 0\<rparr>])"
  obtain dist prev q where res: "search g mt c t ?st = (dist, prev, q)" by (metis prod_cases3)
  have "search_result g mt c s t (dist, prev, q)"
    using search_correct[OF search_inv_init ok, of mt c s t] res by simp
  then obtain S where tree: "tree_inv g mt c s S dist prev" and
    best: "\<And>ls. link_walk g mt c s ls t \<Longrightarrow> walk_cost mt ls < 2 ^ 64 \<Longrightarrow>
      \<exists>d. fmlookup dist t = Some d \<and> unat d \<le> walk_cost mt ls"
    by (auto simp: search_result_def)
  show thesis
  proof (cases "fmlookup dist t")
    case None
    have "shortest g s t mt c = Inl (Error (Sentinel ErrNoPath))"
      using False None res by (simp add: shortest_def)
    moreover have "2 ^ 64 \<le> walk_cost mt ls" if "link_walk g mt c s ls t" for ls
      using best[OF that] None by (cases "walk_cost mt ls < 2 ^ 64") auto
    ultimately show thesis using nodes by (intro no_path)
  next
    case (Some d)
    from walk_back_correct[OF tree Some, of "[]"] obtain ls where ls:
      "walk_back prev s t [] = Some (Inr (rev ls))" "link_walk g mt c s ls t" "walk_cost mt ls = unat d"
      by auto
    have "shortest g s t mt c = Inr (ls, d)"
      using False Some res ls(1) by (simp add: shortest_def)
    moreover have "unat d \<le> walk_cost mt ms" if "link_walk g mt c s ms t" for ms
    proof (cases "walk_cost mt ms < 2 ^ 64")
      case True
      then show ?thesis using best[OF that] Some by auto
    next
      case big: False
      then show ?thesis using unsigned_less[of d, where ?'a = nat] by simp
    qed
    ultimately show thesis using nodes ls by (intro path)
  qed
qed

end
