(* ===== verification/Graph_Paths.thy ===== *)
theory Graph_Paths
  imports Graph_Search
begin

text \<open>
  Properties of \<open>NewGraph\<close>, \<open>shortest\<close>, \<open>Compute\<close> and \<open>ComputeMany\<close> of
  \<open>internal/topology/graph.go\<close>: what the graph of a revision holds, optimality and completeness
  of the search on it, the shape and the totals of a computed path, and the list of alternatives.
\<close>

section \<open>What NewGraph builds\<close>

definition active_node :: "Node \<Rightarrow> bool" where
  "active_node n \<longleftrightarrow> GetFreshness (nd_meta n) = FRESHNESS_ACTIVE"

definition link_admitted :: "Graph \<Rightarrow> Link \<Rightarrow> bool" where
  "link_admitted g l \<longleftrightarrow> GetFreshness (lk_meta l) = FRESHNESS_ACTIVE \<and>
     lk_local_node_id l \<in> fmdom' (g_nodes g) \<and> lk_remote_node_id l \<in> fmdom' (g_nodes g)"

lemma fold_add_node:
  "g_links (fold add_node ns g) = g_links g" "g_adj (fold add_node ns g) = g_adj g"
  "g_revision (fold add_node ns g) = g_revision g"
  by (induction ns arbitrary: g) (simp_all add: add_node_def)

lemma fold_add_node_nodes:
  assumes "\<And>i n. fmlookup (g_nodes g) i = Some n \<Longrightarrow> P i n"
    and "\<And>n. n \<in> set ns \<Longrightarrow> active_node n \<Longrightarrow> P (node_id n) n"
    and "fmlookup (g_nodes (fold add_node ns g)) i = Some n"
  shows "P i n"
  using assms
proof (induction ns arbitrary: g)
  case (Cons m ns)
  have "P i n" if "fmlookup (g_nodes (add_node m g)) i = Some n" for i n
    using that Cons.prems(1,2) by (auto simp: add_node_def active_node_def split: if_splits)
  then show ?case using Cons.IH[of "add_node m g"] Cons.prems(2,3) by auto
qed simp

lemma fold_add_node_dom:
  "fmdom' (g_nodes (fold add_node ns g)) = fmdom' (g_nodes g) \<union> {node_id n | n. n \<in> set ns \<and> active_node n}"
  by (induction ns arbitrary: g) (auto simp: add_node_def active_node_def)

lemma add_link_eq:
  "add_link l g = (if link_admitted g l
     then g\<lparr>g_links := fmupd (link_id l) l (g_links g),
            g_adj := append_at (lk_local_node_id l) l (g_adj g)\<rparr> else g)"
  by (auto simp: add_link_def link_admitted_def fmdom'_notI fmlookup_dom'_iff)

lemma fold_add_link_nodes [simp]:
  "g_nodes (fold add_link ls g) = g_nodes g" "g_revision (fold add_link ls g) = g_revision g"
  by (induction ls arbitrary: g) (simp_all add: add_link_eq)

lemma link_admitted_cong: "g_nodes g = g_nodes h \<Longrightarrow> link_admitted g = link_admitted h"
  by (simp add: link_admitted_def fun_eq_iff)

lemma slice_at_append_at: "slice_at (append_at k x m) u = slice_at m u @ (if u = k then [x] else [])"
  by (simp add: slice_at_def append_at_def)

lemma slice_at_fold_add_link:
  "slice_at (g_adj (fold add_link ls g)) u =
     slice_at (g_adj g) u @ filter (\<lambda>l. link_admitted g l \<and> lk_local_node_id l = u) ls"
proof (induction ls arbitrary: g)
  case (Cons l ls)
  have "link_admitted (add_link l g) = link_admitted g"
    by (rule link_admitted_cong) (simp add: add_link_eq)
  then show ?case using Cons.IH[of "add_link l g"] by (auto simp: add_link_eq slice_at_append_at)
qed simp

lemma slice_at_fmmap_sort: "slice_at (fmmap (sort_key f) m) u = sort_key f (slice_at m u)"
  by (simp add: slice_at_def split: option.splits)

lemma NewGraph_nodes_links:
  "slice_at (g_adj (NewGraph r ns ls)) u =
     sort_key link_id (filter (\<lambda>l. link_admitted (NewGraph r ns ls) l \<and> lk_local_node_id l = u) ls)"
proof -
  let ?g0 = "\<lparr>g_revision = r, g_nodes = fmempty, g_links = fmempty, g_adj = fmempty\<rparr>"
  have "link_admitted (NewGraph r ns ls) = link_admitted (fold add_node ns ?g0)"
    by (rule link_admitted_cong) (simp add: NewGraph_def Let_def)
  moreover have "slice_at (g_adj (fold add_node ns ?g0)) u = []"
    by (simp add: fold_add_node slice_at_def)
  ultimately show ?thesis
    by (simp add: NewGraph_def Let_def slice_at_fmmap_sort slice_at_fold_add_link)
qed

lemma NewGraph_dom:
  "x \<in> fmdom' (g_nodes (NewGraph r ns ls)) \<longleftrightarrow> (\<exists>n\<in>set ns. active_node n \<and> node_id n = x)"
  by (auto simp: NewGraph_def Let_def fold_add_node_dom)

lemma NewGraph_node:
  assumes "fmlookup (g_nodes (NewGraph r ns ls)) i = Some n"
  shows "n \<in> set ns \<and> active_node n \<and> node_id n = i"
proof -
  let ?g0 = "\<lparr>g_revision = r, g_nodes = fmempty, g_links = fmempty, g_adj = fmempty\<rparr>"
  have "fmlookup (g_nodes (fold add_node ns ?g0)) i = Some n"
    using assms by (simp add: NewGraph_def Let_def)
  then show ?thesis
    by (rule fold_add_node_nodes[of ?g0 "\<lambda>i n. n \<in> set ns \<and> active_node n \<and> node_id n = i", rotated 2])
      simp_all
qed

lemma graph_ok_iff: "graph_ok g \<longleftrightarrow> (\<forall>u. \<forall>l\<in>set (slice_at (g_adj g) u). lk_local_node_id l = u)"
proof
  assume "graph_ok g"
  then show "\<forall>u. \<forall>l\<in>set (slice_at (g_adj g) u). lk_local_node_id l = u" using graph_ok_slice by blast
next
  assume slices: "\<forall>u. \<forall>l\<in>set (slice_at (g_adj g) u). lk_local_node_id l = u"
  show "graph_ok g"
    unfolding graph_ok_def
  proof (intro allI impI ballI)
    fix u ls l assume "fmlookup (g_adj g) u = Some ls" "l \<in> set ls"
    then have "l \<in> set (slice_at (g_adj g) u)" by (simp add: slice_at_def)
    with slices show "lk_local_node_id l = u" by blast
  qed
qed

lemma graph_ok_NewGraph [simp]: "graph_ok (NewGraph r ns ls)"
  by (simp add: graph_ok_iff NewGraph_nodes_links)

lemmas NewGraph_shortest_cases [case_names unknown no_path path] = shortest_cases[OF graph_ok_NewGraph]

text \<open>The topology of \<open>TestConstrainedShortestPath\<close>, on which the witnesses evaluate.\<close>

definition sample_meta :: "string \<Rightarrow> EntityMeta" where
  "sample_meta i = zero_EntityMeta\<lparr>em_id := i, em_domain_id := ''d'', em_freshness := FRESHNESS_ACTIVE\<rparr>"

definition sample_node :: "string \<Rightarrow> Node" where
  "sample_node i = zero_Node\<lparr>nd_meta := Some (sample_meta i)\<rparr>"

definition sample_link :: "string \<Rightarrow> string \<Rightarrow> string \<Rightarrow> u64 \<Rightarrow> float64 \<Rightarrow> Link" where
  "sample_link i a b m bw = zero_Link\<lparr>lk_meta := Some (sample_meta i), lk_local_node_id := a,
     lk_remote_node_id := b, lk_igp_metric := m, lk_reservable_bandwidth := bw\<rparr>"

lemmas sample_simps = sample_meta_def sample_node_def sample_link_def node_id_def link_id_def
  getter_simps zero_EntityMeta_def zero_Node_def zero_Link_def

definition sample_nodes :: "Node list" where
  "sample_nodes = map sample_node [''a'', ''b'', ''c'']"

definition sample_links :: "Link list" where
  "sample_links = [sample_link ''ab'' ''a'' ''b'' 1 (Fin 100), sample_link ''bc'' ''b'' ''c'' 1 (Fin 100),
     sample_link ''ac'' ''a'' ''c'' 10 (Fin 1000)]"

text \<open>
  The graph of a revision holds exactly the active links whose two end nodes are active
  nodes of the input, each under its local node and in the order of its identifier.
\<close>

theorem NewGraph_adjacency:
  "set (slice_at (g_adj (NewGraph r ns ls)) u) =
     {l \<in> set ls. lk_local_node_id l = u \<and> GetFreshness (lk_meta l) = FRESHNESS_ACTIVE \<and>
        (\<exists>n\<in>set ns. active_node n \<and> node_id n = lk_local_node_id l) \<and>
        (\<exists>n\<in>set ns. active_node n \<and> node_id n = lk_remote_node_id l)} \<and>
   sorted (map link_id (slice_at (g_adj (NewGraph r ns ls)) u))"
  by (auto simp: NewGraph_nodes_links link_admitted_def NewGraph_dom)

section \<open>shortest\<close>

text \<open>
  C1. A path returned by \<open>shortest\<close> is a walk from the source to the destination over links
  that pass the constraints and carry the metric; its reported total is the exact sum of the
  link weights, and no other such walk costs less.
\<close>

theorem shortest_optimal:
  assumes "shortest (NewGraph r ns ls) s t mt c = Inr (path, tot)"
  shows "link_walk (NewGraph r ns ls) mt c s path t \<and> walk_cost mt path = unat tot \<and>
    (\<nexists>p. link_walk (NewGraph r ns ls) mt c s p t \<and> walk_cost mt p < unat tot)"
proof (cases rule: NewGraph_shortest_cases[of r ns ls s t mt c])
  case (path ms d)
  then show ?thesis using assms by (auto simp: not_less)
qed (use assms in simp_all)

theorem shortest_optimal_witness:
  "let g = NewGraph 7 sample_nodes sample_links;
       path = [sample_link ''ab'' ''a'' ''b'' 1 (Fin 100), sample_link ''bc'' ''b'' ''c'' 1 (Fin 100)]
   in shortest g ''a'' ''c'' PATH_METRIC_IGP None = Inr (path, 2) \<and>
      walk_cost PATH_METRIC_IGP path = 2 \<and>
      (\<nexists>p. link_walk g PATH_METRIC_IGP None ''a'' p ''c'' \<and> walk_cost PATH_METRIC_IGP p < 2)"
proof -
  let ?path = "[sample_link ''ab'' ''a'' ''b'' 1 (Fin 100), sample_link ''bc'' ''b'' ''c'' 1 (Fin 100)]"
  have run: "shortest (NewGraph 7 sample_nodes sample_links) ''a'' ''c'' PATH_METRIC_IGP None = Inr (?path, 2)"
    by code_simp
  from shortest_optimal[OF run] run show ?thesis by (simp add: Let_def)
qed

text \<open>
  The search never misses a path: when both ends are active nodes and some walk over
  usable links has a cost that fits a uint64, \<open>shortest\<close> returns a path.
\<close>

theorem shortest_complete:
  assumes "s \<in> fmdom' (g_nodes (NewGraph r ns ls))" and "t \<in> fmdom' (g_nodes (NewGraph r ns ls))"
    and "link_walk (NewGraph r ns ls) mt c s p t" and "walk_cost mt p < 2 ^ 64"
  shows "\<exists>path tot. shortest (NewGraph r ns ls) s t mt c = Inr (path, tot)"
proof (cases rule: NewGraph_shortest_cases[of r ns ls s t mt c])
  case no_path
  then show ?thesis using assms(3,4) by (auto simp: not_less dest: leD)
qed (use assms in \<open>auto simp: fmlookup_dom'_iff\<close>)

theorem shortest_complete_witness:
  "\<exists>path tot. shortest (NewGraph 7 sample_nodes sample_links) ''a'' ''c'' PATH_METRIC_IGP None = Inr (path, tot)"
proof (rule shortest_complete[where p = "[sample_link ''ac'' ''a'' ''c'' 10 (Fin 1000)]"])
  show "''a'' \<in> fmdom' (g_nodes (NewGraph 7 sample_nodes sample_links))"
    and "''c'' \<in> fmdom' (g_nodes (NewGraph 7 sample_nodes sample_links))"
    by (simp_all add: NewGraph_dom sample_nodes_def sample_simps active_node_def)
  show "link_walk (NewGraph 7 sample_nodes sample_links) PATH_METRIC_IGP None ''a''
      [sample_link ''ac'' ''a'' ''c'' 10 (Fin 1000)] ''c''" by code_simp
  show "walk_cost PATH_METRIC_IGP [sample_link ''ac'' ''a'' ''c'' 10 (Fin 1000)] < 2 ^ 64"
    by (simp add: weight_def metric_def sample_simps)
qed

text \<open>
  \<open>shortest\<close> always returns: it neither loops in the walk back along the predecessor
  map nor panics, and each of its errors is \<open>ErrNoPath\<close>.
\<close>

theorem shortest_returns:
  "(\<exists>path tot. shortest (NewGraph r ns ls) s t mt c = Inr (path, tot)) \<or>
   (\<exists>e. shortest (NewGraph r ns ls) s t mt c = Inl (Error e) \<and> errors_Is e ErrNoPath)"
  by (cases rule: NewGraph_shortest_cases[of r ns ls s t mt c]) simp_all

section \<open>Compute\<close>

text \<open>
  \<open>route\<close> says that a list of segments leads through consecutive waypoints, each segment an
  optimal walk between its two.
\<close>

fun route ::
  "Graph \<Rightarrow> PathMetric \<Rightarrow> PathConstraints option \<Rightarrow> string list \<Rightarrow> Link list list \<Rightarrow> bool" where
  "route g mt c (a # b # ws) (seg # segs) =
     (link_walk g mt c a seg b \<and> walk_cost mt seg < 2 ^ 64 \<and>
      (\<forall>p. link_walk g mt c a p b \<longrightarrow> walk_cost mt seg \<le> walk_cost mt p) \<and>
      route g mt c (b # ws) segs)"
| "route g mt c [a] segs = (segs = [])"
| "route g mt c ws segs = False"

definition waypoints_of :: "string \<Rightarrow> PathConstraints option \<Rightarrow> string \<Rightarrow> string list" where
  "waypoints_of s c t = [s] @ (case c of None \<Rightarrow> [] | Some x \<Rightarrow> pc_include_node_ids x) @ [t]"

lemma route_walk: "route g mt c (a # ws) segs \<Longrightarrow> link_walk g mt c a (concat segs) (last (a # ws))"
proof (induction ws arbitrary: a segs)
  case (Cons b ws)
  then obtain seg rest where "segs = seg # rest" "link_walk g mt c a seg b" "route g mt c (b # ws) rest"
    by (cases segs) auto
  then show ?case using Cons.IH[of b rest] by (auto simp: ul.walk_append)
qed simp

lemma compute_segments_route:
  assumes "graph_ok g" and "compute_segments g mt c (a # ws) links tot = Inr (links', tot')"
  shows "\<exists>segs. route g mt c (a # ws) segs \<and> links' = links @ concat segs \<and>
    tot' = tot + of_nat (walk_cost mt (concat segs))"
  using assms(2)
proof (induction ws arbitrary: a links tot)
  case Nil
  then show ?case by (intro exI[of _ "[]"]) simp
next
  case (Cons b ws)
  then obtain seg cost where sc: "shortest g a b mt c = Inr (seg, cost)" and
    rest: "compute_segments g mt c (b # ws) (links @ seg) (tot + cost) = Inr (links', tot')"
    by (auto split: sum.splits)
  from Cons.IH[OF rest] obtain segs where segs: "route g mt c (b # ws) segs"
    "links' = (links @ seg) @ concat segs" "tot' = tot + cost + of_nat (walk_cost mt (concat segs))" by blast
  have seg: "link_walk g mt c a seg b" "walk_cost mt seg = unat cost"
    "\<And>p. link_walk g mt c a p b \<Longrightarrow> unat cost \<le> walk_cost mt p"
    by (cases rule: shortest_cases[OF assms(1), of a b mt c]; use sc in auto)+
  have "walk_cost mt seg < 2 ^ 64" using seg(2) unsigned_less[of cost, where ?'a = nat] by simp
  then have "route g mt c (a # b # ws) (seg # segs)" using seg segs(1) by simp
  moreover have "tot' = tot + of_nat (walk_cost mt (concat (seg # segs)))"
    using segs(3) seg(2) by (simp add: add.assoc)
  ultimately show ?case using segs(2) by (intro exI[of _ "seg # segs"]) simp
qed

lemma compute_segments_returns:
  assumes "graph_ok g"
  shows "(\<exists>r. compute_segments g mt c ws links tot = Inr r) \<or>
    (\<exists>e. compute_segments g mt c ws links tot = Inl (Error e) \<and> errors_Is e ErrNoPath)"
  using assms
proof (induction g mt c ws links tot rule: compute_segments.induct)
  case (1 g mt c a b ws links tot)
  show ?case
  proof (cases rule: shortest_cases[OF "1.prems", of a b mt c])
    case 3
    then show ?thesis using "1.IH" "1.prems" by auto
  qed simp_all
qed auto

text \<open>What the loop over the links accumulates.\<close>

fun hop_nodes :: "string \<Rightarrow> Link list \<Rightarrow> string list" where
  "hop_nodes u [] = [u]"
| "hop_nodes u (l # ls) = u # hop_nodes (lk_remote_node_id l) ls"

definition least_bandwidth :: "float64 \<Rightarrow> Link list \<Rightarrow> float64" where
  "least_bandwidth b ls = fold (\<lambda>l m. if f_less (lk_reservable_bandwidth l) m
     then lk_reservable_bandwidth l else m) ls b"

lemma least_bandwidth_Cons: "least_bandwidth b (l # ls) = least_bandwidth (least_bandwidth b [l]) ls"
  by (simp add: least_bandwidth_def)

lemma least_bandwidth_Nil [simp]: "least_bandwidth b [] = b"
  by (simp add: least_bandwidth_def)

lemma fold_add_hop:
  "fold (add_hop g) ls (i, u, r) = (i + length ls, last (hop_nodes u ls),
     r\<lparr>cp_hops := cp_hops r @ map (\<lambda>(k, x, l). \<lparr>hop_index = of_nat k, hop_node = fmlookup (g_nodes g) x,
            hop_outgoing_link = Some l\<rparr>) (zip [i..<i + length ls] (zip (hop_nodes u ls) ls)),
        cp_total_delay_microseconds := cp_total_delay_microseconds r + sum_list (map lk_delay_microseconds ls),
        cp_bottleneck_bandwidth := least_bandwidth (cp_bottleneck_bandwidth r) ls\<rparr>)"
proof (induction ls arbitrary: i u r)
  case Nil
  then show ?case by (simp add: least_bandwidth_def)
next
  case (Cons l ls)
  have "[i..<i + length (l # ls)] = i # [Suc i..<Suc i + length ls]"
    using upt_conv_Cons[of i "i + length (l # ls)"] by (simp del: upt_Suc)
  moreover have "hop_nodes (lk_remote_node_id l) ls \<noteq> []" by (cases ls) simp_all
  moreover have "add_hop g l (i, u, r) = (Suc i, lk_remote_node_id l,
      r\<lparr>cp_hops := cp_hops r @ [\<lparr>hop_index = of_nat i, hop_node = fmlookup (g_nodes g) u,
             hop_outgoing_link = Some l\<rparr>],
         cp_total_delay_microseconds := cp_total_delay_microseconds r + lk_delay_microseconds l,
         cp_bottleneck_bandwidth := least_bandwidth (cp_bottleneck_bandwidth r) [l]\<rparr>)"
    by (simp add: add_hop_def least_bandwidth_def)
  ultimately show ?case
    by (simp add: Cons.IH least_bandwidth_Cons[of _ l ls] add.assoc del: upt_Suc)
qed

lemma length_hop_nodes [simp]: "length (hop_nodes u ls) = Suc (length ls)"
  by (induction ls arbitrary: u) simp_all

lemma take_hop_nodes: "butlast (hop_nodes u ls) @ [last (hop_nodes u ls)] = hop_nodes u ls"
  by (metis append_butlast_last_id length_hop_nodes list.size(3) nat.simps(3))

lemma map_fst_zip_hop_nodes: "map fst (zip (hop_nodes u ls) ls) = butlast (hop_nodes u ls)"
  by (simp add: map_fst_zip_take butlast_conv_take)

lemma Compute_Inr:
  assumes "graph_ok g" and "Compute g s t mt c = Inr p"
  shows "\<exists>segs. route g mt c (waypoints_of s c t) segs \<and>
    cp_total_metric p = of_nat (walk_cost mt (concat segs)) \<and>
    map hop_outgoing_link (cp_hops p) = map Some (concat segs) @ [None] \<and>
    map hop_node (cp_hops p) = map (fmlookup (g_nodes g)) (hop_nodes s (concat segs)) \<and>
    map hop_index (cp_hops p) = map of_nat [0..<Suc (length (concat segs))] \<and>
    cp_total_delay_microseconds p = sum_list (map lk_delay_microseconds (concat segs)) \<and>
    cp_bottleneck_bandwidth p =
      (if concat segs = [] \<or> f_eq (least_bandwidth MaxFloat64 (concat segs)) MaxFloat64 then f_zero
       else least_bandwidth MaxFloat64 (concat segs))"
proof -
  obtain ws where ws: "waypoints_of s c t = s # ws" by (simp add: waypoints_of_def)
  obtain links tot where cs: "compute_segments g mt c (s # ws) [] 0 = Inr (links, tot)"
    using assms(2) ws by (auto simp: Compute_def waypoints_of_def Let_def split: sum.splits)
  obtain segs where segs: "route g mt c (s # ws) segs" "links = concat segs"
    "tot = of_nat (walk_cost mt (concat segs))"
    using compute_segments_route[OF assms(1) cs] by auto
  let ?z = "zip [0..<length links] (zip (hop_nodes s links) links)"
  have fsts: "map (\<lambda>x. of_nat (fst x)) ?z = map of_nat [0..<length links]"
    by (simp add: map_fst_zip_take flip: map_map[of of_nat fst, unfolded comp_def])
  have links_z: "map (\<lambda>x. Some (snd (snd x))) ?z = map Some links"
    by (simp add: map_snd_zip_take flip: map_map[of Some "\<lambda>x. snd (snd x)", unfolded comp_def]
        map_map[of snd snd, unfolded comp_def])
  have nodes_z: "map (\<lambda>x. fst (snd x)) ?z = butlast (hop_nodes s links)"
    by (simp add: map_snd_zip_take map_fst_zip_hop_nodes flip: map_map[of fst snd, unfolded comp_def])
  have hops: "map hop_node (cp_hops p) = map (fmlookup (g_nodes g)) (butlast (hop_nodes s links))
      @ [fmlookup (g_nodes g) (last (hop_nodes s links))]"
    "map hop_outgoing_link (cp_hops p) = map Some links @ [None]"
    "map hop_index (cp_hops p) = map of_nat [0..<length links] @ [of_nat (length links)]"
    using assms(2) cs ws fsts links_z
    by (auto simp: Compute_def waypoints_of_def Let_def fold_add_hop comp_def split_def
        simp flip: nodes_z split: if_splits)
  have "map hop_node (cp_hops p) = map (fmlookup (g_nodes g)) (hop_nodes s links)"
    unfolding hops(1) by (subst (3) take_hop_nodes[symmetric]) simp
  moreover have "cp_total_metric p = tot"
    "cp_total_delay_microseconds p = sum_list (map lk_delay_microseconds links)"
    "cp_bottleneck_bandwidth p = (if links = [] \<or> f_eq (least_bandwidth MaxFloat64 links) MaxFloat64
       then f_zero else least_bandwidth MaxFloat64 links)"
    using assms(2) cs ws by (auto simp: Compute_def waypoints_of_def Let_def fold_add_hop split: if_splits)
  ultimately show ?thesis using segs hops(2,3) ws by (intro exI[of _ segs]) auto
qed

lemma Compute_returns:
  assumes "graph_ok g"
  shows "(\<exists>p. Compute g s t mt c = Inr p) \<or> (\<exists>e. Compute g s t mt c = Inl (Error e) \<and> errors_Is e ErrNoPath)"
  using compute_segments_returns[OF assms, of mt c "waypoints_of s c t" "[]" 0]
  by (auto simp: Compute_def waypoints_of_def Let_def split: prod.splits)

text \<open>
  C20. A computed path visits the requested nodes in order: its links are the concatenation of one
  optimal segment per pair of consecutive waypoints (source, the nodes to include, destination);
  its hops list the nodes along those links with indices from 0 and end at the destination with
  no outgoing link; its total is the sum of the link weights modulo \<open>2 ^ 64\<close>.
\<close>

theorem Compute_route:
  assumes "Compute (NewGraph r ns ls) s t mt c = Inr p"
  shows "\<exists>segs. route (NewGraph r ns ls) mt c (waypoints_of s c t) segs \<and>
    link_walk (NewGraph r ns ls) mt c s (concat segs) t \<and>
    cp_total_metric p = of_nat (walk_cost mt (concat segs)) \<and>
    map hop_outgoing_link (cp_hops p) = map Some (concat segs) @ [None] \<and>
    map hop_node (cp_hops p) = map (fmlookup (g_nodes (NewGraph r ns ls))) (hop_nodes s (concat segs)) \<and>
    map hop_index (cp_hops p) = map of_nat [0..<Suc (length (concat segs))]"
proof -
  obtain segs where segs: "route (NewGraph r ns ls) mt c (waypoints_of s c t) segs"
    "cp_total_metric p = of_nat (walk_cost mt (concat segs))"
    "map hop_outgoing_link (cp_hops p) = map Some (concat segs) @ [None]"
    "map hop_node (cp_hops p) = map (fmlookup (g_nodes (NewGraph r ns ls))) (hop_nodes s (concat segs))"
    "map hop_index (cp_hops p) = map of_nat [0..<Suc (length (concat segs))]"
    using Compute_Inr[OF graph_ok_NewGraph assms] by blast
  moreover have "link_walk (NewGraph r ns ls) mt c s (concat segs) t"
    using route_walk[OF segs(1)[unfolded waypoints_of_def append.simps]] by simp
  ultimately show ?thesis by blast
qed

theorem Compute_route_witness:
  "\<exists>p segs. Compute (NewGraph 7 sample_nodes sample_links) ''a'' ''c'' PATH_METRIC_IGP None = Inr p \<and>
    route (NewGraph 7 sample_nodes sample_links) PATH_METRIC_IGP None [''a'', ''c''] segs \<and>
    length (concat segs) = 2"
proof -
  obtain p where run: "Compute (NewGraph 7 sample_nodes sample_links) ''a'' ''c'' PATH_METRIC_IGP None = Inr p"
    and len: "length (cp_hops p) = 3"
  proof -
    have "case Compute (NewGraph 7 sample_nodes sample_links) ''a'' ''c'' PATH_METRIC_IGP None of
        Inr p \<Rightarrow> length (cp_hops p) = 3 | Inl e \<Rightarrow> False" by code_simp
    then show thesis using that by (auto split: sum.splits)
  qed
  from Compute_route[OF run] obtain segs where
    "route (NewGraph 7 sample_nodes sample_links) PATH_METRIC_IGP None [''a'', ''c''] segs" and
    hops: "map hop_outgoing_link (cp_hops p) = map Some (concat segs) @ [None]"
    by (auto simp: waypoints_of_def)
  moreover have "length (concat segs) = 2" using arg_cong[OF hops, of length] len by simp
  ultimately show ?thesis using run by blast
qed

lemma least_bandwidth_bounds:
  assumes "\<forall>l\<in>set ls. f_less (lk_reservable_bandwidth l) MaxFloat64" and "b \<noteq> NaN"
  shows "least_bandwidth b ls \<noteq> NaN \<and> \<not> f_less b (least_bandwidth b ls) \<and>
    (\<forall>l\<in>set ls. \<not> f_less (lk_reservable_bandwidth l) (least_bandwidth b ls)) \<and>
    (least_bandwidth b ls = b \<or> least_bandwidth b ls \<in> lk_reservable_bandwidth ` set ls)"
  using assms
proof (induction ls arbitrary: b)
  case (Cons l ls)
  let ?b = "least_bandwidth b [l]"
  have l: "lk_reservable_bandwidth l \<noteq> NaN" using Cons.prems(1) f_less_not_NaN by auto
  have b: "?b \<noteq> NaN" "\<not> f_less b ?b" "\<not> f_less (lk_reservable_bandwidth l) ?b"
    "?b = b \<or> ?b = lk_reservable_bandwidth l"
    using l Cons.prems(2) by (auto simp: least_bandwidth_def dest: f_less_trans)
  have chain: "\<not> f_less x z" if "\<not> f_less x y" "\<not> f_less y z" "x \<noteq> NaN" "y \<noteq> NaN" "z \<noteq> NaN" for x y z
    using that f_less_total[of x y] f_less_total[of y z] by (auto dest: f_less_trans)
  have IH: "least_bandwidth ?b ls \<noteq> NaN" "\<not> f_less ?b (least_bandwidth ?b ls)"
    "\<forall>l\<in>set ls. \<not> f_less (lk_reservable_bandwidth l) (least_bandwidth ?b ls)"
    "least_bandwidth ?b ls = ?b \<or> least_bandwidth ?b ls \<in> lk_reservable_bandwidth ` set ls"
    using Cons.IH[of ?b] Cons.prems(1) b(1) by auto
  have "\<not> f_less b (least_bandwidth ?b ls)" "\<not> f_less (lk_reservable_bandwidth l) (least_bandwidth ?b ls)"
    using chain[OF b(2) IH(2)] chain[OF b(3) IH(2)] b(1) l Cons.prems(2) IH(1) by auto
  then show ?case using IH b(4) by (auto simp: least_bandwidth_Cons[of b l ls])
qed simp

text \<open>
  The bottleneck of a computed path: when the path has a link and every link's reservable
  bandwidth is below the largest double, the bottleneck is the bandwidth of one of its links and
  no link of the path has less.
\<close>

theorem Compute_bottleneck:
  assumes "Compute (NewGraph r ns ls) s t mt c = Inr p"
    and "path = List.map_filter hop_outgoing_link (cp_hops p)" and "path \<noteq> []"
    and "list_all (\<lambda>l. f_less (lk_reservable_bandwidth l) MaxFloat64) path"
  shows "cp_bottleneck_bandwidth p \<in> lk_reservable_bandwidth ` set path \<and>
    list_all (\<lambda>l. \<not> f_less (lk_reservable_bandwidth l) (cp_bottleneck_bandwidth p)) path"
proof -
  obtain segs where segs: "map hop_outgoing_link (cp_hops p) = map Some (concat segs) @ [None]"
    "cp_bottleneck_bandwidth p =
      (if concat segs = [] \<or> f_eq (least_bandwidth MaxFloat64 (concat segs)) MaxFloat64 then f_zero
       else least_bandwidth MaxFloat64 (concat segs))"
    using Compute_Inr[OF graph_ok_NewGraph assms(1)] by blast
  have "path = List.map_filter (\<lambda>x. x) (map hop_outgoing_link (cp_hops p))"
    unfolding assms(2) by (rule map_filter_map)
  then have path: "path = concat segs" by (simp add: segs(1) map_filter_append map_filter_map_Some)
  have below: "\<forall>l\<in>set path. f_less (lk_reservable_bandwidth l) MaxFloat64"
    using assms(4) by (simp add: list_all_iff)
  have max: "MaxFloat64 \<noteq> NaN" by (simp add: MaxFloat64_def)
  note least = least_bandwidth_bounds[OF below max]
  obtain l where l: "l \<in> set path" using assms(3) by (cases path) auto
  have "least_bandwidth MaxFloat64 path \<noteq> MaxFloat64"
  proof
    assume "least_bandwidth MaxFloat64 path = MaxFloat64"
    then show False using least l below by metis
  qed
  then have "cp_bottleneck_bandwidth p = least_bandwidth MaxFloat64 path"
    using segs(2) path assms(3) by (auto simp: f_eq_def)
  then show ?thesis using least \<open>least_bandwidth MaxFloat64 path \<noteq> MaxFloat64\<close> by (auto simp: list_all_iff)
qed

definition sample_path :: ComputedPath where
  "sample_path = projr (Compute (NewGraph 7 sample_nodes sample_links) ''a'' ''c'' PATH_METRIC_IGP None)"

theorem Compute_bottleneck_witness:
  "cp_bottleneck_bandwidth sample_path \<in>
     lk_reservable_bandwidth ` set (List.map_filter hop_outgoing_link (cp_hops sample_path))"
proof -
  have run: "Compute (NewGraph 7 sample_nodes sample_links) ''a'' ''c'' PATH_METRIC_IGP None = Inr sample_path"
    by code_simp
  have ne: "List.map_filter hop_outgoing_link (cp_hops sample_path) \<noteq> []" by code_simp
  have below: "list_all (\<lambda>l. f_less (lk_reservable_bandwidth l) MaxFloat64)
      (List.map_filter hop_outgoing_link (cp_hops sample_path))" by code_simp
  from Compute_bottleneck[OF run refl ne below] show ?thesis by simp
qed

text \<open>
  Without nodes to include, the reported total is the least cost of a usable walk from the
  source to the destination, with no wrap-around.
\<close>

theorem Compute_total_exact:
  assumes "Compute (NewGraph r ns ls) s t mt c = Inr p" and "waypoints_of s c t = [s, t]"
  shows "link_walk (NewGraph r ns ls) mt c s (List.map_filter hop_outgoing_link (cp_hops p)) t \<and>
    walk_cost mt (List.map_filter hop_outgoing_link (cp_hops p)) = unat (cp_total_metric p) \<and>
    (\<nexists>w. link_walk (NewGraph r ns ls) mt c s w t \<and> walk_cost mt w < unat (cp_total_metric p))"
proof -
  obtain segs where segs: "route (NewGraph r ns ls) mt c [s, t] segs"
    "cp_total_metric p = of_nat (walk_cost mt (concat segs))"
    "map hop_outgoing_link (cp_hops p) = map Some (concat segs) @ [None]"
    using Compute_Inr[OF graph_ok_NewGraph assms(1)] assms(2) by auto
  then obtain seg where seg: "segs = [seg]" "link_walk (NewGraph r ns ls) mt c s seg t"
    "walk_cost mt seg < 2 ^ 64" "\<And>w. link_walk (NewGraph r ns ls) mt c s w t \<Longrightarrow> walk_cost mt seg \<le> walk_cost mt w"
    by (cases segs) auto
  have "List.map_filter hop_outgoing_link (cp_hops p) = seg"
    using seg(1) segs(3) by (subst map_filter_map) (simp add: map_filter_append map_filter_map_Some)
  moreover have "unat (cp_total_metric p) = walk_cost mt seg"
    using seg(1,3) segs(2) by (simp add: unat_of_nat)
  ultimately show ?thesis using seg by (auto simp: not_less)
qed

theorem Compute_total_exact_witness:
  "unat (cp_total_metric sample_path) = 2 \<and>
   (\<nexists>w. link_walk (NewGraph 7 sample_nodes sample_links) PATH_METRIC_IGP None ''a'' w ''c'' \<and>
      walk_cost PATH_METRIC_IGP w < 2)"
proof -
  have run: "Compute (NewGraph 7 sample_nodes sample_links) ''a'' ''c'' PATH_METRIC_IGP None = Inr sample_path"
    by code_simp
  have two: "unat (cp_total_metric sample_path) = 2" by code_simp
  from Compute_total_exact[OF run] two show ?thesis by (simp add: waypoints_of_def)
qed

text \<open>
  With a node to include, the sum over the segments is a plain uint64 addition and wraps: two
  segments of cost \<open>2 ^ 63\<close> are reported as a path of total metric 0.
\<close>

definition wrap_links :: "Link list" where
  "wrap_links = [sample_link ''ab'' ''a'' ''b'' (2 ^ 63) (Fin 100), sample_link ''bc'' ''b'' ''c'' (2 ^ 63) (Fin 100)]"

lemma Compute_total_wraps:
  "map_sum id cp_total_metric (Compute (NewGraph 7 sample_nodes wrap_links) ''a'' ''c'' PATH_METRIC_IGP
     (Some (zero_PathConstraints\<lparr>pc_include_node_ids := [''b'']\<rparr>))) = Inr 0"
  by code_simp

lemma Compute_single_segment_no_wrap:
  "Compute (NewGraph 7 sample_nodes wrap_links) ''a'' ''c'' PATH_METRIC_IGP None = Inl (Error (Sentinel ErrNoPath))"
  by code_simp

section \<open>ComputeMany\<close>

definition alternative_of ::
  "Graph \<Rightarrow> string \<Rightarrow> string \<Rightarrow> PathMetric \<Rightarrow> PathConstraints option \<Rightarrow> ComputedPath \<Rightarrow> ComputedPath \<Rightarrow> bool" where
  "alternative_of g s t mt c first p \<longleftrightarrow> cp_total_metric p = cp_total_metric first \<and>
     (\<exists>l\<in>set (List.map_filter hop_outgoing_link (cp_hops first)).
        Compute g s t mt (Some (avoid_also c (link_id l))) = Inr p)"

lemma alternatives_spec:
  assumes "alternatives g s t mt c limit first hops out seen = Inr paths"
    and "distinct (map pathKey out)" and "pathKey ` set out = seen" and "set hops \<subseteq> set (cp_hops first)"
  shows "\<exists>new. paths = out @ new \<and> distinct (map pathKey paths) \<and>
    (int (length out) \<le> limit \<longrightarrow> int (length paths) \<le> limit) \<and>
    (\<forall>p\<in>set new. alternative_of g s t mt c first p)"
  using assms
proof (induction hops arbitrary: out seen)
  case Nil
  then show ?case by simp
next
  case (Cons hop hops)
  show ?case
  proof (cases "limit \<le> int (length out) \<or> hop_outgoing_link hop = None")
    case True
    then have "paths = out" using Cons.prems(1) by (auto split: if_splits)
    then show ?thesis using Cons.prems(2) by auto
  next
    case False
    then obtain link where link: "hop_outgoing_link hop = Some link" "\<not> limit \<le> int (length out)" by auto
    let ?next_path = "Compute g s t mt (Some (avoid_also c (link_id link)))"
    show ?thesis
    proof (cases "\<exists>p. ?next_path = Inr p \<and> cp_total_metric p = cp_total_metric first \<and> pathKey p \<notin> seen")
      case True
      then obtain p where p: "?next_path = Inr p" "cp_total_metric p = cp_total_metric first" "pathKey p \<notin> seen" by blast
      have alt: "alternative_of g s t mt c first p"
        using p link Cons.prems(4) by (force simp: alternative_of_def List.map_filter_def)
      have run: "alternatives g s t mt c limit first hops (out @ [p]) (insert (pathKey p) seen) = Inr paths"
        using Cons.prems(1) link p by simp
      obtain new where "paths = (out @ [p]) @ new" "distinct (map pathKey paths)"
        "int (length (out @ [p])) \<le> limit \<longrightarrow> int (length paths) \<le> limit"
        "\<forall>p\<in>set new. alternative_of g s t mt c first p"
        using Cons.IH[OF run] p(3) Cons.prems(2-4) by auto
      then show ?thesis using alt link(2) by (intro exI[of _ "p # new"]) auto
    next
      case skip: False
      have "alternatives g s t mt c limit first hops out seen = Inr paths"
        using Cons.prems(1) link skip by (auto split: sum.splits fault.splits if_splits)
      then show ?thesis using Cons.IH Cons.prems(2-4) by simp
    qed
  qed
qed

lemma alternatives_returns:
  "graph_ok g \<Longrightarrow> \<exists>paths. alternatives g s t mt c limit first hops out seen = Inr paths"
proof (induction hops arbitrary: out seen)
  case (Cons hop hops)
  show ?case
  proof (cases "hop_outgoing_link hop")
    case (Some link)
    show ?thesis
      using Compute_returns[OF Cons.prems, of s t mt "Some (avoid_also c (link_id link))"]
        Cons.IH[OF Cons.prems] Some by (auto simp: Let_def)
  qed simp
qed simp

lemma ComputeMany_spec:
  assumes "ComputeMany (NewGraph r ns ls) s t mt c limit = Inr paths"
  shows "\<exists>first alts. paths = first # alts \<and> Compute (NewGraph r ns ls) s t mt c = Inr first \<and>
    (\<forall>p\<in>set alts. alternative_of (NewGraph r ns ls) s t mt c first p) \<and>
    distinct (map pathKey paths) \<and> int (length paths) \<le> max 1 (min 16 limit)"
proof -
  let ?limit = "max 1 (min 16 limit)"
  obtain first where first: "Compute (NewGraph r ns ls) s t mt c = Inr first"
    "alternatives (NewGraph r ns ls) s t mt c ?limit first (cp_hops first) [first] {pathKey first} = Inr paths"
    using assms by (auto simp: ComputeMany_def Let_def max_def min_def split: sum.splits if_splits)
  obtain new where "paths = [first] @ new" "distinct (map pathKey paths)"
    "int (length [first]) \<le> ?limit \<longrightarrow> int (length paths) \<le> ?limit"
    "\<forall>p\<in>set new. alternative_of (NewGraph r ns ls) s t mt c first p"
    using alternatives_spec[OF first(2)] by auto
  then show ?thesis using first(1) by (intro exI[of _ first] exI[of _ new]) auto
qed

text \<open>
  C21. \<open>ComputeMany\<close> lists the selected path first and then only alternatives with the same total
  metric, each found by forbidding one link of the selected path; no two listed paths run
  through the same sequence of nodes, and there are at most 16 of them, or the requested limit
  when that lies between 1 and 16.
\<close>

theorem ComputeMany_paths:
  assumes "ComputeMany (NewGraph r ns ls) s t mt c limit = Inr paths"
  shows "\<exists>first alts. paths = first # alts \<and> Compute (NewGraph r ns ls) s t mt c = Inr first \<and>
    (\<forall>p\<in>set alts. alternative_of (NewGraph r ns ls) s t mt c first p) \<and>
    distinct (map pathKey paths) \<and> int (length paths) \<le> max 1 (min 16 limit)"
  by (rule ComputeMany_spec[OF assms])

definition ecmp_links :: "Link list" where
  "ecmp_links = [sample_link ''ab'' ''a'' ''b'' 1 f_zero, sample_link ''bd'' ''b'' ''d'' 1 f_zero,
     sample_link ''ac'' ''a'' ''c'' 1 f_zero, sample_link ''cd'' ''c'' ''d'' 1 f_zero]"

definition ecmp_paths :: "ComputedPath list" where
  "ecmp_paths = projr (ComputeMany (NewGraph 1 (map sample_node [''a'', ''b'', ''c'', ''d'']) ecmp_links)
     ''a'' ''d'' PATH_METRIC_IGP None 4)"

theorem ComputeMany_paths_witness:
  "length ecmp_paths = 2 \<and> distinct (map pathKey ecmp_paths) \<and> int (length ecmp_paths) \<le> 4"
proof -
  have run: "ComputeMany (NewGraph 1 (map sample_node [''a'', ''b'', ''c'', ''d'']) ecmp_links)
      ''a'' ''d'' PATH_METRIC_IGP None 4 = Inr ecmp_paths" by code_simp
  have two: "length ecmp_paths = 2" by code_simp
  from ComputeMany_paths[OF run] two show ?thesis by auto
qed

lemma ComputeMany_outcome:
  "(\<exists>paths. ComputeMany (NewGraph r ns ls) s t mt c limit = Inr paths) \<or>
   (\<exists>e. ComputeMany (NewGraph r ns ls) s t mt c limit = Inl (Error e) \<and> errors_Is e ErrNoPath)"
  using Compute_returns[OF graph_ok_NewGraph[of r ns ls], of s t mt c]
    alternatives_returns[OF graph_ok_NewGraph[of r ns ls]]
  by (auto simp: ComputeMany_def Let_def)

text \<open>\<open>ComputeMany\<close> always returns, with paths or with \<open>ErrNoPath\<close>.\<close>

theorem ComputeMany_returns:
  "(\<exists>paths. ComputeMany (NewGraph r ns ls) s t mt c limit = Inr paths) \<or>
   (\<exists>e. ComputeMany (NewGraph r ns ls) s t mt c limit = Inl (Error e) \<and> errors_Is e ErrNoPath)"
  by (rule ComputeMany_outcome)

text \<open>
  Paths that differ only in parallel links have the same key, so such an alternative is not
  listed although its links differ.
\<close>

lemma ComputeMany_parallel_links:
  "map_sum id length (ComputeMany (NewGraph 1 (map sample_node [''a'', ''b''])
     [sample_link ''ab1'' ''a'' ''b'' 1 f_zero, sample_link ''ab2'' ''a'' ''b'' 1 f_zero])
     ''a'' ''b'' PATH_METRIC_IGP None 4) = Inr 1"
  by code_simp

end
