(* ===== verification/Store_Theorems.thy ===== *)
theory Store_Theorems
  imports Store_Machine Graph_Paths
begin

text \<open>
  The properties of the store: what \<open>Apply\<close> does, recovery after a restart, reading an older
  revision, the windows of the event log, compaction, and what a subscriber sees.
\<close>

section \<open>A sample store\<close>

definition fresh_store :: "contents Store" where
  "fresh_store = \<lparr>st_db = fmempty, st_revision = 0, st_observed = zero_time, st_memory = empty_memory,
     st_nextSub = 0, st_subs = fmempty, st_channels = fmempty\<rparr>"

definition sample_upsert :: "string \<Rightarrow> Mutation" where
  "sample_upsert i = \<lparr>mu_kind = ENTITY_KIND_NODE, mu_id = i, mu_domain_id = ''d'', mu_peer_id = ''p'',
     mu_reason = ''test'', mu_delete = False, mu_value = Some (NodeE (sample_node i))\<rparr>"

definition sample_delete :: "string \<Rightarrow> Mutation" where
  "sample_delete i = (sample_upsert i)\<lparr>mu_delete := True, mu_value := None\<rparr>"

definition sample_run :: "(time \<times> Mutation) list \<Rightarrow> contents Store" where
  "sample_run ms = fold (\<lambda>(t, m) s. fst (Apply memory_pebble None t m s)) ms fresh_store"

lemma fresh_store_inv: "store_inv (\<lambda>c. c) 0 (\<lambda>i. empty_memory) (\<lambda>i. undefined) fresh_store"
  by (simp add: store_inv_def fresh_store_def Let_def memory_ok_def table_ok_def memory_on_disk_def on_disk_def
      events_on_disk_def history_ok_def empty_memory_def) auto

lemma sample_mutations_ok: "mutation_ok (sample_upsert ''a'')" "mutation_ok (sample_upsert ''b'')"
  "mutation_ok (sample_delete ''a'')"
  by code_simp+

lemma Apply_revision:
  assumes "Apply P c t m s = (s', v, res)" and "Suc (unat (st_revision s)) < 2 ^ 64"
  shows "unat (st_revision s') \<le> Suc (unat (st_revision s))"
proof (cases res)
  case (Inl f)
  have "st_revision s' = st_revision s"
    using assms(1)[unfolded Inl] unfolding Apply_def Let_def
    by (auto split: option.splits if_splits prod.splits sum.splits)
  then show ?thesis by simp
next
  case (Inr ev)
  have "st_revision s' = st_revision s + 1" using Apply_Inr[OF assms(1)[unfolded Inr]] by auto
  then show ?thesis using assms(2) by (simp add: unat_word_ariths)
qed

lemma sample_run_reaches:
  assumes "list_all (\<lambda>(t, m). mutation_ok m) ms" and "length ms < 1000"
  shows "(store_step memory_pebble)\<^sup>*\<^sup>* fresh_store (sample_run ms)"
proof -
  have "(store_step memory_pebble)\<^sup>*\<^sup>* fresh_store (sample_run ms) \<and> unat (st_revision (sample_run ms)) \<le> length ms"
    using assms
  proof (induction ms rule: rev_induct)
    case Nil
    show ?case by (simp add: sample_run_def fresh_store_def)
  next
    case (snoc x ms)
    obtain t m where x: "x = (t, m)" by (cases x)
    have eq: "sample_run (ms @ [x]) = fst (Apply memory_pebble None t m (sample_run ms))"
      by (simp add: sample_run_def x)
    obtain v res where app: "Apply memory_pebble None t m (sample_run ms) = (sample_run (ms @ [x]), v, res)"
      using eq by (metis prod.collapse)
    have room: "Suc (unat (st_revision (sample_run ms))) < 2 ^ 64" using snoc by simp
    have "store_step memory_pebble (sample_run ms) (sample_run (ms @ [x]))"
      using snoc.prems x by (intro live[OF apply_step[OF app _ room]]) simp
    moreover have "unat (st_revision (sample_run (ms @ [x]))) \<le> Suc (length ms)"
      using Apply_revision[OF app room] snoc by simp
    ultimately show ?case using snoc by (auto intro: rtranclp.rtrancl_into_rtrancl)
  qed
  then show ?thesis by blast
qed

lemma sample_run_inv:
  assumes "list_all (\<lambda>(t, m). mutation_ok m) ms" and "length ms < 1000"
  shows "\<exists>lo M E. store_inv (\<lambda>c. c) lo M E (sample_run ms)"
  using store_steps_inv[OF memory_pebble_laws fresh_store_inv sample_run_reaches[OF assms]]
  unfolding extends_history_def by blast

definition sample_changes :: "(time \<times> Mutation) list" where
  "sample_changes = [(10, sample_upsert ''a''), (20, sample_upsert ''b''), (30, sample_delete ''a'')]"

lemma sample_changes_ok: "list_all (\<lambda>(t, m). mutation_ok m) sample_changes" "length sample_changes < 1000"
  by (simp_all add: sample_changes_def sample_mutations_ok)

section \<open>Documents\<close>

text \<open>
  Entities survive JSON: when every string of an entity is UTF-8 and every number is finite,
  \<open>json.Marshal\<close> succeeds and \<open>json.Unmarshal\<close> of its result gives the entity back.
\<close>

theorem entity_json_roundtrip:
  assumes "json_ok (enc_entity v)"
  shows "\<exists>j. marshal_value (Some v) = Inr j \<and>
    (case v of NodeE x \<Rightarrow> dec_Node j = Some x | LinkE x \<Rightarrow> dec_Link j = Some x
      | PrefixE x \<Rightarrow> dec_Prefix j = Some x | PeerE x \<Rightarrow> dec_Peer j = Some x | DomainE x \<Rightarrow> dec_Domain j = Some x)"
  using assms by (cases v) (simp_all add: marshal_value_def marshal_ok enc_entity_def dec_enc_entities)

theorem entity_json_roundtrip_witness:
  "\<exists>j. marshal_value (Some (LinkE (sample_link ''ab'' ''a'' ''b'' 5 (Fin 100)))) = Inr j \<and>
     dec_Link j = Some (sample_link ''ab'' ''a'' ''b'' 5 (Fin 100))"
proof -
  have "json_ok (enc_entity (LinkE (sample_link ''ab'' ''a'' ''b'' 5 (Fin 100))))" by code_simp
  from entity_json_roundtrip[OF this] show ?thesis by simp
qed

section \<open>Applying a mutation\<close>

lemma Get_rules:
  "lookupLocked (st_memory s') k i = lookupLocked (st_memory s) k i \<Longrightarrow> Get s' k i = Get s k i"
  "lookupLocked (st_memory s) k i = (p, Some v, None) \<Longrightarrow> Get s k i = Inr v"
  "lookupLocked (st_memory s) k i = (p, None, Some e) \<Longrightarrow> Get s k i = Inl e"
  by (simp_all add: Get_def)

lemma lookup_delete:
  assumes "\<forall>j. k \<noteq> ENTITY_KIND_OTHER j"
  shows "lookupLocked (delete_entity k i m) k i = (fst (lookupLocked m k i), None, Some (Sentinel ErrNotFound))"
    and "(k', i') \<noteq> (k, i) \<Longrightarrow> lookupLocked (delete_entity k i m) k' i' = lookupLocked m k' i'"
  using assms by (cases k; cases k'; auto simp: found_def split: option.splits)+

lemma lookup_put:
  shows "lookupLocked (put_entity i v m) (kind_of v) i = (fst (lookupLocked m (kind_of v) i), Some v, None)"
    and "(k', i') \<noteq> (kind_of v, i) \<Longrightarrow> lookupLocked (put_entity i v m) k' i' = lookupLocked m k' i'"
  by (cases v; cases k'; auto simp: found_def split: option.splits)+

lemma Apply_effect:
  assumes "pebble_laws P cont" and "\<forall>w. mu_value m = Some w \<longrightarrow> mu_delete m \<or> kind_of w = mu_kind m"
    and "Apply P ctxErr now m s = (s', v, res)"
  shows "case res of
      Inl f \<Rightarrow> st_memory s' = st_memory s \<and> st_revision s' = st_revision s \<and> st_subs s' = st_subs s \<and>
        st_channels s' = st_channels s \<and> cont (st_db s') = cont (st_db s) \<and> (\<exists>e. f = Error e)
    | Inr ev \<Rightarrow> st_revision s' = st_revision s + 1 \<and> ev_revision ev = st_revision s' \<and>
        Get s' (mu_kind m) (mu_id m) = (if mu_delete m then Inl (Sentinel ErrNotFound)
          else Inr (setRevision (st_revision s') now (the (mu_value m)))) \<and>
        (\<forall>k i. (k, i) \<noteq> (mu_kind m, mu_id m) \<longrightarrow> Get s' k i = Get s k i)"
proof (cases res)
  case (Inl f)
  then show ?thesis using Apply_Inl[OF assms(1) assms(3)[unfolded Inl]] by auto
next
  case (Inr ev)
  obtain after eb db' where a: "ev = change_of (st_revision s + 1) now m (st_memory s) after"
    "s' = publish ev (s\<lparr>st_db := db',
        st_memory := applyMemoryLocked (stamped (st_revision s + 1) now m) (st_memory s),
        st_revision := st_revision s + 1, st_observed := now\<rparr>)"
    "mu_delete m \<or> mu_value m \<noteq> None" "\<forall>j. mu_kind m \<noteq> ENTITY_KIND_OTHER j"
    using Apply_Inr[OF assms(3)[unfolded Inr]] by metis
  have s': "st_revision s' = st_revision s + 1" "ev_revision ev = st_revision s + 1"
    "st_memory s' = applyMemoryLocked (stamped (st_revision s + 1) now m) (st_memory s)"
    by (simp_all add: a(1,2)) (simp add: change_of_def)
  show ?thesis
  proof (cases "mu_delete m")
    case True
    then show ?thesis
      using lookup_delete[OF a(4), where i = "mu_id m" and m = "st_memory s"]
      by (simp add: Inr s' Get_rules(1)[of s' _ _ s] Get_rules(2,3)[of s'] applyMemoryLocked_def stamped_def)
  next
    case False
    with a(3) obtain w where w: "mu_value m = Some w" by auto
    with False assms(2) have "kind_of (setRevision (st_revision s + 1) now w) = mu_kind m" by simp
    then show ?thesis
      using lookup_put[where i = "mu_id m" and v = "setRevision (st_revision s + 1) now w" and m = "st_memory s"]
        False w
      by (simp add: Inr s' Get_rules(1)[of s' _ _ s] Get_rules(2,3)[of s'] applyMemoryLocked_def stamped_def)
  qed
qed

text \<open>
  C18. \<open>Store.Apply\<close> is all or nothing. When it returns an error, the entities, the revision, the
  subscriptions and the contents of the database are as before. When it succeeds on a value of the
  mutation's kind, the revision goes up by one, the event carries it, looking the entity up gives the value with that revision (or
  ErrNotFound after a deletion), and every other entity is as before.
\<close>

theorem Apply_all_or_nothing:
  assumes "pebble_laws P cont" and "\<forall>w. mu_value m = Some w \<longrightarrow> mu_delete m \<or> kind_of w = mu_kind m"
    and "Apply P ctxErr now m s = (s', v, res)"
  shows "case res of
      Inl f \<Rightarrow> st_memory s' = st_memory s \<and> st_revision s' = st_revision s \<and> st_subs s' = st_subs s \<and>
        st_channels s' = st_channels s \<and> cont (st_db s') = cont (st_db s) \<and> (\<exists>e. f = Error e)
    | Inr ev \<Rightarrow> st_revision s' = st_revision s + 1 \<and> ev_revision ev = st_revision s' \<and>
        Get s' (mu_kind m) (mu_id m) = (if mu_delete m then Inl (Sentinel ErrNotFound)
          else Inr (setRevision (st_revision s') now (the (mu_value m)))) \<and>
        (\<forall>k i. (k, i) \<noteq> (mu_kind m, mu_id m) \<longrightarrow> Get s' k i = Get s k i)"
  by (rule Apply_effect[OF assms])

theorem Apply_all_or_nothing_witness:
  "Get (sample_run [(10, sample_upsert ''a'')]) ENTITY_KIND_NODE ''a''
     = Inr (setRevision 1 10 (NodeE (sample_node ''a'')))"
proof -
  obtain s' v res where app: "Apply memory_pebble None 10 (sample_upsert ''a'') fresh_store = (s', v, res)"
    by (cases "Apply memory_pebble None 10 (sample_upsert ''a'') fresh_store")
  have run: "s' = sample_run [(10, sample_upsert ''a'')]" using app by (simp add: sample_run_def)
  have "\<not> isl (snd (snd (Apply memory_pebble None 10 (sample_upsert ''a'') fresh_store)))" by code_simp
  then obtain ev where res: "res = Inr ev" using app by (cases res) auto
  show ?thesis
    using Apply_all_or_nothing[OF memory_pebble_laws(1) _ app]
    by (simp add: res run[symmetric]) (simp add: sample_upsert_def fresh_store_def)
qed

lemma Apply_succeeds_lemma:
  assumes "mutation_ok m" and "mu_id m \<noteq> []" and "\<forall>j. mu_kind m \<noteq> ENTITY_KIND_OTHER j"
    and "mu_value m = None \<longleftrightarrow> mu_delete m" and "\<And>ops. fst (db_commit P (st_db s) ops) = None"
  shows "\<exists>ev. snd (snd (Apply P None now m s)) = Inr ev"
proof -
  obtain kp cur err where look: "lookupLocked (st_memory s) (mu_kind m) (mu_id m) = (kp, cur, err)"
    by (cases "lookupLocked (st_memory s) (mu_kind m) (mu_id m)")
  have err: "\<not> (case err of None \<Rightarrow> False | Some e \<Rightarrow> \<not> errors_Is e ErrNotFound)"
    using look assms(3) by (cases "mu_kind m"; cases err) (auto dest: found_error)
  have val: "\<exists>j. marshal_value (mu_value (stamped r now m)) = Inr j" for r
  proof (cases "mu_value m")
    case (Some w)
    then have "json_ok (enc_entity (setRevision r now w))"
      using assms(1,4) by (simp add: mutation_ok_def json_ok_setRevision)
    then show ?thesis using Some assms(4) by (simp add: stamped_def marshal_value_def marshal_ok)
  qed (use assms(4) in \<open>simp add: stamped_def\<close>)
  have event: "\<exists>eb. marshal (enc_TopologyEvent (change_of r now m mem j)) = Inr eb" for r mem j
    using assms(1) marshal_ok[of "enc_TopologyEvent (change_of r now m mem j)"]
    by (simp add: change_of_def mutation_ok_def utf8_operations)
  obtain j where j: "marshal_value (mu_value (stamped (st_revision s + 1) now m)) = Inr j" using val by blast
  let ?ev = "change_of (st_revision s + 1) now m (st_memory s) j"
  obtain eb where eb: "marshal (enc_TopologyEvent ?ev) = Inr eb" using event by blast
  have nv: "\<not> (\<not> mu_delete m \<and> mu_value m = None)" using assms(4) by blast
  have ev: "\<lparr>ev_revision = st_revision s + 1, ev_observed_at = Some now, ev_entity_kind = mu_kind m,
     ev_entity_id = mu_id m, ev_domain_id = mu_domain_id m,
     ev_operation = (if mu_delete m then ''DELETE'' else ''UPSERT''), ev_source_peer_id = mu_peer_id m,
     ev_before_json = (case marshal_value cur of Inl e \<Rightarrow> None | Inr j \<Rightarrow> Some j),
     ev_after_json = (if mu_delete m then None else Some j), ev_reason = mu_reason m\<rparr> = ?ev"
    by (simp add: change_of_def look)
  have "snd (snd (case db_commit P (st_db s) ops of (Some e, db') \<Rightarrow> f e db' | (None, db') \<Rightarrow> (g db', h db', Inr ?ev))) = Inr ?ev"
    for ops f g h using assms(5)[of ops] by (cases "db_commit P (st_db s) ops") simp
  then show ?thesis
    unfolding Apply_def option.case look prod.case Let_def if_not_P[OF assms(2)] if_not_P[OF err] if_not_P[OF nv]
      stamped_def[symmetric] j sum.case ev eb by (rule exI)
qed

text \<open>
  \<open>Apply\<close> gives no error of its own: with a live context and a database that commits, every
  mutation of a supported kind with an identifier and a value that JSON can carry is applied.
\<close>

theorem Apply_succeeds:
  assumes "mutation_ok m" and "mu_id m \<noteq> []" and "\<forall>j. mu_kind m \<noteq> ENTITY_KIND_OTHER j"
    and "mu_value m = None \<longleftrightarrow> mu_delete m" and "\<And>ops. fst (db_commit P (st_db s) ops) = None"
  shows "\<exists>ev. snd (snd (Apply P None now m s)) = Inr ev"
  by (rule Apply_succeeds_lemma[OF assms])

theorem Apply_succeeds_witness: "\<exists>ev. snd (snd (Apply memory_pebble None 10 (sample_delete ''a'') fresh_store)) = Inr ev"
  by (rule Apply_succeeds[OF sample_mutations_ok(3)])
    (simp_all add: sample_delete_def sample_upsert_def memory_pebble_def)

lemma sample_upserts:
  assumes "n < 1000"
  shows "\<exists>M E. store_inv (\<lambda>c. c) 0 M E (sample_run (replicate n (10, sample_upsert ''a''))) \<and>
    unat (st_revision (sample_run (replicate n (10, sample_upsert ''a'')))) = n"
  using assms
proof (induction n)
  case 0
  then show ?case using fresh_store_inv by (auto simp: sample_run_def fresh_store_def)
next
  case (Suc n)
  let ?s = "sample_run (replicate n (10, sample_upsert ''a''))" and ?s' = "sample_run (replicate (Suc n) (10, sample_upsert ''a''))"
  obtain M E where inv: "store_inv (\<lambda>c. c) 0 M E ?s" and n: "unat (st_revision ?s) = n" using Suc by auto
  have "?s' = fst (Apply memory_pebble None 10 (sample_upsert ''a'') ?s)"
    by (simp add: sample_run_def replicate_append_same[symmetric] del: replicate.simps)
  moreover have "\<exists>ev. snd (snd (Apply memory_pebble None 10 (sample_upsert ''a'') ?s)) = Inr ev"
    by (rule Apply_succeeds_lemma[OF sample_mutations_ok(1)]) (simp_all add: sample_upsert_def memory_pebble_def)
  ultimately obtain v ev where app: "Apply memory_pebble None 10 (sample_upsert ''a'') ?s = (?s', v, Inr ev)"
    by (metis prod.collapse)
  have room: "Suc (unat (st_revision ?s)) < 2 ^ 64" using n Suc.prems by simp
  show ?case
    using Apply_store_inv[OF memory_pebble_laws(1) inv sample_mutations_ok(1) app room] n by auto
qed

section \<open>The invariant and recovery\<close>

text \<open>
  C3. Along every run of mutations, compactions, subscriptions and restarts the database holds
  exactly the documents of the entities in memory, the retained events and the revision counter;
  past revisions and their events never change, and the revision never goes down. The mutations of a run
  are well formed (\<open>mutation_ok\<close>): texts are UTF-8, as protobuf requires, the value can be written as JSON,
  and its kind and identifier are those of the mutation.
\<close>

theorem store_invariant:
  assumes "pebble_laws P cont" and "pebble_reads P" and "store_inv cont lo M E s"
    and "(store_step P)\<^sup>*\<^sup>* s s'"
  shows "\<exists>lo' M' E'. store_inv cont lo' M' E' s' \<and> lo \<le> lo' \<and> unat (st_revision s) \<le> unat (st_revision s') \<and>
    (\<forall>i \<le> unat (st_revision s). M' i = M i \<and> E' i = E i)"
  using store_steps_inv[OF assms] unfolding extends_history_def .

theorem store_invariant_witness:
  "\<exists>lo M E. store_inv (\<lambda>c. c) lo M E (sample_run sample_changes)"
  using store_invariant[OF memory_pebble_laws fresh_store_inv sample_run_reaches[OF sample_changes_ok]]
  by blast

text \<open>The decoder of a table and the identifier inside an entity.\<close>

fun decode_as :: "EntityKind \<Rightarrow> json \<Rightarrow> entity option" where
  "decode_as ENTITY_KIND_NODE j = map_option NodeE (dec_Node j)"
| "decode_as ENTITY_KIND_LINK j = map_option LinkE (dec_Link j)"
| "decode_as ENTITY_KIND_PREFIX j = map_option PrefixE (dec_Prefix j)"
| "decode_as ENTITY_KIND_PEER j = map_option PeerE (dec_Peer j)"
| "decode_as k j = map_option DomainE (dec_Domain j)"

fun inner_id :: "entity \<Rightarrow> string" where
  "inner_id (NodeE v) = node_id v"
| "inner_id (LinkE v) = link_id v"
| "inner_id (PrefixE v) = prefix_id v"
| "inner_id (PeerE v) = pr_id v"
| "inner_id (DomainE v) = dm_id v"

lemma fst_found: "fst (found kp wrap v) = kp"
  by (simp add: found_def split: option.split)

lemma entry_typed:
  assumes "on_disk c kp enc m" and "table_ok ident enc m" and "fmlookup c (kp @ i) = Some w"
    and "\<And>v. json_ok (enc v) \<Longrightarrow> dec (enc v) = Some v" and "\<And>j. decode_as k j = map_option wrap (dec j)"
    and "lookupLocked (st_memory s) k i = found kp wrap (fmlookup m i)" and "\<And>v. kind_of (wrap v) = k \<and> inner_id (wrap v) = ident v"
  shows "\<exists>v. unmarshal (decode_as k) w = Some v \<and> kind_of v = k \<and> inner_id v = i \<and> Get s k i = Inr v"
proof -
  obtain v where v: "fmlookup m i = Some v" "w = Doc (enc v)" using assms(1,3) by (auto simp: on_disk_def)
  then have "ident v = i" "json_ok (enc v)" using assms(2) by (auto simp: table_ok_def)
  then show ?thesis using v assms(4-7) by (simp add: unmarshal_def Get_def found_def)
qed

text \<open>
  C30. The database is well typed. Along every run, a value under the key of a table and an identifier is
  a document that decodes as an entity of the kind of that table, the entity carries the identifier of its
  key, and \<open>Get\<close> of that kind and identifier returns it; so no later start fails on a value it cannot decode
  or files an entity under another identifier. The mutations of a run are well formed (\<open>mutation_ok\<close>).
\<close>

theorem database_typed:
  assumes "pebble_laws P cont" and "pebble_reads P" and "store_inv cont lo M E s" and "(store_step P)\<^sup>*\<^sup>* s s'"
    and "\<forall>n. k \<noteq> ENTITY_KIND_OTHER n"
    and "fmlookup (cont (st_db s')) (fst (lookupLocked empty_memory k i) @ i) = Some w"
  shows "\<exists>v. unmarshal (decode_as k) w = Some v \<and> kind_of v = k \<and> inner_id v = i \<and> Get s' k i = Inr v"
proof -
  obtain lo' M' E' where "store_inv cont lo' M' E' s'"
    using store_steps_inv[OF assms(1-4)] by (auto simp: extends_history_def)
  then have ok: "memory_ok (st_memory s')" and disk: "memory_on_disk (cont (st_db s')) (st_memory s')"
    by (auto simp: store_inv_def Let_def)
  note tables = ok[unfolded memory_ok_def] disk[unfolded memory_on_disk_def]
  show ?thesis
  proof (cases k)
    case ENTITY_KIND_NODE
    then show ?thesis using tables assms(6) by (intro entry_typed[where wrap = NodeE, OF _ _ _ dec_enc_entities(1)]) (auto simp: fst_found)
  next
    case ENTITY_KIND_LINK
    then show ?thesis using tables assms(6) by (intro entry_typed[where wrap = LinkE, OF _ _ _ dec_enc_entities(2)]) (auto simp: fst_found)
  next
    case ENTITY_KIND_PREFIX
    then show ?thesis using tables assms(6) by (intro entry_typed[where wrap = PrefixE, OF _ _ _ dec_enc_entities(3)]) (auto simp: fst_found)
  next
    case ENTITY_KIND_PEER
    then show ?thesis using tables assms(6) by (intro entry_typed[where wrap = PeerE, OF _ _ _ dec_enc_entities(4)]) (auto simp: fst_found)
  next
    case ENTITY_KIND_UNSPECIFIED
    then show ?thesis using tables assms(6) by (intro entry_typed[where wrap = DomainE, OF _ _ _ dec_enc_entities(5)]) (auto simp: fst_found)
  qed (use assms(5) in simp)
qed

theorem database_typed_witness:
  "\<exists>v. unmarshal (decode_as ENTITY_KIND_NODE) (the (fmlookup (st_db (sample_run sample_changes)) ''node/b'')) = Some v \<and>
     kind_of v = ENTITY_KIND_NODE \<and> inner_id v = ''b'' \<and> Get (sample_run sample_changes) ENTITY_KIND_NODE ''b'' = Inr v"
proof (rule database_typed[OF memory_pebble_laws fresh_store_inv sample_run_reaches[OF sample_changes_ok]])
  have "fmlookup (st_db (sample_run sample_changes)) ''node/b'' \<noteq> None" by code_simp
  then show "fmlookup (st_db (sample_run sample_changes)) (fst (lookupLocked empty_memory ENTITY_KIND_NODE ''b'') @ ''b'') =
      Some (the (fmlookup (st_db (sample_run sample_changes)) ''node/b''))"
    by (auto simp: fst_found)
qed simp

text \<open>
  Recovery: opening the database of a store again gives a store with the same revision and the
  same entities, without subscriptions, and the invariant holds for it.
\<close>

theorem Open_recovers:
  assumes "pebble_laws P cont" and "pebble_reads P" and "store_inv cont lo M E s"
  shows "\<exists>s'. Open P (Inr (st_db s)) = Inr s' \<and> st_revision s' = st_revision s \<and>
    st_memory s' = st_memory s \<and> st_subs s' = fmempty \<and> store_inv cont lo M E s' \<and>
    (lo < unat (st_revision s) \<longrightarrow> st_observed s' = st_observed s)"
  using Open_eq[OF assms] store_inv_reopened[OF assms(3)] by simp

theorem Open_recovers_witness:
  "\<exists>s'. Open memory_pebble (Inr (st_db (sample_run sample_changes))) = Inr s' \<and> st_revision s' = 3"
proof -
  have "st_revision (sample_run sample_changes) = 3" by code_simp
  then show ?thesis
    using Open_recovers[OF memory_pebble_laws] sample_run_inv[OF sample_changes_ok] by metis
qed

section \<open>Older revisions\<close>

lemma SnapshotAt_memory:
  assumes "pebble_laws P cont" "pebble_reads P" "store_inv cont lo M E s" "iter_order it"
    and r: "0 < r" "r < st_revision s" and "lo \<le> unat r \<or> lo = unat (st_revision s)"
  shows "SnapshotAt P it s r = Inr (snapshot_of it r (marker_time lo E (unat r))
    (if lo \<le> unat r then M (unat r) else M (unat (st_revision s))))"
proof -
  have "0 < unat r" "unat r < unat (st_revision s)" using r by (simp_all add: word_less_nat_alt)
  from SnapshotAt_eq[OF assms(1-4) this assms(7)] show ?thesis by simp
qed

text \<open>
  C2. Time travel: however the store went on after the state \<open>s0\<close>, as long as the events after its
  revision are retained, \<open>SnapshotAt\<close> of that revision returns exactly the entities that
  \<open>Snapshot\<close> returned then. The mutations of a run are well formed (\<open>mutation_ok\<close>); a text that is not
  UTF-8, which no protobuf message carries, would come back changed.
\<close>

theorem SnapshotAt_time_travel:
  assumes "pebble_laws P cont" and "pebble_reads P" and "iter_order it"
    and "store_inv cont lo M E s0" and "(store_step P)\<^sup>*\<^sup>* s0 s1"
    and "0 < st_revision s0" and "st_revision s0 < st_revision s1"
    and "OldestRevision P s1 \<noteq> 0" and "OldestRevision P s1 \<le> st_revision s0 + 1"
  shows "\<exists>snap. SnapshotAt P it s1 (st_revision s0) = Inr snap \<and>
    snap\<lparr>sn_observed := st_observed s0\<rparr> = Store_Snapshot it s0"
proof -
  obtain lo' M' E' where h: "extends_history cont lo M E s0 lo' M' E' s1"
    using store_steps_inv[OF assms(1,2,4,5)] by blast
  then have inv: "store_inv cont lo' M' E' s1"
    and M: "M' (unat (st_revision s0)) = st_memory s0"
    using store_invD(2)[OF assms(4)] by (simp_all add: extends_history_def)
  note oldest = OldestRevision_eq[OF assms(1,2) inv]
  then have lt: "lo' < unat (st_revision s1)" using assms(8) by (metis (full_types))
  then have "unat (of_nat (Suc lo') :: u64) = Suc lo'"
    using u64_less[of "st_revision s1"] by (intro unat_of_nat_u64) linarith
  moreover have "unat (st_revision s0 + 1) = Suc (unat (st_revision s0))"
  proof (rule unat_Suc_u64)
    show "st_revision s0 \<noteq> - 1" using assms(7) by (metis word_n1_ge leD)
  qed
  ultimately have "lo' \<le> unat (st_revision s0)"
    using assms(9) lt oldest by (simp add: word_le_nat_alt)
  then show ?thesis
    using SnapshotAt_memory[OF assms(1,2) inv assms(3,6,7)] M
    by (simp add: snapshot_of_def Store_Snapshot_def)
qed

lemma parse_loop_code [code]:
  "parse_loop n [] = n"
  "parse_loop n (c # cs) =
     (if \<not> (CHR ''0'' \<le> c \<and> c \<le> CHR ''9'') then 0
      else let n1 = n * 10 + (of_char c - 48) in
        if 18446744073709551616 \<le> int n1 then 2 ^ 64 - 1 else parse_loop n1 cs)"
  by (simp_all add: Let_def)

theorem SnapshotAt_time_travel_witness:
  "\<exists>snap. SnapshotAt memory_pebble rev (sample_run sample_changes) 2 = Inr snap \<and>
     sn_nodes snap = sn_nodes (Store_Snapshot rev (sample_run (take 2 sample_changes))) \<and>
     length (sn_nodes snap) = 2"
proof -
  let ?s0 = "sample_run (take 2 sample_changes)" and ?s1 = "sample_run sample_changes"
  have ok: "list_all (\<lambda>(t, m). mutation_ok m) (take 2 sample_changes)" "length (take 2 sample_changes) < 1000"
    using sample_changes_ok by (simp_all add: sample_changes_def)
  obtain lo M E where inv: "store_inv (\<lambda>c. c) lo M E ?s0" using sample_run_inv[OF ok] by blast
  obtain v res where app: "Apply memory_pebble None 30 (sample_delete ''a'') ?s0 = (?s1, v, res)"
    by (cases "Apply memory_pebble None 30 (sample_delete ''a'') ?s0") (simp add: sample_run_def sample_changes_def)
  have rev: "st_revision ?s0 = 2" "st_revision ?s1 = 3" by code_simp+
  have steps: "(store_step memory_pebble)\<^sup>*\<^sup>* ?s0 ?s1"
    using live[OF apply_step[OF app sample_mutations_ok(3)]] rev by (simp add: r_into_rtranclp)
  have oldest: "OldestRevision memory_pebble ?s1 = 1" by code_simp
  have len: "length (sn_nodes (Store_Snapshot rev ?s0)) = 2" by code_simp
  obtain snap where snap: "SnapshotAt memory_pebble rev ?s1 (st_revision ?s0) = Inr snap"
    "snap\<lparr>sn_observed := st_observed ?s0\<rparr> = Store_Snapshot rev ?s0"
    using SnapshotAt_time_travel[OF memory_pebble_laws iter_order_rev inv steps] rev oldest by auto
  have "sn_nodes (snap\<lparr>sn_observed := st_observed ?s0\<rparr>) = sn_nodes snap" by simp
  then show ?thesis using snap len rev by (intro exI[of _ snap]) simp
qed

lemma SnapshotAt_refused:
  assumes "pebble_laws P cont" and "pebble_reads P" and "store_inv cont lo M E s"
    and "st_revision s < r \<or> 0 < r \<and> unat r < lo \<and> lo < unat (st_revision s)"
  shows "\<exists>e. SnapshotAt P it s r = Inl (Error e)"
proof (cases "st_revision s < r")
  case True
  then have "r \<noteq> 0" "r \<noteq> st_revision s" by auto
  then show ?thesis
    using True by (simp add: SnapshotAt_def Let_def Store_Snapshot_def snapshot_of_def)
next
  case False
  then have r: "0 < r" "unat r < lo" "lo < unat (st_revision s)" using assms(4) by auto
  then have ne: "r \<noteq> 0" "r \<noteq> st_revision s" by auto
  have "unat (of_nat (Suc lo) :: u64) = Suc lo"
    using r(3) u64_less[of "st_revision s"] by (intro unat_of_nat_u64) linarith
  moreover have "unat (r + 1) = Suc (unat r)"
    using r(2,3) u64_less[of "st_revision s"] by (simp add: unat_word_ariths)
  ultimately have "OldestRevision P s \<noteq> 0 \<and> r + 1 < OldestRevision P s"
    using r by (auto simp: OldestRevision_eq[OF assms(1-3)] word_less_nat_alt)
  then show ?thesis
    using False ne by (simp add: SnapshotAt_def Let_def Store_Snapshot_def snapshot_of_def)
qed

text \<open>
  Limits of \<open>SnapshotAt\<close>: a revision above the current one and, while some event is retained,
  a revision whose following event has been pruned are refused with an error.
\<close>

theorem SnapshotAt_refuses:
  assumes "pebble_laws P cont" and "pebble_reads P" and "store_inv cont lo M E s"
    and "st_revision s < r \<or> 0 < r \<and> unat r < lo \<and> lo < unat (st_revision s)"
  shows "\<exists>e. SnapshotAt P it s r = Inl (Error e)"
  by (rule SnapshotAt_refused[OF assms])

theorem SnapshotAt_refuses_witness: "\<exists>e. SnapshotAt memory_pebble id (sample_run sample_changes) 4 = Inl (Error e)"
proof -
  have "st_revision (sample_run sample_changes) < 4" by code_simp
  then show ?thesis
    using SnapshotAt_refuses[OF memory_pebble_laws] sample_run_inv[OF sample_changes_ok] by metis
qed

text \<open>
  When compaction has pruned every event, \<open>OldestRevision\<close> is 0 and the test for an expired
  revision is skipped: \<open>SnapshotAt\<close> answers with the current entities under the number of the old
  revision.
\<close>

theorem SnapshotAt_all_pruned:
  assumes "pebble_laws P cont" and "pebble_reads P" and "store_inv cont lo M E s" and "iter_order it"
    and "lo = unat (st_revision s)" and "0 < r" and "r < st_revision s"
  shows "SnapshotAt P it s r = Inr ((Store_Snapshot it s)\<lparr>sn_revision := r, sn_observed := zero_time\<rparr>)"
proof -
  have "\<not> lo \<le> unat r" using assms(5,7) by (simp add: word_less_nat_alt)
  then show ?thesis
    using SnapshotAt_memory[OF assms(1-4,6,7)] assms(5) store_invD(2)[OF assms(3)]
    by (simp add: marker_time_def Store_Snapshot_def snapshot_of_def)
qed

definition sample_pruned :: "contents Store" where
  "sample_pruned = fst (CompactHistory memory_pebble (\<lambda>i. None) 100 0 (sample_run sample_changes))"

lemma sample_pruned_inv:
  "\<exists>lo M E. store_inv (\<lambda>c. c) lo M E sample_pruned \<and> lo = unat (st_revision sample_pruned)"
proof -
  obtain lo M E where inv: "store_inv (\<lambda>c. c) lo M E (sample_run sample_changes)"
    using sample_run_inv[OF sample_changes_ok] by blast
  obtain err where "CompactHistory memory_pebble (\<lambda>i. None) 100 0 (sample_run sample_changes) = (sample_pruned, err)"
    by (cases "CompactHistory memory_pebble (\<lambda>i. None) 100 0 (sample_run sample_changes)")
      (simp add: sample_pruned_def)
  from CompactHistory_store_inv[OF memory_pebble_laws(1) inv this] obtain lo' where
    inv': "store_inv (\<lambda>c. c) lo' M E sample_pruned" by blast
  have "OldestRevision memory_pebble sample_pruned = 0" by code_simp
  moreover have "of_nat (Suc lo') \<noteq> (0 :: u64)" if "lo' < unat (st_revision sample_pruned)"
    using that u64_less[of "st_revision sample_pruned"] unat_of_nat_u64[of "Suc lo'"]
    by (metis Suc_lessI less_trans_Suc nat.distinct(1) not_less_eq unat_0)
  ultimately have "lo' = unat (st_revision sample_pruned)"
    using OldestRevision_eq[OF memory_pebble_laws inv'] store_invD(1)[OF inv'] by (metis le_neq_implies_less)
  then show ?thesis using inv' by blast
qed

theorem SnapshotAt_all_pruned_witness:
  "SnapshotAt memory_pebble id sample_pruned 1 =
     Inr ((Store_Snapshot id sample_pruned)\<lparr>sn_revision := 1, sn_observed := zero_time\<rparr>)"
proof -
  obtain lo M E where inv: "store_inv (\<lambda>c. c) lo M E sample_pruned" "lo = unat (st_revision sample_pruned)"
    using sample_pruned_inv by blast
  have "1 < st_revision sample_pruned" by code_simp
  then show ?thesis
    using SnapshotAt_all_pruned[OF memory_pebble_laws inv(1) iter_order_id(1) inv(2)] by simp
qed

text \<open>
  A snapshot does not depend on the order in which Go ranges over the five maps, and each of
  its lists is sorted by identifier.
\<close>

theorem Snapshot_deterministic:
  assumes "store_inv cont lo M E s" and "iter_order it"
  shows "Store_Snapshot it s = Store_Snapshot id s \<and> sorted (map node_id (sn_nodes (Store_Snapshot it s))) \<and>
    sorted (map link_id (sn_links (Store_Snapshot it s)))"
proof -
  have ok: "memory_ok (st_memory s)" by (rule store_invD(3)[OF assms(1)])
  have "snapshot_of it r t (st_memory s) = snapshot_of id r t (st_memory s)" for r t
    using ok unfolding memory_ok_def snapshot_of_def by (auto dest: sorted_range_values[OF _ assms(2)])
  then show ?thesis by (simp add: Store_Snapshot_def) (simp add: snapshot_of_def)
qed

theorem Snapshot_deterministic_witness:
  "Store_Snapshot rev (sample_run sample_changes) = Store_Snapshot id (sample_run sample_changes)"
  using Snapshot_deterministic[OF _ iter_order_rev] sample_run_inv[OF sample_changes_ok] by metis

section \<open>The event log\<close>

text \<open>
  \<open>Events\<close> returns the retained events with a revision above \<open>after\<close> and at most \<open>before\<close>
  (0 means no bound), without gaps and in the order of their revisions, cut off at the limit, which
  is 1000 when the requested limit is not between 1 and 10000.
\<close>

theorem Events_window:
  assumes "pebble_laws P cont" and "pebble_reads P" and "store_inv cont lo M E s" and "after \<noteq> - 1"
  shows "Events P s after before limit = Inr (map E
    (take (nat (if limit \<le> 0 \<or> limit > 10000 then 1000 else limit))
      [Suc (max lo (unat after))..<Suc (upper_revision (unat (st_revision s)) before)]))"
proof -
  have "max (Suc lo) (unat (after + 1)) = Suc (max lo (unat after))"
    by (simp add: unat_Suc_u64[OF assms(4)])
  then show ?thesis unfolding Events_eq[OF assms(1-3)] by (simp only:)
qed

theorem Events_window_witness:
  "\<exists>evs. Events memory_pebble (sample_run sample_changes) 1 0 0 = Inr evs \<and> map ev_revision evs = [2, 3]"
proof -
  obtain lo M E where inv: "store_inv (\<lambda>c. c) lo M E (sample_run sample_changes)"
    using sample_run_inv[OF sample_changes_ok] by blast
  have "(1 :: u64) \<noteq> - 1" by simp
  from Events_window[OF memory_pebble_laws inv this, of 0 0] obtain evs where
    "Events memory_pebble (sample_run sample_changes) 1 0 0 = Inr evs" by blast
  moreover have "(case Events memory_pebble (sample_run sample_changes) 1 0 0 of
      Inl e \<Rightarrow> False | Inr evs \<Rightarrow> map ev_revision evs = [2, 3])" by code_simp
  ultimately show ?thesis by simp
qed

section \<open>Compaction\<close>

definition older :: "time \<Rightarrow> TopologyEvent \<Rightarrow> bool" where
  "older cutoff e \<longleftrightarrow> AsTime (ev_observed_at e) < cutoff"

lemma age_scan_logged:
  assumes "\<And>i. ctx i = None"
  shows "age_scan ctx cutoff j (map (logged E) is) d =
    Inr (if takeWhile (\<lambda>i. older cutoff (E i)) is = [] then d
         else eventKey (of_nat (last (takeWhile (\<lambda>i. older cutoff (E i)) is))))"
proof (induction "is" arbitrary: j d)
  case (Cons i "is")
  then show ?case
    by (auto simp: assms logged_def unmarshal_def TopologyEvent_codec.dec_enc older_def)
qed simp

lemma dropWhile_upt:
  assumes "takeWhile p [a..<b] \<noteq> []"
  shows "dropWhile p [a..<b] = [Suc (last (takeWhile p [a..<b]))..<b]"
    and "a \<le> last (takeWhile p [a..<b])" and "last (takeWhile p [a..<b]) < b"
proof -
  let ?k = "length (takeWhile p [a..<b])"
  have k: "0 < ?k" "?k \<le> b - a" using assms length_takeWhile_le[of p "[a..<b]"] by auto
  have "takeWhile p [a..<b] = take ?k [a..<b]" by (metis takeWhile_eq_take)
  also have "\<dots> = [a..<a + ?k]" using k by (intro take_upt) linarith
  finally have t: "takeWhile p [a..<b] = [a..<a + ?k]" .
  then have last: "last (takeWhile p [a..<b]) = a + ?k - 1"
    using k by (metis add.commute last_upt less_add_same_cancel2)
  show "a \<le> last (takeWhile p [a..<b])" "last (takeWhile p [a..<b]) < b" using last k by linarith+
  have "dropWhile p [a..<b] = drop ?k [a..<b]" by (metis dropWhile_eq_drop)
  also have "\<dots> = [a + ?k..<b]" by simp
  finally show "dropWhile p [a..<b] = [Suc (last (takeWhile p [a..<b]))..<b]" using last k by simp
qed

text \<open>
  Compaction by age: when the size limit does not bind, a successful \<open>CompactHistory\<close> removes
  exactly the leading events observed before the cutoff, keeps every later event in order, and
  changes neither the entities nor the revision.
\<close>

theorem CompactHistory_age:
  assumes laws: "pebble_laws P cont" and reads: "pebble_reads P" and inv: "store_inv cont lo M E s"
    and ctx: "\<And>i. ctx i = None" and size: "maxBytes = 0 \<or> db_disk_usage P (st_db s) \<le> maxBytes"
    and run: "CompactHistory P ctx cutoff maxBytes s = (s', None)"
  shows "\<exists>lo'. store_inv cont lo' M E s' \<and> st_memory s' = st_memory s \<and> st_revision s' = st_revision s \<and>
    map E [Suc lo'..<Suc (unat (st_revision s))] =
      dropWhile (older cutoff) (map E [Suc lo..<Suc (unat (st_revision s))])"
proof -
  let ?n = "unat (st_revision s)" and ?p = "\<lambda>i. older cutoff (E i)"
  let ?old = "takeWhile ?p [Suc lo..<Suc ?n]"
  have iter: "db_iter P (st_db s) ''event/'' (prefixEnd ''event/'') = Inr (map (logged E) [Suc lo..<Suc ?n], None)"
    unfolding pebble_reads_iter[OF laws reads] all_events_range[OF store_invD(5)[OF inv] u64_less] ..
  have small: "\<not> (0 < maxBytes \<and> maxBytes < db_disk_usage P (st_db s))" using size by auto
  note u = run[unfolded CompactHistory_def iter sum.case prod.case age_scan_logged[of ctx, OF ctx] Let_def
      if_not_P[OF small]]
  show ?thesis
  proof (cases "?old = []")
    case True
    then have "dropWhile ?p [Suc lo..<Suc ?n] = [Suc lo..<Suc ?n]" by (metis takeWhile_dropWhile_id append_Nil)
    then show ?thesis
      using u True inv by (intro exI[of _ lo]) (simp add: dropWhile_map comp_def del: upt_Suc)
  next
    case False
    note d = dropWhile_upt[OF False]
    let ?b = "last ?old"
    have b: "lo < ?b" "?b \<le> ?n" using d(2,3) by linarith+
    have ne: "eventKey (of_nat ?b) \<noteq> []" by (simp add: eventKey_def)
    obtain derr db1 where del: "db_delete_range P (st_db s) ''event/'' (eventKey (of_nat ?b) @ [CHR 0x00]) = (derr, db1)"
      by (cases "db_delete_range P (st_db s) ''event/'' (eventKey (of_nat ?b) @ [CHR 0x00])")
    obtain cerr db2 where cmp: "db_compact P db1 ''event/'' (prefixEnd ''event/'') = (cerr, db2)"
      by (cases "db_compact P db1 ''event/'' (prefixEnd ''event/'')")
    have "derr = None" and s': "s' = s\<lparr>st_db := db2\<rparr>"
      using u False ne del cmp by (auto split: option.splits simp del: upt_Suc)
    then have "cont db2 = fmfilter (\<lambda>k. \<not> (''event/'' \<le> k \<and> k < eventKey (of_nat ?b) @ [CHR 0x00])) (cont (st_db s))"
      using pebble_delete_range[OF laws del] pebble_compact[OF laws cmp] by simp
    from prune_inv[OF inv b this] have "store_inv cont ?b M E s'" by (simp add: s')
    moreover have "map E [Suc ?b..<Suc ?n] = dropWhile (older cutoff) (map E [Suc lo..<Suc ?n])"
      by (simp only: dropWhile_map comp_def d(1))
    ultimately show ?thesis by (intro exI[of _ ?b]) (simp add: s')
  qed
qed

theorem CompactHistory_age_witness:
  "\<exists>lo M E. store_inv (\<lambda>c. c) lo M E sample_pruned \<and> st_revision sample_pruned = 3"
proof -
  obtain lo M E where inv: "store_inv (\<lambda>c. c) lo M E (sample_run sample_changes)"
    using sample_run_inv[OF sample_changes_ok] by blast
  have "snd (CompactHistory memory_pebble (\<lambda>i. None) 100 0 (sample_run sample_changes)) = None" by code_simp
  then have run: "CompactHistory memory_pebble (\<lambda>i. None) 100 0 (sample_run sample_changes) = (sample_pruned, None)"
    by (metis prod.collapse sample_pruned_def)
  have "st_revision sample_pruned = 3" by code_simp
  then show ?thesis
    using CompactHistory_age[OF memory_pebble_laws inv _ _ run] by auto
qed

text \<open>
  When the database is above its size limit, the age cutoff has no effect: the key found by the
  scan for age is overwritten by the scan for size, so events older than the retention time survive
  whenever the size target is met before them.
\<close>

theorem CompactHistory_size_ignores_age:
  assumes "\<And>i. ctx i = None" and "pebble_laws P cont" and "pebble_reads P" and "store_inv cont lo M E s"
    and "lo < unat (st_revision s)" and "0 < maxBytes" and "maxBytes < db_disk_usage P (st_db s)"
  shows "CompactHistory P ctx cutoff maxBytes s = CompactHistory P ctx cutoff' maxBytes s"
proof -
  let ?n = "unat (st_revision s)"
  have iter: "db_iter P (st_db s) ''event/'' (prefixEnd ''event/'') = Inr (map (logged E) [Suc lo..<Suc ?n], None)"
    unfolding pebble_reads_iter[OF assms(2,3)] all_events_range[OF store_invD(5)[OF assms(4)] u64_less] ..
  let ?L = "map (logged E) [Suc lo..<Suc ?n]"
  have over: "size_scan P target acc ?L d = size_scan P target acc ?L d'" for target acc d d'
    using assms(5) by (simp add: upt_rec[of "Suc lo"] logged_def del: upt_Suc)
  obtain d d' where aged: "age_scan ctx cutoff 0 ?L [] = Inr d" "age_scan ctx cutoff' 0 ?L [] = Inr d'"
    unfolding age_scan_logged[of ctx, OF assms(1)] by blast
  have c: "0 < maxBytes \<and> maxBytes < db_disk_usage P (st_db s)" using assms(6,7) by blast
  show ?thesis
    unfolding CompactHistory_def iter sum.case prod.case aged Let_def if_P[OF c] over[of _ _ d d'] ..
qed

theorem CompactHistory_size_ignores_age_witness:
  "CompactHistory memory_pebble (\<lambda>i. None) 100 4 (sample_run sample_changes) =
     CompactHistory memory_pebble (\<lambda>i. None) 0 4 (sample_run sample_changes) \<and>
   OldestRevision memory_pebble (fst (CompactHistory memory_pebble (\<lambda>i. None) 100 4 (sample_run sample_changes))) = 2"
proof
  obtain lo M E where inv: "store_inv (\<lambda>c. c) lo M E (sample_run sample_changes)"
    using sample_run_inv[OF sample_changes_ok] by blast
  have "OldestRevision memory_pebble (sample_run sample_changes) = 1" by code_simp
  then have lt: "lo < unat (st_revision (sample_run sample_changes))"
    using OldestRevision_eq[OF memory_pebble_laws inv] by (metis zero_neq_one)
  have usage: "(4 :: u64) < db_disk_usage memory_pebble (st_db (sample_run sample_changes))" by code_simp
  show "CompactHistory memory_pebble (\<lambda>i. None) 100 4 (sample_run sample_changes) =
     CompactHistory memory_pebble (\<lambda>i. None) 0 4 (sample_run sample_changes)"
    by (rule CompactHistory_size_ignores_age[OF refl memory_pebble_laws inv lt _ usage]) simp
  show "OldestRevision memory_pebble
      (fst (CompactHistory memory_pebble (\<lambda>i. None) 100 4 (sample_run sample_changes))) = 2"
    by code_simp
qed

section \<open>Subscribers\<close>

text \<open>Every subscription has its own channel, and channel numbers are never used again.\<close>

definition subs_ok :: "'db Store \<Rightarrow> bool" where
  "subs_ok s \<longleftrightarrow> (\<forall>i c. fmlookup (st_subs s) i = Some c \<longrightarrow> c = i \<and> fmlookup (st_channels s) i \<noteq> None) \<and>
     (\<forall>c. fmlookup (st_channels s) c \<noteq> None \<longrightarrow> c < st_nextSub s)"

definition deliver_to :: "TopologyEvent \<Rightarrow> channel \<Rightarrow> channel" where
  "deliver_to e ch = (if length (ch_buffer ch) < channel_capacity
     then ch\<lparr>ch_buffer := ch_buffer ch @ [e]\<rparr> else ch\<lparr>ch_closed := True\<rparr>)"

lemma deliver_other:
  assumes "subs_ok s" and "i \<noteq> c"
  shows "fmlookup (st_channels (deliver e i s)) c = fmlookup (st_channels s) c"
    and "fmlookup (st_subs (deliver e i s)) c = fmlookup (st_subs s) c"
  using assms by (auto simp: deliver_def subs_ok_def split: option.split)

lemma deliver_own:
  assumes "subs_ok s" and "fmlookup (st_subs s) c = Some c" and "fmlookup (st_channels s) c = Some ch"
  shows "fmlookup (st_channels (deliver e c s)) c = Some (deliver_to e ch)"
    and "fmlookup (st_subs (deliver e c s)) c =
      (if length (ch_buffer ch) < channel_capacity then Some c else None)"
  using assms by (auto simp: deliver_def deliver_to_def)

lemma deliver_subs_ok: "subs_ok s \<Longrightarrow> subs_ok (deliver e i s)"
  by (auto simp: deliver_def subs_ok_def split: option.splits)

lemma fold_deliver_other:
  assumes "subs_ok s" and "c \<notin> set ks"
  shows "fmlookup (st_channels (fold (deliver e) ks s)) c = fmlookup (st_channels s) c \<and>
    fmlookup (st_subs (fold (deliver e) ks s)) c = fmlookup (st_subs s) c"
  using assms by (induction ks arbitrary: s) (auto simp: deliver_other deliver_subs_ok)

lemma publish_channel:
  assumes ok: "subs_ok s" and ch: "fmlookup (st_channels s) c = Some ch"
  shows "fmlookup (st_channels (publish e s)) c = Some (if fmlookup (st_subs s) c = None then ch else deliver_to e ch)"
    and "fmlookup (st_subs (publish e s)) c = (if fmlookup (st_subs s) c = None then None
      else if length (ch_buffer ch) < channel_capacity then Some c else None)"
proof -
  have "fmlookup (st_channels (publish e s)) c = Some (if fmlookup (st_subs s) c = None then ch else deliver_to e ch) \<and>
    fmlookup (st_subs (publish e s)) c = (if fmlookup (st_subs s) c = None then None
      else if length (ch_buffer ch) < channel_capacity then Some c else None)"
  proof (cases "fmlookup (st_subs s) c")
    case None
    then have "c \<notin> set (keys_of (st_subs s))" by (simp add: fmlookup_dom'_iff)
    from fold_deliver_other[OF ok this, of e] show ?thesis using None ch by (simp add: publish_def)
  next
    case (Some d)
    with ok have d: "d = c" by (auto simp: subs_ok_def)
    have "c \<in> set (keys_of (st_subs s))" using Some by (simp add: fmlookup_dom'_iff)
    then obtain xs ys where split: "keys_of (st_subs s) = xs @ c # ys" by (meson split_list)
    have notin: "c \<notin> set xs" "c \<notin> set ys" using distinct_keys_of[of "st_subs s"] unfolding split by auto
    define s1 where "s1 = fold (deliver e) xs s"
    have ok1: "subs_ok s1" unfolding s1_def using ok
      by (induction xs arbitrary: s) (auto simp: deliver_subs_ok)
    have s1: "fmlookup (st_channels s1) c = Some ch" "fmlookup (st_subs s1) c = Some c"
      using fold_deliver_other[OF ok notin(1), of e] Some ch d by (simp_all add: s1_def)
    have "publish e s = fold (deliver e) ys (deliver e c s1)" by (simp add: publish_def split s1_def)
    then show ?thesis
      using fold_deliver_other[OF deliver_subs_ok[OF ok1] notin(2), of e] deliver_own[OF ok1 s1(2,1)] Some
      by simp
  qed
  then show "fmlookup (st_channels (publish e s)) c = Some (if fmlookup (st_subs s) c = None then ch else deliver_to e ch)"
    and "fmlookup (st_subs (publish e s)) c = (if fmlookup (st_subs s) c = None then None
      else if length (ch_buffer ch) < channel_capacity then Some c else None)" by blast+
qed

lemma publish_subs_ok: "subs_ok s \<Longrightarrow> subs_ok (publish e s)"
proof -
  have "subs_ok s \<Longrightarrow> subs_ok (fold (deliver e) ks s)" for ks
    by (induction ks arbitrary: s) (auto simp: deliver_subs_ok)
  then show "subs_ok s \<Longrightarrow> subs_ok (publish e s)" by (simp add: publish_def)
qed

inductive live_run :: "'db pebble \<Rightarrow> 'db Store \<Rightarrow> (nat \<times> TopologyEvent) list \<Rightarrow> 'db Store \<Rightarrow> bool" for P s where
  start: "live_run P s [] s"
| go_on: "live_run P s tr s1 \<Longrightarrow> live_step P s1 l s2 \<Longrightarrow>
    live_run P s (tr @ (case l of None \<Rightarrow> [] | Some x \<Rightarrow> [x])) s2"

definition received :: "nat \<Rightarrow> (nat \<times> TopologyEvent) list \<Rightarrow> TopologyEvent list" where
  "received c tr = map snd (filter (\<lambda>x. fst x = c) tr)"

definition stream_ok :: "nat \<Rightarrow> nat \<Rightarrow> (nat \<Rightarrow> TopologyEvent) \<Rightarrow> 'db Store \<Rightarrow> TopologyEvent list \<Rightarrow> bool" where
  "stream_ok c first E s R \<longleftrightarrow> subs_ok s \<and> first \<le> Suc (unat (st_revision s)) \<and>
     (\<exists>ch k. fmlookup (st_channels s) c = Some ch \<and> R @ ch_buffer ch = map E [first..<Suc k] \<and>
        k \<le> unat (st_revision s) \<and> (fmlookup (st_subs s) c \<noteq> None \<longrightarrow> k = unat (st_revision s)) \<and>
        (fmlookup (st_subs s) c = None \<longrightarrow> ch_closed ch))"

lemma stream_frame:
  assumes "stream_ok c first E s R" and "subs_ok s'" and "st_revision s' = st_revision s"
    and "fmlookup (st_channels s') c = fmlookup (st_channels s) c" "fmlookup (st_subs s') c = fmlookup (st_subs s) c"
  shows "stream_ok c first E s' R"
  using assms by (simp add: stream_ok_def)

lemma stream_channel: "stream_ok c first E s R \<Longrightarrow> c < st_nextSub s \<and> subs_ok s"
  by (auto simp: stream_ok_def subs_ok_def)

lemma stream_publish:
  assumes st: "stream_ok c first E s R" and app: "Apply P ctxErr now m s = (s', v, Inr ev)"
    and room: "Suc (unat (st_revision s)) < 2 ^ 64"
  shows "stream_ok c first (E(unat (st_revision s') := ev)) s' R"
proof -
  let ?n = "unat (st_revision s)"
  obtain db' mem where s': "s' = publish ev (s\<lparr>st_db := db', st_memory := mem,
      st_revision := st_revision s + 1, st_observed := now\<rparr>)" (is "_ = publish ev ?t")
    using Apply_Inr[OF app] by blast
  have n': "unat (st_revision s') = Suc ?n" using room by (simp add: s' unat_word_ariths)
  obtain ch k where ch: "fmlookup (st_channels s) c = Some ch" "R @ ch_buffer ch = map E [first..<Suc k]"
    "k \<le> ?n" "fmlookup (st_subs s) c \<noteq> None \<longrightarrow> k = ?n" "fmlookup (st_subs s) c = None \<longrightarrow> ch_closed ch"
    and ok: "subs_ok s" and first: "first \<le> Suc ?n"
    using st unfolding stream_ok_def by (elim conjE exE) (rule that)
  have ok_t: "subs_ok ?t" using ok by (simp add: subs_ok_def)
  have ch_t: "fmlookup (st_channels ?t) c = Some ch" using ch(1) by simp
  note pub = publish_channel[OF ok_t ch_t, of ev, folded s']
  have old: "map (E(Suc ?n := ev)) [first..<Suc k] = map E [first..<Suc k]" using ch(3) by simp
  have "R @ ch_buffer (deliver_to ev ch) = map (E(Suc ?n := ev)) [first..<Suc (Suc ?n)]"
    if "fmlookup (st_subs s) c \<noteq> None" "length (ch_buffer ch) < channel_capacity"
    using that ch(2,4) old first by (simp add: deliver_to_def)
  then show ?thesis
    unfolding stream_ok_def n'
    using pub ch(2-5) old first publish_subs_ok[OF ok_t, of ev] s'
    by (cases "fmlookup (st_subs s) c = None"; cases "length (ch_buffer ch) < channel_capacity")
      (auto simp: deliver_to_def le_SucI simp del: upt_Suc intro: exI[of _ k] exI[of _ "Suc ?n"])
qed

lemma subs_ok_channel:
  "subs_ok s \<Longrightarrow> fmlookup (st_channels s) d = Some x \<Longrightarrow> subs_ok (s\<lparr>st_channels := fmupd d y (st_channels s)\<rparr>)"
  unfolding subs_ok_def by auto

lemma subs_ok_drop: "subs_ok s \<Longrightarrow> subs_ok (s\<lparr>st_subs := fmdrop i (st_subs s)\<rparr>)"
  by (simp add: subs_ok_def)

lemma unsubscribe_stream:
  assumes st: "stream_ok c first E s R"
  shows "stream_ok c first E (unsubscribe i s) R"
proof (cases "fmlookup (st_subs s) i")
  case None
  then show ?thesis using st by (simp add: unsubscribe_def)
next
  case (Some d)
  have ok: "subs_ok s" using stream_channel[OF st] by blast
  then obtain ch where ch: "d = i" "fmlookup (st_channels s) i = Some ch"
    using Some unfolding subs_ok_def by blast
  let ?s' = "s\<lparr>st_subs := fmdrop i (st_subs s), st_channels := fmupd i (ch\<lparr>ch_closed := True\<rparr>) (st_channels s)\<rparr>"
  have eq: "unsubscribe i s = ?s'" using Some ch by (simp add: unsubscribe_def)
  have ok': "subs_ok ?s'"
    using subs_ok_channel[OF subs_ok_drop[OF ok], where d = i and x = ch] ch(2) by simp
  show ?thesis
  proof (cases "i = c")
    case False
    then show ?thesis unfolding eq by (intro stream_frame[OF st ok']) simp_all
  next
    case True
    then show ?thesis using st ok' ch(2) unfolding eq stream_ok_def by (simp del: upt_Suc) blast
  qed
qed

lemma receive_stream:
  assumes st: "stream_ok c first E s R" and rc: "receive d s = (s', Some e)"
  shows "stream_ok c first E s' (if d = c then R @ [e] else R)"
proof -
  obtain ch es where ch: "fmlookup (st_channels s) d = Some ch" "ch_buffer ch = e # es"
    and s': "s' = s\<lparr>st_channels := fmupd d (ch\<lparr>ch_buffer := es\<rparr>) (st_channels s)\<rparr>"
    using rc by (auto simp: receive_def split: option.splits list.splits)
  have ok': "subs_ok s'" unfolding s' using stream_channel[OF st] ch(1) subs_ok_channel by blast
  show ?thesis
  proof (cases "d = c")
    case False
    then show ?thesis using stream_frame[OF st ok'] by (simp add: s')
  next
    case True
    then show ?thesis using st ok' ch unfolding stream_ok_def by (simp add: s' del: upt_Suc)
  qed
qed

lemma Subscribe_stream:
  assumes "stream_ok c first E s R" and "Subscribe P after s = (s', res)"
  shows "stream_ok c first E s' R"
proof (rule stream_frame[OF assms(1)])
  have c: "c < st_nextSub s" and ok: "subs_ok s" using stream_channel[OF assms(1)] by auto
  show "subs_ok s'"
    using assms(2) ok by (auto simp: Subscribe_def subs_ok_def Let_def less_Suc_eq split: sum.splits if_splits)
  show "st_revision s' = st_revision s" "fmlookup (st_channels s') c = fmlookup (st_channels s) c"
    "fmlookup (st_subs s') c = fmlookup (st_subs s) c"
    using assms(2) c by (auto simp: Subscribe_def Let_def split: sum.splits if_splits)
qed

lemma live_step_stream:
  assumes laws: "pebble_laws P cont" and inv: "store_inv cont lo M E s" and st: "stream_ok c first E s R"
    and step: "live_step P s l s'"
  shows "\<exists>lo' M' E'. extends_history cont lo M E s lo' M' E' s' \<and>
    stream_ok c first E' s' (R @ received c (case l of None \<Rightarrow> [] | Some x \<Rightarrow> [x]))"
  using step
proof cases
  case (apply_step ctxErr now m v res)
  show ?thesis
  proof (cases res)
    case (Inl f)
    obtain db' where s': "s' = s\<lparr>st_db := db'\<rparr>" "cont db' = cont (st_db s)"
      using Apply_Inl[OF laws apply_step(2)[unfolded Inl]] by blast
    have "extends_history cont lo M E s lo M E s'"
      using frame_step[OF inv] by (simp add: extends_history_def s')
    moreover have "stream_ok c first E s' R"
      using stream_channel[OF st] by (intro stream_frame[OF st]) (simp_all add: s' subs_ok_def)
    ultimately show ?thesis using apply_step(1) by (auto simp: received_def)
  next
    case (Inr ev)
    note app = apply_step(2)[unfolded Inr]
    have "extends_history cont lo M E s lo (M(unat (st_revision s') := st_memory s'))
        (E(unat (st_revision s') := ev)) s'"
      using Apply_store_inv[OF laws inv apply_step(3) app apply_step(4)] by (simp add: extends_history_def)
    then show ?thesis
      using stream_publish[OF st app apply_step(4)] apply_step(1) by (auto simp: received_def)
  qed
next
  case (compact_step ctx cutoff maxBytes err)
  obtain lo' db' where "lo \<le> lo'" and s': "s' = s\<lparr>st_db := db'\<rparr>" and "store_inv cont lo' M E s'"
    using CompactHistory_store_inv[OF laws inv compact_step(2)] by blast
  then have "extends_history cont lo M E s lo' M E s'" by (simp add: extends_history_def)
  moreover have "stream_ok c first E s' R"
    using stream_channel[OF st] by (intro stream_frame[OF st]) (simp_all add: s' subs_ok_def)
  ultimately show ?thesis using compact_step(1) by (auto simp: received_def)
next
  case (subscribe_step after res)
  have "extends_history cont lo M E s lo M E s'"
    using frame_step[OF inv] Subscribe_frame[OF subscribe_step(2)] by (simp add: extends_history_def)
  then show ?thesis using Subscribe_stream[OF st subscribe_step(2)] subscribe_step(1) by (auto simp: received_def)
next
  case (unsubscribe_step i)
  have "extends_history cont lo M E s lo M E s'"
    using frame_step[OF inv] unsubscribe_frame[of i s] by (simp add: extends_history_def unsubscribe_step)
  then show ?thesis using unsubscribe_stream[OF st, of i] unsubscribe_step by (auto simp: received_def)
next
  case (receive_step d e)
  have "extends_history cont lo M E s lo M E s'"
    using frame_step[OF inv] receive_frame[OF receive_step(2)] by (simp add: extends_history_def)
  moreover have "(if d = c then R @ [e] else R) = R @ received c [(d, e)]" by (simp add: received_def)
  ultimately show ?thesis using receive_stream[OF st receive_step(2)] receive_step(1) by auto
qed

lemma Subscribe_starts_stream:
  assumes laws: "pebble_laws P cont" "pebble_reads P" and inv: "store_inv cont lo M E s" and ok: "subs_ok s"
    and after: "after \<le> st_revision s" "after \<noteq> - 1" and sub: "Subscribe P after s = (s', Inr c)"
  shows "stream_ok c (Suc (max lo (unat after))) E s' []"
proof -
  let ?n = "unat (st_revision s)" and ?first = "Suc (max lo (unat after))"
  have "Events P s after 0 10000 = Inr (map E (take 10000 [?first..<Suc ?n]))"
    using Events_eq[OF laws inv, of after 0 10000] by (simp add: unat_Suc_u64[OF after(2)] upper_revision_def del: upt_Suc)
  then have cap: "length (take 10000 [?first..<Suc ?n]) \<le> channel_capacity" and c: "c = st_nextSub s"
    and s': "s' = s\<lparr>st_nextSub := c + 1, st_subs := fmupd c c (st_subs s), st_channels :=
      fmupd c \<lparr>ch_buffer = map E (take 10000 [?first..<Suc ?n]), ch_closed = False\<rparr> (st_channels s)\<rparr>"
    using sub by (auto simp: Subscribe_def Let_def simp del: upt_Suc split: if_splits)
  have all: "take 10000 [?first..<Suc ?n] = [?first..<Suc ?n]"
    using cap by (simp add: channel_capacity_def del: upt_Suc)
  have "subs_ok s'" using ok by (auto simp: s' c subs_ok_def less_Suc_eq)
  moreover have "?first \<le> Suc ?n" using after(1) store_invD(1)[OF inv] by (simp add: word_le_nat_alt)
  ultimately show ?thesis by (auto simp: stream_ok_def s' all simp del: upt_Suc)
qed

text \<open>
  C12. What a subscriber sees: when \<open>Subscribe\<close> has returned for a revision that is not beyond the current
  one, then, whatever the store and the other subscribers do, the events that the subscriber has taken from
  its channel followed by those still buffered are consecutive events, in order, without gap or repetition.
  They begin with the first event after the requested revision that was retained when it subscribed, so
  events that had been pruned by then are missing, and they go up to the current revision as long as the
  store has not dropped the subscriber. Once it has, they are a prefix of that, and the channel is closed.
\<close>

theorem subscriber_stream:
  assumes "pebble_laws P cont" and "pebble_reads P" and "store_inv cont lo M E s" and "subs_ok s"
    and "after \<le> st_revision s" and "after \<noteq> - 1" and "Subscribe P after s = (s1, Inr c)"
    and "live_run P s1 tr s2"
  shows "\<exists>lo' M' E' ch k. store_inv cont lo' M' E' s2 \<and> (\<forall>i \<le> unat (st_revision s). E' i = E i) \<and>
    fmlookup (st_channels s2) c = Some ch \<and>
    received c tr @ ch_buffer ch = map E' [Suc (max lo (unat after))..<Suc k] \<and>
    k \<le> unat (st_revision s2) \<and> (fmlookup (st_subs s2) c \<noteq> None \<longrightarrow> k = unat (st_revision s2)) \<and>
    (fmlookup (st_subs s2) c = None \<longrightarrow> ch_closed ch)"
proof -
  have rev1: "st_revision s1 = st_revision s" using Subscribe_frame[OF assms(7)] by blast
  have inv1: "store_inv cont lo M E s1"
    using frame_step[OF assms(3)] Subscribe_frame[OF assms(7)] by simp
  have "\<exists>lo' M' E'. extends_history cont lo M E s1 lo' M' E' s2 \<and>
      stream_ok c (Suc (max lo (unat after))) E' s2 (received c tr)"
    using assms(8)
  proof (induction rule: live_run.induct)
    case start
    have "extends_history cont lo M E s1 lo M E s1" using inv1 by (simp add: extends_history_def)
    then show ?case using Subscribe_starts_stream[OF assms(1-7)] by (auto simp: received_def)
  next
    case (go_on tr s' l s'')
    then obtain lo' M' E' where h: "extends_history cont lo M E s1 lo' M' E' s'"
      and st: "stream_ok c (Suc (max lo (unat after))) E' s' (received c tr)" by blast
    then have "store_inv cont lo' M' E' s'" by (simp add: extends_history_def)
    from live_step_stream[OF assms(1) this st go_on(2)] obtain lo2 M2 E2 where
      "extends_history cont lo' M' E' s' lo2 M2 E2 s''"
      "stream_ok c (Suc (max lo (unat after))) E2 s'' (received c tr @ received c (case l of None \<Rightarrow> [] | Some x \<Rightarrow> [x]))"
      by blast
    moreover have "received c (tr @ ys) = received c tr @ received c ys" for ys by (simp add: received_def)
    ultimately show ?case using extends_history_trans[OF h] by metis
  qed
  then obtain lo' M' E' where "store_inv cont lo' M' E' s2" "\<forall>i \<le> unat (st_revision s). M' i = M i \<and> E' i = E i"
    and "stream_ok c (Suc (max lo (unat after))) E' s2 (received c tr)"
    unfolding extends_history_def rev1 by blast
  then show ?thesis
    unfolding stream_ok_def by (intro exI[of _ lo'] exI[of _ M'] exI[of _ E']) (simp del: upt_Suc)
qed

lemma fresh_store_subs: "subs_ok fresh_store"
  by (simp add: subs_ok_def fresh_store_def)

theorem subscriber_stream_witness:
  "\<exists>s1 s2 ev. Subscribe memory_pebble 0 fresh_store = (s1, Inr 0) \<and>
     live_run memory_pebble s1 [(0, ev)] s2 \<and> ev_revision ev = 1 \<and> unat (st_revision s2) = 1"
proof -
  let ?m = "sample_upsert ''a''"
  have sub: "Subscribe memory_pebble 0 fresh_store = (fst (Subscribe memory_pebble 0 fresh_store), Inr 0)"
    by code_simp
  define s1 where "s1 = fst (Subscribe memory_pebble 0 fresh_store)"
  define s2 where "s2 = fst (Apply memory_pebble None 10 ?m s1)"
  define s3 where "s3 = fst (receive 0 s2)"
  obtain v res where app: "Apply memory_pebble None 10 ?m s1 = (s2, v, res)"
    unfolding s2_def by (metis prod.collapse)
  have "(case snd (receive 0 s2) of None \<Rightarrow> False | Some ev \<Rightarrow> ev_revision ev = 1)"
    unfolding s2_def s1_def by code_simp
  then obtain ev where "snd (receive 0 s2) = Some ev" and ev: "ev_revision ev = 1"
    by (auto split: option.splits)
  then have rc: "receive 0 s2 = (s3, Some ev)" by (simp add: s3_def prod_eq_iff)
  have rev: "st_revision s1 = 0" "st_revision s3 = 1" unfolding s3_def s2_def s1_def by code_simp+
  have run: "live_run memory_pebble s1 [(0, ev)] s3"
    using go_on[OF go_on[OF start apply_step[OF app sample_mutations_ok(1)]] receive_step[OF rc]] rev by simp
  from subscriber_stream[OF memory_pebble_laws fresh_store_inv fresh_store_subs _ _ sub[folded s1_def] run]
  have "fmlookup (st_channels s3) 0 \<noteq> None" by (auto simp: fresh_store_def)
  then show ?thesis using sub s1_def run ev rev by (intro exI[of _ s1] exI[of _ s3] exI[of _ ev]) simp
qed

text \<open>
  \<open>Subscribe\<close> replays history into a channel of 256 slots that nobody reads yet, while it holds
  the store's lock: when more than 256 retained events follow the requested revision, it never
  returns.
\<close>

theorem Subscribe_blocks:
  assumes "pebble_laws P cont" and "pebble_reads P" and "store_inv cont lo M E s" and "after \<noteq> - 1"
    and "max lo (unat after) + 256 < unat (st_revision s)"
  shows "Subscribe P after s = (s, Inl Hang)"
proof -
  have "Events P s after 0 10000 = Inr (map E (take 10000 [Suc (max lo (unat after))..<Suc (unat (st_revision s))]))"
    using Events_eq[OF assms(1-3), of after 0 10000]
    by (simp add: unat_Suc_u64[OF assms(4)] upper_revision_def del: upt_Suc)
  moreover have "\<not> min (unat (st_revision s) - max lo (unat after)) 10000 \<le> 256" using assms(5) by linarith
  ultimately show ?thesis by (simp add: Subscribe_def channel_capacity_def del: upt_Suc)
qed

theorem Subscribe_blocks_witness:
  "\<exists>s. Subscribe memory_pebble 0 s = (s, Inl Hang) \<and> unat (st_revision s) = 257"
proof -
  obtain M E where inv: "store_inv (\<lambda>c. c) 0 M E (sample_run (replicate 257 (10, sample_upsert ''a'')))"
    and n: "unat (st_revision (sample_run (replicate 257 (10, sample_upsert ''a'')))) = 257"
    using sample_upserts[of 257] by auto
  have "(0 :: u64) \<noteq> - 1" by simp
  from Subscribe_blocks[OF memory_pebble_laws inv this] n show ?thesis by auto
qed

end
