(* ===== verification/Reconcile.thy ===== *)
theory Reconcile
  imports Store_Theorems
begin

text \<open>
  The reconciler of \<open>internal/topology/reconcile.go\<close>. Several peers may advertise the same entity;
  the reconciler keeps the latest advertisement of every peer per entity, merges them in the order of
  the peers' preference and writes the canonical entity to the store. The order in which Go ranges
  over the advertisements of an entity is an argument.
\<close>

section \<open>State\<close>

record Advertisement =
  ad_kind :: EntityKind
  ad_id :: string
  ad_domain_id :: string
  ad_peer_id :: string
  ad_preference :: u32
  ad_withdraw :: bool
  ad_value :: "entity option"

record 'db Reconciler =
  rc_store :: "'db Store"
  rc_sources :: "Advertisement gomap gomap"

definition NewReconciler :: "'db Store \<Rightarrow> 'db Reconciler" where
  "NewReconciler s = \<lparr>rc_store = s, rc_sources = fmempty\<rparr>"

definition sourceKey :: "EntityKind \<Rightarrow> string \<Rightarrow> string" where
  "sourceKey kind i = decimal (EntityKind_number kind) @ ''/'' @ i"

section \<open>Merging\<close>

definition mergeString ::
  "string \<Rightarrow> string \<Rightarrow> string \<Rightarrow> EntityMeta \<Rightarrow> string \<Rightarrow> string \<Rightarrow> string \<times> EntityMeta" where
  "mergeString field selected other meta selectedPeer otherPeer =
     (if selected = [] then (other, meta)
      else if other \<noteq> [] \<and> selected \<noteq> other
      then (selected, meta\<lparr>em_conflicts := em_conflicts meta @
              [\<lparr>cf_field = field, cf_selected_value = selected, cf_selected_peer_id = selectedPeer,
                cf_rejected_value = other, cf_rejected_peer_id = otherPeer\<rparr>]\<rparr>)
      else (selected, meta))"

definition mergeUint64 ::
  "string \<Rightarrow> u64 \<Rightarrow> u64 \<Rightarrow> EntityMeta \<Rightarrow> string \<Rightarrow> string \<Rightarrow> u64 \<times> EntityMeta" where
  "mergeUint64 field selected other meta selectedPeer otherPeer =
     (if selected = 0 then (other, meta)
      else if other \<noteq> 0 \<and> selected \<noteq> other
      then (selected, meta\<lparr>em_conflicts := em_conflicts meta @
              [\<lparr>cf_field = field, cf_selected_value = Sprint_u64 selected, cf_selected_peer_id = selectedPeer,
                cf_rejected_value = Sprint_u64 other, cf_rejected_peer_id = otherPeer\<rparr>]\<rparr>)
      else (selected, meta))"

definition tlv_key :: "RawTlv \<Rightarrow> string" where
  "tlv_key v = tlv_registry v @ ''/'' @ decimal (unat (tlv_type v)) @ ''/'' @ tlv_value v"

definition add_tlv :: "RawTlv \<Rightarrow> RawTlv list \<times> string set \<Rightarrow> RawTlv list \<times> string set" where
  "add_tlv v st = (case st of (selected, seen) \<Rightarrow>
     if tlv_key v \<notin> seen then (selected @ [v], insert (tlv_key v) seen) else (selected, seen))"

definition mergeTLVs :: "RawTlv list \<Rightarrow> RawTlv list \<Rightarrow> RawTlv list" where
  "mergeTLVs selected other = fst (fold add_tlv other (selected, set (map tlv_key selected)))"

definition meta_or_new :: "EntityMeta option \<Rightarrow> EntityMeta" where
  "meta_or_new m = (case m of None \<Rightarrow> zero_EntityMeta | Some x \<Rightarrow> x)"

definition merge_tlvs_of :: "EntityMeta \<Rightarrow> EntityMeta option \<Rightarrow> EntityMeta" where
  "merge_tlvs_of m other = m\<lparr>em_decoded_tlvs := mergeTLVs (em_decoded_tlvs m) (GetDecodedTlvs other)\<rparr>"

definition merge_Node :: "Node \<Rightarrow> Node \<Rightarrow> string \<Rightarrow> string \<Rightarrow> Node" where
  "merge_Node a b sp op =
     (let (v1, m1) = mergeString ''name'' (nd_name a) (nd_name b) (meta_or_new (nd_meta a)) sp op;
          (v2, m2) = mergeString ''igp_router_id'' (nd_igp_router_id a) (nd_igp_router_id b) m1 sp op;
          (v3, m3) = mergeString ''bgp_router_id'' (nd_bgp_router_id a) (nd_bgp_router_id b) m2 sp op;
          (v4, m4) = mergeString ''ipv4_router_id'' (nd_ipv4_router_id a) (nd_ipv4_router_id b) m3 sp op;
          (v5, m5) = mergeString ''ipv6_router_id'' (nd_ipv6_router_id a) (nd_ipv6_router_id b) m4 sp op;
          (v6, m6) = mergeString ''area_id'' (nd_area_id a) (nd_area_id b) m5 sp op
      in a\<lparr>nd_name := v1, nd_igp_router_id := v2, nd_bgp_router_id := v3, nd_ipv4_router_id := v4,
           nd_ipv6_router_id := v5, nd_area_id := v6, nd_meta := Some (merge_tlvs_of m6 (nd_meta b))\<rparr>)"

definition merge_Link :: "Link \<Rightarrow> Link \<Rightarrow> string \<Rightarrow> string \<Rightarrow> Link" where
  "merge_Link a b sp op =
     (let (v1, m1) = mergeString ''local_address'' (lk_local_address a) (lk_local_address b) (meta_or_new (lk_meta a)) sp op;
          (v2, m2) = mergeString ''remote_address'' (lk_remote_address a) (lk_remote_address b) m1 sp op;
          (v3, m3) = mergeString ''local_ipv4_address'' (lk_local_ipv4_address a) (lk_local_ipv4_address b) m2 sp op;
          (v4, m4) = mergeString ''remote_ipv4_address'' (lk_remote_ipv4_address a) (lk_remote_ipv4_address b) m3 sp op;
          (v5, m5) = mergeString ''local_ipv6_address'' (lk_local_ipv6_address a) (lk_local_ipv6_address b) m4 sp op;
          (v6, m6) = mergeString ''remote_ipv6_address'' (lk_remote_ipv6_address a) (lk_remote_ipv6_address b) m5 sp op;
          (v7, m7) = mergeUint64 ''igp_metric'' (lk_igp_metric a) (lk_igp_metric b) m6 sp op;
          (v8, m8) = mergeUint64 ''te_metric'' (lk_te_metric a) (lk_te_metric b) m7 sp op;
          (v9, m9) = mergeUint64 ''delay_microseconds'' (lk_delay_microseconds a) (lk_delay_microseconds b) m8 sp op
      in a\<lparr>lk_local_address := v1, lk_remote_address := v2, lk_local_ipv4_address := v3,
           lk_remote_ipv4_address := v4, lk_local_ipv6_address := v5, lk_remote_ipv6_address := v6,
           lk_igp_metric := v7, lk_te_metric := v8, lk_delay_microseconds := v9,
           lk_meta := Some (merge_tlvs_of m9 (lk_meta b))\<rparr>)"

definition merge_Prefix :: "Prefix \<Rightarrow> Prefix \<Rightarrow> string \<Rightarrow> string \<Rightarrow> Prefix" where
  "merge_Prefix a b sp op =
     (let (v1, m1) = mergeUint64 ''metric'' (px_metric a) (px_metric b) (meta_or_new (px_meta a)) sp op;
          (v2, m2) = mergeString ''forwarding_address'' (px_forwarding_address a) (px_forwarding_address b) m1 sp op
      in a\<lparr>px_metric := v1, px_forwarding_address := v2, px_meta := Some (merge_tlvs_of m2 (px_meta b))\<rparr>)"

text \<open>A value of another type than the selected one is left out of the merge.\<close>

definition mergeEntity :: "entity \<Rightarrow> entity \<Rightarrow> string \<Rightarrow> string \<Rightarrow> entity" where
  "mergeEntity selected other sp op = (case selected of
     NodeE a \<Rightarrow> (case other of NodeE b \<Rightarrow> NodeE (merge_Node a b sp op) | _ \<Rightarrow> selected)
   | LinkE a \<Rightarrow> (case other of LinkE b \<Rightarrow> LinkE (merge_Link a b sp op) | _ \<Rightarrow> selected)
   | PrefixE a \<Rightarrow> (case other of PrefixE b \<Rightarrow> PrefixE (merge_Prefix a b sp op) | _ \<Rightarrow> selected)
   | _ \<Rightarrow> selected)"

definition setSources :: "string list \<Rightarrow> entity \<Rightarrow> entity" where
  "setSources ids v = (case v of
     NodeE x \<Rightarrow> NodeE (x\<lparr>nd_meta := Some ((meta_or_new (nd_meta x))\<lparr>em_source_peer_ids := ids\<rparr>)\<rparr>)
   | LinkE x \<Rightarrow> LinkE (x\<lparr>lk_meta := Some ((meta_or_new (lk_meta x))\<lparr>em_source_peer_ids := ids\<rparr>)\<rparr>)
   | PrefixE x \<Rightarrow> PrefixE (x\<lparr>px_meta := Some ((meta_or_new (px_meta x))\<lparr>em_source_peer_ids := ids\<rparr>)\<rparr>)
   | _ \<Rightarrow> v)"

section \<open>Operations\<close>

text \<open>Preference descending, then peer identifier ascending.\<close>

definition preference_key :: "Advertisement \<Rightarrow> int \<times> string" where
  "preference_key a = (- uint (ad_preference a), ad_peer_id a)"

definition source_value :: "Advertisement \<Rightarrow> entity" where
  "source_value a = the (ad_value a)"

definition canonical :: "Advertisement list \<Rightarrow> entity" where
  "canonical ordered = setSources (map ad_peer_id ordered)
     (fold (\<lambda>source c. mergeEntity c (source_value source) (ad_peer_id (hd ordered)) (ad_peer_id source))
        (tl ordered) (source_value (hd ordered)))"

definition Reconciler_Apply ::
  "'db pebble \<Rightarrow> (string list \<Rightarrow> string list) \<Rightarrow> go_error option \<Rightarrow> time \<Rightarrow> Advertisement \<Rightarrow> 'db Reconciler
    \<Rightarrow> 'db Reconciler \<times> TopologyEvent result" where
  "Reconciler_Apply P it ctxErr now a r =
     (if ad_id a = [] \<or> ad_peer_id a = []
      then (r, Inl (Error (New ''advertisement id and peer id are required'')))
      else if \<not> ad_withdraw a \<and> ad_value a = None
      then (r, Inl (Error (New ''advertisement value is required'')))
      else let key = sourceKey (ad_kind a) (ad_id a);
               sources0 = (case fmlookup (rc_sources r) key of None \<Rightarrow> fmempty | Some m \<Rightarrow> m);
               sources = (if ad_withdraw a then fmdrop (ad_peer_id a) sources0
                          else fmupd (ad_peer_id a) a sources0)
      in if sources = fmempty
         then (case Apply P ctxErr now \<lparr>mu_kind = ad_kind a, mu_id = ad_id a, mu_domain_id = ad_domain_id a,
                    mu_peer_id = ad_peer_id a, mu_reason = ''last source withdrawn'', mu_delete = True,
                    mu_value = None\<rparr> (rc_store r) of
               (s', v, res) \<Rightarrow> (\<lparr>rc_store = s', rc_sources = fmdrop key (rc_sources r)\<rparr>, res))
         else let ordered = sort_key preference_key (range_values it sources) in
           (case Apply P ctxErr now \<lparr>mu_kind = ad_kind a, mu_id = ad_id a, mu_domain_id = ad_domain_id a,
                    mu_peer_id = ad_peer_id a, mu_reason = ''canonical topology reconciled'', mu_delete = False,
                    mu_value = Some (canonical ordered)\<rparr> (rc_store r) of
               (s', v, res) \<Rightarrow> (\<lparr>rc_store = s', rc_sources = fmupd key sources (rc_sources r)\<rparr>, res)))"

text \<open>
  \<open>MarkPeerStale\<close> writes through \<open>x.Meta\<close> without a nil check, so a stored value without metadata
  is a panic; the sources marked before it stay marked.
\<close>

definition mark_stale :: "entity \<Rightarrow> entity option" where
  "mark_stale v = (case v of
     NodeE x \<Rightarrow> map_option (\<lambda>m. NodeE (x\<lparr>nd_meta := Some (m\<lparr>em_freshness := FRESHNESS_STALE_SOURCE_LOST\<rparr>)\<rparr>)) (nd_meta x)
   | LinkE x \<Rightarrow> map_option (\<lambda>m. LinkE (x\<lparr>lk_meta := Some (m\<lparr>em_freshness := FRESHNESS_STALE_SOURCE_LOST\<rparr>)\<rparr>)) (lk_meta x)
   | PrefixE x \<Rightarrow> map_option (\<lambda>m. PrefixE (x\<lparr>px_meta := Some (m\<lparr>em_freshness := FRESHNESS_STALE_SOURCE_LOST\<rparr>)\<rparr>)) (px_meta x)
   | _ \<Rightarrow> Some v)"

fun mark_keys ::
  "string \<Rightarrow> string list \<Rightarrow> Advertisement gomap gomap \<Rightarrow> Advertisement gomap gomap \<times> unit result" where
  "mark_keys peerID [] srcs = (srcs, Inr ())"
| "mark_keys peerID (k # ks) srcs =
     (case fmlookup srcs k of None \<Rightarrow> mark_keys peerID ks srcs
      | Some m \<Rightarrow> (case fmlookup m peerID of None \<Rightarrow> mark_keys peerID ks srcs
         | Some a \<Rightarrow> (case mark_stale (source_value a) of None \<Rightarrow> (srcs, Inl Panic)
            | Some v \<Rightarrow> mark_keys peerID ks (fmupd k (fmupd peerID (a\<lparr>ad_value := Some v\<rparr>) m) srcs))))"

definition MarkPeerStale ::
  "(string list \<Rightarrow> string list) \<Rightarrow> string \<Rightarrow> 'db Reconciler \<Rightarrow> 'db Reconciler \<times> unit result" where
  "MarkPeerStale it peerID r = (case mark_keys peerID (it (keys_of (rc_sources r))) (rc_sources r) of
     (srcs, res) \<Rightarrow> (r\<lparr>rc_sources := srcs\<rparr>, res))"

end
