(* ===== verification/Reconcile_Theorems.thy ===== *)
theory Reconcile_Theorems
  imports Reconcile
begin

text \<open>
  Properties of the reconciler: which value a merge selects, which conflicts it records, how it
  merges TLVs, and what the store holds after an advertisement or a withdrawal.
\<close>

section \<open>Values selected by a merge\<close>

fun first_set :: "'a \<Rightarrow> 'a list \<Rightarrow> 'a" where
  "first_set z [] = z"
| "first_set z (x # xs) = (if x = z then first_set z xs else x)"

definition merge_value :: "'a \<Rightarrow> 'a \<Rightarrow> 'a \<Rightarrow> 'a" where
  "merge_value z a b = (if a = z then b else a)"

lemma fst_mergeString [simp]: "fst (mergeString f a b m sp op) = merge_value [] a b"
  by (simp add: mergeString_def merge_value_def)

lemma fst_mergeUint64 [simp]: "fst (mergeUint64 f a b m sp op) = merge_value 0 a b"
  by (simp add: mergeUint64_def merge_value_def)

lemma first_set_merge: "first_set z (merge_value z a b # xs) = first_set z (a # b # xs)"
  by (simp add: merge_value_def)

text \<open>A field whose merge keeps the first value that is set: the fold over the sources selects it.\<close>

lemma fold_first_set:
  assumes "\<And>a b op. f (merge a b op) = merge_value z (f a) (f b)"
  shows "f (fold (\<lambda>s c. merge c (val s) (peer s)) ss a) = first_set z (map f (a # map val ss))"
proof (induction ss arbitrary: a)
  case (Cons s ss)
  have "f (fold (\<lambda>s c. merge c (val s) (peer s)) (s # ss) a) =
      first_set z (f (merge a (val s) (peer s)) # map f (map val ss))"
    using Cons.IH[of "merge a (val s) (peer s)"] by simp
  then show ?case using first_set_merge[of z "f a" "f (val s)" "map f (map val ss)"] by (simp add: assms)
qed simp

lemma fold_kept:
  assumes "\<And>a b op. f (merge a b op) = f a"
  shows "f (fold (\<lambda>s c. merge c (val s) (peer s)) ss a) = f a"
  by (induction ss arbitrary: a) (simp_all add: assms)

lemma merge_Node_fields:
  "nd_name (merge_Node a b sp op) = merge_value [] (nd_name a) (nd_name b)"
  "nd_igp_router_id (merge_Node a b sp op) = merge_value [] (nd_igp_router_id a) (nd_igp_router_id b)"
  "nd_bgp_router_id (merge_Node a b sp op) = merge_value [] (nd_bgp_router_id a) (nd_bgp_router_id b)"
  "nd_ipv4_router_id (merge_Node a b sp op) = merge_value [] (nd_ipv4_router_id a) (nd_ipv4_router_id b)"
  "nd_ipv6_router_id (merge_Node a b sp op) = merge_value [] (nd_ipv6_router_id a) (nd_ipv6_router_id b)"
  "nd_area_id (merge_Node a b sp op) = merge_value [] (nd_area_id a) (nd_area_id b)"
  "nd_protocol (merge_Node a b sp op) = nd_protocol a"
  "nd_autonomous_system (merge_Node a b sp op) = nd_autonomous_system a"
  by (simp_all add: merge_Node_def case_prod_beta Let_def)

lemma merge_Link_fields:
  "lk_igp_metric (merge_Link a b sp op) = merge_value 0 (lk_igp_metric a) (lk_igp_metric b)"
  "lk_te_metric (merge_Link a b sp op) = merge_value 0 (lk_te_metric a) (lk_te_metric b)"
  "lk_delay_microseconds (merge_Link a b sp op) = merge_value 0 (lk_delay_microseconds a) (lk_delay_microseconds b)"
  "lk_local_address (merge_Link a b sp op) = merge_value [] (lk_local_address a) (lk_local_address b)"
  "lk_remote_address (merge_Link a b sp op) = merge_value [] (lk_remote_address a) (lk_remote_address b)"
  "lk_local_node_id (merge_Link a b sp op) = lk_local_node_id a"
  "lk_remote_node_id (merge_Link a b sp op) = lk_remote_node_id a"
  "lk_reservable_bandwidth (merge_Link a b sp op) = lk_reservable_bandwidth a"
  by (simp_all add: merge_Link_def case_prod_beta Let_def)

lemma merge_Prefix_fields:
  "px_metric (merge_Prefix a b sp op) = merge_value 0 (px_metric a) (px_metric b)"
  "px_forwarding_address (merge_Prefix a b sp op) = merge_value [] (px_forwarding_address a) (px_forwarding_address b)"
  "px_prefix (merge_Prefix a b sp op) = px_prefix a"
  by (simp_all add: merge_Prefix_def case_prod_beta Let_def)

section \<open>The canonical entity\<close>

definition node_value :: "Advertisement \<Rightarrow> Node" where
  "node_value a = (case source_value a of NodeE n \<Rightarrow> n | _ \<Rightarrow> zero_Node)"

definition link_value :: "Advertisement \<Rightarrow> Link" where
  "link_value a = (case source_value a of LinkE l \<Rightarrow> l | _ \<Rightarrow> zero_Link)"

lemma fold_mergeEntity_node:
  assumes "\<forall>s\<in>set ss. source_value s = NodeE (node_value s)"
  shows "fold (\<lambda>s c. mergeEntity c (source_value s) sp (ad_peer_id s)) ss (NodeE a) =
    NodeE (fold (\<lambda>s c. merge_Node c (node_value s) sp (ad_peer_id s)) ss a)"
  using assms
proof (induction ss arbitrary: a)
  case (Cons s ss)
  then have "source_value s = NodeE (node_value s)" by simp
  then show ?case using Cons by (simp add: mergeEntity_def)
qed simp

lemma fold_mergeEntity_link:
  assumes "\<forall>s\<in>set ss. source_value s = LinkE (link_value s)"
  shows "fold (\<lambda>s c. mergeEntity c (source_value s) sp (ad_peer_id s)) ss (LinkE a) =
    LinkE (fold (\<lambda>s c. merge_Link c (link_value s) sp (ad_peer_id s)) ss a)"
  using assms
proof (induction ss arbitrary: a)
  case (Cons s ss)
  then have "source_value s = LinkE (link_value s)" by simp
  then show ?case using Cons by (simp add: mergeEntity_def)
qed simp

definition merged_node :: "Advertisement list \<Rightarrow> Node" where
  "merged_node ordered = fold (\<lambda>s c. merge_Node c (node_value s) (ad_peer_id (hd ordered)) (ad_peer_id s))
     (tl ordered) (node_value (hd ordered))"

definition merged_link :: "Advertisement list \<Rightarrow> Link" where
  "merged_link ordered = fold (\<lambda>s c. merge_Link c (link_value s) (ad_peer_id (hd ordered)) (ad_peer_id s))
     (tl ordered) (link_value (hd ordered))"

lemma canonical_node:
  assumes "ordered \<noteq> []" and "\<forall>s\<in>set ordered. source_value s = NodeE (node_value s)"
  shows "canonical ordered = setSources (map ad_peer_id ordered) (NodeE (merged_node ordered))"
  using assms by (cases ordered) (simp_all add: canonical_def merged_node_def fold_mergeEntity_node)

lemma canonical_link:
  assumes "ordered \<noteq> []" and "\<forall>s\<in>set ordered. source_value s = LinkE (link_value s)"
  shows "canonical ordered = setSources (map ad_peer_id ordered) (LinkE (merged_link ordered))"
  using assms by (cases ordered) (simp_all add: canonical_def merged_link_def fold_mergeEntity_link)

lemma merged_node_first:
  assumes "ordered \<noteq> []" and "\<And>a b sp op. f (merge_Node a b sp op) = merge_value z (f a) (f b)"
  shows "f (merged_node ordered) = first_set z (map (\<lambda>s. f (node_value s)) ordered)"
  using assms(1) fold_first_set[of f "\<lambda>a b op. merge_Node a b (ad_peer_id (hd ordered)) op" z node_value ad_peer_id,
      OF assms(2)]
  by (cases ordered) (simp_all add: merged_node_def comp_def)

lemma merged_link_first:
  assumes "ordered \<noteq> []" and "\<And>a b sp op. f (merge_Link a b sp op) = merge_value z (f a) (f b)"
  shows "f (merged_link ordered) = first_set z (map (\<lambda>s. f (link_value s)) ordered)"
  using assms(1) fold_first_set[of f "\<lambda>a b op. merge_Link a b (ad_peer_id (hd ordered)) op" z link_value ad_peer_id,
      OF assms(2)]
  by (cases ordered) (simp_all add: merged_link_def comp_def)

lemma merged_link_kept:
  assumes "ordered \<noteq> []" and "\<And>a b sp op. f (merge_Link a b sp op) = f a"
  shows "f (merged_link ordered) = f (link_value (hd ordered))"
  using fold_kept[of f "\<lambda>a b op. merge_Link a b (ad_peer_id (hd ordered)) op" link_value ad_peer_id, OF assms(2)]
  by (simp add: merged_link_def)

text \<open>
  The canonical node of several advertisements, most preferred first: each of the six merged
  names and router identifiers is the first non-empty one in the order of preference, and the source
  list names the peers in that order.
\<close>

theorem canonical_node_fields:
  assumes "ordered \<noteq> []" and "\<forall>s\<in>set ordered. source_value s = NodeE (node_value s)"
  shows "\<exists>c. canonical ordered = NodeE c \<and> GetSourcePeerIds (nd_meta c) = map ad_peer_id ordered \<and>
    nd_name c = first_set [] (map (\<lambda>s. nd_name (node_value s)) ordered) \<and>
    nd_igp_router_id c = first_set [] (map (\<lambda>s. nd_igp_router_id (node_value s)) ordered) \<and>
    nd_bgp_router_id c = first_set [] (map (\<lambda>s. nd_bgp_router_id (node_value s)) ordered) \<and>
    nd_ipv4_router_id c = first_set [] (map (\<lambda>s. nd_ipv4_router_id (node_value s)) ordered) \<and>
    nd_ipv6_router_id c = first_set [] (map (\<lambda>s. nd_ipv6_router_id (node_value s)) ordered) \<and>
    nd_area_id c = first_set [] (map (\<lambda>s. nd_area_id (node_value s)) ordered)"
  using merged_node_first[of ordered, OF assms(1) merge_Node_fields(1)]
    merged_node_first[of ordered, OF assms(1) merge_Node_fields(2)]
    merged_node_first[of ordered, OF assms(1) merge_Node_fields(3)]
    merged_node_first[of ordered, OF assms(1) merge_Node_fields(4)]
    merged_node_first[of ordered, OF assms(1) merge_Node_fields(5)]
    merged_node_first[of ordered, OF assms(1) merge_Node_fields(6)]
  by (simp add: canonical_node[OF assms] setSources_def GetSourcePeerIds_def)

definition sample_ad :: "string \<Rightarrow> u32 \<Rightarrow> entity \<Rightarrow> Advertisement" where
  "sample_ad peer pref v = \<lparr>ad_kind = kind_of v, ad_id = ident_of v, ad_domain_id = ''d'', ad_peer_id = peer,
     ad_preference = pref, ad_withdraw = False, ad_value = Some v\<rparr>"

definition named_node :: "string \<Rightarrow> Node" where
  "named_node n = (sample_node ''a'')\<lparr>nd_name := n\<rparr>"

theorem canonical_node_fields_witness:
  "\<exists>c. canonical [sample_ad ''p'' 9 (NodeE (named_node [])), sample_ad ''q'' 5 (NodeE (named_node ''r1''))] = NodeE c \<and>
     nd_name c = ''r1'' \<and> GetSourcePeerIds (nd_meta c) = [''p'', ''q'']"
proof -
  let ?o = "[sample_ad ''p'' 9 (NodeE (named_node [])), sample_ad ''q'' 5 (NodeE (named_node ''r1''))]"
  have "?o \<noteq> []" "\<forall>s\<in>set ?o. source_value s = NodeE (node_value s)"
    by (simp_all add: sample_ad_def source_value_def node_value_def)
  from canonical_node_fields[OF this] show ?thesis
    by (auto simp: sample_ad_def source_value_def node_value_def named_node_def)
qed

text \<open>
  The canonical link: the IGP, TE and delay metrics and the addresses are the first ones set in
  the order of preference; its end nodes and its bandwidth are those of the most preferred peer.
\<close>

theorem canonical_link_fields:
  assumes "ordered \<noteq> []" and "\<forall>s\<in>set ordered. source_value s = LinkE (link_value s)"
  shows "\<exists>c. canonical ordered = LinkE c \<and> GetSourcePeerIds (lk_meta c) = map ad_peer_id ordered \<and>
    lk_igp_metric c = first_set 0 (map (\<lambda>s. lk_igp_metric (link_value s)) ordered) \<and>
    lk_te_metric c = first_set 0 (map (\<lambda>s. lk_te_metric (link_value s)) ordered) \<and>
    lk_delay_microseconds c = first_set 0 (map (\<lambda>s. lk_delay_microseconds (link_value s)) ordered) \<and>
    lk_local_address c = first_set [] (map (\<lambda>s. lk_local_address (link_value s)) ordered) \<and>
    lk_remote_address c = first_set [] (map (\<lambda>s. lk_remote_address (link_value s)) ordered) \<and>
    lk_local_node_id c = lk_local_node_id (link_value (hd ordered)) \<and>
    lk_remote_node_id c = lk_remote_node_id (link_value (hd ordered)) \<and>
    lk_reservable_bandwidth c = lk_reservable_bandwidth (link_value (hd ordered))"
  using merged_link_first[of ordered, OF assms(1) merge_Link_fields(1)]
    merged_link_first[of ordered, OF assms(1) merge_Link_fields(2)]
    merged_link_first[of ordered, OF assms(1) merge_Link_fields(3)]
    merged_link_first[of ordered, OF assms(1) merge_Link_fields(4)]
    merged_link_first[of ordered, OF assms(1) merge_Link_fields(5)]
    merged_link_kept[of ordered, OF assms(1) merge_Link_fields(6)]
    merged_link_kept[of ordered, OF assms(1) merge_Link_fields(7)]
    merged_link_kept[of ordered, OF assms(1) merge_Link_fields(8)]
  by (simp add: canonical_link[OF assms] setSources_def GetSourcePeerIds_def)

theorem canonical_link_fields_witness:
  "\<exists>c. canonical [sample_ad ''p'' 9 (LinkE (sample_link ''ab'' ''a'' ''b'' 0 (Fin 7))),
       sample_ad ''q'' 5 (LinkE (sample_link ''ab'' ''a'' ''b'' 30 (Fin 8)))] = LinkE c \<and>
     lk_igp_metric c = 30 \<and> lk_reservable_bandwidth c = Fin 7"
proof -
  let ?o = "[sample_ad ''p'' 9 (LinkE (sample_link ''ab'' ''a'' ''b'' 0 (Fin 7))),
       sample_ad ''q'' 5 (LinkE (sample_link ''ab'' ''a'' ''b'' 30 (Fin 8)))]"
  have "?o \<noteq> []" "\<forall>s\<in>set ?o. source_value s = LinkE (link_value s)"
    by (simp_all add: sample_ad_def source_value_def link_value_def)
  from canonical_link_fields[OF this] show ?thesis
    by (auto simp: sample_ad_def source_value_def link_value_def sample_link_def)
qed

section \<open>Conflicts\<close>

definition string_conflict :: "string \<Rightarrow> string \<Rightarrow> string \<Rightarrow> string \<Rightarrow> string \<Rightarrow> Conflict list" where
  "string_conflict field a b sp op = (if a \<noteq> [] \<and> b \<noteq> [] \<and> a \<noteq> b
     then [\<lparr>cf_field = field, cf_selected_value = a, cf_selected_peer_id = sp, cf_rejected_value = b,
            cf_rejected_peer_id = op\<rparr>] else [])"

lemma snd_mergeString:
  "snd (mergeString f a b m sp op) = m\<lparr>em_conflicts := em_conflicts m @ string_conflict f a b sp op\<rparr>"
  by (simp add: mergeString_def string_conflict_def)

definition field_conflicts :: "string \<Rightarrow> EntityMeta option \<Rightarrow> Conflict list" where
  "field_conflicts f m = filter (\<lambda>c. cf_field c = f) (em_conflicts (meta_or_new m))"

lemma merge_Node_name_conflicts:
  "field_conflicts ''name'' (nd_meta (merge_Node a b sp op)) =
     field_conflicts ''name'' (nd_meta a) @ string_conflict ''name'' (nd_name a) (nd_name b) sp op"
  by (simp add: merge_Node_def case_prod_beta Let_def snd_mergeString field_conflicts_def meta_or_new_def
      merge_tlvs_of_def string_conflict_def)

lemma fold_name_conflicts:
  "field_conflicts ''name'' (nd_meta (fold (\<lambda>s c. merge_Node c (node_value s) sp (ad_peer_id s)) ss a)) =
     field_conflicts ''name'' (nd_meta a) @ concat (map (\<lambda>s. string_conflict ''name''
       (first_set [] (nd_name a # map (\<lambda>s. nd_name (node_value s)) ss)) (nd_name (node_value s)) sp (ad_peer_id s)) ss)"
proof (induction ss arbitrary: a)
  case (Cons s ss)
  let ?b = "merge_Node a (node_value s) sp (ad_peer_id s)" and ?n = "nd_name (node_value s)"
  have name: "nd_name ?b = merge_value [] (nd_name a) ?n" by (rule merge_Node_fields)
  have first: "first_set [] (nd_name ?b # xs) = first_set [] (nd_name a # ?n # xs)" for xs
    unfolding name by (rule first_set_merge)
  have "string_conflict ''name'' (nd_name a) ?n sp (ad_peer_id s) =
      string_conflict ''name'' (first_set [] (nd_name a # ?n # xs)) ?n sp (ad_peer_id s)" for xs
    by (simp add: string_conflict_def)
  then show ?case
    using Cons.IH[of ?b] first by (simp add: merge_Node_name_conflicts)
qed simp

text \<open>
  Name conflicts: the canonical node carries, besides the conflicts the most preferred
  advertisement came with, exactly one conflict for every other peer whose non-empty name differs
  from the selected name, in the order of preference.
\<close>

theorem canonical_name_conflicts:
  assumes "ordered = best # others" and "\<forall>s\<in>set ordered. source_value s = NodeE (node_value s)"
  shows "\<exists>c. canonical ordered = NodeE c \<and> field_conflicts ''name'' (nd_meta c) =
    field_conflicts ''name'' (nd_meta (node_value best)) @
    map (\<lambda>s. \<lparr>cf_field = ''name'', cf_selected_value = nd_name c, cf_selected_peer_id = ad_peer_id best,
              cf_rejected_value = nd_name (node_value s), cf_rejected_peer_id = ad_peer_id s\<rparr>)
      (filter (\<lambda>s. nd_name (node_value s) \<noteq> [] \<and> nd_name (node_value s) \<noteq> nd_name c) others)"
proof -
  have ne: "ordered \<noteq> []" using assms(1) by simp
  define c where "c = nd_name (merged_node ordered)"
  have c: "c = first_set [] (map (\<lambda>s. nd_name (node_value s)) ordered)"
    unfolding c_def by (rule merged_node_first[OF ne merge_Node_fields(1)])
  have set_c: "c \<noteq> []" if "s \<in> set others" "nd_name (node_value s) \<noteq> []" for s
  proof -
    have "first_set [] xs \<noteq> []" if "x \<in> set xs" "x \<noteq> []" for x and xs :: "string list"
      using that by (induction xs) auto
    from this[of "nd_name (node_value s)"] show ?thesis using that assms(1) unfolding c by simp
  qed
  have "concat (map (\<lambda>s. string_conflict ''name'' c (nd_name (node_value s)) (ad_peer_id best) (ad_peer_id s)) ss) =
      map (\<lambda>s. \<lparr>cf_field = ''name'', cf_selected_value = c, cf_selected_peer_id = ad_peer_id best,
              cf_rejected_value = nd_name (node_value s), cf_rejected_peer_id = ad_peer_id s\<rparr>)
        (filter (\<lambda>s. nd_name (node_value s) \<noteq> [] \<and> nd_name (node_value s) \<noteq> c) ss)"
    if "set ss \<subseteq> set others" for ss
    using that set_c by (induction ss) (auto simp: string_conflict_def)
  note list = this[OF order.refl]
  have "field_conflicts ''name'' (nd_meta (merged_node ordered)) =
      field_conflicts ''name'' (nd_meta (node_value best)) @
      concat (map (\<lambda>s. string_conflict ''name'' c (nd_name (node_value s)) (ad_peer_id best) (ad_peer_id s)) others)"
    using fold_name_conflicts[of "ad_peer_id best" others "node_value best"] assms(1) c by (simp add: merged_node_def)
  then show ?thesis
    unfolding canonical_node[OF ne assms(2)] list
    by (simp add: setSources_def field_conflicts_def meta_or_new_def c_def)
qed

theorem canonical_name_conflicts_witness:
  "\<exists>c. canonical [sample_ad ''p'' 9 (NodeE (named_node ''r1'')), sample_ad ''q'' 5 (NodeE (named_node ''r2''))] = NodeE c \<and>
     field_conflicts ''name'' (nd_meta c) = [\<lparr>cf_field = ''name'', cf_selected_value = ''r1'',
       cf_selected_peer_id = ''p'', cf_rejected_value = ''r2'', cf_rejected_peer_id = ''q''\<rparr>]"
proof -
  let ?o = "[sample_ad ''p'' 9 (NodeE (named_node ''r1'')), sample_ad ''q'' 5 (NodeE (named_node ''r2''))]"
  have ok: "\<forall>s\<in>set ?o. source_value s = NodeE (node_value s)"
    by (simp add: sample_ad_def source_value_def node_value_def)
  obtain c where c: "canonical ?o = NodeE c" using canonical_node[OF _ ok] by (auto simp: setSources_def)
  have "nd_name c = ''r1''"
    using c merged_node_first[of ?o, OF _ merge_Node_fields(1)] canonical_node[OF _ ok]
    by (auto simp: setSources_def sample_ad_def source_value_def node_value_def named_node_def)
  then show ?thesis
    using canonical_name_conflicts[OF refl ok] c
    by (simp add: sample_ad_def source_value_def node_value_def named_node_def field_conflicts_def
        meta_or_new_def sample_node_def sample_meta_def zero_EntityMeta_def)
qed

text \<open>
  The peer a conflict names as the source of the selected value may never have sent it: the merge
  always names the most preferred peer, also when the value was filled in from another one. Here
  peer \<open>p\<close> sends no name, \<open>q\<close> sends \<open>r1\<close> and \<open>s\<close> sends \<open>r2\<close>, and the conflict attributes \<open>r1\<close> to \<open>p\<close>.
\<close>

theorem conflict_misattributed:
  "\<exists>c. canonical [sample_ad ''p'' 9 (NodeE (named_node [])), sample_ad ''q'' 5 (NodeE (named_node ''r1'')),
         sample_ad ''s'' 1 (NodeE (named_node ''r2''))] = NodeE c \<and>
     field_conflicts ''name'' (nd_meta c) = [\<lparr>cf_field = ''name'', cf_selected_value = ''r1'',
       cf_selected_peer_id = ''p'', cf_rejected_value = ''r2'', cf_rejected_peer_id = ''s''\<rparr>]"
proof -
  have "(case canonical [sample_ad ''p'' 9 (NodeE (named_node [])), sample_ad ''q'' 5 (NodeE (named_node ''r1'')),
         sample_ad ''s'' 1 (NodeE (named_node ''r2''))] of
       NodeE c \<Rightarrow> field_conflicts ''name'' (nd_meta c) = [\<lparr>cf_field = ''name'', cf_selected_value = ''r1'',
         cf_selected_peer_id = ''p'', cf_rejected_value = ''r2'', cf_rejected_peer_id = ''s''\<rparr>]
     | _ \<Rightarrow> False)"
    by code_simp
  then show ?thesis by (auto split: entity.splits)
qed

section \<open>TLVs\<close>

lemma fold_add_tlv:
  "\<exists>new. fst (fold add_tlv vs (selected, seen)) = selected @ new \<and> set new \<subseteq> set vs \<and>
     distinct (map tlv_key new) \<and> tlv_key ` set new \<inter> seen = {} \<and> tlv_key ` set vs \<subseteq> seen \<union> tlv_key ` set new"
proof (induction vs arbitrary: selected seen)
  case (Cons v vs)
  show ?case
  proof (cases "tlv_key v \<in> seen")
    case True
    then have step: "fold add_tlv (v # vs) (selected, seen) = fold add_tlv vs (selected, seen)"
      by (simp add: add_tlv_def)
    obtain new where "fst (fold add_tlv vs (selected, seen)) = selected @ new" "set new \<subseteq> set vs"
      "distinct (map tlv_key new)" "tlv_key ` set new \<inter> seen = {}" "tlv_key ` set vs \<subseteq> seen \<union> tlv_key ` set new"
      using Cons.IH[of selected seen] by blast
    then show ?thesis unfolding step using True by (intro exI[of _ new]) auto
  next
    case False
    then have step: "fold add_tlv (v # vs) (selected, seen) = fold add_tlv vs (selected @ [v], insert (tlv_key v) seen)"
      by (simp add: add_tlv_def)
    obtain new where "fst (fold add_tlv vs (selected @ [v], insert (tlv_key v) seen)) = (selected @ [v]) @ new"
      "set new \<subseteq> set vs" "distinct (map tlv_key new)" "tlv_key ` set new \<inter> insert (tlv_key v) seen = {}"
      "tlv_key ` set vs \<subseteq> insert (tlv_key v) seen \<union> tlv_key ` set new"
      using Cons.IH[of "selected @ [v]" "insert (tlv_key v) seen"] by blast
    then show ?thesis unfolding step using False by (intro exI[of _ "v # new"]) auto
  qed
qed simp

text \<open>
  \<open>mergeTLVs\<close> keeps the selected TLVs in place and appends those of the other source whose
  registry, type and value are new, each once.
\<close>

theorem mergeTLVs_union:
  "\<exists>new. mergeTLVs selected other = selected @ new \<and> set new \<subseteq> set other \<and> distinct (map tlv_key new) \<and>
     tlv_key ` set new \<inter> tlv_key ` set selected = {} \<and>
     tlv_key ` set (mergeTLVs selected other) = tlv_key ` set selected \<union> tlv_key ` set other"
proof -
  obtain new where "fst (fold add_tlv other (selected, set (map tlv_key selected))) = selected @ new"
    "set new \<subseteq> set other" "distinct (map tlv_key new)" "tlv_key ` set new \<inter> set (map tlv_key selected) = {}"
    "tlv_key ` set other \<subseteq> set (map tlv_key selected) \<union> tlv_key ` set new"
    using fold_add_tlv by metis
  then show ?thesis unfolding mergeTLVs_def by (intro exI[of _ new]) auto
qed

section \<open>Advertisements and withdrawals\<close>

definition sources_of :: "'db Reconciler \<Rightarrow> string \<Rightarrow> Advertisement gomap" where
  "sources_of r key = (case fmlookup (rc_sources r) key of None \<Rightarrow> fmempty | Some m \<Rightarrow> m)"

text \<open>
  The sources a reconciler keeps: each under its peer, with a value of the entity's kind, and no
  entity without a source.
\<close>

definition sources_ok :: "'db Reconciler \<Rightarrow> bool" where
  "sources_ok r \<longleftrightarrow> (\<forall>key m. fmlookup (rc_sources r) key = Some m \<longrightarrow> m \<noteq> fmempty \<and>
     (\<forall>p a. fmlookup m p = Some a \<longrightarrow> ad_peer_id a = p \<and> sourceKey (ad_kind a) (ad_id a) = key \<and>
        ad_id a \<noteq> [] \<and> (\<exists>v. ad_value a = Some v \<and> kind_of v = ad_kind a)))"

lemma decimal_no_slash: "CHR ''/'' \<notin> set (decimal n)"
proof (induction n rule: decimal.induct)
  case (1 n)
  have d: "digit_char d \<noteq> CHR ''/''" if "d < 10" for d
  proof -
    have "of_char (digit_char d) = 48 + d" using that by (simp add: digit_char_def)
    then show ?thesis by auto
  qed
  show ?case
  proof (cases "n < 10")
    case True
    then show ?thesis using d[of n] by (subst decimal.simps) simp
  next
    case False
    then show ?thesis using 1 d[of "n mod 10"] by (subst decimal.simps) simp
  qed
qed

lemma less_power_10: "n < (10 :: nat) ^ Suc (n + k)"
proof (induction n)
  case (Suc n)
  then show ?case by simp
qed simp

lemma decimal_inj: "decimal m = decimal n \<Longrightarrow> m = n"
proof -
  assume eq: "decimal m = decimal n"
  have "m < 10 ^ Suc (m + n)" "n < 10 ^ Suc (m + n)"
    using less_power_10[of m n] less_power_10[of n m] by (simp_all add: add.commute)
  then show "m = n"
    using eq pad_zero_decimal[of m "Suc (m + n)"] pad_zero_decimal[of n "Suc (m + n)"]
      digits_inj[of m "Suc (m + n)" n] by (metis zero_less_Suc)
qed

lemma split_at_slash: "x \<notin> set a \<Longrightarrow> x \<notin> set b \<Longrightarrow> a @ x # i = b @ x # j \<Longrightarrow> a = b \<and> i = j"
proof (induction a arbitrary: b)
  case Nil
  then show ?case by (cases b) auto
next
  case (Cons y a)
  then show ?case by (cases b) auto
qed

lemma sourceKey_inj: "sourceKey k i = sourceKey k' i' \<longleftrightarrow> k = k' \<and> i = i'"
proof
  assume "sourceKey k i = sourceKey k' i'"
  then have "decimal (EntityKind_number k) = decimal (EntityKind_number k') \<and> i = i'"
    unfolding sourceKey_def by (intro split_at_slash[OF decimal_no_slash decimal_no_slash]) simp
  then show "k = k' \<and> i = i'" using decimal_inj by (metis EntityKind_of_number)
qed simp

lemma ordered_sources:
  assumes "\<forall>p a. fmlookup m p = Some a \<longrightarrow> ad_peer_id a = p" and "iter_order it"
  shows "sort_key preference_key (range_values it m) = sort_key preference_key (range_values id m)"
    and "set (sort_key preference_key (range_values it m)) = fmran' m"
proof -
  have "inj_on preference_key (set (range_values it m))"
    using assms by (intro inj_onI) (auto simp: set_range_values fmlookup_ran'_iff preference_key_def)
  then show "sort_key preference_key (range_values it m) = sort_key preference_key (range_values id m)"
    by (intro sort_key_unique mset_range_values[OF assms(2)])
  show "set (sort_key preference_key (range_values it m)) = fmran' m"
    using assms(2) by (simp add: set_range_values)
qed

lemma kind_of_mergeEntity [simp]: "kind_of (mergeEntity a b sp op) = kind_of a"
  by (cases a; cases b) (simp_all add: mergeEntity_def)

lemma kind_of_setSources [simp]: "kind_of (setSources ids v) = kind_of v"
  by (cases v) (simp_all add: setSources_def)

lemma kind_of_canonical: "kind_of (canonical ordered) = kind_of (source_value (hd ordered))"
proof -
  have "kind_of (fold (\<lambda>s c. mergeEntity c (source_value s) sp (ad_peer_id s)) ss v) = kind_of v" for sp ss v
    by (induction ss arbitrary: v) simp_all
  then show ?thesis by (simp add: canonical_def)
qed

text \<open>The sources of the entity after an advertisement or a withdrawal.\<close>

definition updated_sources :: "Advertisement \<Rightarrow> 'db Reconciler \<Rightarrow> Advertisement gomap" where
  "updated_sources a r = (let m = sources_of r (sourceKey (ad_kind a) (ad_id a)) in
     if ad_withdraw a then fmdrop (ad_peer_id a) m else fmupd (ad_peer_id a) a m)"

definition ad_ok :: "Advertisement \<Rightarrow> bool" where
  "ad_ok a \<longleftrightarrow> ad_id a \<noteq> [] \<and> ad_peer_id a \<noteq> [] \<and>
     (ad_withdraw a \<or> (\<exists>v. ad_value a = Some v \<and> kind_of v = ad_kind a))"

definition ordered_sources_of :: "Advertisement \<Rightarrow> 'db Reconciler \<Rightarrow> Advertisement list" where
  "ordered_sources_of a r = sort_key preference_key (range_values id (updated_sources a r))"

lemma updated_sources_ok:
  assumes "sources_ok r" and "ad_ok a" and "fmlookup (updated_sources a r) p = Some b"
  shows "ad_peer_id b = p \<and> sourceKey (ad_kind b) (ad_id b) = sourceKey (ad_kind a) (ad_id a) \<and> ad_id b \<noteq> [] \<and>
    (\<exists>v. ad_value b = Some v \<and> kind_of v = ad_kind b)"
  using assms
  by (auto simp: updated_sources_def sources_of_def sources_ok_def ad_ok_def Let_def split: if_splits option.splits)

lemma Reconciler_Apply_eq:
  assumes "sources_ok r" and "ad_ok a" and "iter_order it"
  shows "Reconciler_Apply P it ctxErr now a r = (
    let key = sourceKey (ad_kind a) (ad_id a); srcs = updated_sources a r;
        m = \<lparr>mu_kind = ad_kind a, mu_id = ad_id a, mu_domain_id = ad_domain_id a, mu_peer_id = ad_peer_id a,
             mu_reason = (if srcs = fmempty then ''last source withdrawn'' else ''canonical topology reconciled''),
             mu_delete = (srcs = fmempty),
             mu_value = (if srcs = fmempty then None else Some (canonical (ordered_sources_of a r)))\<rparr>
    in (case Apply P ctxErr now m (rc_store r) of (s', v, res) \<Rightarrow>
         (\<lparr>rc_store = s', rc_sources = (if srcs = fmempty then fmdrop key (rc_sources r)
            else fmupd key srcs (rc_sources r))\<rparr>, res)))"
proof -
  have "\<forall>p b. fmlookup (updated_sources a r) p = Some b \<longrightarrow> ad_peer_id b = p"
    using updated_sources_ok[OF assms(1,2)] by blast
  note ord = ordered_sources(1)[OF this assms(3)]
  have ok: "\<not> (ad_id a = [] \<or> ad_peer_id a = [])" "\<not> (\<not> ad_withdraw a \<and> ad_value a = None)"
    using assms(2) by (auto simp: ad_ok_def)
  have upd: "(if ad_withdraw a then fmdrop (ad_peer_id a) (case fmlookup (rc_sources r)
        (sourceKey (ad_kind a) (ad_id a)) of None \<Rightarrow> fmempty | Some m \<Rightarrow> m)
      else fmupd (ad_peer_id a) a (case fmlookup (rc_sources r)
        (sourceKey (ad_kind a) (ad_id a)) of None \<Rightarrow> fmempty | Some m \<Rightarrow> m)) = updated_sources a r"
    by (simp add: updated_sources_def sources_of_def)
  show ?thesis
    unfolding Reconciler_Apply_def Let_def if_not_P[OF ok(1)] if_not_P[OF ok(2)] upd ord ordered_sources_of_def
    by simp
qed

lemma sources_after:
  assumes "sources_ok r" and "ad_ok a" and "iter_order it" and "Reconciler_Apply P it ctxErr now a r = (r', res)"
  shows "sources_ok r'" and "sources_of r' (sourceKey (ad_kind a) (ad_id a)) = updated_sources a r"
    and "k \<noteq> sourceKey (ad_kind a) (ad_id a) \<Longrightarrow> sources_of r' k = sources_of r k"
proof -
  let ?key = "sourceKey (ad_kind a) (ad_id a)"
  have src: "rc_sources r' = (if updated_sources a r = fmempty then fmdrop ?key (rc_sources r)
      else fmupd ?key (updated_sources a r) (rc_sources r))"
    using assms(4) unfolding Reconciler_Apply_eq[OF assms(1-3)] Let_def
    by (auto split: prod.splits)
  then show "sources_of r' ?key = updated_sources a r"
    and "k \<noteq> ?key \<Longrightarrow> sources_of r' k = sources_of r k"
    by (simp_all add: sources_of_def)
  show "sources_ok r'"
    unfolding sources_ok_def
  proof (intro allI impI)
    fix key m assume m: "fmlookup (rc_sources r') key = Some m"
    show "m \<noteq> fmempty \<and> (\<forall>p b. fmlookup m p = Some b \<longrightarrow> ad_peer_id b = p \<and>
        sourceKey (ad_kind b) (ad_id b) = key \<and> ad_id b \<noteq> [] \<and> (\<exists>v. ad_value b = Some v \<and> kind_of v = ad_kind b))"
    proof (cases "key = ?key")
      case True
      then have "m = updated_sources a r" "m \<noteq> fmempty" using m src by (auto split: if_splits)
      then show ?thesis using updated_sources_ok[OF assms(1,2)] True by auto
    next
      case False
      then have "fmlookup (rc_sources r) key = Some m" using m src by (auto split: if_splits)
      then show ?thesis using assms(1) unfolding sources_ok_def by blast
    qed
  qed
qed

lemma Reconciler_Apply_rule:
  assumes "pebble_laws P cont" and "sources_ok r" and "ad_ok a" and "iter_order it"
    and "Reconciler_Apply P it ctxErr now a r = (r', res)"
  shows "sources_ok r' \<and> sources_of r' (sourceKey (ad_kind a) (ad_id a)) = updated_sources a r \<and>
    (\<forall>k. k \<noteq> sourceKey (ad_kind a) (ad_id a) \<longrightarrow> sources_of r' k = sources_of r k) \<and>
    (\<forall>ev. res = Inr ev \<longrightarrow>
       Get (rc_store r') (ad_kind a) (ad_id a) = (if updated_sources a r = fmempty then Inl (Sentinel ErrNotFound)
         else Inr (setRevision (st_revision (rc_store r')) now (canonical (ordered_sources_of a r)))) \<and>
       (\<forall>k i. (k, i) \<noteq> (ad_kind a, ad_id a) \<longrightarrow> Get (rc_store r') k i = Get (rc_store r) k i))"
proof -
  let ?u = "updated_sources a r"
  define m where "m = \<lparr>mu_kind = ad_kind a, mu_id = ad_id a, mu_domain_id = ad_domain_id a,
     mu_peer_id = ad_peer_id a,
     mu_reason = (if ?u = fmempty then ''last source withdrawn'' else ''canonical topology reconciled''),
     mu_delete = (?u = fmempty), mu_value = (if ?u = fmempty then None else Some (canonical (ordered_sources_of a r)))\<rparr>"
  obtain s' v where app: "Apply P ctxErr now m (rc_store r) = (s', v, res)" and st: "rc_store r' = s'"
    using assms(5) unfolding Reconciler_Apply_eq[OF assms(2-4)] Let_def m_def by (auto split: prod.splits)
  have "kind_of (canonical (ordered_sources_of a r)) = ad_kind a" if "?u \<noteq> fmempty"
  proof -
    have "\<forall>p b. fmlookup ?u p = Some b \<longrightarrow> ad_peer_id b = p" using updated_sources_ok[OF assms(2,3)] by blast
    note set_o = ordered_sources(2)[OF this iter_order_id(1), folded ordered_sources_of_def]
    have "fmran' ?u \<noteq> {}" using that by (metis fmap_ext fmempty_lookup fmran'I empty_iff option.exhaust)
    then have "hd (ordered_sources_of a r) \<in> fmran' ?u" using set_o by (metis hd_in_set set_empty)
    then obtain p where "fmlookup ?u p = Some (hd (ordered_sources_of a r))" by (auto simp: fmlookup_ran'_iff)
    from updated_sources_ok[OF assms(2,3) this] show ?thesis
      using sourceKey_inj by (auto simp: kind_of_canonical source_value_def)
  qed
  then have kinds: "\<forall>w. mu_value m = Some w \<longrightarrow> mu_delete m \<or> kind_of w = mu_kind m" by (simp add: m_def)
  have "(\<forall>ev. res = Inr ev \<longrightarrow>
       Get s' (ad_kind a) (ad_id a) = (if ?u = fmempty then Inl (Sentinel ErrNotFound)
         else Inr (setRevision (st_revision s') now (canonical (ordered_sources_of a r)))) \<and>
       (\<forall>k i. (k, i) \<noteq> (ad_kind a, ad_id a) \<longrightarrow> Get s' k i = Get (rc_store r) k i))"
    using Apply_effect[OF assms(1) kinds app] by (auto simp: m_def)
  then show ?thesis using sources_after[OF assms(2-5)] st by blast
qed

text \<open>
  C4. What an advertisement or a withdrawal does: the peer's entry in the sources of that entity is
  replaced or removed and nothing else; and when the store accepts the change, the entity is the
  canonical merge of the remaining sources in the order of preference, or gone with the last source,
  while every other entity is as before.
\<close>

theorem Reconciler_Apply_effect:
  assumes "pebble_laws P cont" and "sources_ok r" and "ad_ok a" and "iter_order it"
    and "Reconciler_Apply P it ctxErr now a r = (r', res)"
  shows "sources_ok r' \<and> sources_of r' (sourceKey (ad_kind a) (ad_id a)) = updated_sources a r \<and>
    (\<forall>k. k \<noteq> sourceKey (ad_kind a) (ad_id a) \<longrightarrow> sources_of r' k = sources_of r k) \<and>
    (\<forall>ev. res = Inr ev \<longrightarrow>
       Get (rc_store r') (ad_kind a) (ad_id a) = (if updated_sources a r = fmempty then Inl (Sentinel ErrNotFound)
         else Inr (setRevision (st_revision (rc_store r')) now (canonical (ordered_sources_of a r)))) \<and>
       (\<forall>k i. (k, i) \<noteq> (ad_kind a, ad_id a) \<longrightarrow> Get (rc_store r') k i = Get (rc_store r) k i))"
  by (rule Reconciler_Apply_rule[OF assms])

definition fresh_reconciler :: "contents Reconciler" where
  "fresh_reconciler = NewReconciler fresh_store"

lemma fresh_reconciler_ok: "sources_ok fresh_reconciler"
  by (simp add: sources_ok_def fresh_reconciler_def NewReconciler_def)

theorem Reconciler_Apply_effect_witness:
  "\<exists>r' res. Reconciler_Apply memory_pebble rev None 10 (sample_ad ''p'' 9 (NodeE (named_node ''r1''))) fresh_reconciler
      = (r', res) \<and> sources_ok r' \<and> \<not> isl res"
proof -
  let ?a = "sample_ad ''p'' 9 (NodeE (named_node ''r1''))"
  obtain r' res where run: "Reconciler_Apply memory_pebble rev None 10 ?a fresh_reconciler = (r', res)"
    by (cases "Reconciler_Apply memory_pebble rev None 10 ?a fresh_reconciler")
  have ok: "ad_ok ?a" by (simp add: ad_ok_def sample_ad_def node_id_def getter_simps named_node_def sample_node_def sample_meta_def zero_EntityMeta_def)
  have "\<not> isl (snd (Reconciler_Apply memory_pebble rev None 10 ?a fresh_reconciler))" by code_simp
  then show ?thesis
    using Reconciler_Apply_effect[OF memory_pebble_laws(1) fresh_reconciler_ok ok iter_order_rev run] run by auto
qed

lemma sources_determined:
  assumes "sources_ok r" and "sources_ok r'" and "\<And>k. sources_of r k = sources_of r' k"
  shows "rc_sources r = rc_sources r'"
proof (rule fmap_ext)
  fix k
  show "fmlookup (rc_sources r) k = fmlookup (rc_sources r') k"
    using assms(3)[of k] assms(1,2) unfolding sources_of_def sources_ok_def
    by (cases "fmlookup (rc_sources r) k"; cases "fmlookup (rc_sources r') k") auto
qed

text \<open>An entity without what a write stamps on it: the revision and the times.\<close>

definition unstamp_meta :: "EntityMeta option \<Rightarrow> EntityMeta option" where
  "unstamp_meta m = map_option (\<lambda>m. m\<lparr>em_revision := 0, em_first_seen := None, em_last_seen := None\<rparr>) m"

fun unstamp :: "entity \<Rightarrow> entity" where
  "unstamp (NodeE x) = NodeE (x\<lparr>nd_meta := unstamp_meta (nd_meta x)\<rparr>)"
| "unstamp (LinkE x) = LinkE (x\<lparr>lk_meta := unstamp_meta (lk_meta x)\<rparr>)"
| "unstamp (PrefixE x) = PrefixE (x\<lparr>px_meta := unstamp_meta (px_meta x)\<rparr>)"
| "unstamp (PeerE x) = PeerE (x\<lparr>pr_resource_version := 0\<rparr>)"
| "unstamp (DomainE x) = DomainE (x\<lparr>dm_revision := 0\<rparr>)"

definition unstamped :: "go_error + entity \<Rightarrow> go_error + entity" where
  "unstamped g = map_sum id unstamp g"

lemma unstamp_setRevision: "unstamp (setRevision r now v) = unstamp (setRevision 0 0 v)"
proof -
  have "unstamp_meta (Some (ensureMeta m r now)) = unstamp_meta (Some (ensureMeta m 0 0))" for m
    by (simp add: unstamp_meta_def ensureMeta_def Let_def)
  then show ?thesis by (cases v) simp_all
qed

text \<open>What one advertisement that is accepted leaves in the store.\<close>

definition reconciled :: "Advertisement \<Rightarrow> 'db Reconciler \<Rightarrow> go_error + entity" where
  "reconciled a r = (if updated_sources a r = fmempty then Inl (Sentinel ErrNotFound)
     else Inr (unstamp (setRevision 0 0 (canonical (ordered_sources_of a r)))))"

lemma reconciled_cong: "updated_sources a r = updated_sources b r' \<Longrightarrow> reconciled a r = reconciled b r'"
  by (simp add: reconciled_def ordered_sources_of_def)

lemma Reconciler_Apply_stored:
  assumes "pebble_laws P cont" and "sources_ok r" and "ad_ok a" and "iter_order it"
    and "Reconciler_Apply P it ctxErr now a r = (r', res)" and "\<not> isl res"
  shows "unstamped (Get (rc_store r') k i) =
    (if (k, i) = (ad_kind a, ad_id a) then reconciled a r else unstamped (Get (rc_store r) k i))"
proof -
  obtain ev where "res = Inr ev" using assms(6) by (cases res) auto
  then show ?thesis
    using Reconciler_Apply_rule[OF assms(1-5)] unstamp_setRevision[of "st_revision (rc_store r')" now]
    by (auto simp: unstamped_def reconciled_def)
qed

lemma updated_commute:
  assumes "sources_ok r" and "ad_ok a" and "ad_ok b" and "iter_order it" and "iter_order it'" and "ad_peer_id a \<noteq> ad_peer_id b"
    and "Reconciler_Apply P it c t a r = (ra, x)" and "Reconciler_Apply P it' c' t' b r = (rb, y)"
  shows "sourceKey (ad_kind a) (ad_id a) = sourceKey (ad_kind b) (ad_id b) \<Longrightarrow> updated_sources b ra = updated_sources a rb"
    and "sourceKey (ad_kind a) (ad_id a) \<noteq> sourceKey (ad_kind b) (ad_id b) \<Longrightarrow>
      updated_sources b ra = updated_sources b r \<and> updated_sources a rb = updated_sources a r"
proof -
  note ra = sources_after(2,3)[OF assms(1,2,4,7)] and rb = sources_after(2,3)[OF assms(1,3,5,8)]
  show "updated_sources b ra = updated_sources a rb" if same: "sourceKey (ad_kind a) (ad_id a) = sourceKey (ad_kind b) (ad_id b)"
    using ra(1) rb(1) assms(6) unfolding same updated_sources_def[of b ra] updated_sources_def[of a rb]
    by (auto simp: Let_def updated_sources_def same intro!: fmap_ext)
  show "updated_sources b ra = updated_sources b r \<and> updated_sources a rb = updated_sources a r"
    if "sourceKey (ad_kind a) (ad_id a) \<noteq> sourceKey (ad_kind b) (ad_id b)"
    using ra(2)[of "sourceKey (ad_kind b) (ad_id b)"] rb(2)[of "sourceKey (ad_kind a) (ad_id a)"] that
    by (simp add: updated_sources_def)
qed

text \<open>
  C23. Advertisements and withdrawals of different peers commute: whichever arrives first, and in whatever
  order Go ranges over the sources each time, the reconciler ends up with the same sources; and when the
  store accepts the writes, both ways end with the same entities in it, up to the revisions and times of the
  writes.
\<close>

theorem Reconciler_commutes:
  assumes "pebble_laws P cont" and "sources_ok r" and "ad_ok a" and "ad_ok b" and "ad_peer_id a \<noteq> ad_peer_id b"
    and "iter_order it1" and "iter_order it2" and "iter_order it3" and "iter_order it4"
    and "Reconciler_Apply P it1 c1 t1 a r = (ra, x1)" and "Reconciler_Apply P it2 c2 t2 b ra = (rab, x2)"
    and "Reconciler_Apply P it3 c3 t3 b r = (rb, x3)" and "Reconciler_Apply P it4 c4 t4 a rb = (rba, x4)"
  shows "rc_sources rab = rc_sources rba \<and>
    (\<not> isl x1 \<and> \<not> isl x2 \<and> \<not> isl x3 \<and> \<not> isl x4 \<longrightarrow>
      (\<forall>k i. unstamped (Get (rc_store rab) k i) = unstamped (Get (rc_store rba) k i)))"
proof -
  let ?ka = "sourceKey (ad_kind a) (ad_id a)" and ?kb = "sourceKey (ad_kind b) (ad_id b)"
  note ra = sources_after[OF assms(2,3,6,10)] and rb = sources_after[OF assms(2,4,8,12)]
  note rab = sources_after[OF ra(1) assms(4,7,11)] and rba = sources_after[OF rb(1) assms(3,9,13)]
  note upd = updated_commute[OF assms(2-4,6,8,5,10,12)]
  have "sources_of rab k = sources_of rba k" for k
    using upd ra(2,3) rb(2,3) rab(2,3) rba(2,3) by (cases "?ka = ?kb"; cases "k = ?ka"; cases "k = ?kb") auto
  then have "rc_sources rab = rc_sources rba" by (rule sources_determined[OF rab(1) rba(1)])
  moreover have "unstamped (Get (rc_store rab) k i) = unstamped (Get (rc_store rba) k i)"
    if ok: "\<not> isl x1" "\<not> isl x2" "\<not> isl x3" "\<not> isl x4" for k i
  proof -
    note st = Reconciler_Apply_stored[OF assms(1,2,3,6,10) ok(1)] Reconciler_Apply_stored[OF assms(1) ra(1) assms(4,7,11) ok(2)]
      Reconciler_Apply_stored[OF assms(1,2,4,8,12) ok(3)] Reconciler_Apply_stored[OF assms(1) rb(1) assms(3,9,13) ok(4)]
    show ?thesis
    proof (cases "?ka = ?kb")
      case True
      then show ?thesis using st[of k i] reconciled_cong[OF upd(1)[OF True]] unfolding sourceKey_inj by simp
    next
      case False
      have "reconciled b ra = reconciled b r" "reconciled a rb = reconciled a r"
        using upd(2)[OF False] reconciled_cong[of b ra b r] reconciled_cong[of a rb a r] by simp_all
      then show ?thesis using st[of k i] False unfolding sourceKey_inj by auto
    qed
  qed
  ultimately show ?thesis by blast
qed

theorem Reconciler_commutes_witness:
  "let a = sample_ad ''p'' 5 (NodeE (named_node ''r1'')); b = sample_ad ''q'' 5 (NodeE (named_node ''r2''));
       rab = fst (Reconciler_Apply memory_pebble rev None 2 b (fst (Reconciler_Apply memory_pebble id None 1 a fresh_reconciler)));
       rba = fst (Reconciler_Apply memory_pebble id None 4 a (fst (Reconciler_Apply memory_pebble rev None 3 b fresh_reconciler)))
   in unstamped (Get (rc_store rab) ENTITY_KIND_NODE (node_id (named_node ''r1''))) = unstamped (Get (rc_store rba) ENTITY_KIND_NODE (node_id (named_node ''r1'')))"
proof -
  let ?a = "sample_ad ''p'' 5 (NodeE (named_node ''r1''))" and ?b = "sample_ad ''q'' 5 (NodeE (named_node ''r2''))"
  let ?xa = "Reconciler_Apply memory_pebble id None 1 ?a fresh_reconciler"
  let ?xb = "Reconciler_Apply memory_pebble rev None 3 ?b fresh_reconciler"
  let ?xab = "Reconciler_Apply memory_pebble rev None 2 ?b (fst ?xa)" and ?xba = "Reconciler_Apply memory_pebble id None 4 ?a (fst ?xb)"
  have ok: "ad_ok ?a" "ad_ok ?b" "ad_peer_id ?a \<noteq> ad_peer_id ?b"
    by (simp_all add: ad_ok_def sample_ad_def node_id_def getter_simps named_node_def sample_node_def sample_meta_def zero_EntityMeta_def)
  have acc: "\<not> isl (snd ?xa)" "\<not> isl (snd ?xab)" "\<not> isl (snd ?xb)" "\<not> isl (snd ?xba)" by code_simp+
  note orders = iter_order_id(1) iter_order_rev iter_order_rev iter_order_id(1)
  have runs: "?xa = (fst ?xa, snd ?xa)" "?xab = (fst ?xab, snd ?xab)" "?xb = (fst ?xb, snd ?xb)" "?xba = (fst ?xba, snd ?xba)"
    by simp_all
  note commute = Reconciler_commutes[OF memory_pebble_laws(1) fresh_reconciler_ok ok orders runs, THEN conjunct2, THEN mp]
  show ?thesis unfolding Let_def by (intro commute[THEN spec, THEN spec] conjI acc)
qed

text \<open>
  The reconciler remembers an advertisement before the store has accepted it. A link whose
  bandwidth is not finite cannot be written as JSON, so the store refuses it; but it stays the
  preferred source, and the valid advertisement of another peer for the same link is refused too.
\<close>

theorem Reconciler_poisoned:
  "let bad = sample_ad ''p'' 9 (LinkE (sample_link ''ab'' ''a'' ''b'' 1 NaN));
       good = sample_ad ''q'' 5 (LinkE (sample_link ''ab'' ''a'' ''b'' 1 (Fin 100)));
       r1 = fst (Reconciler_Apply memory_pebble id None 1 bad fresh_reconciler)
   in isl (snd (Reconciler_Apply memory_pebble id None 1 bad fresh_reconciler)) \<and>
      isl (snd (Reconciler_Apply memory_pebble id None 2 good r1)) \<and>
      \<not> isl (snd (Reconciler_Apply memory_pebble id None 2 good fresh_reconciler))"
proof -
  have "isl (snd (Reconciler_Apply memory_pebble id None 1
      (sample_ad ''p'' 9 (LinkE (sample_link ''ab'' ''a'' ''b'' 1 NaN))) fresh_reconciler))" by code_simp
  moreover have "isl (snd (Reconciler_Apply memory_pebble id None 2
      (sample_ad ''q'' 5 (LinkE (sample_link ''ab'' ''a'' ''b'' 1 (Fin 100))))
      (fst (Reconciler_Apply memory_pebble id None 1
        (sample_ad ''p'' 9 (LinkE (sample_link ''ab'' ''a'' ''b'' 1 NaN))) fresh_reconciler))))" by code_simp
  moreover have "\<not> isl (snd (Reconciler_Apply memory_pebble id None 2
      (sample_ad ''q'' 5 (LinkE (sample_link ''ab'' ''a'' ''b'' 1 (Fin 100)))) fresh_reconciler))" by code_simp
  ultimately show ?thesis unfolding Let_def by blast
qed

end
