(* ===== verification/Base64.thy ===== *)
theory Base64
  imports Prelude
begin

text \<open>
  \<open>base64.RawURLEncoding\<close> of Go's \<open>encoding/base64\<close>, the form of the page tokens. Encoding turns
  three bytes into four characters of the URL-safe alphabet and leaves out the padding. Decoding
  skips line breaks and goes by groups of four characters; at a character outside the alphabet, or at a
  last group of one character, it stops with an error and returns the bytes of the groups before it.
\<close>

section \<open>Definitions\<close>

definition alphabet :: string where
  "alphabet = ''ABCDEFGHIJKLMNOPQRSTUVWXYZabcdefghijklmnopqrstuvwxyz0123456789-_''"

definition sextet_char :: "nat \<Rightarrow> char" where
  "sextet_char i = alphabet ! i"

fun index_in :: "char \<Rightarrow> string \<Rightarrow> nat \<Rightarrow> nat option" where
  "index_in c [] i = None"
| "index_in c (x # xs) i = (if x = c then Some i else index_in c xs (Suc i))"

definition char_sextet :: "char \<Rightarrow> nat option" where
  "char_sextet c = index_in c alphabet 0"

definition byte :: "char \<Rightarrow> nat" where
  "byte c = of_char c"

definition group_value :: "nat \<Rightarrow> nat \<Rightarrow> nat \<Rightarrow> nat" where
  "group_value a b c = a * 65536 + b * 256 + c"

definition sextets :: "nat \<Rightarrow> string" where
  "sextets v = map sextet_char [v div 262144, v div 4096 mod 64, v div 64 mod 64, v mod 64]"

fun EncodeToString :: "string \<Rightarrow> string" where
  "EncodeToString [] = []"
| "EncodeToString [a] = take 2 (sextets (group_value (byte a) 0 0))"
| "EncodeToString [a, b] = take 3 (sextets (group_value (byte a) (byte b) 0))"
| "EncodeToString (a # b # c # s) = sextets (group_value (byte a) (byte b) (byte c)) @ EncodeToString s"

definition group_bytes :: "nat \<Rightarrow> nat \<Rightarrow> nat \<Rightarrow> nat \<Rightarrow> string" where
  "group_bytes a b c d = (let v = a * 262144 + b * 4096 + c * 64 + d
     in [char_of (v div 65536), char_of (v div 256 mod 256), char_of (v mod 256)])"

fun decode_groups :: "nat option list \<Rightarrow> string \<times> bool" where
  "decode_groups [] = ([], True)"
| "decode_groups [Some a, Some b] = (take 1 (group_bytes a b 0 0), True)"
| "decode_groups [Some a, Some b, Some c] = (take 2 (group_bytes a b c 0), True)"
| "decode_groups (Some a # Some b # Some c # Some d # xs) =
     (case decode_groups xs of (s, ok) \<Rightarrow> (group_bytes a b c d @ s, ok))"
| "decode_groups _ = ([], False)"

definition DecodeString :: "string \<Rightarrow> string \<times> bool" where
  "DecodeString s = decode_groups (map char_sextet (filter (\<lambda>c. c \<noteq> CHR 0x0A \<and> c \<noteq> CHR 0x0D) s))"

section \<open>Round trip\<close>

lemma char_sextet_char: "i < 64 \<Longrightarrow> char_sextet (sextet_char i) = Some i"
proof -
  have "list_all (\<lambda>i. char_sextet (sextet_char i) = Some i) [0..<64]" by code_simp
  then show "i < 64 \<Longrightarrow> char_sextet (sextet_char i) = Some i" by (simp add: list_all_iff del: upt_conv_Cons)
qed

lemma sextet_char_visible: "i < 64 \<Longrightarrow> sextet_char i \<noteq> CHR 0x0A \<and> sextet_char i \<noteq> CHR 0x0D"
proof -
  have "list_all (\<lambda>i. sextet_char i \<noteq> CHR 0x0A \<and> sextet_char i \<noteq> CHR 0x0D) [0..<64]" by code_simp
  then show "i < 64 \<Longrightarrow> sextet_char i \<noteq> CHR 0x0A \<and> sextet_char i \<noteq> CHR 0x0D"
    by (simp add: list_all_iff del: upt_conv_Cons)
qed

lemma byte_less: "byte c < 256"
  by (simp add: byte_def)

lemma char_of_byte: "char_of (byte c) = c"
  by (simp add: byte_def)

lemma group_value_less: "a < 256 \<Longrightarrow> b < 256 \<Longrightarrow> c < 256 \<Longrightarrow> group_value a b c < 16777216"
  by (simp add: group_value_def)

lemma sextets_sum: "(v div 262144) * 262144 + (v div 4096 mod 64) * 4096 + (v div 64 mod 64) * 64 + v mod 64 = (v::nat)"
proof -
  have "v div 64 = (v div 4096) * 64 + v div 64 mod 64"
    using div_mult_mod_eq[of "v div 64" 64] by (simp add: div_mult2_eq[symmetric])
  moreover have "v div 4096 = (v div 262144) * 64 + v div 4096 mod 64"
    using div_mult_mod_eq[of "v div 4096" 64] by (simp add: div_mult2_eq[symmetric])
  moreover have "v = (v div 64) * 64 + v mod 64" by simp
  ultimately show ?thesis by linarith
qed

lemma group_value_bytes:
  assumes "a < 256" "b < 256" "c < 256"
  shows "group_value a b c div 65536 = a" "group_value a b c div 256 mod 256 = b"
    "group_value a b c mod 256 = c"
proof -
  let ?v = "group_value a b c"
  have v: "?v = (a * 256 + b) * 256 + c" by (simp add: group_value_def)
  have d: "?v div 256 = a * 256 + b" unfolding v using assms(3) by simp
  show "?v mod 256 = c" unfolding v using assms(3) by (metis mod_less mod_mult_self3)
  show "?v div 256 mod 256 = b" unfolding d using assms(2) by (metis mod_less mod_mult_self3)
  have "?v div 65536 = ?v div 256 div 256" by (simp add: div_mult2_eq[symmetric])
  then show "?v div 65536 = a" unfolding d using assms(2) by simp
qed

lemma sextets_small:
  assumes "v < (16777216::nat)"
  shows "\<forall>i \<in> {v div 262144, v div 4096 mod 64, v div 64 mod 64, v mod 64}. i < 64"
  using assms by (auto simp: less_mult_imp_div_less)

lemma group_bytes_sextets:
  assumes "a < 256" "b < 256" "c < 256" and "v = group_value a b c"
  shows "group_bytes (v div 262144) (v div 4096 mod 64) (v div 64 mod 64) (v mod 64) =
    [char_of a, char_of b, char_of c]"
  unfolding group_bytes_def sextets_sum Let_def assms(4) group_value_bytes[OF assms(1-3)] ..

lemma visible_sextets:
  assumes "v < 16777216"
  shows "map char_sextet (filter (\<lambda>c. c \<noteq> CHR 0x0A \<and> c \<noteq> CHR 0x0D) (sextets v)) =
    map Some [v div 262144, v div 4096 mod 64, v div 64 mod 64, v mod 64]"
  using sextets_small[OF assms] by (simp add: sextets_def sextet_char_visible char_sextet_char)

lemma group_tail:
  shows "group_value a 0 0 div 64 mod 64 = 0" "group_value a 0 0 mod 64 = 0" "group_value a b 0 mod 64 = 0"
proof -
  have "group_value a b 0 = 64 * (a * 1024 + b * 4)" for a b by (simp add: group_value_def)
  then show "group_value a 0 0 mod 64 = 0" "group_value a b 0 mod 64 = 0" by simp_all
  have "group_value a 0 0 div 64 = a * 1024" by (simp add: group_value_def)
  then show "group_value a 0 0 div 64 mod 64 = 0" by (simp add: mod_eq_0_iff_dvd)
qed

lemma DecodeString_EncodeToString: "DecodeString (EncodeToString s) = (s, True)"
proof (induction s rule: EncodeToString.induct)
  case 1
  show ?case by (simp add: DecodeString_def)
next
  case (2 a)
  let ?v = "group_value (byte a) 0 0"
  have b: "byte a < 256" by (rule byte_less)
  show ?case
    using sextets_small[OF group_value_less[OF b, of 0 0]] group_bytes_sextets[OF b, of 0 0 ?v]
    by (simp add: DecodeString_def sextets_def sextet_char_visible char_sextet_char group_tail char_of_byte)
next
  case (3 a b)
  let ?v = "group_value (byte a) (byte b) 0"
  show ?case
    using sextets_small[OF group_value_less[OF byte_less[of a] byte_less[of b], of 0]]
      group_bytes_sextets[OF byte_less[of a] byte_less[of b], of 0 ?v]
    by (simp add: DecodeString_def sextets_def sextet_char_visible char_sextet_char group_tail char_of_byte)
next
  case (4 a b c s)
  have v: "group_value (byte a) (byte b) (byte c) < 16777216"
    by (rule group_value_less[OF byte_less byte_less byte_less])
  show ?case
    using 4 group_bytes_sextets[OF byte_less[of a] byte_less[of b] byte_less[of c] refl]
    by (simp add: DecodeString_def visible_sextets[OF v] char_of_byte)
qed

end
