(* ===== verification/Filters.thy ===== *)
theory Filters
  imports Types Base64
begin

text \<open>
  Filters and pages of the list calls (\<open>internal/api/filter.go\<close> and the page loops of
  \<open>internal/api/topology.go\<close> and \<open>collector.go\<close>). The filters read \<open>m.Conflicts\<close> and \<open>m.Id\<close>
  through a pointer that may be nil, so they return a result that may be a panic.
\<close>

section \<open>Messages\<close>

record Page =
  pg_page_size :: u32
  pg_page_token :: string

record PageResult =
  pgr_next_page_token :: string
  pgr_revision :: u64
  pgr_observed_at :: "time option"

record TopologyFilter =
  tf_domain_ids :: "string list"
  tf_protocols :: "Protocol list"
  tf_multi_topology_ids :: "u32 list"
  tf_freshness :: "Freshness list"
  tf_source_peer_ids :: "string list"
  tf_conflicts_only :: bool
  tf_query :: string

section \<open>Strings and pointers\<close>

text \<open>
  \<open>strings.ToLower\<close> maps a string of ASCII bytes byte by byte. On any other string it applies
  Unicode's case tables, which are the argument \<open>uni\<close>.
\<close>

definition is_ascii :: "char \<Rightarrow> bool" where
  "is_ascii c = (c < CHR 0x80)"

definition lower_char :: "char \<Rightarrow> char" where
  "lower_char c = (if CHR ''A'' \<le> c \<and> c \<le> CHR ''Z'' then char_of (of_char c + 32 :: nat) else c)"

definition ToLower :: "(string \<Rightarrow> string) \<Rightarrow> string \<Rightarrow> string" where
  "ToLower uni s = (if list_all is_ascii s then map lower_char s else uni s)"

text \<open>Reading a field through a pointer.\<close>

definition deref :: "'a option \<Rightarrow> 'a result" where
  "deref p = (case p of None \<Rightarrow> Inl Panic | Some x \<Rightarrow> Inr x)"

lemma deref_Some [simp]: "deref (Some x) = Inr x"
  by (simp add: deref_def)

section \<open>Filters\<close>

definition containsString :: "string list \<Rightarrow> string \<Rightarrow> bool" where
  "containsString values value = (values = [] \<or> list_ex (\<lambda>v. v = value) values)"

definition containsFreshness :: "Freshness list \<Rightarrow> Freshness \<Rightarrow> bool" where
  "containsFreshness values value =
     (if values = [] then value = FRESHNESS_ACTIVE else list_ex (\<lambda>v. v = value) values)"

definition sourcesMatch :: "string list \<Rightarrow> string list \<Rightarrow> bool" where
  "sourcesMatch wanted sources = (wanted = [] \<or> list_ex (\<lambda>f. list_ex (\<lambda>s. f = s) sources) wanted)"

text \<open>The tests that the three filters share: the condition on the metadata and the one on conflicts.\<close>

definition meta_match :: "EntityMeta option \<Rightarrow> TopologyFilter \<Rightarrow> bool" where
  "meta_match m f = (containsString (tf_domain_ids f) (GetDomainId m) \<and>
     containsFreshness (tf_freshness f) (GetFreshness m) \<and>
     sourcesMatch (tf_source_peer_ids f) (GetSourcePeerIds m))"

definition conflict_match :: "EntityMeta option \<Rightarrow> TopologyFilter \<Rightarrow> bool result" where
  "conflict_match m f = (if tf_conflicts_only f
     then bindR (deref m) (\<lambda>x. Inr (em_conflicts x \<noteq> [])) else Inr True)"

definition query_match :: "(string \<Rightarrow> string) \<Rightarrow> string \<Rightarrow> EntityMeta option \<Rightarrow> string list \<Rightarrow> bool result" where
  "query_match uni query m texts = (let q = ToLower uni query in
     if q = [] then Inr True
     else bindR (deref m) (\<lambda>x. Inr (list_ex (\<lambda>s. Contains (ToLower uni s) q) (em_id x # texts))))"

definition nodeMatch :: "(string \<Rightarrow> string) \<Rightarrow> Node \<Rightarrow> TopologyFilter option \<Rightarrow> bool result" where
  "nodeMatch uni n f0 = (case f0 of None \<Rightarrow> Inr (GetFreshness (nd_meta n) = FRESHNESS_ACTIVE)
     | Some f \<Rightarrow> if \<not> meta_match (nd_meta n) f then Inr False
        else bindR (conflict_match (nd_meta n) f) (\<lambda>ok.
          if \<not> ok then Inr False
          else if tf_protocols f \<noteq> [] \<and> \<not> list_ex (\<lambda>p. p = nd_protocol n) (tf_protocols f) then Inr False
          else query_match uni (tf_query f) (nd_meta n)
            [nd_name n, nd_igp_router_id n, nd_bgp_router_id n, nd_ipv4_router_id n, nd_ipv6_router_id n]))"

definition linkMatch :: "(string \<Rightarrow> string) \<Rightarrow> Link \<Rightarrow> TopologyFilter option \<Rightarrow> bool result" where
  "linkMatch uni l f0 = (case f0 of None \<Rightarrow> Inr (GetFreshness (lk_meta l) = FRESHNESS_ACTIVE)
     | Some f \<Rightarrow> if \<not> meta_match (lk_meta l) f then Inr False
        else bindR (conflict_match (lk_meta l) f) (\<lambda>ok.
          if \<not> ok then Inr False
          else if tf_multi_topology_ids f \<noteq> [] \<and>
            \<not> list_ex (\<lambda>i. i = lk_multi_topology_id l) (tf_multi_topology_ids f) then Inr False
          else query_match uni (tf_query f) (lk_meta l)
            [lk_local_address l, lk_remote_address l, lk_local_ipv4_address l, lk_remote_ipv4_address l,
             lk_local_ipv6_address l, lk_remote_ipv6_address l]))"

definition prefixMatch :: "(string \<Rightarrow> string) \<Rightarrow> Prefix \<Rightarrow> TopologyFilter option \<Rightarrow> bool result" where
  "prefixMatch uni p f0 = (case f0 of None \<Rightarrow> Inr (GetFreshness (px_meta p) = FRESHNESS_ACTIVE)
     | Some f \<Rightarrow> if \<not> meta_match (px_meta p) f then Inr False
        else bindR (conflict_match (px_meta p) f) (\<lambda>ok.
          if \<not> ok then Inr False
          else if tf_multi_topology_ids f \<noteq> [] \<and>
            \<not> list_ex (\<lambda>i. i = px_multi_topology_id p) (tf_multi_topology_ids f) then Inr False
          else query_match uni (tf_query f) (px_meta p) [px_prefix p, px_forwarding_address p]))"

section \<open>Pages\<close>

definition pageBounds :: "Page option \<Rightarrow> nat \<times> string" where
  "pageBounds page = (case page of None \<Rightarrow> (100, [])
     | Some pg \<Rightarrow> (let size0 = unat (pg_page_size pg);
                      size1 = (if size0 \<le> 0 then 100 else size0);
                      size2 = (if size1 > 1000 then 1000 else size1)
                  in (size2, fst (DecodeString (pg_page_token pg)))))"

definition nextToken :: "string \<Rightarrow> bool \<Rightarrow> string" where
  "nextToken i has_more = (if \<not> has_more then [] else EncodeToString i)"

text \<open>
  The loop of a list call: elements that pass are appended until one more than the page holds has
  been found, which tells whether there is another page.
\<close>

fun page_scan :: "nat \<Rightarrow> ('a \<Rightarrow> bool result) \<Rightarrow> 'a list \<Rightarrow> 'a list \<Rightarrow> 'a list result" where
  "page_scan limit keep [] out = Inr out"
| "page_scan limit keep (v # vs) out = bindR (keep v) (\<lambda>ok.
     if \<not> ok then page_scan limit keep vs out
     else if length (out @ [v]) > limit then Inr (out @ [v]) else page_scan limit keep vs (out @ [v]))"

definition cut_page :: "nat \<Rightarrow> ('a \<Rightarrow> string) \<Rightarrow> 'a list \<Rightarrow> 'a list \<times> string" where
  "cut_page limit key out = (let has_more = length out > limit; out' = (if has_more then take limit out else out)
     in (out', if out' \<noteq> [] then nextToken (key (last out')) has_more else []))"

definition page_of ::
  "('a \<Rightarrow> string) \<Rightarrow> ('a \<Rightarrow> bool result) \<Rightarrow> Page option \<Rightarrow> 'a list \<Rightarrow> ('a list \<times> string) result" where
  "page_of key match page vs = (case pageBounds page of (limit, after) \<Rightarrow>
     bindR (page_scan limit (\<lambda>v. if key v \<le> after then Inr False else match v) vs [])
       (\<lambda>out. Inr (cut_page limit key out)))"

end
