(* ===== verification/Paging.thy ===== *)
theory Paging
  imports Filters Store
begin

text \<open>
  The contract that the list calls share: a client that follows the page tokens of an unchanged
  list gets every matching element exactly once, in order, and comes to an end.
\<close>

section \<open>A client\<close>

text \<open>The client asks for the next page until a response has no token; None says it ran out of fuel.\<close>

fun walk_pages ::
  "nat \<Rightarrow> (Page option \<Rightarrow> 'e + 'a list \<times> PageResult) \<Rightarrow> u32 \<Rightarrow> string \<Rightarrow> ('e + 'a list) option" where
  "walk_pages 0 page limit token = None"
| "walk_pages (Suc n) page limit token =
     (case page (Some \<lparr>pg_page_size = limit, pg_page_token = token\<rparr>) of Inl e \<Rightarrow> Some (Inl e)
      | Inr (vs, pr) \<Rightarrow> if pgr_next_page_token pr = [] then Some (Inr vs)
          else map_option (\<lambda>r. bindR r (\<lambda>rest. Inr (vs @ rest))) (walk_pages n page limit (pgr_next_page_token pr)))"

section \<open>One page\<close>

lemma page_scan_total:
  assumes "\<And>v. v \<in> set vs \<Longrightarrow> keep v = Inr (p v)" and "length out \<le> limit"
  shows "page_scan limit keep vs out = Inr (out @ take (Suc limit - length out) (filter p vs))"
  using assms
proof (induction vs arbitrary: out)
  case (Cons v vs)
  have k: "keep v = Inr (p v)" using Cons.prems(1) by simp
  have rest: "\<And>x. x \<in> set vs \<Longrightarrow> keep x = Inr (p x)" using Cons.prems(1) by simp
  show ?case
  proof (cases "p v")
    case False
    then show ?thesis using Cons.IH[OF rest Cons.prems(2)] by (simp add: k)
  next
    case True
    show ?thesis
    proof (cases "length out = limit")
      case True
      then show ?thesis using \<open>p v\<close> by (simp add: k)
    next
      case False
      then have "length (out @ [v]) \<le> limit" using Cons.prems(2) by simp
      then show ?thesis
        using Cons.IH[OF rest, of "out @ [v]"] \<open>p v\<close> False Cons.prems(2) by (simp add: k Suc_diff_le)
    qed
  qed
qed simp

lemma pageBounds_size: "0 < fst (pageBounds page) \<and> fst (pageBounds page) \<le> 1000"
  by (simp add: pageBounds_def Let_def split: option.split)

lemma pageBounds_token:
  "pageBounds (Some \<lparr>pg_page_size = limit, pg_page_token = EncodeToString i\<rparr>) =
     (fst (pageBounds (Some \<lparr>pg_page_size = limit, pg_page_token = []\<rparr>)), i)"
  by (simp add: pageBounds_def DecodeString_EncodeToString Let_def)

lemma DecodeString_Nil: "DecodeString [] = ([], True)"
  by (simp add: DecodeString_def)

lemma Nil_less_iff: "[] < (s :: string) \<longleftrightarrow> s \<noteq> []"
  by (cases s) simp_all

lemma EncodeToString_Nil_iff [simp]: "EncodeToString s = [] \<longleftrightarrow> s = []"
  by (cases s rule: EncodeToString.cases) (simp_all add: sextets_def)

lemma filter_after_take:
  assumes sorted: "sorted_wrt (\<lambda>x y. key x < (key y :: 'k::linorder)) L" and ne: "take n L \<noteq> []"
  shows "filter (\<lambda>v. key (last (take n L)) < key v) L = drop n L"
proof -
  let ?hd = "take n L" and ?a = "key (last (take n L))"
  have "sorted_wrt (\<lambda>x y. key x < key y) (butlast ?hd @ [last ?hd])"
    unfolding append_butlast_last_id[OF ne] using sorted by (rule sorted_wrt_take)
  then have "\<forall>x \<in> set (butlast ?hd @ [last ?hd]). \<not> ?a < key x" by (auto simp: sorted_wrt_append)
  then have "\<forall>x \<in> set ?hd. \<not> ?a < key x" unfolding append_butlast_last_id[OF ne] .
  moreover have "\<forall>x \<in> set (drop n L). ?a < key x"
  proof -
    have "sorted_wrt (\<lambda>x y. key x < key y) (?hd @ drop n L)" using sorted by simp
    then show ?thesis using last_in_set[OF ne] unfolding sorted_wrt_append by blast
  qed
  ultimately have "filter (\<lambda>v. ?a < key v) (?hd @ drop n L) = drop n L"
    unfolding filter_append by (simp add: filter_empty_conv filter_id_conv)
  then show ?thesis by simp
qed

section \<open>The contract\<close>

text \<open>
  A list call takes a snapshot, runs the page loop over one of its lists and answers with the
  elements it found, perhaps transformed, and the token of the next page.
\<close>

definition page_result :: "Snapshot \<Rightarrow> string \<Rightarrow> PageResult" where
  "page_result snap token =
     \<lparr>pgr_next_page_token = token, pgr_revision = sn_revision snap, pgr_observed_at = Some (sn_observed snap)\<rparr>"

locale page_query =
  fixes source :: "'q \<Rightarrow> 'e + Snapshot" and items :: "Snapshot \<Rightarrow> 'a list" and key :: "'a \<Rightarrow> string"
    and match :: "'q \<Rightarrow> 'a \<Rightarrow> bool result" and item :: "'a \<Rightarrow> 'b" and wrap :: "fault \<Rightarrow> 'e"
    and page :: "'q \<Rightarrow> Page option \<Rightarrow> 'e + 'b list \<times> PageResult"
  assumes page_eq: "page q pg = bindR (source q) (\<lambda>snap. case page_of key (match q) pg (items snap) of
      Inl e \<Rightarrow> Inl (wrap e) | Inr (out, token) \<Rightarrow> Inr (map item out, page_result snap token))"
begin

text \<open>The page after the identifier \<open>after\<close>.\<close>

lemma page_total:
  assumes "source q = Inr snap" and "\<And>v. v \<in> set (items snap) \<Longrightarrow> match q v = Inr (p v)"
    and "pageBounds pg = (limit, after)"
    and "out = take (Suc limit) (filter (\<lambda>v. after < key v \<and> p v) (items snap))"
  shows "page q pg = Inr (map item (fst (cut_page limit key out)), page_result snap (snd (cut_page limit key out)))"
proof -
  let ?keep = "\<lambda>v. if key v \<le> after then Inr False else match q v"
  have "?keep v = Inr (after < key v \<and> p v)" if "v \<in> set (items snap)" for v
    using assms(2)[OF that] by auto
  then have "page_scan limit ?keep (items snap) [] = Inr out"
    using page_scan_total[of "items snap" ?keep "\<lambda>v. after < key v \<and> p v" "[]" limit] by (simp add: assms(4))
  then show ?thesis
    by (simp add: page_eq page_of_def assms(1,3) split: prod.split)
qed

lemma walk_suffix:
  assumes source: "source q = Inr snap" and total: "\<And>v. v \<in> set (items snap) \<Longrightarrow> match q v = Inr (p v)"
    and sorted: "sorted_wrt (\<lambda>x y. key x < key y) (items snap)"
    and ids: "\<And>v. v \<in> set (items snap) \<Longrightarrow> key v \<noteq> []"
    and fuel: "length (filter (\<lambda>v. after < key v \<and> p v) (items snap)) < n"
  shows "walk_pages n (page q) limit (EncodeToString after) =
    Some (Inr (map item (filter (\<lambda>v. after < key v \<and> p v) (items snap))))"
  using fuel
proof (induction n arbitrary: after)
  case (Suc n)
  let ?sz = "fst (pageBounds (Some \<lparr>pg_page_size = limit, pg_page_token = []\<rparr>))"
  let ?L = "filter (\<lambda>v. after < key v \<and> p v) (items snap)"
  have pos: "0 < ?sz" using pageBounds_size by blast
  note pg = page_total[OF source total pageBounds_token[of limit after] refl]
  show ?case
  proof (cases "length ?L \<le> ?sz")
    case True
    then show ?thesis by (simp add: pg Let_def cut_page_def nextToken_def page_result_def)
  next
    case False
    let ?hd = "take ?sz ?L"
    let ?a = "key (last ?hd)"
    have ne: "?hd \<noteq> []" using False pos by auto
    then have "last ?hd \<in> set ?hd" by (rule last_in_set)
    then have l: "last ?hd \<in> set (items snap)" "after < ?a" using set_take_subset by fastforce+
    have "filter (\<lambda>v. ?a < key v \<and> p v) (items snap) = filter (\<lambda>v. ?a < key v) ?L"
      using l(2) by (auto intro!: filter_cong)
    also have "\<dots> = drop ?sz ?L" by (rule filter_after_take[OF sorted_wrt_filter[OF sorted] ne])
    finally have split: "filter (\<lambda>v. ?a < key v \<and> p v) (items snap) = drop ?sz ?L" .
    have "length (drop ?sz ?L) < n" using Suc.prems pos False by simp
    then have rest: "walk_pages n (page q) limit (EncodeToString ?a) = Some (Inr (map item (drop ?sz ?L)))"
      using Suc.IH[of ?a] unfolding split by blast
    have "walk_pages (Suc n) (page q) limit (EncodeToString after) =
        Some (Inr (map item ?hd @ map item (drop ?sz ?L)))"
      using False ne ids[OF l(1)] rest by (simp add: pg Let_def cut_page_def nextToken_def page_result_def)
    then show ?thesis by (simp flip: map_append)
  qed
qed simp

lemma walk_all:
  assumes "source q = Inr snap" and "\<And>v. v \<in> set (items snap) \<Longrightarrow> match q v = Inr (p v)"
    and "sorted_wrt (\<lambda>x y. key x < key y) (items snap)" and "\<And>v. v \<in> set (items snap) \<Longrightarrow> key v \<noteq> []"
    and "length (items snap) < n"
  shows "walk_pages n (page q) limit [] = Some (Inr (map item (filter p (items snap))))"
proof -
  have "filter (\<lambda>v. [] < key v \<and> p v) (items snap) = filter p (items snap)"
    by (rule filter_cong[OF refl]) (use assms(4) in \<open>simp add: Nil_less_iff\<close>)
  moreover have "length (filter p (items snap)) < n"
    using assms(5) length_filter_le[of p "items snap"] by linarith
  ultimately show ?thesis
    using walk_suffix[OF assms(1-4), where after = "[]" and n = n] by (simp only: EncodeToString.simps)
qed

end

end
