(* ===== verification/Netip.thy ===== *)
theory Netip
  imports Keys
begin

text \<open>
  What the program uses of Go's \<open>net/netip\<close>: parsing addresses and prefixes, the test whether a
  prefix contains an address, and the text of an address. An address is a 32-bit word or a 128-bit
  word with an optional zone; the zero value of \<open>netip.Addr\<close> is no address at all. Callers only
  ask whether parsing failed, so a parse error is the value None.
\<close>

unbundle bit_operations_syntax

datatype Addr = NoAddr | Addr4 "32 word" | Addr6 "128 word" string

datatype NetPrefix = NetPrefix Addr nat

fun Bits :: "NetPrefix \<Rightarrow> nat" where
  "Bits (NetPrefix a n) = n"

section \<open>Digits\<close>

definition digit_value :: "char \<Rightarrow> int option" where
  "digit_value c = (if CHR ''0'' \<le> c \<and> c \<le> CHR ''9'' then Some (of_char c - 48) else None)"

definition hex_value :: "char \<Rightarrow> u32 option" where
  "hex_value c = (if CHR ''0'' \<le> c \<and> c \<le> CHR ''9'' then Some (of_char c - 48)
     else if CHR ''a'' \<le> c \<and> c \<le> CHR ''f'' then Some (of_char c - 87)
     else if CHR ''A'' \<le> c \<and> c \<le> CHR ''F'' then Some (of_char c - 55) else None)"

fun digits_value :: "int \<Rightarrow> string \<Rightarrow> int option" where
  "digits_value acc [] = Some acc"
| "digits_value acc (c # cs) = (case digit_value c of None \<Rightarrow> None | Some d \<Rightarrow> digits_value (acc * 10 + d) cs)"

fun split_at :: "char \<Rightarrow> string \<Rightarrow> string list" where
  "split_at sep [] = [[]]"
| "split_at sep (c # cs) = (if c = sep then [] # split_at sep cs
     else case split_at sep cs of [] \<Rightarrow> [[c]] | p # ps \<Rightarrow> (c # p) # ps)"

section \<open>IPv4\<close>

definition parse_octet :: "string \<Rightarrow> u8 option" where
  "parse_octet s = (if s = [] \<or> (length s > 1 \<and> hd s = CHR ''0'') then None
     else case digits_value 0 s of None \<Rightarrow> None | Some v \<Rightarrow> if v > 255 then None else Some (of_int v))"

definition parse_octets :: "string \<Rightarrow> u8 list option" where
  "parse_octets s = (case map parse_octet (split_at (CHR ''.'') s) of
     [Some a, Some b, Some c, Some d] \<Rightarrow> Some [a, b, c, d] | _ \<Rightarrow> None)"

definition bytes_value :: "u8 list \<Rightarrow> 'a::len word" where
  "bytes_value bs = fold (\<lambda>b acc. push_bit 8 acc OR ucast b) bs 0"

definition parseIPv4 :: "string \<Rightarrow> Addr option" where
  "parseIPv4 s = map_option (\<lambda>bs. Addr4 (bytes_value bs)) (parse_octets s)"

section \<open>IPv6\<close>

text \<open>
  One group of hexadecimal digits: its value, its length, and None when it has more than four
  digits.
\<close>

fun hex_group :: "string \<Rightarrow> u32 \<Rightarrow> nat \<Rightarrow> (u32 \<times> nat \<times> string) option" where
  "hex_group [] acc off = Some (acc, off, [])"
| "hex_group (c # cs) acc off = (case hex_value c of None \<Rightarrow> Some (acc, off, c # cs)
     | Some d \<Rightarrow> if off > 3 then None else hex_group cs (push_bit 4 acc + d) (off + 1))"

text \<open>
  The loop over the groups: the bytes read so far, the position of the ellipsis, the text left.
  It runs at most eight times, so eight units of fuel are enough; running out of them is the loop's
  own exit with sixteen bytes.
\<close>

fun groups_loop :: "nat \<Rightarrow> string \<Rightarrow> u8 list \<Rightarrow> nat option \<Rightarrow> (u8 list \<times> nat option \<times> string) option" where
  "groups_loop 0 s ip ell = Some (ip, ell, s)"
| "groups_loop (Suc fuel) s ip ell = (if length ip \<ge> 16 then Some (ip, ell, s) else
     case hex_group s 0 0 of None \<Rightarrow> None
     | Some (acc, off, rest) \<Rightarrow>
        if off = 0 then None
        else if rest \<noteq> [] \<and> hd rest = CHR ''.'' then
          if (ell = None \<and> length ip \<noteq> 12) \<or> length ip + 4 > 16 then None
          else map_option (\<lambda>bs. (ip @ bs, ell, [])) (parse_octets s)
        else let ip' = ip @ [ucast (drop_bit 8 acc), ucast acc] in
        case rest of
          [] \<Rightarrow> Some (ip', ell, [])
        | [c] \<Rightarrow> None
        | c # d # cs \<Rightarrow> if c \<noteq> CHR '':'' then None
            else if d = CHR '':'' then
              (if ell \<noteq> None then None
               else if cs = [] then Some (ip', Some (length ip'), [])
               else groups_loop fuel cs ip' (Some (length ip')))
            else groups_loop fuel (d # cs) ip' ell)"

definition expand_ellipsis :: "u8 list \<Rightarrow> nat option \<Rightarrow> u8 list option" where
  "expand_ellipsis ip ell = (if length ip < 16 then
      (case ell of None \<Rightarrow> None | Some e \<Rightarrow> Some (take e ip @ replicate (16 - length ip) 0 @ drop e ip))
    else if ell \<noteq> None then None else Some ip)"

definition split_zone :: "string \<Rightarrow> (string \<times> string) option" where
  "split_zone s = (case dropWhile (\<lambda>c. c \<noteq> CHR ''%'') s of [] \<Rightarrow> Some (s, [])
     | c # zone \<Rightarrow> if zone = [] then None else Some (takeWhile (\<lambda>c. c \<noteq> CHR ''%'') s, zone))"

definition parseIPv6 :: "string \<Rightarrow> Addr option" where
  "parseIPv6 inp = (case split_zone inp of None \<Rightarrow> None | Some (s, zone) \<Rightarrow>
     if s = ''::'' then Some (Addr6 0 zone)
     else let lead = HasPrefix s ''::'';
              start = (if lead then drop 2 s else s);
              ell = (if lead then Some 0 else None)
       in case groups_loop 8 start [] ell of None \<Rightarrow> None
          | Some (ip, ell', rest) \<Rightarrow> if rest \<noteq> [] then None
              else map_option (\<lambda>bs. Addr6 (bytes_value bs) zone) (expand_ellipsis ip ell'))"

fun ParseAddr_from :: "string \<Rightarrow> string \<Rightarrow> Addr option" where
  "ParseAddr_from s [] = None"
| "ParseAddr_from s (c # cs) = (if c = CHR ''.'' then parseIPv4 s else if c = CHR '':'' then parseIPv6 s
     else if c = CHR ''%'' then None else ParseAddr_from s cs)"

definition ParseAddr :: "string \<Rightarrow> Addr option" where
  "ParseAddr s = ParseAddr_from s s"

section \<open>Prefixes\<close>

definition parse_bits :: "string \<Rightarrow> int option" where
  "parse_bits s = (if s = [] \<or> (length s > 1 \<and> hd s = CHR ''0'') then None else digits_value 0 s)"

definition ParsePrefix :: "string \<Rightarrow> NetPrefix option" where
  "ParsePrefix s = (if CHR ''/'' \<notin> set s then None else
     let bits = rev (takeWhile (\<lambda>c. c \<noteq> CHR ''/'') (rev s));
         addr = take (length s - length bits - 1) s
     in case (ParseAddr addr, parse_bits bits) of
          (Some (Addr4 a), Some n) \<Rightarrow> if n \<le> 32 then Some (NetPrefix (Addr4 a) (nat n)) else None
        | (Some (Addr6 a zone), Some n) \<Rightarrow> if zone = [] \<and> n \<le> 128 then Some (NetPrefix (Addr6 a []) (nat n)) else None
        | _ \<Rightarrow> None)"

fun Prefix_Contains :: "NetPrefix \<Rightarrow> Addr \<Rightarrow> bool" where
  "Prefix_Contains (NetPrefix (Addr4 p) n) (Addr4 a) = (drop_bit (32 - n) (a XOR p) = 0)"
| "Prefix_Contains (NetPrefix (Addr6 p z) n) (Addr6 a zone) = (zone = [] \<and> drop_bit (128 - n) (a XOR p) = 0)"
| "Prefix_Contains _ _ = False"

end
