(* ===== verification/Topology_API.thy ===== *)
theory Topology_API
  imports Store Graph Paging Netip
begin

text \<open>
  The read services of \<open>internal/api/topology.go\<close>: the topology, path and history calls over the
  store and the graph. An RPC error is a connect code with a Go error. A panic in a handler and a call
  that never returns are failures too. The outcome of the k-th \<open>stream.Send\<close> is an argument of the
  streaming calls.
\<close>

section \<open>Errors\<close>

datatype code = CodeNotFound | CodeInternal | CodeInvalidArgument | CodeAlreadyExists | CodeAborted | CodeUnimplemented
  | CodeFailedPrecondition

datatype failure = ConnectError code go_error | PlainError go_error | Crash | Stuck

type_synonym 'a response = "failure + 'a"

definition apiError :: "go_error \<Rightarrow> failure" where
  "apiError e = (if errors_Is e ErrNotFound then ConnectError CodeNotFound e else ConnectError CodeInternal e)"

text \<open>The result of a call that the handler turns into a response.\<close>

fun failure_of :: "fault \<Rightarrow> failure" where
  "failure_of (Error e) = apiError e"
| "failure_of Panic = Crash"
| "failure_of Hang = Stuck"

definition answer :: "'a result \<Rightarrow> 'a response" where
  "answer r = (case r of Inl f \<Rightarrow> Inl (failure_of f) | Inr x \<Rightarrow> Inr x)"

lemma answer_simps [simp]: "answer (Inr x) = Inr x" "answer (Inl f) = Inl (failure_of f)"
  by (simp_all add: answer_def)

definition snapshot ::
  "'db pebble \<Rightarrow> (string list \<Rightarrow> string list) \<Rightarrow> 'db Store \<Rightarrow> u64 \<Rightarrow> Snapshot response" where
  "snapshot P it s revision = answer (SnapshotAt P it s revision)"

section \<open>Summary\<close>

record GetSummaryResponse =
  gs_revision :: u64
  gs_observed_at :: "time option"
  gs_domain_count :: u64
  gs_node_count :: u64
  gs_link_count :: u64
  gs_prefix_count :: u64
  gs_peer_count :: u64
  gs_conflict_count :: u64
  gs_stale_count :: u64

text \<open>The counters that the three loops share, and the loop itself with the counter of its own list.\<close>

record tally =
  ty_domains :: "string list"
  ty_conflicts :: u64
  ty_stale :: u64

definition tally_one :: "EntityMeta \<Rightarrow> tally \<Rightarrow> tally" where
  "tally_one m t = \<lparr>ty_domains = List.insert (em_domain_id m) (ty_domains t),
     ty_conflicts = (if em_conflicts m \<noteq> [] then ty_conflicts t + 1 else ty_conflicts t),
     ty_stale = (if em_freshness m \<noteq> FRESHNESS_ACTIVE then ty_stale t + 1 else ty_stale t)\<rparr>"

fun tally_loop ::
  "('a \<Rightarrow> bool result) \<Rightarrow> ('a \<Rightarrow> EntityMeta option) \<Rightarrow> 'a list \<Rightarrow> u64 \<Rightarrow> tally \<Rightarrow> (u64 \<times> tally) result" where
  "tally_loop match meta [] n t = Inr (n, t)"
| "tally_loop match meta (v # vs) n t = bindR (match v) (\<lambda>ok.
     if \<not> ok then tally_loop match meta vs n t
     else bindR (deref (meta v)) (\<lambda>m. tally_loop match meta vs (n + 1) (tally_one m t)))"

definition GetSummary ::
  "(string \<Rightarrow> string) \<Rightarrow> (string list \<Rightarrow> string list) \<Rightarrow> 'db Store \<Rightarrow> TopologyFilter option
    \<Rightarrow> GetSummaryResponse response" where
  "GetSummary uni it s f = (let snap = Store_Snapshot it s in answer
     (bindR (tally_loop (\<lambda>n. nodeMatch uni n f) nd_meta (sn_nodes snap) 0
               \<lparr>ty_domains = [], ty_conflicts = 0, ty_stale = 0\<rparr>) (\<lambda>(nodes, t1).
      bindR (tally_loop (\<lambda>l. linkMatch uni l f) lk_meta (sn_links snap) 0 t1) (\<lambda>(links, t2).
      bindR (tally_loop (\<lambda>p. prefixMatch uni p f) px_meta (sn_prefixes snap) 0 t2) (\<lambda>(prefixes, t3).
      Inr \<lparr>gs_revision = sn_revision snap, gs_observed_at = Some (sn_observed snap),
           gs_domain_count = of_nat (length (ty_domains t3)), gs_node_count = nodes,
           gs_link_count = links, gs_prefix_count = prefixes,
           gs_peer_count = of_nat (length (sn_peers snap)),
           gs_conflict_count = ty_conflicts t3, gs_stale_count = ty_stale t3\<rparr>)))))"

section \<open>Lists of entities\<close>

definition list_page :: "('a list \<times> string) result \<Rightarrow> Snapshot \<Rightarrow> ('a list \<times> PageResult) response" where
  "list_page r snap = bindR (answer r) (\<lambda>(out, token). Inr (out, page_result snap token))"

definition ListDomains ::
  "(string list \<Rightarrow> string list) \<Rightarrow> 'db Store \<Rightarrow> Page option \<Rightarrow> (Domain list \<times> PageResult) response" where
  "ListDomains it s page = (let snap = Store_Snapshot it s in
     list_page (page_of dm_id (\<lambda>v. Inr True) page (sn_domains snap)) snap)"

record ListRequest =
  lr_filter :: "TopologyFilter option"
  lr_page :: "Page option"
  lr_revision :: u64

definition ListNodes ::
  "'db pebble \<Rightarrow> (string \<Rightarrow> string) \<Rightarrow> (string list \<Rightarrow> string list) \<Rightarrow> 'db Store \<Rightarrow> ListRequest
    \<Rightarrow> (Node list \<times> PageResult) response" where
  "ListNodes P uni it s req = bindR (snapshot P it s (lr_revision req)) (\<lambda>snap.
     list_page (page_of node_id (\<lambda>v. nodeMatch uni v (lr_filter req)) (lr_page req) (sn_nodes snap)) snap)"

definition ListLinks ::
  "'db pebble \<Rightarrow> (string \<Rightarrow> string) \<Rightarrow> (string list \<Rightarrow> string list) \<Rightarrow> 'db Store \<Rightarrow> ListRequest
    \<Rightarrow> (Link list \<times> PageResult) response" where
  "ListLinks P uni it s req = bindR (snapshot P it s (lr_revision req)) (\<lambda>snap.
     list_page (page_of link_id (\<lambda>v. linkMatch uni v (lr_filter req)) (lr_page req) (sn_links snap)) snap)"

definition ListPrefixes ::
  "'db pebble \<Rightarrow> (string \<Rightarrow> string) \<Rightarrow> (string list \<Rightarrow> string list) \<Rightarrow> 'db Store \<Rightarrow> ListRequest
    \<Rightarrow> (Prefix list \<times> PageResult) response" where
  "ListPrefixes P uni it s req = bindR (snapshot P it s (lr_revision req)) (\<lambda>snap.
     list_page (page_of prefix_id (\<lambda>v. prefixMatch uni v (lr_filter req)) (lr_page req) (sn_prefixes snap)) snap)"

section \<open>One entity\<close>

record GetRequest =
  gr_id :: string
  gr_revision :: u64
  gr_include_stale :: bool

fun find_entity :: "('a \<Rightarrow> EntityMeta option) \<Rightarrow> string \<Rightarrow> bool \<Rightarrow> 'a list \<Rightarrow> 'a option result" where
  "find_entity meta i includeStale [] = Inr None"
| "find_entity meta i includeStale (v # vs) =
     (if GetId (meta v) = i then
        if includeStale then Inr (Some v)
        else bindR (deref (meta v)) (\<lambda>m. if em_freshness m = FRESHNESS_ACTIVE then Inr (Some v)
               else find_entity meta i includeStale vs)
      else find_entity meta i includeStale vs)"

definition get_entity ::
  "('a \<Rightarrow> EntityMeta option) \<Rightarrow> string \<Rightarrow> GetRequest \<Rightarrow> Snapshot \<Rightarrow> 'a list \<Rightarrow> ('a \<times> u64) response" where
  "get_entity meta missing req snap vs =
     bindR (answer (find_entity meta (gr_id req) (gr_include_stale req) vs)) (\<lambda>r. case r of
       None \<Rightarrow> Inl (ConnectError CodeNotFound (New missing)) | Some v \<Rightarrow> Inr (v, sn_revision snap))"

definition GetNode ::
  "'db pebble \<Rightarrow> (string list \<Rightarrow> string list) \<Rightarrow> 'db Store \<Rightarrow> GetRequest \<Rightarrow> (Node \<times> u64) response" where
  "GetNode P it s req = bindR (snapshot P it s (gr_revision req)) (\<lambda>snap.
     get_entity nd_meta ''node not found'' req snap (sn_nodes snap))"

definition GetLink ::
  "'db pebble \<Rightarrow> (string list \<Rightarrow> string list) \<Rightarrow> 'db Store \<Rightarrow> GetRequest \<Rightarrow> (Link \<times> u64) response" where
  "GetLink P it s req = bindR (snapshot P it s (gr_revision req)) (\<lambda>snap.
     get_entity lk_meta ''link not found'' req snap (sn_links snap))"

definition GetPrefix ::
  "'db pebble \<Rightarrow> (string list \<Rightarrow> string list) \<Rightarrow> 'db Store \<Rightarrow> GetRequest \<Rightarrow> (Prefix \<times> u64) response" where
  "GetPrefix P it s req = bindR (snapshot P it s (gr_revision req)) (\<lambda>snap.
     get_entity px_meta ''prefix not found'' req snap (sn_prefixes snap))"

section \<open>Neighbours and search\<close>

record GetNeighborsRequest =
  nb_node_id :: string
  nb_filter :: "TopologyFilter option"
  nb_revision :: u64

definition other_end :: "string \<Rightarrow> Link \<Rightarrow> string option" where
  "other_end i l = (if lk_local_node_id l = i then Some (lk_remote_node_id l)
     else if lk_remote_node_id l = i then Some (lk_local_node_id l) else None)"

fun neighbors_loop ::
  "(Link \<Rightarrow> bool result) \<Rightarrow> string \<Rightarrow> Node gomap \<Rightarrow> Link list \<Rightarrow> Node list \<Rightarrow> Link list \<Rightarrow> string list
    \<Rightarrow> (Node list \<times> Link list) result" where
  "neighbors_loop match i nodes [] outN outL seen = Inr (outN, outL)"
| "neighbors_loop match i nodes (l # ls) outN outL seen = bindR (match l) (\<lambda>ok.
     if \<not> ok then neighbors_loop match i nodes ls outN outL seen
     else case other_end i l of None \<Rightarrow> neighbors_loop match i nodes ls outN outL seen
     | Some other \<Rightarrow> (case (other \<in> set seen, fmlookup nodes other) of
           (False, Some n) \<Rightarrow> neighbors_loop match i nodes ls (outN @ [n]) (outL @ [l]) (other # seen)
         | _ \<Rightarrow> neighbors_loop match i nodes ls outN (outL @ [l]) seen))"

definition GetNeighbors ::
  "'db pebble \<Rightarrow> (string \<Rightarrow> string) \<Rightarrow> (string list \<Rightarrow> string list) \<Rightarrow> 'db Store \<Rightarrow> GetNeighborsRequest
    \<Rightarrow> ((Node list \<times> Link list) \<times> u64) response" where
  "GetNeighbors P uni it s req = bindR (snapshot P it s (nb_revision req)) (\<lambda>snap.
     answer (bindR (neighbors_loop (\<lambda>l. linkMatch uni l (nb_filter req)) (nb_node_id req)
       (index_by node_id (sn_nodes snap)) (sn_links snap) [] [] []) (\<lambda>r. Inr (r, sn_revision snap))))"

record ResolveRequest =
  rr_query :: string
  rr_domain_id :: string
  rr_limit :: u32

record ResolveResponse =
  rs_nodes :: "Node list"
  rs_links :: "Link list"
  rs_prefixes :: "Prefix list"
  rs_revision :: u64

definition in_domain :: "EntityMeta option \<Rightarrow> string \<Rightarrow> bool result" where
  "in_domain m domain = (if domain \<noteq> [] then bindR (deref m) (\<lambda>x. Inr (em_domain_id x = domain)) else Inr True)"

definition resolve_test ::
  "EntityMeta option \<Rightarrow> string \<Rightarrow> (EntityMeta \<Rightarrow> bool) \<Rightarrow> bool result" where
  "resolve_test m domain test = bindR (in_domain m domain) (\<lambda>ok.
     if \<not> ok then Inr False else bindR (deref m) (\<lambda>x. Inr (test x)))"

text \<open>The loops stop as soon as they hold \<open>limit\<close> elements, that is more than \<open>limit - 1\<close>.\<close>

definition Resolve ::
  "(string \<Rightarrow> string) \<Rightarrow> (string list \<Rightarrow> string list) \<Rightarrow> 'db Store \<Rightarrow> ResolveRequest \<Rightarrow> ResolveResponse response" where
  "Resolve uni it s req =
     (let snap = Store_Snapshot it s;
          limit0 = unat (rr_limit req);
          limit = (if limit0 \<le> 0 \<or> limit0 > 100 then 20 else limit0);
          q = ToLower uni (rr_query req);
          sub = (\<lambda>x. Contains (ToLower uni x) q);
          domain = rr_domain_id req
      in answer
        (bindR (page_scan (limit - 1) (\<lambda>n. resolve_test (nd_meta n) domain (\<lambda>m. sub (em_id m) \<or> sub (nd_name n)
           \<or> sub (nd_igp_router_id n) \<or> sub (nd_bgp_router_id n) \<or> sub (nd_ipv4_router_id n)
           \<or> sub (nd_ipv6_router_id n))) (sn_nodes snap) []) (\<lambda>nodes.
         bindR (page_scan (limit - 1) (\<lambda>l. resolve_test (lk_meta l) domain (\<lambda>m. sub (em_id m)
           \<or> lk_local_address l = rr_query req \<or> lk_remote_address l = rr_query req
           \<or> lk_local_ipv4_address l = rr_query req \<or> lk_remote_ipv4_address l = rr_query req
           \<or> lk_local_ipv6_address l = rr_query req \<or> lk_remote_ipv6_address l = rr_query req)) (sn_links snap) [])
           (\<lambda>links.
         bindR (page_scan (limit - 1) (\<lambda>p. resolve_test (px_meta p) domain (\<lambda>m. sub (em_id m) \<or> sub (px_prefix p)))
           (sn_prefixes snap) []) (\<lambda>prefixes.
         Inr \<lparr>rs_nodes = nodes, rs_links = links, rs_prefixes = prefixes, rs_revision = sn_revision snap\<rparr>)))))"

section \<open>Streams\<close>

record StreamSnapshotResponse =
  ss_revision :: u64
  ss_domains :: "Domain list"
  ss_nodes :: "Node list"
  ss_links :: "Link list"
  ss_prefixes :: "Prefix list"
  ss_last :: bool

definition chunkSize :: nat where
  "chunkSize = 500"

text \<open>
  Each of the three inner loops takes elements from the front of what is left, \<open>room\<close> being the
  space the earlier lists leave in the message.
\<close>

fun fill :: "nat \<Rightarrow> ('a \<Rightarrow> bool result) \<Rightarrow> 'a list \<Rightarrow> 'a list \<Rightarrow> ('a list \<times> 'a list) result" where
  "fill room match [] out = Inr (out, [])"
| "fill room match (v # vs) out = (if length out < room
     then bindR (match v) (\<lambda>ok. fill room match vs (if ok then out @ [v] else out))
     else Inr (out, v # vs))"

type_synonym pending = "Node list \<times> Link list \<times> Prefix list"

definition chunk ::
  "(string \<Rightarrow> string) \<Rightarrow> TopologyFilter option \<Rightarrow> Snapshot \<Rightarrow> bool \<Rightarrow> pending
    \<Rightarrow> (StreamSnapshotResponse \<times> pending) result" where
  "chunk uni f snap is_first left = (case left of (ns, ls, ps) \<Rightarrow>
     bindR (fill chunkSize (\<lambda>n. nodeMatch uni n f) ns []) (\<lambda>(outN, ns').
     bindR (fill (chunkSize - length outN) (\<lambda>l. linkMatch uni l f) ls []) (\<lambda>(outL, ls').
     bindR (fill (chunkSize - length outN - length outL) (\<lambda>p. prefixMatch uni p f) ps []) (\<lambda>(outP, ps').
     Inr (\<lparr>ss_revision = sn_revision snap, ss_domains = (if is_first then sn_domains snap else []),
           ss_nodes = outN, ss_links = outL, ss_prefixes = outP,
           ss_last = (ns' = [] \<and> ls' = [] \<and> ps' = [])\<rparr>, ns', ls', ps')))))"

definition pending_size :: "pending \<Rightarrow> nat" where
  "pending_size left = (case left of (ns, ls, ps) \<Rightarrow> length ns + length ls + length ps)"

lemma fill_shrinks:
  "fill room match vs out = Inr (out', vs') \<Longrightarrow>
     length vs' \<le> length vs \<and> (vs \<noteq> [] \<and> length out < room \<longrightarrow> length vs' < length vs)"
proof (induction vs arbitrary: out)
  case (Cons v vs)
  show ?case
  proof (cases "length out < room")
    case True
    with Cons.prems obtain ok where
      "fill room match vs (if ok then out @ [v] else out) = Inr (out', vs')"
      by (auto simp: bindR_Inr_iff)
    from Cons.IH[OF this] show ?thesis by auto
  qed (use Cons.prems in auto)
qed simp

lemma fill_empty: "fill room match [] out = Inr (out', vs') \<longleftrightarrow> out' = out \<and> vs' = []"
  by auto

lemma chunk_shrinks:
  assumes "chunk uni f snap is_first left = Inr (msg, left')"
  shows "pending_size left' \<le> pending_size left \<and> (0 < pending_size left \<longrightarrow> pending_size left' < pending_size left)"
proof -
  obtain ns ls ps where l: "left = (ns, ls, ps)" by (cases left)
  obtain outN ns' outL ls' outP ps' where
    n: "fill chunkSize (\<lambda>n. nodeMatch uni n f) ns [] = Inr (outN, ns')"
    and k: "fill (chunkSize - length outN) (\<lambda>l. linkMatch uni l f) ls [] = Inr (outL, ls')"
    and p: "fill (chunkSize - length outN - length outL) (\<lambda>p. prefixMatch uni p f) ps [] = Inr (outP, ps')"
    and left': "left' = (ns', ls', ps')"
    using assms unfolding chunk_def l by (auto simp: bindR_Inr_iff)
  have nsh: "length ns' \<le> length ns" "ns \<noteq> [] \<longrightarrow> length ns' < length ns"
    using fill_shrinks[OF n] by (simp_all add: chunkSize_def)
  have ksh: "length ls' \<le> length ls" "ls \<noteq> [] \<and> outN = [] \<longrightarrow> length ls' < length ls"
    using fill_shrinks[OF k] by (auto simp: chunkSize_def)
  have psh: "length ps' \<le> length ps" "ps \<noteq> [] \<and> outN = [] \<and> outL = [] \<longrightarrow> length ps' < length ps"
    using fill_shrinks[OF p] by (auto simp: chunkSize_def)
  have "ns = [] \<longrightarrow> outN = []" "ls = [] \<longrightarrow> outL = []" using n k by (auto simp: fill_empty)
  then show ?thesis using nsh ksh psh unfolding l left' pending_size_def by auto
qed

function stream_loop ::
  "(string \<Rightarrow> string) \<Rightarrow> TopologyFilter option \<Rightarrow> Snapshot \<Rightarrow> (nat \<Rightarrow> go_error option) \<Rightarrow> bool \<Rightarrow> pending
    \<Rightarrow> StreamSnapshotResponse list \<Rightarrow> StreamSnapshotResponse list \<times> unit response" where
  "stream_loop uni f snap send is_first left sent =
     (if pending_size left = 0 \<and> \<not> is_first then (sent, Inr ())
      else case chunk uni f snap is_first left of Inl e \<Rightarrow> (sent, answer (Inl e))
        | Inr (msg, left') \<Rightarrow> (case send (length sent) of Some e \<Rightarrow> (sent, Inl (PlainError e))
            | None \<Rightarrow> stream_loop uni f snap send False left' (sent @ [msg])))"
  by pat_completeness auto

termination
  by (relation "measure (\<lambda>(uni, f, snap, send, is_first, left, sent). pending_size left + (if is_first then 1 else 0))")
    (auto dest: chunk_shrinks)

declare stream_loop.simps [simp del]

definition StreamSnapshot ::
  "'db pebble \<Rightarrow> (string \<Rightarrow> string) \<Rightarrow> (string list \<Rightarrow> string list) \<Rightarrow> 'db Store \<Rightarrow> TopologyFilter option \<Rightarrow> u64
    \<Rightarrow> (nat \<Rightarrow> go_error option) \<Rightarrow> StreamSnapshotResponse list \<times> unit response" where
  "StreamSnapshot P uni it s f revision send = (case snapshot P it s revision of Inl e \<Rightarrow> ([], Inl e)
     | Inr snap \<Rightarrow> stream_loop uni f snap send True (sn_nodes snap, sn_links snap, sn_prefixes snap) [])"

text \<open>
  \<open>WatchTopology\<close> subscribes and forwards what it receives until the channel is closed. The events
  it receives are an argument of the second part, since they come while the store goes on; \<open>ctxErr\<close>
  is the error state of the context when the channel is closed.
\<close>

definition watch_open ::
  "'db pebble \<Rightarrow> u64 \<Rightarrow> 'db Store \<Rightarrow> 'db Store \<times> nat response" where
  "watch_open P after s = (let oldest = OldestRevision P s in
     if 0 < oldest \<and> after + 1 < oldest
     then (s, Inl (ConnectError CodeFailedPrecondition
            (New (''revision expired; oldest available is '' @ Sprint_u64 oldest))))
     else case Subscribe P after s of (s', r) \<Rightarrow> (s', answer r))"

fun watch_loop ::
  "TopologyFilter option \<Rightarrow> (nat \<Rightarrow> go_error option) \<Rightarrow> go_error option \<Rightarrow> TopologyEvent list
    \<Rightarrow> TopologyEvent list \<Rightarrow> TopologyEvent list \<times> unit response" where
  "watch_loop f send ctxErr [] sent = (sent, case ctxErr of None \<Rightarrow> Inr () | Some e \<Rightarrow> Inl (PlainError e))"
| "watch_loop f send ctxErr (event # events) sent =
     (if (case f of None \<Rightarrow> False | Some x \<Rightarrow> \<not> containsString (tf_domain_ids x) (ev_domain_id event))
      then watch_loop f send ctxErr events sent
      else case send (length sent) of Some e \<Rightarrow> (sent, Inl (PlainError e))
        | None \<Rightarrow> watch_loop f send ctxErr events (sent @ [event]))"

end
