(* ===== verification/Path_API.thy ===== *)
theory Path_API
  imports Topology_API
begin

text \<open>
  The path and history services of \<open>internal/api/topology.go\<close>: resolving the ends of a path,
  computing paths and failure impact on the links of one domain, paging through the event log and
  the difference between two revisions.
\<close>

section \<open>Selecting a domain\<close>

fun filter_domain :: "('a \<Rightarrow> EntityMeta option) \<Rightarrow> string \<Rightarrow> 'a list \<Rightarrow> 'a list \<Rightarrow> 'a list result" where
  "filter_domain meta domain [] out = Inr out"
| "filter_domain meta domain (v # vs) out = bindR (deref (meta v)) (\<lambda>m.
     filter_domain meta domain vs (if em_domain_id m = domain then out @ [v] else out))"

definition filterDomainNodes :: "Node list \<Rightarrow> string \<Rightarrow> Node list result" where
  "filterDomainNodes values domain = filter_domain nd_meta domain values []"

definition filterDomainLinks :: "Link list \<Rightarrow> string \<Rightarrow> Link list result" where
  "filterDomainLinks values domain = filter_domain lk_meta domain values []"

definition filterDomainPrefixes :: "Prefix list \<Rightarrow> string \<Rightarrow> Prefix list result" where
  "filterDomainPrefixes values domain = filter_domain px_meta domain values []"

section \<open>Resolving a node\<close>

fun resolve_nodes :: "string \<Rightarrow> string \<Rightarrow> Node list \<Rightarrow> string option result" where
  "resolve_nodes domain q [] = Inr None"
| "resolve_nodes domain q (n # ns) = bindR (deref (nd_meta n)) (\<lambda>m.
     if em_domain_id m = domain \<and> (em_id m = q \<or> nd_name n = q \<or> nd_igp_router_id n = q
        \<or> nd_bgp_router_id n = q \<or> nd_ipv4_router_id n = q \<or> nd_ipv6_router_id n = q)
     then Inr (Some (em_id m)) else resolve_nodes domain q ns)"

text \<open>The longest prefix of the domain that contains the address; \<open>bestBits\<close> starts at -1.\<close>

fun resolve_prefixes :: "string \<Rightarrow> Addr \<Rightarrow> Prefix list \<Rightarrow> int \<Rightarrow> string \<Rightarrow> string result" where
  "resolve_prefixes domain addr [] bestBits best = Inr best"
| "resolve_prefixes domain addr (p # ps) bestBits best = bindR (deref (px_meta p)) (\<lambda>m.
     if em_domain_id m \<noteq> domain then resolve_prefixes domain addr ps bestBits best
     else case ParsePrefix (px_prefix p) of None \<Rightarrow> resolve_prefixes domain addr ps bestBits best
       | Some net \<Rightarrow> if Prefix_Contains net addr \<and> int (Bits net) > bestBits
           then resolve_prefixes domain addr ps (int (Bits net)) (px_origin_node_id p)
           else resolve_prefixes domain addr ps bestBits best)"

definition resolveNodeID :: "Snapshot \<Rightarrow> string \<Rightarrow> string \<Rightarrow> string result" where
  "resolveNodeID snap domain q = bindR (resolve_nodes domain q (sn_nodes snap)) (\<lambda>r. case r of
     Some i \<Rightarrow> Inr i
   | None \<Rightarrow> (case ParseAddr q of None \<Rightarrow> Inr []
       | Some addr \<Rightarrow> resolve_prefixes domain addr (sn_prefixes snap) (-1) []))"

section \<open>Paths and impact\<close>

record ComputePathsRequest =
  rq_domain_id :: string
  rq_source :: string
  rq_destination :: string
  rq_metric :: PathMetric
  rq_constraints :: "PathConstraints option"
  rq_max_paths :: u32
  rq_revision :: u64

record ComputePathsResponse =
  rp_paths :: "ComputedPath list"
  rp_revision :: u64
  rp_explanation :: string

definition ComputePaths ::
  "'db pebble \<Rightarrow> (string list \<Rightarrow> string list) \<Rightarrow> 'db Store \<Rightarrow> ComputePathsRequest \<Rightarrow> ComputePathsResponse response" where
  "ComputePaths P it s req = bindR (snapshot P it s (rq_revision req)) (\<lambda>snap.
     bindR (answer (resolveNodeID snap (rq_domain_id req) (rq_source req))) (\<lambda>source.
     bindR (answer (resolveNodeID snap (rq_domain_id req) (rq_destination req))) (\<lambda>destination.
     if source = [] \<or> destination = [] then Inl (ConnectError CodeNotFound
       (New ''source or destination could not be resolved in the requested domain''))
     else bindR (answer (filterDomainNodes (sn_nodes snap) (rq_domain_id req))) (\<lambda>nodes.
     bindR (answer (filterDomainLinks (sn_links snap) (rq_domain_id req))) (\<lambda>links.
     case ComputeMany (NewGraph (sn_revision snap) nodes links) source destination (rq_metric req)
            (rq_constraints req) (uint (rq_max_paths req)) of
       Inl (Error e) \<Rightarrow> Inr \<lparr>rp_paths = [], rp_revision = sn_revision snap, rp_explanation = error_text e\<rparr>
     | Inl Panic \<Rightarrow> Inl Crash
     | Inl Hang \<Rightarrow> Inl Stuck
     | Inr paths \<Rightarrow> Inr \<lparr>rp_paths = paths, rp_revision = sn_revision snap, rp_explanation = []\<rparr>)))))"

record AnalyzeImpactRequest =
  iq_domain_id :: string
  iq_failed_node_ids :: "string list"
  iq_failed_link_ids :: "string list"
  iq_revision :: u64

definition AnalyzeImpact ::
  "'db pebble \<Rightarrow> (string list \<Rightarrow> string list) \<Rightarrow> 'db Store \<Rightarrow> AnalyzeImpactRequest \<Rightarrow> AnalyzeImpactResponse response" where
  "AnalyzeImpact P it s req = bindR (snapshot P it s (iq_revision req)) (\<lambda>snap.
     bindR (answer (filterDomainNodes (sn_nodes snap) (iq_domain_id req))) (\<lambda>nodes.
     bindR (answer (filterDomainLinks (sn_links snap) (iq_domain_id req))) (\<lambda>links.
     bindR (answer (filterDomainPrefixes (sn_prefixes snap) (iq_domain_id req))) (\<lambda>prefixes.
     Inr (Analyze it (NewGraph (sn_revision snap) nodes links)
            (iq_failed_node_ids req) (iq_failed_link_ids req) prefixes)))))"

section \<open>History\<close>

record ListChangesRequest =
  lq_after_revision :: u64
  lq_before_revision :: u64
  lq_filter :: "TopologyFilter option"
  lq_page :: "Page option"

record ListChangesResponse =
  lc_events :: "TopologyEvent list"
  lc_page :: PageResult
  lc_oldest_available_revision :: u64

text \<open>\<open>strconv.ParseUint\<close> in base 10 with its error: digits only, and within 64 bits.\<close>

definition parse_cursor :: "string \<Rightarrow> u64 option" where
  "parse_cursor s = (if s = [] then None else case digits_value 0 s of None \<Rightarrow> None
     | Some v \<Rightarrow> if v < 18446744073709551616 then Some (of_int v) else None)"

definition changes_after :: "u64 \<Rightarrow> Page option \<Rightarrow> u64" where
  "changes_after after page = (case page of None \<Rightarrow> after
     | Some pg \<Rightarrow> if pg_page_token pg = [] then after
        else case DecodeString (pg_page_token pg) of (decoded, ok) \<Rightarrow>
          if \<not> ok then after
          else case parse_cursor decoded of None \<Rightarrow> after | Some cursor \<Rightarrow> if after < cursor then cursor else after)"

definition in_filter :: "TopologyFilter option \<Rightarrow> TopologyEvent \<Rightarrow> bool" where
  "in_filter f e = (case f of None \<Rightarrow> True | Some x \<Rightarrow> containsString (tf_domain_ids x) (ev_domain_id e))"

definition ListChanges ::
  "'db pebble \<Rightarrow> 'db Store \<Rightarrow> ListChangesRequest \<Rightarrow> ListChangesResponse response" where
  "ListChanges P s req =
     (let limit = fst (pageBounds (lq_page req)); after = changes_after (lq_after_revision req) (lq_page req)
      in case Events P s after (lq_before_revision req) (int limit + 1) of Inl e \<Rightarrow> Inl (apiError e)
         | Inr events0 \<Rightarrow>
             (case cut_page limit (\<lambda>e. Sprint_u64 (ev_revision e)) (filter (in_filter (lq_filter req)) events0) of
               (events, token) \<Rightarrow> Inr \<lparr>lc_events = events,
                  lc_page = \<lparr>pgr_next_page_token = token, pgr_revision = Store_Revision s, pgr_observed_at = None\<rparr>,
                  lc_oldest_available_revision = OldestRevision P s\<rparr>))"

partial_function (option) diff_loop ::
  "(u64 \<Rightarrow> go_error + TopologyEvent list) \<Rightarrow> TopologyFilter option \<Rightarrow> u64 \<Rightarrow> u64 \<Rightarrow> TopologyEvent list
    \<Rightarrow> (go_error + TopologyEvent list) option" where
  "diff_loop events_after f cursor to out =
     (if \<not> cursor < to then Some (Inr out)
      else case events_after cursor of Inl e \<Rightarrow> Some (Inl e)
        | Inr events \<Rightarrow> if events = [] then Some (Inr out)
            else diff_loop events_after f (ev_revision (last events)) to (out @ filter (in_filter f) events))"

declare diff_loop.simps [code]

definition DiffTopology ::
  "'db pebble \<Rightarrow> 'db Store \<Rightarrow> u64 \<Rightarrow> u64 \<Rightarrow> TopologyFilter option \<Rightarrow> TopologyEvent list response" where
  "DiffTopology P s from to f =
     (if to \<le> from then Inl (ConnectError CodeInvalidArgument (New ''from_revision must be less than to_revision''))
      else case diff_loop (\<lambda>cursor. Events P s cursor to 10000) f from to [] of
          None \<Rightarrow> Inl Stuck
        | Some (Inl e) \<Rightarrow> Inl (apiError e)
        | Some (Inr out) \<Rightarrow> Inr out)"

end
