(* ===== verification/Graph_Impact.thy ===== *)
theory Graph_Impact
  imports Graph_Paths
begin

text \<open>
  The failure analysis of \<open>internal/topology/graph.go\<close>: \<open>Analyze\<close> removes the failed nodes and
  links, reads the remaining links as undirected and reports the connected components. The
  specification is reachability over surviving links; the lemmas follow the breadth-first
  search, the loop over the nodes and the final sort.
\<close>

section \<open>Surviving nodes and links\<close>

definition survives :: "Graph \<Rightarrow> string list \<Rightarrow> string \<Rightarrow> bool" where
  "survives g failedNodes x \<longleftrightarrow> x \<in> fmdom' (g_nodes g) \<and> x \<notin> set failedNodes"

definition linked :: "Graph \<Rightarrow> string list \<Rightarrow> string list \<Rightarrow> string \<Rightarrow> string \<Rightarrow> bool" where
  "linked g failedNodes failedLinks x y \<longleftrightarrow> (\<exists>i l. fmlookup (g_links g) i = Some l \<and>
     i \<notin> set failedLinks \<and> lk_local_node_id l \<notin> set failedNodes \<and> lk_remote_node_id l \<notin> set failedNodes \<and>
     (lk_local_node_id l = x \<and> lk_remote_node_id l = y \<or> lk_remote_node_id l = x \<and> lk_local_node_id l = y))"

abbreviation connected :: "Graph \<Rightarrow> string list \<Rightarrow> string list \<Rightarrow> string \<Rightarrow> string \<Rightarrow> bool" where
  "connected g fn fl \<equiv> (linked g fn fl)\<^sup>*\<^sup>*"

definition graph_closed :: "Graph \<Rightarrow> bool" where
  "graph_closed g \<longleftrightarrow> (\<forall>i l. fmlookup (g_links g) i = Some l \<longrightarrow>
     lk_local_node_id l \<in> fmdom' (g_nodes g) \<and> lk_remote_node_id l \<in> fmdom' (g_nodes g))"

lemma fold_add_link_closed:
  "graph_closed g \<Longrightarrow> graph_closed (fold add_link ls g)"
proof (induction ls arbitrary: g)
  case (Cons l ls)
  have "graph_closed (add_link l g)"
    using Cons.prems by (auto simp: graph_closed_def add_link_eq link_admitted_def)
  then show ?case using Cons.IH by simp
qed simp

lemma graph_closed_NewGraph [simp]: "graph_closed (NewGraph r ns ls)"
proof -
  let ?g0 = "\<lparr>g_revision = r, g_nodes = fmempty, g_links = fmempty, g_adj = fmempty\<rparr>"
  have "graph_closed (fold add_node ns ?g0)" by (simp add: graph_closed_def fold_add_node)
  from fold_add_link_closed[OF this, of ls] show ?thesis
    by (simp add: graph_closed_def NewGraph_def Let_def)
qed

lemma linked_sym: "linked g fn fl x y \<Longrightarrow> linked g fn fl y x"
  by (auto simp: linked_def)

lemma connected_sym: "connected g fn fl x y \<Longrightarrow> connected g fn fl y x"
  by (induction rule: rtranclp.induct) (auto dest: linked_sym intro: converse_rtranclp_into_rtranclp)

lemma linked_survives:
  "graph_closed g \<Longrightarrow> linked g fn fl x y \<Longrightarrow> survives g fn x \<and> survives g fn y"
  by (auto simp: linked_def survives_def graph_closed_def)

lemma connected_survives:
  assumes "graph_closed g" and "survives g fn x" and "connected g fn fl x y"
  shows "survives g fn y"
  using assms(3,2) by (induction rule: rtranclp.induct) (auto dest: linked_survives[OF assms(1)])

section \<open>The undirected adjacency\<close>

definition undirected ::
  "(string list \<Rightarrow> string list) \<Rightarrow> Graph \<Rightarrow> string list \<Rightarrow> string list \<Rightarrow> string list gomap" where
  "undirected it g fn fl = fold (add_undirected (set fn) (set fl)) (range_entries it (g_links g)) fmempty"

definition joins :: "string set \<Rightarrow> string set \<Rightarrow> string \<Rightarrow> string \<Rightarrow> string \<times> Link \<Rightarrow> bool" where
  "joins B C x y e \<longleftrightarrow> (case e of (i, l) \<Rightarrow>
     i \<notin> C \<and> lk_local_node_id l \<notin> B \<and> lk_remote_node_id l \<notin> B \<and>
     (lk_local_node_id l = x \<and> lk_remote_node_id l = y \<or> lk_remote_node_id l = x \<and> lk_local_node_id l = y))"

lemma in_slice_at_append_at:
  "y \<in> set (slice_at (append_at k x m) u) \<longleftrightarrow> y \<in> set (slice_at m u) \<or> u = k \<and> y = x"
  by (cases "u = k") (auto simp: slice_at_append_at)

lemma slice_at_add_undirected:
  "y \<in> set (slice_at (add_undirected B C e m) x) \<longleftrightarrow> y \<in> set (slice_at m x) \<or> joins B C x y e"
  by (cases e) (auto simp: add_undirected_def joins_def in_slice_at_append_at)

lemma slice_at_fold_undirected:
  "y \<in> set (slice_at (fold (add_undirected B C) es m) x) \<longleftrightarrow>
     y \<in> set (slice_at m x) \<or> (\<exists>e\<in>set es. joins B C x y e)"
  by (induction es arbitrary: m) (simp_all add: slice_at_add_undirected disj_assoc)

lemma set_range_entries:
  assumes "iter_order it"
  shows "set (range_entries it m) = {(k, v). fmlookup m k = Some v}"
proof -
  have "set (it (keys_of m)) = fmdom' m" using assms by (simp add: iter_order_set)
  then show ?thesis by (force simp: range_entries_def fmlookup_dom'_iff image_iff)
qed

lemma slice_at_undirected:
  "iter_order it \<Longrightarrow> y \<in> set (slice_at (undirected it g fn fl) x) \<longleftrightarrow> linked g fn fl x y"
  unfolding undirected_def slice_at_fold_undirected linked_def
  by (fastforce simp: set_range_entries slice_at_def joins_def)

section \<open>Breadth-first search\<close>

lemma visit_eq: "visit x (queue, seen) = (if x \<in> seen then (queue, seen) else (queue @ [x], insert x seen))"
  by (simp add: visit_def)

lemma fold_visit:
  "\<exists>new. fold visit xs (queue, seen) = (queue @ new, seen \<union> set new) \<and> distinct new \<and>
     set new = set xs - seen"
proof (induction xs arbitrary: queue seen)
  case (Cons x xs)
  show ?case
  proof (cases "x \<in> seen")
    case True
    obtain new where "fold visit xs (queue, seen) = (queue @ new, seen \<union> set new)"
      "distinct new" "set new = set xs - seen"
      using Cons.IH[of queue seen] by blast
    then show ?thesis using True
      by (intro exI[of _ new] conjI) (simp_all add: visit_eq insert_absorb insert_Diff_if)
  next
    case False
    obtain new where "fold visit xs (queue @ [x], insert x seen) = ((queue @ [x]) @ new, insert x seen \<union> set new)"
      "distinct new" "set new = set xs - insert x seen"
      using Cons.IH[of "queue @ [x]" "insert x seen"] by blast
    then show ?thesis using False by (intro exI[of _ "x # new"]) (auto simp: visit_eq)
  qed
qed simp

definition bfs_inv ::
  "string list gomap \<Rightarrow> (string \<Rightarrow> bool) \<Rightarrow> string set \<Rightarrow> string list \<Rightarrow> string set \<Rightarrow> string list \<Rightarrow> bool" where
  "bfs_inv und P S0 queue seen found \<longleftrightarrow> seen = S0 \<union> set found \<union> set queue \<and>
     distinct (found @ queue) \<and> (set found \<union> set queue) \<inter> S0 = {} \<and>
     (\<forall>n\<in>S0 \<union> set found. set (slice_at und n) \<subseteq> seen) \<and> (\<forall>x\<in>set found \<union> set queue. P x)"

lemma bfs_step:
  assumes inv: "bfs_inv und P S0 (n # queue) seen found"
    and P: "\<And>x y. P x \<Longrightarrow> y \<in> set (slice_at und x) \<Longrightarrow> P y"
    and fold: "fold visit (slice_at und n) (queue, seen) = (queue', seen')"
  shows "bfs_inv und P S0 queue' seen' (found @ [n])"
proof -
  obtain new where "queue' = queue @ new" "seen' = seen \<union> set new" "distinct new"
    "set new = set (slice_at und n) - seen"
    using fold_visit[of "slice_at und n" queue seen] fold by auto
  then show ?thesis using inv P[of n] unfolding bfs_inv_def by auto
qed

lemma bfs_correct:
  assumes "bfs und queue seen found = (found', seen')"
    and "\<forall>x y. P x \<longrightarrow> y \<in> set (slice_at und x) \<longrightarrow> P y"
    and "bfs_inv und P S0 queue seen found"
  shows "bfs_inv und P S0 [] seen' found' \<and> set found \<union> set queue \<subseteq> set found'"
  using assms
proof (induction und queue seen found rule: bfs.induct)
  case (1 und seen found)
  then show ?case by simp
next
  case (2 und n queue seen found)
  obtain queue' seen1 where step: "fold visit (slice_at und n) (queue, seen) = (queue', seen1)"
    by (cases "fold visit (slice_at und n) (queue, seen)")
  have "bfs_inv und P S0 queue' seen1 (found @ [n])"
    using bfs_step[OF 2(4) _ step] 2(3) by blast
  moreover have "set queue \<subseteq> set queue'"
    using fold_visit[of "slice_at und n" queue seen] step by auto
  moreover have "bfs und queue' seen1 (found @ [n]) = (found', seen')"
    using 2(2) step by simp
  ultimately show ?case
    using 2(1) 2(3) step by fastforce
qed

text \<open>Started at one unseen node with a closed set of seen nodes, the search finds exactly its class.\<close>

lemma bfs_class:
  assumes closed: "\<forall>n\<in>seen. set (slice_at und n) \<subseteq> seen" and new: "i \<notin> seen"
    and sym: "\<And>x y. y \<in> set (slice_at und x) \<Longrightarrow> x \<in> set (slice_at und y)"
    and run: "bfs und [i] (insert i seen) [] = (found, seen')"
  shows "set found = {y. (\<lambda>x y. y \<in> set (slice_at und x))\<^sup>*\<^sup>* i y}" (is "_ = {y. ?E\<^sup>*\<^sup>* i y}")
    and "distinct found" and "seen' = seen \<union> set found" and "set found \<inter> seen = {}"
    and "\<forall>n\<in>seen'. set (slice_at und n) \<subseteq> seen'"
proof -
  have "bfs_inv und (?E\<^sup>*\<^sup>* i) seen [i] (insert i seen) []"
    using closed new by (auto simp: bfs_inv_def)
  then have inv: "bfs_inv und (?E\<^sup>*\<^sup>* i) seen [] seen' found" and i: "i \<in> set found"
    using bfs_correct[OF run, of "?E\<^sup>*\<^sup>* i" seen] by (auto intro: rtranclp.rtrancl_into_rtrancl)
  from inv show d: "distinct found" and s: "seen' = seen \<union> set found" and disj: "set found \<inter> seen = {}"
    and cl: "\<forall>n\<in>seen'. set (slice_at und n) \<subseteq> seen'"
    by (auto simp: bfs_inv_def)
  have "y \<in> set found" if "?E\<^sup>*\<^sup>* i y" for y
    using that
  proof (induction rule: rtranclp_induct)
    case (step y z)
    then show ?case using cl s disj closed sym by blast
  qed (rule i)
  moreover have "?E\<^sup>*\<^sup>* i y" if "y \<in> set found" for y
    using that inv by (simp add: bfs_inv_def)
  ultimately show "set found = {y. ?E\<^sup>*\<^sup>* i y}" by blast
qed

section \<open>The loop over the nodes\<close>

lemma components_classes:
  assumes sym: "\<And>x y. y \<in> set (slice_at und x) \<Longrightarrow> x \<in> set (slice_at und y)"
  defines "E \<equiv> \<lambda>x y. y \<in> set (slice_at und x)"
  assumes "\<forall>n\<in>seen. set (slice_at und n) \<subseteq> seen"
  shows "(\<forall>c\<in>set (components und B ids seen). distinct c \<and> sorted c \<and>
            (\<exists>x\<in>set ids - B - seen. set c = {y. E\<^sup>*\<^sup>* x y})) \<and>
         (\<forall>x\<in>set ids - B - seen. \<exists>c\<in>set (components und B ids seen). set c = {y. E\<^sup>*\<^sup>* x y}) \<and>
         distinct (concat (components und B ids seen)) \<and>
         set (concat (components und B ids seen)) \<inter> seen = {}"
  using assms(3)
proof (induction ids arbitrary: seen)
  case (Cons i ids)
  have symE: "E\<^sup>*\<^sup>* x y \<Longrightarrow> E\<^sup>*\<^sup>* y x" for x y
    using sym unfolding E_def by (metis (mono_tags, lifting) sympI sympD symp_rtranclp)
  show ?case
  proof (cases "i \<in> B \<or> i \<in> seen")
    case True
    then have eqs: "components und B (i # ids) seen = components und B ids seen"
      "set (i # ids) - B - seen = set ids - B - seen" by auto
    show ?thesis unfolding eqs by (rule Cons.IH[OF Cons.prems])
  next
    case False
    obtain found seen' where run: "bfs und [i] (insert i seen) [] = (found, seen')"
      by (cases "bfs und [i] (insert i seen) []")
    from False have "i \<notin> seen" by simp
    note b = bfs_class[OF Cons.prems this sym run, folded E_def]
    define cs where "cs = components und B ids seen'"
    have eq: "components und B (i # ids) seen = sort found # cs"
      using False run by (simp add: cs_def)
    note IH = Cons.IH[OF b(5), folded cs_def]
    have "set ids - B - seen' \<subseteq> set (i # ids) - B - seen" using b(3) by auto
    moreover have "i \<in> set (i # ids) - B - seen" using False by simp
    moreover have "\<exists>c\<in>set (sort found # cs). set c = {y. E\<^sup>*\<^sup>* x y}"
      if "x \<in> set (i # ids) - B - seen" for x
    proof (cases "x \<in> seen'")
      case True
      then have "E\<^sup>*\<^sup>* i x" using that b(1,3) by blast
      then have "{y. E\<^sup>*\<^sup>* x y} = {y. E\<^sup>*\<^sup>* i y}"
        using symE by (blast intro: rtranclp_trans)
      then show ?thesis using b(1) by simp
    next
      case x: False
      then have "x \<in> set ids - B - seen'" using that b(1,3) by auto
      then show ?thesis using IH by auto
    qed
    moreover have "distinct (concat (sort found # cs))" "set (concat (sort found # cs)) \<inter> seen = {}"
      using IH b(2,3,4) by auto
    ultimately show ?thesis unfolding eq using IH b(1,2) by (auto 0 3)
  qed
qed simp

section \<open>Analyze\<close>

text \<open>The components of one run, in the order in which the loop over the node map finds them.\<close>

definition found_components ::
  "(string list \<Rightarrow> string list) \<Rightarrow> Graph \<Rightarrow> string list \<Rightarrow> string list \<Rightarrow> string list list" where
  "found_components it g fn fl = components (undirected it g fn fl) (set fn) (it (keys_of (g_nodes g))) {}"

definition component_key :: "string list \<Rightarrow> int \<times> string" where
  "component_key c = (- int (length c), hd c)"

definition sorted_components ::
  "(string list \<Rightarrow> string list) \<Rightarrow> Graph \<Rightarrow> string list \<Rightarrow> string list \<Rightarrow> string list list" where
  "sorted_components it g fn fl = sort_key component_key (found_components it g fn fl)"

lemma Analyze_eq:
  "Analyze it g fn fl ps = (let cs = sorted_components it g fn fl;
     un = (if 1 < length cs then concat (tl cs) else []) in
     \<lparr>ai_revision = g_revision g, ai_unreachable_node_ids = sort un,
      ai_unreachable_prefix_ids = sort (unreachable_prefixes (set fn) un ps),
      ai_disconnected_components = (if 1 < length cs then cs else [])\<rparr>)"
  by (simp add: Analyze_def Let_def sorted_components_def found_components_def undirected_def
      component_key_def[abs_def])

definition class_of :: "Graph \<Rightarrow> string list \<Rightarrow> string list \<Rightarrow> string \<Rightarrow> string set" where
  "class_of g fn fl x = {y. connected g fn fl x y}"

lemma class_of_refl [simp]: "x \<in> class_of g fn fl x"
  by (simp add: class_of_def)

lemma class_of_eq_iff: "class_of g fn fl x = class_of g fn fl y \<longleftrightarrow> connected g fn fl x y"
  unfolding class_of_def by (blast intro: rtranclp_trans dest: connected_sym)

lemma found_components:
  assumes "iter_order it"
  shows "\<forall>c\<in>set (found_components it g fn fl). distinct c \<and> sorted c \<and>
           (\<exists>x. survives g fn x \<and> set c = class_of g fn fl x)"
    and "\<forall>x. survives g fn x \<longrightarrow> (\<exists>c\<in>set (found_components it g fn fl). set c = class_of g fn fl x)"
    and "distinct (concat (found_components it g fn fl))"
proof -
  have E: "(\<lambda>x y. y \<in> set (slice_at (undirected it g fn fl) x)) = linked g fn fl"
    using assms by (auto simp: fun_eq_iff slice_at_undirected)
  have ids: "set (it (keys_of (g_nodes g))) - set fn - {} = {x. survives g fn x}"
    using assms by (auto simp: iter_order_set survives_def)
  note * = components_classes[where und = "undirected it g fn fl" and B = "set fn" and seen = "{}"
      and ids = "it (keys_of (g_nodes g))", unfolded E ids, folded found_components_def class_of_def]
  have sym: "y \<in> set (slice_at (undirected it g fn fl) x) \<Longrightarrow>
      x \<in> set (slice_at (undirected it g fn fl) y)" for x y
    using assms by (auto simp: slice_at_undirected intro: linked_sym)
  show "\<forall>c\<in>set (found_components it g fn fl). distinct c \<and> sorted c \<and>
           (\<exists>x. survives g fn x \<and> set c = class_of g fn fl x)"
    and "\<forall>x. survives g fn x \<longrightarrow> (\<exists>c\<in>set (found_components it g fn fl). set c = class_of g fn fl x)"
    and "distinct (concat (found_components it g fn fl))"
    using *[OF sym] by (simp_all add: Bex_def Ball_def)
qed

lemma mset_sorted_components:
  "mset (sorted_components it g fn fl) = mset (found_components it g fn fl)"
  by (simp add: sorted_components_def)

lemma sorted_components:
  assumes "iter_order it"
  shows "c \<in> set (sorted_components it g fn fl) \<longleftrightarrow>
           (\<exists>x. survives g fn x \<and> set c = class_of g fn fl x) \<and> distinct c \<and> sorted c"
    and "distinct (concat (sorted_components it g fn fl))"
    and "distinct (sorted_components it g fn fl)"
    and "c \<in> set (sorted_components it g fn fl) \<Longrightarrow> c \<noteq> []"
proof -
  note fc = found_components[OF assms, of g fn fl]
  have set_eq: "set (sorted_components it g fn fl) = set (found_components it g fn fl)"
    by (simp add: sorted_components_def)
  show iff: "c \<in> set (sorted_components it g fn fl) \<longleftrightarrow>
           (\<exists>x. survives g fn x \<and> set c = class_of g fn fl x) \<and> distinct c \<and> sorted c" for c
  proof
    assume "(\<exists>x. survives g fn x \<and> set c = class_of g fn fl x) \<and> distinct c \<and> sorted c"
    then obtain d where "d \<in> set (found_components it g fn fl)" "set d = set c" "distinct c" "sorted c"
      using fc(2) by blast
    then show "c \<in> set (sorted_components it g fn fl)"
      using fc(1) set_eq sorted_distinct_set_unique by metis
  qed (use fc(1) set_eq in blast)
  show ne: "c \<noteq> []" if "c \<in> set (sorted_components it g fn fl)" for c
    using that class_of_refl unfolding iff by (metis empty_iff list.set(1))
  have "mset (concat (sorted_components it g fn fl)) = mset (concat (found_components it g fn fl))"
    by (simp add: mset_concat sorted_components_def flip: sum_mset_sum_list)
  then show dc: "distinct (concat (sorted_components it g fn fl))"
    using fc(3) mset_eq_imp_distinct_iff by blast
  have "removeAll [] (sorted_components it g fn fl) = sorted_components it g fn fl"
    by (rule removeAll_id) (use ne in blast)
  then show "distinct (sorted_components it g fn fl)"
    using dc by (simp add: distinct_concat_iff)
qed

lemma component_key_inj:
  assumes "iter_order it"
  shows "inj_on component_key (set (sorted_components it g fn fl))"
proof (rule inj_onI)
  fix a b
  assume ab: "a \<in> set (sorted_components it g fn fl)" "b \<in> set (sorted_components it g fn fl)"
    and "component_key a = component_key b"
  then have "hd a = hd b" by (simp add: component_key_def)
  then have "hd a \<in> set a \<inter> set b" using sorted_components(4)[OF assms] ab by (metis IntI hd_in_set)
  then show "a = b"
    using sorted_components(2)[OF assms, of g fn fl] ab unfolding distinct_concat_iff by blast
qed

lemma sorted_components_order:
  assumes "iter_order it"
  shows "sorted_components it g fn fl = sorted_components id g fn fl"
proof -
  have "set (sorted_components it g fn fl) = set (sorted_components id g fn fl)"
    using sorted_components(1)[OF assms] sorted_components(1)[OF iter_order_id(1)] by blast
  then have m: "mset (sorted_components it g fn fl) = mset (sorted_components id g fn fl)"
    using sorted_components(3)[OF assms] sorted_components(3)[OF iter_order_id(1)]
    by (simp add: set_eq_iff_mset_eq_distinct)
  have "sort_key component_key (found_components it g fn fl)
      = sort_key component_key (found_components id g fn fl)"
    using m component_key_inj[OF assms, of g fn fl]
    by (intro sort_key_unique) (simp_all add: mset_sorted_components sorted_components_def)
  then show ?thesis by (simp add: sorted_components_def)
qed

lemma component_lengths: "sorted_wrt (\<lambda>a b. length b \<le> length a) (sorted_components it g fn fl)"
proof -
  have "sorted (map component_key (sorted_components it g fn fl))"
    by (simp add: sorted_components_def)
  then have "sorted_wrt (\<lambda>a b. component_key a \<le> component_key b) (sorted_components it g fn fl)"
    by (simp add: sorted_wrt_map)
  then show ?thesis
    by (rule sorted_wrt_mono_rel[rotated]) (auto simp: component_key_def less_eq_prod_def)
qed

lemma concat_sorted_components:
  assumes "iter_order it" and "graph_closed g"
  shows "set (concat (sorted_components it g fn fl)) = {x. survives g fn x}"
proof -
  have "x \<in> set (concat (sorted_components it g fn fl))" if "survives g fn x" for x
  proof -
    have "sorted_list_of_set (class_of g fn fl x) \<in> set (sorted_components it g fn fl)"
    proof -
      obtain c where "c \<in> set (found_components it g fn fl)" "set c = class_of g fn fl x"
        using found_components(2)[OF assms(1)] \<open>survives g fn x\<close> by blast
      then have "finite (class_of g fn fl x)" by (metis List.finite_set)
      then show ?thesis
        using \<open>survives g fn x\<close> unfolding sorted_components(1)[OF assms(1)] by auto
    qed
    then show ?thesis
      using class_of_refl[of x g fn fl] sorted_components(1)[OF assms(1)]
      by (metis UN_iff set_concat set_sorted_list_of_set sorted_list_of_set.fold_insort_key.infinite
          sorted_components(4)[OF assms(1)])
  qed
  moreover have "survives g fn y" if "y \<in> set (concat (sorted_components it g fn fl))" for y
    using that connected_survives[OF assms(2)]
    by (auto simp: sorted_components(1)[OF assms(1)] class_of_def)
  ultimately show ?thesis by blast
qed

lemma same_component_iff:
  assumes "iter_order it" and "survives g fn x"
  shows "(\<exists>c\<in>set (sorted_components it g fn fl). x \<in> set c \<and> y \<in> set c) \<longleftrightarrow> connected g fn fl x y"
proof
  assume "\<exists>c\<in>set (sorted_components it g fn fl). x \<in> set c \<and> y \<in> set c"
  then obtain z where "x \<in> class_of g fn fl z" "y \<in> class_of g fn fl z"
    using sorted_components(1)[OF assms(1)] by blast
  then show "connected g fn fl x y"
    unfolding class_of_def by (blast intro: rtranclp_trans dest: connected_sym)
next
  assume "connected g fn fl x y"
  moreover obtain c where "c \<in> set (sorted_components it g fn fl)" "set c = class_of g fn fl x"
    using found_components(2)[OF assms(1)] assms(2) by (metis mset_sorted_components set_mset_mset)
  ultimately show "\<exists>c\<in>set (sorted_components it g fn fl). x \<in> set c \<and> y \<in> set c"
    by (intro bexI[of _ c]) (auto simp: class_of_def)
qed

lemma one_component:
  assumes "iter_order it"
  shows "length (sorted_components it g fn fl) \<le> 1 \<longleftrightarrow>
    (\<forall>x y. survives g fn x \<and> survives g fn y \<longrightarrow> connected g fn fl x y)"
proof
  assume "length (sorted_components it g fn fl) \<le> 1"
  then have one: "c = d" if "c \<in> set (sorted_components it g fn fl)" "d \<in> set (sorted_components it g fn fl)" for c d
    using that by (cases "sorted_components it g fn fl") auto
  show "\<forall>x y. survives g fn x \<and> survives g fn y \<longrightarrow> connected g fn fl x y"
  proof (intro allI impI)
    fix x y assume xy: "survives g fn x \<and> survives g fn y"
    then obtain c d where cd: "c \<in> set (sorted_components it g fn fl)" "x \<in> set c"
      "d \<in> set (sorted_components it g fn fl)" "y \<in> set d"
      using same_component_iff[OF assms, of g fn _ fl] by (meson rtranclp.rtrancl_refl)
    with one have "c = d" by blast
    then show "connected g fn fl x y" using cd xy same_component_iff[OF assms] by metis
  qed
next
  assume all: "\<forall>x y. survives g fn x \<and> survives g fn y \<longrightarrow> connected g fn fl x y"
  have "c = d" if "c \<in> set (sorted_components it g fn fl)" "d \<in> set (sorted_components it g fn fl)" for c d
  proof -
    from that obtain x y where "survives g fn x" "set c = class_of g fn fl x"
      "survives g fn y" "set d = class_of g fn fl y" "distinct c" "sorted c" "distinct d" "sorted d"
      unfolding sorted_components(1)[OF assms] by blast
    moreover from this all have "class_of g fn fl x = class_of g fn fl y" by (simp add: class_of_eq_iff)
    ultimately show ?thesis by (metis sorted_distinct_set_unique)
  qed
  then have "card (set (sorted_components it g fn fl)) \<le> 1"
    by (simp add: card_le_Suc0_iff_eq)
  then show "length (sorted_components it g fn fl) \<le> 1"
    using sorted_components(3)[OF assms, of g fn fl] by (simp add: distinct_card)
qed

text \<open>
  C22. \<open>Analyze\<close> reports no components exactly when every two surviving nodes are still connected.
  Otherwise the reported components partition the surviving nodes, two of them share a component
  exactly when surviving links connect them in either direction, and the larger components come first.
\<close>

theorem Analyze_components:
  assumes "iter_order it" and "g = NewGraph r ns ls"
    and "cs = ai_disconnected_components (Analyze it g fn fl ps)"
  shows "(cs = [] \<longleftrightarrow> (\<forall>x y. survives g fn x \<and> survives g fn y \<longrightarrow> connected g fn fl x y)) \<and>
    (cs \<noteq> [] \<longrightarrow> distinct (concat cs) \<and> set (concat cs) = {x. survives g fn x} \<and>
      (\<forall>x y. survives g fn x \<longrightarrow> ((\<exists>c\<in>set cs. x \<in> set c \<and> y \<in> set c) \<longleftrightarrow> connected g fn fl x y)) \<and>
      sorted_wrt (\<lambda>a b. length b \<le> length a) cs)"
proof (intro conjI impI)
  have cs: "cs = (if 1 < length (sorted_components it g fn fl) then sorted_components it g fn fl else [])"
    by (simp add: assms(3) Analyze_eq Let_def)
  have closed: "graph_closed g" by (simp add: assms(2))
  have "cs = [] \<longleftrightarrow> length (sorted_components it g fn fl) \<le> 1" using cs by auto
  also note one_component[OF assms(1)]
  finally show "cs = [] \<longleftrightarrow> (\<forall>x y. survives g fn x \<and> survives g fn y \<longrightarrow> connected g fn fl x y)" .
  assume "cs \<noteq> []"
  then have eq: "cs = sorted_components it g fn fl" using cs by presburger
  show "distinct (concat cs)" unfolding eq by (rule sorted_components(2)[OF assms(1)])
  show "set (concat cs) = {x. survives g fn x}"
    unfolding eq by (rule concat_sorted_components[OF assms(1) closed])
  show "\<forall>x y. survives g fn x \<longrightarrow> ((\<exists>c\<in>set cs. x \<in> set c \<and> y \<in> set c) \<longleftrightarrow> connected g fn fl x y)"
    unfolding eq using same_component_iff[OF assms(1)] by blast
  show "sorted_wrt (\<lambda>a b. length b \<le> length a) cs" unfolding eq by (rule component_lengths)
qed

text \<open>With node \<open>b\<close> failed, the sample graph keeps \<open>a\<close> and \<open>c\<close>, connected by the link \<open>ac\<close>.\<close>

theorem Analyze_components_witness:
  "\<not> connected (NewGraph 7 sample_nodes sample_links) [''b''] [''ac''] ''a'' ''c'' \<and>
   ai_disconnected_components (Analyze rev (NewGraph 7 sample_nodes sample_links) [''b''] [''ac''] [])
     = [[''a''], [''c'']]"
proof -
  have cs: "[[''a''], [''c'']] =
      ai_disconnected_components (Analyze rev (NewGraph 7 sample_nodes sample_links) [''b''] [''ac''] [])"
    by code_simp
  have a: "survives (NewGraph 7 sample_nodes sample_links) [''b''] ''a''"
    by (simp add: survives_def NewGraph_dom sample_nodes_def active_node_def sample_simps)
  have "connected (NewGraph 7 sample_nodes sample_links) [''b''] [''ac''] ''a'' ''c'' \<longleftrightarrow>
      (\<exists>c\<in>set [[''a''], [''c'']]. ''a'' \<in> set c \<and> ''c'' \<in> set c)"
    using Analyze_components[OF iter_order_rev refl cs] a by blast
  then show ?thesis using cs[symmetric] by simp
qed

text \<open>
  The unreachable nodes are the surviving nodes outside a largest class of connected survivors;
  a prefix is unreachable when its origin failed or is one of them. Both lists come out sorted.
\<close>

theorem Analyze_unreachable:
  assumes "iter_order it" and "g = NewGraph r ns ls" and "res = Analyze it g fn fl ps"
  shows "(\<exists>m. (\<forall>x. survives g fn x \<longrightarrow> card (class_of g fn fl x) \<le> card (class_of g fn fl m)) \<and>
       set (ai_unreachable_node_ids res) = {x. survives g fn x \<and> \<not> connected g fn fl m x}) \<and>
     set (ai_unreachable_prefix_ids res) = prefix_id ` {p \<in> set ps. px_origin_node_id p \<in> set fn \<or>
       px_origin_node_id p \<in> set (ai_unreachable_node_ids res)} \<and>
     sorted (ai_unreachable_node_ids res) \<and> sorted (ai_unreachable_prefix_ids res)"
proof (intro conjI)
  let ?cs = "sorted_components it g fn fl"
  have res: "res = (let un = (if 1 < length ?cs then concat (tl ?cs) else []) in
     \<lparr>ai_revision = g_revision g, ai_unreachable_node_ids = sort un,
      ai_unreachable_prefix_ids = sort (unreachable_prefixes (set fn) un ps),
      ai_disconnected_components = (if 1 < length ?cs then ?cs else [])\<rparr>)"
    by (simp add: assms(3) Analyze_eq Let_def)
  then have un: "set (ai_unreachable_node_ids res) = set (concat (tl ?cs))"
    by (cases ?cs) (auto simp: Let_def)
  show "sorted (ai_unreachable_node_ids res)" "sorted (ai_unreachable_prefix_ids res)"
    by (simp_all add: res Let_def)
  show "set (ai_unreachable_prefix_ids res) = prefix_id ` {p \<in> set ps. px_origin_node_id p \<in> set fn \<or>
       px_origin_node_id p \<in> set (ai_unreachable_node_ids res)}"
    by (auto simp: res Let_def unreachable_prefixes_def)
  have surv: "set (concat ?cs) = {x. survives g fn x}"
    by (rule concat_sorted_components[OF assms(1)]) (simp add: assms(2))
  show "\<exists>m. (\<forall>x. survives g fn x \<longrightarrow> card (class_of g fn fl x) \<le> card (class_of g fn fl m)) \<and>
       set (ai_unreachable_node_ids res) = {x. survives g fn x \<and> \<not> connected g fn fl m x}"
  proof (cases ?cs)
    case Nil
    then show ?thesis using surv un by auto
  next
    case (Cons c cs)
    then obtain m where m: "survives g fn m" "set c = class_of g fn fl m" "distinct c"
      using sorted_components(1)[OF assms(1), of c g fn fl] by auto
    have "card (class_of g fn fl x) \<le> card (class_of g fn fl m)" if x: "survives g fn x" for x
    proof -
      obtain d where d: "d \<in> set ?cs" "set d = class_of g fn fl x"
        using found_components(2)[OF assms(1)] x by (metis mset_sorted_components set_mset_mset)
      then have "length d \<le> length c"
        using component_lengths[of it g fn fl] unfolding Cons by auto
      then show ?thesis
        using d m sorted_components(1)[OF assms(1), of d g fn fl] by (metis distinct_card)
    qed
    moreover have "set (concat cs) \<inter> set c = {}"
      using sorted_components(2)[OF assms(1), of g fn fl] unfolding Cons by auto
    then have "set (concat cs) = {x. survives g fn x} - set c" using surv unfolding Cons by auto
    then have "set (ai_unreachable_node_ids res) = {x. survives g fn x \<and> \<not> connected g fn fl m x}"
      using un m(2) unfolding Cons class_of_def by auto
    ultimately show ?thesis by blast
  qed
qed

definition sample_prefix :: "string \<Rightarrow> string \<Rightarrow> Prefix" where
  "sample_prefix i n = zero_Prefix\<lparr>px_meta := Some (sample_meta i), px_origin_node_id := n\<rparr>"

theorem Analyze_unreachable_witness:
  "sorted (ai_unreachable_node_ids (Analyze rev (NewGraph 7 sample_nodes sample_links) [''b''] [''ac'']
       [sample_prefix ''p'' ''b'', sample_prefix ''q'' ''c''])) \<and>
   ai_unreachable_prefix_ids (Analyze rev (NewGraph 7 sample_nodes sample_links) [''b''] [''ac'']
       [sample_prefix ''p'' ''b'', sample_prefix ''q'' ''c'']) = [''p'', ''q'']"
proof
  show "sorted (ai_unreachable_node_ids (Analyze rev (NewGraph 7 sample_nodes sample_links) [''b''] [''ac'']
       [sample_prefix ''p'' ''b'', sample_prefix ''q'' ''c'']))"
    using Analyze_unreachable[OF iter_order_rev refl refl] by blast
  show "ai_unreachable_prefix_ids (Analyze rev (NewGraph 7 sample_nodes sample_links) [''b''] [''ac'']
       [sample_prefix ''p'' ''b'', sample_prefix ''q'' ''c'']) = [''p'', ''q'']"
    by code_simp
qed

text \<open>
  The answer of \<open>Analyze\<close> does not depend on the order in which Go happens to range over the
  node and link maps.
\<close>

theorem Analyze_deterministic:
  "iter_order it \<Longrightarrow> Analyze it g fn fl ps = Analyze id g fn fl ps"
  by (simp only: Analyze_eq sorted_components_order[of it])

theorem Analyze_deterministic_witness:
  "Analyze rev (NewGraph 7 sample_nodes sample_links) [''b''] [] [] =
   Analyze id (NewGraph 7 sample_nodes sample_links) [''b''] [] []"
  using Analyze_deterministic[OF iter_order_rev] .

end
