(* ===== verification/API_Theorems.thy ===== *)
theory API_Theorems
  imports Path_API Store_Theorems Graph_Impact
begin

text \<open>
  The properties of the read services: pages, lookups, streams, summaries, path requests and the
  history calls, for stores that satisfy the store's invariant.
\<close>

section \<open>Snapshots\<close>

definition ids_strict :: "('a \<Rightarrow> string) \<Rightarrow> 'a list \<Rightarrow> bool" where
  "ids_strict key vs \<longleftrightarrow> sorted_wrt (\<lambda>x y. key x < key y) vs \<and> (\<forall>v \<in> set vs. key v \<noteq> [])"

definition snapshot_wf :: "Snapshot \<Rightarrow> bool" where
  "snapshot_wf snap \<longleftrightarrow> ids_strict node_id (sn_nodes snap) \<and> ids_strict link_id (sn_links snap) \<and>
     ids_strict prefix_id (sn_prefixes snap) \<and> ids_strict pr_id (sn_peers snap) \<and> ids_strict dm_id (sn_domains snap)"

lemma range_values_strict:
  assumes "table_ok key enc m" and "iter_order it"
  shows "ids_strict key (sort_key key (range_values it m))"
proof -
  let ?vs = "sort_key key (range_values it m)"
  have look: "key (the (fmlookup m k)) = k" if "k \<in> set (it (keys_of m))" for k
    using that assms by (auto simp: iter_order_set fmlookup_dom'_iff table_ok_def)
  have "map key (range_values it m) = map (\<lambda>k. key (the (fmlookup m k))) (it (keys_of m))"
    by (simp add: range_values_def)
  also have "\<dots> = it (keys_of m)" using look by (intro map_idI) blast
  finally have "distinct (map key (range_values it m))"
    using assms(2) by (simp add: iter_order_distinct)
  moreover have "mset (map key ?vs) = mset (map key (range_values it m))" by simp
  ultimately have "distinct (map key ?vs)" by (metis mset_eq_imp_distinct_iff)
  then have "sorted_wrt (<) (map key ?vs)" by (simp add: strict_sorted_iff)
  then have "sorted_wrt (\<lambda>x y. key x < key y) ?vs" by (simp add: sorted_wrt_map)
  moreover have "\<forall>v \<in> set ?vs. key v \<noteq> []"
    using assms by (auto simp: set_range_values fmlookup_ran'_iff table_ok_def)
  ultimately show ?thesis by (simp add: ids_strict_def)
qed

lemma snapshot_of_wf:
  assumes "memory_ok m" and "iter_order it"
  shows "snapshot_wf (snapshot_of it r t m)"
  using assms(1)
  unfolding memory_ok_def snapshot_wf_def snapshot_of_def
  by (auto dest: range_values_strict[OF _ assms(2)])

lemma Store_Snapshot_wf: "store_inv cont lo M E s \<Longrightarrow> iter_order it \<Longrightarrow> snapshot_wf (Store_Snapshot it s)"
  unfolding Store_Snapshot_def by (rule snapshot_of_wf[OF store_invD(3)])

lemma SnapshotAt_cases:
  assumes "pebble_laws P cont" "pebble_reads P" "store_inv cont lo M E s" "iter_order it"
  shows "(\<exists>e. SnapshotAt P it s r = Inl (Error e)) \<or>
    (\<exists>snap. SnapshotAt P it s r = Inr snap \<and> snapshot_wf snap \<and> sn_revision snap = (if r = 0 then st_revision s else r))"
proof -
  consider (current) "r = 0 \<or> r = st_revision s"
    | (refused) "st_revision s < r \<or> 0 < r \<and> unat r < lo \<and> lo < unat (st_revision s)"
    | (old) "0 < r" "r < st_revision s" "lo \<le> unat r \<or> lo = unat (st_revision s)"
    using store_invD(1)[OF assms(3)] by (metis le_neq_implies_less linorder_cases not_less word_neq_0_conv)
  then show ?thesis
  proof cases
    case current
    then have "SnapshotAt P it s r = Inr (Store_Snapshot it s)"
      by (auto simp: SnapshotAt_def Let_def Store_Snapshot_def snapshot_of_def)
    then show ?thesis
      using Store_Snapshot_wf[OF assms(3,4)] current by (auto simp: Store_Snapshot_def snapshot_of_def)
  next
    case refused
    then show ?thesis using SnapshotAt_refused[OF assms(1-3)] by blast
  next
    case old
    let ?mem = "if lo \<le> unat r then M (unat r) else M (unat (st_revision s))"
    have lt: "unat r < unat (st_revision s)" using old(2) by (simp add: word_less_nat_alt)
    have "memory_ok (M (unat r))" if "lo \<le> unat r"
      using store_invD(6)[OF assms(3)] that lt unfolding history_ok_def by (metis diff_Suc_1 le_imp_less_Suc Suc_leI)
    then have "memory_ok ?mem" using store_invD(2,3)[OF assms(3)] by simp
    from snapshot_of_wf[OF this assms(4)] show ?thesis
      using SnapshotAt_memory[OF assms old] old(1) by (auto simp: snapshot_of_def)
  qed
qed

section \<open>Filters on well-formed snapshots\<close>

lemma meta_present:
  "node_id n \<noteq> [] \<Longrightarrow> \<exists>m. nd_meta n = Some m" "link_id l \<noteq> [] \<Longrightarrow> \<exists>m. lk_meta l = Some m"
  "prefix_id p \<noteq> [] \<Longrightarrow> \<exists>m. px_meta p = Some m"
  by (auto simp: node_id_def link_id_def prefix_id_def GetId_def split: option.splits)

definition returns :: "'e + 'a \<Rightarrow> bool" where
  "returns r \<longleftrightarrow> (\<exists>x. r = Inr x)"

lemma returns_simps [simp]: "returns (Inr x)" "\<not> returns (Inl e)"
  by (simp_all add: returns_def)

lemma returns_bindR: "returns r \<Longrightarrow> (\<And>x. r = Inr x \<Longrightarrow> returns (f x)) \<Longrightarrow> returns (bindR r f)"
  by (auto simp: returns_def)

lemma returns_deref: "m \<noteq> None \<Longrightarrow> returns (deref m)"
  by auto

lemma match_total:
  "nd_meta n = Some m \<Longrightarrow> returns (nodeMatch uni n f)"
  "lk_meta l = Some m \<Longrightarrow> returns (linkMatch uni l f)"
  "px_meta p = Some m \<Longrightarrow> returns (prefixMatch uni p f)"
  by (simp_all add: nodeMatch_def linkMatch_def prefixMatch_def query_match_def conflict_match_def Let_def
      split: option.split)

text \<open>On a well-formed snapshot each filter is the predicate that says it returns true.\<close>

lemma match_wf:
  assumes "snapshot_wf snap"
  shows "n \<in> set (sn_nodes snap) \<Longrightarrow> nodeMatch uni n f = Inr (nodeMatch uni n f = Inr True)"
    "l \<in> set (sn_links snap) \<Longrightarrow> linkMatch uni l f = Inr (linkMatch uni l f = Inr True)"
    "p \<in> set (sn_prefixes snap) \<Longrightarrow> prefixMatch uni p f = Inr (prefixMatch uni p f = Inr True)"
proof -
  have total: "returns r \<Longrightarrow> r = Inr (r = Inr True)" for r :: "bool result" by (auto simp: returns_def)
  show "nodeMatch uni n f = Inr (nodeMatch uni n f = Inr True)" if "n \<in> set (sn_nodes snap)"
    using assms that meta_present(1)[of n] match_total(1) by (intro total) (auto simp: snapshot_wf_def ids_strict_def)
  show "linkMatch uni l f = Inr (linkMatch uni l f = Inr True)" if "l \<in> set (sn_links snap)"
    using assms that meta_present(2)[of l] match_total(2) by (intro total) (auto simp: snapshot_wf_def ids_strict_def)
  show "prefixMatch uni p f = Inr (prefixMatch uni p f = Inr True)" if "p \<in> set (sn_prefixes snap)"
    using assms that meta_present(3)[of p] match_total(3) by (intro total) (auto simp: snapshot_wf_def ids_strict_def)
qed

section \<open>Pages\<close>

type_synonym 'db list_query = "'db pebble \<times> (string \<Rightarrow> string) \<times> (string list \<Rightarrow> string list) \<times> 'db Store \<times> TopologyFilter option \<times> u64"

interpretation node_pages: page_query
  "\<lambda>(P, uni, it, s, f, r). snapshot P it s r" sn_nodes node_id "\<lambda>(P, uni, it, s, f, r) n. nodeMatch uni n f" "\<lambda>n. n"
  failure_of "\<lambda>(P, uni, it, s, f, r) pg. ListNodes P uni it s \<lparr>lr_filter = f, lr_page = pg, lr_revision = r\<rparr>"
  by unfold_locales (auto simp: ListNodes_def list_page_def bindR_def answer_def split: sum.split prod.split)

interpretation link_pages: page_query
  "\<lambda>(P, uni, it, s, f, r). snapshot P it s r" sn_links link_id "\<lambda>(P, uni, it, s, f, r) l. linkMatch uni l f" "\<lambda>l. l"
  failure_of "\<lambda>(P, uni, it, s, f, r) pg. ListLinks P uni it s \<lparr>lr_filter = f, lr_page = pg, lr_revision = r\<rparr>"
  by unfold_locales (auto simp: ListLinks_def list_page_def bindR_def answer_def split: sum.split prod.split)

interpretation prefix_pages: page_query
  "\<lambda>(P, uni, it, s, f, r). snapshot P it s r" sn_prefixes prefix_id "\<lambda>(P, uni, it, s, f, r) p. prefixMatch uni p f" "\<lambda>p. p"
  failure_of "\<lambda>(P, uni, it, s, f, r) pg. ListPrefixes P uni it s \<lparr>lr_filter = f, lr_page = pg, lr_revision = r\<rparr>"
  by unfold_locales (auto simp: ListPrefixes_def list_page_def bindR_def answer_def split: sum.split prod.split)

interpretation domain_pages: page_query
  "\<lambda>(it, s). Inr (Store_Snapshot it s)" sn_domains dm_id "\<lambda>q v. Inr True" "\<lambda>v. v"
  failure_of "\<lambda>(it, s) pg. ListDomains it s pg"
  by unfold_locales (auto simp: ListDomains_def list_page_def bindR_def answer_def Let_def split: sum.split prod.split)

lemma snapshot_Inr: "snapshot P it s r = Inr snap \<longleftrightarrow> SnapshotAt P it s r = Inr snap"
  by (simp add: snapshot_def answer_def split: sum.split)

lemma SnapshotAt_wf:
  assumes "pebble_laws P cont" "pebble_reads P" "store_inv cont lo M E s" "iter_order it" "SnapshotAt P it s r = Inr snap"
  shows "snapshot_wf snap"
  using SnapshotAt_cases[OF assms(1-4), of r] assms(5) by auto

text \<open>
  C19. Paging is complete: a client that starts with an empty token and follows the tokens of the
  responses, on a store that does not change meanwhile or with the revision fixed, gets every node
  (link, prefix) of the snapshot that passes the filter exactly once and in order, whatever page
  size it asks for, and gets a response without a token after at most one request per element and one more.
\<close>

theorem List_pages_complete:
  assumes "pebble_laws P cont" and "pebble_reads P" and "store_inv cont lo M E s" and "iter_order it"
    and "SnapshotAt P it s r = Inr snap"
  shows "walk_pages (Suc (length (sn_nodes snap)))
      (\<lambda>pg. ListNodes P uni it s \<lparr>lr_filter = f, lr_page = pg, lr_revision = r\<rparr>) limit [] =
      Some (Inr (filter (\<lambda>n. nodeMatch uni n f = Inr True) (sn_nodes snap))) \<and>
    walk_pages (Suc (length (sn_links snap)))
      (\<lambda>pg. ListLinks P uni it s \<lparr>lr_filter = f, lr_page = pg, lr_revision = r\<rparr>) limit [] =
      Some (Inr (filter (\<lambda>l. linkMatch uni l f = Inr True) (sn_links snap))) \<and>
    walk_pages (Suc (length (sn_prefixes snap)))
      (\<lambda>pg. ListPrefixes P uni it s \<lparr>lr_filter = f, lr_page = pg, lr_revision = r\<rparr>) limit [] =
      Some (Inr (filter (\<lambda>p. prefixMatch uni p f = Inr True) (sn_prefixes snap)))" (is "?nodes \<and> ?links \<and> ?prefixes")
proof -
  note wf = SnapshotAt_wf[OF assms]
  note src = assms(5)[folded snapshot_Inr]
  let ?q = "(P, uni, it, s, f, r)"
  have ?nodes
    using node_pages.walk_all[of ?q snap "\<lambda>n. nodeMatch uni n f = Inr True" "Suc (length (sn_nodes snap))" limit]
      src match_wf(1)[OF wf] wf by (simp add: snapshot_wf_def ids_strict_def)
  moreover have ?links
    using link_pages.walk_all[of ?q snap "\<lambda>n. linkMatch uni n f = Inr True" "Suc (length (sn_links snap))" limit]
      src match_wf(2)[OF wf] wf by (simp add: snapshot_wf_def ids_strict_def)
  moreover have ?prefixes
    using prefix_pages.walk_all[of ?q snap "\<lambda>n. prefixMatch uni n f = Inr True" "Suc (length (sn_prefixes snap))" limit]
      src match_wf(3)[OF wf] wf by (simp add: snapshot_wf_def ids_strict_def)
  ultimately show ?thesis by blast
qed

lemma sample_inv: "\<exists>lo M E. store_inv (\<lambda>c. c) lo M E (sample_run sample_changes)"
  by (rule sample_run_inv[OF sample_changes_ok])

theorem List_pages_complete_witness:
  "\<exists>vs. walk_pages 3 (\<lambda>pg. ListNodes memory_pebble id id (sample_run sample_changes)
      \<lparr>lr_filter = None, lr_page = pg, lr_revision = 2\<rparr>) 1 [] = Some (Inr vs) \<and> map node_id vs = [''a'', ''b'']"
proof -
  let ?s = "sample_run sample_changes"
  define snap where "snap = projr (SnapshotAt memory_pebble id ?s 2)"
  have "\<not> isl (SnapshotAt memory_pebble id ?s 2)" by code_simp
  then have at2: "SnapshotAt memory_pebble id ?s 2 = Inr snap" by (simp add: snap_def)
  have len: "Suc (length (sn_nodes snap)) = 3" unfolding snap_def by code_simp
  have ids: "map node_id (filter (\<lambda>n. nodeMatch id n None = Inr True) (sn_nodes snap)) = [''a'', ''b'']"
    unfolding snap_def by code_simp
  obtain lo M E where "store_inv (\<lambda>c. c) lo M E ?s" using sample_inv by blast
  from List_pages_complete[OF memory_pebble_laws this iter_order_id(1) at2, of id None 1] ids
  show ?thesis by (simp add: len)
qed

section \<open>Calls that always answer\<close>

text \<open>A call is handled when it neither panics nor runs for ever.\<close>

definition handled :: "'a response \<Rightarrow> bool" where
  "handled r \<longleftrightarrow> r \<noteq> Inl Crash \<and> r \<noteq> Inl Stuck"

lemma handled_Inr [simp]: "handled (Inr x)" "handled (Inl (ConnectError c e))" "handled (Inl (PlainError e))"
  by (simp_all add: handled_def)

lemma handled_answer: "returns r \<Longrightarrow> handled (answer r)"
  by (auto simp: returns_def)

lemma handled_apiError [simp]: "handled (Inl (apiError e))"
  by (simp add: apiError_def)

lemma handled_bindR: "handled r \<Longrightarrow> (\<And>x. r = Inr x \<Longrightarrow> handled (f x)) \<Longrightarrow> handled (bindR r f)"
  by (cases r) (auto simp: handled_def)

lemma page_scan_returns: "(\<And>v. v \<in> set vs \<Longrightarrow> returns (keep v)) \<Longrightarrow> returns (page_scan n keep vs out)"
  by (induction vs arbitrary: out) (auto intro!: returns_bindR)

lemma page_of_returns: "(\<And>v. v \<in> set vs \<Longrightarrow> returns (match v)) \<Longrightarrow> returns (page_of key match pg vs)"
  by (auto simp: page_of_def split: prod.split intro!: returns_bindR page_scan_returns)

lemma tally_loop_returns:
  "(\<And>v. v \<in> set vs \<Longrightarrow> returns (match v) \<and> meta v \<noteq> None) \<Longrightarrow> returns (tally_loop match meta vs n t)"
  by (induction vs arbitrary: n t) (auto intro!: returns_bindR returns_deref)

lemma find_entity_returns: "(\<And>v. v \<in> set vs \<Longrightarrow> meta v \<noteq> None) \<Longrightarrow> returns (find_entity meta i stale vs)"
  by (induction vs) (auto intro!: returns_bindR returns_deref)

lemma neighbors_loop_returns:
  "(\<And>l. l \<in> set ls \<Longrightarrow> returns (match l)) \<Longrightarrow> returns (neighbors_loop match i nodes ls outN outL seen)"
  by (induction ls arbitrary: outN outL seen) (auto intro!: returns_bindR split: option.split bool.split)

lemma resolve_test_returns: "m \<noteq> None \<Longrightarrow> returns (resolve_test m d test)"
  by (auto simp: resolve_test_def in_domain_def)

lemma filter_domain_eq:
  "(\<And>v. v \<in> set vs \<Longrightarrow> meta v \<noteq> None) \<Longrightarrow>
     filter_domain meta d vs out = Inr (out @ filter (\<lambda>v. GetDomainId (meta v) = d) vs)"
proof (induction vs arbitrary: out)
  case (Cons v vs)
  from Cons.prems[of v] obtain m where "meta v = Some m" by auto
  then show ?case using Cons by (simp add: GetDomainId_def)
qed simp

lemma resolve_nodes_returns: "(\<And>n. n \<in> set ns \<Longrightarrow> nd_meta n \<noteq> None) \<Longrightarrow> returns (resolve_nodes d q ns)"
  by (induction ns) (auto intro!: returns_bindR returns_deref)

lemma resolve_prefixes_returns:
  "(\<And>p. p \<in> set ps \<Longrightarrow> px_meta p \<noteq> None) \<Longrightarrow> returns (resolve_prefixes d a ps n best)"
  by (induction ps arbitrary: n best) (auto intro!: returns_bindR returns_deref split: option.split)

lemma fill_returns: "(\<And>v. v \<in> set vs \<Longrightarrow> returns (match v)) \<Longrightarrow> returns (fill room match vs out)"
  by (induction vs arbitrary: out) (auto intro!: returns_bindR)

text \<open>What a well-formed snapshot gives those loops.\<close>

lemma snapshot_total:
  assumes "snapshot_wf snap"
  shows "\<And>n. n \<in> set (sn_nodes snap) \<Longrightarrow> nd_meta n \<noteq> None \<and> returns (nodeMatch uni n f)"
    "\<And>l. l \<in> set (sn_links snap) \<Longrightarrow> lk_meta l \<noteq> None \<and> returns (linkMatch uni l f)"
    "\<And>p. p \<in> set (sn_prefixes snap) \<Longrightarrow> px_meta p \<noteq> None \<and> returns (prefixMatch uni p f)"
  using assms meta_present match_total unfolding snapshot_wf_def ids_strict_def by blast+

lemma handled_snapshot:
  assumes "pebble_laws P cont" "pebble_reads P" "store_inv cont lo M E s" "iter_order it"
    and "\<And>snap. snapshot_wf snap \<Longrightarrow> handled (f snap)"
  shows "handled (bindR (snapshot P it s r) f)"
  using SnapshotAt_cases[OF assms(1-4), of r] assms(5)
  by (auto simp: snapshot_def)

lemma handled_list_page: "returns r \<Longrightarrow> handled (list_page r snap)"
  by (auto simp: list_page_def returns_def)

lemma handled_get_entity:
  "(\<And>v. v \<in> set vs \<Longrightarrow> meta v \<noteq> None) \<Longrightarrow> handled (get_entity meta missing req snap vs)"
  unfolding get_entity_def
  by (intro handled_bindR handled_answer find_entity_returns) (auto split: option.split)

lemma resolveNodeID_returns: "snapshot_wf snap \<Longrightarrow> returns (resolveNodeID snap d q)"
  using snapshot_total(1)[of snap _ id None] snapshot_total(3)[of snap _ id None]
  by (auto simp: resolveNodeID_def split: option.split
      intro!: returns_bindR resolve_nodes_returns resolve_prefixes_returns)

lemma filterDomain_eq:
  assumes "snapshot_wf snap"
  shows "filterDomainNodes (sn_nodes snap) d = Inr (filter (\<lambda>n. GetDomainId (nd_meta n) = d) (sn_nodes snap))"
    "filterDomainLinks (sn_links snap) d = Inr (filter (\<lambda>l. GetDomainId (lk_meta l) = d) (sn_links snap))"
    "filterDomainPrefixes (sn_prefixes snap) d = Inr (filter (\<lambda>p. GetDomainId (px_meta p) = d) (sn_prefixes snap))"
  using snapshot_total[OF assms, where uni = id and f = None]
  by (auto simp: filterDomainNodes_def filterDomainLinks_def filterDomainPrefixes_def filter_domain_eq)

lemma ComputeMany_fault: "ComputeMany (NewGraph r ns ls) s t mt c limit = Inl f \<Longrightarrow> f \<noteq> Panic \<and> f \<noteq> Hang"
  using ComputeMany_outcome[of r ns ls s t mt c limit] by auto

section \<open>Streaming a snapshot\<close>

lemma fill_spec:
  assumes "\<And>v. v \<in> set vs \<Longrightarrow> match v = Inr (p v)" and "length out \<le> room"
  shows "\<exists>k. fill room match vs out = Inr (out @ filter p (take k vs), drop k vs) \<and>
    length out + length (filter p (take k vs)) \<le> room"
  using assms
proof (induction vs arbitrary: out)
  case (Cons v vs)
  show ?case
  proof (cases "length out < room")
    case True
    let ?out = "if p v then out @ [v] else out"
    have "length ?out \<le> room" using True by simp
    with Cons.IH[of ?out] Cons.prems(1) obtain k where
      k: "fill room match vs ?out = Inr (?out @ filter p (take k vs), drop k vs)"
      "length ?out + length (filter p (take k vs)) \<le> room" by auto
    then show ?thesis
      using Cons.prems(1)[of v] True by (intro exI[of _ "Suc k"]) (auto split: if_splits)
  next
    case False
    then show ?thesis using Cons.prems(2) by (intro exI[of _ 0]) simp
  qed
qed simp

text \<open>The elements of the pending lists that pass the filter, and what a message carries of them.\<close>

definition pending_total :: "(string \<Rightarrow> string) \<Rightarrow> TopologyFilter option \<Rightarrow> pending \<Rightarrow> bool" where
  "pending_total uni f left \<longleftrightarrow> (case left of (ns, ls, ps) \<Rightarrow>
     (\<forall>n \<in> set ns. nodeMatch uni n f = Inr (nodeMatch uni n f = Inr True)) \<and>
     (\<forall>l \<in> set ls. linkMatch uni l f = Inr (linkMatch uni l f = Inr True)) \<and>
     (\<forall>p \<in> set ps. prefixMatch uni p f = Inr (prefixMatch uni p f = Inr True)))"

definition selected :: "(string \<Rightarrow> string) \<Rightarrow> TopologyFilter option \<Rightarrow> pending \<Rightarrow> pending" where
  "selected uni f left = (case left of (ns, ls, ps) \<Rightarrow> (filter (\<lambda>n. nodeMatch uni n f = Inr True) ns,
     filter (\<lambda>l. linkMatch uni l f = Inr True) ls, filter (\<lambda>p. prefixMatch uni p f = Inr True) ps))"

definition carried :: "StreamSnapshotResponse list \<Rightarrow> pending" where
  "carried ms = (concat (map ss_nodes ms), concat (map ss_links ms), concat (map ss_prefixes ms))"

definition message_size :: "StreamSnapshotResponse \<Rightarrow> nat" where
  "message_size m = length (ss_nodes m) + length (ss_links m) + length (ss_prefixes m)"

lemma chunk_spec:
  assumes "pending_total uni f left"
  shows "\<exists>msg left'. chunk uni f snap b left = Inr (msg, left') \<and> pending_total uni f left' \<and>
    message_size msg \<le> chunkSize \<and> ss_domains msg = (if b then sn_domains snap else []) \<and>
    ss_revision msg = sn_revision snap \<and> (ss_last msg \<longleftrightarrow> pending_size left' = 0) \<and>
    (\<forall>ms. carried ms = selected uni f left' \<longrightarrow> carried (msg # ms) = selected uni f left)"
proof -
  obtain ns ls ps where l: "left = (ns, ls, ps)" by (cases left)
  let ?pn = "\<lambda>n. nodeMatch uni n f = Inr True" and ?pl = "\<lambda>l. linkMatch uni l f = Inr True"
    and ?pp = "\<lambda>p. prefixMatch uni p f = Inr True"
  have t: "\<And>n. n \<in> set ns \<Longrightarrow> nodeMatch uni n f = Inr (?pn n)" "\<And>l. l \<in> set ls \<Longrightarrow> linkMatch uni l f = Inr (?pl l)"
    "\<And>p. p \<in> set ps \<Longrightarrow> prefixMatch uni p f = Inr (?pp p)"
    using assms by (simp_all add: pending_total_def l)
  obtain i where i: "fill chunkSize (\<lambda>n. nodeMatch uni n f) ns [] = Inr (filter ?pn (take i ns), drop i ns)"
    "length (filter ?pn (take i ns)) \<le> chunkSize"
    using fill_spec[of ns "\<lambda>n. nodeMatch uni n f" ?pn "[]" chunkSize] t(1) by auto
  let ?r1 = "chunkSize - length (filter ?pn (take i ns))"
  obtain j where j: "fill ?r1 (\<lambda>l. linkMatch uni l f) ls [] = Inr (filter ?pl (take j ls), drop j ls)"
    "length (filter ?pl (take j ls)) \<le> ?r1"
    using fill_spec[of ls "\<lambda>l. linkMatch uni l f" ?pl "[]" ?r1] t(2) by auto
  let ?r2 = "?r1 - length (filter ?pl (take j ls))"
  obtain k where k: "fill ?r2 (\<lambda>p. prefixMatch uni p f) ps [] = Inr (filter ?pp (take k ps), drop k ps)"
    "length (filter ?pp (take k ps)) \<le> ?r2"
    using fill_spec[of ps "\<lambda>p. prefixMatch uni p f" ?pp "[]" ?r2] t(3) by auto
  let ?msg = "\<lparr>ss_revision = sn_revision snap, ss_domains = (if b then sn_domains snap else []),
    ss_nodes = filter ?pn (take i ns), ss_links = filter ?pl (take j ls), ss_prefixes = filter ?pp (take k ps),
    ss_last = (drop i ns = [] \<and> drop j ls = [] \<and> drop k ps = [])\<rparr>"
  let ?left = "(drop i ns, drop j ls, drop k ps)"
  have "chunk uni f snap b left = Inr (?msg, ?left)"
    unfolding chunk_def l by (simp only: prod.case i(1) j(1) k(1) bindR_simps)
  moreover have "pending_total uni f ?left"
    using t unfolding pending_total_def by (auto dest: in_set_dropD)
  moreover have "message_size ?msg \<le> chunkSize" using i(2) j(2) k(2) by (simp add: message_size_def)
  moreover have "carried (?msg # ms) = selected uni f left" if "carried ms = selected uni f ?left" for ms
    using that by (simp add: carried_def selected_def l flip: filter_append)
  moreover have "ss_last ?msg \<longleftrightarrow> pending_size ?left = 0" by (auto simp: pending_size_def)
  ultimately show ?thesis by fastforce
qed

lemma stream_loop_step:
  assumes "chunk uni f snap b left = Inr (msg, left')" and "0 < pending_size left \<or> b" and "send (length sent) = None"
  shows "stream_loop uni f snap send b left sent = stream_loop uni f snap send False left' (sent @ [msg])"
proof -
  have n: "\<not> (pending_size left = 0 \<and> \<not> b)" using assms(2) by auto
  show ?thesis
    by (simp only: stream_loop.simps[of uni f snap send b left sent] if_not_P[OF n] assms(1,3)
        sum.case prod.case option.case)
qed

lemma stream_loop_spec:
  assumes "pending_total uni f left" and "0 < pending_size left \<or> b"
  shows "\<exists>ms. stream_loop uni f snap (\<lambda>k. None) b left sent = (sent @ ms, Inr ()) \<and>
    carried ms = selected uni f left \<and> concat (map ss_domains ms) = (if b then sn_domains snap else []) \<and>
    (\<forall>m \<in> set ms. message_size m \<le> chunkSize \<and> ss_revision m = sn_revision snap) \<and>
    (\<exists>n. map ss_last ms = replicate n False @ [True])"
  using assms
proof (induction "pending_size left" arbitrary: b left sent rule: less_induct)
  case less
  obtain msg left' where c: "chunk uni f snap b left = Inr (msg, left')" "pending_total uni f left'"
    "message_size msg \<le> chunkSize" "ss_domains msg = (if b then sn_domains snap else [])"
    "ss_revision msg = sn_revision snap" "ss_last msg \<longleftrightarrow> pending_size left' = 0"
    "\<And>ms. carried ms = selected uni f left' \<Longrightarrow> carried (msg # ms) = selected uni f left"
    using chunk_spec[OF less.prems(1), of snap b] by metis
  have step: "stream_loop uni f snap (\<lambda>k. None) b left sent =
      stream_loop uni f snap (\<lambda>k. None) False left' (sent @ [msg])"
    by (rule stream_loop_step[OF c(1) less.prems(2) refl])
  show ?case
  proof (cases "pending_size left' = 0")
    case True
    then have "selected uni f left' = ([], [], [])" by (auto simp: pending_size_def selected_def split: prod.splits)
    then have "carried [msg] = selected uni f left" using c(7)[of "[]"] by (simp add: carried_def)
    moreover have "stream_loop uni f snap (\<lambda>k. None) False left' (sent @ [msg]) = (sent @ [msg], Inr ())"
      using True by (subst stream_loop.simps) simp
    moreover have "map ss_last [msg] = replicate 0 False @ [True]" using c(6) True by simp
    ultimately show ?thesis
      using step c(3,4,5) by (intro exI[of _ "[msg]"]) (auto simp only: list.map concat.simps append_Nil2 list.set)
  next
    case False
    then have "pending_size left' < pending_size left" using chunk_shrinks[OF c(1)] by linarith
    from less.hyps[OF this c(2), of False "sent @ [msg]"] False obtain ms n where
      ms: "stream_loop uni f snap (\<lambda>k. None) False left' (sent @ [msg]) = ((sent @ [msg]) @ ms, Inr ())"
      "carried ms = selected uni f left'" "concat (map ss_domains ms) = []"
      "\<forall>m \<in> set ms. message_size m \<le> chunkSize \<and> ss_revision m = sn_revision snap"
      "map ss_last ms = replicate n False @ [True]" by auto
    have "map ss_last (msg # ms) = replicate (Suc n) False @ [True]" using ms(5) c(6) False by simp
    then have flags: "\<exists>n. map ss_last (msg # ms) = replicate n False @ [True]" by blast
    show ?thesis
      using step ms c(3,4,5,7) by (intro exI[of _ "msg # ms"] conjI flags) auto
  qed
qed

lemma handled_stream_loop:
  assumes "pending_total uni f left"
  shows "handled (snd (stream_loop uni f snap send b left sent))"
  using assms
proof (induction uni f snap send b left sent rule: stream_loop.induct)
  case (1 uni f snap send b left sent)
  obtain msg left' where c: "chunk uni f snap b left = Inr (msg, left')" "pending_total uni f left'"
    using chunk_spec[OF "1.prems", of snap b] by metis
  show ?case
  proof (cases "(pending_size left = 0 \<and> \<not> b) \<or> send (length sent) \<noteq> None")
    case True
    then show ?thesis using c(1) by (subst stream_loop.simps) (auto split: option.split)
  next
    case False
    then have go: "0 < pending_size left \<or> b" "send (length sent) = None" by auto
    then have "\<not> (pending_size left = 0 \<and> \<not> b)" by auto
    from "1.IH"[OF this c(1) refl go(2) c(2)] show ?thesis
      by (simp only: stream_loop_step[where send = send and sent = sent, OF c(1) go])
  qed
qed

lemma pending_total_wf: "snapshot_wf snap \<Longrightarrow> pending_total uni f (sn_nodes snap, sn_links snap, sn_prefixes snap)"
  unfolding pending_total_def prod.case by (intro conjI ballI match_wf)

text \<open>
  C29. Streaming is complete: when every send succeeds, \<open>StreamSnapshot\<close> ends without an error after
  messages that together carry every node, link and prefix of the snapshot that passes the filter,
  once and in order, and its domains once; no message holds more than 500 entities, and the last
  message, and no other, is marked as last, also when nothing is to be sent.
\<close>

theorem StreamSnapshot_complete:
  assumes "pebble_laws P cont" and "pebble_reads P" and "store_inv cont lo M E s" and "iter_order it"
    and "SnapshotAt P it s r = Inr snap"
  shows "\<exists>ms n. StreamSnapshot P uni it s f r (\<lambda>k. None) = (ms, Inr ()) \<and>
    concat (map ss_nodes ms) = filter (\<lambda>n. nodeMatch uni n f = Inr True) (sn_nodes snap) \<and>
    concat (map ss_links ms) = filter (\<lambda>l. linkMatch uni l f = Inr True) (sn_links snap) \<and>
    concat (map ss_prefixes ms) = filter (\<lambda>p. prefixMatch uni p f = Inr True) (sn_prefixes snap) \<and>
    concat (map ss_domains ms) = sn_domains snap \<and>
    (\<forall>m \<in> set ms. length (ss_nodes m) + length (ss_links m) + length (ss_prefixes m) \<le> 500) \<and>
    map ss_last ms = replicate n False @ [True]"
proof -
  let ?left = "(sn_nodes snap, sn_links snap, sn_prefixes snap)"
  have "StreamSnapshot P uni it s f r (\<lambda>k. None) = stream_loop uni f snap (\<lambda>k. None) True ?left []"
    using assms(5) by (simp add: StreamSnapshot_def snapshot_def)
  with stream_loop_spec[OF pending_total_wf[OF SnapshotAt_wf[OF assms]], of True uni f snap "[]"]
  show ?thesis
    by (auto simp: carried_def selected_def message_size_def chunkSize_def)
qed

theorem StreamSnapshot_complete_witness:
  "\<exists>ms. StreamSnapshot memory_pebble id id (sample_run sample_changes) None 2 (\<lambda>k. None) = (ms, Inr ()) \<and>
     map node_id (concat (map ss_nodes ms)) = [''a'', ''b'']"
proof -
  let ?s = "sample_run sample_changes"
  define snap where "snap = projr (SnapshotAt memory_pebble id ?s 2)"
  have "\<not> isl (SnapshotAt memory_pebble id ?s 2)" by code_simp
  then have at2: "SnapshotAt memory_pebble id ?s 2 = Inr snap" by (simp add: snap_def)
  have ids: "map node_id (filter (\<lambda>n. nodeMatch id n None = Inr True) (sn_nodes snap)) = [''a'', ''b'']"
    unfolding snap_def by code_simp
  obtain lo M E where "store_inv (\<lambda>c. c) lo M E ?s" using sample_inv by blast
  from StreamSnapshot_complete[OF memory_pebble_laws this iter_order_id(1) at2, of id None] ids
  show ?thesis by metis
qed

section \<open>Reading never fails by itself\<close>

lemma handled_calls:
  assumes "pebble_laws P cont" "pebble_reads P" "store_inv cont lo M E s" "iter_order it"
  shows "handled (GetSummary uni it s f)" "handled (ListDomains it s pg)" "handled (ListNodes P uni it s lr)"
    "handled (ListLinks P uni it s lr)" "handled (ListPrefixes P uni it s lr)" "handled (GetNode P it s gr)"
    "handled (GetLink P it s gr)" "handled (GetPrefix P it s gr)" "handled (GetNeighbors P uni it s nb)"
    "handled (Resolve uni it s rr)" "handled (snd (StreamSnapshot P uni it s f r send))"
    "handled (ComputePaths P it s rq)" "handled (AnalyzeImpact P it s iq)"
proof -
  note snap = handled_snapshot[OF assms]
  note wf = Store_Snapshot_wf[OF assms(3,4)]
  note tot = snapshot_total
  show "handled (GetSummary uni it s f)"
    unfolding GetSummary_def Let_def using tot[OF wf, of _ uni f]
    by (intro handled_answer returns_bindR) (auto intro!: tally_loop_returns returns_bindR)
  show "handled (ListDomains it s pg)"
    unfolding ListDomains_def Let_def by (intro handled_list_page page_of_returns) simp
  show "handled (ListNodes P uni it s lr)" "handled (ListLinks P uni it s lr)" "handled (ListPrefixes P uni it s lr)"
    unfolding ListNodes_def ListLinks_def ListPrefixes_def
    by (intro snap handled_list_page page_of_returns; use tot in blast)+
  show "handled (GetNode P it s gr)" "handled (GetLink P it s gr)" "handled (GetPrefix P it s gr)"
    unfolding GetNode_def GetLink_def GetPrefix_def
    by (intro snap handled_get_entity; use tot in blast)+
  show "handled (GetNeighbors P uni it s nb)"
    unfolding GetNeighbors_def
    by (intro snap handled_answer returns_bindR neighbors_loop_returns) (use tot in \<open>blast, simp\<close>)
  show "handled (Resolve uni it s rr)"
    unfolding Resolve_def Let_def
    by (intro handled_answer returns_bindR page_scan_returns resolve_test_returns) (use tot[OF wf] in \<open>blast+, simp\<close>)
  show "handled (snd (StreamSnapshot P uni it s f r send))"
    using SnapshotAt_cases[OF assms, of r]
    by (auto simp: StreamSnapshot_def snapshot_def intro!: handled_stream_loop pending_total_wf)
  show "handled (ComputePaths P it s rq)"
    unfolding ComputePaths_def
    by (intro snap handled_bindR) (auto simp: filterDomain_eq intro!: handled_answer resolveNodeID_returns
        split: sum.split fault.split dest: ComputeMany_fault)
  show "handled (AnalyzeImpact P it s iq)"
    unfolding AnalyzeImpact_def by (intro snap) (simp add: filterDomain_eq)
qed

end
