(* ===== verification/Path_Theorems.thy ===== *)
theory Path_Theorems
  imports API_Theorems
begin

text \<open>
  Lookups of single entities, the summary, and path requests: the composition of the store, the
  resolution of the two ends and the graph.
\<close>

section \<open>Lookups\<close>

lemma find_entity_eq:
  "(\<And>v. v \<in> set vs \<Longrightarrow> meta v \<noteq> None) \<Longrightarrow> find_entity meta i stale vs =
     Inr (List.find (\<lambda>v. GetId (meta v) = i \<and> (stale \<or> GetFreshness (meta v) = FRESHNESS_ACTIVE)) vs)"
proof (induction vs)
  case (Cons v vs)
  from Cons.prems[of v] obtain m where "meta v = Some m" by auto
  then show ?case using Cons by (auto simp: GetFreshness_def)
qed simp

lemma find_unique:
  assumes "ids_strict key vs" and "x \<in> set vs" and "key x = i" and "p x"
  shows "List.find (\<lambda>v. key v = i \<and> p v) vs = Some x"
  using assms
proof (induction vs)
  case (Cons v vs)
  have ids: "ids_strict key vs" "\<forall>y \<in> set vs. key v < key y" using Cons.prems(1) by (auto simp: ids_strict_def)
  show ?case
  proof (cases "x = v")
    case False
    then have "x \<in> set vs" "key v \<noteq> i" using Cons.prems ids(2) by auto
    then show ?thesis using Cons.IH[OF ids(1) _ Cons.prems(3,4)] by simp
  qed (use Cons.prems in simp)
qed simp

text \<open>
  A lookup returns the entity with the requested identifier in the snapshot of the requested
  revision, which is the only one with it, when it is active or stale entities are asked for; and
  CodeNotFound when there is none.
\<close>

theorem GetNode_exact:
  assumes "pebble_laws P cont" and "pebble_reads P" and "store_inv cont lo M E s" and "iter_order it"
    and "SnapshotAt P it s r = Inr snap"
  shows "let result = GetNode P it s \<lparr>gr_id = i, gr_revision = r, gr_include_stale = stale\<rparr>;
             visible = (\<lambda>n. node_id n = i \<and> (stale \<or> GetFreshness (nd_meta n) = FRESHNESS_ACTIVE))
    in (\<forall>n. n \<in> set (sn_nodes snap) \<and> visible n \<longleftrightarrow> result = Inr (n, sn_revision snap)) \<and>
       ((\<forall>n \<in> set (sn_nodes snap). \<not> visible n) \<longleftrightarrow> result = Inl (ConnectError CodeNotFound (New ''node not found'')))"
proof -
  note wf = SnapshotAt_wf[OF assms]
  let ?p = "\<lambda>n. stale \<or> GetFreshness (nd_meta n) = FRESHNESS_ACTIVE"
  let ?q = "\<lambda>n. node_id n = i \<and> ?p n"
  let ?result = "GetNode P it s \<lparr>gr_id = i, gr_revision = r, gr_include_stale = stale\<rparr>"
  have "?result = bindR (answer (find_entity nd_meta i stale (sn_nodes snap))) (\<lambda>r. case r of
      None \<Rightarrow> Inl (ConnectError CodeNotFound (New ''node not found'')) | Some v \<Rightarrow> Inr (v, sn_revision snap))"
    using assms(5) by (simp add: GetNode_def snapshot_def get_entity_def)
  also have "find_entity nd_meta i stale (sn_nodes snap) = Inr (List.find ?q (sn_nodes snap))"
    using snapshot_total(1)[OF wf] by (simp add: find_entity_eq node_id_def)
  finally have result: "?result = (case List.find ?q (sn_nodes snap) of
      None \<Rightarrow> Inl (ConnectError CodeNotFound (New ''node not found'')) | Some v \<Rightarrow> Inr (v, sn_revision snap))" by simp
  have ids: "ids_strict node_id (sn_nodes snap)" using wf by (simp add: snapshot_wf_def)
  have "n \<in> set (sn_nodes snap) \<and> ?q n \<longleftrightarrow> List.find ?q (sn_nodes snap) = Some n" for n
    using find_unique[OF ids, of n i ?p] by (auto simp: find_Some_iff)
  moreover have "(\<forall>n \<in> set (sn_nodes snap). \<not> ?q n) \<longleftrightarrow> List.find ?q (sn_nodes snap) = None"
    by (auto simp: find_None_iff)
  ultimately show ?thesis unfolding Let_def result by (auto split: option.split)
qed

theorem GetNode_exact_witness:
  "\<exists>n. GetNode memory_pebble id (sample_run sample_changes)
      \<lparr>gr_id = ''a'', gr_revision = 2, gr_include_stale = False\<rparr> = Inr (n, 2) \<and> node_id n = ''a''"
proof -
  let ?s = "sample_run sample_changes"
  define snap where "snap = projr (SnapshotAt memory_pebble id ?s 2)"
  have "\<not> isl (SnapshotAt memory_pebble id ?s 2)" by code_simp
  then have at2: "SnapshotAt memory_pebble id ?s 2 = Inr snap" by (simp add: snap_def)
  have two: "sn_revision snap = 2" unfolding snap_def by code_simp
  define n where "n = hd (sn_nodes snap)"
  have n: "n \<in> set (sn_nodes snap)" "node_id n = ''a''" "GetFreshness (nd_meta n) = FRESHNESS_ACTIVE"
  proof -
    have "sn_nodes snap \<noteq> []" unfolding snap_def by code_simp
    then show "n \<in> set (sn_nodes snap)" by (simp add: n_def)
    show "node_id n = ''a''" unfolding n_def snap_def by code_simp
    show "GetFreshness (nd_meta n) = FRESHNESS_ACTIVE" unfolding n_def snap_def by code_simp
  qed
  obtain lo M E where "store_inv (\<lambda>c. c) lo M E ?s" using sample_inv by blast
  from GetNode_exact[OF memory_pebble_laws this iter_order_id(1) at2, of "''a''" False] n two
  show ?thesis unfolding Let_def by metis
qed

section \<open>The summary\<close>

lemma tally_loop_eq:
  assumes "\<And>v. v \<in> set vs \<Longrightarrow> match v = Inr (p v) \<and> meta v \<noteq> None"
  shows "tally_loop match meta vs n t =
    Inr (n + of_nat (length (filter p vs)), fold tally_one (map (\<lambda>v. the (meta v)) (filter p vs)) t)"
  using assms
proof (induction vs arbitrary: n t)
  case (Cons v vs)
  from Cons.prems[of v] obtain m where "meta v = Some m" "match v = Inr (p v)" by auto
  then show ?case using Cons by simp
qed simp

lemma fold_tally:
  "ty_conflicts (fold tally_one ms t) = ty_conflicts t + of_nat (length (filter (\<lambda>m. em_conflicts m \<noteq> []) ms))"
  "ty_stale (fold tally_one ms t) = ty_stale t + of_nat (length (filter (\<lambda>m. em_freshness m \<noteq> FRESHNESS_ACTIVE) ms))"
  "set (ty_domains (fold tally_one ms t)) = set (ty_domains t) \<union> em_domain_id ` set ms"
  "distinct (ty_domains t) \<Longrightarrow> distinct (ty_domains (fold tally_one ms t))"
  by (induction ms arbitrary: t) (auto simp: tally_one_def)

text \<open>The metadata of the entities of a snapshot that pass a filter, in the order of the three loops.\<close>

definition selected_metas :: "(string \<Rightarrow> string) \<Rightarrow> TopologyFilter option \<Rightarrow> Snapshot \<Rightarrow> EntityMeta list" where
  "selected_metas uni f snap =
     map (\<lambda>n. the (nd_meta n)) (filter (\<lambda>n. nodeMatch uni n f = Inr True) (sn_nodes snap)) @
     map (\<lambda>l. the (lk_meta l)) (filter (\<lambda>l. linkMatch uni l f = Inr True) (sn_links snap)) @
     map (\<lambda>p. the (px_meta p)) (filter (\<lambda>p. prefixMatch uni p f = Inr True) (sn_prefixes snap))"

text \<open>
  The summary counts what the list calls return: the numbers of nodes, links and prefixes that
  pass the filter, of their distinct domains, of those with conflicts and of those that are not
  active, and of all peers, each as an unsigned 64-bit number.
\<close>

theorem GetSummary_counts:
  assumes "store_inv cont lo M E s" and "iter_order it"
  shows "let snap = Store_Snapshot it s; ms = selected_metas uni f snap in
    GetSummary uni it s f = Inr \<lparr>gs_revision = st_revision s, gs_observed_at = Some (st_observed s),
      gs_domain_count = of_nat (card (set (map em_domain_id ms))),
      gs_node_count = of_nat (length (filter (\<lambda>n. nodeMatch uni n f = Inr True) (sn_nodes snap))),
      gs_link_count = of_nat (length (filter (\<lambda>l. linkMatch uni l f = Inr True) (sn_links snap))),
      gs_prefix_count = of_nat (length (filter (\<lambda>p. prefixMatch uni p f = Inr True) (sn_prefixes snap))),
      gs_peer_count = of_nat (length (sn_peers snap)),
      gs_conflict_count = of_nat (length (filter (\<lambda>m. em_conflicts m \<noteq> []) ms)),
      gs_stale_count = of_nat (length (filter (\<lambda>m. em_freshness m \<noteq> FRESHNESS_ACTIVE) ms))\<rparr>"
proof -
  let ?snap = "Store_Snapshot it s" and ?t0 = "\<lparr>ty_domains = [], ty_conflicts = 0, ty_stale = 0\<rparr>"
  let ?ms = "selected_metas uni f ?snap"
  have wf: "snapshot_wf ?snap" by (rule Store_Snapshot_wf[OF assms])
  note tot = snapshot_total[OF wf, where uni = uni and f = f] and eq = match_wf[OF wf, where uni = uni and f = f]
  have n: "nodeMatch uni n f = Inr (nodeMatch uni n f = Inr True) \<and> nd_meta n \<noteq> None" if "n \<in> set (sn_nodes ?snap)" for n
    using tot(1)[OF that] eq(1)[OF that] by blast
  have l: "linkMatch uni l f = Inr (linkMatch uni l f = Inr True) \<and> lk_meta l \<noteq> None" if "l \<in> set (sn_links ?snap)" for l
    using tot(2)[OF that] eq(2)[OF that] by blast
  have p: "prefixMatch uni p f = Inr (prefixMatch uni p f = Inr True) \<and> px_meta p \<noteq> None" if "p \<in> set (sn_prefixes ?snap)" for p
    using tot(3)[OF that] eq(3)[OF that] by blast
  note loops = tally_loop_eq[of "sn_nodes ?snap", OF n] tally_loop_eq[of "sn_links ?snap", OF l]
    tally_loop_eq[of "sn_prefixes ?snap", OF p]
  have "distinct (ty_domains (fold tally_one ?ms ?t0))" by (rule fold_tally(4)) simp
  then have doms: "length (ty_domains (fold tally_one ?ms ?t0)) = card (set (map em_domain_id ?ms))"
    using fold_tally(3)[of ?ms ?t0] by (simp add: distinct_card[symmetric])
  have "GetSummary uni it s f = answer (Inr \<lparr>gs_revision = sn_revision ?snap, gs_observed_at = Some (sn_observed ?snap),
      gs_domain_count = of_nat (length (ty_domains (fold tally_one ?ms ?t0))),
      gs_node_count = of_nat (length (filter (\<lambda>n. nodeMatch uni n f = Inr True) (sn_nodes ?snap))),
      gs_link_count = of_nat (length (filter (\<lambda>l. linkMatch uni l f = Inr True) (sn_links ?snap))),
      gs_prefix_count = of_nat (length (filter (\<lambda>p. prefixMatch uni p f = Inr True) (sn_prefixes ?snap))),
      gs_peer_count = of_nat (length (sn_peers ?snap)),
      gs_conflict_count = ty_conflicts (fold tally_one ?ms ?t0),
      gs_stale_count = ty_stale (fold tally_one ?ms ?t0)\<rparr>)"
    unfolding GetSummary_def Let_def selected_metas_def
    by (simp only: loops bindR_simps prod.case fold_append comp_apply add_0)
  moreover have "sn_revision ?snap = st_revision s" "sn_observed ?snap = st_observed s"
    by (simp_all add: Store_Snapshot_def snapshot_of_def)
  ultimately show ?thesis
    unfolding Let_def doms fold_tally(1,2) by (simp only: answer_simps tally.simps add_0)
qed

theorem GetSummary_counts_witness:
  "\<exists>r. GetSummary id id (sample_run (take 2 sample_changes)) None = Inr r \<and> gs_node_count r = 2 \<and> gs_domain_count r = 1"
proof -
  let ?s = "sample_run (take 2 sample_changes)"
  have "list_all (\<lambda>(t, m). mutation_ok m) (take 2 sample_changes)" "length (take 2 sample_changes) < 1000"
    by (simp_all add: sample_changes_def sample_mutations_ok)
  from sample_run_inv[OF this] obtain lo M E where inv: "store_inv (\<lambda>c. c) lo M E ?s" by blast
  have n: "length (filter (\<lambda>n. nodeMatch id n None = Inr True) (sn_nodes (Store_Snapshot id ?s))) = 2" by code_simp
  have d: "card (set (map em_domain_id (selected_metas id None (Store_Snapshot id ?s)))) = 1" by code_simp
  from GetSummary_counts[OF inv iter_order_id(1), of id None] n d show ?thesis by (simp add: Let_def)
qed

section \<open>Resolving the ends of a path\<close>

definition names_node :: "string \<Rightarrow> string \<Rightarrow> Node \<Rightarrow> bool" where
  "names_node d q n \<longleftrightarrow> GetDomainId (nd_meta n) = d \<and> q \<in> {node_id n, nd_name n, nd_igp_router_id n,
     nd_bgp_router_id n, nd_ipv4_router_id n, nd_ipv6_router_id n}"

text \<open>The length of a prefix of the domain that contains the address.\<close>

definition covers :: "string \<Rightarrow> Addr \<Rightarrow> Prefix \<Rightarrow> nat option" where
  "covers d a p = (if GetDomainId (px_meta p) = d then case ParsePrefix (px_prefix p) of None \<Rightarrow> None
     | Some net \<Rightarrow> if Prefix_Contains net a then Some (Bits net) else None else None)"

lemma resolve_nodes_eq:
  "(\<And>n. n \<in> set ns \<Longrightarrow> nd_meta n \<noteq> None) \<Longrightarrow>
     resolve_nodes d q ns = Inr (map_option node_id (List.find (names_node d q) ns))"
proof (induction ns)
  case (Cons n ns)
  from Cons.prems[of n] obtain m where "nd_meta n = Some m" by auto
  then show ?case using Cons by (auto simp: names_node_def node_id_def getter_simps)
qed simp

lemma resolve_prefixes_step:
  assumes "px_meta p \<noteq> None"
  shows "resolve_prefixes d a (p # ps) n best = (case covers d a p of
      Some k \<Rightarrow> if n < int k then resolve_prefixes d a ps (int k) (px_origin_node_id p)
                else resolve_prefixes d a ps n best
    | None \<Rightarrow> resolve_prefixes d a ps n best)"
  using assms by (auto simp: covers_def getter_simps split: option.splits)

text \<open>
  The outcome of the loop: the origin of a longest covering prefix that is longer than \<open>n\<close>, or
  \<open>best\<close> when no covering prefix is.
\<close>

definition longest_cover :: "string \<Rightarrow> Addr \<Rightarrow> Prefix list \<Rightarrow> int \<Rightarrow> string \<Rightarrow> string \<Rightarrow> bool" where
  "longest_cover d a ps n best b \<longleftrightarrow>
     (b = best \<and> (\<forall>p \<in> set ps. \<forall>k. covers d a p = Some k \<longrightarrow> int k \<le> n)) \<or>
     (\<exists>p \<in> set ps. \<exists>k. covers d a p = Some k \<and> n < int k \<and> b = px_origin_node_id p \<and>
        (\<forall>p' \<in> set ps. \<forall>k'. covers d a p' = Some k' \<longrightarrow> k' \<le> k))"

lemma longest_cover_better:
  assumes "covers d a p = Some k" and "n < int k" and "longest_cover d a ps (int k) (px_origin_node_id p) b"
  shows "longest_cover d a (p # ps) n best b"
  using assms(3)[unfolded longest_cover_def]
proof (elim disjE conjE bexE exE)
  assume "b = px_origin_node_id p" "\<forall>p \<in> set ps. \<forall>j. covers d a p = Some j \<longrightarrow> int j \<le> int k"
  then show ?thesis
    using assms(1,2) unfolding longest_cover_def by (intro disjI2 bexI[of _ p] exI[of _ k]) auto
next
  fix q j assume "q \<in> set ps" "covers d a q = Some j" "int k < int j" "b = px_origin_node_id q"
    "\<forall>p' \<in> set ps. \<forall>k'. covers d a p' = Some k' \<longrightarrow> k' \<le> j"
  then show ?thesis
    using assms(1,2) unfolding longest_cover_def by (intro disjI2 bexI[of _ q] exI[of _ j]) auto
qed

lemma longest_cover_skip:
  assumes "\<And>k. covers d a p = Some k \<Longrightarrow> int k \<le> n" and "longest_cover d a ps n best b"
  shows "longest_cover d a (p # ps) n best b"
  using assms(2)[unfolded longest_cover_def]
proof (elim disjE conjE bexE exE)
  assume "b = best" "\<forall>p \<in> set ps. \<forall>k. covers d a p = Some k \<longrightarrow> int k \<le> n"
  then show ?thesis using assms(1) unfolding longest_cover_def by auto
next
  fix q j assume q: "q \<in> set ps" "covers d a q = Some j" "n < int j" "b = px_origin_node_id q"
    "\<forall>p' \<in> set ps. \<forall>k'. covers d a p' = Some k' \<longrightarrow> k' \<le> j"
  have "k' \<le> j" if "covers d a p = Some k'" for k' using assms(1)[OF that] q(3) by linarith
  then show ?thesis
    using q unfolding longest_cover_def by (intro disjI2 bexI[of _ q] exI[of _ j]) auto
qed

lemma resolve_prefixes_spec:
  "\<forall>p \<in> set ps. px_meta p \<noteq> None \<Longrightarrow> \<exists>b. resolve_prefixes d a ps n best = Inr b \<and> longest_cover d a ps n best b"
proof (induction ps arbitrary: n best)
  case (Cons p ps)
  have step: "resolve_prefixes d a (p # ps) n best = (case covers d a p of
      Some k \<Rightarrow> if n < int k then resolve_prefixes d a ps (int k) (px_origin_node_id p)
                else resolve_prefixes d a ps n best
    | None \<Rightarrow> resolve_prefixes d a ps n best)"
    by (rule resolve_prefixes_step) (use Cons.prems in simp)
  have rest: "\<forall>p \<in> set ps. px_meta p \<noteq> None" using Cons.prems by simp
  show ?case
  proof (cases "\<exists>k. covers d a p = Some k \<and> n < int k")
    case True
    then obtain k where k: "covers d a p = Some k" "n < int k" by blast
    from Cons.IH[OF rest, of "int k" "px_origin_node_id p"] show ?thesis
      using longest_cover_better[OF k] step k by auto
  next
    case False
    then have "resolve_prefixes d a (p # ps) n best = resolve_prefixes d a ps n best"
      using step by (auto split: option.splits)
    moreover have "\<And>k. covers d a p = Some k \<Longrightarrow> int k \<le> n" using False by auto
    ultimately show ?thesis using Cons.IH[OF rest, of n best] longest_cover_skip by auto
  qed
qed (simp add: longest_cover_def)

text \<open>
  The end of a path is resolved to a node of the domain that has the text as its identifier,
  name or one of its router identifiers, the first in the order of identifiers; otherwise, for an address, to the
  origin of a longest prefix of the domain that contains it; otherwise to nothing.
\<close>

theorem resolveNodeID_spec:
  assumes "snapshot_wf snap"
  shows "\<exists>i. resolveNodeID snap d q = Inr i \<and> (case List.find (names_node d q) (sn_nodes snap) of
      Some n \<Rightarrow> i = node_id n
    | None \<Rightarrow> (case ParseAddr q of None \<Rightarrow> i = []
       | Some a \<Rightarrow> (if \<forall>p \<in> set (sn_prefixes snap). covers d a p = None then i = []
           else \<exists>p \<in> set (sn_prefixes snap). \<exists>k. covers d a p = Some k \<and> i = px_origin_node_id p \<and>
             (\<forall>p' \<in> set (sn_prefixes snap). \<forall>k'. covers d a p' = Some k' \<longrightarrow> k' \<le> k))))"
proof -
  have n: "resolve_nodes d q (sn_nodes snap) = Inr (map_option node_id (List.find (names_node d q) (sn_nodes snap)))"
    using snapshot_total(1)[OF assms] by (intro resolve_nodes_eq) blast
  show ?thesis
  proof (cases "List.find (names_node d q) (sn_nodes snap)")
    case (Some n)
    then show ?thesis by (simp add: resolveNodeID_def n[unfolded Some])
  next
    case None
    note n = n[unfolded None]
    show ?thesis
    proof (cases "ParseAddr q")
      case (Some a)
      have "\<forall>p \<in> set (sn_prefixes snap). px_meta p \<noteq> None" using snapshot_total(3)[OF assms] by blast
      from resolve_prefixes_spec[OF this, of d a "-1" "[]"] obtain b where
        b: "resolve_prefixes d a (sn_prefixes snap) (-1) [] = Inr b" and
        cases: "longest_cover d a (sn_prefixes snap) (-1) [] b" by blast
      have r: "resolveNodeID snap d q = Inr b" using Some b by (simp add: resolveNodeID_def n)
      show ?thesis
      proof (cases "\<forall>p \<in> set (sn_prefixes snap). covers d a p = None")
        case True
        then show ?thesis using cases r Some None by (auto simp: longest_cover_def)
      next
        case False
        then have "\<not> (\<forall>p \<in> set (sn_prefixes snap). \<forall>k. covers d a p = Some k \<longrightarrow> int k \<le> - 1)" by fastforce
        with cases have "\<exists>p \<in> set (sn_prefixes snap). \<exists>k. covers d a p = Some k \<and> b = px_origin_node_id p \<and>
            (\<forall>p' \<in> set (sn_prefixes snap). \<forall>k'. covers d a p' = Some k' \<longrightarrow> k' \<le> k)"
          unfolding longest_cover_def by blast
        then show ?thesis using False r Some None by auto
      qed
    qed (simp add: resolveNodeID_def n None)
  qed
qed

theorem resolveNodeID_spec_witness:
  "resolveNodeID (Store_Snapshot id (sample_run sample_changes)) ''d'' ''b'' = Inr ''b''"
proof -
  obtain lo M E where "store_inv (\<lambda>c. c) lo M E (sample_run sample_changes)" using sample_inv by blast
  from resolveNodeID_spec[OF Store_Snapshot_wf[OF this iter_order_id(1)], of "''d''" "''b''"] obtain i where
    i: "resolveNodeID (Store_Snapshot id (sample_run sample_changes)) ''d'' ''b'' = Inr i" by blast
  have "resolveNodeID (Store_Snapshot id (sample_run sample_changes)) ''d'' ''b'' = Inr ''b''" by code_simp
  with i show ?thesis by simp
qed

section \<open>Path requests\<close>

fun joins :: "string \<Rightarrow> Link list \<Rightarrow> string \<Rightarrow> bool" where
  "joins u [] v = (u = v)"
| "joins u (l # ls) v = (lk_local_node_id l = u \<and> joins (lk_remote_node_id l) ls v)"

lemma walk_joins:
  "link_walk (NewGraph r ns ls) mt c u es v \<Longrightarrow> joins u es v \<and>
     (\<forall>l \<in> set es. l \<in> set ls \<and> GetFreshness (lk_meta l) = FRESHNESS_ACTIVE \<and> eligible l c)"
  by (induction es arbitrary: u) (auto simp: usable_def NewGraph_nodes_links link_admitted_def)

lemma Compute_joins:
  assumes "Compute (NewGraph r ns ls) s t mt c = Inr p"
  shows "\<exists>es. map hop_outgoing_link (cp_hops p) = map Some es @ [None] \<and> joins s es t \<and>
    (\<forall>l \<in> set es. l \<in> set ls \<and> GetFreshness (lk_meta l) = FRESHNESS_ACTIVE)"
proof -
  obtain segs where segs: "route (NewGraph r ns ls) mt c (waypoints_of s c t) segs"
    "map hop_outgoing_link (cp_hops p) = map Some (concat segs) @ [None]"
    using Compute_Inr[OF graph_ok_NewGraph assms] by blast
  have "link_walk (NewGraph r ns ls) mt c s (concat segs) t"
    using route_walk[OF segs(1)[unfolded waypoints_of_def append.simps]] by simp
  from walk_joins[OF this] segs(2) show ?thesis by blast
qed

lemma ComputeMany_each:
  assumes "ComputeMany (NewGraph r ns ls) s t mt c limit = Inr paths" and "p \<in> set paths"
  shows "\<exists>c'. Compute (NewGraph r ns ls) s t mt c' = Inr p"
proof -
  obtain first alts where paths: "paths = first # alts" "Compute (NewGraph r ns ls) s t mt c = Inr first"
      "\<forall>p \<in> set alts. alternative_of (NewGraph r ns ls) s t mt c first p"
    using ComputeMany_spec[OF assms(1)] by blast
  show ?thesis
  proof (cases "p = first")
    case False
    then have "alternative_of (NewGraph r ns ls) s t mt c first p" using paths(1,3) assms(2) by simp
    then show ?thesis unfolding alternative_of_def by blast
  qed (use paths(2) in blast)
qed

text \<open>
  C28. What a path request returns: every path starts at the node the source resolves to, ends at
  the node the destination resolves to, and goes over active links of the requested domain in the
  snapshot of the requested revision, each hop naming its outgoing link and the last none; a
  response without paths explains why with the text of an error.
\<close>

theorem ComputePaths_sound:
  assumes "pebble_laws P cont" and "pebble_reads P" and "store_inv cont lo M E s" and "iter_order it"
    and "ComputePaths P it s req = Inr resp"
  shows "\<exists>snap src dst. SnapshotAt P it s (rq_revision req) = Inr snap \<and> rp_revision resp = sn_revision snap \<and>
    resolveNodeID snap (rq_domain_id req) (rq_source req) = Inr src \<and> src \<noteq> [] \<and>
    resolveNodeID snap (rq_domain_id req) (rq_destination req) = Inr dst \<and> dst \<noteq> [] \<and>
    (rp_paths resp = [] \<longrightarrow> (\<exists>e. errors_Is e ErrNoPath \<and> rp_explanation resp = error_text e)) \<and>
    (\<forall>p \<in> set (rp_paths resp). \<exists>es. map hop_outgoing_link (cp_hops p) = map Some es @ [None] \<and> joins src es dst \<and>
       (\<forall>l \<in> set es. l \<in> set (sn_links snap) \<and> GetDomainId (lk_meta l) = rq_domain_id req \<and>
          GetFreshness (lk_meta l) = FRESHNESS_ACTIVE))"
proof -
  let ?d = "rq_domain_id req"
  obtain snap where snap: "SnapshotAt P it s (rq_revision req) = Inr snap"
    using assms(5) by (auto simp: ComputePaths_def bindR_Inr_iff snapshot_Inr)
  note wf = SnapshotAt_wf[OF assms(1-4) snap]
  obtain src dst where ends: "resolveNodeID snap ?d (rq_source req) = Inr src"
      "resolveNodeID snap ?d (rq_destination req) = Inr dst"
    using resolveNodeID_returns[OF wf] unfolding returns_def by metis
  let ?g = "NewGraph (sn_revision snap) (filter (\<lambda>n. GetDomainId (nd_meta n) = ?d) (sn_nodes snap))
    (filter (\<lambda>l. GetDomainId (lk_meta l) = ?d) (sn_links snap))"
  let ?r = "ComputeMany ?g src dst (rq_metric req) (rq_constraints req) (uint (rq_max_paths req))"
  have run: "(if src = [] \<or> dst = [] then Inl (ConnectError CodeNotFound
      (New ''source or destination could not be resolved in the requested domain''))
    else case ?r of Inl (Error e) \<Rightarrow> Inr \<lparr>rp_paths = [], rp_revision = sn_revision snap, rp_explanation = error_text e\<rparr>
     | Inl Panic \<Rightarrow> Inl Crash | Inl Hang \<Rightarrow> Inl Stuck
     | Inr paths \<Rightarrow> Inr \<lparr>rp_paths = paths, rp_revision = sn_revision snap, rp_explanation = []\<rparr>) = Inr resp"
    using assms(5) unfolding ComputePaths_def snapshot_def
    by (simp only: snap ends answer_simps bindR_simps filterDomain_eq[OF wf])
  then have ne: "src \<noteq> []" "dst \<noteq> []" by (auto split: if_splits)
  note run = run
  have out: "(\<exists>ps. ?r = Inr ps) \<or> (\<exists>e. ?r = Inl (Error e) \<and> errors_Is e ErrNoPath)" by (rule ComputeMany_outcome)
  then have paths: "(rp_paths resp = [] \<and> (\<exists>e. errors_Is e ErrNoPath \<and> rp_explanation resp = error_text e)) \<or> ?r = Inr (rp_paths resp)"
    "rp_revision resp = sn_revision snap"
    using run ne by (elim disjE exE conjE; auto)+
  have "\<exists>c'. Compute ?g src dst (rq_metric req) c' = Inr p" if "?r = Inr (rp_paths resp)" "p \<in> set (rp_paths resp)" for p
    by (rule ComputeMany_each[OF that])
  then have each: "\<exists>es. map hop_outgoing_link (cp_hops p) = map Some es @ [None] \<and> joins src es dst \<and>
      (\<forall>l \<in> set es. l \<in> set (sn_links snap) \<and> GetDomainId (lk_meta l) = ?d \<and> GetFreshness (lk_meta l) = FRESHNESS_ACTIVE)"
    if "p \<in> set (rp_paths resp)" for p
    using paths(1) that Compute_joins by fastforce
  have "rp_paths resp \<noteq> []" if "?r = Inr (rp_paths resp)" using ComputeMany_spec[OF that] by auto
  then show ?thesis using snap ends ne paths each by (intro exI[of _ snap] exI[of _ src] exI[of _ dst]) blast
qed

definition path_changes :: "(time \<times> Mutation) list" where
  "path_changes = [(10, sample_upsert ''a''), (20, sample_upsert ''b''),
     (30, \<lparr>mu_kind = ENTITY_KIND_LINK, mu_id = ''ab'', mu_domain_id = ''d'', mu_peer_id = ''p'', mu_reason = ''test'',
        mu_delete = False, mu_value = Some (LinkE (sample_link ''ab'' ''a'' ''b'' 5 (Fin 100)))\<rparr>)]"

definition path_request :: ComputePathsRequest where
  "path_request = \<lparr>rq_domain_id = ''d'', rq_source = ''a'', rq_destination = ''b'', rq_metric = PATH_METRIC_IGP,
     rq_constraints = None, rq_max_paths = 1, rq_revision = 0\<rparr>"

theorem ComputePaths_sound_witness:
  "\<exists>resp p es. ComputePaths memory_pebble id (sample_run path_changes) path_request = Inr resp \<and>
     p \<in> set (rp_paths resp) \<and> map hop_outgoing_link (cp_hops p) = map Some es @ [None] \<and> joins ''a'' es ''b''"
proof -
  let ?run = "ComputePaths memory_pebble id (sample_run path_changes) path_request"
  have "list_all (\<lambda>(t, m). mutation_ok m) path_changes" by code_simp
  moreover have "length path_changes < 1000" by (simp add: path_changes_def)
  ultimately obtain lo M E where inv: "store_inv (\<lambda>c. c) lo M E (sample_run path_changes)"
    using sample_run_inv by blast
  have "\<not> isl ?run" by code_simp
  then have run: "?run = Inr (projr ?run)" by simp
  have ne: "rp_paths (projr ?run) \<noteq> []" by code_simp
  have ends: "resolveNodeID (projr (SnapshotAt memory_pebble id (sample_run path_changes) 0)) ''d'' ''a'' = Inr ''a''"
    "resolveNodeID (projr (SnapshotAt memory_pebble id (sample_run path_changes) 0)) ''d'' ''b'' = Inr ''b''"
    by code_simp+
  have req: "rq_revision path_request = 0" "rq_domain_id path_request = ''d''" "rq_source path_request = ''a''"
    "rq_destination path_request = ''b''" by (simp_all add: path_request_def)
  from ComputePaths_sound[OF memory_pebble_laws inv iter_order_id(1) run] obtain snap src dst where
    "SnapshotAt memory_pebble id (sample_run path_changes) 0 = Inr snap"
    "resolveNodeID snap ''d'' ''a'' = Inr src" "resolveNodeID snap ''d'' ''b'' = Inr dst"
    "\<forall>p \<in> set (rp_paths (projr ?run)). \<exists>es. map hop_outgoing_link (cp_hops p) = map Some es @ [None] \<and> joins src es dst"
    unfolding req by blast
  with ends have "\<forall>p \<in> set (rp_paths (projr ?run)). \<exists>es. map hop_outgoing_link (cp_hops p) = map Some es @ [None] \<and> joins ''a'' es ''b''"
    by simp
  with run ne show ?thesis by (metis list.set_intros(1) neq_Nil_conv)
qed

end
