(* ===== verification/Formatting.thy ===== *)
theory Formatting
  imports Netip
begin

text \<open>
  The texts that Go's standard library makes of bytes, words and addresses: hexadecimal digits, the
  verbs \<open>%02x\<close> and \<open>%08x\<close>, \<open>hex.EncodeToString\<close>, and \<open>String\<close> of a \<open>netip.Addr\<close>. A Go
  string is a list of bytes, here a list of characters.
\<close>

section \<open>Bytes and hexadecimal digits\<close>

definition to_byte :: "char \<Rightarrow> u8" where
  "to_byte c = of_char c"

definition to_char :: "u8 \<Rightarrow> char" where
  "to_char b = char_of (unat b)"

definition bytes_of :: "string \<Rightarrow> u8 list" where
  "bytes_of s = map to_byte s"

definition string_of :: "u8 list \<Rightarrow> string" where
  "string_of bs = map to_char bs"

definition hex_digit :: "nat \<Rightarrow> char" where
  "hex_digit d = ''0123456789abcdef'' ! (d mod 16)"

definition hex_byte :: "u8 \<Rightarrow> string" where
  "hex_byte b = [hex_digit (unat b div 16), hex_digit (unat b mod 16)]"

definition EncodeToString :: "u8 list \<Rightarrow> string" where
  "EncodeToString bs = concat (map hex_byte bs)"

text \<open>\<open>%08x\<close> of a 32-bit word.\<close>

definition word_bytes :: "u32 \<Rightarrow> u8 list" where
  "word_bytes w = [ucast (drop_bit 24 w), ucast (drop_bit 16 w), ucast (drop_bit 8 w), ucast w]"

definition Sprintf_08x :: "u32 \<Rightarrow> string" where
  "Sprintf_08x w = EncodeToString (word_bytes w)"

text \<open>A 16-bit group without leading zeros, and \<open>fmt.Sprint\<close> of an unsigned number.\<close>

definition appendHex :: "u16 \<Rightarrow> string" where
  "appendHex x = (if x \<ge> 0x1000 then [hex_digit (unat (drop_bit 12 x))] else []) @
     (if x \<ge> 0x100 then [hex_digit (unat (take_bit 4 (drop_bit 8 x)))] else []) @
     (if x \<ge> 0x10 then [hex_digit (unat (take_bit 4 (drop_bit 4 x)))] else []) @
     [hex_digit (unat (take_bit 4 x))]"

definition Sprint_u32 :: "u32 \<Rightarrow> string" where
  "Sprint_u32 w = decimal (unat w)"

section \<open>Addresses\<close>

definition string4 :: "32 word \<Rightarrow> string" where
  "string4 w = join ''.'' (map (\<lambda>b. decimal (unat b)) (word_bytes w))"

definition group6 :: "128 word \<Rightarrow> nat \<Rightarrow> u16" where
  "group6 a i = ucast (drop_bit (16 * (7 - i)) a)"

definition zone_text :: "string \<Rightarrow> string" where
  "zone_text z = (if z = [] then [] else CHR ''%'' # z)"

text \<open>
  The longest run of at least two zero groups, the first one when there are several: the first group
  of the run and the first group after it.
\<close>

definition zero_end :: "128 word \<Rightarrow> nat \<Rightarrow> nat" where
  "zero_end a i = i + length (takeWhile (\<lambda>j. group6 a j = 0) [i..<8])"

definition zero_run :: "128 word \<Rightarrow> nat \<times> nat" where
  "zero_run a = fold (\<lambda>i (s, e). let j = zero_end a i in
     if j - i \<ge> 2 \<and> j - i > e - s then (i, j) else (s, e)) [0..<8] (255, 255)"

function groups_text :: "128 word \<Rightarrow> nat \<Rightarrow> nat \<Rightarrow> nat \<Rightarrow> string" where
  "groups_text a zs ze i = (if i \<ge> 8 then []
     else if i = zs then ''::'' @ (if ze \<ge> 8 then []
       else appendHex (group6 a ze) @ groups_text a zs ze (Suc (max i ze)))
     else (if i > 0 then '':'' else []) @ appendHex (group6 a i) @ groups_text a zs ze (Suc i))"
  by pat_completeness auto
termination by (relation "measure (\<lambda>(a, zs, ze, i). 8 - i)") auto

declare groups_text.simps [simp del]

definition string6 :: "128 word \<Rightarrow> string \<Rightarrow> string" where
  "string6 a zone = (case zero_run a of (zs, ze) \<Rightarrow> groups_text a zs ze 0 @ zone_text zone)"

definition Is4In6 :: "128 word \<Rightarrow> bool" where
  "Is4In6 a = (drop_bit 32 a = 0xffff)"

fun Addr_String :: "Addr \<Rightarrow> string" where
  "Addr_String NoAddr = ''invalid IP''"
| "Addr_String (Addr4 w) = string4 w"
| "Addr_String (Addr6 a zone) = (if Is4In6 a then ''::ffff:'' @ string4 (ucast a) @ zone_text zone
     else string6 a zone)"


declare Addr_String.simps [simp del]

end
