(* ===== verification/Sha256.thy ===== *)
theory Sha256
  imports Formatting
begin

text \<open>
  \<open>crypto/sha256\<close> of Go's standard library, which is the hash of FIPS 180-4: \<open>Sum256\<close> of a byte
  string. The identifiers of nodes, links and prefixes are the first half of such a sum.
\<close>

text \<open>The constants of the rounds and of the start, in decimal.\<close>

definition sha_K :: "u32 list" where
  "sha_K = concat [
    [1116352408, 1899447441, 3049323471, 3921009573, 961987163, 1508970993, 2453635748, 2870763221],
    [3624381080, 310598401, 607225278, 1426881987, 1925078388, 2162078206, 2614888103, 3248222580],
    [3835390401, 4022224774, 264347078, 604807628, 770255983, 1249150122, 1555081692, 1996064986],
    [2554220882, 2821834349, 2952996808, 3210313671, 3336571891, 3584528711, 113926993, 338241895],
    [666307205, 773529912, 1294757372, 1396182291, 1695183700, 1986661051, 2177026350, 2456956037],
    [2730485921, 2820302411, 3259730800, 3345764771, 3516065817, 3600352804, 4094571909, 275423344],
    [430227734, 506948616, 659060556, 883997877, 958139571, 1322822218, 1537002063, 1747873779],
    [1955562222, 2024104815, 2227730452, 2361852424, 2428436474, 2756734187, 3204031479, 3329325298]]"

definition sha_init :: "u32 list" where
  "sha_init = [1779033703, 3144134277, 1013904242, 2773480762,
     1359893119, 2600822924, 528734635, 1541459225]"

definition Ch :: "u32 \<Rightarrow> u32 \<Rightarrow> u32 \<Rightarrow> u32" where
  "Ch x y z = ((x AND y) XOR (NOT x AND z))"

definition Maj :: "u32 \<Rightarrow> u32 \<Rightarrow> u32 \<Rightarrow> u32" where
  "Maj x y z = ((x AND y) XOR (x AND z) XOR (y AND z))"

definition rotr :: "nat \<Rightarrow> u32 \<Rightarrow> u32" where
  "rotr n x = (drop_bit n x OR push_bit (32 - n) x)"

definition Sigma0 :: "u32 \<Rightarrow> u32" where
  "Sigma0 x = (rotr 2 x XOR rotr 13 x XOR rotr 22 x)"

definition Sigma1 :: "u32 \<Rightarrow> u32" where
  "Sigma1 x = (rotr 6 x XOR rotr 11 x XOR rotr 25 x)"

definition sigma0 :: "u32 \<Rightarrow> u32" where
  "sigma0 x = (rotr 7 x XOR rotr 18 x XOR drop_bit 3 x)"

definition sigma1 :: "u32 \<Rightarrow> u32" where
  "sigma1 x = (rotr 17 x XOR rotr 19 x XOR drop_bit 10 x)"

text \<open>The message schedule, the latest word first.\<close>

fun sha_extend :: "nat \<Rightarrow> u32 list \<Rightarrow> u32 list" where
  "sha_extend 0 ws = ws"
| "sha_extend (Suc n) ws =
     sha_extend n ((sigma1 (ws ! 1) + ws ! 6 + sigma0 (ws ! 14) + ws ! 15) # ws)"

fun sha_words :: "u8 list \<Rightarrow> u32 list" where
  "sha_words (a # b # c # d # bs) = bytes_value [a, b, c, d] # sha_words bs"
| "sha_words bs = []"

definition sha_schedule :: "u8 list \<Rightarrow> u32 list" where
  "sha_schedule block = rev (sha_extend 48 (rev (sha_words block)))"

fun sha_rounds :: "(u32 \<times> u32) list \<Rightarrow> u32 list \<Rightarrow> u32 list" where
  "sha_rounds [] v = v"
| "sha_rounds ((k, w) # kws) [a, b, c, d, e, f, g, h] =
     (let t1 = h + Sigma1 e + Ch e f g + k + w; t2 = Sigma0 a + Maj a b c
      in sha_rounds kws [t1 + t2, a, b, c, d + t1, e, f, g])"
| "sha_rounds (kw # kws) v = v"

definition sha_block :: "u32 list \<Rightarrow> u8 list \<Rightarrow> u32 list" where
  "sha_block hs block = map2 (+) hs (sha_rounds (zip sha_K (sha_schedule block)) hs)"

fun sha_blocks :: "nat \<Rightarrow> u32 list \<Rightarrow> u8 list \<Rightarrow> u32 list" where
  "sha_blocks 0 hs bs = hs"
| "sha_blocks (Suc n) hs bs = sha_blocks n (sha_block hs (take 64 bs)) (drop 64 bs)"

text \<open>A one bit, zeros up to the last eight bytes of a block, and the length in bits.\<close>

definition sha_pad :: "u8 list \<Rightarrow> u8 list" where
  "sha_pad bs = (let bits = of_nat (length bs * 8) :: u64 in
     bs @ 0x80 # replicate ((119 - length bs mod 64) mod 64) 0 @
       word_bytes (ucast (drop_bit 32 bits)) @ word_bytes (ucast bits))"

definition Sum256 :: "u8 list \<Rightarrow> u8 list" where
  "Sum256 bs = (let p = sha_pad bs in
     concat (map word_bytes (sha_blocks (length p div 64) sha_init p)))"

text \<open>The test vector of the standard.\<close>

lemma Sum256_abc: "EncodeToString (Sum256 (bytes_of ''abc'')) =
  ''ba7816bf8f01cfea414140de5dae2223b00361a396177a9cb410ff61f20015ad''"
  by code_simp

end
