(* ===== verification/Gobgp.thy ===== *)
theory Gobgp
  imports Sha256 Codec
begin

text \<open>
  What the collector sees of GoBGP, a library outside the repository. Its structures are records with
  the fields the collector reads, and an object of the library carries what its methods return there:
  a descriptor its \<open>Extract\<close>, a TLV its header and its serialized form. A method may panic on a
  malformed object, which is the left value of its result, with the text of the panic. A pointer is
  an option value. The engine, the part of the library that keeps sessions, is a record of the
  operations the collector calls, over a state of its own.
\<close>

type_synonym 'a may_panic = "string + 'a"

definition nil_dereference :: string where
  "nil_dereference = ''runtime error: invalid memory address or nil pointer dereference''"

section \<open>Descriptors\<close>

record LsNodeDescriptor =
  nod_Asn :: u32
  nod_BGPLsID :: u32
  nod_OspfAreaID :: u32
  nod_PseudoNode :: bool
  nod_IGPRouterID :: string
  nod_BGPRouterID :: Addr
  nod_BGPConfederationMember :: u32

text \<open>The text of a link descriptor is that of its method \<open>String\<close>, which \<open>fmt.Sprint\<close> calls.\<close>

record LsLinkDescriptor =
  lnd_LinkLocalID :: "u32 option"
  lnd_LinkRemoteID :: "u32 option"
  lnd_InterfaceAddrIPv4 :: "Addr option"
  lnd_NeighborAddrIPv4 :: "Addr option"
  lnd_InterfaceAddrIPv6 :: "Addr option"
  lnd_NeighborAddrIPv6 :: "Addr option"
  lnd_MultiTopoIDs :: "(u16, unit) fmap"
  lnd_text :: string

text \<open>The networks of a prefix descriptor are given by their texts: only \<open>String\<close> is called on them.\<close>

record LsPrefixDescriptor =
  pfd_IPReachability :: "string list"
  pfd_MultiTopoIDs :: "(u16, unit) fmap"

section \<open>Reachability information\<close>

text \<open>
  A TLV in the place of a node descriptor: a pointer to a node descriptor, which may be nil, or
  anything else, no TLV included.
\<close>

datatype node_slot = NodeDescriptorTLV "LsNodeDescriptor may_panic option" | OtherSlot

record LsNodeNLRI =
  nn_ProtocolID :: u8
  nn_Identifier :: u64
  nn_LocalNodeDesc :: node_slot

record LsLinkNLRI =
  ln_ProtocolID :: u8
  ln_Identifier :: u64
  ln_LocalNodeDesc :: node_slot
  ln_RemoteNodeDesc :: node_slot
  ln_LinkDesc :: "LsLinkDescriptor may_panic"

record LsPrefixNLRI =
  pn_ProtocolID :: u8
  pn_Identifier :: u64
  pn_LocalNodeDesc :: node_slot
  pn_PrefixDesc :: "bool \<Rightarrow> LsPrefixDescriptor may_panic"

datatype LsNLRI =
    NodeNLRI "LsNodeNLRI option"
  | LinkNLRI "LsLinkNLRI option"
  | PrefixV4NLRI "LsPrefixNLRI option"
  | PrefixV6NLRI "LsPrefixNLRI option"
  | OtherLsNLRI string

text \<open>
  The NLRI of a path. The inner option of \<open>LsAddrPrefix\<close> is its field \<open>NLRI\<close>, an interface
  value; the outer one is the pointer. Other types carry their name.
\<close>

datatype Nlri = LsAddrPrefix "LsNLRI option option" | OtherNlri string

section \<open>Attributes\<close>

record LsAttributeNode =
  an_Name :: "string option"
  an_LocalRouterID :: "Addr option"
  an_LocalRouterIDv6 :: "Addr option"
  an_SrAlgorithms :: "u8 list option"
  an_IsisArea :: "u8 list option"

text \<open>A \<open>float32\<close> is given by its value, which a \<open>float64\<close> holds exactly.\<close>

record LsAttributeLink =
  al_IGPMetric :: "u32 option"
  al_DefaultTEMetric :: "u32 option"
  al_UnidirectionalLinkDelay :: "u32 option"
  al_Bandwidth :: "float64 option"
  al_ReservableBandwidth :: "float64 option"
  al_UnreservedBandwidth :: "float64 list option"
  al_AdminGroup :: "u32 option"
  al_Srlgs :: "u32 list option"
  al_SrAdjacencySID :: "u32 option"

record LsAttributePrefix =
  ax_SrPrefixSID :: "u32 option"

record LsAttribute =
  la_Node :: LsAttributeNode
  la_Link :: LsAttributeLink
  la_Prefix :: LsAttributePrefix

datatype tlv_kind =
    LsTLVNodeName string
  | LsTLVIsisArea "u8 list"
  | LsTLVLocalIPv4RouterID Addr
  | LsTLVLocalIPv6RouterID Addr
  | LsTLVRemoteIPv4RouterID Addr
  | LsTLVRemoteIPv6RouterID Addr
  | OtherTLV

record LsTLV =
  tv_kind :: tlv_kind
  tv_Type :: "u16 may_panic"
  tv_Serialize :: "u8 list option may_panic"

datatype PathAttribute =
    PathAttributeLs "LsAttribute option may_panic" "LsTLV list"
  | OtherAttribute

section \<open>Events\<close>

record LsPath =
  pa_LS :: bool
  pa_PeerAddress :: Addr
  pa_Withdrawal :: bool
  pa_Stale :: bool
  pa_Nlri :: Nlri
  pa_Attrs :: "PathAttribute list"

datatype FSMState =
    BGP_FSM_IDLE | BGP_FSM_CONNECT | BGP_FSM_ACTIVE | BGP_FSM_OPENSENT | BGP_FSM_OPENCONFIRM
  | BGP_FSM_ESTABLISHED | BGP_FSM_OTHER int

record PeerEvent =
  pe_is_state :: bool
  pe_NeighborAddress :: Addr
  pe_SessionState :: FSMState
  pe_RouterID :: Addr
  pe_DisconnectMessage :: string

section \<open>The engine\<close>

datatype RouteAction = ROUTE_ACTION_ACCEPT | ROUTE_ACTION_REJECT

record ApiPeer =
  ga_AuthPassword :: string
  ga_Description :: string
  ga_LocalAsn :: u32
  ga_NeighborAddress :: string
  ga_PeerAsn :: u32
  ga_AdminDown :: bool
  ga_LocalAddress :: string
  ga_PassiveMode :: bool
  ga_EbgpMultihop :: bool
  ga_MultihopTtl :: u32
  ga_TtlSecurity :: bool
  ga_TtlMin :: u32
  ga_ImportDefault :: RouteAction
  ga_ExportDefault :: RouteAction
  ga_families :: "(string \<times> string \<times> bool) list"

record Global =
  gl_Asn :: u32
  gl_RouterId :: string
  gl_ListenPort :: int
  gl_ListenAddresses :: "string list"

record 'e engine =
  en_NewBgpServer :: 'e
  en_StartBgp :: "Global \<Rightarrow> 'e \<Rightarrow> 'e \<times> go_error option"
  en_WatchEvent :: "'e \<Rightarrow> 'e \<times> go_error option"
  en_StopBgp :: "'e \<Rightarrow> 'e \<times> go_error option"
  en_Stop :: "'e \<Rightarrow> 'e"
  en_AddPeer :: "ApiPeer \<Rightarrow> 'e \<Rightarrow> 'e \<times> go_error option"
  en_DeletePeer :: "string \<Rightarrow> 'e \<Rightarrow> 'e \<times> go_error option"
  en_ResetPeer :: "string \<Rightarrow> bool \<Rightarrow> bool \<Rightarrow> 'e \<Rightarrow> 'e \<times> go_error option"

end
