(* ===== verification/Bgp_Paths.thy ===== *)
theory Bgp_Paths
  imports Gobgp Reconcile
begin

text \<open>
  The translation of BGP-LS paths in \<open>internal/bgp/collector.go\<close>: identifiers, nodes, links and
  prefixes from the structures of the library, and the advertisements handed to the reconciler. The
  text that the library gives a protocol number, the order in which Go ranges over maps, the error
  state of the context and the clock are arguments.
\<close>

section \<open>Texts\<close>

definition formatAddr :: "Addr \<Rightarrow> string" where
  "formatAddr a = (if a = NoAddr then [] else Addr_String a)"

definition formatAddrPtr :: "Addr option \<Rightarrow> string" where
  "formatAddrPtr a = (case a of None \<Rightarrow> [] | Some x \<Rightarrow> formatAddr x)"

fun firstNonEmpty :: "string list \<Rightarrow> string" where
  "firstNonEmpty [] = []"
| "firstNonEmpty (v # vs) = (if v \<noteq> [] then v else firstNonEmpty vs)"

text \<open>The pairs of bytes after the first byte.\<close>

fun area_parts :: "u8 list \<Rightarrow> string list" where
  "area_parts [] = []"
| "area_parts [a] = [hex_byte a]"
| "area_parts (a # b # bs) = (hex_byte a @ hex_byte b) # area_parts bs"

definition formatISISArea :: "u8 list \<Rightarrow> string" where
  "formatISISArea area = (case area of [] \<Rightarrow> [] | a # bs \<Rightarrow> join ''.'' (hex_byte a # area_parts bs))"

definition areaID :: "Protocol \<Rightarrow> LsNodeDescriptor \<Rightarrow> LsAttribute option \<Rightarrow> string" where
  "areaID protocol d attrs =
     (if protocol = PROTOCOL_OSPFV2 \<or> protocol = PROTOCOL_OSPFV3 then Sprintf_08x (nod_OspfAreaID d)
      else if protocol = PROTOCOL_ISIS_LEVEL_1 \<or> protocol = PROTOCOL_ISIS_LEVEL_2
      then (case attrs of None \<Rightarrow> [] | Some a \<Rightarrow>
        (case an_IsisArea (la_Node a) of None \<Rightarrow> [] | Some area \<Rightarrow> formatISISArea area))
      else [])"

text \<open>\<open>unicode.IsPrint\<close> of an ASCII byte: the graphic characters and the space.\<close>

definition isPrintableASCII :: "u8 list \<Rightarrow> bool" where
  "isPrintableASCII value = list_all (\<lambda>b. \<not> (b > 0x7f \<or> \<not> (0x20 \<le> b \<and> b < 0x7f))) value"

definition tlvText :: "tlv_kind \<Rightarrow> u8 list \<Rightarrow> string" where
  "tlvText tlv value = (case tlv of
     LsTLVNodeName nm \<Rightarrow> nm
   | LsTLVIsisArea area \<Rightarrow> formatISISArea area
   | LsTLVLocalIPv4RouterID ip \<Rightarrow> formatAddr ip
   | LsTLVLocalIPv6RouterID ip \<Rightarrow> formatAddr ip
   | LsTLVRemoteIPv4RouterID ip \<Rightarrow> formatAddr ip
   | LsTLVRemoteIPv6RouterID ip \<Rightarrow> formatAddr ip
   | OtherTLV \<Rightarrow> if value \<noteq> [] \<and> utf8_valid (string_of value) \<and> isPrintableASCII value
       then string_of value else EncodeToString value)"

section \<open>Attributes\<close>

fun extractAttributes :: "PathAttribute list \<Rightarrow> LsAttribute option may_panic" where
  "extractAttributes [] = Inr None"
| "extractAttributes (PathAttributeLs extracted tlvs # as) = extracted"
| "extractAttributes (OtherAttribute # as) = extractAttributes as"

definition raw_tlv :: "LsTLV \<Rightarrow> RawTlv may_panic" where
  "raw_tlv tlv = bindR (tv_Type tlv) (\<lambda>ty. bindR (tv_Serialize tlv) (\<lambda>wire.
     let payload = (case wire of None \<Rightarrow> [] | Some bs \<Rightarrow> if length bs \<ge> 4 then drop 4 bs else [])
     in Inr \<lparr>tlv_type = ucast ty, tlv_value = tlvText (tv_kind tlv) payload,
             tlv_registry = ''bgp-ls-attribute'', tlv_enterprise_number = 0\<rparr>))"

fun raw_tlvs :: "LsTLV list \<Rightarrow> RawTlv list may_panic" where
  "raw_tlvs [] = Inr []"
| "raw_tlvs (tlv # tlvs) = bindR (raw_tlv tlv) (\<lambda>r. bindR (raw_tlvs tlvs) (\<lambda>rs. Inr (r # rs)))"

fun decodedAttributeTLVs :: "PathAttribute list \<Rightarrow> RawTlv list may_panic" where
  "decodedAttributeTLVs [] = Inr []"
| "decodedAttributeTLVs (PathAttributeLs extracted tlvs # as) =
     bindR (raw_tlvs tlvs) (\<lambda>rs. bindR (decodedAttributeTLVs as) (\<lambda>out. Inr (rs @ out)))"
| "decodedAttributeTLVs (OtherAttribute # as) = decodedAttributeTLVs as"

section \<open>Identifiers\<close>

definition stableID :: "string list \<Rightarrow> string" where
  "stableID parts = EncodeToString (take 16 (Sum256 (bytes_of (join [char_of (0::nat)] parts))))"

definition nodeID :: "(u8 \<Rightarrow> string) \<Rightarrow> string \<Rightarrow> u8 \<Rightarrow> u64 \<Rightarrow> LsNodeDescriptor \<Rightarrow> string" where
  "nodeID ptext domain protocol identifier d = stableID [''node'', domain, ptext protocol, Sprint_u64 identifier,
     Sprint_u32 (nod_Asn d), Sprint_u32 (nod_BGPLsID d), Sprint_u32 (nod_OspfAreaID d), nod_IGPRouterID d,
     formatAddr (nod_BGPRouterID d), Sprint_u32 (nod_BGPConfederationMember d)]"

text \<open>The least of the multi-topology identifiers, after sorting them as integers.\<close>

definition firstMT :: "(u16 list \<Rightarrow> u16 list) \<Rightarrow> (u16, unit) fmap \<Rightarrow> u16" where
  "firstMT it values = (if keys_of values = [] then 0
     else of_int (hd (sort (map uint (it (keys_of values))))))"

section \<open>Entities\<close>

definition active_meta :: "string \<Rightarrow> string \<Rightarrow> RawTlv list \<Rightarrow> EntityMeta" where
  "active_meta i domain raw = zero_EntityMeta\<lparr>em_id := i, em_domain_id := domain,
     em_freshness := FRESHNESS_ACTIVE, em_decoded_tlvs := raw\<rparr>"

definition nodeFrom ::
  "LsNodeDescriptor \<Rightarrow> string \<Rightarrow> string \<Rightarrow> Protocol \<Rightarrow> LsAttribute option \<Rightarrow> RawTlv list \<Rightarrow> Node" where
  "nodeFrom d i domain protocol attrs raw =
     (let n = zero_Node\<lparr>nd_meta := Some (active_meta i domain raw), nd_protocol := protocol,
            nd_autonomous_system := nod_Asn d, nd_area_id := areaID protocol d attrs,
            nd_igp_router_id := nod_IGPRouterID d, nd_bgp_router_id := formatAddr (nod_BGPRouterID d),
            nd_pseudonode := nod_PseudoNode d\<rparr>
      in case attrs of None \<Rightarrow> n
         | Some a \<Rightarrow>
           n\<lparr>nd_name := (case an_Name (la_Node a) of None \<Rightarrow> [] | Some nm \<Rightarrow> nm),
             nd_ipv4_router_id := formatAddrPtr (an_LocalRouterID (la_Node a)),
             nd_ipv6_router_id := formatAddrPtr (an_LocalRouterIDv6 (la_Node a)),
             nd_algorithms := (case an_SrAlgorithms (la_Node a) of None \<Rightarrow> [] | Some vs \<Rightarrow> map ucast vs)\<rparr>)"

definition or_zero :: "'a::zero option \<Rightarrow> 'a" where
  "or_zero v = (case v of None \<Rightarrow> 0 | Some x \<Rightarrow> x)"

definition opt_list :: "'a option \<Rightarrow> 'a list" where
  "opt_list v = (case v of None \<Rightarrow> [] | Some x \<Rightarrow> [x])"

definition linkFrom ::
  "(u16 list \<Rightarrow> u16 list) \<Rightarrow> string \<Rightarrow> string \<Rightarrow> string \<Rightarrow> string \<Rightarrow> LsLinkDescriptor \<Rightarrow> LsAttribute option
    \<Rightarrow> RawTlv list \<Rightarrow> Link" where
  "linkFrom it i domain local remote d attrs raw =
     (let local4 = formatAddrPtr (lnd_InterfaceAddrIPv4 d); remote4 = formatAddrPtr (lnd_NeighborAddrIPv4 d);
          local6 = formatAddrPtr (lnd_InterfaceAddrIPv6 d); remote6 = formatAddrPtr (lnd_NeighborAddrIPv6 d);
          l = zero_Link\<lparr>lk_meta := Some (active_meta i domain raw), lk_local_node_id := local,
            lk_remote_node_id := remote, lk_multi_topology_id := ucast (firstMT it (lnd_MultiTopoIDs d)),
            lk_local_link_id := ucast (or_zero (lnd_LinkLocalID d)),
            lk_remote_link_id := ucast (or_zero (lnd_LinkRemoteID d)),
            lk_local_ipv4_address := local4, lk_remote_ipv4_address := remote4,
            lk_local_ipv6_address := local6, lk_remote_ipv6_address := remote6,
            lk_local_address := firstNonEmpty [local4, local6],
            lk_remote_address := firstNonEmpty [remote4, remote6]\<rparr>
      in case attrs of None \<Rightarrow> l
         | Some at \<Rightarrow> let a = la_Link at in
           l\<lparr>lk_igp_metric := ucast (or_zero (al_IGPMetric a)),
             lk_te_metric := ucast (or_zero (al_DefaultTEMetric a)),
             lk_delay_microseconds := ucast (or_zero (al_UnidirectionalLinkDelay a)),
             lk_max_bandwidth := (case al_Bandwidth a of None \<Rightarrow> f_zero | Some b \<Rightarrow> b),
             lk_reservable_bandwidth := (case al_ReservableBandwidth a of None \<Rightarrow> f_zero | Some b \<Rightarrow> b),
             lk_unreserved_bandwidth := (case al_UnreservedBandwidth a of None \<Rightarrow> [] | Some bs \<Rightarrow> bs),
             lk_admin_groups := opt_list (al_AdminGroup a),
             lk_srlgs := (case al_Srlgs a of None \<Rightarrow> [] | Some gs \<Rightarrow> gs),
             lk_adjacency_sids := opt_list (al_SrAdjacencySID a)\<rparr>)"

text \<open>\<open>setFreshness\<close> writes through \<open>v.Meta\<close>, which every caller has set.\<close>

definition setFreshness :: "bool \<Rightarrow> entity \<Rightarrow> entity may_panic" where
  "setFreshness stale v = (if \<not> stale then Inr v
     else case mark_stale v of None \<Rightarrow> Inl nil_dereference | Some v' \<Rightarrow> Inr v')"

section \<open>Handling a path\<close>

text \<open>
  What handling a path does instead of succeeding. A panic carries the text that \<open>recover\<close> gives.
\<close>

datatype path_fault = PathError go_error | PathPanic string | PathHang

definition panics :: "'a may_panic \<Rightarrow> path_fault + 'a" where
  "panics r = (case r of Inl msg \<Rightarrow> Inl (PathPanic msg) | Inr x \<Rightarrow> Inr x)"

fun to_path_fault :: "fault \<Rightarrow> path_fault" where
  "to_path_fault (Error e) = PathError e"
| "to_path_fault Panic = PathPanic nil_dereference"
| "to_path_fault Hang = PathHang"

text \<open>
  What handling needs besides the path: the library's protocol texts, the map orders, the error state
  of the context, and the clock at the write of an entity and at a later write of the peer.
\<close>

record world =
  w_ptext :: "u8 \<Rightarrow> string"
  w_it :: "string list \<Rightarrow> string list"
  w_it16 :: "u16 list \<Rightarrow> u16 list"
  w_ctx :: "go_error option"
  w_now :: time
  w_later :: time

definition apply_ad ::
  "'db pebble \<Rightarrow> world \<Rightarrow> Peer \<Rightarrow> bool \<Rightarrow> EntityKind \<Rightarrow> string \<Rightarrow> entity \<Rightarrow> 'db Reconciler
    \<Rightarrow> 'db Reconciler \<times> (path_fault + unit)" where
  "apply_ad P w peer withdraw kind i value r =
     (case Reconciler_Apply P (w_it w) (w_ctx w) (w_now w)
        \<lparr>ad_kind = kind, ad_id = i, ad_domain_id = pr_domain_id peer, ad_peer_id = pr_id peer,
         ad_preference = pr_source_preference peer, ad_withdraw = withdraw, ad_value = Some value\<rparr> r of
        (r', Inl f) \<Rightarrow> (r', Inl (to_path_fault f)) | (r', Inr ev) \<Rightarrow> (r', Inr ()))"

definition prefix_entity ::
  "world \<Rightarrow> string \<Rightarrow> u8 \<Rightarrow> u64 \<Rightarrow> string \<Rightarrow> u16 \<Rightarrow> LsAttribute option \<Rightarrow> RawTlv list \<Rightarrow> string \<Rightarrow> string \<times> Prefix" where
  "prefix_entity w domain protocol identifier origin mt attrs raw network =
     (let i = stableID [''prefix'', domain, w_ptext w protocol, Sprint_u64 identifier, origin, network,
                decimal (unat mt)];
          p = zero_Prefix\<lparr>px_meta := Some (active_meta i domain raw), px_prefix := network,
                px_origin_node_id := origin, px_multi_topology_id := ucast mt\<rparr>
      in (i, p\<lparr>px_prefix_sid := (case attrs of None \<Rightarrow> 0 | Some a \<Rightarrow> or_zero (ax_SrPrefixSID (la_Prefix a)))\<rparr>))"

fun prefix_loop ::
  "'db pebble \<Rightarrow> world \<Rightarrow> Peer \<Rightarrow> bool \<Rightarrow> bool \<Rightarrow> (string \<times> Prefix) list \<Rightarrow> 'db Reconciler
    \<Rightarrow> 'db Reconciler \<times> (path_fault + unit)" where
  "prefix_loop P w peer withdraw stale [] r = (r, Inr ())"
| "prefix_loop P w peer withdraw stale ((i, p) # ps) r =
     (case panics (setFreshness stale (PrefixE p)) of Inl f \<Rightarrow> (r, Inl f)
      | Inr v \<Rightarrow> (case apply_ad P w peer withdraw ENTITY_KIND_PREFIX i v r of
          (r', Inl f) \<Rightarrow> (r', Inl f)
        | (r', Inr u) \<Rightarrow> prefix_loop P w peer withdraw stale ps r'))"

text \<open>The descriptor in a slot, or the error that it is missing.\<close>

definition descriptor :: "string \<Rightarrow> node_slot \<Rightarrow> path_fault + LsNodeDescriptor may_panic" where
  "descriptor msg slot = (case slot of NodeDescriptorTLV (Some d) \<Rightarrow> Inr d
     | _ \<Rightarrow> Inl (PathError (New msg)))"

definition applyPrefixes ::
  "'db pebble \<Rightarrow> world \<Rightarrow> Peer \<Rightarrow> bool \<Rightarrow> bool \<Rightarrow> LsPrefixNLRI \<Rightarrow> bool \<Rightarrow> LsAttribute option \<Rightarrow> RawTlv list
    \<Rightarrow> 'db Reconciler \<Rightarrow> 'db Reconciler \<times> (path_fault + unit)" where
  "applyPrefixes P w peer withdraw stale nlri ipv6 attrs raw r =
     (case bindR (bindR (descriptor ''prefix local descriptor is missing'' (pn_LocalNodeDesc nlri)) panics) (\<lambda>desc.
             bindR (panics (pn_PrefixDesc nlri ipv6)) (\<lambda>pd. Inr (desc, pd))) of
        Inl f \<Rightarrow> (r, Inl f)
      | Inr (desc, pd) \<Rightarrow>
        let origin = nodeID (w_ptext w) (pr_domain_id peer) (pn_ProtocolID nlri) (pn_Identifier nlri) desc;
            mt = firstMT (w_it16 w) (pfd_MultiTopoIDs pd)
        in prefix_loop P w peer withdraw stale
             (map (prefix_entity w (pr_domain_id peer) (pn_ProtocolID nlri) (pn_Identifier nlri) origin mt attrs raw)
                (pfd_IPReachability pd)) r)"

definition handle_node ::
  "'db pebble \<Rightarrow> world \<Rightarrow> Peer \<Rightarrow> bool \<Rightarrow> bool \<Rightarrow> LsNodeNLRI \<Rightarrow> LsAttribute option \<Rightarrow> RawTlv list
    \<Rightarrow> 'db Reconciler \<Rightarrow> 'db Reconciler \<times> (path_fault + unit)" where
  "handle_node P w peer withdraw stale nlri attrs raw r =
     (case bindR (descriptor ''node local descriptor is missing'' (nn_LocalNodeDesc nlri)) panics of
        Inl f \<Rightarrow> (r, Inl f)
      | Inr desc \<Rightarrow>
        let i = nodeID (w_ptext w) (pr_domain_id peer) (nn_ProtocolID nlri) (nn_Identifier nlri) desc;
            n = nodeFrom desc i (pr_domain_id peer) (Protocol_of (unat (nn_ProtocolID nlri))) attrs raw
        in case panics (setFreshness stale (NodeE n)) of Inl f \<Rightarrow> (r, Inl f)
           | Inr v \<Rightarrow> apply_ad P w peer withdraw ENTITY_KIND_NODE i v r)"

definition link_descriptors :: "LsLinkNLRI \<Rightarrow> path_fault + LsNodeDescriptor \<times> LsNodeDescriptor \<times> LsLinkDescriptor" where
  "link_descriptors nlri =
     bindR (descriptor ''link local or remote descriptor is missing'' (ln_LocalNodeDesc nlri)) (\<lambda>l.
     bindR (descriptor ''link local or remote descriptor is missing'' (ln_RemoteNodeDesc nlri)) (\<lambda>m.
     bindR (panics l) (\<lambda>local. bindR (panics m) (\<lambda>remote.
     bindR (panics (ln_LinkDesc nlri)) (\<lambda>desc. Inr (local, remote, desc))))))"

definition linkID :: "(u8 \<Rightarrow> string) \<Rightarrow> string \<Rightarrow> LsLinkNLRI \<Rightarrow> string \<Rightarrow> string \<Rightarrow> LsLinkDescriptor \<Rightarrow> string" where
  "linkID ptext domain nlri localID remoteID desc = stableID [''link'', domain, ptext (ln_ProtocolID nlri),
     Sprint_u64 (ln_Identifier nlri), localID, remoteID, lnd_text desc]"

definition handle_link ::
  "'db pebble \<Rightarrow> world \<Rightarrow> Peer \<Rightarrow> bool \<Rightarrow> bool \<Rightarrow> LsLinkNLRI \<Rightarrow> LsAttribute option \<Rightarrow> RawTlv list
    \<Rightarrow> 'db Reconciler \<Rightarrow> 'db Reconciler \<times> (path_fault + unit)" where
  "handle_link P w peer withdraw stale nlri attrs raw r =
     (case link_descriptors nlri of Inl f \<Rightarrow> (r, Inl f)
      | Inr (local, remote, desc) \<Rightarrow>
        let localID = nodeID (w_ptext w) (pr_domain_id peer) (ln_ProtocolID nlri) (ln_Identifier nlri) local;
            remoteID = nodeID (w_ptext w) (pr_domain_id peer) (ln_ProtocolID nlri) (ln_Identifier nlri) remote;
            i = linkID (w_ptext w) (pr_domain_id peer) nlri localID remoteID desc;
            l = linkFrom (w_it16 w) i (pr_domain_id peer) localID remoteID desc attrs raw
        in case panics (setFreshness stale (LinkE l)) of Inl f \<Rightarrow> (r, Inl f)
           | Inr v \<Rightarrow> apply_ad P w peer withdraw ENTITY_KIND_LINK i v r)"

text \<open>
  The protocol number of an NLRI, which dereferences the NLRI: 0 for one of another type.
\<close>

fun addrProtocol :: "LsNLRI \<Rightarrow> u8 may_panic" where
  "addrProtocol (NodeNLRI n) = (case n of None \<Rightarrow> Inl nil_dereference | Some x \<Rightarrow> Inr (nn_ProtocolID x))"
| "addrProtocol (LinkNLRI n) = (case n of None \<Rightarrow> Inl nil_dereference | Some x \<Rightarrow> Inr (ln_ProtocolID x))"
| "addrProtocol (PrefixV4NLRI n) = (case n of None \<Rightarrow> Inl nil_dereference | Some x \<Rightarrow> Inr (pn_ProtocolID x))"
| "addrProtocol (PrefixV6NLRI n) = (case n of None \<Rightarrow> Inl nil_dereference | Some x \<Rightarrow> Inr (pn_ProtocolID x))"
| "addrProtocol (OtherLsNLRI ty) = Inr 0"

definition nlri_of :: "Nlri \<Rightarrow> path_fault + LsNLRI" where
  "nlri_of n = (case n of OtherNlri ty \<Rightarrow> Inl (PathError (New (''unexpected NLRI '' @ ty)))
     | LsAddrPrefix None \<Rightarrow> Inl (PathPanic nil_dereference)
     | LsAddrPrefix (Some None) \<Rightarrow> Inl (PathError (New ''unexpected NLRI *bgp.LsAddrPrefix''))
     | LsAddrPrefix (Some (Some x)) \<Rightarrow> Inr x)"

text \<open>What \<open>handlePath\<close> computes before it looks at the type of the NLRI.\<close>

definition path_parts :: "LsPath \<Rightarrow> path_fault + LsNLRI \<times> LsAttribute option \<times> RawTlv list" where
  "path_parts path = bindR (nlri_of (pa_Nlri path)) (\<lambda>nlri.
     bindR (panics (extractAttributes (pa_Attrs path))) (\<lambda>attrs.
     bindR (panics (addrProtocol nlri)) (\<lambda>protocol.
     bindR (panics (decodedAttributeTLVs (pa_Attrs path))) (\<lambda>raw. Inr (nlri, attrs, raw)))))"

definition handlePath ::
  "'db pebble \<Rightarrow> world \<Rightarrow> Peer \<Rightarrow> LsPath \<Rightarrow> 'db Reconciler \<Rightarrow> 'db Reconciler \<times> (path_fault + unit)" where
  "handlePath P w peer path r = (case path_parts path of Inl f \<Rightarrow> (r, Inl f)
   | Inr (nlri, attrs, raw) \<Rightarrow> (case nlri of
       NodeNLRI (Some n) \<Rightarrow> handle_node P w peer (pa_Withdrawal path) (pa_Stale path) n attrs raw r
     | LinkNLRI (Some n) \<Rightarrow> handle_link P w peer (pa_Withdrawal path) (pa_Stale path) n attrs raw r
     | PrefixV4NLRI (Some n) \<Rightarrow> applyPrefixes P w peer (pa_Withdrawal path) (pa_Stale path) n False attrs raw r
     | PrefixV6NLRI (Some n) \<Rightarrow> applyPrefixes P w peer (pa_Withdrawal path) (pa_Stale path) n True attrs raw r
     | OtherLsNLRI ty \<Rightarrow> (r, Inl (PathError (Wrapf [] (Sentinel errUnsupportedNLRI) ('': '' @ ty))))
     | _ \<Rightarrow> (r, Inl (PathPanic nil_dereference))))"

definition safeHandlePath ::
  "'db pebble \<Rightarrow> world \<Rightarrow> Peer \<Rightarrow> LsPath \<Rightarrow> 'db Reconciler \<Rightarrow> 'db Reconciler \<times> unit result" where
  "safeHandlePath P w peer path r = (case handlePath P w peer path r of
     (r', Inr u) \<Rightarrow> (r', Inr u)
   | (r', Inl (PathError e)) \<Rightarrow> (r', Inl (Error e))
   | (r', Inl (PathPanic msg)) \<Rightarrow> (r', Inl (Error (New (''malformed decoded BGP-LS path: '' @ msg))))
   | (r', Inl PathHang) \<Rightarrow> (r', Inl Hang))"

definition classifyDecodeError :: "go_error \<Rightarrow> string" where
  "classifyDecodeError err = (let message = error_text err in
     if Contains message ''descriptor'' then ''missing_descriptor''
     else if Contains message ''prefix'' then ''invalid_prefix''
     else if Contains message ''unexpected NLRI'' then ''unexpected_nlri''
     else if Contains message ''malformed'' then ''malformed_decoded_path''
     else ''normalization_error'')"

text \<open>\<open>nlriKind\<close> is called outside the reach of \<open>recover\<close>.\<close>

definition nlriKind :: "LsPath \<Rightarrow> string result" where
  "nlriKind path = (case pa_Nlri path of OtherNlri ty \<Rightarrow> Inr ''unexpected''
     | LsAddrPrefix None \<Rightarrow> Inl Panic
     | LsAddrPrefix (Some None) \<Rightarrow> Inr ''unexpected''
     | LsAddrPrefix (Some (Some n)) \<Rightarrow> Inr (case n of NodeNLRI x \<Rightarrow> ''node'' | LinkNLRI x \<Rightarrow> ''link''
         | PrefixV4NLRI x \<Rightarrow> ''prefix_v4'' | PrefixV6NLRI x \<Rightarrow> ''prefix_v6'' | OtherLsNLRI ty \<Rightarrow> ''unsupported''))"

end
