(* ===== verification/Paths.thy ===== *)
theory Paths
  imports Netip
begin

text \<open>
  What the program uses of Go's \<open>path\<close>, \<open>path/filepath\<close>, \<open>net\<close> and \<open>time\<close> on a Unix system: cleaning
  and joining paths, splitting an address into host and port, parsing an address, parsing a duration.
\<close>

section \<open>Paths\<close>

text \<open>
  \<open>Clean\<close> drops empty and \<open>.\<close> elements and resolves \<open>..\<close> against the element before it; a rooted
  path has nothing above its root.
\<close>

fun clean_segments :: "bool \<Rightarrow> string list \<Rightarrow> string list \<Rightarrow> string list" where
  "clean_segments rooted [] out = rev out"
| "clean_segments rooted (x # xs) out =
     (if x = [] \<or> x = ''.'' then clean_segments rooted xs out
      else if x = ''..'' then
        (if out \<noteq> [] \<and> hd out \<noteq> ''..'' then clean_segments rooted xs (tl out)
         else if rooted then clean_segments rooted xs out else clean_segments rooted xs (x # out))
      else clean_segments rooted xs (x # out))"

definition path_Clean :: "string \<Rightarrow> string" where
  "path_Clean p = (if HasPrefix p ''/''
     then CHR ''/'' # join ''/'' (clean_segments True (split_at (CHR ''/'') p) [])
     else let s = join ''/'' (clean_segments False (split_at (CHR ''/'') p) []) in if s = [] then ''.'' else s)"

definition IsAbs :: "string \<Rightarrow> bool" where
  "IsAbs p = HasPrefix p ''/''"

definition filepath_Dir :: "string \<Rightarrow> string" where
  "filepath_Dir p = path_Clean (rev (dropWhile (\<lambda>c. c \<noteq> CHR ''/'') (rev p)))"

definition filepath_Join :: "string list \<Rightarrow> string" where
  "filepath_Join elems = (case dropWhile (\<lambda>e. e = []) elems of [] \<Rightarrow> [] | es \<Rightarrow> path_Clean (join ''/'' es))"

text \<open>\<open>filepath.Abs\<close>; the working directory of the process is an argument.\<close>

definition filepath_Abs :: "go_error + string \<Rightarrow> string \<Rightarrow> go_error + string" where
  "filepath_Abs cwd p = (if IsAbs p then Inr (path_Clean p)
     else case cwd of Inl e \<Rightarrow> Inl e | Inr d \<Rightarrow> Inr (filepath_Join [d, p]))"

section \<open>Addresses\<close>

definition addrErr :: "string \<Rightarrow> string \<Rightarrow> go_error" where
  "addrErr addr why = New (if addr \<noteq> [] then ''address '' @ addr @ '': '' @ why else why)"

fun index_of :: "char \<Rightarrow> string \<Rightarrow> nat option" where
  "index_of c [] = None"
| "index_of c (x # xs) = (if x = c then Some 0 else map_option Suc (index_of c xs))"

definition last_index_of :: "char \<Rightarrow> string \<Rightarrow> nat option" where
  "last_index_of c s = map_option (\<lambda>i. length s - Suc i) (index_of c (rev s))"

definition check_brackets :: "string \<Rightarrow> nat \<Rightarrow> nat \<Rightarrow> nat \<Rightarrow> string \<Rightarrow> go_error + string \<times> string" where
  "check_brackets hostport j k i host =
     (if CHR ''['' \<in> set (drop j hostport) then Inl (addrErr hostport (''unexpected '' @ [CHR 0x27, CHR ''['', CHR 0x27] @ '' in address''))
      else if CHR '']'' \<in> set (drop k hostport) then Inl (addrErr hostport (''unexpected '' @ [CHR 0x27, CHR '']'', CHR 0x27] @ '' in address''))
      else Inr (host, drop (Suc i) hostport))"

definition SplitHostPort :: "string \<Rightarrow> go_error + string \<times> string" where
  "SplitHostPort hostport = (case last_index_of (CHR '':'') hostport of
     None \<Rightarrow> Inl (addrErr hostport ''missing port in address'')
   | Some i \<Rightarrow>
      if hd hostport = CHR ''['' then
        (case index_of (CHR '']'') hostport of
           None \<Rightarrow> Inl (addrErr hostport (''missing '' @ [CHR 0x27, CHR '']'', CHR 0x27] @ '' in address''))
         | Some e \<Rightarrow>
            if Suc e = length hostport then Inl (addrErr hostport ''missing port in address'')
            else if Suc e = i then check_brackets hostport 1 (Suc e) i (take (e - 1) (drop 1 hostport))
            else if hostport ! Suc e = CHR '':'' then Inl (addrErr hostport ''too many colons in address'')
            else Inl (addrErr hostport ''missing port in address''))
      else let host = take i hostport in
        if CHR '':'' \<in> set host then Inl (addrErr hostport ''too many colons in address'')
        else check_brackets hostport 0 0 i host)"

text \<open>
  \<open>net.ParseIP\<close> accepts what \<open>netip.ParseAddr\<close> accepts, less a zone. An IPv4 address inside IPv6 is
  the IPv4 address.
\<close>

definition ParseIP :: "string \<Rightarrow> Addr option" where
  "ParseIP s = (case ParseAddr s of Some (Addr4 a) \<Rightarrow> Some (Addr4 a)
     | Some (Addr6 a zone) \<Rightarrow> if zone = [] then Some (Addr6 a []) else None | _ \<Rightarrow> None)"

unbundle bit_operations_syntax

fun IsLoopback :: "Addr \<Rightarrow> bool" where
  "IsLoopback (Addr4 a) = (drop_bit 24 a = 127)"
| "IsLoopback (Addr6 a zone) = (if drop_bit 32 a = 0xFFFF then drop_bit 24 (ucast a :: 32 word) = 127 else a = 1)"
| "IsLoopback NoAddr = False"

section \<open>Durations\<close>

text \<open>
  \<open>time.ParseDuration\<close>, in nanoseconds. The fraction of a unit is computed with doubles, which are
  the argument \<open>fraction\<close>: the digits after the point, their number and the unit give nanoseconds.
\<close>

definition unit_ns :: "string \<Rightarrow> int option" where
  "unit_ns u = map_of [(''ns'', 1), (''us'', 1000), ([CHR 0xC2, CHR 0xB5, CHR ''s''], 1000),
     ([CHR 0xCE, CHR 0xBC, CHR ''s''], 1000), (''ms'', 1000000), (''s'', 1000000000), (''m'', 60000000000),
     (''h'', 3600000000000)] u"

definition is_digit :: "char \<Rightarrow> bool" where
  "is_digit c = (CHR ''0'' \<le> c \<and> c \<le> CHR ''9'')"

fun leadingInt :: "int \<Rightarrow> string \<Rightarrow> (int \<times> string) option" where
  "leadingInt x [] = Some (x, [])"
| "leadingInt x (c # s) = (if \<not> is_digit c then Some (x, c # s)
     else if x > 9223372036854775808 div 10 then None
     else let y = x * 10 + (of_char c - 48) in if y > 9223372036854775808 then None else leadingInt y s)"

text \<open>One turn of the loop: number, fraction and unit. None is the error of a malformed duration.\<close>

definition duration_step ::
  "(string \<Rightarrow> int \<Rightarrow> int) \<Rightarrow> string \<Rightarrow> (int \<times> string) option" where
  "duration_step fraction s =
     (if s = [] \<or> \<not> (hd s = CHR ''.'' \<or> is_digit (hd s)) then None
      else case leadingInt 0 s of None \<Rightarrow> None
      | Some (v, s1) \<Rightarrow>
         let point = (s1 \<noteq> [] \<and> hd s1 = CHR ''.'');
             digits = (if point then takeWhile is_digit (tl s1) else []);
             s2 = (if point then dropWhile is_digit (tl s1) else s1);
             u = takeWhile (\<lambda>c. \<not> (c = CHR ''.'' \<or> is_digit c)) s2;
             s3 = dropWhile (\<lambda>c. \<not> (c = CHR ''.'' \<or> is_digit c)) s2
         in if length s1 = length s \<and> digits = [] then None
            else case unit_ns u of None \<Rightarrow> None
            | Some ns \<Rightarrow> if v > 9223372036854775808 div ns then None
                else let w = v * ns + (if list_all (\<lambda>c. c = CHR ''0'') digits then 0 else fraction digits ns) in if w > 9223372036854775808 then None else Some (w, s3))"

lemma leadingInt_shorter: "leadingInt x s = Some (v, r) \<Longrightarrow> length r \<le> length s"
  by (induction x s rule: leadingInt.induct) (auto simp: Let_def split: if_splits)

lemma length_dropWhile_less:
  assumes "takeWhile P xs \<noteq> []"
  shows "length (dropWhile P xs) < length xs"
proof -
  have "length xs = length (takeWhile P xs) + length (dropWhile P xs)"
    by (metis length_append takeWhile_dropWhile_id)
  then show ?thesis using assms by (cases "takeWhile P xs") auto
qed

lemma unit_ns_Nil: "unit_ns [] = None"
  by (simp add: unit_ns_def)

lemma duration_step_shorter:
  assumes "duration_step fraction s = Some (w, r)"
  shows "length r < length s"
proof -
  obtain v s1 where v: "leadingInt 0 s = Some (v, s1)"
    using assms by (auto simp: duration_step_def split: if_splits option.splits)
  define s2 where "s2 = (if s1 \<noteq> [] \<and> hd s1 = CHR ''.'' then dropWhile is_digit (tl s1) else s1)"
  let ?p = "\<lambda>c. \<not> (c = CHR ''.'' \<or> is_digit c)"
  have "r = dropWhile ?p s2" "unit_ns (takeWhile ?p s2) \<noteq> None"
    using assms v by (auto simp: duration_step_def s2_def Let_def split: if_splits option.splits)
  then have "length r < length s2" using length_dropWhile_less[of ?p s2] unit_ns_Nil by metis
  moreover have "length s2 \<le> length s1"
    using length_dropWhile_le[of is_digit "tl s1"] by (cases s1) (auto simp: s2_def)
  ultimately show ?thesis using leadingInt_shorter[OF v] by simp
qed

function duration_loop :: "(string \<Rightarrow> int \<Rightarrow> int) \<Rightarrow> string \<Rightarrow> int \<Rightarrow> int option" where
  "duration_loop fraction s d = (if s = [] then Some d
     else case duration_step fraction s of None \<Rightarrow> None
     | Some (v, r) \<Rightarrow> if d + v > 9223372036854775808 then None else duration_loop fraction r (d + v))"
  by pat_completeness auto

termination
  by (relation "measure (\<lambda>(fraction, s, d). length s)") (auto dest: duration_step_shorter)

declare duration_loop.simps [simp del]

definition ParseDuration :: "(string \<Rightarrow> int \<Rightarrow> int) \<Rightarrow> string \<Rightarrow> int option" where
  "ParseDuration fraction s0 =
     (let signed = (s0 \<noteq> [] \<and> (hd s0 = CHR ''-'' \<or> hd s0 = CHR ''+''));
          neg = (signed \<and> hd s0 = CHR ''-''); s = (if signed then tl s0 else s0)
      in if s = ''0'' then Some 0
         else if s = [] then None
         else case duration_loop fraction s 0 of None \<Rightarrow> None
           | Some d \<Rightarrow> if neg then Some (- d) else if d > 9223372036854775807 then None else Some d)"

end
