(* ===== verification/Glob.thy ===== *)
theory Glob
  imports Codec
begin

text \<open>
  \<open>path.Match\<close> of Go's standard library, which the authorizer uses to compare the names in a
  certificate with its patterns. A star matches any sequence of bytes other than a slash, a
  question mark one character other than a slash, brackets a range of characters. None stands for
  \<open>ErrBadPattern\<close>.
\<close>

section \<open>Characters\<close>

definition byte_at :: "string \<Rightarrow> nat \<Rightarrow> int" where
  "byte_at s i = of_char (s ! i)"

text \<open>\<open>utf8.DecodeRuneInString\<close>: the character and its length; an invalid byte is U+FFFD of length 1.\<close>

definition decode_rune :: "string \<Rightarrow> int \<times> nat" where
  "decode_rune s = (if s = [] then (0xFFFD, 0) else case rune_len s of
     None \<Rightarrow> (0xFFFD, 1)
   | Some n \<Rightarrow> (if n = 1 then byte_at s 0
       else if n = 2 then (byte_at s 0 mod 32) * 64 + byte_at s 1 mod 64
       else if n = 3 then (byte_at s 0 mod 16) * 4096 + (byte_at s 1 mod 64) * 64 + byte_at s 2 mod 64
       else (byte_at s 0 mod 8) * 262144 + (byte_at s 1 mod 64) * 4096 + (byte_at s 2 mod 64) * 64 + byte_at s 3 mod 64, n))"

definition getEsc :: "string \<Rightarrow> (int \<times> string) option" where
  "getEsc chunk = (if chunk = [] \<or> hd chunk = CHR ''-'' \<or> hd chunk = CHR '']'' then None
     else let c = (if hd chunk = CHR 0x5C then tl chunk else chunk) in
       if c = [] then None
       else case decode_rune c of (r, n) \<Rightarrow>
         if (r = 0xFFFD \<and> n = 1) \<or> drop n c = [] then None else Some (r, drop n c))"

lemma rune_len_pos: "rune_len s = Some n \<Longrightarrow> 0 < n"
  by (auto simp: rune_len_def split: list.splits if_splits)

lemma decode_rune_pos: "s \<noteq> [] \<Longrightarrow> 0 < snd (decode_rune s)"
  by (auto simp: decode_rune_def dest: rune_len_pos split: option.split)

lemma getEsc_shorter:
  assumes "getEsc chunk = Some (r, rest)"
  shows "length rest < length chunk"
proof -
  define c where "c = (if hd chunk = CHR 0x5C then tl chunk else chunk)"
  have ne: "chunk \<noteq> []" "c \<noteq> []"
    using assms by (auto simp: getEsc_def c_def Let_def split: if_splits)
  obtain n where n: "decode_rune c = (r, n)" "rest = drop n c"
    using assms by (auto simp: getEsc_def c_def Let_def split: if_splits prod.splits)
  have "0 < n" using decode_rune_pos[OF ne(2)] n(1) by simp
  then have "length rest < length c" using ne(2) n(2) by simp
  then show ?thesis using ne(1) by (auto simp: c_def split: if_splits)
qed

section \<open>A chunk of a pattern\<close>

text \<open>The ranges of a bracket, up to its end: whether one holds the character, and the rest of the chunk.\<close>

function class_ranges :: "int \<Rightarrow> string \<Rightarrow> nat \<Rightarrow> bool \<Rightarrow> (bool \<times> string) option" where
  "class_ranges r chunk nrange hit =
     (if chunk \<noteq> [] \<and> hd chunk = CHR '']'' \<and> nrange > 0 then Some (hit, tl chunk)
      else case getEsc chunk of None \<Rightarrow> None
      | Some (lo, rest) \<Rightarrow>
         if hd rest = CHR ''-''
         then (case getEsc (tl rest) of None \<Rightarrow> None
            | Some (hi, rest') \<Rightarrow> class_ranges r rest' (Suc nrange) (hit \<or> (lo \<le> r \<and> r \<le> hi)))
         else class_ranges r rest (Suc nrange) (hit \<or> (lo \<le> r \<and> r \<le> lo)))"
  by pat_completeness auto

termination
  by (relation "measure (\<lambda>(r, chunk, nrange, hit). length chunk)") (auto dest!: getEsc_shorter)

declare class_ranges.simps [simp del]

lemma class_ranges_shorter: "class_ranges r chunk nrange hit = Some (h, rest) \<Longrightarrow> length rest < length chunk"
proof (induction r chunk nrange hit rule: class_ranges.induct)
  case (1 r chunk nrange hit)
  show ?case
  proof (cases "chunk \<noteq> [] \<and> hd chunk = CHR '']'' \<and> nrange > 0")
    case True
    then show ?thesis using "1.prems" by (auto simp: class_ranges.simps[of r chunk])
  next
    case False
    then obtain lo left where lo: "getEsc chunk = Some (lo, left)"
      using "1.prems" by (auto simp: class_ranges.simps[of r chunk] split: option.splits)
    show ?thesis
    proof (cases "hd left = CHR ''-''")
      case True
      then obtain hi left' where hi: "getEsc (tl left) = Some (hi, left')"
        using "1.prems" False lo by (auto simp: class_ranges.simps[of r chunk] split: option.splits)
      have "length rest < length left'"
        using "1.IH"(1)[OF False lo refl True hi refl] "1.prems" False lo True hi
        by (simp add: class_ranges.simps[of r chunk])
      then show ?thesis using getEsc_shorter[OF lo] getEsc_shorter[OF hi] by simp
    next
      case dash: False
      have "length rest < length left"
        using "1.IH"(2)[OF False lo refl dash] "1.prems" False lo dash
        by (simp add: class_ranges.simps[of r chunk])
      then show ?thesis using getEsc_shorter[OF lo] by simp
    qed
  qed
qed

text \<open>After a failure the loop only checks that the rest of the chunk is well formed.\<close>

function matchChunk :: "string \<Rightarrow> string \<Rightarrow> bool \<Rightarrow> string option option" where
  "matchChunk [] s failed = Some (if failed then None else Some s)"
| "matchChunk (c # chunk) s failed0 = (let failed = (failed0 \<or> s = []) in
     if c = CHR ''['' then
       (let (r, n) = (if failed then (0, 0) else decode_rune s);
            s' = drop n s;
            negated = (chunk \<noteq> [] \<and> hd chunk = CHR ''^'');
            body = (if negated then tl chunk else chunk)
        in case class_ranges r body 0 False of None \<Rightarrow> None
           | Some (hit, rest) \<Rightarrow> matchChunk rest s' (failed \<or> hit = negated))
     else if c = CHR ''?'' then
       (if failed then matchChunk chunk s True
        else matchChunk chunk (drop (snd (decode_rune s)) s) (hd s = CHR ''/''))
     else if c = CHR 0x5C then
       (case chunk of [] \<Rightarrow> None
        | c' # chunk' \<Rightarrow> if failed then matchChunk chunk' s True else matchChunk chunk' (tl s) (c' \<noteq> hd s))
     else if failed then matchChunk chunk s True else matchChunk chunk (tl s) (c \<noteq> hd s))"
  by pat_completeness auto

termination
  by (relation "measure (\<lambda>(chunk, s, failed). length chunk)")
    (auto dest!: class_ranges_shorter split: if_splits)

declare matchChunk.simps [simp del]

section \<open>Patterns\<close>

fun scan_chunk :: "string \<Rightarrow> bool \<Rightarrow> string \<times> string" where
  "scan_chunk [] inrange = ([], [])"
| "scan_chunk (c # p) inrange =
     (if c = CHR 0x5C then (case p of [] \<Rightarrow> ([c], [])
        | d # p' \<Rightarrow> apfst ((@) [c, d]) (scan_chunk p' inrange))
      else if c = CHR ''*'' \<and> \<not> inrange then ([], c # p)
      else apfst ((#) c) (scan_chunk p (c = CHR ''['' \<or> (inrange \<and> c \<noteq> CHR '']''))))"

definition scanChunk :: "string \<Rightarrow> bool \<times> string \<times> string" where
  "scanChunk pattern = (let p = dropWhile (\<lambda>c. c = CHR ''*'') pattern in
     (pattern \<noteq> [] \<and> hd pattern = CHR ''*'', scan_chunk p False))"

lemma scan_chunk_split: "fst (scan_chunk p inrange) @ snd (scan_chunk p inrange) = p"
  by (induction p inrange rule: scan_chunk.induct) (auto split: list.split)

lemma scan_chunk_takes: "p \<noteq> [] \<Longrightarrow> hd p \<noteq> CHR ''*'' \<Longrightarrow> fst (scan_chunk p inrange) \<noteq> []"
  by (cases p) (auto split: list.split)

lemma scanChunk_shorter:
  assumes "scanChunk pattern = (star, chunk, rest)" "pattern \<noteq> []"
  shows "length rest < length pattern"
proof -
  define p where "p = dropWhile (\<lambda>c. c = CHR ''*'') pattern"
  have p: "length p \<le> length pattern" "p \<noteq> [] \<Longrightarrow> hd p \<noteq> CHR ''*''"
    unfolding p_def using hd_dropWhile[of "\<lambda>c. c = CHR ''*''" pattern]
    by (auto simp: length_dropWhile_le)
  have parts: "chunk @ rest = p" and ch: "chunk = fst (scan_chunk p False)"
    using assms(1) scan_chunk_split[of p False] by (auto simp: scanChunk_def p_def Let_def)
  show ?thesis
  proof (cases "p = []")
    case True
    then show ?thesis using parts assms(2) by simp
  next
    case False
    then have "chunk \<noteq> []" using scan_chunk_takes p(2) ch by auto
    then have "length rest < length p" using parts by (auto simp flip: parts)
    then show ?thesis using p(1) by simp
  qed
qed

text \<open>
  The inner loop of a star: the chunk is tried at every position up to the next slash, and where
  it is the last chunk it must use up the name.
\<close>

fun star_skip :: "string \<Rightarrow> bool \<Rightarrow> string \<Rightarrow> string option option" where
  "star_skip chunk final [] = Some None"
| "star_skip chunk final (c # name) = (if c = CHR ''/'' then Some None
     else case matchChunk chunk name False of None \<Rightarrow> None
     | Some None \<Rightarrow> star_skip chunk final name
     | Some (Some t) \<Rightarrow> if final \<and> t \<noteq> [] then star_skip chunk final name else Some (Some t))"

text \<open>Before a failed match is reported, the rest of the pattern is checked.\<close>

function well_formed :: "string \<Rightarrow> bool" where
  "well_formed pattern = (if pattern = [] then True
     else case scanChunk pattern of (star, chunk, rest) \<Rightarrow>
       matchChunk chunk [] False \<noteq> None \<and> well_formed rest)"
  by pat_completeness auto

termination
  by (relation "measure length") (auto dest: scanChunk_shorter[OF sym])

declare well_formed.simps [simp del]

function glob_match :: "string \<Rightarrow> string \<Rightarrow> bool option" where
  "glob_match pattern name = (if pattern = [] then Some (name = [])
     else case scanChunk pattern of (star, chunk, rest) \<Rightarrow>
       if star \<and> chunk = [] then Some (CHR ''/'' \<notin> set name)
       else case matchChunk chunk name False of
         None \<Rightarrow> None
       | Some here \<Rightarrow>
          (case here of
             Some t \<Rightarrow> if t = [] \<or> rest \<noteq> [] then glob_match rest t
               else (case (if star then star_skip chunk (rest = []) name else Some None) of
                   None \<Rightarrow> None
                 | Some (Some t') \<Rightarrow> glob_match rest t'
                 | Some None \<Rightarrow> if well_formed rest then Some False else None)
           | None \<Rightarrow>
               (case (if star then star_skip chunk (rest = []) name else Some None) of
                   None \<Rightarrow> None
                 | Some (Some t') \<Rightarrow> glob_match rest t'
                 | Some None \<Rightarrow> if well_formed rest then Some False else None)))"
  by pat_completeness auto

termination
  by (relation "measure (\<lambda>(pattern, name). length pattern)") (auto dest: scanChunk_shorter[OF sym])

declare glob_match.simps [simp del]

end
