(* ===== verification/Auth.thy ===== *)
theory Auth
  imports Glob Filters
begin

text \<open>
  The authorization of \<open>internal/api/auth.go\<close>: roles, the mappings from the names in a client
  certificate to a role, the middleware that every request passes, and the TLS settings of the
  listener. A URI of a certificate stands here by its text, which is all the code reads of it.
\<close>

section \<open>Roles\<close>

datatype Role = RoleNone | RoleReader | RoleOperator | RoleAdmin

fun Role_number :: "Role \<Rightarrow> nat" where
  "Role_number RoleNone = 0"
| "Role_number RoleReader = 1"
| "Role_number RoleOperator = 2"
| "Role_number RoleAdmin = 3"

lemma Role_number_inj: "Role_number x = Role_number y \<longleftrightarrow> x = y"
  by (cases x; cases y) simp_all

instantiation Role :: linorder
begin

definition less_eq_Role :: "Role \<Rightarrow> Role \<Rightarrow> bool" where
  "less_eq_Role x y = (Role_number x \<le> Role_number y)"

definition less_Role :: "Role \<Rightarrow> Role \<Rightarrow> bool" where
  "less_Role x y = (Role_number x < Role_number y)"

instance
  by standard (auto simp: less_eq_Role_def less_Role_def Role_number_inj)

end

lemma RoleNone_least [simp]: "RoleNone \<le> r" "\<not> r < RoleNone"
  by (cases r; simp add: less_eq_Role_def less_Role_def)+

section \<open>State and requests\<close>

record RoleMapping =
  rm_role :: string
  rm_uri_sans :: "string list"
  rm_dns_sans :: "string list"

record Authorizer =
  au_mappings :: "RoleMapping list"
  au_insecure :: bool
  au_anonymousReader :: bool

record Certificate =
  ct_uris :: "string list"
  ct_dns_names :: "string list"

record ConnectionState =
  cs_verified_chains :: "Certificate list list"

text \<open>
  What a handler reads of a request: the TLS state, the parts of the URL (\<open>Path\<close>, which is decoded,
  \<open>RawPath\<close>, which is empty where the default encoding of the path is the one that came, and
  \<open>EscapedPath\<close>), and the body.
\<close>

record 'body Request =
  rq_tls :: "ConnectionState option"
  rq_path :: string
  rq_raw_path :: string
  rq_escaped_path :: string
  rq_body :: 'body

definition NewAuthorizer :: "RoleMapping list \<Rightarrow> bool \<Rightarrow> bool \<Rightarrow> Authorizer" where
  "NewAuthorizer mappings insecure anonymousReader =
     \<lparr>au_mappings = mappings, au_insecure = insecure, au_anonymousReader = anonymousReader\<rparr>"

definition Reload :: "RoleMapping list \<Rightarrow> bool \<Rightarrow> Authorizer \<Rightarrow> Authorizer" where
  "Reload mappings anonymousReader a = a\<lparr>au_mappings := mappings, au_anonymousReader := anonymousReader\<rparr>"

section \<open>The role of a certificate\<close>

definition roleValue :: "(string \<Rightarrow> string) \<Rightarrow> string \<Rightarrow> Role" where
  "roleValue uni r = (let l = ToLower uni r in
     if l = ''reader'' then RoleReader else if l = ''operator'' then RoleOperator
     else if l = ''admin'' then RoleAdmin else RoleNone)"

definition match_name :: "string \<Rightarrow> string \<Rightarrow> bool" where
  "match_name pattern value = (case glob_match pattern value of None \<Rightarrow> False | Some ok \<Rightarrow> ok)"

text \<open>The two nested loops over the names of a certificate and the patterns of a mapping.\<close>

definition raise_role :: "Role \<Rightarrow> string list \<Rightarrow> string list \<Rightarrow> Role \<Rightarrow> Role" where
  "raise_role role patterns names best =
     fold (\<lambda>name. fold (\<lambda>pattern best. if match_name pattern name \<and> best < role then role else best) patterns)
       names best"

definition role_of :: "(string \<Rightarrow> string) \<Rightarrow> Authorizer \<Rightarrow> Certificate \<Rightarrow> Role" where
  "role_of uni a cert = fold (\<lambda>m best. let role = roleValue uni (rm_role m) in
       raise_role role (rm_dns_sans m) (ct_dns_names cert) (raise_role role (rm_uri_sans m) (ct_uris cert) best))
     (au_mappings a) RoleNone"

definition requiredRole :: "string \<Rightarrow> Role" where
  "requiredRole procedure =
     (if Contains procedure ''CreatePeer'' \<or> Contains procedure ''UpdatePeer'' \<or> Contains procedure ''DeletePeer''
        \<or> Contains procedure ''ImportPeerConfig'' \<or> Contains procedure ''ExportPeerConfig'' then RoleAdmin
      else if Contains procedure ''SetPeerAdminState'' \<or> Contains procedure ''ResetPeer'' then RoleOperator
      else RoleReader)"

section \<open>The middleware\<close>

text \<open>
  A handler reads a request, changes the state it runs over and writes a reply: a message of a
  service, a literal body with its content type, a file of the user interface with its cache header,
  an error, a redirect by a handler or by the multiplexer. A panic, here of the index
  \<open>VerifiedChains[0][0]\<close>, is a reply too, since the next handler out recovers from it.
\<close>

datatype 'a reply =
    Reply 'a
  | Body string string
  | StaticFile string string
  | HttpError int string
  | Redirect string int
  | MuxRedirect string
  | Panicked

type_synonym ('body, 's, 'a) handler = "'body Request \<Rightarrow> 's \<Rightarrow> 's \<times> 'a reply"

definition request_role :: "(string \<Rightarrow> string) \<Rightarrow> Authorizer \<Rightarrow> 'body Request \<Rightarrow> Role result" where
  "request_role uni a r = (if au_insecure a \<and> rq_tls r = None then Inr RoleAdmin
     else case rq_tls r of
       Some tls \<Rightarrow> (case cs_verified_chains tls of
           (cert # rest) # others \<Rightarrow> Inr (role_of uni a cert)
         | [] # others \<Rightarrow> Inl Panic
         | [] \<Rightarrow> Inr (if au_anonymousReader a then RoleReader else RoleNone))
     | None \<Rightarrow> Inr (if au_anonymousReader a then RoleReader else RoleNone))"

definition Middleware ::
  "(string \<Rightarrow> string) \<Rightarrow> Authorizer \<Rightarrow> ('body, 's, 'a) handler \<Rightarrow> ('body, 's, 'a) handler" where
  "Middleware uni a next_handler r s = (case request_role uni a r of
     Inl e \<Rightarrow> (s, Panicked)
   | Inr role \<Rightarrow> if role < requiredRole (rq_path r)
       then (s, HttpError 403 ''client certificate is not authorized for this procedure'')
       else next_handler r s)"

section \<open>TLS\<close>

record TLS =
  tl_certificate :: string
  tl_private_key :: string
  tl_client_cas :: "string list"
  tl_development_insecure :: bool
  tl_allow_anonymous_reader :: bool

datatype ClientAuth = RequireAndVerifyClientCert | VerifyClientCertIfGiven

datatype TLSVersion = VersionTLS13

record ('cert, 'pool) tls_config =
  tc_min_version :: TLSVersion
  tc_certificates :: "'cert list"
  tc_client_cas :: 'pool
  tc_client_auth :: ClientAuth

text \<open>Files and certificates are outside the program: reading and parsing them are arguments,
  and so is \<open>%q\<close>, the quoting of a string, which depends on Unicode's tables.\<close>

record ('cert, 'pool) x509 =
  x_load_key_pair :: "string \<Rightarrow> string \<Rightarrow> go_error + 'cert"
  x_read_file :: "string \<Rightarrow> go_error + string"
  x_new_pool :: 'pool
  x_append_certs :: "'pool \<Rightarrow> string \<Rightarrow> 'pool \<times> bool"

fun add_client_cas :: "('cert, 'pool) x509 \<Rightarrow> (string \<Rightarrow> string) \<Rightarrow> string list \<Rightarrow> 'pool \<Rightarrow> go_error + 'pool" where
  "add_client_cas X q [] pool = Inr pool"
| "add_client_cas X q (file # files) pool = (case x_read_file X file of
     Inl e \<Rightarrow> Inl (Wrapf (''read client CA '' @ q file @ '': '') e [])
   | Inr data \<Rightarrow> (case x_append_certs X pool data of (pool', ok) \<Rightarrow>
       if \<not> ok then Inl (New (''client CA '' @ q file @ '' contains no certificates''))
       else add_client_cas X q files pool'))"

definition TLSConfig :: "('cert, 'pool) x509 \<Rightarrow> (string \<Rightarrow> string) \<Rightarrow> TLS \<Rightarrow> go_error + ('cert, 'pool) tls_config" where
  "TLSConfig X q cfg = (case x_load_key_pair X (tl_certificate cfg) (tl_private_key cfg) of
     Inl e \<Rightarrow> Inl (Wrapf ''load API certificate: '' e [])
   | Inr cert \<Rightarrow> (case add_client_cas X q (tl_client_cas cfg) (x_new_pool X) of Inl e \<Rightarrow> Inl e
   | Inr pool \<Rightarrow> Inr \<lparr>tc_min_version = VersionTLS13, tc_certificates = [cert], tc_client_cas = pool,
       tc_client_auth = (if tl_allow_anonymous_reader cfg then VerifyClientCertIfGiven else RequireAndVerifyClientCert)\<rparr>))"

section \<open>What the loops compute\<close>

definition mapping_matches :: "RoleMapping \<Rightarrow> Certificate \<Rightarrow> bool" where
  "mapping_matches m cert \<longleftrightarrow>
     (\<exists>name \<in> set (ct_uris cert). \<exists>pattern \<in> set (rm_uri_sans m). match_name pattern name) \<or>
     (\<exists>name \<in> set (ct_dns_names cert). \<exists>pattern \<in> set (rm_dns_sans m). match_name pattern name)"

lemma fold_raise:
  "fold (\<lambda>x best. if p x \<and> best < role then role else best) xs (best :: 'r::linorder) =
     (if \<exists>x \<in> set xs. p x then max best role else best)"
  by (induction xs arbitrary: best) (auto simp: max_def)

lemma raise_role_eq:
  "raise_role role patterns names best =
     (if \<exists>name \<in> set names. \<exists>pattern \<in> set patterns. match_name pattern name then max best role else best)"
  unfolding raise_role_def
  by (induction names arbitrary: best) (auto simp: fold_raise)

lemma role_step_eq:
  "raise_role role (rm_dns_sans m) (ct_dns_names cert) (raise_role role (rm_uri_sans m) (ct_uris cert) best) =
     (if mapping_matches m cert then max best role else best)"
  by (auto simp: raise_role_eq mapping_matches_def)

lemma Max_insert_max: "finite S \<Longrightarrow> Max (insert (max a b) S) = Max (insert a (insert (b :: 'r::linorder) S))"
  by (cases "S = {}") (simp_all add: max.assoc)

lemma fold_max:
  "fold (\<lambda>x best. if p x then max best (f x) else best) xs (best :: 'r::linorder) =
     Max (insert best (f ` {x \<in> set xs. p x}))"
proof (induction xs arbitrary: best)
  case (Cons x xs)
  have "Max (insert (max best (f x)) (f ` {x \<in> set xs. p x})) = Max (insert best (insert (f x) (f ` {x \<in> set xs. p x})))"
    by (rule Max_insert_max) simp
  moreover have "p x \<Longrightarrow> {y \<in> set (x # xs). p y} = insert x {y \<in> set xs. p y}" by auto
  moreover have "\<not> p x \<Longrightarrow> {y \<in> set (x # xs). p y} = {y \<in> set xs. p y}" by auto
  ultimately show ?case by (simp add: Cons.IH del: Collect_cong)
qed simp

lemma role_of_Max:
  "role_of uni a cert = Max (insert RoleNone ((\<lambda>m. roleValue uni (rm_role m)) ` {m \<in> set (au_mappings a). mapping_matches m cert}))"
  unfolding role_of_def Let_def role_step_eq by (rule fold_max)

lemma role_of_at_least:
  assumes "RoleNone < r"
  shows "r \<le> role_of uni a cert \<longleftrightarrow>
    (\<exists>m \<in> set (au_mappings a). mapping_matches m cert \<and> r \<le> roleValue uni (rm_role m))"
  unfolding role_of_Max using assms by (subst Max_ge_iff) auto

end
