(* ===== verification/Config.thy ===== *)
theory Config
  imports Paths Auth Types
begin

text \<open>
  The configuration of \<open>internal/config/config.go\<close>: its defaults, loading, validation, and the
  domains and peers it bootstraps. Reading the file, YAML and the working directory are arguments,
  and so are \<open>%q\<close> (\<open>q\<close>) and the arithmetic with doubles in \<open>time.ParseDuration\<close> (\<open>fraction\<close>). The
  messages of errors that the standard library gives on a duration are not told apart.
\<close>

section \<open>Data\<close>

record API_Config =
  ap_listen :: string
  ap_ui_listen :: string
  ap_tls :: TLS
  ap_rbac :: "RoleMapping list"
  ap_metrics_listen :: string

record BGP_Config =
  bc_router_id :: string
  bc_listen_port :: int
  bc_listen_addresses :: "string list"

record Retention =
  rt_duration :: int
  rt_duration_text :: string
  rt_max_bytes :: u64

record Domain_Config =
  dc_id :: string
  dc_name :: string
  dc_description :: string

record Peer_Config =
  pc_id :: string
  pc_domain_id :: string
  pc_name :: string
  pc_remote_address :: string
  pc_local_address :: string
  pc_local_as :: u32
  pc_remote_as :: u32
  pc_source_preference :: u32
  pc_enabled :: "bool option"
  pc_passive :: bool
  pc_ebgp_multihop :: bool
  pc_multihop_ttl :: u32
  pc_gtsm :: bool
  pc_tcp_md5_secret :: string

record Config =
  cf_data_dir :: string
  cf_api :: API_Config
  cf_bgp :: BGP_Config
  cf_retention :: Retention
  cf_domains :: "Domain_Config list"
  cf_peers :: "Peer_Config list"

definition Default :: Config where
  "Default = \<lparr>cf_data_dir = ''./data'',
     cf_api = \<lparr>ap_listen = ''127.0.0.1:7443'', ap_ui_listen = [],
       ap_tls = \<lparr>tl_certificate = [], tl_private_key = [], tl_client_cas = [], tl_development_insecure = False,
         tl_allow_anonymous_reader = False\<rparr>, ap_rbac = [], ap_metrics_listen = ''127.0.0.1:9090''\<rparr>,
     cf_bgp = \<lparr>bc_router_id = ''127.0.0.1'', bc_listen_port = - 1, bc_listen_addresses = []\<rparr>,
     cf_retention = \<lparr>rt_duration = 30 * 24 * 3600000000000, rt_duration_text = ''720h'', rt_max_bytes = 50 * 2 ^ 30\<rparr>,
     cf_domains = [], cf_peers = []\<rparr>"

section \<open>Validation\<close>

definition opt_err :: "bool \<Rightarrow> string \<Rightarrow> go_error list" where
  "opt_err bad msg = (if bad then [New msg] else [])"

definition listen_errs :: "string \<Rightarrow> string \<Rightarrow> go_error list" where
  "listen_errs field addr = (case SplitHostPort addr of Inl e \<Rightarrow> [Wrapf (field @ '': '') e []] | Inr hp \<Rightarrow> [])"

definition tls_errs :: "string \<Rightarrow> TLS \<Rightarrow> go_error list" where
  "tls_errs listen t = (if tl_development_insecure t then
      (let host = (case SplitHostPort listen of Inl e \<Rightarrow> [] | Inr (h, p) \<Rightarrow> h); ip = ParseIP host in
       opt_err (host \<noteq> ''localhost'' \<and> (case ip of None \<Rightarrow> True | Some a \<Rightarrow> \<not> IsLoopback a))
         ''development_insecure API must bind to loopback'')
    else opt_err (tl_certificate t = [] \<or> tl_private_key t = [] \<or> tl_client_cas t = [])
         ''API certificate, private key, and at least one client CA are required'')"

fun domain_errs :: "(string \<Rightarrow> string) \<Rightarrow> Domain_Config list \<Rightarrow> string list \<Rightarrow> go_error list" where
  "domain_errs q [] seen = []"
| "domain_errs q (d # ds) seen = opt_err (dc_id d = []) ''domain id is required'' @
     opt_err (dc_id d \<in> set seen) (''duplicate domain '' @ q (dc_id d)) @ domain_errs q ds (dc_id d # seen)"

fun peer_errs :: "(string \<Rightarrow> string) \<Rightarrow> string list \<Rightarrow> Peer_Config list \<Rightarrow> string list \<Rightarrow> go_error list" where
  "peer_errs q domains [] seen = []"
| "peer_errs q domains (p # ps) seen = opt_err (pc_id p = []) ''peer id is required'' @
     opt_err (pc_id p \<in> set seen) (''duplicate peer '' @ q (pc_id p)) @
     opt_err (pc_domain_id p \<notin> set domains) (''peer '' @ q (pc_id p) @ '' references unknown domain '' @ q (pc_domain_id p)) @
     opt_err (ParseIP (pc_remote_address p) = None) (''peer '' @ q (pc_id p) @ '' has invalid remote address'') @
     opt_err (pc_local_as p = 0 \<or> pc_remote_as p = 0) (''peer '' @ q (pc_id p) @ '' AS numbers must be non-zero'') @
     peer_errs q domains ps (pc_id p # seen)"

definition Validate :: "(string \<Rightarrow> string) \<Rightarrow> Config \<Rightarrow> go_error list" where
  "Validate q c =
     opt_err (cf_data_dir c = []) ''data_dir is required'' @
     listen_errs ''api.listen'' (ap_listen (cf_api c)) @
     (if ap_ui_listen (cf_api c) \<noteq> [] then listen_errs ''api.ui_listen'' (ap_ui_listen (cf_api c)) else []) @
     tls_errs (ap_listen (cf_api c)) (ap_tls (cf_api c)) @
     opt_err (rt_duration (cf_retention c) \<le> 0) ''retention duration must be positive'' @
     opt_err (rt_max_bytes (cf_retention c) = 0) ''retention max_bytes must be positive'' @
     domain_errs q (cf_domains c) [] @
     peer_errs q (map dc_id (cf_domains c)) (cf_peers c) []"

text \<open>\<open>errors.Join\<close>: nil when there is no error.\<close>

definition errors_Join :: "go_error list \<Rightarrow> go_error option" where
  "errors_Join errs = (if errs = [] then None else Some (New (join [CHR 0x0A] (map error_text errs))))"

section \<open>Loading\<close>

text \<open>The loaded configuration comes with the error of its validation; any other error comes without one.\<close>

definition Load ::
  "(string \<Rightarrow> string) \<Rightarrow> (string \<Rightarrow> int \<Rightarrow> int) \<Rightarrow> (string \<Rightarrow> go_error + string) \<Rightarrow> (string \<Rightarrow> Config \<Rightarrow> go_error + Config)
    \<Rightarrow> go_error + string \<Rightarrow> string \<Rightarrow> go_error + Config \<times> go_error option" where
  "Load q fraction read_file unyaml cwd path = (case read_file path of
     Inl e \<Rightarrow> Inl (Wrapf ''read configuration: '' e [])
   | Inr data \<Rightarrow> (case unyaml data Default of
     Inl e \<Rightarrow> Inl (Wrapf ''parse configuration: '' e [])
   | Inr cfg \<Rightarrow>
      let text = rt_duration_text (cf_retention cfg); d = ParseDuration fraction text in
      if text \<noteq> [] \<and> d = None then Inl (Wrapf ''retention.duration: '' (External ''invalid duration'') [])
      else
       let cfg1 = (case d of Some v \<Rightarrow> if text \<noteq> [] then cfg\<lparr>cf_retention := (cf_retention cfg)\<lparr>rt_duration := v\<rparr>\<rparr> else cfg
                            | None \<Rightarrow> cfg);
           base = (case filepath_Abs cwd (filepath_Dir path) of Inl e \<Rightarrow> [] | Inr b \<Rightarrow> b);
           cfg2 = (if \<not> IsAbs (cf_data_dir cfg1) then cfg1\<lparr>cf_data_dir := filepath_Join [base, cf_data_dir cfg1]\<rparr> else cfg1)
       in Inr (cfg2, errors_Join (Validate q cfg2))))"

section \<open>Messages\<close>

definition Domain_Proto :: "Domain_Config \<Rightarrow> Domain" where
  "Domain_Proto d = \<lparr>dm_id = dc_id d, dm_name = dc_name d, dm_description = dc_description d, dm_revision = 0\<rparr>"

definition Peer_Proto :: "Peer_Config \<Rightarrow> Peer" where
  "Peer_Proto p = zero_Peer\<lparr>pr_id := pc_id p, pr_domain_id := pc_domain_id p, pr_name := pc_name p,
     pr_remote_address := pc_remote_address p, pr_local_address := pc_local_address p, pr_local_as := pc_local_as p,
     pr_remote_as := pc_remote_as p, pr_source_preference := pc_source_preference p,
     pr_enabled := (case pc_enabled p of None \<Rightarrow> True | Some b \<Rightarrow> b), pr_passive := pc_passive p,
     pr_ebgp_multihop := pc_ebgp_multihop p, pr_multihop_ttl := pc_multihop_ttl p, pr_gtsm := pc_gtsm p,
     pr_tcp_md5_secret := pc_tcp_md5_secret p, pr_session_state := PEER_SESSION_STATE_IDLE\<rparr>"

end
