(* ===== verification/Collector_API.thy ===== *)
theory Collector_API
  imports Topology_API
begin

text \<open>
  The collector service of \<open>internal/api/collector.go\<close>: the peers that the operator configures. A
  call works on the store and on a peer manager, the interface behind which the BGP engine lies; its
  operations are an argument and so is its state. YAML is a library outside the repository: encoding
  and decoding a list of peers are arguments. The error state of the request's context and the clock
  at the k-th write to the store are arguments too.
\<close>

section \<open>The peer manager\<close>

record 'p PeerManager =
  pm_upsert :: "Peer \<Rightarrow> 'p \<Rightarrow> 'p \<times> go_error option"
  pm_delete :: "string \<Rightarrow> 'p \<Rightarrow> 'p \<times> go_error option"
  pm_reset :: "string \<Rightarrow> bool \<Rightarrow> 'p \<Rightarrow> 'p \<times> go_error option"

definition NoopPeerManager :: "'p PeerManager" where
  "NoopPeerManager = \<lparr>pm_upsert = (\<lambda>p m. (m, None)), pm_delete = (\<lambda>i m. (m, None)), pm_reset = (\<lambda>i soft m. (m, None))\<rparr>"

definition manager :: "'p PeerManager option \<Rightarrow> 'p PeerManager" where
  "manager peers = (case peers of None \<Rightarrow> NoopPeerManager | Some m \<Rightarrow> m)"

type_synonym ('db, 'p) system = "'db Store \<times> 'p"

type_synonym clock = "nat \<Rightarrow> go_error option \<times> time"

section \<open>Validation\<close>

definition redactPeer :: "Peer \<Rightarrow> Peer" where
  "redactPeer p = p\<lparr>pr_tcp_md5_secret := []\<rparr>"

definition validatePeer :: "Peer option \<Rightarrow> Snapshot \<Rightarrow> string list" where
  "validatePeer p0 snap = (case p0 of None \<Rightarrow> [''peer is required'']
   | Some p \<Rightarrow>
       (if pr_id p = [] then [''id is required''] else []) @
       (if pr_domain_id p = [] then [''domain_id is required''] else []) @
       (if \<not> list_ex (\<lambda>d. dm_id d = pr_domain_id p) (sn_domains snap) then [''domain_id does not exist''] else []) @
       (if ParseAddr (pr_remote_address p) = None then [''remote_address must be an IPv4 or IPv6 address''] else []) @
       (if pr_local_address p \<noteq> [] \<and> ParseAddr (pr_local_address p) = None
        then [''local_address must be an IPv4 or IPv6 address''] else []) @
       (if pr_local_as p = 0 \<or> pr_remote_as p = 0 then [''local_as and remote_as must be non-zero''] else []) @
       (if pr_gtsm p \<and> pr_ebgp_multihop p then [''gtsm and ebgp_multihop cannot both be enabled''] else []) @
       (if pr_ebgp_multihop p \<and> (pr_multihop_ttl p < 2 \<or> pr_multihop_ttl p > 255)
        then [''multihop_ttl must be between 2 and 255''] else []))"

text \<open>\<open>fmt.Sprint\<close> and \<open>%v\<close> of a list of strings.\<close>

definition Sprint_strings :: "string list \<Rightarrow> string" where
  "Sprint_strings ss = ''['' @ join '' '' ss @ '']''"

section \<open>Reading\<close>

record GetStatusResponse =
  gst_version :: string
  gst_started_at :: "time option"
  gst_topology_revision :: u64
  gst_storage_bytes :: u64
  gst_ready :: bool
  gst_message :: string

definition GetStatus :: "'db pebble \<Rightarrow> string \<Rightarrow> time \<Rightarrow> 'db Store \<Rightarrow> GetStatusResponse response" where
  "GetStatus P version started s = Inr \<lparr>gst_version = version, gst_started_at = Some started,
     gst_topology_revision = Store_Revision s, gst_storage_bytes = DiskUsage P s, gst_ready = True,
     gst_message = ''ready''\<rparr>"

text \<open>\<open>Store.Get\<close> of a peer and the type assertion on its result, which panics on another message.\<close>

definition get_peer :: "'db Store \<Rightarrow> string \<Rightarrow> Peer response" where
  "get_peer s i = (case Get s ENTITY_KIND_PEER i of Inl e \<Rightarrow> Inl (apiError e)
     | Inr (PeerE p) \<Rightarrow> Inr p | Inr _ \<Rightarrow> Inl Crash)"

definition GetPeer :: "'db Store \<Rightarrow> string \<Rightarrow> Peer response" where
  "GetPeer s i = bindR (get_peer s i) (\<lambda>p. Inr (redactPeer p))"

definition ListPeers ::
  "(string list \<Rightarrow> string list) \<Rightarrow> 'db Store \<Rightarrow> string \<Rightarrow> Page option \<Rightarrow> (Peer list \<times> PageResult) response" where
  "ListPeers it s domain page = (let snap = Store_Snapshot it s in
     bindR (list_page (page_of pr_id (\<lambda>p. Inr (\<not> (domain \<noteq> [] \<and> pr_domain_id p \<noteq> domain))) page (sn_peers snap)) snap)
       (\<lambda>(peers, page). Inr (map redactPeer peers, page)))"

section \<open>Writing\<close>

text \<open>
  A write to the store. It sets the resource version in the message, so it returns the message as
  the caller finds it afterwards.
\<close>

definition peer_mutation :: "Peer \<Rightarrow> bool \<Rightarrow> string \<Rightarrow> Mutation" where
  "peer_mutation p deleted reason = \<lparr>mu_kind = ENTITY_KIND_PEER, mu_id = pr_id p, mu_domain_id = pr_domain_id p,
     mu_peer_id = [], mu_reason = reason, mu_delete = deleted, mu_value = (if deleted then None else Some (PeerE p))\<rparr>"

definition put_peer ::
  "'db pebble \<Rightarrow> go_error option \<times> time \<Rightarrow> Peer \<Rightarrow> string \<Rightarrow> 'db Store \<Rightarrow> 'db Store \<times> Peer response" where
  "put_peer P tick p reason s = (case Apply P (fst tick) (snd tick) (peer_mutation p False reason) s of
     (s', v, r) \<Rightarrow> (s', bindR (answer r) (\<lambda>ev. case v of Some (PeerE p') \<Rightarrow> Inr p' | _ \<Rightarrow> Inl Crash)))"

definition drop_peer ::
  "'db pebble \<Rightarrow> go_error option \<times> time \<Rightarrow> Peer \<Rightarrow> string \<Rightarrow> 'db Store \<Rightarrow> 'db Store \<times> unit response" where
  "drop_peer P tick p reason s = (case Apply P (fst tick) (snd tick) (peer_mutation p True reason) s of
     (s', v, r) \<Rightarrow> (s', bindR (answer r) (\<lambda>ev. Inr ())))"

definition api_result :: "go_error option \<Rightarrow> 'a \<Rightarrow> 'a response" where
  "api_result e x = (case e of None \<Rightarrow> Inr x | Some err \<Rightarrow> Inl (apiError err))"

text \<open>Writing a peer and handing it to the manager: the end of three calls and of a turn of the import.\<close>

definition put_and_upsert ::
  "'db pebble \<Rightarrow> 'p PeerManager option \<Rightarrow> go_error option \<times> time \<Rightarrow> Peer \<Rightarrow> string \<Rightarrow> ('db, 'p) system
    \<Rightarrow> ('db, 'p) system \<times> Peer response" where
  "put_and_upsert P peers tick p reason sys = (case put_peer P tick p reason (fst sys) of
     (s', Inl e) \<Rightarrow> ((s', snd sys), Inl e)
   | (s', Inr p') \<Rightarrow> (case pm_upsert (manager peers) p' (snd sys) of
       (m', err) \<Rightarrow> ((s', m'), api_result err p')))"

text \<open>
  Four calls first read the store, which decides what to write, and then write. Nothing locks the
  store in between, so the two parts are definitions of their own.
\<close>

definition write_peer ::
  "'db pebble \<Rightarrow> 'p PeerManager option \<Rightarrow> go_error option \<times> time \<Rightarrow> string \<Rightarrow> Peer response \<Rightarrow> ('db, 'p) system
    \<Rightarrow> ('db, 'p) system \<times> Peer response" where
  "write_peer P peers tick reason checked sys = (case checked of Inl e \<Rightarrow> (sys, Inl e)
   | Inr p \<Rightarrow> (case put_and_upsert P peers tick p reason sys of
       (sys', r) \<Rightarrow> (sys', bindR r (\<lambda>q. Inr (redactPeer q)))))"

definition create_check :: "(string list \<Rightarrow> string list) \<Rightarrow> 'db Store \<Rightarrow> Peer option \<Rightarrow> Peer response" where
  "create_check it s req =
     (let errs = validatePeer req (Store_Snapshot it s) in
      if errs \<noteq> [] then Inl (ConnectError CodeInvalidArgument (New (Sprint_strings errs)))
      else case req of None \<Rightarrow> Inl Crash | Some p \<Rightarrow>
        (case Get s ENTITY_KIND_PEER (pr_id p) of
           Inr e \<Rightarrow> Inl (ConnectError CodeAlreadyExists (New ''peer already exists''))
         | Inl e \<Rightarrow> Inr (p\<lparr>pr_session_state :=
             (if pr_enabled p then PEER_SESSION_STATE_IDLE else PEER_SESSION_STATE_DISABLED)\<rparr>)))"

definition CreatePeer ::
  "'db pebble \<Rightarrow> 'p PeerManager option \<Rightarrow> (string list \<Rightarrow> string list) \<Rightarrow> go_error option \<times> time \<Rightarrow> Peer option
    \<Rightarrow> ('db, 'p) system \<Rightarrow> ('db, 'p) system \<times> Peer response" where
  "CreatePeer P peers it tick req sys =
     write_peer P peers tick ''peer created'' (create_check it (fst sys) req) sys"

definition update_check ::
  "(string list \<Rightarrow> string list) \<Rightarrow> 'db Store \<Rightarrow> Peer option \<Rightarrow> u64 \<Rightarrow> Peer response" where
  "update_check it s req expected =
     (let errs = validatePeer req (Store_Snapshot it s) in
      if errs \<noteq> [] then Inl (ConnectError CodeInvalidArgument (New (Sprint_strings errs)))
      else case req of None \<Rightarrow> Inl Crash | Some p \<Rightarrow>
        bindR (get_peer s (pr_id p)) (\<lambda>existing.
          if expected \<noteq> pr_resource_version existing
          then Inl (ConnectError CodeAborted
            (New (''resource version mismatch: current is '' @ Sprint_u64 (pr_resource_version existing))))
          else Inr (p\<lparr>pr_tcp_md5_secret := (if pr_tcp_md5_secret p = [] then pr_tcp_md5_secret existing
                         else pr_tcp_md5_secret p),
                      pr_session_state := pr_session_state existing,
                      pr_received_updates := pr_received_updates existing,
                      pr_rejected_updates := pr_rejected_updates existing\<rparr>)))"

definition UpdatePeer ::
  "'db pebble \<Rightarrow> 'p PeerManager option \<Rightarrow> (string list \<Rightarrow> string list) \<Rightarrow> go_error option \<times> time \<Rightarrow> Peer option
    \<Rightarrow> u64 \<Rightarrow> ('db, 'p) system \<Rightarrow> ('db, 'p) system \<times> Peer response" where
  "UpdatePeer P peers it tick req expected sys =
     write_peer P peers tick ''peer updated'' (update_check it (fst sys) req expected) sys"

definition version_check :: "'db Store \<Rightarrow> string \<Rightarrow> u64 \<Rightarrow> Peer response" where
  "version_check s i expected = bindR (get_peer s i) (\<lambda>p.
     if expected \<noteq> pr_resource_version p
     then Inl (ConnectError CodeAborted (New ''resource version mismatch'')) else Inr p)"

definition DeletePeer ::
  "'db pebble \<Rightarrow> 'p PeerManager option \<Rightarrow> go_error option \<times> time \<Rightarrow> string \<Rightarrow> u64 \<Rightarrow> ('db, 'p) system
    \<Rightarrow> ('db, 'p) system \<times> unit response" where
  "DeletePeer P peers tick i expected sys = (case version_check (fst sys) i expected of Inl e \<Rightarrow> (sys, Inl e)
   | Inr p \<Rightarrow> (case pm_delete (manager peers) (pr_id p) (snd sys) of
         (m', Some err) \<Rightarrow> ((fst sys, m'), Inl (apiError err))
       | (m', None) \<Rightarrow> (case drop_peer P tick p ''peer deleted'' (fst sys) of (s', r) \<Rightarrow> ((s', m'), r))))"

definition SetPeerAdminState ::
  "'db pebble \<Rightarrow> 'p PeerManager option \<Rightarrow> go_error option \<times> time \<Rightarrow> string \<Rightarrow> bool \<Rightarrow> u64 \<Rightarrow> ('db, 'p) system
    \<Rightarrow> ('db, 'p) system \<times> Peer response" where
  "SetPeerAdminState P peers tick i enabled expected sys =
     write_peer P peers tick ''peer administrative state changed''
       (bindR (version_check (fst sys) i expected) (\<lambda>p.
          let p1 = p\<lparr>pr_enabled := enabled\<rparr>
          in Inr (if \<not> pr_enabled p1 then p1\<lparr>pr_session_state := PEER_SESSION_STATE_DISABLED\<rparr> else p1))) sys"

definition ResetPeer ::
  "'p PeerManager option \<Rightarrow> string \<Rightarrow> bool \<Rightarrow> ('db, 'p) system \<Rightarrow> ('db, 'p) system \<times> Peer response" where
  "ResetPeer peers i soft sys = (case Get (fst sys) ENTITY_KIND_PEER i of Inl e \<Rightarrow> (sys, Inl (apiError e))
   | Inr raw \<Rightarrow> (case pm_reset (manager peers) i soft (snd sys) of
        (m', Some err) \<Rightarrow> ((fst sys, m'), Inl (apiError err))
      | (m', None) \<Rightarrow> ((fst sys, m'), case raw of PeerE p \<Rightarrow> Inr (redactPeer p) | _ \<Rightarrow> Inl Crash)))"

definition ValidatePeerConfig ::
  "(string list \<Rightarrow> string list) \<Rightarrow> 'db Store \<Rightarrow> Peer option \<Rightarrow> (bool \<times> string list) response" where
  "ValidatePeerConfig it s p = (let errs = validatePeer p (Store_Snapshot it s) in Inr (errs = [], errs))"

section \<open>Export and import\<close>

definition ExportPeerConfig ::
  "(Peer list \<Rightarrow> go_error + string) \<Rightarrow> (string list \<Rightarrow> string list) \<Rightarrow> 'db Store \<Rightarrow> string response" where
  "ExportPeerConfig yaml it s = (case yaml (map redactPeer (sn_peers (Store_Snapshot it s))) of
     Inl e \<Rightarrow> Inl (apiError e) | Inr data \<Rightarrow> Inr data)"

text \<open>
  The first loop of an import checks every peer before any is written. The message of its error reads
  \<open>p.Id\<close>, also of a nil peer.
\<close>

fun import_check :: "Snapshot \<Rightarrow> Peer option list \<Rightarrow> unit response" where
  "import_check snap [] = Inr ()"
| "import_check snap (p # ps) = (let errs = validatePeer p snap in
     if errs \<noteq> [] then (case p of None \<Rightarrow> Inl Crash
       | Some q \<Rightarrow> Inl (ConnectError CodeInvalidArgument (New (''peer '' @ pr_id q @ '': '' @ Sprint_strings errs))))
     else import_check snap ps)"

text \<open>The second loop writes them; it gives the peers as they are after the writes.\<close>

fun import_loop ::
  "'db pebble \<Rightarrow> 'p PeerManager option \<Rightarrow> clock \<Rightarrow> nat \<Rightarrow> Peer list \<Rightarrow> Peer list \<Rightarrow> ('db, 'p) system
    \<Rightarrow> ('db, 'p) system \<times> Peer list response" where
  "import_loop P peers clk k [] out sys = (sys, Inr out)"
| "import_loop P peers clk k (p # ps) out sys =
     (let keep = (case Get (fst sys) ENTITY_KIND_PEER (pr_id p) of
                    Inr (PeerE old) \<Rightarrow> if pr_tcp_md5_secret p = [] then Inr (pr_tcp_md5_secret old) else Inr (pr_tcp_md5_secret p)
                  | Inr _ \<Rightarrow> if pr_tcp_md5_secret p = [] then Inl Crash else Inr (pr_tcp_md5_secret p)
                  | Inl e \<Rightarrow> Inr (pr_tcp_md5_secret p))
      in case keep of Inl e \<Rightarrow> (sys, Inl e)
         | Inr secret \<Rightarrow>
           (case put_and_upsert P peers (clk k) (p\<lparr>pr_tcp_md5_secret := secret\<rparr>) ''peer configuration imported'' sys of
              (sys', Inl e) \<Rightarrow> (sys', Inl e)
            | (sys', Inr q) \<Rightarrow> import_loop P peers clk (Suc k) ps (out @ [q]) sys'))"

fun replace_loop ::
  "'db pebble \<Rightarrow> 'p PeerManager option \<Rightarrow> clock \<Rightarrow> nat \<Rightarrow> string list \<Rightarrow> Peer list \<Rightarrow> ('db, 'p) system
    \<Rightarrow> ('db, 'p) system \<times> unit response" where
  "replace_loop P peers clk k incoming [] sys = (sys, Inr ())"
| "replace_loop P peers clk k incoming (p # ps) sys =
     (if pr_id p \<in> set incoming then replace_loop P peers clk k incoming ps sys
      else case pm_delete (manager peers) (pr_id p) (snd sys) of
          (m', Some err) \<Rightarrow> ((fst sys, m'), Inl (apiError err))
        | (m', None) \<Rightarrow> (case drop_peer P (clk k) p ''peer removed by configuration import'' (fst sys) of
             (s', Inl e) \<Rightarrow> ((s', m'), Inl e)
           | (s', Inr u) \<Rightarrow> replace_loop P peers clk (Suc k) incoming ps (s', m')))"

definition ImportPeerConfig ::
  "'db pebble \<Rightarrow> 'p PeerManager option \<Rightarrow> (string \<Rightarrow> go_error + Peer option list) \<Rightarrow> (string list \<Rightarrow> string list)
    \<Rightarrow> clock \<Rightarrow> string \<Rightarrow> bool \<Rightarrow> ('db, 'p) system \<Rightarrow> ('db, 'p) system \<times> Peer list response" where
  "ImportPeerConfig P peers unyaml it clk data replace sys = (case unyaml data of
     Inl e \<Rightarrow> (sys, Inl (ConnectError CodeInvalidArgument e))
   | Inr inputs \<Rightarrow>
      let snap = Store_Snapshot it (fst sys) in
      case import_check snap inputs of Inl e \<Rightarrow> (sys, Inl e)
      | Inr u \<Rightarrow> let ps = List.map_filter (\<lambda>p. p) inputs in
        (case import_loop P peers clk 0 ps [] sys of
           (sys', Inl e) \<Rightarrow> (sys', Inl e)
         | (sys', Inr out) \<Rightarrow>
            (case (if replace then replace_loop P peers clk (length ps) (map pr_id ps) (sn_peers snap) sys' else (sys', Inr ())) of
               (sys'', Inl e) \<Rightarrow> (sys'', Inl e)
             | (sys'', Inr u) \<Rightarrow> (sys'', Inr (map redactPeer (sort_key pr_id out))))))"

end
