(* ===== verification/Bgp_Collector.thy ===== *)
theory Bgp_Collector
  imports Bgp_Paths Config Collector_API
begin

text \<open>
  The BGP collector of \<open>internal/bgp/collector.go\<close>: the registry of peers it keeps beside GoBGP, its
  start and close, the operations behind the peer manager of the collector service, and the handlers
  of session and path events. The store, which the collector shares with the services, is passed
  beside the collector. The counters are the numbers of increments per list of labels.
\<close>

section \<open>State\<close>

type_synonym counter = "(string list, nat) fmap"

definition Inc :: "string list \<Rightarrow> counter \<Rightarrow> counter" where
  "Inc labels m = fmupd labels ((case fmlookup m labels of None \<Rightarrow> 0 | Some n \<Rightarrow> n) + 1) m"

record 'e Collector =
  co_server :: "'e option"
  co_sources :: "Advertisement gomap gomap"
  co_peers :: "Peer gomap"
  co_byAddress :: "string gomap"
  co_cfg :: BGP_Config
  co_started :: bool
  co_pathsTotal :: counter
  co_decodeErrorsTotal :: counter

definition New_Collector :: "BGP_Config \<Rightarrow> 'e Collector" where
  "New_Collector cfg = \<lparr>co_server = None, co_sources = fmempty, co_peers = fmempty, co_byAddress = fmempty,
     co_cfg = cfg, co_started = False, co_pathsTotal = fmempty, co_decodeErrorsTotal = fmempty\<rparr>"

section \<open>Peers\<close>

definition toGoBGPPeer :: "Peer \<Rightarrow> ApiPeer" where
  "toGoBGPPeer p = \<lparr>ga_AuthPassword = pr_tcp_md5_secret p, ga_Description = pr_name p, ga_LocalAsn = pr_local_as p,
     ga_NeighborAddress = pr_remote_address p, ga_PeerAsn = pr_remote_as p, ga_AdminDown = (\<not> pr_enabled p),
     ga_LocalAddress = pr_local_address p, ga_PassiveMode = pr_passive p, ga_EbgpMultihop = pr_ebgp_multihop p,
     ga_MultihopTtl = pr_multihop_ttl p, ga_TtlSecurity = pr_gtsm p, ga_TtlMin = 255,
     ga_ImportDefault = ROUTE_ACTION_ACCEPT, ga_ExportDefault = ROUTE_ACTION_REJECT,
     ga_families = [(''AFI_LS'', ''SAFI_LS'', True)]\<rparr>"

text \<open>A call of the engine through the pointer \<open>c.server\<close>.\<close>

definition on_server ::
  "('e \<Rightarrow> 'e \<times> go_error option) \<Rightarrow> 'e Collector \<Rightarrow> 'e Collector \<times> unit result" where
  "on_server f c = (case co_server c of None \<Rightarrow> (c, Inl Panic)
     | Some e \<Rightarrow> (case f e of (e', err) \<Rightarrow>
         (c\<lparr>co_server := Some e'\<rparr>, case err of None \<Rightarrow> Inr () | Some x \<Rightarrow> Inl (Error x))))"

text \<open>The session of the old peer is deleted first; an error of that is only logged.\<close>

definition drop_old :: "'e engine \<Rightarrow> Peer \<Rightarrow> 'e Collector \<Rightarrow> 'e Collector \<times> unit result" where
  "drop_old E p c = (case fmlookup (co_peers c) (pr_id p) of None \<Rightarrow> (c, Inr ())
     | Some old \<Rightarrow> (case on_server (en_DeletePeer E (pr_remote_address old)) c of
         (c', Inl (Error e)) \<Rightarrow> (c', Inr ()) | other \<Rightarrow> other))"

definition upsertLocked :: "'e engine \<Rightarrow> Peer \<Rightarrow> 'e Collector \<Rightarrow> 'e Collector \<times> unit result" where
  "upsertLocked E p c = (if \<not> co_started c then (c, Inl (Error (New ''BGP collector is not started'')))
     else case drop_old E p c of (c1, Inl f) \<Rightarrow> (c1, Inl f)
     | (c1, Inr u) \<Rightarrow> (case on_server (en_AddPeer E (toGoBGPPeer p)) c1 of
         (c2, Inl (Error e)) \<Rightarrow> (c2, Inl (Error (Wrapf (''add BGP peer '' @ pr_id p @ '': '') e [])))
       | (c2, Inl f) \<Rightarrow> (c2, Inl f)
       | (c2, Inr u) \<Rightarrow> (c2\<lparr>co_peers := fmupd (pr_id p) p (co_peers c2),
                            co_byAddress := fmupd (pr_remote_address p) (pr_id p) (co_byAddress c2)\<rparr>, Inr ())))"

definition Upsert :: "'e engine \<Rightarrow> Peer \<Rightarrow> 'e Collector \<Rightarrow> 'e Collector \<times> unit result" where
  "Upsert E p c = upsertLocked E p c"

definition Delete :: "'e engine \<Rightarrow> string \<Rightarrow> 'e Collector \<Rightarrow> 'e Collector \<times> unit result" where
  "Delete E i c = (case fmlookup (co_peers c) i of None \<Rightarrow> (c, Inl (Error (Sentinel ErrNotFound)))
     | Some p \<Rightarrow> (case on_server (en_DeletePeer E (pr_remote_address p)) c of (c', Inl f) \<Rightarrow> (c', Inl f)
       | (c', Inr u) \<Rightarrow> (c'\<lparr>co_byAddress := fmdrop (pr_remote_address p) (co_byAddress c'),
                            co_peers := fmdrop i (co_peers c')\<rparr>, Inr ())))"

text \<open>A soft reset has the direction \<open>IN\<close>, a hard one none: the last argument of the engine.\<close>

definition Reset :: "'e engine \<Rightarrow> string \<Rightarrow> bool \<Rightarrow> 'e Collector \<Rightarrow> 'e Collector \<times> unit result" where
  "Reset E i soft c = (case fmlookup (co_peers c) i of None \<Rightarrow> (c, Inl (Error (Sentinel ErrNotFound)))
     | Some p \<Rightarrow> on_server (en_ResetPeer E (pr_remote_address p) soft soft) c)"

fun upsert_all :: "'e engine \<Rightarrow> Peer list \<Rightarrow> 'e Collector \<Rightarrow> 'e Collector \<times> unit result" where
  "upsert_all E [] c = (c, Inr ())"
| "upsert_all E (p # ps) c = (case upsertLocked E p c of (c', Inl f) \<Rightarrow> (c', Inl f)
     | (c', Inr u) \<Rightarrow> upsert_all E ps c')"

definition start_global :: "BGP_Config \<Rightarrow> Peer list \<Rightarrow> Global" where
  "start_global cfg peers = \<lparr>
     gl_Asn = (case peers of [] \<Rightarrow> 64512 | p # ps \<Rightarrow> if pr_local_as p \<noteq> 0 then pr_local_as p else 64512),
     gl_RouterId = bc_router_id cfg,
     gl_ListenPort = (if bc_listen_port cfg = 0 then 179 else bc_listen_port cfg),
     gl_ListenAddresses = bc_listen_addresses cfg\<rparr>"

definition Start :: "'e engine \<Rightarrow> Peer list \<Rightarrow> 'e Collector \<Rightarrow> 'e Collector \<times> unit result" where
  "Start E peers c = (if co_started c then (c, Inl (Error (New ''BGP collector is already started'')))
     else if bc_router_id (co_cfg c) = []
     then (c, Inl (Error (New ''bgp.router_id is required when peers are configured'')))
     else case en_StartBgp E (start_global (co_cfg c) peers) (en_NewBgpServer E) of
       (e, Some err) \<Rightarrow> (c\<lparr>co_server := Some e\<rparr>, Inl (Error (Wrapf ''start GoBGP: '' err [])))
     | (e, None) \<Rightarrow> (case en_WatchEvent E e of
         (e', Some err) \<Rightarrow> (c\<lparr>co_server := Some e'\<rparr>, Inl (Error (Wrapf ''watch GoBGP events: '' err [])))
       | (e', None) \<Rightarrow> upsert_all E peers (c\<lparr>co_server := Some e', co_started := True\<rparr>)))"

definition Close :: "'e engine \<Rightarrow> 'e Collector \<Rightarrow> 'e Collector \<times> unit result" where
  "Close E c = (if \<not> co_started c then (c, Inr ())
     else case on_server (en_StopBgp E) c of
       (c', Inl Panic) \<Rightarrow> (c', Inl Panic)
     | (c', r) \<Rightarrow> (c'\<lparr>co_server := map_option (en_Stop E) (co_server c'), co_started := False\<rparr>, r))"

text \<open>
  The collector as the peer manager of the service. A manager has no way to tell a panic, which a
  collector that was started never raises here; it is shown as an error.
\<close>

definition manager_error :: "unit result \<Rightarrow> go_error option" where
  "manager_error r = (case r of Inr u \<Rightarrow> None | Inl (Error e) \<Rightarrow> Some e | Inl f \<Rightarrow> Some (External nil_dereference))"

definition collector_manager :: "'e engine \<Rightarrow> 'e Collector PeerManager" where
  "collector_manager E = \<lparr>pm_upsert = (\<lambda>p c. map_prod id manager_error (Upsert E p c)),
     pm_delete = (\<lambda>i c. map_prod id manager_error (Delete E i c)),
     pm_reset = (\<lambda>i soft c. map_prod id manager_error (Reset E i soft c))\<rparr>"

section \<open>Session events\<close>

text \<open>
  The peer of an address: None when the address is unknown, \<open>Some None\<close> when its identifier has no
  peer, where \<open>proto.Clone\<close> gives a nil peer.
\<close>

definition peerForAddress :: "'e Collector \<Rightarrow> string \<Rightarrow> Peer option option" where
  "peerForAddress c address = (case fmlookup (co_byAddress c) address of None \<Rightarrow> None
     | Some i \<Rightarrow> Some (fmlookup (co_peers c) i))"

fun mapFSM :: "FSMState \<Rightarrow> PeerSessionState" where
  "mapFSM BGP_FSM_IDLE = PEER_SESSION_STATE_IDLE"
| "mapFSM BGP_FSM_CONNECT = PEER_SESSION_STATE_CONNECT"
| "mapFSM BGP_FSM_ACTIVE = PEER_SESSION_STATE_ACTIVE"
| "mapFSM BGP_FSM_OPENSENT = PEER_SESSION_STATE_OPEN_SENT"
| "mapFSM BGP_FSM_OPENCONFIRM = PEER_SESSION_STATE_OPEN_CONFIRM"
| "mapFSM BGP_FSM_ESTABLISHED = PEER_SESSION_STATE_ESTABLISHED"
| "mapFSM (BGP_FSM_OTHER n) = PEER_SESSION_STATE_UNSPECIFIED"

definition session_peer :: "PeerEvent \<Rightarrow> time \<Rightarrow> Peer \<Rightarrow> Peer" where
  "session_peer ev observed p = (let p1 = p\<lparr>pr_session_state := mapFSM (pe_SessionState ev),
        pr_router_id := formatAddr (pe_RouterID ev), pr_last_state_change := Some observed,
        pr_last_error := pe_DisconnectMessage ev\<rparr>
     in if pr_session_state p1 = PEER_SESSION_STATE_ESTABLISHED then p1\<lparr>pr_established_at := Some observed\<rparr> else p1)"

definition handlePeer ::
  "'db pebble \<Rightarrow> time \<Rightarrow> PeerEvent option \<Rightarrow> time \<Rightarrow> ('db, 'e Collector) system
    \<Rightarrow> ('db, 'e Collector) system \<times> unit result" where
  "handlePeer P now event observed sys = (case event of None \<Rightarrow> (sys, Inr ())
   | Some ev \<Rightarrow> if \<not> pe_is_state ev then (sys, Inr ())
     else case peerForAddress (snd sys) (Addr_String (pe_NeighborAddress ev)) of
       None \<Rightarrow> (sys, Inr ())
     | Some None \<Rightarrow> (sys, Inl Panic)
     | Some (Some p) \<Rightarrow>
         (case Apply P None now (peer_mutation (session_peer ev observed p) False ''BGP session state changed'') (fst sys) of
           (s', v, r) \<Rightarrow> ((s', snd sys), Inr ())))"

section \<open>Path events\<close>

definition incrementRejected :: "'db pebble \<Rightarrow> time \<Rightarrow> Peer \<Rightarrow> 'db Store \<Rightarrow> 'db Store \<times> unit result" where
  "incrementRejected P now peer s = (case Get s ENTITY_KIND_PEER (pr_id peer) of Inl e \<Rightarrow> (s, Inr ())
     | Inr (PeerE p) \<Rightarrow> (case Apply P None now (peer_mutation (p\<lparr>pr_rejected_updates := pr_rejected_updates p + 1\<rparr>)
          False ''BGP-LS update rejected'') s of (s', v, r) \<Rightarrow> (s', Inr ()))
     | Inr _ \<Rightarrow> (s, Inl Panic))"

definition path_labels :: "Peer \<Rightarrow> LsPath \<Rightarrow> string \<Rightarrow> string \<Rightarrow> string list" where
  "path_labels peer path outcome kind = [pr_id peer, (if pa_Withdrawal path then ''withdraw'' else ''announce''),
     (if pa_Stale path then ''stale'' else ''active''), outcome, kind]"

definition count_path :: "string list \<Rightarrow> 'e Collector \<Rightarrow> 'e Collector" where
  "count_path labels c = c\<lparr>co_pathsTotal := Inc labels (co_pathsTotal c)\<rparr>"

definition count_error :: "string list \<Rightarrow> 'e Collector \<Rightarrow> 'e Collector" where
  "count_error labels c = c\<lparr>co_decodeErrorsTotal := Inc labels (co_decodeErrorsTotal c)\<rparr>"

text \<open>
  Handling a path through the reconciler, which works on the shared store. The context is the
  background context, which has no error.
\<close>

definition reconcile_path ::
  "'db pebble \<Rightarrow> world \<Rightarrow> Peer \<Rightarrow> LsPath \<Rightarrow> ('db, 'e Collector) system \<Rightarrow> ('db, 'e Collector) system \<times> unit result" where
  "reconcile_path P w peer path sys =
     (case safeHandlePath P (w\<lparr>w_ctx := None\<rparr>) peer path \<lparr>rc_store = fst sys, rc_sources = co_sources (snd sys)\<rparr> of
        (r, res) \<Rightarrow> ((rc_store r, (snd sys)\<lparr>co_sources := rc_sources r\<rparr>), res))"

definition known_path ::
  "'db pebble \<Rightarrow> world \<Rightarrow> Peer \<Rightarrow> LsPath \<Rightarrow> ('db, 'e Collector) system \<Rightarrow> ('db, 'e Collector) system \<times> unit result" where
  "known_path P w peer path sys = (case reconcile_path P w peer path sys of
     ((s1, c1), Inr u) \<Rightarrow> (case nlriKind path of Inl f \<Rightarrow> ((s1, c1), Inl f)
        | Inr kind \<Rightarrow> ((s1, count_path (path_labels peer path ''accepted'' kind) c1), Inr ()))
   | ((s1, c1), Inl (Error e)) \<Rightarrow>
       if errors_Is e errUnsupportedNLRI
       then ((s1, count_error [pr_id peer, ''unsupported_nlri'']
                    (count_path (path_labels peer path ''ignored'' ''unsupported'') c1)), Inr ())
       else (case nlriKind path of Inl f \<Rightarrow> ((s1, c1), Inl f)
         | Inr kind \<Rightarrow> (case incrementRejected P (w_later w) peer s1 of (s2, r) \<Rightarrow>
             ((s2, count_error [pr_id peer, classifyDecodeError e]
                     (count_path (path_labels peer path ''rejected'' kind) c1)), r)))
   | (sys1, Inl f) \<Rightarrow> (sys1, Inl f))"

definition path_step ::
  "'db pebble \<Rightarrow> world \<Rightarrow> LsPath \<Rightarrow> ('db, 'e Collector) system \<Rightarrow> ('db, 'e Collector) system \<times> unit result" where
  "path_step P w path sys = (if \<not> pa_LS path then (sys, Inr ())
     else case peerForAddress (snd sys) (Addr_String (pa_PeerAddress path)) of
       None \<Rightarrow> (sys, Inr ())
     | Some None \<Rightarrow> (sys, Inl Panic)
     | Some (Some peer) \<Rightarrow> known_path P w peer path sys)"

fun handlePaths ::
  "'db pebble \<Rightarrow> (nat \<Rightarrow> world) \<Rightarrow> nat \<Rightarrow> LsPath list \<Rightarrow> ('db, 'e Collector) system
    \<Rightarrow> ('db, 'e Collector) system \<times> unit result" where
  "handlePaths P w k [] sys = (sys, Inr ())"
| "handlePaths P w k (path # paths) sys = (case path_step P (w k) path sys of
     (sys', Inl f) \<Rightarrow> (sys', Inl f)
   | (sys', Inr u) \<Rightarrow> handlePaths P w (Suc k) paths sys')"

end
