(* ===== verification/Accept_Theorems.thy ===== *)
theory Accept_Theorems
  imports Reconcile_Theorems
begin

text \<open>
  Which advertisements the reconciler and the store accept: when every value that the peers advertise
  can be written as JSON, so can every merge of them, and the store takes it.
\<close>

section \<open>ASCII texts\<close>

definition ascii :: "string \<Rightarrow> bool" where
  "ascii s \<longleftrightarrow> list_all (\<lambda>c. of_char c < (128 :: nat)) s"

lemma ascii_simps [simp]:
  "ascii []" "ascii (c # s) \<longleftrightarrow> of_char c < (128 :: nat) \<and> ascii s" "ascii (s @ t) \<longleftrightarrow> ascii s \<and> ascii t"
  by (simp_all add: ascii_def)

lemma utf8_ascii: "ascii s \<Longrightarrow> utf8_valid s"
proof (induction s)
  case (Cons c s)
  then have "rune_len (c # s) = Some 1" by (simp add: rune_len_def byte_in_def)
  then show ?case using Cons by (simp add: utf8_valid_def)
qed simp

lemma ascii_decimal [simp]: "ascii (decimal n)"
proof (induction n rule: decimal.induct)
  case (1 n)
  moreover have "n mod 10 < 80" by (rule less_trans[OF mod_less_divisor]) simp_all
  ultimately show ?case by (subst decimal.simps) (simp add: digit_char_def)
qed

section \<open>Merging\<close>

definition meta_json :: "EntityMeta \<Rightarrow> bool" where
  "meta_json m \<longleftrightarrow> json_ok (enc_EntityMeta m)"

definition value_json :: "entity \<Rightarrow> bool" where
  "value_json v \<longleftrightarrow> json_ok (enc_entity v)"

lemma meta_json_or_new: "(case m of None \<Rightarrow> True | Some x \<Rightarrow> meta_json x) \<longleftrightarrow> meta_json (meta_or_new m)"
  by (cases m) (simp_all add: meta_json_def meta_or_new_def enc_EntityMeta_def zero_EntityMeta_def)

lemma Node_json: "value_json (NodeE n) \<longleftrightarrow> meta_json (meta_or_new (nd_meta n)) \<and> utf8_valid (nd_area_id n) \<and>
    utf8_valid (nd_igp_router_id n) \<and> utf8_valid (nd_bgp_router_id n) \<and> utf8_valid (nd_name n) \<and>
    utf8_valid (nd_ipv4_router_id n) \<and> utf8_valid (nd_ipv6_router_id n) \<and>
    list_all (\<lambda>a. json_ok (enc_Attribute a)) (nd_attributes n)"
  unfolding meta_json_or_new[symmetric]
  by (auto simp: value_json_def enc_entity_def enc_Node_def meta_json_def list_all_iff split: option.splits)

lemma Link_json: "value_json (LinkE l) \<longleftrightarrow> meta_json (meta_or_new (lk_meta l)) \<and> utf8_valid (lk_local_node_id l) \<and>
    utf8_valid (lk_remote_node_id l) \<and> utf8_valid (lk_local_address l) \<and> utf8_valid (lk_remote_address l) \<and>
    f_finite (lk_max_bandwidth l) \<and> f_finite (lk_reservable_bandwidth l) \<and> list_all f_finite (lk_unreserved_bandwidth l) \<and>
    list_all (\<lambda>a. json_ok (enc_Attribute a)) (lk_attributes l) \<and>
    utf8_valid (lk_local_ipv4_address l) \<and> utf8_valid (lk_remote_ipv4_address l) \<and>
    utf8_valid (lk_local_ipv6_address l) \<and> utf8_valid (lk_remote_ipv6_address l)"
  unfolding meta_json_or_new[symmetric]
  by (auto simp: value_json_def enc_entity_def enc_Link_def meta_json_def list_all_iff split: option.splits)

lemma Prefix_json: "value_json (PrefixE p) \<longleftrightarrow> meta_json (meta_or_new (px_meta p)) \<and> utf8_valid (px_prefix p) \<and>
    utf8_valid (px_origin_node_id p) \<and> utf8_valid (px_forwarding_address p) \<and>
    list_all (\<lambda>a. json_ok (enc_Attribute a)) (px_attributes p)"
  unfolding meta_json_or_new[symmetric]
  by (auto simp: value_json_def enc_entity_def enc_Prefix_def meta_json_def list_all_iff split: option.splits)

lemmas entity_json = Node_json Link_json Prefix_json

lemma meta_json_iff: "meta_json m \<longleftrightarrow> utf8_valid (em_id m) \<and> utf8_valid (em_domain_id m) \<and>
    list_all utf8_valid (em_source_peer_ids m) \<and> list_all (\<lambda>c. json_ok (enc_Conflict c)) (em_conflicts m) \<and>
    list_all (\<lambda>t. json_ok (enc_RawTlv t)) (em_decoded_tlvs m)"
  by (auto simp: meta_json_def enc_EntityMeta_def list_all_iff split: option.splits)

lemma utf8_merge_value: "utf8_valid a \<Longrightarrow> utf8_valid b \<Longrightarrow> utf8_valid (merge_value [] a b)"
  by (simp add: merge_value_def)

lemma meta_mergeString:
  assumes "meta_json m" and "utf8_valid a" and "utf8_valid b" and "ascii f" and "utf8_valid sp" and "utf8_valid op"
  shows "meta_json (snd (mergeString f a b m sp op))"
  using assms by (auto simp: mergeString_def meta_json_iff enc_Conflict_def utf8_ascii)

lemma meta_mergeUint64:
  assumes "meta_json m" and "ascii f" and "utf8_valid sp" and "utf8_valid op"
  shows "meta_json (snd (mergeUint64 f a b m sp op))"
  using assms by (auto simp: mergeUint64_def meta_json_iff enc_Conflict_def utf8_ascii Sprint_u64_def)

lemma meta_merge_tlvs: "meta_json m \<Longrightarrow> meta_json (meta_or_new n) \<Longrightarrow> meta_json (merge_tlvs_of m n)"
proof -
  assume m: "meta_json m" and n: "meta_json (meta_or_new n)"
  obtain new where "mergeTLVs (em_decoded_tlvs m) (GetDecodedTlvs n) = em_decoded_tlvs m @ new"
    "set new \<subseteq> set (GetDecodedTlvs n)" using mergeTLVs_union by metis
  moreover have "list_all (\<lambda>t. json_ok (enc_RawTlv t)) (GetDecodedTlvs n)"
    using n by (cases n) (simp_all add: meta_json_iff meta_or_new_def GetDecodedTlvs_def)
  ultimately show ?thesis using m by (auto simp: meta_json_iff merge_tlvs_of_def list_all_iff)
qed

lemmas meta_merges = meta_mergeString meta_mergeUint64 meta_merge_tlvs utf8_merge_value

lemma value_json_merge:
  assumes "value_json a" and "value_json b" and "utf8_valid sp" and "utf8_valid op"
  shows "value_json (mergeEntity a b sp op)"
proof (cases a; cases b)
  fix x y assume a: "a = NodeE x" and b: "b = NodeE y"
  show ?thesis using assms unfolding a b
    by (simp add: mergeEntity_def merge_Node_def case_prod_beta Let_def Node_json meta_or_new_def[of "Some _"] meta_merges)
next
  fix x y assume a: "a = LinkE x" and b: "b = LinkE y"
  show ?thesis using assms unfolding a b
    by (simp add: mergeEntity_def merge_Link_def case_prod_beta Let_def Link_json meta_or_new_def[of "Some _"] meta_merges)
next
  fix x y assume a: "a = PrefixE x" and b: "b = PrefixE y"
  show ?thesis using assms unfolding a b
    by (simp add: mergeEntity_def merge_Prefix_def case_prod_beta Let_def Prefix_json meta_or_new_def[of "Some _"] meta_merges)
qed (use assms(1) in \<open>simp_all add: mergeEntity_def\<close>)


lemma value_json_sources: "value_json v \<Longrightarrow> list_all utf8_valid ids \<Longrightarrow> value_json (setSources ids v)"
  by (cases v) (simp_all add: setSources_def entity_json meta_json_iff meta_or_new_def[of "Some _"])

lemma canonical_json:
  assumes "ordered \<noteq> []" and "\<forall>s\<in>set ordered. value_json (source_value s) \<and> utf8_valid (ad_peer_id s)"
  shows "value_json (canonical ordered)"
proof -
  have fold_json: "value_json (fold (\<lambda>s c. mergeEntity c (source_value s) sp (ad_peer_id s)) ss v)"
    if "value_json v" "utf8_valid sp" "\<forall>s\<in>set ss. value_json (source_value s) \<and> utf8_valid (ad_peer_id s)" for ss v sp
    using that by (induction ss arbitrary: v) (auto intro: value_json_merge)
  have "hd ordered \<in> set ordered" "\<forall>s\<in>set (tl ordered). s \<in> set ordered" using assms(1) by (auto intro: list.set_sel(2))
  then show ?thesis
    unfolding canonical_def using assms(2) by (intro value_json_sources fold_json) (auto simp: list_all_iff)
qed

lemma merge_meta_id [simp]:
  "em_id (snd (mergeString f a b m sp op)) = em_id m" "em_id (snd (mergeUint64 f x y m sp op)) = em_id m"
  "em_id (merge_tlvs_of m n) = em_id m" "em_id (meta_or_new k) = GetId k"
  by (simp_all add: mergeString_def mergeUint64_def merge_tlvs_of_def meta_or_new_def GetId_def zero_EntityMeta_def
      split: option.split)

lemma GetId_Some [simp]: "GetId (Some m) = em_id m"
  by (simp add: GetId_def)

lemma ident_mergeEntity [simp]: "ident_of (mergeEntity a b sp op) = ident_of a"
  by (cases a; cases b) (simp_all add: mergeEntity_def node_id_def link_id_def prefix_id_def merge_Node_def
      merge_Link_def merge_Prefix_def case_prod_beta Let_def)

lemma ident_setSources [simp]: "ident_of (setSources ids v) = ident_of v"
  by (cases v) (simp_all add: setSources_def node_id_def link_id_def prefix_id_def)

lemma ident_canonical: "ident_of (canonical ordered) = ident_of (source_value (hd ordered))"
proof -
  have "ident_of (fold (\<lambda>s c. mergeEntity c (source_value s) sp (ad_peer_id s)) ss v) = ident_of v" for sp ss v
    by (induction ss arbitrary: v) simp_all
  then show ?thesis by (simp add: canonical_def)
qed

section \<open>Acceptance\<close>

text \<open>
  A clean reconciler: every value it remembers carries the identifier it was advertised under and can
  be written as JSON, and every peer identifier is UTF-8.
\<close>

definition clean_ad :: "Advertisement \<Rightarrow> bool" where
  "clean_ad a \<longleftrightarrow> utf8_valid (ad_peer_id a) \<and> (case ad_value a of None \<Rightarrow> True
     | Some v \<Rightarrow> value_json v \<and> ident_of v = ad_id a)"

definition clean :: "'db Reconciler \<Rightarrow> bool" where
  "clean r \<longleftrightarrow> (\<forall>key p a. fmlookup (sources_of r key) p = Some a \<longrightarrow> clean_ad a)"

lemma clean_updated:
  assumes "clean r" and "\<not> ad_withdraw a \<Longrightarrow> clean_ad a" and "fmlookup (updated_sources a r) p = Some b"
  shows "clean_ad b"
  using assms by (auto simp: updated_sources_def clean_def Let_def split: if_splits)

lemma clean_after:
  assumes "clean r" and "\<not> ad_withdraw a \<Longrightarrow> clean_ad a" and "sources_ok r" and "ad_ok a" and "iter_order it"
    and "Reconciler_Apply P it ctxErr now a r = (r', res)"
  shows "clean r'"
  unfolding clean_def
proof (intro allI impI)
  fix key p b assume b: "fmlookup (sources_of r' key) p = Some b"
  show "clean_ad b"
    using b sources_after(2,3)[OF assms(3-6)] clean_updated[OF assms(1,2)] assms(1)
    by (cases "key = sourceKey (ad_kind a) (ad_id a)") (auto simp: clean_def)
qed

lemma Reconciler_mutation_ok:
  assumes "clean r" and "clean_ad a" and "sources_ok r" and "ad_ok a"
    and "utf8_valid (ad_id a)" and "utf8_valid (ad_domain_id a)"
  shows "mutation_ok \<lparr>mu_kind = ad_kind a, mu_id = ad_id a, mu_domain_id = ad_domain_id a, mu_peer_id = ad_peer_id a,
     mu_reason = (if updated_sources a r = fmempty then ''last source withdrawn'' else ''canonical topology reconciled''),
     mu_delete = (updated_sources a r = fmempty),
     mu_value = (if updated_sources a r = fmempty then None else Some (canonical (ordered_sources_of a r)))\<rparr>"
proof -
  let ?u = "updated_sources a r"
  have "kind_of (canonical (ordered_sources_of a r)) = ad_kind a \<and> ident_of (canonical (ordered_sources_of a r)) = ad_id a \<and>
      value_json (canonical (ordered_sources_of a r))" if ne: "?u \<noteq> fmempty"
  proof -
    have "\<forall>p b. fmlookup ?u p = Some b \<longrightarrow> ad_peer_id b = p" using updated_sources_ok[OF assms(3,4)] by blast
    note set_o = ordered_sources(2)[OF this iter_order_id(1), folded ordered_sources_of_def]
    have "fmran' ?u \<noteq> {}" using ne by (metis fmap_ext fmempty_lookup fmran'I empty_iff option.exhaust)
    then have o: "ordered_sources_of a r \<noteq> []" using set_o by auto
    have each: "source_value b = v \<Longrightarrow> value_json v \<and> kind_of v = ad_kind a \<and> ident_of v = ad_id a \<and> utf8_valid (ad_peer_id b)"
      if b: "b \<in> set (ordered_sources_of a r)" for b v
    proof -
      obtain p where p: "fmlookup ?u p = Some b" using b set_o by (auto simp: fmlookup_ran'_iff)
      show "source_value b = v \<Longrightarrow> value_json v \<and> kind_of v = ad_kind a \<and> ident_of v = ad_id a \<and> utf8_valid (ad_peer_id b)"
        using updated_sources_ok[OF assms(3,4) p] clean_updated[OF assms(1,2) p] sourceKey_inj
        by (auto simp: clean_ad_def source_value_def)
    qed
    show ?thesis
      using each[OF hd_in_set[OF o] refl] each canonical_json[OF o] by (auto simp: kind_of_canonical ident_canonical)
  qed
  then show ?thesis using assms(2,5,6) by (simp add: mutation_ok_def clean_ad_def value_json_def utf8_ascii)
qed

lemma Reconciler_accepts:
  assumes "clean r" and "clean_ad a" and "sources_ok r" and "ad_ok a" and "iter_order it"
    and "utf8_valid (ad_id a)" and "utf8_valid (ad_domain_id a)" and "\<forall>j. ad_kind a \<noteq> ENTITY_KIND_OTHER j"
    and "\<And>ops. fst (db_commit P (st_db (rc_store r)) ops) = None"
  shows "\<exists>r' ev. Reconciler_Apply P it None now a r = (r', Inr ev)"
proof -
  let ?u = "updated_sources a r"
  define m where "m = \<lparr>mu_kind = ad_kind a, mu_id = ad_id a, mu_domain_id = ad_domain_id a,
     mu_peer_id = ad_peer_id a,
     mu_reason = (if ?u = fmempty then ''last source withdrawn'' else ''canonical topology reconciled''),
     mu_delete = (?u = fmempty), mu_value = (if ?u = fmempty then None else Some (canonical (ordered_sources_of a r)))\<rparr>"
  have "mutation_ok m" unfolding m_def by (rule Reconciler_mutation_ok[OF assms(1-4,6,7)])
  then have "\<exists>ev. snd (snd (Apply P None now m (rc_store r))) = Inr ev"
    using assms(4,8,9) by (intro Apply_succeeds_lemma) (auto simp: m_def ad_ok_def)
  then show ?thesis
    unfolding Reconciler_Apply_eq[OF assms(3-5)] Let_def m_def by (auto split: prod.splits)
qed

end
