(* ===== verification/Bgp_Path_Theorems.thy ===== *)
theory Bgp_Path_Theorems
  imports Bgp_Paths Accept_Theorems
begin

text \<open>
  Properties of the translation of BGP-LS paths: what an identifier depends on, the advertisements a
  path stands for, and that a withdrawal removes what the announcement of the same NLRI has added.
\<close>

section \<open>Identifiers\<close>

lemma hex_digit_inj: "d < 16 \<Longrightarrow> e < 16 \<Longrightarrow> hex_digit d = hex_digit e \<Longrightarrow> d = e"
  by (simp add: hex_digit_def nth_eq_iff_index_eq)

lemma hex_byte_inj: "hex_byte a = hex_byte b \<Longrightarrow> a = b"
proof -
  assume h: "hex_byte a = hex_byte b"
  have "unat a div 16 < 16" "unat b div 16 < 16" using unsigned_less[where 'a = nat, of a] unsigned_less[where 'a = nat, of b] by auto
  then have "unat a div 16 = unat b div 16" "unat a mod 16 = unat b mod 16"
    using h by (auto simp: hex_byte_def intro: hex_digit_inj)
  then show "a = b" by (metis div_mult_mod_eq unsigned_word_eqI)
qed

lemma EncodeToString_inj: "EncodeToString as = EncodeToString bs \<Longrightarrow> as = bs"
proof (induction as arbitrary: bs)
  case Nil
  then show ?case by (cases bs) (simp_all add: EncodeToString_def hex_byte_def)
next
  case (Cons a as)
  then obtain b bs' where bs: "bs = b # bs'" by (cases bs) (simp_all add: EncodeToString_def hex_byte_def)
  have "hex_byte a = hex_byte b \<and> EncodeToString as = EncodeToString bs'"
    using Cons.prems bs by (simp add: EncodeToString_def hex_byte_def)
  then show ?case using Cons.IH hex_byte_inj bs by blast
qed

lemma length_EncodeToString [simp]: "length (EncodeToString bs) = 2 * length bs"
  by (induction bs) (simp_all add: EncodeToString_def hex_byte_def)

lemma to_byte_inj: "to_byte c = to_byte d \<Longrightarrow> c = d"
proof -
  assume eq: "to_byte c = to_byte d"
  have "unat (to_byte c) = of_char c" for c
  proof -
    have "to_byte c = word_of_nat (of_char c)" by (simp add: to_byte_def of_nat_of_char)
    then have "unat (to_byte c) = of_char c mod 256" by (simp only: unsigned_of_nat) (simp add: take_bit_eq_mod)
    then show ?thesis by simp
  qed
  then show "c = d" using eq by (metis of_char_eq_iff)
qed

lemma bytes_of_inj: "bytes_of s = bytes_of t \<longleftrightarrow> s = t"
  using to_byte_inj by (auto simp: bytes_of_def inj_map_eq_map inj_def)

lemma join_inj:
  "length xs = length ys \<Longrightarrow> \<forall>x\<in>set xs \<union> set ys. c \<notin> set x \<Longrightarrow> join [c] xs = join [c] ys \<Longrightarrow> xs = ys"
proof (induction xs ys rule: list_induct2)
  case (Cons x xs y ys)
  show ?case
  proof (cases xs)
    case Nil
    then show ?thesis using Cons by simp
  next
    case (Cons x' xs')
    then obtain y' ys' where ys: "ys = y' # ys'" using \<open>length xs = length ys\<close> by (cases ys) auto
    have "x @ c # join [c] xs = y @ c # join [c] ys"
      using Cons.prems Cons ys by simp
    then have "x = y \<and> join [c] xs = join [c] ys"
      by (rule split_at_slash[rotated 2]) (use Cons.prems in auto)
    then show ?thesis using Cons.IH Cons.prems by auto
  qed
qed simp


lemma length_sha_rounds: "length v = 8 \<Longrightarrow> length (sha_rounds kws v) = 8"
  by (induction kws v rule: sha_rounds.induct) (simp_all add: Let_def)

lemma length_sha_blocks: "length hs = 8 \<Longrightarrow> length (sha_blocks n hs bs) = 8"
  by (induction n hs bs rule: sha_blocks.induct) (simp_all add: sha_block_def length_sha_rounds)

lemma length_Sum256 [simp]: "length (Sum256 bs) = 32"
proof -
  have eight: "length (sha_blocks n sha_init p) = 8" for n p by (rule length_sha_blocks) (simp add: sha_init_def)
  have "length (concat (map word_bytes ws)) = 4 * length ws" for ws by (induction ws) (simp_all add: word_bytes_def)
  then show ?thesis using eight by (simp add: Sum256_def Let_def)
qed

lemma length_stableID [simp]: "length (stableID parts) = 32"
  by (simp add: stableID_def)

lemma stableID_not_Nil [simp]: "stableID parts \<noteq> []"
  using length_stableID[of parts] by (metis list.size(3) zero_neq_numeral)

text \<open>The byte string under an identifier.\<close>

definition preimage :: "string list \<Rightarrow> u8 list" where
  "preimage parts = bytes_of (join [char_of (0::nat)] parts)"

definition no_NUL :: "string \<Rightarrow> bool" where
  "no_NUL s \<longleftrightarrow> char_of (0::nat) \<notin> set s"

lemma preimage_inj:
  "length xs = length ys \<Longrightarrow> list_all no_NUL (xs @ ys) \<Longrightarrow> preimage xs = preimage ys \<Longrightarrow> xs = ys"
  using join_inj[of xs ys "char_of (0::nat)"]
  by (auto simp: preimage_def bytes_of_inj list_all_iff no_NUL_def)

lemma stableID_eq_iff: "stableID xs = stableID ys \<longleftrightarrow> take 16 (Sum256 (preimage xs)) = take 16 (Sum256 (preimage ys))"
  using EncodeToString_inj by (auto simp: stableID_def preimage_def)

lemma digit_chars: "n < 10 \<Longrightarrow> no_NUL [digit_char n]"
  by (auto simp: no_NUL_def digit_char_def of_char_eq_iff dest!: arg_cong[of _ _ "of_char :: char \<Rightarrow> nat"])

lemma no_NUL_decimal [simp]: "no_NUL (decimal n)"
proof (induction n rule: decimal.induct)
  case (1 n)
  then show ?case using digit_chars[of "n mod 10"] digit_chars[of n]
    by (subst decimal.simps) (auto simp: no_NUL_def)
qed


section \<open>The entities of a path\<close>

lemma hd_sort: "xs \<noteq> [] \<Longrightarrow> hd (sort xs) = Min (set xs)" for xs :: "'a::linorder list"
proof -
  assume "xs \<noteq> []"
  then obtain y ys where ys: "sort xs = y # ys" by (metis list.exhaust set_empty set_sort)
  moreover have "sorted (sort xs)" by simp
  ultimately have "\<forall>x\<in>set (sort xs). hd (sort xs) \<le> x" "hd (sort xs) \<in> set (sort xs)" by auto
  then show ?thesis by (intro Min_eqI[symmetric]) auto
qed

lemma firstMT_Min:
  assumes "iter_order it"
  shows "firstMT it m = (if m = fmempty then 0 else Min (fmdom' m))"
proof -
  have empty: "keys_of m = [] \<longleftrightarrow> m = fmempty"
    by (metis fmdom'_empty fmrestrict_set_dom fmrestrict_set_null set_empty2 set_keys_of)
  have "of_int (hd (sort (map uint (it (keys_of m))))) = Min (fmdom' m)" if "m \<noteq> fmempty"
  proof -
    let ?K = "uint ` fmdom' m"
    have ne: "fmdom' m \<noteq> {}" using that empty by (metis set_empty set_keys_of)
    have set: "set (map uint (it (keys_of m))) = ?K" using assms by (simp add: iter_order_set)
    have fin: "finite (fmdom' m)" by simp
    have "map uint (it (keys_of m)) \<noteq> []" using ne set by (metis image_is_empty set_empty)
    from hd_sort[OF this] have "hd (sort (map uint (it (keys_of m)))) = Min ?K" unfolding set .
    also have "\<dots> = uint (Min (fmdom' m))"
      using mono_Min_commute[OF _ fin ne, of uint] by (simp add: mono_def word_le_def)
    finally show ?thesis by simp
  qed
  then show ?thesis by (simp add: firstMT_def empty)
qed


text \<open>
  The specification of a path: the identifiers and entities that its NLRI and its attributes describe.
\<close>

definition prefix_entities ::
  "world \<Rightarrow> string \<Rightarrow> LsPrefixNLRI \<Rightarrow> bool \<Rightarrow> LsAttribute option \<Rightarrow> RawTlv list \<Rightarrow> path_fault + (string \<times> entity) list" where
  "prefix_entities w domain n ipv6 attrs raw =
     bindR (bindR (descriptor ''prefix local descriptor is missing'' (pn_LocalNodeDesc n)) panics) (\<lambda>d.
     bindR (panics (pn_PrefixDesc n ipv6)) (\<lambda>pd.
       let origin = nodeID (w_ptext w) domain (pn_ProtocolID n) (pn_Identifier n) d;
           mt = firstMT (w_it16 w) (pfd_MultiTopoIDs pd)
       in Inr (map (\<lambda>(i, p). (i, PrefixE p))
            (map (prefix_entity w domain (pn_ProtocolID n) (pn_Identifier n) origin mt attrs raw) (pfd_IPReachability pd)))))"

definition nlri_entities ::
  "world \<Rightarrow> string \<Rightarrow> LsNLRI \<Rightarrow> LsAttribute option \<Rightarrow> RawTlv list \<Rightarrow> path_fault + (string \<times> entity) list" where
  "nlri_entities w domain nlri attrs raw = (case nlri of
     NodeNLRI (Some n) \<Rightarrow>
       bindR (bindR (descriptor ''node local descriptor is missing'' (nn_LocalNodeDesc n)) panics) (\<lambda>d.
         let i = nodeID (w_ptext w) domain (nn_ProtocolID n) (nn_Identifier n) d
         in Inr [(i, NodeE (nodeFrom d i domain (Protocol_of (unat (nn_ProtocolID n))) attrs raw))])
   | LinkNLRI (Some n) \<Rightarrow>
       bindR (link_descriptors n) (\<lambda>(local, remote, d).
         let l = nodeID (w_ptext w) domain (ln_ProtocolID n) (ln_Identifier n) local;
             m = nodeID (w_ptext w) domain (ln_ProtocolID n) (ln_Identifier n) remote;
             i = linkID (w_ptext w) domain n l m d
         in Inr [(i, LinkE (linkFrom (w_it16 w) i domain l m d attrs raw))])
   | PrefixV4NLRI (Some n) \<Rightarrow> prefix_entities w domain n False attrs raw
   | PrefixV6NLRI (Some n) \<Rightarrow> prefix_entities w domain n True attrs raw
   | OtherLsNLRI ty \<Rightarrow> Inl (PathError (Wrapf [] (Sentinel errUnsupportedNLRI) ('': '' @ ty)))
   | _ \<Rightarrow> Inl (PathPanic nil_dereference))"

definition path_entities :: "world \<Rightarrow> string \<Rightarrow> LsPath \<Rightarrow> path_fault + (string \<times> entity) list" where
  "path_entities w domain path = bindR (path_parts path) (\<lambda>(nlri, attrs, raw). nlri_entities w domain nlri attrs raw)"

text \<open>The entity as it is advertised: marked when the path is stale.\<close>

definition fresh :: "bool \<Rightarrow> entity \<Rightarrow> entity" where
  "fresh stale v = (if stale then the (mark_stale v) else v)"

fun advertise ::
  "'db pebble \<Rightarrow> world \<Rightarrow> Peer \<Rightarrow> bool \<Rightarrow> bool \<Rightarrow> (string \<times> entity) list \<Rightarrow> 'db Reconciler
    \<Rightarrow> 'db Reconciler \<times> (path_fault + unit)" where
  "advertise P w peer withdraw stale [] r = (r, Inr ())"
| "advertise P w peer withdraw stale ((i, v) # es) r =
     (case apply_ad P w peer withdraw (kind_of v) i (fresh stale v) r of
        (r', Inl f) \<Rightarrow> (r', Inl f) | (r', Inr u) \<Rightarrow> advertise P w peer withdraw stale es r')"

lemma setFreshness_fresh: "mark_stale v \<noteq> None \<Longrightarrow> panics (setFreshness stale v) = Inr (fresh stale v)"
  by (auto simp: setFreshness_def panics_def fresh_def)

lemma stale_meta [simp]:
  "nd_meta n \<noteq> None \<Longrightarrow> mark_stale (NodeE n) \<noteq> None"
  "lk_meta l \<noteq> None \<Longrightarrow> mark_stale (LinkE l) \<noteq> None"
  "px_meta p \<noteq> None \<Longrightarrow> mark_stale (PrefixE p) \<noteq> None"
  by (simp_all add: mark_stale_def)

lemma metas [simp]:
  "nd_meta (nodeFrom d i domain pro attrs raw) = Some (active_meta i domain raw)"
  "lk_meta (linkFrom it i domain l m ld attrs raw) = Some (active_meta i domain raw)"
  "px_meta (snd (prefix_entity w domain pid ident origin mt attrs raw network)) =
     Some (active_meta (fst (prefix_entity w domain pid ident origin mt attrs raw network)) domain raw)"
  by (auto simp: nodeFrom_def linkFrom_def prefix_entity_def Let_def split: option.splits)

lemma prefix_loop_advertise:
  assumes "\<forall>(i, p)\<in>set ps. px_meta p \<noteq> None"
  shows "prefix_loop P w peer withdraw stale ps r =
    advertise P w peer withdraw stale (map (\<lambda>(i, p). (i, PrefixE p)) ps) r"
  using assms by (induction P w peer withdraw stale ps r rule: prefix_loop.induct)
    (auto simp: setFreshness_fresh split: sum.splits prod.splits)

lemma prefix_metas:
  "\<forall>(i, p)\<in>set (map (prefix_entity w domain pid ident origin mt attrs raw) networks). px_meta p \<noteq> None"
  by (auto simp: prefix_entity_def Let_def)

lemma handlePath_advertise:
  "handlePath P w peer path r = (case path_entities w (pr_domain_id peer) path of Inl f \<Rightarrow> (r, Inl f)
     | Inr es \<Rightarrow> advertise P w peer (pa_Withdrawal path) (pa_Stale path) es r)"
proof -
  have pre: "applyPrefixes P w peer wd st n six attrs raw r = (case prefix_entities w (pr_domain_id peer) n six attrs raw of
      Inl f \<Rightarrow> (r, Inl f) | Inr es \<Rightarrow> advertise P w peer wd st es r)" for wd st n six attrs raw
    unfolding applyPrefixes_def prefix_entities_def Let_def
    by (auto simp: prefix_loop_advertise[OF prefix_metas] bindR_def simp del: map_map split: sum.splits prod.splits)
  have node: "handle_node P w peer wd st n attrs raw r = (case nlri_entities w (pr_domain_id peer) (NodeNLRI (Some n)) attrs raw of
      Inl f \<Rightarrow> (r, Inl f) | Inr es \<Rightarrow> advertise P w peer wd st es r)" for wd st n attrs raw
    by (auto simp: handle_node_def nlri_entities_def setFreshness_fresh bindR_def Let_def split: sum.splits prod.splits)
  have link: "handle_link P w peer wd st n attrs raw r = (case nlri_entities w (pr_domain_id peer) (LinkNLRI (Some n)) attrs raw of
      Inl f \<Rightarrow> (r, Inl f) | Inr es \<Rightarrow> advertise P w peer wd st es r)" for wd st n attrs raw
    by (auto simp: handle_link_def nlri_entities_def setFreshness_fresh bindR_def Let_def split: sum.splits prod.splits)
  show ?thesis
    unfolding handlePath_def path_entities_def
    by (cases "path_parts path") (auto simp: node link pre nlri_entities_def split: LsNLRI.splits option.splits)
qed


definition entity_key :: "string \<times> entity \<Rightarrow> EntityKind \<times> string" where
  "entity_key e = (kind_of (snd e), fst e)"

lemma panics_Inr [simp]: "panics r = Inr x \<longleftrightarrow> r = Inr x"
  by (cases r) (simp_all add: panics_def)

lemma path_entities_Inr:
  "path_entities w domain path = Inr es \<longleftrightarrow> (\<exists>nlri attrs protocol raw. nlri_of (pa_Nlri path) = Inr nlri \<and>
     extractAttributes (pa_Attrs path) = Inr attrs \<and> addrProtocol nlri = Inr protocol \<and>
     decodedAttributeTLVs (pa_Attrs path) = Inr raw \<and> nlri_entities w domain nlri attrs raw = Inr es)"
  by (auto simp: path_entities_def path_parts_def bindR_Inr_iff)

lemma prefix_keys:
  assumes "w_ptext w1 = w_ptext w2" and "iter_order (w_it16 w1)" and "iter_order (w_it16 w2)"
    and "prefix_entities w1 d n six a1 r1 = Inr es1" and "prefix_entities w2 d n six a2 r2 = Inr es2"
  shows "map entity_key es1 = map entity_key es2"
  using assms(4,5)
  by (auto simp: prefix_entities_def bindR_Inr_iff Let_def assms(1) firstMT_Min[OF assms(2)] firstMT_Min[OF assms(3)]
      prefix_entity_def entity_key_def)

lemma path_keys:
  assumes "pa_Nlri p1 = pa_Nlri p2" and "w_ptext w1 = w_ptext w2" and "iter_order (w_it16 w1)" and "iter_order (w_it16 w2)"
    and "path_entities w1 d p1 = Inr es1" and "path_entities w2 d p2 = Inr es2"
  shows "map entity_key es1 = map entity_key es2"
proof -
  obtain nlri a1 r1 a2 r2 where e1: "nlri_entities w1 d nlri a1 r1 = Inr es1" and e2: "nlri_entities w2 d nlri a2 r2 = Inr es2"
    using assms(5,6) unfolding path_entities_Inr assms(1) by auto
  show ?thesis
  proof (cases nlri)
    case (PrefixV4NLRI n)
    then show ?thesis using e1 e2 prefix_keys[OF assms(2-4)] by (cases n) (auto simp: nlri_entities_def)
  next
    case (PrefixV6NLRI n)
    then show ?thesis using e1 e2 prefix_keys[OF assms(2-4)] by (cases n) (auto simp: nlri_entities_def)
  qed (use e1 e2 in \<open>auto simp: nlri_entities_def bindR_Inr_iff Let_def entity_key_def assms(2) split: option.splits\<close>)
qed

lemma active_meta_id [simp]: "em_id (active_meta i domain raw) = i" "em_domain_id (active_meta i domain raw) = domain"
  by (simp_all add: active_meta_def)

lemma nlri_entities_ok:
  assumes "nlri_entities w domain nlri attrs raw = Inr es" and "(i, v) \<in> set es"
  shows "ident_of v = i \<and> length i = 32 \<and> mark_stale v \<noteq> None \<and>
    kind_of v \<in> {ENTITY_KIND_NODE, ENTITY_KIND_LINK, ENTITY_KIND_PREFIX}"
proof -
  have pre: "ident_of v = i \<and> length i = 32 \<and> mark_stale v \<noteq> None \<and> kind_of v = ENTITY_KIND_PREFIX"
    if "prefix_entities w domain n six attrs raw = Inr es" for n six
    using that assms(2)
    by (auto simp: prefix_entities_def bindR_Inr_iff Let_def prefix_entity_def prefix_id_def mark_stale_def)
  show ?thesis
    using assms pre
    by (cases nlri) (auto simp: nlri_entities_def bindR_Inr_iff Let_def node_id_def link_id_def nodeID_def linkID_def
        mark_stale_def split: option.splits)
qed

lemma kind_fresh [simp]: "mark_stale v \<noteq> None \<Longrightarrow> kind_of (fresh stale v) = kind_of v"
  by (cases v) (auto simp: fresh_def mark_stale_def)

section \<open>The effect on the store\<close>

text \<open>
  The store mirrors the sources of an entity when it holds their canonical merge, or nothing when
  there is no source.
\<close>

definition mirrored :: "'db Reconciler \<Rightarrow> EntityKind \<times> string \<Rightarrow> bool" where
  "mirrored r key \<longleftrightarrow> (let m = sources_of r (sourceKey (fst key) (snd key)) in
     if m = fmempty then Get (rc_store r) (fst key) (snd key) = Inl (Sentinel ErrNotFound)
     else \<exists>rev now. Get (rc_store r) (fst key) (snd key) =
       Inr (setRevision rev now (canonical (sort_key preference_key (range_values id m)))))"

definition source_of :: "'db Reconciler \<Rightarrow> EntityKind \<times> string \<Rightarrow> string \<Rightarrow> Advertisement option" where
  "source_of r key peer = fmlookup (sources_of r (sourceKey (fst key) (snd key))) peer"

definition path_ad :: "Peer \<Rightarrow> bool \<Rightarrow> string \<Rightarrow> entity \<Rightarrow> Advertisement" where
  "path_ad peer withdraw i v = \<lparr>ad_kind = kind_of v, ad_id = i, ad_domain_id = pr_domain_id peer, ad_peer_id = pr_id peer,
     ad_preference = pr_source_preference peer, ad_withdraw = withdraw, ad_value = Some v\<rparr>"

text \<open>What one advertisement does when the store accepts it.\<close>

lemma apply_ad_effect:
  assumes "pebble_laws P cont" and "sources_ok r" and "iter_order (w_it w)" and "pr_id peer \<noteq> []" and "i \<noteq> []"
    and "apply_ad P w peer withdraw (kind_of v) i v r = (r', Inr u)"
  shows "sources_ok r' \<and> mirrored r' (kind_of v, i) \<and>
    source_of r' (kind_of v, i) (pr_id peer) = (if withdraw then None else Some (path_ad peer withdraw i v)) \<and>
    (\<forall>key q. (key, q) \<noteq> ((kind_of v, i), pr_id peer) \<longrightarrow> source_of r' key q = source_of r key q) \<and>
    (\<forall>key. key \<noteq> (kind_of v, i) \<longrightarrow> Get (rc_store r') (fst key) (snd key) = Get (rc_store r) (fst key) (snd key) \<and>
       (mirrored r' key \<longleftrightarrow> mirrored r key))"
proof -
  let ?a = "path_ad peer withdraw i v"
  obtain ev where run: "Reconciler_Apply P (w_it w) (w_ctx w) (w_now w) ?a r = (r', Inr ev)"
    using assms(6) by (auto simp: apply_ad_def path_ad_def split: prod.splits sum.splits)
  have ok: "ad_ok ?a" using assms(4,5) by (simp add: ad_ok_def path_ad_def)
  have key: "sourceKey (fst key) (snd key) = sourceKey (kind_of v) i \<longleftrightarrow> key = (kind_of v, i)" for key
    using sourceKey_inj[of "fst key" "snd key"] by (cases key) auto
  note eff = Reconciler_Apply_rule[OF assms(1,2) ok assms(3) run]
  have src: "sources_of r' (sourceKey (kind_of v) i) = updated_sources ?a r"
    and others: "\<And>k. k \<noteq> sourceKey (kind_of v) i \<Longrightarrow> sources_of r' k = sources_of r k"
    and get: "Get (rc_store r') (kind_of v) i = (if updated_sources ?a r = fmempty then Inl (Sentinel ErrNotFound)
         else Inr (setRevision (st_revision (rc_store r')) (w_now w) (canonical (ordered_sources_of ?a r))))"
    and gets: "\<And>k j. (k, j) \<noteq> (kind_of v, i) \<Longrightarrow> Get (rc_store r') k j = Get (rc_store r) k j"
    using eff by (auto simp: path_ad_def)
  have "mirrored r' (kind_of v, i)"
    using get by (auto simp: mirrored_def src ordered_sources_of_def Let_def)
  moreover have "source_of r' key q = (if (key, q) = ((kind_of v, i), pr_id peer)
      then (if withdraw then None else Some ?a) else source_of r key q)" for key q
    using others[of "sourceKey (fst key) (snd key)"] key[of key] src
    by (auto simp: source_of_def updated_sources_def path_ad_def Let_def)
  moreover have "mirrored r' k \<longleftrightarrow> mirrored r k" if "k \<noteq> (kind_of v, i)" for k
    using others[of "sourceKey (fst k) (snd k)"] key[of k] gets[of "fst k" "snd k"] that by (simp add: mirrored_def)
  ultimately show ?thesis using eff gets by auto
qed


definition source_entity :: "Peer \<Rightarrow> bool \<Rightarrow> bool \<Rightarrow> (string \<times> entity) list \<Rightarrow> EntityKind \<times> string \<Rightarrow> Advertisement option \<Rightarrow> bool" where
  "source_entity peer withdraw stale es key src \<longleftrightarrow> (if withdraw then src = None
     else \<exists>(i, v)\<in>set es. entity_key (i, v) = key \<and> src = Some (path_ad peer False i (fresh stale v)))"

text \<open>
  What advertising entities does: their sources and their merges in the store change, for this peer,
  and nothing else.
\<close>

definition advertised ::
  "Peer \<Rightarrow> bool \<Rightarrow> bool \<Rightarrow> (string \<times> entity) list \<Rightarrow> 'db Reconciler \<Rightarrow> 'db Reconciler \<Rightarrow> bool" where
  "advertised peer withdraw stale es r r' \<longleftrightarrow>
     (\<forall>key\<in>set (map entity_key es). mirrored r' key \<and>
        source_entity peer withdraw stale es key (source_of r' key (pr_id peer))) \<and>
     (\<forall>key q. key \<notin> set (map entity_key es) \<or> q \<noteq> pr_id peer \<longrightarrow> source_of r' key q = source_of r key q) \<and>
     (\<forall>key. key \<notin> set (map entity_key es) \<longrightarrow>
        Get (rc_store r') (fst key) (snd key) = Get (rc_store r) (fst key) (snd key) \<and> (mirrored r' key \<longleftrightarrow> mirrored r key))"

lemma advertisedD:
  assumes "advertised peer withdraw stale es r r'"
  shows "key \<in> set (map entity_key es) \<Longrightarrow> mirrored r' key"
    and "key \<in> set (map entity_key es) \<Longrightarrow> source_entity peer withdraw stale es key (source_of r' key (pr_id peer))"
    and "key \<notin> set (map entity_key es) \<or> q \<noteq> pr_id peer \<Longrightarrow> source_of r' key q = source_of r key q"
    and "key \<notin> set (map entity_key es) \<Longrightarrow> Get (rc_store r') (fst key) (snd key) = Get (rc_store r) (fst key) (snd key)"
    and "key \<notin> set (map entity_key es) \<Longrightarrow> mirrored r' key \<longleftrightarrow> mirrored r key"
  using assms unfolding advertised_def by blast+

lemma advertised_Cons:
  assumes "sources_ok r1 \<and> mirrored r1 (entity_key (i, v)) \<and>
    source_of r1 (entity_key (i, v)) (pr_id peer) = (if withdraw then None else Some (path_ad peer withdraw i (fresh stale v))) \<and>
    (\<forall>key q. (key, q) \<noteq> (entity_key (i, v), pr_id peer) \<longrightarrow> source_of r1 key q = source_of r key q) \<and>
    (\<forall>key. key \<noteq> entity_key (i, v) \<longrightarrow> Get (rc_store r1) (fst key) (snd key) = Get (rc_store r) (fst key) (snd key) \<and>
       (mirrored r1 key \<longleftrightarrow> mirrored r key))"
    and "advertised peer withdraw stale es r1 r'"
  shows "advertised peer withdraw stale ((i, v) # es) r r'"
proof -
  note frame = advertisedD(3)[OF assms(2)] and frame2 = advertisedD(4,5)[OF assms(2)]
  have "mirrored r' key \<and> source_entity peer withdraw stale ((i, v) # es) key (source_of r' key (pr_id peer))"
    if "key \<in> set (map entity_key ((i, v) # es))" for key
  proof (cases "key \<in> set (map entity_key es)")
    case True
    then show ?thesis using advertisedD(1,2)[OF assms(2), of key] by (auto simp: source_entity_def)
  next
    case False
    then have "key = entity_key (i, v)" using that by simp
    then show ?thesis using frame[of key "pr_id peer"] frame2[of key] assms(1) False by (auto simp: source_entity_def)
  qed
  then show ?thesis using frame frame2 assms(1) unfolding advertised_def by auto
qed

lemma advertise_effect:
  assumes "pebble_laws P cont" and "iter_order (w_it w)" and "pr_id peer \<noteq> []"
  shows "sources_ok r \<Longrightarrow> \<forall>(i, v)\<in>set es. i \<noteq> [] \<and> mark_stale v \<noteq> None \<Longrightarrow>
    advertise P w peer withdraw stale es r = (r', Inr u) \<Longrightarrow> sources_ok r' \<and> advertised peer withdraw stale es r r'"
proof (induction es arbitrary: r)
  case Nil
  then show ?case by (simp add: advertised_def)
next
  case (Cons e es)
  obtain i v where e: "e = (i, v)" by (cases e)
  with Cons.prems(2) have iv: "i \<noteq> []" "mark_stale v \<noteq> None" by auto
  obtain r1 where step: "apply_ad P w peer withdraw (kind_of v) i (fresh stale v) r = (r1, Inr ())"
    and rest: "advertise P w peer withdraw stale es r1 = (r', Inr u)"
    using Cons.prems(3) e by (auto split: prod.splits sum.splits)
  note one = apply_ad_effect[OF assms(1) Cons.prems(1) assms(2,3) iv(1), of withdraw "fresh stale v" r1 "()"]
  from step have eff: "sources_ok r1 \<and> mirrored r1 (entity_key (i, v)) \<and>
    source_of r1 (entity_key (i, v)) (pr_id peer) = (if withdraw then None else Some (path_ad peer withdraw i (fresh stale v))) \<and>
    (\<forall>key q. (key, q) \<noteq> (entity_key (i, v), pr_id peer) \<longrightarrow> source_of r1 key q = source_of r key q) \<and>
    (\<forall>key. key \<noteq> entity_key (i, v) \<longrightarrow> Get (rc_store r1) (fst key) (snd key) = Get (rc_store r) (fst key) (snd key) \<and>
       (mirrored r1 key \<longleftrightarrow> mirrored r key))"
    using one by (simp add: entity_key_def kind_fresh[OF iv(2)])
  have "sources_ok r' \<and> advertised peer withdraw stale es r1 r'"
    using Cons.IH[of r1] Cons.prems(2) eff rest by auto
  then show ?case using advertised_Cons[OF eff] e by blast
qed

lemma path_entities_ok:
  assumes "path_entities w domain path = Inr es"
  shows "\<forall>(i, v)\<in>set es. i \<noteq> [] \<and> mark_stale v \<noteq> None"
  using assms nlri_entities_ok unfolding path_entities_Inr by fastforce

lemma handlePath_rule:
  assumes "pebble_laws P cont" and "sources_ok r" and "iter_order (w_it w)" and "pr_id peer \<noteq> []"
    and "handlePath P w peer path r = (r', Inr ())"
  shows "\<exists>es. path_entities w (pr_domain_id peer) path = Inr es \<and> sources_ok r' \<and>
    advertised peer (pa_Withdrawal path) (pa_Stale path) es r r'"
proof -
  obtain es where es: "path_entities w (pr_domain_id peer) path = Inr es"
    and run: "advertise P w peer (pa_Withdrawal path) (pa_Stale path) es r = (r', Inr ())"
    using assms(5) unfolding handlePath_advertise by (auto split: sum.splits)
  show ?thesis
    using es advertise_effect[OF assms(1,3,4,2) path_entities_ok[OF es] run] by blast
qed


text \<open>
  C5. A withdrawal takes back its announcement. When a peer announces an NLRI and later withdraws it,
  with whatever attributes, no source of the peer is left at the entities of the NLRI; an entity that
  no other peer advertises is gone from the store, and one that others advertise is again their merge.
  All other entities are as they were before the announcement.
\<close>

theorem withdrawal_removes:
  assumes "pebble_laws P cont" and "sources_ok r" and "pr_id peer \<noteq> []"
    and "\<And>k. iter_order (w_it (w k))" and "\<And>k. iter_order (w_it16 (w k))" and "\<And>k. w_ptext (w k) = ptext"
    and "pa_Nlri withdrawn = pa_Nlri announced" and "pa_Withdrawal withdrawn"
    and "handlePath P (w 0) peer announced r = (r1, Inr ())"
    and "handlePath P (w (Suc 0)) peer withdrawn r1 = (r2, Inr ())"
  shows "\<exists>es. path_entities (w 0) (pr_domain_id peer) announced = Inr es \<and>
    (\<forall>key\<in>set (map entity_key es). source_of r2 key (pr_id peer) = None \<and> mirrored r2 key \<and>
       (\<forall>q. q \<noteq> pr_id peer \<longrightarrow> source_of r2 key q = source_of r key q) \<and>
       ((\<forall>q. q \<noteq> pr_id peer \<longrightarrow> source_of r key q = None) \<longrightarrow>
          Get (rc_store r2) (fst key) (snd key) = Inl (Sentinel ErrNotFound))) \<and>
    (\<forall>key. key \<notin> set (map entity_key es) \<longrightarrow>
       Get (rc_store r2) (fst key) (snd key) = Get (rc_store r) (fst key) (snd key) \<and>
       (\<forall>q. source_of r2 key q = source_of r key q))"
proof -
  obtain es where es: "path_entities (w 0) (pr_domain_id peer) announced = Inr es"
    and r1: "sources_ok r1" "advertised peer (pa_Withdrawal announced) (pa_Stale announced) es r r1"
    using handlePath_rule[OF assms(1,2) assms(4)[of 0] assms(3) assms(9)] by blast
  obtain es' where es': "path_entities (w (Suc 0)) (pr_domain_id peer) withdrawn = Inr es'"
    and r2: "sources_ok r2" "advertised peer True (pa_Stale withdrawn) es' r1 r2"
    using handlePath_rule[OF assms(1) r1(1) assms(4)[of "Suc 0"] assms(3) assms(10)] assms(8) by auto
  have keys: "map entity_key es' = map entity_key es"
    using path_keys[OF assms(7) _ assms(5)[of "Suc 0"] assms(5)[of 0] es' es] assms(6)[of "Suc 0"] assms(6)[of 0] by simp
  have gone: "Get (rc_store r2) (fst key) (snd key) = Inl (Sentinel ErrNotFound)"
    if "mirrored r2 key" "\<forall>q. source_of r2 key q = None" for key
  proof -
    have "sources_of r2 (sourceKey (fst key) (snd key)) = fmempty"
      using that(2) by (intro fmap_ext) (simp add: source_of_def)
    then show ?thesis using that(1) by (simp add: mirrored_def)
  qed
  have "source_of r2 key (pr_id peer) = None \<and> mirrored r2 key \<and>
      (\<forall>q. q \<noteq> pr_id peer \<longrightarrow> source_of r2 key q = source_of r key q)" if "key \<in> set (map entity_key es)" for key
    using advertisedD[OF r1(2), of key] advertisedD[OF r2(2), of key] that unfolding source_entity_def keys by simp
  moreover have "Get (rc_store r2) (fst key) (snd key) = Get (rc_store r) (fst key) (snd key) \<and>
      (\<forall>q. source_of r2 key q = source_of r key q)" if "key \<notin> set (map entity_key es)" for key
    using advertisedD[OF r1(2), of key] advertisedD[OF r2(2), of key] that unfolding keys by simp
  ultimately show ?thesis using es gone by (metis (no_types, lifting))
qed

section \<open>Acceptance\<close>

lemma ascii_EncodeToString [simp]: "ascii (EncodeToString bs)"
proof -
  have "list_all (\<lambda>n. ascii [hex_digit n]) [0..<16]" by code_simp
  then have "n < 16 \<Longrightarrow> ascii [hex_digit n]" for n by (simp add: list_all_iff)
  then have "ascii (hex_byte b)" for b
    using unsigned_less[where 'a = nat, of b] by (auto simp: hex_byte_def)
  then show ?thesis by (induction bs) (simp_all add: EncodeToString_def)
qed

lemma ascii_stableID [simp]: "ascii (stableID parts)"
  by (simp add: stableID_def)

text \<open>A path that can be written as JSON, and a peer whose identifiers can.\<close>

definition clean_path :: "world \<Rightarrow> Peer \<Rightarrow> LsPath \<Rightarrow> bool" where
  "clean_path w peer path \<longleftrightarrow> pr_id peer \<noteq> [] \<and> utf8_valid (pr_id peer) \<and> utf8_valid (pr_domain_id peer) \<and>
     (case path_entities w (pr_domain_id peer) path of Inl f \<Rightarrow> False
      | Inr es \<Rightarrow> list_all (\<lambda>(i, v). value_json (fresh (pa_Stale path) v)) es)"

lemma ident_fresh [simp]: "mark_stale v \<noteq> None \<Longrightarrow> ident_of (fresh stale v) = ident_of v"
  by (cases v) (auto simp: fresh_def mark_stale_def node_id_def link_id_def prefix_id_def)

lemma advertise_accepts:
  assumes "iter_order (w_it w)" and "w_ctx w = None" and "pr_id peer \<noteq> []" and "utf8_valid (pr_id peer)"
    and "utf8_valid (pr_domain_id peer)" and "\<And>db ops. fst (db_commit P db ops) = None"
  shows "clean r \<Longrightarrow> sources_ok r \<Longrightarrow> \<forall>(i, v)\<in>set es. ascii i \<and> i \<noteq> [] \<and> ident_of v = i \<and> mark_stale v \<noteq> None \<and>
      value_json (fresh stale v) \<Longrightarrow>
    \<exists>r'. advertise P w peer withdraw stale es r = (r', Inr ()) \<and> clean r' \<and> sources_ok r'"
proof (induction es arbitrary: r)
  case (Cons e es)
  obtain i v where e: "e = (i, v)" by (cases e)
  with Cons.prems(3) have iv: "ascii i" "i \<noteq> []" "ident_of v = i" "mark_stale v \<noteq> None" "value_json (fresh stale v)" by auto
  let ?a = "path_ad peer withdraw i (fresh stale v)"
  have ok: "ad_ok ?a" "clean_ad ?a" "\<forall>j. ad_kind ?a \<noteq> ENTITY_KIND_OTHER j"
    using assms(3,4) iv by (simp_all add: ad_ok_def clean_ad_def path_ad_def) (cases v; simp)
  obtain r1 ev where run: "Reconciler_Apply P (w_it w) None (w_now w) ?a r = (r1, Inr ev)"
    using Reconciler_accepts[OF Cons.prems(1) ok(2) Cons.prems(2) ok(1) assms(1) _ _ ok(3), of P "w_now w"] assms(5,6) iv(1)
    by (auto simp: path_ad_def utf8_ascii)
  have "apply_ad P w peer withdraw (kind_of v) i (fresh stale v) r = (r1, Inr ())"
    using run by (simp add: apply_ad_def path_ad_def assms(2) kind_fresh[OF iv(4)])
  then show ?case
    using Cons.IH[of r1] clean_after[OF Cons.prems(1) ok(2) Cons.prems(2) ok(1) assms(1) run]
      sources_after(1)[OF Cons.prems(2) ok(1) assms(1) run] Cons.prems(3) e by auto
qed simp


lemma path_entities_fields:
  assumes "path_entities w domain path = Inr es" and "(i, v) \<in> set es"
  shows "ascii i \<and> i \<noteq> [] \<and> ident_of v = i \<and> mark_stale v \<noteq> None"
proof -
  obtain nlri attrs raw where n: "nlri_entities w domain nlri attrs raw = Inr es"
    using assms(1) unfolding path_entities_Inr by blast
  have "\<exists>parts. i = stableID parts"
    using n assms(2) by (cases nlri) (auto simp: nlri_entities_def prefix_entities_def prefix_entity_def bindR_Inr_iff Let_def
        nodeID_def linkID_def split: option.splits)
  then show ?thesis using nlri_entities_ok[OF n assms(2)] by auto
qed

lemma handlePath_accepts:
  assumes "clean_path w peer path" and "clean r" and "sources_ok r" and "iter_order (w_it w)" and "w_ctx w = None"
    and "\<And>db ops. fst (db_commit P db ops) = None"
  shows "\<exists>r'. handlePath P w peer path r = (r', Inr ()) \<and> clean r' \<and> sources_ok r'"
proof -
  obtain es where es: "path_entities w (pr_domain_id peer) path = Inr es"
    and json: "\<forall>(i, v)\<in>set es. value_json (fresh (pa_Stale path) v)"
    using assms(1) by (auto simp: clean_path_def list_all_iff split: sum.splits)
  have "\<forall>(i, v)\<in>set es. ascii i \<and> i \<noteq> [] \<and> ident_of v = i \<and> mark_stale v \<noteq> None \<and> value_json (fresh (pa_Stale path) v)"
    using json path_entities_fields[OF es] by auto
  then show ?thesis
    unfolding handlePath_advertise es sum.case using assms by (intro advertise_accepts) (simp_all add: clean_path_def)
qed

text \<open>
  C24. The collector takes every path it can represent: on a database that commits, and as long as
  everything that the peers have advertised before can be carried by JSON, a path whose entities JSON can
  carry, from a peer with an identifier, is handled without an error, and all that is then advertised can
  be carried again, so that the next such path is accepted too. One source that cannot be carried, of any
  peer, is enough to have the path refused.
\<close>

theorem handlePath_accepted:
  assumes "clean_path w peer path" and "clean r" and "sources_ok r" and "iter_order (w_it w)" and "w_ctx w = None"
    and "\<And>db ops. fst (db_commit P db ops) = None"
  shows "\<exists>r'. handlePath P w peer path r = (r', Inr ()) \<and> clean r' \<and> sources_ok r'"
  by (rule handlePath_accepts[OF assms])

definition sample_world :: world where
  "sample_world = \<lparr>w_ptext = (\<lambda>p. ''IS-IS''), w_it = id, w_it16 = id, w_ctx = None, w_now = 10, w_later = 11\<rparr>"

definition sample_descriptor :: LsNodeDescriptor where
  "sample_descriptor = \<lparr>nod_Asn = 65000, nod_BGPLsID = 7, nod_OspfAreaID = 1, nod_PseudoNode = False,
     nod_IGPRouterID = ''0000.0000.0001'', nod_BGPRouterID = NoAddr, nod_BGPConfederationMember = 0\<rparr>"

definition sample_node_path :: "bool \<Rightarrow> LsPath" where
  "sample_node_path withdraw = \<lparr>pa_LS = True, pa_PeerAddress = Addr4 0x0A000001, pa_Withdrawal = withdraw,
     pa_Stale = False, pa_Nlri = LsAddrPrefix (Some (Some (NodeNLRI (Some \<lparr>nn_ProtocolID = 2, nn_Identifier = 7,
       nn_LocalNodeDesc = NodeDescriptorTLV (Some (Inr sample_descriptor))\<rparr>)))), pa_Attrs = []\<rparr>"

definition bgp_peer :: "string \<Rightarrow> string \<Rightarrow> Peer" where
  "bgp_peer i address = zero_Peer\<lparr>pr_id := i, pr_domain_id := ''d'', pr_remote_address := address, pr_local_as := 65000,
     pr_remote_as := 65000, pr_enabled := True\<rparr>"

definition sample_nodeID :: string where
  "sample_nodeID = nodeID (\<lambda>p. ''IS-IS'') ''d'' 2 7 sample_descriptor"

lemma sample_path_entities:
  "path_entities sample_world ''d'' (sample_node_path withdraw) =
     Inr [(sample_nodeID, NodeE (nodeFrom sample_descriptor sample_nodeID ''d'' PROTOCOL_ISIS_LEVEL_2 None []))]"
  by (simp add: path_entities_def path_parts_def sample_node_path_def nlri_of_def panics_def nlri_entities_def descriptor_def
      sample_world_def Protocol_of_def sample_nodeID_def Let_def)

lemma sample_path_clean: "clean_path sample_world (bgp_peer ''p'' a) (sample_node_path withdraw)"
proof -
  have "ascii sample_nodeID" by (simp add: sample_nodeID_def nodeID_def)
  then have "value_json (NodeE (nodeFrom sample_descriptor sample_nodeID ''d'' PROTOCOL_ISIS_LEVEL_2 None []))"
    by (simp add: Node_json meta_or_new_def meta_json_iff nodeFrom_def areaID_def sample_descriptor_def formatAddr_def
        zero_Node_def active_meta_def zero_EntityMeta_def utf8_ascii)
  moreover have "pr_domain_id (bgp_peer ''p'' a) = ''d''" by (simp add: bgp_peer_def)
  ultimately show ?thesis
    by (simp add: clean_path_def sample_path_entities fresh_def) (simp add: bgp_peer_def utf8_ascii sample_node_path_def)
qed

lemma fresh_reconciler_clean: "clean fresh_reconciler"
  by (simp add: clean_def fresh_reconciler_def NewReconciler_def sources_of_def)

lemma memory_commits: "fst (db_commit memory_pebble db ops) = None"
  by (simp add: memory_pebble_def)

lemma sample_world_simps [simp]: "iter_order (w_it sample_world)" "iter_order (w_it16 sample_world)" "w_ctx sample_world = None"
  by (simp_all add: sample_world_def)

theorem handlePath_accepted_witness:
  "\<exists>r'. handlePath memory_pebble sample_world (bgp_peer ''p'' ''10.0.0.1'') (sample_node_path False) fresh_reconciler = (r', Inr ())"
  using handlePath_accepted[OF sample_path_clean fresh_reconciler_clean fresh_reconciler_ok _ _ memory_commits] by fastforce

theorem withdrawal_removes_witness:
  "\<exists>r1 r2. handlePath memory_pebble sample_world (bgp_peer ''p'' ''10.0.0.1'') (sample_node_path False) fresh_reconciler = (r1, Inr ()) \<and>
     handlePath memory_pebble sample_world (bgp_peer ''p'' ''10.0.0.1'') (sample_node_path True) r1 = (r2, Inr ()) \<and>
     Get (rc_store r2) ENTITY_KIND_NODE sample_nodeID = Inl (Sentinel ErrNotFound)"
proof -
  let ?p = "bgp_peer ''p'' ''10.0.0.1''" and ?key = "(ENTITY_KIND_NODE, sample_nodeID)"
  obtain r1 where r1: "handlePath memory_pebble sample_world ?p (sample_node_path False) fresh_reconciler = (r1, Inr ())"
    "clean r1" "sources_ok r1"
    using handlePath_accepts[OF sample_path_clean fresh_reconciler_clean fresh_reconciler_ok _ _ memory_commits] by fastforce
  obtain r2 where r2: "handlePath memory_pebble sample_world ?p (sample_node_path True) r1 = (r2, Inr ())"
    using handlePath_accepts[OF sample_path_clean r1(2,3) _ _ memory_commits] by fastforce
  have id: "pr_id ?p \<noteq> []" "pr_domain_id ?p = ''d''" by (simp_all add: bgp_peer_def)
  have none: "source_of fresh_reconciler ?key q = None" for q
    by (simp add: source_of_def fresh_reconciler_def NewReconciler_def sources_of_def)
  have "Get (rc_store r2) ENTITY_KIND_NODE sample_nodeID = Inl (Sentinel ErrNotFound)"
    using withdrawal_removes[OF memory_pebble_laws(1) fresh_reconciler_ok id(1), where w = "\<lambda>k. sample_world" and
        announced = "sample_node_path False" and withdrawn = "sample_node_path True", OF _ _ refl _ _ r1(1) r2] none
    by (simp add: id(2) sample_path_entities entity_key_def) (simp add: sample_node_path_def)
  then show ?thesis using r1(1) r2 by blast
qed

text \<open>
  C14. Handling a path that succeeds: the path describes entities, each of them has from then on this
  path as the source of its peer (or no source of this peer, when the path is a withdrawal), the store
  holds the merge of the sources of each of them, and the other entities and the sources of the other
  peers are as before.
\<close>

theorem handlePath_effect:
  assumes "pebble_laws P cont" and "sources_ok r" and "iter_order (w_it w)" and "pr_id peer \<noteq> []"
    and "handlePath P w peer path r = (r', Inr ())"
  shows "\<exists>es. path_entities w (pr_domain_id peer) path = Inr es \<and> sources_ok r' \<and>
    advertised peer (pa_Withdrawal path) (pa_Stale path) es r r'"
  by (rule handlePath_rule[OF assms])

theorem handlePath_effect_witness:
  "\<exists>r'. handlePath memory_pebble sample_world (bgp_peer ''p'' ''10.0.0.1'') (sample_node_path False) fresh_reconciler = (r', Inr ()) \<and>
     mirrored r' (ENTITY_KIND_NODE, sample_nodeID) \<and> source_of r' (ENTITY_KIND_NODE, sample_nodeID) ''p'' \<noteq> None"
proof -
  let ?p = "bgp_peer ''p'' ''10.0.0.1''"
  obtain r1 where r1: "handlePath memory_pebble sample_world ?p (sample_node_path False) fresh_reconciler = (r1, Inr ())"
    using handlePath_accepts[OF sample_path_clean fresh_reconciler_clean fresh_reconciler_ok _ _ memory_commits] by fastforce
  have p: "pr_id ?p = ''p''" "pr_domain_id ?p = ''d''" "\<not> pa_Withdrawal (sample_node_path False)"
    by (simp_all add: bgp_peer_def sample_node_path_def)
  show ?thesis
    using handlePath_effect[OF memory_pebble_laws(1) fresh_reconciler_ok _ _ r1] r1
    by (auto simp: p sample_path_entities advertised_def source_entity_def entity_key_def)
qed

section \<open>What identifies a node\<close>

definition node_parts :: "(u8 \<Rightarrow> string) \<Rightarrow> string \<Rightarrow> u8 \<Rightarrow> u64 \<Rightarrow> LsNodeDescriptor \<Rightarrow> string list" where
  "node_parts ptext domain protocol identifier d = [''node'', domain, ptext protocol, Sprint_u64 identifier,
     Sprint_u32 (nod_Asn d), Sprint_u32 (nod_BGPLsID d), Sprint_u32 (nod_OspfAreaID d), nod_IGPRouterID d,
     formatAddr (nod_BGPRouterID d), Sprint_u32 (nod_BGPConfederationMember d)]"

definition same_node :: "(u8 \<Rightarrow> string) \<Rightarrow> string \<times> u8 \<times> u64 \<times> LsNodeDescriptor \<Rightarrow> string \<times> u8 \<times> u64 \<times> LsNodeDescriptor \<Rightarrow> bool" where
  "same_node ptext = (\<lambda>(domain, protocol, identifier, d) (domain', protocol', identifier', d').
     domain = domain' \<and> ptext protocol = ptext protocol' \<and> identifier = identifier' \<and> nod_Asn d = nod_Asn d' \<and>
     nod_BGPLsID d = nod_BGPLsID d' \<and> nod_OspfAreaID d = nod_OspfAreaID d' \<and> nod_IGPRouterID d = nod_IGPRouterID d' \<and>
     formatAddr (nod_BGPRouterID d) = formatAddr (nod_BGPRouterID d') \<and>
     nod_BGPConfederationMember d = nod_BGPConfederationMember d')"

lemma Sprint_inj: "Sprint_u32 a = Sprint_u32 b \<longleftrightarrow> a = b" "Sprint_u64 x = Sprint_u64 y \<longleftrightarrow> x = y"
  using decimal_inj unsigned_word_eqI unfolding Sprint_u32_def Sprint_u64_def by blast+

text \<open>
  C25. What identifies a node: two descriptors get the same identifier exactly when the first sixteen
  bytes of the SHA-256 sums of their texts agree, and without NUL bytes in the texts these are the same
  text only for the same domain, protocol, instance, autonomous system, area and router identifiers. So
  two different nodes share an identifier only through a collision of these two texts.
\<close>

theorem nodeID_separates:
  assumes "\<forall>s \<in> {domain, domain', ptext protocol, ptext protocol', nod_IGPRouterID d, nod_IGPRouterID d',
      formatAddr (nod_BGPRouterID d), formatAddr (nod_BGPRouterID d')}. no_NUL s"
  shows "(nodeID ptext domain protocol identifier d = nodeID ptext domain' protocol' identifier' d' \<longleftrightarrow>
      take 16 (Sum256 (preimage (node_parts ptext domain protocol identifier d))) =
      take 16 (Sum256 (preimage (node_parts ptext domain' protocol' identifier' d')))) \<and>
    (preimage (node_parts ptext domain protocol identifier d) = preimage (node_parts ptext domain' protocol' identifier' d')
      \<longleftrightarrow> same_node ptext (domain, protocol, identifier, d) (domain', protocol', identifier', d'))"
proof -
  let ?x = "node_parts ptext domain protocol identifier d" and ?y = "node_parts ptext domain' protocol' identifier' d'"
  have "no_NUL ''node''" by (simp add: no_NUL_def) code_simp
  then have nul: "list_all no_NUL (?x @ ?y)" using assms by (simp add: node_parts_def Sprint_u32_def Sprint_u64_def)
  have "preimage ?x = preimage ?y \<longleftrightarrow> ?x = ?y" using preimage_inj[OF _ nul] by (auto simp: node_parts_def)
  also have "\<dots> \<longleftrightarrow> same_node ptext (domain, protocol, identifier, d) (domain', protocol', identifier', d')"
    by (auto simp: node_parts_def same_node_def Sprint_inj)
  finally show ?thesis
    using stableID_eq_iff[of ?x ?y] by (simp add: nodeID_def node_parts_def)
qed

theorem nodeID_separates_witness:
  "preimage (node_parts (\<lambda>p. ''IS-IS'') ''d'' 2 7 sample_descriptor) \<noteq>
     preimage (node_parts (\<lambda>p. ''IS-IS'') ''d'' 2 8 sample_descriptor)"
proof -
  have "no_NUL ''d''" "no_NUL ''IS-IS''" "no_NUL ''0000.0000.0001''" by code_simp+
  then show ?thesis
    using nodeID_separates[of "''d''" "''d''" "\<lambda>p. ''IS-IS''" 2 2 sample_descriptor sample_descriptor 7 8]
    by (simp add: same_node_def sample_descriptor_def formatAddr_def no_NUL_def[of "[]"])
qed

end
