(* ===== verification/History_Theorems.thy ===== *)
theory History_Theorems
  imports API_Theorems
begin

text \<open>The properties of the history calls: differences between revisions and pages of changes.\<close>

section \<open>Differences\<close>

lemma diff_loop_eq:
  assumes events: "\<And>c. c < to \<Longrightarrow> events_after c = Inr (map E (take 10000 [Suc (max lo (unat c))..<Suc u]))"
    and revisions: "\<And>i. lo < i \<Longrightarrow> i \<le> u \<Longrightarrow> ev_revision (E i) = of_nat i" and u: "u \<le> unat to"
  shows "diff_loop events_after f c to out =
    Some (Inr (out @ filter (in_filter f) (map E [Suc (max lo (unat c))..<Suc u])))"
proof (induction "u - unat c" arbitrary: c out rule: less_induct)
  case less
  define a where "a = max lo (unat c)"
  have a: "lo \<le> a" "unat c \<le> a" by (simp_all add: a_def)
  have "diff_loop events_after f c to out =
      Some (Inr (out @ filter (in_filter f) (map E [Suc a..<Suc u])))"
  proof (cases "a < u")
    case False
    then have nil: "[Suc a..<Suc u] = []" by (intro upt_conv_Nil) linarith
    have "c < to \<Longrightarrow> events_after c = Inr []" using events[of c] unfolding a_def[symmetric] nil by simp
    with nil show ?thesis by (subst diff_loop.simps) (simp del: upt_Suc)
  next
    case True
    define b where "b = min u (a + 10000)"
    have b: "a < b" "b \<le> u" using True by (auto simp: b_def)
    have lt: "c < to" using True u a(2) by (simp add: word_less_nat_alt)
    have take: "take 10000 [Suc a..<Suc u] = [Suc a..<Suc b]"
      using take_upt[of "Suc a" 10000 "Suc u"] by (cases "a + 10000 \<le> u") (simp_all add: b_def del: upt_Suc)
    have b64: "b < 2 ^ 64" using b(2) u u64_less[of to] by linarith
    have last: "ev_revision (last (map E [Suc a..<Suc b])) = of_nat b"
      using b a revisions[of b] by simp
    have ub: "unat (of_nat b :: u64) = b" by (rule unat_of_nat_u64[OF b64])
    have "diff_loop events_after f c to out =
        diff_loop events_after f (of_nat b) to (out @ filter (in_filter f) (map E [Suc a..<Suc b]))"
      using b lt events[OF lt, folded a_def] last take by (subst diff_loop.simps) (simp del: upt_Suc)
    also have "\<dots> = Some (Inr ((out @ filter (in_filter f) (map E [Suc a..<Suc b])) @
        filter (in_filter f) (map E [Suc b..<Suc u])))"
      using b a less.hyps[of "of_nat b"] ub by (simp add: max_absorb2 del: upt_Suc)
    also have "[Suc a..<Suc b] @ [Suc b..<Suc u] = [Suc a..<Suc u]"
      using b upt_add_eq_append[of "Suc a" "Suc b" "u - b"] by simp
    then have "(out @ filter (in_filter f) (map E [Suc a..<Suc b])) @ filter (in_filter f) (map E [Suc b..<Suc u]) =
        out @ filter (in_filter f) (map E [Suc a..<Suc u])"
      by (metis append.assoc filter_append map_append)
    finally show ?thesis .
  qed
  then show ?case unfolding a_def .
qed

lemma DiffTopology_eq:
  assumes "pebble_laws P cont" "pebble_reads P" "store_inv cont lo M E s" and lt: "a < b"
  shows "DiffTopology P s a b f = Inr (filter (in_filter f)
    (map E [Suc (max lo (unat a))..<Suc (min (unat (st_revision s)) (unat b))]))"
proof -
  let ?u = "upper_revision (unat (st_revision s)) b"
  have b0: "b \<noteq> 0" using lt by auto
  have u: "?u = min (unat (st_revision s)) (unat b)"
    using b0 word_order.extremum[of "st_revision s"] by (auto simp: upper_revision_def word_le_nat_alt)
  have ev: "Events P s c b 10000 = Inr (map E (take 10000 [Suc (max lo (unat c))..<Suc ?u]))" if "c < b" for c
  proof -
    have "c \<noteq> - 1" using that by auto
    then show ?thesis
      using Events_eq[OF assms(1-3), of c b 10000] by (simp add: unat_Suc_u64 del: upt_Suc)
  qed
  have rv: "ev_revision (E i) = of_nat i" if "lo < i" "i \<le> ?u" for i
    using store_invD(6)[OF assms(3)] that u by (auto simp: history_ok_def)
  have "diff_loop (\<lambda>c. Events P s c b 10000) f a b [] =
      Some (Inr ([] @ filter (in_filter f) (map E [Suc (max lo (unat a))..<Suc ?u])))"
    by (rule diff_loop_eq[OF ev rv]) (simp_all add: u)
  then show ?thesis using lt by (simp add: DiffTopology_def not_le u del: upt_Suc)
qed

text \<open>
  \<open>DiffTopology\<close> returns, in order, exactly the retained events with a revision above the first
  and at most the second revision whose domain passes the filter, however many there are; a
  range that is not increasing is refused with CodeInvalidArgument.
\<close>

theorem DiffTopology_events:
  assumes "pebble_laws P cont" and "pebble_reads P" and "store_inv cont lo M E s"
  shows "DiffTopology P s a b f = (if a < b then Inr (filter (in_filter f)
      (map E [Suc (max lo (unat a))..<Suc (min (unat (st_revision s)) (unat b))]))
    else Inl (ConnectError CodeInvalidArgument (New ''from_revision must be less than to_revision'')))"
proof (cases "a < b")
  case True
  then show ?thesis using DiffTopology_eq[OF assms] by simp
next
  case False
  then show ?thesis by (simp add: DiffTopology_def not_less)
qed

theorem DiffTopology_events_witness:
  "\<exists>evs. DiffTopology memory_pebble (sample_run sample_changes) 1 3 None = Inr evs \<and> length evs = 2"
proof -
  obtain lo M E where inv: "store_inv (\<lambda>c. c) lo M E (sample_run sample_changes)" using sample_inv by blast
  have "OldestRevision memory_pebble (sample_run sample_changes) = 1" "st_revision (sample_run sample_changes) = 3"
    by code_simp+
  then have "lo = 0"
    using OldestRevision_eq[OF memory_pebble_laws inv] store_invD(1)[OF inv] unat_of_nat_u64[of "Suc lo"]
    by (auto split: if_splits)
  then show ?thesis
    using DiffTopology_events[OF memory_pebble_laws inv, of 1 3 None] \<open>st_revision (sample_run sample_changes) = 3\<close>
    by (simp add: in_filter_def)
qed

section \<open>Pages of changes\<close>

lemma digit_value_digit: "d < 10 \<Longrightarrow> digit_value (digit_char d) = Some (int d)"
proof -
  have "list_all (\<lambda>d. digit_value (digit_char d) = Some (int d)) [0..<10]" by code_simp
  then show "d < 10 \<Longrightarrow> digit_value (digit_char d) = Some (int d)" by (simp add: list_all_iff del: upt_conv_Cons)
qed

lemma digits_value_append:
  "digits_value acc (s @ [c]) = (case digits_value acc s of None \<Rightarrow> None
     | Some v \<Rightarrow> map_option (\<lambda>d. v * 10 + d) (digit_value c))"
  by (induction s arbitrary: acc) (auto split: option.split)

lemma digits_value_decimal: "digits_value 0 (decimal n) = Some (int n)"
proof (induction n rule: decimal.induct)
  case (1 n)
  show ?case
  proof (cases "n < 10")
    case True
    then show ?thesis by (subst decimal.simps) (simp add: digit_value_digit)
  next
    case False
    have "int (n div 10) * 10 + int (n mod 10) = int n"
      by (metis div_mult_mod_eq of_nat_add of_nat_mult of_nat_numeral)
    with False 1 show ?thesis
      by (subst decimal.simps) (simp add: digits_value_append digit_value_digit)
  qed
qed

lemma decimal_not_Nil [simp]: "decimal n \<noteq> []"
  by (subst decimal.simps) simp

lemma Sprint_u64_not_Nil [simp]: "Sprint_u64 r \<noteq> []"
  by (simp add: Sprint_u64_def)

lemma parse_cursor_Sprint: "parse_cursor (Sprint_u64 r) = Some r"
proof -
  have "int (unat r) < int (2 ^ 64)" using u64_less[of r] by (simp only: of_nat_less_iff)
  then have "int (unat r) < 18446744073709551616" by (simp only: of_nat_power of_nat_numeral) simp
  then show ?thesis by (simp add: parse_cursor_def Sprint_u64_def digits_value_decimal)
qed

lemma changes_after_token:
  "changes_after a (Some \<lparr>pg_page_size = limit, pg_page_token = EncodeToString (Sprint_u64 c)\<rparr>) = (if a < c then c else a)"
  by (simp add: changes_after_def DecodeString_EncodeToString parse_cursor_Sprint)

lemma ListChanges_page:
  assumes "pebble_laws P cont" "pebble_reads P" "store_inv cont lo M E s"
    and "changes_after a pg = c" and "c \<noteq> - 1" and "fst (pageBounds pg) = k"
    and "m = max lo (unat c)" and "u = upper_revision (unat (st_revision s)) b"
  shows "\<exists>r. ListChanges P s \<lparr>lq_after_revision = a, lq_before_revision = b, lq_filter = None, lq_page = pg\<rparr> = Inr r \<and>
    lc_events r = map E [Suc m..<Suc (min u (m + k))] \<and>
    pgr_next_page_token (lc_page r) = (if m + k < u then EncodeToString (Sprint_u64 (of_nat (m + k))) else [])"
proof -
  have k: "0 < k" "k \<le> 1000" using pageBounds_size[of pg] assms(6) by auto
  have "unat (c + 1) = Suc (unat c)" by (rule unat_Suc_u64[OF assms(5)])
  then have bound: "max (Suc lo) (unat (c + 1)) = Suc m" by (simp add: assms(7))
  have ev: "Events P s c b (int k + 1) = Inr (map E (take (Suc k) [Suc m..<Suc u]))"
    using Events_eq[OF assms(1-3), of c b "int k + 1"] k unfolding bound assms(8)[symmetric]
    by (simp add: nat_add_distrib del: upt_Suc)
  have rv: "ev_revision (E i) = of_nat i" if "lo < i" "i \<le> u" for i
    using store_invD(6)[OF assms(3)] that assms(8) by (auto simp: history_ok_def upper_revision_def split: if_splits)
  have filt: "filter (in_filter None) xs = xs" for xs by (simp add: in_filter_def filter_id_conv)
  show ?thesis
  proof (cases "m + k < u")
    case True
    then have t: "take (Suc k) [Suc m..<Suc u] = [Suc m..<Suc (m + Suc k)]"
      using take_upt[of "Suc m" "Suc k" "Suc u"] by (simp del: upt_Suc)
    have t': "take k [Suc m..<Suc (m + Suc k)] = [Suc m..<Suc (m + k)]"
      using take_upt[of "Suc m" k "Suc (m + Suc k)"] by (simp del: upt_Suc)
    have "ev_revision (last (map E [Suc m..<Suc (m + k)])) = of_nat (m + k)"
      using k(1) True rv[of "m + k"] assms(7) by simp
    then show ?thesis
      using True k(1) by (simp add: ListChanges_def Let_def assms(4,6) ev t filt cut_page_def take_map t' nextToken_def
          min_absorb2 del: upt_Suc)
  next
    case False
    then have t: "take (Suc k) [Suc m..<Suc u] = [Suc m..<Suc u]" "length [Suc m..<Suc u] \<le> k" "min u (m + k) = u"
      by (auto simp del: upt_Suc)
    then show ?thesis
      using False by (simp add: ListChanges_def Let_def assms(4,6) ev filt cut_page_def nextToken_def not_less del: upt_Suc)
  qed
qed

lemma walk_changes_suffix:
  assumes "pebble_laws P cont" "pebble_reads P" "store_inv cont lo M E s"
    and u: "u = upper_revision (unat (st_revision s)) b"
    and tok: "changes_after a (Some \<lparr>pg_page_size = limit, pg_page_token = token\<rparr>) = c" "c \<noteq> - 1" "a \<le> c"
    and fuel: "u - max lo (unat c) < n"
  shows "walk_pages n (\<lambda>pg. bindR (ListChanges P s \<lparr>lq_after_revision = a, lq_before_revision = b, lq_filter = None, lq_page = pg\<rparr>)
      (\<lambda>r. Inr (lc_events r, lc_page r))) limit token = Some (Inr (map E [Suc (max lo (unat c))..<Suc u]))"
  using tok fuel
proof (induction n arbitrary: token c)
  case (Suc n)
  let ?page = "\<lambda>pg. bindR (ListChanges P s \<lparr>lq_after_revision = a, lq_before_revision = b, lq_filter = None, lq_page = pg\<rparr>)
      (\<lambda>r. Inr (lc_events r, lc_page r))"
  let ?pg = "Some \<lparr>pg_page_size = limit, pg_page_token = token\<rparr>"
  define k where "k = fst (pageBounds ?pg)"
  define m where "m = max lo (unat c)"
  have k: "0 < k" using pageBounds_size[of ?pg] by (simp add: k_def)
  obtain r where r0: "ListChanges P s \<lparr>lq_after_revision = a, lq_before_revision = b, lq_filter = None, lq_page = ?pg\<rparr> = Inr r"
      and r12: "lc_events r = map E [Suc m..<Suc (min u (m + k))]"
      "pgr_next_page_token (lc_page r) = (if m + k < u then EncodeToString (Sprint_u64 (of_nat (m + k))) else [])"
    using ListChanges_page[OF assms(1-3) Suc.prems(1,2) k_def[symmetric] m_def u] by blast
  have "?page ?pg = Inr (lc_events r, lc_page r)" by (simp only: r0 bindR_simps)
  note r = this r12
  have "walk_pages (Suc n) ?page limit token = Some (Inr (map E [Suc m..<Suc u]))"
  proof (cases "m + k < u")
    case False
    then have "min u (m + k) = u" by simp
    then show ?thesis using r False by (simp del: upt_Suc)
  next
    case True
    let ?c = "of_nat (m + k) :: u64"
    have le: "u \<le> unat (st_revision s)" by (simp add: u upper_revision_def)
    then have small: "m + k < unat (st_revision s)" using True by linarith
    then have uc: "unat ?c = m + k" using u64_less[of "st_revision s"] by (intro unat_of_nat_u64) linarith
    have "unat c < unat ?c" unfolding uc using k by (simp add: m_def)
    then have lt: "c < ?c" by (simp add: word_less_nat_alt)
    have "?c < st_revision s" using small uc by (simp add: word_less_nat_alt)
    then have ne: "?c \<noteq> - 1" using word_order.extremum_strict by auto
    have "a < ?c" using Suc.prems(3) lt by (rule le_less_trans)
    then have tok: "changes_after a (Some \<lparr>pg_page_size = limit, pg_page_token = EncodeToString (Sprint_u64 ?c)\<rparr>) = ?c"
      by (simp only: changes_after_token if_True)
    have max: "max lo (unat ?c) = m + k" unfolding uc by (simp add: m_def)
    have rest: "walk_pages n ?page limit (EncodeToString (Sprint_u64 ?c)) = Some (Inr (map E [Suc (m + k)..<Suc u]))"
      using Suc.IH[OF tok ne less_imp_le[OF \<open>a < ?c\<close>]] Suc.prems(4) k True
      unfolding max m_def[symmetric] by linarith
    have "[Suc m..<Suc (m + k)] @ [Suc (m + k)..<Suc u] = [Suc m..<Suc u]"
      using upt_add_eq_append[of "Suc m" "Suc (m + k)" "u - (m + k)"] True by simp
    moreover have "min u (m + k) = m + k" using True by simp
    ultimately show ?thesis
      using r rest True by (simp flip: map_append del: upt_Suc)
  qed
  then show ?case unfolding m_def .
qed simp

text \<open>
  C34. Paging through the changes is complete: a client that follows the tokens of \<open>ListChanges\<close>
  without a filter gets every retained event above the requested revision, up to the upper bound
  or the current revision, once and in order, whatever page size it asks for.
\<close>

theorem ListChanges_complete:
  assumes "pebble_laws P cont" and "pebble_reads P" and "store_inv cont lo M E s" and "a \<noteq> - 1"
    and "unat (st_revision s) < n"
  shows "walk_pages n (\<lambda>pg. bindR (ListChanges P s \<lparr>lq_after_revision = a, lq_before_revision = b, lq_filter = None, lq_page = pg\<rparr>)
      (\<lambda>r. Inr (lc_events r, lc_page r))) limit [] =
    Some (Inr (map E [Suc (max lo (unat a))..<Suc (upper_revision (unat (st_revision s)) b)]))"
proof (rule walk_changes_suffix[OF assms(1-3) refl])
  show "changes_after a (Some \<lparr>pg_page_size = limit, pg_page_token = []\<rparr>) = a" by (simp add: changes_after_def)
  show "upper_revision (unat (st_revision s)) b - max lo (unat a) < n"
    using assms(5) by (auto simp: upper_revision_def)
qed (use assms(4) in simp_all)

theorem ListChanges_complete_witness:
  "\<exists>evs. walk_pages 4 (\<lambda>pg. bindR (ListChanges memory_pebble (sample_run sample_changes)
      \<lparr>lq_after_revision = 0, lq_before_revision = 0, lq_filter = None, lq_page = pg\<rparr>)
      (\<lambda>r. Inr (lc_events r, lc_page r))) 1 [] = Some (Inr evs) \<and> length evs = 3"
proof -
  obtain lo M E where inv: "store_inv (\<lambda>c. c) lo M E (sample_run sample_changes)" using sample_inv by blast
  have r3: "OldestRevision memory_pebble (sample_run sample_changes) = 1" "st_revision (sample_run sample_changes) = 3"
    by code_simp+
  then have "lo = 0"
    using OldestRevision_eq[OF memory_pebble_laws inv] store_invD(1)[OF inv] unat_of_nat_u64[of "Suc lo"]
    by (auto split: if_splits)
  then show ?thesis
    using ListChanges_complete[OF memory_pebble_laws inv, of 0 4 0 1] r3(2) by (simp add: upper_revision_def)
qed

definition filtered_store :: "contents Store" where
  "filtered_store = sample_run [(10, (sample_upsert ''a'')\<lparr>mu_domain_id := ''x''\<rparr>),
     (20, (sample_upsert ''b'')\<lparr>mu_domain_id := ''x''\<rparr>), (30, sample_upsert ''c'')]"

definition domain_filter :: "string \<Rightarrow> TopologyFilter" where
  "domain_filter d = \<lparr>tf_domain_ids = [d], tf_protocols = [], tf_multi_topology_ids = [], tf_freshness = [],
     tf_source_peer_ids = [], tf_conflicts_only = False, tf_query = []\<rparr>"

text \<open>
  With a filter, paging can stop early: whether there is another page is decided after the
  filter, so a page whose events are all filtered out carries no token although events of the
  requested domain follow.
\<close>

theorem ListChanges_filter_stops:
  "walk_pages 4 (\<lambda>pg. bindR (ListChanges memory_pebble filtered_store
      \<lparr>lq_after_revision = 0, lq_before_revision = 0, lq_filter = Some (domain_filter ''d''), lq_page = pg\<rparr>)
      (\<lambda>r. Inr (lc_events r, lc_page r))) 1 [] = Some (Inr []) \<and>
   map_sum id (map ev_revision) (DiffTopology memory_pebble filtered_store 0 3 (Some (domain_filter ''d''))) = Inr [3]"
proof
  show "walk_pages 4 (\<lambda>pg. bindR (ListChanges memory_pebble filtered_store
      \<lparr>lq_after_revision = 0, lq_before_revision = 0, lq_filter = Some (domain_filter ''d''), lq_page = pg\<rparr>)
      (\<lambda>r. Inr (lc_events r, lc_page r))) 1 [] = Some (Inr [])" by code_simp
  show "map_sum id (map ev_revision) (DiffTopology memory_pebble filtered_store 0 3 (Some (domain_filter ''d''))) = Inr [3]"
    by code_simp
qed

section \<open>Every read call answers\<close>

lemma history_handled:
  assumes "pebble_laws P cont" and "pebble_reads P" and "store_inv cont lo M E s"
  shows "handled (ListChanges P s lc)" and "handled (DiffTopology P s from to f)"
proof -
  show "handled (ListChanges P s lc)"
    using Events_eq[OF assms] by (auto simp: ListChanges_def Let_def split: prod.split)
  show "handled (DiffTopology P s from to f)"
  proof (cases "from < to")
    case True
    then show ?thesis by (simp add: DiffTopology_eq[OF assms])
  qed (simp add: DiffTopology_def not_less)
qed

text \<open>
  On a store that satisfies its invariant no read call panics or hangs: every one of them ends
  with a response or an RPC error, whatever the request and the filter are and however the sends
  of a stream turn out.
\<close>

theorem read_calls_answer:
  assumes "pebble_laws P cont" and "pebble_reads P" and "store_inv cont lo M E s" and "iter_order it"
  shows "handled (GetSummary uni it s f) \<and> handled (ListDomains it s pg) \<and> handled (ListNodes P uni it s lr) \<and>
    handled (ListLinks P uni it s lr) \<and> handled (ListPrefixes P uni it s lr) \<and> handled (GetNode P it s gr) \<and>
    handled (GetLink P it s gr) \<and> handled (GetPrefix P it s gr) \<and> handled (GetNeighbors P uni it s nb) \<and>
    handled (Resolve uni it s rr) \<and> handled (snd (StreamSnapshot P uni it s f r send)) \<and>
    handled (ComputePaths P it s rq) \<and> handled (AnalyzeImpact P it s iq) \<and>
    handled (ListChanges P s lc) \<and> handled (DiffTopology P s from to f)"
  by (intro conjI handled_calls[OF assms] history_handled[OF assms(1-3)])

theorem read_calls_answer_witness:
  "handled (GetNode memory_pebble id (sample_run sample_changes) \<lparr>gr_id = ''a'', gr_revision = 1, gr_include_stale = False\<rparr>) \<and>
   handled (ListChanges memory_pebble (sample_run sample_changes)
      \<lparr>lq_after_revision = 0, lq_before_revision = 0, lq_filter = None, lq_page = None\<rparr>)"
proof -
  obtain lo M E where inv: "store_inv (\<lambda>c. c) lo M E (sample_run sample_changes)" using sample_inv by blast
  show ?thesis using read_calls_answer[OF memory_pebble_laws inv iter_order_id(1)] by blast
qed

end
