(* ===== verification/Collector_Theorems.thy ===== *)
theory Collector_Theorems
  imports Collector_API History_Theorems
begin

text \<open>
  The properties of the collector service: what each call does to the table of peers, that it keeps
  the invariant of the store, that a version is used once, and that no answer carries a secret.
\<close>

section \<open>The table of peers\<close>

text \<open>
  What the service promises is a table of peers with a version on each entry. \<open>entry\<close> looks a peer
  up, \<open>stored\<close> is the effect of a successful write on the whole store.
\<close>

definition entry :: "'db Store \<Rightarrow> string \<Rightarrow> Peer option" where
  "entry s = fmlookup (m_peers (st_memory s))"

definition versioned :: "'db Store \<Rightarrow> Peer \<Rightarrow> Peer" where
  "versioned s p = p\<lparr>pr_resource_version := st_revision s + 1\<rparr>"

definition stored :: "'db Store \<Rightarrow> Peer \<Rightarrow> 'db Store \<Rightarrow> bool" where
  "stored s p s' \<longleftrightarrow> st_revision s' = st_revision s + 1 \<and>
     st_memory s' = (st_memory s)\<lparr>m_peers := fmupd (pr_id p) (versioned s p) (m_peers (st_memory s))\<rparr>"

definition removed :: "'db Store \<Rightarrow> string \<Rightarrow> 'db Store \<Rightarrow> bool" where
  "removed s i s' \<longleftrightarrow> st_revision s' = st_revision s + 1 \<and>
     st_memory s' = (st_memory s)\<lparr>m_peers := fmdrop i (m_peers (st_memory s))\<rparr>"

definition untouched :: "('db \<Rightarrow> contents) \<Rightarrow> 'db Store \<Rightarrow> 'db Store \<Rightarrow> bool" where
  "untouched cont s s' \<longleftrightarrow> st_memory s' = st_memory s \<and> st_revision s' = st_revision s \<and>
     st_observed s' = st_observed s \<and> st_subs s' = st_subs s \<and> st_channels s' = st_channels s \<and>
     cont (st_db s') = cont (st_db s)"

lemma untouched_refl [simp]: "untouched cont s s"
  by (simp add: untouched_def)

lemma get_peer_eq: "get_peer s i = (case entry s i of None \<Rightarrow> Inl (ConnectError CodeNotFound (Sentinel ErrNotFound)) | Some p \<Rightarrow> Inr p)"
  by (simp add: get_peer_def Get_def found_def entry_def apiError_def split: option.split)

lemma get_peer_Inr: "get_peer s i = Inr p \<longleftrightarrow> entry s i = Some p"
  by (simp add: get_peer_eq split: option.split)

lemma Get_peer_eq: "Get s ENTITY_KIND_PEER i = (case entry s i of None \<Rightarrow> Inl (Sentinel ErrNotFound) | Some p \<Rightarrow> Inr (PeerE p))"
  by (simp add: Get_def found_def entry_def split: option.split)

lemma versioned_simps [simp]:
  "pr_id (versioned s p) = pr_id p" "pr_resource_version (versioned s p) = st_revision s + 1"
  "pr_tcp_md5_secret (versioned s p) = pr_tcp_md5_secret p"
  by (simp_all add: versioned_def)

lemma redactPeer_simps [simp]:
  "pr_id (redactPeer p) = pr_id p" "pr_tcp_md5_secret (redactPeer p) = []" "redactPeer (redactPeer p) = redactPeer p"
  by (simp_all add: redactPeer_def)

lemma peer_mutation_simps [simp]:
  "mu_kind (peer_mutation p d r) = ENTITY_KIND_PEER" "mu_id (peer_mutation p d r) = pr_id p"
  "mu_delete (peer_mutation p d r) = d" "mu_value (peer_mutation p d r) = (if d then None else Some (PeerE p))"
  "mu_domain_id (peer_mutation p d r) = pr_domain_id p" "mu_peer_id (peer_mutation p d r) = []"
  "mu_reason (peer_mutation p d r) = r"
  by (simp_all add: peer_mutation_def)

text \<open>A write either changes nothing, or it is the write of the abstract table.\<close>

lemma put_peer_cases:
  assumes "pebble_laws P cont" and "put_peer P tick p reason s = (s', r)"
  shows "(\<exists>e. r = Inl (apiError e) \<and> untouched cont s s') \<or> (r = Inr (versioned s p) \<and> stored s p s')"
proof -
  obtain v res where app: "Apply P (fst tick) (snd tick) (peer_mutation p False reason) s = (s', v, res)"
    using assms(2) by (auto simp: put_peer_def split: prod.splits)
  show ?thesis
  proof (cases res)
    case (Inl f)
    then show ?thesis using Apply_Inl[OF assms(1) app[unfolded Inl]] assms(2) app
      by (auto simp: put_peer_def untouched_def)
  next
    case (Inr ev)
    then show ?thesis using Apply_Inr[OF app[unfolded Inr]] assms(2) app
      by (auto simp: put_peer_def stored_def versioned_def stamped_def applyMemoryLocked_def)
  qed
qed

lemma drop_peer_cases:
  assumes "pebble_laws P cont" and "drop_peer P tick p reason s = (s', r)"
  shows "(\<exists>e. r = Inl (apiError e) \<and> untouched cont s s') \<or> (r = Inr () \<and> removed s (pr_id p) s')"
proof -
  obtain v res where app: "Apply P (fst tick) (snd tick) (peer_mutation p True reason) s = (s', v, res)"
    using assms(2) by (auto simp: drop_peer_def split: prod.splits)
  show ?thesis
  proof (cases res)
    case (Inl f)
    then show ?thesis using Apply_Inl[OF assms(1) app[unfolded Inl]] assms(2) app
      by (auto simp: drop_peer_def untouched_def)
  next
    case (Inr ev)
    then show ?thesis using Apply_Inr[OF app[unfolded Inr]] assms(2) app
      by (auto simp: drop_peer_def removed_def stamped_def applyMemoryLocked_def)
  qed
qed

text \<open>
  Handing the peer to the manager comes after the write, so when the manager refuses, the call fails
  although the peer is stored.
\<close>

lemma put_and_upsert_cases:
  assumes "pebble_laws P cont" and "put_and_upsert P peers tick p reason (s, m) = ((s', m'), r)"
  shows "(\<exists>e. r = Inl (apiError e) \<and> untouched cont s s' \<and> m' = m) \<or>
    (stored s p s' \<and> m' = fst (pm_upsert (manager peers) (versioned s p) m) \<and>
     r = api_result (snd (pm_upsert (manager peers) (versioned s p) m)) (versioned s p))"
proof -
  obtain s1 r1 where put: "put_peer P tick p reason s = (s1, r1)" by (cases "put_peer P tick p reason s")
  from put_peer_cases[OF assms(1) put] show ?thesis
    using assms(2) put by (auto simp: put_and_upsert_def split: prod.splits)
qed

lemma api_result_Inr [simp]: "api_result err x = Inr y \<longleftrightarrow> err = None \<and> y = x"
  by (auto simp: api_result_def split: option.splits)

lemma write_peer_cases:
  assumes "pebble_laws P cont" and "write_peer P peers tick reason checked (s, m) = ((s', m'), r)"
  shows "(\<exists>e. checked = Inl e \<and> r = Inl e \<and> s' = s \<and> m' = m) \<or>
    (\<exists>e p. checked = Inr p \<and> r = Inl (apiError e) \<and> untouched cont s s' \<and> m' = m) \<or>
    (\<exists>p. checked = Inr p \<and> stored s p s' \<and> m' = fst (pm_upsert (manager peers) (versioned s p) m) \<and>
       r = api_result (snd (pm_upsert (manager peers) (versioned s p) m)) (redactPeer (versioned s p)))"
proof (cases checked)
  case (Inr p)
  obtain s1 m1 r1 where put: "put_and_upsert P peers tick p reason (s, m) = ((s1, m1), r1)"
    by (metis prod.collapse)
  from put_and_upsert_cases[OF assms(1) put] show ?thesis
    using assms(2) put Inr by (auto simp: write_peer_def api_result_def split: option.split)
qed (use assms(2) in \<open>auto simp: write_peer_def\<close>)

lemma validatePeer_None [simp]: "validatePeer None snap \<noteq> []"
  by (simp add: validatePeer_def)

lemma create_check_Inr:
  "create_check it s req = Inr q \<longleftrightarrow> (\<exists>p. req = Some p \<and> validatePeer req (Store_Snapshot it s) = [] \<and>
     entry s (pr_id p) = None \<and> q = p\<lparr>pr_session_state :=
       (if pr_enabled p then PEER_SESSION_STATE_IDLE else PEER_SESSION_STATE_DISABLED)\<rparr>)"
  by (cases req; auto simp: create_check_def Get_peer_eq Let_def split: option.split)

definition updated_peer :: "Peer \<Rightarrow> Peer \<Rightarrow> Peer" where
  "updated_peer old p = p\<lparr>pr_tcp_md5_secret := (if pr_tcp_md5_secret p = [] then pr_tcp_md5_secret old else pr_tcp_md5_secret p),
     pr_session_state := pr_session_state old, pr_received_updates := pr_received_updates old,
     pr_rejected_updates := pr_rejected_updates old\<rparr>"

lemma update_check_Inr:
  "update_check it s req expected = Inr q \<longleftrightarrow> (\<exists>p old. req = Some p \<and> validatePeer req (Store_Snapshot it s) = [] \<and>
     entry s (pr_id p) = Some old \<and> pr_resource_version old = expected \<and> q = updated_peer old p)"
  by (cases req; auto simp: update_check_def updated_peer_def Let_def get_peer_eq split: option.split if_splits)

lemma version_check_Inr:
  "version_check s i expected = Inr p \<longleftrightarrow> entry s i = Some p \<and> pr_resource_version p = expected"
  by (auto simp: version_check_def get_peer_eq split: option.splits if_splits)

definition with_admin_state :: "bool \<Rightarrow> Peer \<Rightarrow> Peer" where
  "with_admin_state on p = (if on then p\<lparr>pr_enabled := True\<rparr>
     else p\<lparr>pr_enabled := False, pr_session_state := PEER_SESSION_STATE_DISABLED\<rparr>)"

lemma SetPeerAdminState_eq:
  "SetPeerAdminState P peers tick i on expected (s, m) =
     write_peer P peers tick ''peer administrative state changed''
       (bindR (version_check s i expected) (\<lambda>p. Inr (with_admin_state on p))) (s, m)"
  by (simp add: SetPeerAdminState_def with_admin_state_def Let_def)
    (rule arg_cong[where f = "\<lambda>x. write_peer P peers tick _ x (s, m)"], cases "version_check s i expected", auto)

lemma validatePeer_id: "validatePeer (Some p) snap = [] \<Longrightarrow> pr_id p \<noteq> []"
  by (auto simp: validatePeer_def)

lemma stored_entry: "stored s p s' \<Longrightarrow> entry s' = (entry s)(pr_id p \<mapsto> versioned s p)"
  by (auto simp: stored_def entry_def)

lemma removed_entry: "removed s i s' \<Longrightarrow> entry s' = (entry s)(i := None)"
  by (auto simp: removed_def entry_def)

lemma GetPeer_eq: "entry s i = Some p \<Longrightarrow> GetPeer s i = Inr (redactPeer p)"
  by (simp add: GetPeer_def get_peer_eq)

section \<open>Versions\<close>

text \<open>The version of a peer is the revision of its last write, so it never runs ahead of the store.\<close>

definition versions_ok :: "'db Store \<Rightarrow> bool" where
  "versions_ok s \<longleftrightarrow> (\<forall>i p. entry s i = Some p \<longrightarrow> pr_resource_version p \<le> st_revision s)"

lemma store_step_change:
  assumes "pebble_laws P cont" "pebble_reads P" "store_inv cont lo M E s" and "store_step P s s'"
  shows "st_memory s' = st_memory s \<and> st_revision s' = st_revision s \<or>
    (\<exists>now m. st_memory s' = applyMemoryLocked (stamped (st_revision s + 1) now m) (st_memory s) \<and>
       st_revision s' = st_revision s + 1 \<and> st_revision s < st_revision s')"
  using assms(4)
proof cases
  case (live l)
  then show ?thesis
  proof cases
    case (apply_step ctxErr now m v res)
    show ?thesis
    proof (cases res)
      case (Inl f)
      then show ?thesis using Apply_Inl[OF assms(1)] apply_step(2) by fastforce
    next
      case (Inr ev)
      have "st_revision s < st_revision s + 1"
        using apply_step(4) by (simp add: word_less_nat_alt unat_word_ariths)
      moreover have "st_revision s' = st_revision s + 1 \<and>
          st_memory s' = applyMemoryLocked (stamped (st_revision s + 1) now m) (st_memory s)"
        using Apply_Inr[OF apply_step(2)[unfolded Inr]] by auto
      ultimately show ?thesis by auto
    qed
  next
    case (compact_step ctx cutoff maxBytes err)
    then show ?thesis using CompactHistory_store_inv[OF assms(1,3)] by fastforce
  next
    case (subscribe_step after res)
    then show ?thesis using Subscribe_frame by blast
  next
    case (unsubscribe_step i)
    then show ?thesis using unsubscribe_frame by blast
  next
    case (receive_step c e)
    then show ?thesis using receive_frame by blast
  qed
next
  case reopen
  then show ?thesis unfolding Open_eq[OF assms(1-3)] by auto
qed

lemma stamped_entry:
  assumes "m_peers mem' = m_peers (applyMemoryLocked (stamped r now m) mem)" and "fmlookup (m_peers mem') i = Some p"
  shows "fmlookup (m_peers mem) i = Some p \<or> pr_resource_version p = r"
  using assms
  by (cases "mu_kind m"; cases "mu_value m"; cases "the (mu_value m)")
    (auto simp: applyMemoryLocked_def stamped_def split: if_splits)

lemma store_step_entry:
  assumes "pebble_laws P cont" "pebble_reads P" "store_inv cont lo M E s" "store_step P s s'"
  shows "st_revision s \<le> st_revision s' \<and> (\<forall>i p. entry s' i = Some p \<longrightarrow>
    entry s i = Some p \<or> pr_resource_version p = st_revision s' \<and> st_revision s < st_revision s')"
proof -
  consider "st_memory s' = st_memory s" "st_revision s' = st_revision s"
    | now m where "st_memory s' = applyMemoryLocked (stamped (st_revision s + 1) now m) (st_memory s)"
       "st_revision s' = st_revision s + 1" "st_revision s < st_revision s'"
    using store_step_change[OF assms] by blast
  then show ?thesis
  proof cases
    case 1
    then show ?thesis by (simp add: entry_def)
  next
    case 2
    then show ?thesis using stamped_entry[of "st_memory s'" "st_revision s + 1" now m "st_memory s"]
      by (auto simp: entry_def)
  qed
qed

text \<open>From then on the peer \<open>i\<close>, if there is one, has a version above \<open>v\<close>.\<close>

definition newer :: "string \<Rightarrow> u64 \<Rightarrow> 'db Store \<Rightarrow> bool" where
  "newer i v s \<longleftrightarrow> versions_ok s \<and> v < st_revision s \<and> (\<forall>p. entry s i = Some p \<longrightarrow> v < pr_resource_version p)"

lemma versions_ok_step:
  assumes "pebble_laws P cont" "pebble_reads P" "store_inv cont lo M E s" "store_step P s s'" and "versions_ok s"
  shows "versions_ok s'"
  unfolding versions_ok_def
  using store_step_entry[OF assms(1-4)] assms(5)[unfolded versions_ok_def] by (metis order_refl order_trans)

lemma newer_step:
  assumes "pebble_laws P cont" "pebble_reads P" "store_inv cont lo M E s" "store_step P s s'" and "newer i v s"
  shows "newer i v s'"
proof -
  have step: "st_revision s \<le> st_revision s'" "\<And>p. entry s' i = Some p \<Longrightarrow> entry s i = Some p \<or> pr_resource_version p = st_revision s'"
    using store_step_entry[OF assms(1-4)] by blast+
  have old: "versions_ok s" "v < st_revision s" "\<And>p. entry s i = Some p \<Longrightarrow> v < pr_resource_version p"
    using assms(5) by (auto simp: newer_def)
  have "v < st_revision s'" using old(2) step(1) by (rule order_less_le_trans)
  then show ?thesis using versions_ok_step[OF assms(1-4) old(1)] step(2) old(3) by (auto simp: newer_def)
qed

lemma steps_induct:
  assumes "pebble_laws P cont" "pebble_reads P" "store_inv cont lo M E s" "(store_step P)\<^sup>*\<^sup>* s s'" and "Q s"
    and "\<And>lo M E s s'. store_inv cont lo M E s \<Longrightarrow> store_step P s s' \<Longrightarrow> Q s \<Longrightarrow> Q s'"
  shows "Q s'"
  using assms(4)
proof (induction rule: rtranclp_induct)
  case base
  then show ?case by (rule assms(5))
next
  case (step s1 s2)
  from store_steps_inv[OF assms(1-3) step(1)] obtain lo' M' E' where "store_inv cont lo' M' E' s1"
    by (auto simp: extends_history_def)
  then show ?case using step assms(6) by blast
qed

lemma newer_refuses:
  assumes "newer i v s"
  shows "\<exists>e. version_check s i v = Inl e" and "pr_id p = i \<Longrightarrow> \<exists>e. update_check it s (Some p) v = Inl e"
proof -
  have no: "\<not> (entry s i = Some q \<and> pr_resource_version q = v)" for q using assms by (auto simp: newer_def)
  show "\<exists>e. version_check s i v = Inl e"
    using version_check_Inr[of s i v] no by (cases "version_check s i v") auto
  show "\<exists>e. update_check it s (Some p) v = Inl e" if "pr_id p = i"
    using update_check_Inr[of it s "Some p" v] no that by (cases "update_check it s (Some p) v") auto
qed

lemma stored_newer:
  assumes "versions_ok s" and "entry s (pr_id p) = Some old" and "st_revision s + 1 \<noteq> 0" and "stored s p s'"
  shows "newer (pr_id p) (pr_resource_version old) s'"
proof -
  let ?v = "pr_resource_version old"
  have "st_revision s \<noteq> - 1" using assms(3) by auto
  then have lt: "st_revision s < st_revision s + 1"
    by (simp add: word_less_nat_alt unat_Suc_u64)
  have s': "st_revision s' = st_revision s + 1" "entry s' = (entry s)(pr_id p \<mapsto> versioned s p)"
    using assms(4) stored_entry[OF assms(4)] by (auto simp: stored_def)
  have le: "\<And>i q. entry s i = Some q \<Longrightarrow> pr_resource_version q \<le> st_revision s" using assms(1) by (auto simp: versions_ok_def)
  have "?v < st_revision s + 1" using le[OF assms(2)] lt by (rule order.strict_trans1)
  moreover have "versions_ok s'"
    unfolding versions_ok_def s' using le lt by (auto intro: order_less_imp_le order.strict_trans1)
  ultimately show ?thesis by (simp add: newer_def s')
qed

lemma removed_newer:
  assumes "versions_ok s" and "entry s i = Some old" and "st_revision s + 1 \<noteq> 0" and "removed s i s'"
  shows "newer i (pr_resource_version old) s'"
proof -
  have "st_revision s \<noteq> - 1" using assms(3) by auto
  then have lt: "st_revision s < st_revision s + 1"
    by (simp add: word_less_nat_alt unat_Suc_u64)
  have s': "st_revision s' = st_revision s + 1" "entry s' = (entry s)(i := None)"
    using assms(4) removed_entry[OF assms(4)] by (auto simp: removed_def)
  have le: "\<And>i q. entry s i = Some q \<Longrightarrow> pr_resource_version q \<le> st_revision s" using assms(1) by (auto simp: versions_ok_def)
  have "pr_resource_version old < st_revision s + 1" using le[OF assms(2)] lt by (rule order.strict_trans1)
  moreover have "versions_ok s'"
    unfolding versions_ok_def s' using le lt by (auto intro: order_less_imp_le order.strict_trans1)
  ultimately show ?thesis by (simp add: newer_def s')
qed

section \<open>Calls as steps of the store\<close>

lemma json_ok_Peer:
  "json_ok (enc_Peer p) \<longleftrightarrow> utf8_valid (pr_id p) \<and> utf8_valid (pr_domain_id p) \<and> utf8_valid (pr_name p) \<and>
     utf8_valid (pr_remote_address p) \<and> utf8_valid (pr_local_address p) \<and> utf8_valid (pr_tcp_md5_secret p) \<and>
     utf8_valid (pr_router_id p) \<and> utf8_valid (pr_last_error p) \<and> list_all utf8_valid (pr_capabilities p)"
  by (auto simp: enc_Peer_def split: option.split)

lemma put_peer_step:
  assumes "put_peer P tick p reason s = (s', r)" and "json_ok (enc_Peer p)" and "utf8_valid reason"
    and "Suc (unat (st_revision s)) < 2 ^ 64"
  shows "store_step P s s'"
proof -
  obtain v res where app: "Apply P (fst tick) (snd tick) (peer_mutation p False reason) s = (s', v, res)"
    using assms(1) by (auto simp: put_peer_def split: prod.splits)
  have "mutation_ok (peer_mutation p False reason)"
    using assms(2,3) by (simp add: mutation_ok_def json_ok_Peer enc_entity_def)
  from apply_step[OF app this assms(4)] show ?thesis by (rule live)
qed

lemma drop_peer_step:
  assumes "drop_peer P tick p reason s = (s', r)" and "json_ok (enc_Peer p)" and "utf8_valid reason"
    and "Suc (unat (st_revision s)) < 2 ^ 64"
  shows "store_step P s s'"
proof -
  obtain v res where app: "Apply P (fst tick) (snd tick) (peer_mutation p True reason) s = (s', v, res)"
    using assms(1) by (auto simp: drop_peer_def split: prod.splits)
  have "mutation_ok (peer_mutation p True reason)"
    using assms(2,3) by (simp add: mutation_ok_def json_ok_Peer)
  from apply_step[OF app this assms(4)] show ?thesis by (rule live)
qed

lemma put_and_upsert_step:
  assumes "put_and_upsert P peers tick p reason (s, m) = ((s', m'), r)" and "json_ok (enc_Peer p)" and "utf8_valid reason"
    and "Suc (unat (st_revision s)) < 2 ^ 64"
  shows "store_step P s s'"
proof -
  obtain r1 where "put_peer P tick p reason s = (s', r1)"
    using assms(1) by (auto simp: put_and_upsert_def split: prod.splits sum.splits)
  then show ?thesis using assms(2-4) by (rule put_peer_step)
qed

lemma write_peer_step:
  assumes "write_peer P peers tick reason checked (s, m) = ((s', m'), r)"
    and "\<And>p. checked = Inr p \<Longrightarrow> json_ok (enc_Peer p)" and "utf8_valid reason" and "Suc (unat (st_revision s)) < 2 ^ 64"
  shows "(store_step P)\<^sup>*\<^sup>* s s'"
proof (cases checked)
  case (Inr p)
  obtain r1 where "put_and_upsert P peers tick p reason (s, m) = ((s', m'), r1)"
    using assms(1) Inr by (auto simp: write_peer_def split: prod.splits)
  from put_and_upsert_step[OF this assms(2)[OF Inr] assms(3,4)] show ?thesis by (rule r_into_rtranclp)
qed (use assms(1) in \<open>auto simp: write_peer_def\<close>)

lemma entry_ok:
  assumes "store_inv cont lo M E s" and "entry s i = Some p"
  shows "pr_id p = i" and "i \<noteq> []" and "json_ok (enc_Peer p)"
  using store_invD(3)[OF assms(1)] assms(2) by (auto simp: memory_ok_def table_ok_def entry_def)

lemma reasons_utf8:
  "utf8_valid ''peer created''" "utf8_valid ''peer updated''" "utf8_valid ''peer deleted''"
  "utf8_valid ''peer administrative state changed''" "utf8_valid ''peer configuration imported''"
  "utf8_valid ''peer removed by configuration import''"
  by code_simp+

lemma CreatePeer_steps:
  assumes "CreatePeer P peers it tick req (s, m) = ((s', m'), r)" and "\<And>p. req = Some p \<Longrightarrow> json_ok (enc_Peer p)"
    and "Suc (unat (st_revision s)) < 2 ^ 64"
  shows "(store_step P)\<^sup>*\<^sup>* s s'"
  using assms(1) unfolding CreatePeer_def
  by (rule write_peer_step) (use assms(2,3) in \<open>auto simp: create_check_Inr json_ok_Peer reasons_utf8\<close>)

lemma UpdatePeer_steps:
  assumes "store_inv cont lo M E s" and "UpdatePeer P peers it tick req expected (s, m) = ((s', m'), r)"
    and "\<And>p. req = Some p \<Longrightarrow> json_ok (enc_Peer p)" and "Suc (unat (st_revision s)) < 2 ^ 64"
  shows "(store_step P)\<^sup>*\<^sup>* s s'"
  using assms(2) unfolding UpdatePeer_def
proof (rule write_peer_step)
  fix q assume "update_check it (fst (s, m)) req expected = Inr q"
  then obtain p old where "req = Some p" "entry s (pr_id p) = Some old" "q = updated_peer old p"
    by (auto simp: update_check_Inr)
  then show "json_ok (enc_Peer q)"
    using assms(3) entry_ok(3)[OF assms(1)] by (auto simp: json_ok_Peer updated_peer_def)
qed (use assms(4) in \<open>simp_all add: reasons_utf8\<close>)

lemma SetPeerAdminState_steps:
  assumes "store_inv cont lo M E s" and "SetPeerAdminState P peers tick i on expected (s, m) = ((s', m'), r)"
    and "Suc (unat (st_revision s)) < 2 ^ 64"
  shows "(store_step P)\<^sup>*\<^sup>* s s'"
  using assms(2) unfolding SetPeerAdminState_eq
proof (rule write_peer_step)
  fix q assume "bindR (version_check s i expected) (\<lambda>p. Inr (with_admin_state on p)) = Inr q"
  then obtain p where "entry s i = Some p" "q = with_admin_state on p"
    by (auto simp: bindR_Inr_iff version_check_Inr)
  then show "json_ok (enc_Peer q)"
    using entry_ok(3)[OF assms(1)] by (auto simp: json_ok_Peer with_admin_state_def)
qed (use assms(3) in \<open>simp_all add: reasons_utf8\<close>)

lemma DeletePeer_steps:
  assumes "store_inv cont lo M E s" and "DeletePeer P peers tick i expected (s, m) = ((s', m'), r)"
    and "Suc (unat (st_revision s)) < 2 ^ 64"
  shows "(store_step P)\<^sup>*\<^sup>* s s'"
proof (cases "version_check s i expected")
  case (Inr p)
  obtain m1 err where del: "pm_delete (manager peers) (pr_id p) m = (m1, err)"
    by (cases "pm_delete (manager peers) (pr_id p) m")
  have ok: "json_ok (enc_Peer p)" using Inr entry_ok(3)[OF assms(1)] unfolding version_check_Inr by blast
  show ?thesis
  proof (cases err)
    case None
    then obtain r1 where "drop_peer P tick p ''peer deleted'' s = (s', r1)"
      using assms(2) Inr del by (auto simp: DeletePeer_def split: prod.splits)
    from drop_peer_step[OF this ok reasons_utf8(3) assms(3)] show ?thesis by blast
  qed (use assms(2) Inr del in \<open>auto simp: DeletePeer_def\<close>)
qed (use assms(2) in \<open>auto simp: DeletePeer_def\<close>)

section \<open>Optimistic concurrency\<close>

lemma write_newer:
  assumes "pebble_laws P cont" and "versions_ok s" and "st_revision s + 1 \<noteq> 0"
    and "write_peer P peers tick reason checked (s, m) = ((s', m'), Inr r)"
    and "\<And>p. checked = Inr p \<Longrightarrow> pr_id p = i \<and> (\<exists>old. entry s i = Some old \<and> pr_resource_version old = v)"
  shows "newer i v s'"
proof -
  obtain p where p: "checked = Inr p" "stored s p s'"
    using write_peer_cases[OF assms(1,4)] by auto
  then show ?thesis using stored_newer[OF assms(2) _ assms(3) p(2)] assms(5)[OF p(1)] by auto
qed

lemma with_admin_state_id [simp]: "pr_id (with_admin_state on p) = pr_id p"
  by (simp add: with_admin_state_def)

text \<open>A versioned write that succeeded, by one of the three calls that carry an expected version.\<close>

definition wrote ::
  "'db pebble \<Rightarrow> 'p PeerManager option \<Rightarrow> string \<Rightarrow> u64 \<Rightarrow> ('db, 'p) system \<Rightarrow> ('db, 'p) system \<Rightarrow> bool" where
  "wrote P peers i v sys sys' \<longleftrightarrow>
     (\<exists>it tick p r. pr_id p = i \<and> json_ok (enc_Peer p) \<and> UpdatePeer P peers it tick (Some p) v sys = (sys', Inr r)) \<or>
     (\<exists>tick on r. SetPeerAdminState P peers tick i on v sys = (sys', Inr r)) \<or>
     (\<exists>tick. DeletePeer P peers tick i v sys = (sys', Inr ()))"

lemma wrote_newer:
  assumes "pebble_laws P cont" "store_inv cont lo M E s" "versions_ok s" "st_revision s + 1 \<noteq> 0"
    and "wrote P peers i v (s, m) (s', m')"
  shows "newer i v s'"
  using assms(5) unfolding wrote_def
proof (elim disjE exE conjE)
  fix it tick p r assume p: "pr_id p = i" and run: "UpdatePeer P peers it tick (Some p) v (s, m) = ((s', m'), Inr r)"
  from run[unfolded UpdatePeer_def] show ?thesis
    by (rule write_newer[OF assms(1,3,4)]) (use p in \<open>auto simp: update_check_Inr updated_peer_def\<close>)
next
  fix tick on r assume run: "SetPeerAdminState P peers tick i on v (s, m) = ((s', m'), Inr r)"
  from run[unfolded SetPeerAdminState_eq] show ?thesis
    by (rule write_newer[OF assms(1,3,4)])
      (auto simp: bindR_Inr_iff version_check_Inr dest: entry_ok(1)[OF assms(2)])
next
  fix tick assume run: "DeletePeer P peers tick i v (s, m) = ((s', m'), Inr ())"
  then obtain p m1 where p: "version_check s i v = Inr p" and "drop_peer P tick p ''peer deleted'' s = (s', Inr ())"
    by (auto simp: DeletePeer_def split: sum.splits prod.splits option.splits)
  then have "removed s (pr_id p) s'" using drop_peer_cases[OF assms(1)] by fastforce
  moreover have "entry s i = Some p" "pr_resource_version p = v" "pr_id p = i"
    using p entry_ok(1)[OF assms(2)] by (auto simp: version_check_Inr)
  ultimately show ?thesis using removed_newer[OF assms(3) _ assms(4)] by auto
qed

lemma wrote_steps:
  assumes "store_inv cont lo M E s" and "Suc (unat (st_revision s)) < 2 ^ 64" and "wrote P peers i v (s, m) (s', m')"
  shows "(store_step P)\<^sup>*\<^sup>* s s'"
  using assms(3) unfolding wrote_def
  by (elim disjE exE conjE)
    (blast intro: UpdatePeer_steps[OF assms(1) _ _ assms(2)] SetPeerAdminState_steps[OF assms(1) _ assms(2)]
      DeletePeer_steps[OF assms(1) _ assms(2)])+

text \<open>
  C15. No lost update: once a call that carried the version \<open>v\<close> of a peer has changed or deleted it,
  every later call for that peer that carries the same version is refused and changes nothing,
  whatever well-formed mutations, compactions, subscriptions and restarts the store sees in between.
\<close>

theorem no_lost_update:
  assumes "pebble_laws P cont" and "pebble_reads P" and "store_inv cont lo M E s" and "versions_ok s"
    and "Suc (unat (st_revision s)) < 2 ^ 64" and "wrote P peers i v (s, m) (s1, m1)"
    and "(store_step P)\<^sup>*\<^sup>* s1 s2" and "pr_id p = i"
  shows "(\<exists>e. UpdatePeer P peers it tick (Some p) v (s2, m2) = ((s2, m2), Inl e)) \<and>
    (\<exists>e. SetPeerAdminState P peers tick i on v (s2, m2) = ((s2, m2), Inl e)) \<and>
    (\<exists>e. DeletePeer P peers tick i v (s2, m2) = ((s2, m2), Inl e))"
proof -
  have "st_revision s \<noteq> - 1" using assms(5) by (auto simp: unsigned_minus_1_eq_mask mask_eq_exp_minus_1)
  then have "st_revision s + 1 \<noteq> 0" by (metis add.commute add.inverse_unique)
  from wrote_newer[OF assms(1,3,4) this assms(6)] have "newer i v s1" .
  moreover obtain lo1 M1 E1 where inv1: "store_inv cont lo1 M1 E1 s1"
    using store_steps_inv[OF assms(1-3) wrote_steps[OF assms(3,5,6)]] by (auto simp: extends_history_def)
  ultimately have "newer i v s2"
    using steps_induct[OF assms(1,2) inv1 assms(7), where Q = "newer i v"] newer_step[OF assms(1,2)] by blast
  then obtain e f where "version_check s2 i v = Inl e" "update_check it s2 (Some p) v = Inl f"
    using newer_refuses[of i v s2] assms(8) by blast
  then show ?thesis by (simp add: UpdatePeer_def SetPeerAdminState_def DeletePeer_def write_peer_def)
qed

section \<open>A sample of peers\<close>

definition sample_domain :: Mutation where
  "sample_domain = \<lparr>mu_kind = ENTITY_KIND_UNSPECIFIED, mu_id = ''d'', mu_domain_id = ''d'', mu_peer_id = [],
     mu_reason = ''bootstrap'', mu_delete = False,
     mu_value = Some (DomainE \<lparr>dm_id = ''d'', dm_name = ''lab'', dm_description = [], dm_revision = 0\<rparr>)\<rparr>"

definition sample_peer :: "string \<Rightarrow> string \<Rightarrow> Peer" where
  "sample_peer i name = zero_Peer\<lparr>pr_id := i, pr_domain_id := ''d'', pr_name := name, pr_remote_address := ''192.0.2.1'',
     pr_local_as := 65001, pr_remote_as := 65002, pr_enabled := True, pr_tcp_md5_secret := ''s3cret''\<rparr>"

definition domain_store :: "contents Store" where
  "domain_store = sample_run [(5, sample_domain)]"

definition peer_system :: "(contents, unit) system" where
  "peer_system = fst (CreatePeer memory_pebble None id (None, 10) (Some (sample_peer ''x'' ''one'')) (domain_store, ()))"

lemma sample_peer_runs:
  "snd (CreatePeer memory_pebble None id (None, 10) (Some (sample_peer ''x'' ''one'')) (domain_store, ())) =
     Inr (redactPeer ((sample_peer ''x'' ''one'')\<lparr>pr_session_state := PEER_SESSION_STATE_IDLE, pr_resource_version := 2\<rparr>))"
  "st_revision (fst peer_system) = 2"
  by code_simp+

lemma domain_store_inv: "\<exists>lo M E. store_inv (\<lambda>c. c) lo M E domain_store"
proof -
  have "mutation_ok sample_domain" by code_simp
  then show ?thesis unfolding domain_store_def by (intro sample_run_inv) simp_all
qed

lemma peer_system_inv: "\<exists>lo M E. store_inv (\<lambda>c. c) lo M E (fst peer_system)"
proof -
  obtain lo M E where inv: "store_inv (\<lambda>c. c) lo M E domain_store" using domain_store_inv by blast
  obtain m' r where run: "CreatePeer memory_pebble None id (None, 10) (Some (sample_peer ''x'' ''one'')) (domain_store, ()) =
      ((fst peer_system, m'), r)" unfolding peer_system_def by (metis prod.collapse)
  have "json_ok (enc_Peer (sample_peer ''x'' ''one''))" "st_revision domain_store = 1" by code_simp+
  from CreatePeer_steps[OF run] this have "(store_step memory_pebble)\<^sup>*\<^sup>* domain_store (fst peer_system)" by simp
  from store_steps_inv[OF memory_pebble_laws inv this] show ?thesis by (auto simp: extends_history_def)
qed

lemma peer_system_versions: "versions_ok (fst peer_system)"
proof -
  have "entry (fst peer_system) = (\<lambda>i. if i = ''x'' then entry (fst peer_system) ''x'' else None)"
  proof
    fix i
    have "fmdom' (m_peers (st_memory (fst peer_system))) = {''x''}" by code_simp
    then show "entry (fst peer_system) i = (if i = ''x'' then entry (fst peer_system) ''x'' else None)"
      by (auto simp: entry_def fmlookup_dom'_iff)
  qed
  moreover have "map_option pr_resource_version (entry (fst peer_system) ''x'') = Some 2" by code_simp
  ultimately show ?thesis by (auto simp: versions_ok_def sample_peer_runs(2)) (metis option.distinct(1) option.inject order_refl)
qed

lemma answered: "\<not> isl (snd x) \<Longrightarrow> \<exists>r. x = ((fst (fst x), ()), Inr r)"
  by (cases x) (auto simp: isl_def, metis sum.exhaust)

theorem no_lost_update_witness:
  "\<exists>s1 e. UpdatePeer memory_pebble None id (None, 20) (Some (sample_peer ''x'' ''two'')) 2 peer_system = ((s1, ()), Inr e) \<and>
     (\<exists>f. UpdatePeer memory_pebble None id (None, 30) (Some (sample_peer ''x'' ''three'')) 2 (s1, ()) = ((s1, ()), Inl f))"
proof -
  let ?p = "sample_peer ''x'' ''two''" and ?q = "sample_peer ''x'' ''three''"
  obtain lo M E where inv: "store_inv (\<lambda>c. c) lo M E (fst peer_system)" using peer_system_inv by blast
  define s1 where "s1 = fst (fst (UpdatePeer memory_pebble None id (None, 20) (Some ?p) 2 (fst peer_system, ())))"
  have "\<not> isl (snd (UpdatePeer memory_pebble None id (None, 20) (Some ?p) 2 (fst peer_system, ())))" by code_simp
  from answered[OF this, folded s1_def] obtain r where
    run: "UpdatePeer memory_pebble None id (None, 20) (Some ?p) 2 (fst peer_system, ()) = ((s1, ()), Inr r)" by blast
  have "json_ok (enc_Peer ?p)" "pr_id ?p = ''x''" "pr_id ?q = ''x''" by code_simp+
  then have "wrote memory_pebble None ''x'' 2 (fst peer_system, ()) (s1, ())" using run by (auto simp: wrote_def)
  from no_lost_update[OF memory_pebble_laws inv peer_system_versions _ this rtranclp.rtrancl_refl \<open>pr_id ?q = ''x''\<close>]
  have "\<exists>f. UpdatePeer memory_pebble None id (None, 30) (Some ?q) 2 (s1, ()) = ((s1, ()), Inl f)"
    by (auto simp: sample_peer_runs(2))
  moreover have "peer_system = (fst peer_system, ())" by (simp add: prod_eq_iff)
  ultimately show ?thesis using run by metis
qed

text \<open>
  The version check and the write are not one step. When a second request runs between them,
  both answer with success and the second write replaces the first: the peer ends up with the name
  that the first request gave, although another request with the same version had been accepted.
\<close>

theorem UpdatePeer_race:
  "case update_check id (fst peer_system) (Some (sample_peer ''x'' ''slow'')) 2 of Inl e \<Rightarrow> False
   | Inr checked \<Rightarrow>
      (case UpdatePeer memory_pebble None id (None, 20) (Some (sample_peer ''x'' ''fast'')) 2 peer_system of
         (sys1, r1) \<Rightarrow> (case write_peer memory_pebble None (None, 30) ''peer updated'' (Inr checked) sys1 of
         (sys2, r2) \<Rightarrow> \<not> isl r1 \<and> \<not> isl r2 \<and> map_option pr_name (entry (fst sys1) ''x'') = Some ''fast'' \<and>
            map_option pr_name (entry (fst sys2) ''x'') = Some ''slow''))"
  by code_simp

section \<open>What the calls do\<close>

lemma write_peer_Inr:
  assumes "pebble_laws P cont" and "write_peer P peers tick reason checked (s, m) = ((s', m'), Inr q)"
  shows "\<exists>p. checked = Inr p \<and> stored s p s' \<and> q = redactPeer (versioned s p)"
  using write_peer_cases[OF assms] by (auto simp: api_result_def split: option.splits)

lemma stored_GetPeer:
  assumes "stored s p s'"
  shows "GetPeer s' (pr_id p) = Inr (redactPeer (versioned s p))" and "i \<noteq> pr_id p \<Longrightarrow> GetPeer s' i = GetPeer s i"
  using stored_entry[OF assms] by (simp_all add: GetPeer_def get_peer_eq)

text \<open>
  \<open>CreatePeer\<close> adds a valid, new peer. When it answers, the request was valid, no peer had its
  identifier, the store holds it with the state IDLE (DISABLED when it is not enabled) and the new
  revision as its version, the answer is what \<open>GetPeer\<close> gives from then on, and nothing else in the
  store differs. When it fails, the store is as before, or the peer is stored and the peer manager
  refused it.
\<close>

theorem CreatePeer_effect:
  assumes "pebble_laws P cont" and "CreatePeer P peers it tick req (s, m) = ((s', m'), r)"
  shows "case r of
      Inr q \<Rightarrow> \<exists>p. req = Some p \<and> validatePeer (Some p) (Store_Snapshot it s) = [] \<and> entry s (pr_id p) = None \<and>
        stored s (p\<lparr>pr_session_state := (if pr_enabled p then PEER_SESSION_STATE_IDLE else PEER_SESSION_STATE_DISABLED)\<rparr>) s' \<and>
        GetPeer s' (pr_id p) = Inr q \<and> (\<forall>i. i \<noteq> pr_id p \<longrightarrow> GetPeer s' i = GetPeer s i)
    | Inl e \<Rightarrow> untouched cont s s' \<and> m' = m \<or>
        (\<exists>q err. stored s q s' \<and> snd (pm_upsert (manager peers) (versioned s q) m) = Some err \<and> e = apiError err)"
  using write_peer_cases[OF assms(1) assms(2)[unfolded CreatePeer_def]]
proof (elim disjE exE conjE)
  fix p assume q: "create_check it (fst (s, m)) req = Inr p" "stored s p s'"
    and r: "r = api_result (snd (pm_upsert (manager peers) (versioned s p) m)) (redactPeer (versioned s p))"
  show ?thesis
  proof (cases "snd (pm_upsert (manager peers) (versioned s p) m)")
    case None
    then show ?thesis
      using q r stored_GetPeer[OF q(2)] by (auto simp: create_check_Inr api_result_def)
  qed (use q r in \<open>auto simp: api_result_def\<close>)
qed auto

theorem CreatePeer_effect_witness:
  "stored domain_store ((sample_peer ''x'' ''one'')\<lparr>pr_session_state := PEER_SESSION_STATE_IDLE\<rparr>) (fst peer_system) \<and>
   entry domain_store ''x'' = None"
proof -
  let ?p = "sample_peer ''x'' ''one''"
  have run: "CreatePeer memory_pebble None id (None, 10) (Some ?p) (domain_store, ()) =
      ((fst peer_system, snd peer_system), Inr (redactPeer (?p\<lparr>pr_session_state := PEER_SESSION_STATE_IDLE, pr_resource_version := 2\<rparr>)))"
    using sample_peer_runs(1) by (simp add: peer_system_def prod_eq_iff)
  have "pr_enabled ?p" "pr_id ?p = ''x''" by code_simp+
  with CreatePeer_effect[OF memory_pebble_laws(1) run] show ?thesis by auto
qed

text \<open>
  A versioned write changes exactly the version it was given. When \<open>UpdatePeer\<close>,
  \<open>SetPeerAdminState\<close> or \<open>DeletePeer\<close> answers with success, the peer existed with the expected version
  and the store holds the updated peer, the peer with the new administrative state, or no such peer;
  an update without a secret keeps the stored one, and an update never touches the session state and
  the counters.
\<close>

theorem versioned_writes:
  assumes "pebble_laws P cont" and "store_inv cont lo M E s"
  shows "(UpdatePeer P peers it tick req v (s, m) = ((s1, m1), Inr q) \<longrightarrow>
      (\<exists>p old. req = Some p \<and> entry s (pr_id p) = Some old \<and> pr_resource_version old = v \<and>
         stored s (updated_peer old p) s1 \<and> q = redactPeer (versioned s (updated_peer old p)))) \<and>
    (SetPeerAdminState P peers tick i on v (s, m) = ((s1, m1), Inr q) \<longrightarrow>
      (\<exists>old. entry s i = Some old \<and> pr_resource_version old = v \<and> stored s (with_admin_state on old) s1 \<and>
         q = redactPeer (versioned s (with_admin_state on old)))) \<and>
    (DeletePeer P peers tick i v (s, m) = ((s1, m1), Inr ()) \<longrightarrow>
      (\<exists>old. entry s i = Some old \<and> pr_resource_version old = v \<and> removed s i s1))" (is "?u \<and> ?a \<and> ?d")
proof -
  have ?u unfolding UpdatePeer_def
    by (auto dest!: write_peer_Inr[OF assms(1)] simp: update_check_Inr)
  moreover have ?a unfolding SetPeerAdminState_eq
    by (auto dest!: write_peer_Inr[OF assms(1)] simp: bindR_Inr_iff version_check_Inr)
  moreover have ?d
  proof
    assume "DeletePeer P peers tick i v (s, m) = ((s1, m1), Inr ())"
    then obtain p where p: "version_check s i v = Inr p" and "drop_peer P tick p ''peer deleted'' s = (s1, Inr ())"
      by (auto simp: DeletePeer_def split: sum.splits prod.splits option.splits)
    then have "removed s (pr_id p) s1" using drop_peer_cases[OF assms(1)] by fastforce
    then show "\<exists>old. entry s i = Some old \<and> pr_resource_version old = v \<and> removed s i s1"
      using p entry_ok(1)[OF assms(2)] by (auto simp: version_check_Inr)
  qed
  ultimately show ?thesis by blast
qed

theorem versioned_writes_witness:
  "\<exists>s1 q. UpdatePeer memory_pebble None id (None, 20) (Some ((sample_peer ''x'' ''two'')\<lparr>pr_tcp_md5_secret := []\<rparr>)) 2
      (fst peer_system, ()) = ((s1, ()), Inr q) \<and>
     map_option pr_tcp_md5_secret (entry s1 ''x'') = Some ''s3cret''"
proof -
  let ?p = "(sample_peer ''x'' ''two'')\<lparr>pr_tcp_md5_secret := []\<rparr>"
  obtain lo M E where inv: "store_inv (\<lambda>c. c) lo M E (fst peer_system)" using peer_system_inv by blast
  have "\<not> isl (snd (UpdatePeer memory_pebble None id (None, 20) (Some ?p) 2 (fst peer_system, ())))" by code_simp
  from answered[OF this] obtain s1 q where
    run: "UpdatePeer memory_pebble None id (None, 20) (Some ?p) 2 (fst peer_system, ()) = ((s1, ()), Inr q)" by blast
  have p: "pr_id ?p = ''x''" "pr_tcp_md5_secret ?p = []"
    "map_option pr_tcp_md5_secret (entry (fst peer_system) ''x'') = Some ''s3cret''" by code_simp+
  note w = versioned_writes[OF memory_pebble_laws(1) inv, of None id "(None, 20)" "Some ?p" 2 "()" s1 "()" q "[]" True]
  from conjunct1[OF w] run obtain old where
    old: "entry (fst peer_system) (pr_id ?p) = Some old" "stored (fst peer_system) (updated_peer old ?p) s1" by blast
  have "entry s1 ''x'' = Some (versioned (fst peer_system) (updated_peer old ?p))"
    using stored_entry[OF old(2)] p(1) by (simp add: updated_peer_def)
  then show ?thesis using run old(1) p by (auto simp: updated_peer_def)
qed

section \<open>Secrets\<close>

definition public :: "Peer response \<Rightarrow> bool" where
  "public r = (case r of Inl e \<Rightarrow> True | Inr p \<Rightarrow> pr_tcp_md5_secret p = [])"

definition all_public :: "Peer list response \<Rightarrow> bool" where
  "all_public r = (case r of Inl e \<Rightarrow> True | Inr ps \<Rightarrow> list_all (\<lambda>p. pr_tcp_md5_secret p = []) ps)"

lemma public_write: "public (snd (write_peer P peers tick reason checked sys))"
  by (auto simp: write_peer_def public_def bindR_def split: sum.split prod.split)

text \<open>
  C27. No peer in an answer of the collector service carries a TCP MD5 secret, whatever the request and
  the state, and an export is the YAML of peers without secrets. The messages of errors are not examined.
\<close>

theorem secrets_redacted:
  "public (GetPeer s i) \<and> all_public (bindR (ListPeers it s domain page) (\<lambda>(ps, pr). Inr ps)) \<and>
   public (snd (CreatePeer P peers it tick req sys)) \<and> public (snd (UpdatePeer P peers it tick req v sys)) \<and>
   public (snd (SetPeerAdminState P peers tick i on v sys)) \<and> public (snd (ResetPeer peers i soft sys)) \<and>
   all_public (snd (ImportPeerConfig P peers unyaml it clk data replace sys)) \<and>
   (\<exists>ps. list_all (\<lambda>p. pr_tcp_md5_secret p = []) ps \<and>
      ExportPeerConfig yaml it s = (case yaml ps of Inl e \<Rightarrow> Inl (apiError e) | Inr text \<Rightarrow> Inr text))"
proof -
  have "public (GetPeer s i)" by (simp add: GetPeer_def public_def bindR_def split: sum.split)
  moreover have "all_public (bindR (ListPeers it s domain page) (\<lambda>(ps, pr). Inr ps))"
    by (auto simp: ListPeers_def all_public_def bindR_def Let_def list_all_iff split: sum.split)
  moreover have "public (snd (ResetPeer peers i soft sys))"
    by (auto simp: ResetPeer_def public_def split: sum.split prod.split option.split entity.split)
  moreover have "all_public (snd (ImportPeerConfig P peers unyaml it clk data replace sys))"
    by (auto simp: ImportPeerConfig_def all_public_def Let_def list_all_iff split: sum.split prod.split)
  moreover have "\<exists>ps. list_all (\<lambda>p. pr_tcp_md5_secret p = []) ps \<and>
      ExportPeerConfig yaml it s = (case yaml ps of Inl e \<Rightarrow> Inl (apiError e) | Inr text \<Rightarrow> Inr text)"
    by (rule exI[of _ "map redactPeer (sn_peers (Store_Snapshot it s))"]) (simp add: ExportPeerConfig_def list_all_iff)
  ultimately show ?thesis
    unfolding CreatePeer_def UpdatePeer_def SetPeerAdminState_def using public_write by blast
qed

end
