(* ===== verification/Import_Theorems.thy ===== *)
theory Import_Theorems
  imports Collector_Theorems
begin

text \<open>
  More properties of the collector service: what an import does and what it makes of an export, the
  secrets that the history shows, the pages of peers, and the invariant of the store under every
  sequence of calls.
\<close>

section \<open>Import and export\<close>

text \<open>A peer without its version, and what an import makes of a peer that replaces \<open>old\<close>.\<close>

definition unversioned :: "Peer \<Rightarrow> Peer" where
  "unversioned p = p\<lparr>pr_resource_version := 0\<rparr>"

definition imported :: "Peer option \<Rightarrow> Peer \<Rightarrow> Peer" where
  "imported old p = p\<lparr>pr_tcp_md5_secret := (case old of None \<Rightarrow> pr_tcp_md5_secret p
     | Some q \<Rightarrow> if pr_tcp_md5_secret p = [] then pr_tcp_md5_secret q else pr_tcp_md5_secret p)\<rparr>"

lemma imported_id [simp]: "pr_id (imported old p) = pr_id p"
  by (simp add: imported_def)

lemma unversioned_versioned [simp]: "unversioned (versioned s p) = unversioned p"
  by (simp add: unversioned_def versioned_def)

lemma import_loop_Cons:
  "import_loop P peers clk k (p # ps) out (s, m) =
     (case put_and_upsert P peers (clk k) (imported (entry s (pr_id p)) p) ''peer configuration imported'' (s, m) of
        (sys', Inl e) \<Rightarrow> (sys', Inl e)
      | (sys', Inr q) \<Rightarrow> import_loop P peers clk (Suc k) ps (out @ [q]) sys')"
  by (simp add: Get_peer_eq imported_def Let_def split: option.split)

declare import_loop.simps(2) [simp del]

lemma import_loop_effect:
  assumes laws: "pebble_laws P cont" and "distinct (map pr_id ps)"
    and "import_loop P peers clk k ps out (s, m) = ((s', m'), Inr out')"
  shows "(\<forall>i. i \<notin> pr_id ` set ps \<longrightarrow> entry s' i = entry s i) \<and>
    (\<forall>p \<in> set ps. map_option unversioned (entry s' (pr_id p)) = Some (unversioned (imported (entry s (pr_id p)) p)))"
  using assms(2,3)
proof (induction ps arbitrary: k out s m)
  case (Cons p ps)
  let ?q = "imported (entry s (pr_id p)) p"
  obtain s1 m1 r where put: "put_and_upsert P peers (clk k) ?q ''peer configuration imported'' (s, m) = ((s1, m1), r)"
    by (metis prod.collapse)
  then obtain q where r: "r = Inr q" and rest: "import_loop P peers clk (Suc k) ps (out @ [q]) (s1, m1) = ((s', m'), Inr out')"
    using Cons.prems(2) by (cases r) (auto simp: import_loop_Cons)
  have "stored s ?q s1" using put_and_upsert_cases[OF laws put] r by auto
  then have e1: "entry s1 = (entry s)(pr_id p \<mapsto> versioned s ?q)" using stored_entry by fastforce
  have IH: "\<And>i. i \<notin> pr_id ` set ps \<Longrightarrow> entry s' i = entry s1 i"
    "\<And>x. x \<in> set ps \<Longrightarrow> map_option unversioned (entry s' (pr_id x)) = Some (unversioned (imported (entry s1 (pr_id x)) x))"
    using Cons.IH[OF _ rest] Cons.prems(1) by auto
  have p: "pr_id p \<notin> pr_id ` set ps" using Cons.prems(1) by simp
  have "entry s1 (pr_id x) = entry s (pr_id x)" if "x \<in> set ps" for x
  proof -
    have "pr_id x \<noteq> pr_id p" using p that by (metis imageI)
    then show ?thesis by (simp add: e1)
  qed
  then show ?case using IH p e1 by auto
qed simp

lemma replace_loop_effect:
  assumes laws: "pebble_laws P cont" and "replace_loop P peers clk k incoming ps (s, m) = ((s', m'), Inr u)"
  shows "entry s' i = (if i \<in> pr_id ` set ps \<and> i \<notin> set incoming then None else entry s i)"
  using assms(2)
proof (induction ps arbitrary: k s m)
  case (Cons p ps)
  show ?case
  proof (cases "pr_id p \<in> set incoming")
    case True
    then show ?thesis using Cons.IH Cons.prems by auto
  next
    case False
    obtain m1 err where del: "pm_delete (manager peers) (pr_id p) m = (m1, err)"
      by (cases "pm_delete (manager peers) (pr_id p) m")
    have "err = None" using Cons.prems del False by (cases err) auto
    obtain s1 r where drop: "drop_peer P (clk k) p ''peer removed by configuration import'' s = (s1, r)"
      by (cases "drop_peer P (clk k) p ''peer removed by configuration import'' s")
    have rest: "r = Inr ()" "replace_loop P peers clk (Suc k) incoming ps (s1, m1) = ((s', m'), Inr u)"
      using Cons.prems del False drop \<open>err = None\<close> by (cases r; auto)+
    have "removed s (pr_id p) s1" using drop_peer_cases[OF laws drop] rest(1) by auto
    then have "entry s1 = (entry s)(pr_id p := None)" by (rule removed_entry)
    then show ?thesis using Cons.IH[OF rest(2)] False by auto
  qed
qed simp

lemma snapshot_peers:
  assumes "store_inv cont lo M E s" and "iter_order it"
  shows "p \<in> set (sn_peers (Store_Snapshot it s)) \<longleftrightarrow> entry s (pr_id p) = Some p"
    and "distinct (map pr_id (sn_peers (Store_Snapshot it s)))"
proof -
  have "p \<in> fmran' (m_peers (st_memory s)) \<longleftrightarrow> entry s (pr_id p) = Some p"
    using entry_ok(1)[OF assms(1)] by (auto simp: fmlookup_ran'_iff entry_def)
  then show "p \<in> set (sn_peers (Store_Snapshot it s)) \<longleftrightarrow> entry s (pr_id p) = Some p"
    by (simp add: Store_Snapshot_def snapshot_of_def set_range_values[OF assms(2)])
  have "ids_strict pr_id (sn_peers (Store_Snapshot it s))"
    using Store_Snapshot_wf[OF assms] by (simp add: snapshot_wf_def)
  then have "sorted_wrt (<) (map pr_id (sn_peers (Store_Snapshot it s)))"
    by (simp add: ids_strict_def sorted_wrt_map)
  then show "distinct (map pr_id (sn_peers (Store_Snapshot it s)))" by (simp add: strict_sorted_iff)
qed

lemma import_check_Inr:
  "import_check snap ps = Inr u \<longleftrightarrow> (\<forall>p \<in> set ps. validatePeer p snap = []) "
  by (induction ps) (auto simp: Let_def split: option.splits)

lemma ImportPeerConfig_Inr:
  assumes "pebble_laws P cont" and "store_inv cont lo M E s" and "iter_order it"
    and run: "ImportPeerConfig P peers unyaml it clk text replace (s, m) = ((s', m'), Inr out)"
    and inputs: "unyaml text = Inr (map Some ps)" and "distinct (map pr_id ps)"
  shows "(\<forall>p \<in> set ps. validatePeer (Some p) (Store_Snapshot it s) = [] \<and>
      map_option unversioned (entry s' (pr_id p)) = Some (unversioned (imported (entry s (pr_id p)) p))) \<and>
    (\<forall>i. i \<notin> pr_id ` set ps \<longrightarrow> entry s' i = (if replace then None else entry s i))"
proof -
  let ?snap = "Store_Snapshot it s"
  have ps: "List.map_filter (\<lambda>p. p) (map Some ps) = ps" by (rule map_filter_map_Some)
  obtain u where chk: "import_check ?snap (map Some ps) = Inr u"
    using run inputs by (auto simp: ImportPeerConfig_def Let_def split: sum.splits)
  then have valid: "\<forall>p \<in> set ps. validatePeer (Some p) ?snap = []" by (simp add: import_check_Inr)
  obtain s1 m1 r1 where imp: "import_loop P peers clk 0 ps [] (s, m) = ((s1, m1), r1)" by (metis prod.collapse)
  then obtain out1 where r1: "r1 = Inr out1"
    using run inputs chk by (cases r1) (auto simp: ImportPeerConfig_def Let_def ps)
  note eff = import_loop_effect[OF assms(1,6) imp[unfolded r1]]
  have snap: "i \<in> pr_id ` set (sn_peers ?snap) \<longleftrightarrow> entry s i \<noteq> None" for i
  proof
    assume "entry s i \<noteq> None"
    then obtain p where "entry s i = Some p" by blast
    moreover from this have "pr_id p = i" by (rule entry_ok(1)[OF assms(2)])
    ultimately show "i \<in> pr_id ` set (sn_peers ?snap)" using snapshot_peers(1)[OF assms(2,3), of p] by auto
  qed (auto simp: snapshot_peers(1)[OF assms(2,3)])
  have "entry s' i = (if replace \<and> entry s i \<noteq> None \<and> i \<notin> pr_id ` set ps then None else entry s1 i)" for i
  proof (cases replace)
    case True
    then obtain v where "replace_loop P peers clk (length ps) (map pr_id ps) (sn_peers ?snap) (s1, m1) = ((s', m'), Inr v)"
      using run inputs chk imp r1 by (auto simp: ImportPeerConfig_def Let_def ps split: prod.splits sum.splits)
    from replace_loop_effect[OF assms(1) this] True snap show ?thesis by simp
  next
    case False
    then show ?thesis using run inputs chk imp r1 by (auto simp: ImportPeerConfig_def Let_def ps)
  qed
  then show ?thesis using valid eff by auto
qed

text \<open>
  What an import does: every peer it names has been checked and is stored as given, except that
  an empty secret keeps the secret of the peer it replaces; every other peer is as before, or gone
  when the import replaces the configuration.
\<close>

theorem ImportPeerConfig_effect:
  assumes "pebble_laws P cont" and "store_inv cont lo M E s" and "iter_order it"
    and "ImportPeerConfig P peers unyaml it clk text replace (s, m) = ((s', m'), Inr out)"
    and "unyaml text = Inr (map Some ps)" and "distinct (map pr_id ps)"
  shows "(\<forall>p \<in> set ps. validatePeer (Some p) (Store_Snapshot it s) = [] \<and>
      map_option unversioned (entry s' (pr_id p)) = Some (unversioned (imported (entry s (pr_id p)) p))) \<and>
    (\<forall>i. i \<notin> pr_id ` set ps \<longrightarrow> entry s' i = (if replace then None else entry s i))"
  by (rule ImportPeerConfig_Inr[OF assms])

text \<open>
  C26. An export can be imported again without loss: although it carries no secrets, importing it
  into the store it came from leaves every peer as it was, the secret included, and only the
  versions go up. It does not matter whether the import replaces the configuration.
\<close>

theorem export_import_roundtrip:
  assumes "pebble_laws P cont" and "store_inv cont lo M E s" and "iter_order it"
    and "\<And>ps text. yaml ps = Inr text \<Longrightarrow> unyaml text = Inr (map Some ps)"
    and "ExportPeerConfig yaml it s = Inr text"
    and "ImportPeerConfig P peers unyaml it clk text replace (s, m) = ((s', m'), Inr out)"
  shows "map_option unversioned (entry s' i) = map_option unversioned (entry s i)"
proof -
  let ?peers = "sn_peers (Store_Snapshot it s)"
  have "yaml (map redactPeer ?peers) = Inr text" using assms(5) by (simp add: ExportPeerConfig_def split: sum.splits)
  then have txt_eq: "unyaml text = Inr (map Some (map redactPeer ?peers))" by (rule assms(4))
  have dist: "distinct (map pr_id (map redactPeer ?peers))"
    using snapshot_peers(2)[OF assms(2,3)] by (simp add: comp_def)
  note eff = ImportPeerConfig_Inr[OF assms(1-3,6) txt_eq dist]
  show ?thesis
  proof (cases "entry s i")
    case (Some p)
    have pid: "pr_id p = i" using entry_ok(1)[OF assms(2) Some] .
    then have "p \<in> set ?peers" using Some snapshot_peers(1)[OF assms(2,3)] by simp
    then have "map_option unversioned (entry s' i) = Some (unversioned (imported (Some p) (redactPeer p)))"
      using eff pid Some by auto
    moreover have "imported (Some p) (redactPeer p) = p" by (simp add: imported_def redactPeer_def)
    ultimately show ?thesis using Some by simp
  next
    case None
    then have "i \<notin> pr_id ` set (map redactPeer ?peers)" using snapshot_peers(1)[OF assms(2,3)] by auto
    then show ?thesis using eff None by auto
  qed
qed

text \<open>An encoding of lists of peers that has the round trip: one text for each list.\<close>

definition sample_yaml :: "Peer list \<Rightarrow> go_error + string" where
  "sample_yaml ps = (if ps = [redactPeer ((sample_peer ''x'' ''one'')\<lparr>pr_session_state := PEER_SESSION_STATE_IDLE, pr_resource_version := 2\<rparr>)]
     then Inr ''peers'' else Inl (New ''not supported''))"

definition sample_unyaml :: "string \<Rightarrow> go_error + Peer option list" where
  "sample_unyaml text =
     Inr [Some (redactPeer ((sample_peer ''x'' ''one'')\<lparr>pr_session_state := PEER_SESSION_STATE_IDLE, pr_resource_version := 2\<rparr>))]"

definition sample_clock :: clock where
  "sample_clock k = (None, 100)"

definition reimported :: "(contents, unit) system" where
  "reimported = fst (ImportPeerConfig memory_pebble None sample_unyaml id sample_clock ''peers'' True (fst peer_system, ()))"

lemma sample_export: "ExportPeerConfig sample_yaml id (fst peer_system) = Inr ''peers''"
  by code_simp

lemma sample_import:
  "\<exists>out. ImportPeerConfig memory_pebble None sample_unyaml id sample_clock ''peers'' True (fst peer_system, ()) =
     ((fst reimported, ()), Inr out)"
proof -
  have "\<not> isl (snd (ImportPeerConfig memory_pebble None sample_unyaml id sample_clock ''peers'' True (fst peer_system, ())))"
    by code_simp
  from answered[OF this] show ?thesis by (simp add: reimported_def)
qed

theorem export_import_roundtrip_witness:
  "map_option unversioned (entry (fst reimported) ''x'') = map_option unversioned (entry (fst peer_system) ''x'') \<and>
   map_option pr_tcp_md5_secret (entry (fst peer_system) ''x'') = Some ''s3cret''"
proof -
  obtain lo M E where inv: "store_inv (\<lambda>c. c) lo M E (fst peer_system)" using peer_system_inv by blast
  obtain out where run: "ImportPeerConfig memory_pebble None sample_unyaml id sample_clock ''peers'' True (fst peer_system, ()) =
     ((fst reimported, ()), Inr out)" using sample_import by blast
  have rt: "sample_yaml ps = Inr doc \<Longrightarrow> sample_unyaml doc = Inr (map Some ps)" for ps doc
    by (auto simp: sample_yaml_def sample_unyaml_def split: if_splits)
  have "map_option pr_tcp_md5_secret (entry (fst peer_system) ''x'') = Some ''s3cret''" by code_simp
  then show ?thesis
    using export_import_roundtrip[OF memory_pebble_laws(1) inv iter_order_id(1) rt sample_export run] by blast
qed

theorem ImportPeerConfig_effect_witness:
  "entry (fst reimported) ''y'' = None"
proof -
  obtain lo M E where inv: "store_inv (\<lambda>c. c) lo M E (fst peer_system)" using peer_system_inv by blast
  obtain out where run: "ImportPeerConfig memory_pebble None sample_unyaml id sample_clock ''peers'' True (fst peer_system, ()) =
     ((fst reimported, ()), Inr out)" using sample_import by blast
  let ?ps = "[redactPeer ((sample_peer ''x'' ''one'')\<lparr>pr_session_state := PEER_SESSION_STATE_IDLE, pr_resource_version := 2\<rparr>)]"
  have "sample_unyaml ''peers'' = Inr (map Some ?ps)" by (simp add: sample_unyaml_def)
  from ImportPeerConfig_effect[OF memory_pebble_laws(1) inv iter_order_id(1) run this] show ?thesis
    by (simp add: sample_peer_def)
qed

section \<open>Secrets in the history\<close>

lemma put_peer_logged:
  assumes "pebble_laws P cont" "store_inv cont lo M E s" "put_peer P tick p reason s = (s', Inr q)"
    and "json_ok (enc_Peer p)" "utf8_valid reason" "Suc (unat (st_revision s)) < 2 ^ 64"
  shows "\<exists>M' E'. store_inv cont lo M' E' s' \<and> unat (st_revision s') = Suc (unat (st_revision s)) \<and>
    ev_after_json (E' (unat (st_revision s'))) = Some (enc_Peer (versioned s p))"
proof -
  let ?m = "peer_mutation p False reason"
  obtain v res where app: "Apply P (fst tick) (snd tick) ?m s = (s', v, res)" and ans: "\<not> isl (answer res)"
    using assms(3) by (auto simp: put_peer_def bindR_Inr_iff split: prod.splits)
  then obtain ev where res: "res = Inr ev" by (cases res) auto
  have ok: "mutation_ok ?m" using assms(4,5) by (simp add: mutation_ok_def json_ok_Peer enc_entity_def)
  note inv' = Apply_store_inv[OF assms(1,2) ok app[unfolded res] assms(6)]
  have jo: "json_ok (enc_Peer (versioned s p))" using assms(4) by (simp add: json_ok_Peer versioned_def)
  have "ev_after_json ev = Some (enc_Peer (versioned s p))"
    using Apply_Inr[OF app[unfolded res]] jo
    by (auto simp: change_of_def stamped_def versioned_def[symmetric] marshal_value_def enc_entity_def marshal_ok)
  then show ?thesis using inv'
    by (intro exI[of _ "M(unat (st_revision s') := st_memory s')"] exI[of _ "E(unat (st_revision s') := ev)"]) simp
qed

text \<open>
  The history does not hide what the collector service redacts: after a peer has been created,
  the next page of \<open>ListChanges\<close> holds an event whose document is the peer with its TCP MD5 secret.
\<close>

theorem ListChanges_shows_secret:
  assumes "pebble_laws P cont" and "pebble_reads P" and "store_inv cont lo M E s"
    and "CreatePeer P peers it tick (Some p) (s, m) = ((s', m'), Inr q)" and "json_ok (enc_Peer p)"
    and "Suc (unat (st_revision s)) < 2 ^ 64"
  shows "\<exists>r ev j p'. ListChanges P s' \<lparr>lq_after_revision = st_revision s, lq_before_revision = 0, lq_filter = None,
       lq_page = None\<rparr> = Inr r \<and> lc_events r = [ev] \<and> ev_after_json ev = Some j \<and> dec_Peer j = Some p' \<and>
       pr_id p' = pr_id p \<and> pr_tcp_md5_secret p' = pr_tcp_md5_secret p"
proof -
  let ?n = "unat (st_revision s)"
  let ?c = "p\<lparr>pr_session_state := (if pr_enabled p then PEER_SESSION_STATE_IDLE else PEER_SESSION_STATE_DISABLED)\<rparr>"
  have chk: "create_check it s (Some p) = Inr ?c"
    using assms(4) by (auto simp: CreatePeer_def write_peer_def create_check_def Let_def split: sum.splits option.splits if_splits)
  obtain q1 where put: "put_peer P tick ?c ''peer created'' s = (s', Inr q1)"
    using assms(4) chk by (auto simp: CreatePeer_def write_peer_def put_and_upsert_def bindR_Inr_iff split: prod.splits sum.splits)
  have jo: "json_ok (enc_Peer ?c)" using assms(5) by (simp add: json_ok_Peer)
  from put_peer_logged[OF assms(1,3) put jo reasons_utf8(1) assms(6)] obtain M' E' where
    inv: "store_inv cont lo M' E' s'" and n: "unat (st_revision s') = Suc ?n"
    and ev: "ev_after_json (E' (Suc ?n)) = Some (enc_Peer (versioned s ?c))" by auto
  have no_wrap: "st_revision s \<noteq> - 1" using assms(6) by (auto simp: unsigned_minus_1_eq_mask mask_eq_exp_minus_1)
  have "\<exists>r. ListChanges P s' \<lparr>lq_after_revision = st_revision s, lq_before_revision = 0, lq_filter = None, lq_page = None\<rparr> = Inr r \<and>
      lc_events r = map E' [Suc ?n..<Suc (Suc ?n)]"
    using ListChanges_page[OF assms(1,2) inv refl, of "st_revision s" None 100 ?n "Suc ?n" 0] no_wrap n store_invD(1)[OF assms(3)]
    by (auto simp: changes_after_def pageBounds_def upper_revision_def simp del: upt_Suc)
  moreover have "dec_Peer (enc_Peer (versioned s ?c)) = Some (versioned s ?c)"
    using jo by (simp add: dec_enc_entities)
  ultimately show ?thesis using ev
    by (auto simp: versioned_def) 
qed

theorem ListChanges_shows_secret_witness:
  "\<exists>r ev j p'. ListChanges memory_pebble (fst peer_system) \<lparr>lq_after_revision = 1, lq_before_revision = 0,
       lq_filter = None, lq_page = None\<rparr> = Inr r \<and> lc_events r = [ev] \<and> ev_after_json ev = Some j \<and>
     dec_Peer j = Some p' \<and> pr_tcp_md5_secret p' = ''s3cret''"
proof -
  let ?p = "sample_peer ''x'' ''one''"
  obtain lo M E where inv: "store_inv (\<lambda>c. c) lo M E domain_store" using domain_store_inv by blast
  have run: "CreatePeer memory_pebble None id (None, 10) (Some ?p) (domain_store, ()) =
      ((fst peer_system, snd peer_system), Inr (redactPeer (?p\<lparr>pr_session_state := PEER_SESSION_STATE_IDLE, pr_resource_version := 2\<rparr>)))"
    using sample_peer_runs(1) by (simp add: peer_system_def prod_eq_iff)
  have s: "json_ok (enc_Peer ?p)" "st_revision domain_store = 1" "pr_tcp_md5_secret ?p = ''s3cret''" by code_simp+
  from ListChanges_shows_secret[OF memory_pebble_laws inv run s(1)] show ?thesis
    unfolding s(2,3) by auto
qed

section \<open>Pages\<close>

interpretation peer_pages: page_query
  "\<lambda>(it, s, domain). Inr (Store_Snapshot it s)" sn_peers pr_id
  "\<lambda>(it, s, domain) p. Inr (\<not> (domain \<noteq> [] \<and> pr_domain_id p \<noteq> domain))" redactPeer
  failure_of "\<lambda>(it, s, domain) pg. ListPeers it s domain pg"
  by unfold_locales (auto simp: ListPeers_def list_page_def bindR_def answer_def Let_def split: sum.split prod.split)

text \<open>
  Paging through the peers is complete: a client that follows the tokens of \<open>ListPeers\<close> gets
  every peer of the domain (of every domain, when it names none) exactly once, in the order of their
  identifiers and without secrets, whatever page size it asks for.
\<close>

theorem ListPeers_pages_complete:
  assumes "store_inv cont lo M E s" and "iter_order it"
  shows "walk_pages (Suc (length (sn_peers (Store_Snapshot it s)))) (ListPeers it s domain) limit [] =
    Some (Inr (map redactPeer (filter (\<lambda>p. domain = [] \<or> pr_domain_id p = domain) (sn_peers (Store_Snapshot it s)))))"
  using peer_pages.walk_all[of "(it, s, domain)" "Store_Snapshot it s" "\<lambda>p. domain = [] \<or> pr_domain_id p = domain"
      "Suc (length (sn_peers (Store_Snapshot it s)))" limit] Store_Snapshot_wf[OF assms]
  by (auto simp: snapshot_wf_def ids_strict_def)

theorem ListPeers_pages_complete_witness:
  "\<exists>ps. walk_pages 2 (ListPeers id (fst peer_system) ''d'') 1 [] = Some (Inr ps) \<and> map pr_id ps = [''x'']"
proof -
  obtain lo M E where inv: "store_inv (\<lambda>c. c) lo M E (fst peer_system)" using peer_system_inv by blast
  have "map pr_id (map redactPeer (filter (\<lambda>p. ''d'' = [] \<or> pr_domain_id p = ''d'') (sn_peers (Store_Snapshot id (fst peer_system))))) = [''x'']"
    "Suc (length (sn_peers (Store_Snapshot id (fst peer_system)))) = 2" by code_simp+
  then show ?thesis using ListPeers_pages_complete[OF inv iter_order_id(1), of "''d''" 1]
    by (intro exI conjI) (simp_all only:)
qed

section \<open>The invariant of the store\<close>

lemma import_loop_steps:
  assumes "import_loop P peers clk k ps out (s, m) = ((s', m'), r)" and "pebble_laws P cont" "pebble_reads P"
    and "store_inv cont lo M E s" and "\<forall>p \<in> set ps. json_ok (enc_Peer p)" and "unat (st_revision s) + length ps < 2 ^ 64"
  shows "(store_step P)\<^sup>*\<^sup>* s s' \<and> unat (st_revision s') \<le> unat (st_revision s) + length ps"
  using assms(1,4-6)
proof (induction ps arbitrary: k out s m lo M E)
  case (Cons p ps)
  let ?q = "imported (entry s (pr_id p)) p"
  obtain s1 m1 r1 where put: "put_and_upsert P peers (clk k) ?q ''peer configuration imported'' (s, m) = ((s1, m1), r1)"
    by (metis prod.collapse)
  have "json_ok (enc_Peer ?q)"
    using Cons.prems(3) entry_ok(3)[OF Cons.prems(2)] by (auto simp: imported_def json_ok_Peer split: option.split)
  then have step: "store_step P s s1"
    using put_and_upsert_step[OF put _ reasons_utf8(5)] Cons.prems(4) by simp
  have rev1: "unat (st_revision s1) \<le> Suc (unat (st_revision s))"
    using store_step_change[OF assms(2,3) Cons.prems(2) step] Cons.prems(4) by (auto simp: unat_word_ariths)
  show ?case
  proof (cases r1)
    case (Inl e)
    then have "s' = s1" using Cons.prems(1) put by (simp add: import_loop_Cons)
    then show ?thesis using step rev1 by auto
  next
    case (Inr q)
    then have rest: "import_loop P peers clk (Suc k) ps (out @ [q]) (s1, m1) = ((s', m'), r)"
      using Cons.prems(1) put by (simp add: import_loop_Cons)
    obtain lo1 M1 E1 where inv1: "store_inv cont lo1 M1 E1 s1"
      using store_step_inv[OF assms(2,3) Cons.prems(2) step] by (auto simp: extends_history_def)
    have "(store_step P)\<^sup>*\<^sup>* s1 s' \<and> unat (st_revision s') \<le> unat (st_revision s1) + length ps"
      by (rule Cons.IH[OF rest inv1]) (use Cons.prems(3,4) rev1 in auto)
    then show ?thesis using step rev1 by (auto intro: converse_rtranclp_into_rtranclp)
  qed
qed auto

lemma replace_loop_steps:
  assumes "replace_loop P peers clk k incoming ps (s, m) = ((s', m'), r)" and "pebble_laws P cont" "pebble_reads P"
    and "store_inv cont lo M E s" and "\<forall>p \<in> set ps. json_ok (enc_Peer p)" and "unat (st_revision s) + length ps < 2 ^ 64"
  shows "(store_step P)\<^sup>*\<^sup>* s s'"
  using assms(1,4-6)
proof (induction ps arbitrary: k s m lo M E)
  case (Cons p ps)
  show ?case
  proof (cases "pr_id p \<in> set incoming")
    case True
    then show ?thesis using Cons.IH[of k s m lo M E] Cons.prems by simp
  next
    case False
    obtain m1 err where del: "pm_delete (manager peers) (pr_id p) m = (m1, err)"
      by (cases "pm_delete (manager peers) (pr_id p) m")
    obtain s1 r1 where drop: "drop_peer P (clk k) p ''peer removed by configuration import'' s = (s1, r1)"
      by (cases "drop_peer P (clk k) p ''peer removed by configuration import'' s")
    have step: "store_step P s s1"
      using drop_peer_step[OF drop _ reasons_utf8(6)] Cons.prems(3,4) by simp
    have rev1: "unat (st_revision s1) \<le> Suc (unat (st_revision s))"
      using store_step_change[OF assms(2,3) Cons.prems(2) step] Cons.prems(4) by (auto simp: unat_word_ariths)
    obtain lo1 M1 E1 where inv1: "store_inv cont lo1 M1 E1 s1"
      using store_step_inv[OF assms(2,3) Cons.prems(2) step] by (auto simp: extends_history_def)
    have "(store_step P)\<^sup>*\<^sup>* s1 s'" if "replace_loop P peers clk (Suc k) incoming ps (s1, m1) = ((s', m'), r)"
      by (rule Cons.IH[OF that inv1]) (use Cons.prems(3,4) rev1 in auto)
    then show ?thesis
      using Cons.prems(1) del drop False step
      by (cases err; cases r1) (auto intro: converse_rtranclp_into_rtranclp)
  qed
qed auto

lemma ImportPeerConfig_steps:
  assumes run: "ImportPeerConfig P peers unyaml it clk doc replace (s, m) = ((s', m'), r)"
    and "pebble_laws P cont" "pebble_reads P" "store_inv cont lo M E s" "iter_order it"
    and inputs: "\<And>ps. unyaml doc = Inr ps \<Longrightarrow> (\<forall>p. Some p \<in> set ps \<longrightarrow> json_ok (enc_Peer p)) \<and>
      unat (st_revision s) + length ps + length (sn_peers (Store_Snapshot it s)) < 2 ^ 64"
  shows "(store_step P)\<^sup>*\<^sup>* s s'"
proof (cases "\<exists>ps u. unyaml doc = Inr ps \<and> import_check (Store_Snapshot it s) ps = Inr u")
  case False
  then show ?thesis using run by (auto simp: ImportPeerConfig_def Let_def split: sum.splits)
next
  case True
  let ?snap = "Store_Snapshot it s"
  from True obtain inp u where inp: "unyaml doc = Inr inp" "import_check ?snap inp = Inr u" by blast
  define ps where "ps = List.map_filter (\<lambda>p. p) inp"
  have len: "length ps \<le> length inp" by (simp add: ps_def List.map_filter_def)
  have ok: "\<forall>p \<in> set ps. json_ok (enc_Peer p)"
    using inputs[OF inp(1)] by (auto simp: ps_def List.map_filter_def)
  obtain s1 m1 r1 where imp: "import_loop P peers clk 0 ps [] (s, m) = ((s1, m1), r1)" by (metis prod.collapse)
  have steps: "(store_step P)\<^sup>*\<^sup>* s s1 \<and> unat (st_revision s1) \<le> unat (st_revision s) + length ps"
    by (rule import_loop_steps[OF imp assms(2-4) ok]) (use inputs[OF inp(1)] len in linarith)
  then obtain lo1 M1 E1 where inv1: "store_inv cont lo1 M1 E1 s1"
    using store_steps_inv[OF assms(2-4), of s1] unfolding extends_history_def by blast
  have peers: "\<forall>p \<in> set (sn_peers ?snap). json_ok (enc_Peer p)"
    using snapshot_peers(1)[OF assms(4,5)] entry_ok(3)[OF assms(4)] by blast
  have "(store_step P)\<^sup>*\<^sup>* s1 s2" if "replace_loop P peers clk (length ps) (map pr_id ps) (sn_peers ?snap) (s1, m1) = ((s2, m2), r2)"
    for s2 m2 r2
    by (rule replace_loop_steps[OF that assms(2,3) inv1 peers]) (use inputs[OF inp(1)] len steps in linarith)
  then show ?thesis
    using run inp imp steps
    by (auto simp: ImportPeerConfig_def Let_def ps_def[symmetric] split: sum.splits prod.splits if_splits
        intro: rtranclp_trans)
qed

text \<open>
  The service at work: a call of the service on some decoded request, or a step of the store that
  something else takes. The strings of a decoded request are UTF-8, as protobuf requires.
\<close>

inductive collector_step ::
  "'db pebble \<Rightarrow> 'p PeerManager option \<Rightarrow> ('db, 'p) system \<Rightarrow> ('db, 'p) system \<Rightarrow> bool" for P peers where
  create: "CreatePeer P peers it tick req (s, m) = ((s', m'), r) \<Longrightarrow> (\<And>p. req = Some p \<Longrightarrow> json_ok (enc_Peer p)) \<Longrightarrow>
     Suc (unat (st_revision s)) < 2 ^ 64 \<Longrightarrow> collector_step P peers (s, m) (s', m')"
| update: "UpdatePeer P peers it tick req v (s, m) = ((s', m'), r) \<Longrightarrow> (\<And>p. req = Some p \<Longrightarrow> json_ok (enc_Peer p)) \<Longrightarrow>
     Suc (unat (st_revision s)) < 2 ^ 64 \<Longrightarrow> collector_step P peers (s, m) (s', m')"
| delete: "DeletePeer P peers tick i v (s, m) = ((s', m'), u) \<Longrightarrow>
     Suc (unat (st_revision s)) < 2 ^ 64 \<Longrightarrow> collector_step P peers (s, m) (s', m')"
| admin: "SetPeerAdminState P peers tick i on v (s, m) = ((s', m'), r) \<Longrightarrow>
     Suc (unat (st_revision s)) < 2 ^ 64 \<Longrightarrow> collector_step P peers (s, m) (s', m')"
| reset: "ResetPeer peers i soft (s, m) = ((s', m'), r) \<Longrightarrow> collector_step P peers (s, m) (s', m')"
| import_config: "ImportPeerConfig P peers unyaml it clk doc replace (s, m) = ((s', m'), rs) \<Longrightarrow> iter_order it \<Longrightarrow>
     (\<And>ps. unyaml doc = Inr ps \<Longrightarrow> (\<forall>p. Some p \<in> set ps \<longrightarrow> json_ok (enc_Peer p)) \<and>
        unat (st_revision s) + length ps + length (sn_peers (Store_Snapshot it s)) < 2 ^ 64) \<Longrightarrow>
     collector_step P peers (s, m) (s', m')"
| other: "store_step P s s' \<Longrightarrow> collector_step P peers (s, m) (s', m)"

lemma ResetPeer_store: "ResetPeer peers i soft (s, m) = ((s', m'), r) \<Longrightarrow> s' = s"
  by (auto simp: ResetPeer_def split: sum.splits prod.splits option.splits)

lemma collector_step_store:
  assumes "pebble_laws P cont" "pebble_reads P" "store_inv cont lo M E s" and "collector_step P peers (s, m) (s', m')"
  shows "(store_step P)\<^sup>*\<^sup>* s s'"
  using assms(4)
proof cases
  case (create it tick req r)
  show ?thesis by (rule CreatePeer_steps[OF create(1)]) (use create(2,3) in auto)
next
  case (update it tick req v r)
  show ?thesis by (rule UpdatePeer_steps[OF assms(3) update(1)]) (use update(2,3) in auto)
next
  case (delete tick i v u)
  show ?thesis by (rule DeletePeer_steps[OF assms(3) delete])
next
  case (admin tick i on v r)
  show ?thesis by (rule SetPeerAdminState_steps[OF assms(3) admin])
next
  case (reset i soft r)
  from ResetPeer_store[OF reset] show ?thesis by simp
next
  case (import_config unyaml it clk doc replace rs)
  show ?thesis
    by (rule ImportPeerConfig_steps[OF import_config(1) assms(1-3) import_config(2)]) (use import_config(3) in blast)
qed blast

lemma versions_ok_steps:
  assumes "pebble_laws P cont" "pebble_reads P" "store_inv cont lo M E s" "(store_step P)\<^sup>*\<^sup>* s s'" and "versions_ok s"
  shows "versions_ok s'"
  using steps_induct[OF assms(1-4), where Q = versions_ok] versions_ok_step[OF assms(1,2)] assms(5) by blast

text \<open>
  The collector service keeps the store consistent: however its calls and other changes of the
  store follow each other, the invariant of the store holds, no version of a peer is ahead of the
  revision, and the past revisions and their events are as they were.
\<close>

theorem collector_keeps_invariant:
  assumes "pebble_laws P cont" and "pebble_reads P" and "store_inv cont lo M E (fst sys)" and "versions_ok (fst sys)"
    and "(collector_step P peers)\<^sup>*\<^sup>* sys sys'"
  shows "\<exists>lo' M' E'. extends_history cont lo M E (fst sys) lo' M' E' (fst sys') \<and> versions_ok (fst sys')"
  using assms(5)
proof (induction rule: rtranclp_induct)
  case base
  then show ?case using assms(3,4) by (auto simp: extends_history_def)
next
  case (step sys1 sys2)
  then obtain lo1 M1 E1 where h: "extends_history cont lo M E (fst sys) lo1 M1 E1 (fst sys1)" and v: "versions_ok (fst sys1)"
    by blast
  then have inv1: "store_inv cont lo1 M1 E1 (fst sys1)" by (simp add: extends_history_def)
  have run: "(store_step P)\<^sup>*\<^sup>* (fst sys1) (fst sys2)"
    using collector_step_store[OF assms(1,2) inv1] step(2) by (metis prod.collapse)
  from store_steps_inv[OF assms(1,2) inv1 run] obtain lo2 M2 E2 where
    "extends_history cont lo1 M1 E1 (fst sys1) lo2 M2 E2 (fst sys2)" by blast
  then show ?case using extends_history_trans[OF h] versions_ok_steps[OF assms(1,2) inv1 run v] by blast
qed

theorem collector_keeps_invariant_witness:
  "\<exists>lo' M' E'. store_inv (\<lambda>c. c) lo' M' E' (fst reimported) \<and> versions_ok (fst reimported)"
proof -
  obtain lo M E where inv: "store_inv (\<lambda>c. c) lo M E (fst peer_system)" using peer_system_inv by blast
  obtain out where run: "ImportPeerConfig memory_pebble None sample_unyaml id sample_clock ''peers'' True (fst peer_system, ()) =
     ((fst reimported, ()), Inr out)" using sample_import by blast
  have ok: "json_ok (enc_Peer (redactPeer ((sample_peer ''x'' ''one'')\<lparr>pr_session_state := PEER_SESSION_STATE_IDLE,
      pr_resource_version := 2\<rparr>)))" "length (sn_peers (Store_Snapshot id (fst peer_system))) = 1" by code_simp+
  have "collector_step memory_pebble None (fst peer_system, ()) (fst reimported, ())"
    by (rule import_config[OF run iter_order_id(1)]) (use ok in \<open>auto simp: sample_unyaml_def sample_peer_runs(2)\<close>)
  then have steps: "(collector_step memory_pebble None)\<^sup>*\<^sup>* (fst peer_system, ()) (fst reimported, ())"
    by (rule r_into_rtranclp)
  from collector_keeps_invariant[OF memory_pebble_laws _ _ steps, of lo M E] inv peer_system_versions show ?thesis
    unfolding extends_history_def by auto
qed

end
