(* ===== verification/Bgp_Sync.thy ===== *)
theory Bgp_Sync
  imports Bgp_Collector Bgp_Path_Theorems Import_Theorems
begin

text \<open>
  The collector behind the service. The interface between them is the locale \<open>managed_peers\<close>: what a
  peer manager does to the peers it manages. The collector is an interpretation of it, and so the
  configuration of the peers in the store and in the collector's registry stay the same along the calls
  of the service that succeed and along all events of the BGP engine.
\<close>

section \<open>The interface\<close>

text \<open>The configuration of a peer: what remains when the state of its session is left out.\<close>

definition config_of :: "Peer \<Rightarrow> Peer" where
  "config_of p = p\<lparr>pr_session_state := PEER_SESSION_STATE_UNSPECIFIED, pr_router_id := [], pr_established_at := None,
     pr_last_state_change := None, pr_last_error := [], pr_received_updates := 0, pr_rejected_updates := 0,
     pr_resource_version := 0\<rparr>"

definition same_config :: "(string \<Rightarrow> Peer option) \<Rightarrow> (string \<Rightarrow> Peer option) \<Rightarrow> bool" where
  "same_config t u \<longleftrightarrow> (\<forall>i. map_option config_of (t i) = map_option config_of (u i))"

lemma config_versioned [simp]: "config_of (versioned s p) = config_of p"
  by (simp add: config_of_def versioned_def)

lemma same_config_upd: "same_config t u \<Longrightarrow> config_of p = config_of q \<Longrightarrow> same_config (t(i \<mapsto> p)) (u(i \<mapsto> q))"
  by (simp add: same_config_def)

lemma same_config_drop: "same_config t u \<Longrightarrow> same_config (t(i := None)) (u(i := None))"
  by (simp add: same_config_def)

locale managed_peers =
  fixes M :: "'p PeerManager" and managed :: "'p \<Rightarrow> string \<Rightarrow> Peer option"
  assumes upsert_accepted: "pm_upsert M p m = (m', None) \<Longrightarrow> managed m' = (managed m)(pr_id p \<mapsto> p)"
    and upsert_refused: "pm_upsert M p m = (m', Some e) \<Longrightarrow> managed m' = managed m"
    and delete_accepted: "pm_delete M i m = (m', None) \<Longrightarrow> managed m' = (managed m)(i := None)"
    and delete_refused: "pm_delete M i m = (m', Some e) \<Longrightarrow> managed m' = managed m"
    and reset_managed: "pm_reset M i soft m = (m', err) \<Longrightarrow> managed m' = managed m"
begin

definition synced :: "'db Store \<times> 'p \<Rightarrow> bool" where
  "synced sys \<longleftrightarrow> same_config (entry (fst sys)) (managed (snd sys))"

lemma put_and_upsert_synced:
  assumes "pebble_laws P cont" and "put_and_upsert P (Some M) tick p reason (s, m) = ((s', m'), Inr q)" and "synced (s, m)"
  shows "synced (s', m')"
proof -
  have st: "stored s p s'" "m' = fst (pm_upsert M (versioned s p) m)" "snd (pm_upsert M (versioned s p) m) = None"
    using put_and_upsert_cases[OF assms(1,2)] by (auto simp: manager_def api_result_def split: option.splits)
  then have "pm_upsert M (versioned s p) m = (m', None)" by (metis prod.collapse)
  from upsert_accepted[OF this] show ?thesis
    using assms(3) stored_entry[OF st(1)] by (simp add: synced_def same_config_upd)
qed

lemma write_peer_synced:
  assumes "pebble_laws P cont" and "write_peer P (Some M) tick reason checked (s, m) = ((s', m'), Inr q)" and "synced (s, m)"
  shows "synced (s', m')"
proof (cases checked)
  case (Inr p)
  obtain s1 m1 r where put: "put_and_upsert P (Some M) tick p reason (s, m) = ((s1, m1), r)" by (metis prod.collapse)
  with assms(2) Inr have "(s1, m1) = (s', m')" "\<exists>q. r = Inr q" by (auto simp: write_peer_def bindR_Inr_iff)
  then show ?thesis using put_and_upsert_synced[OF assms(1) _ assms(3)] put by blast
qed (use assms(2) in \<open>simp add: write_peer_def\<close>)

lemma drop_synced:
  assumes "pebble_laws P cont" and "pm_delete M (pr_id p) m = (m', None)" and "drop_peer P tick p reason s = (s', Inr u)"
    and "synced (s, m)"
  shows "synced (s', m')"
  using drop_peer_cases[OF assms(1,3)] delete_accepted[OF assms(2)] assms(4)
  by (auto simp: synced_def removed_entry same_config_drop)

lemma DeletePeer_synced:
  assumes "pebble_laws P cont" and "DeletePeer P (Some M) tick i expected (s, m) = ((s', m'), Inr u)" and "synced (s, m)"
  shows "synced (s', m')"
proof -
  obtain p m1 s1 where del: "pm_delete M (pr_id p) m = (m1, None)" and drop: "drop_peer P tick p ''peer deleted'' s = (s1, Inr u)"
    and eq: "s1 = s'" "m1 = m'"
    using assms(2) by (auto simp: DeletePeer_def manager_def split: sum.splits prod.splits option.splits)
  show ?thesis using drop_synced[OF assms(1) del drop assms(3)] eq by simp
qed

lemma ResetPeer_synced:
  assumes "ResetPeer (Some M) i soft (s, m) = ((s', m'), r)" and "synced (s, m)"
  shows "synced (s', m')"
  using assms reset_managed[of i soft m]
  by (auto simp: ResetPeer_def manager_def synced_def split: sum.splits prod.splits option.splits)

lemma import_loop_synced:
  "pebble_laws P cont \<Longrightarrow> import_loop P (Some M) clk k ps out (s, m) = ((s', m'), Inr out') \<Longrightarrow> synced (s, m) \<Longrightarrow>
     synced (s', m')"
proof (induction ps arbitrary: k out s m)
  case (Cons p ps)
  obtain s1 m1 r where put: "put_and_upsert P (Some M) (clk k) (imported (entry s (pr_id p)) p) ''peer configuration imported'' (s, m) = ((s1, m1), r)"
    by (metis prod.collapse)
  obtain q where r: "r = Inr q" and rest: "import_loop P (Some M) clk (Suc k) ps (out @ [q]) (s1, m1) = ((s', m'), Inr out')"
    using Cons.prems(2) put by (cases r) (auto simp: import_loop_Cons simp del: import_loop.simps)
  show ?case using Cons.IH[OF Cons.prems(1) rest] put_and_upsert_synced[OF Cons.prems(1) put[unfolded r] Cons.prems(3)] by blast
qed simp

lemma replace_loop_synced:
  "pebble_laws P cont \<Longrightarrow> replace_loop P (Some M) clk k incoming ps (s, m) = ((s', m'), Inr u) \<Longrightarrow> synced (s, m) \<Longrightarrow>
     synced (s', m')"
proof (induction ps arbitrary: k s m)
  case (Cons p ps)
  show ?case
  proof (cases "pr_id p \<in> set incoming")
    case True
    then show ?thesis using Cons by simp
  next
    case False
    then obtain m1 s1 where del: "pm_delete M (pr_id p) m = (m1, None)"
      and drop: "drop_peer P (clk k) p ''peer removed by configuration import'' s = (s1, Inr ())"
      and rest: "replace_loop P (Some M) clk (Suc k) incoming ps (s1, m1) = ((s', m'), Inr u)"
      using Cons.prems(2) by (auto simp: manager_def split: sum.splits prod.splits option.splits)
    show ?thesis using Cons.IH[OF Cons.prems(1) rest] drop_synced[OF Cons.prems(1) del drop Cons.prems(3)] by blast
  qed
qed simp

lemma ImportPeerConfig_synced:
  assumes "pebble_laws P cont" and "ImportPeerConfig P (Some M) unyaml it clk data replace (s, m) = ((s', m'), Inr out)"
    and "synced (s, m)"
  shows "synced (s', m')"
proof -
  obtain s1 m1 ps out1 where imp: "import_loop P (Some M) clk 0 ps [] (s, m) = ((s1, m1), Inr out1)"
    and rest: "(s1, m1) = (s', m') \<or> (\<exists>k u. replace_loop P (Some M) clk k (map pr_id ps) (sn_peers (Store_Snapshot it s)) (s1, m1)
        = ((s', m'), Inr u))"
    using assms(2) by (auto simp: ImportPeerConfig_def Let_def split: sum.splits prod.splits if_splits) blast
  note one = import_loop_synced[OF assms(1) imp assms(3)]
  show ?thesis using rest one replace_loop_synced[OF assms(1)] by blast
qed

end

section \<open>The collector is a peer manager\<close>

lemma on_server_frame:
  assumes "on_server f c = (c', r)"
  shows "co_peers c' = co_peers c \<and> co_byAddress c' = co_byAddress c \<and> co_sources c' = co_sources c \<and> co_cfg c' = co_cfg c \<and>
    co_started c' = co_started c \<and> co_pathsTotal c' = co_pathsTotal c \<and> co_decodeErrorsTotal c' = co_decodeErrorsTotal c"
  using assms by (auto simp: on_server_def split: option.splits prod.splits)

lemma drop_old_frame:
  assumes "drop_old E p c = (c', r)"
  shows "co_peers c' = co_peers c \<and> co_byAddress c' = co_byAddress c \<and> co_started c' = co_started c"
  using assms by (auto simp: drop_old_def dest!: on_server_frame split: option.splits prod.splits sum.splits fault.splits)

lemma upsertLocked_cases:
  assumes "upsertLocked E p c = (c', r)"
  shows "(r = Inr () \<and> co_peers c' = fmupd (pr_id p) p (co_peers c) \<and>
      co_byAddress c' = fmupd (pr_remote_address p) (pr_id p) (co_byAddress c) \<and> co_started c) \<or>
    ((\<exists>f. r = Inl f) \<and> co_peers c' = co_peers c \<and> co_byAddress c' = co_byAddress c)"
  using assms
  by (auto simp: upsertLocked_def dest!: drop_old_frame on_server_frame
      split: if_splits prod.splits sum.splits fault.splits)

lemma Delete_cases:
  assumes "Delete E i c = (c', r)"
  shows "(\<exists>p. r = Inr () \<and> fmlookup (co_peers c) i = Some p \<and> co_peers c' = fmdrop i (co_peers c) \<and>
      co_byAddress c' = fmdrop (pr_remote_address p) (co_byAddress c)) \<or>
    ((\<exists>f. r = Inl f) \<and> co_peers c' = co_peers c \<and> co_byAddress c' = co_byAddress c)"
  using assms by (auto simp: Delete_def dest!: on_server_frame split: option.splits prod.splits sum.splits)

lemma Reset_frame: "Reset E i soft c = (c', r) \<Longrightarrow> co_peers c' = co_peers c \<and> co_byAddress c' = co_byAddress c"
  by (auto simp: Reset_def dest!: on_server_frame split: option.splits)

lemma manager_error_None [simp]: "manager_error r = None \<longleftrightarrow> (\<exists>u. r = Inr u)" "manager_error r = Some e \<Longrightarrow> \<exists>f. r = Inl f"
  by (auto simp: manager_error_def split: sum.splits fault.splits)

interpretation cm: managed_peers "collector_manager E" "\<lambda>c. fmlookup (co_peers c)" for E :: "'e engine"
proof (unfold_locales, goal_cases)
  case (1 p c c')
  then show ?case using upsertLocked_cases[of E p c "fst (Upsert E p c)" "snd (Upsert E p c)"]
    by (auto simp: collector_manager_def Upsert_def map_prod_def split: prod.splits)
next
  case (2 p c c' e)
  then show ?case using upsertLocked_cases[of E p c "fst (Upsert E p c)" "snd (Upsert E p c)"]
    by (auto simp: collector_manager_def Upsert_def map_prod_def manager_error_def split: prod.splits)
next
  case (3 i c c')
  then show ?case using Delete_cases[of E i c "fst (Delete E i c)" "snd (Delete E i c)"]
    by (auto simp: collector_manager_def map_prod_def split: prod.splits)
next
  case (4 i c c' e)
  then show ?case using Delete_cases[of E i c "fst (Delete E i c)" "snd (Delete E i c)"]
    by (auto simp: collector_manager_def map_prod_def manager_error_def split: prod.splits)
next
  case (5 i soft c c' err)
  then show ?case using Reset_frame[of E i soft c "fst (Reset E i soft c)" "snd (Reset E i soft c)"]
    by (auto simp: collector_manager_def map_prod_def split: prod.splits)
qed

text \<open>The registry and the store hold the same configurations.\<close>

definition registry_synced :: "('db, 'e Collector) system \<Rightarrow> bool" where
  "registry_synced sys \<longleftrightarrow> same_config (entry (fst sys)) (fmlookup (co_peers (snd sys)))"

lemma registry_synced_cm: "cm.synced = registry_synced"
  by (simp add: fun_eq_iff cm.synced_def registry_synced_def)

end
