(* ===== verification/Bgp_Events.thy ===== *)
theory Bgp_Events
  imports Bgp_Sync
begin

text \<open>
  The handlers of the engine's events: exactly two kinds of paths stop the process, all others are
  handled and counted, a path that is refused changes nothing but counters, and no event changes the
  configuration of a peer.
\<close>

section \<open>Frames\<close>

definition topology_kinds :: "EntityKind set" where
  "topology_kinds = {ENTITY_KIND_NODE, ENTITY_KIND_LINK, ENTITY_KIND_PREFIX}"

text \<open>An advertisement that is not accepted leaves the entities of the store as they are.\<close>

lemma Reconciler_Apply_store:
  assumes "pebble_laws P cont" and "sources_ok r" and "ad_ok a" and "iter_order it"
    and "Reconciler_Apply P it ctxErr now a r = (r', res)"
  shows "sources_ok r' \<and> (\<forall>k i. (k, i) \<noteq> (ad_kind a, ad_id a) \<longrightarrow> Get (rc_store r') k i = Get (rc_store r) k i) \<and>
    (\<forall>f. res = Inl f \<longrightarrow> st_memory (rc_store r') = st_memory (rc_store r) \<and> (\<exists>e. f = Error e))"
proof -
  have "st_memory (rc_store r') = st_memory (rc_store r) \<and> (\<exists>e. f = Error e)" if f: "res = Inl f" for f
  proof -
    obtain m v where "Apply P ctxErr now m (rc_store r) = (rc_store r', v, Inl f)"
      using assms(5) f unfolding Reconciler_Apply_eq[OF assms(2-4)] Let_def by (auto split: prod.splits)
    from Apply_Inl[OF assms(1) this] show ?thesis by auto
  qed
  then show ?thesis
    using Reconciler_Apply_rule[OF assms] by (cases res) (auto simp: Get_def)
qed

lemma advertise_frame:
  assumes "pebble_laws P cont" and "iter_order (w_it w)" and "pr_id peer \<noteq> []"
  shows "sources_ok r \<Longrightarrow> \<forall>(i, v)\<in>set es. i \<noteq> [] \<and> mark_stale v \<noteq> None \<and> kind_of v \<in> topology_kinds \<Longrightarrow>
    advertise P w peer withdraw stale es r = (r', res) \<Longrightarrow>
    sources_ok r' \<and> (\<forall>k i. k \<notin> topology_kinds \<longrightarrow> Get (rc_store r') k i = Get (rc_store r) k i) \<and>
    (\<forall>f. res = Inl f \<longrightarrow> (\<exists>e. f = PathError e))"
proof (induction es arbitrary: r)
  case (Cons x es)
  obtain i v where e: "x = (i, v)" by (cases x)
  with Cons.prems(2) have iv: "i \<noteq> []" "mark_stale v \<noteq> None" "kind_of v \<in> topology_kinds" by auto
  let ?a = "path_ad peer withdraw i (fresh stale v)"
  have ok: "ad_ok ?a" "ad_kind ?a = kind_of v" using assms(3) iv by (simp_all add: ad_ok_def path_ad_def)
  obtain r1 q where run: "Reconciler_Apply P (w_it w) (w_ctx w) (w_now w) ?a r = (r1, q)"
    by (cases "Reconciler_Apply P (w_it w) (w_ctx w) (w_now w) ?a r")
  note st = Reconciler_Apply_store[OF assms(1) Cons.prems(1) ok(1) assms(2) run]
  have gets: "Get (rc_store r1) k j = Get (rc_store r) k j" if "k \<notin> topology_kinds" for k j
  proof -
    have "(k, j) \<noteq> (ad_kind ?a, ad_id ?a)" using ok(2) iv(3) that by auto
    then show ?thesis using st by blast
  qed
  have "apply_ad P w peer withdraw (kind_of v) i (fresh stale v) r =
      (r1, case q of Inl f \<Rightarrow> Inl (to_path_fault f) | Inr ev \<Rightarrow> Inr ())"
    using run by (simp add: apply_ad_def path_ad_def kind_fresh[OF iv(2)] split: sum.split)
  then show ?case
    using Cons.IH[of r1] Cons.prems(2,3) st gets e by (cases q) auto
qed auto

lemma bindR_Inl_iff: "bindR r f = Inl e \<longleftrightarrow> r = Inl e \<or> (\<exists>x. r = Inr x \<and> f x = Inl e)"
  by (cases r) auto

lemma path_entities_no_hang: "path_entities w domain path \<noteq> Inl PathHang"
proof -
  have pre: "prefix_entities w domain n six attrs raw \<noteq> Inl PathHang" for n six attrs raw
    by (auto simp: prefix_entities_def bindR_Inl_iff panics_def descriptor_def Let_def
        split: sum.splits node_slot.splits option.splits)
  have "nlri_entities w domain nlri attrs raw \<noteq> Inl PathHang" for nlri attrs raw
    using pre by (cases nlri) (auto simp: nlri_entities_def link_descriptors_def bindR_Inl_iff panics_def descriptor_def Let_def
        split: sum.splits node_slot.splits option.splits)
  then show ?thesis
    by (auto simp: path_entities_def path_parts_def bindR_Inl_iff panics_def nlri_of_def
        split: sum.splits Nlri.splits option.splits)
qed

lemma handlePath_frame:
  assumes "pebble_laws P cont" and "iter_order (w_it w)" and "pr_id peer \<noteq> []" and "sources_ok r"
    and "handlePath P w peer path r = (r', res)"
  shows "sources_ok r' \<and> (\<forall>k i. k \<notin> topology_kinds \<longrightarrow> Get (rc_store r') k i = Get (rc_store r) k i) \<and> res \<noteq> Inl PathHang"
proof (cases "path_entities w (pr_domain_id peer) path")
  case (Inl f)
  then show ?thesis using assms(4,5) path_entities_no_hang[of w "pr_domain_id peer" path] by (auto simp: handlePath_advertise)
next
  case (Inr es)
  have "\<forall>(i, v)\<in>set es. i \<noteq> [] \<and> mark_stale v \<noteq> None \<and> kind_of v \<in> topology_kinds"
    using Inr nlri_entities_ok unfolding path_entities_Inr topology_kinds_def by fastforce
  from advertise_frame[OF assms(1-4) this] show ?thesis
    using assms(5) Inr by (fastforce simp: handlePath_advertise)
qed

lemma Get_PEER_entry: "(\<forall>i. Get s' ENTITY_KIND_PEER i = Get s ENTITY_KIND_PEER i) \<longleftrightarrow> entry s' = entry s"
  by (auto simp: Get_peer_eq fun_eq_iff split: option.splits) (metis not_None_eq)

text \<open>A system whose reconciler holds sources of the right kinds, and whose peers have identifiers.\<close>

definition sources_inv :: "('db, 'e Collector) system \<Rightarrow> bool" where
  "sources_inv sys \<longleftrightarrow> sources_ok \<lparr>rc_store = fst sys, rc_sources = co_sources (snd sys)\<rparr>"

definition registry_ids :: "'e Collector \<Rightarrow> bool" where
  "registry_ids c \<longleftrightarrow> (\<forall>i p. fmlookup (co_peers c) i = Some p \<longrightarrow> pr_id p = i \<and> i \<noteq> [])"

text \<open>Two collectors with the same registry: they differ in sources and counters only.\<close>

definition same_registry :: "'e Collector \<Rightarrow> 'e Collector \<Rightarrow> bool" where
  "same_registry c c' \<longleftrightarrow> co_server c' = co_server c \<and> co_peers c' = co_peers c \<and> co_byAddress c' = co_byAddress c \<and>
     co_cfg c' = co_cfg c \<and> co_started c' = co_started c"

lemma same_registry_refl [simp]: "same_registry c c"
  by (simp add: same_registry_def)

lemma same_registry_trans: "same_registry c d \<Longrightarrow> same_registry d e \<Longrightarrow> same_registry c e"
  by (simp add: same_registry_def)

lemma count_simps [simp]:
  "same_registry c (count_path l d) \<longleftrightarrow> same_registry c d" "same_registry c (count_error l d) \<longleftrightarrow> same_registry c d"
  "co_sources (count_path l d) = co_sources d" "co_sources (count_error l d) = co_sources d"
  "co_pathsTotal (count_error l d) = co_pathsTotal d" "co_pathsTotal (count_path l d) = Inc l (co_pathsTotal d)"
  by (simp_all add: same_registry_def count_path_def count_error_def)

lemma reconcile_path_frame:
  assumes "pebble_laws P cont" and "iter_order (w_it w)" and "pr_id peer \<noteq> []" and "sources_inv (s, c)"
    and "reconcile_path P w peer path (s, c) = ((s', c'), res)"
  shows "sources_inv (s', c') \<and> entry s' = entry s \<and> same_registry c c' \<and> co_pathsTotal c' = co_pathsTotal c \<and>
    co_decodeErrorsTotal c' = co_decodeErrorsTotal c \<and> (\<forall>f. res = Inl f \<longrightarrow> (\<exists>e. f = Error e))"
proof -
  let ?r = "\<lparr>rc_store = s, rc_sources = co_sources c\<rparr>" and ?w = "w\<lparr>w_ctx := None\<rparr>"
  obtain r' q where run: "handlePath P ?w peer path ?r = (r', q)" by (cases "handlePath P ?w peer path ?r")
  have "iter_order (w_it ?w)" using assms(2) by simp
  from handlePath_frame[OF assms(1) this assms(3) _ run] assms(4)
  have fr: "sources_ok r'" "\<And>k i. k \<notin> topology_kinds \<Longrightarrow> Get (rc_store r') k i = Get s k i" "q \<noteq> Inl PathHang"
    by (simp_all add: sources_inv_def)
  have res: "s' = rc_store r'" "c' = c\<lparr>co_sources := rc_sources r'\<rparr>" "q \<noteq> Inl PathHang \<Longrightarrow> \<forall>f. res = Inl f \<longrightarrow> (\<exists>e. f = Error e)"
    using assms(5) run by (auto simp: reconcile_path_def safeHandlePath_def split: sum.splits path_fault.splits)
  have "entry s' = entry s"
    using fr(2) res(1) Get_PEER_entry[of s' s] by (simp add: topology_kinds_def)
  then show ?thesis using fr(1,3) res by (simp add: sources_inv_def sources_ok_def same_registry_def)
qed


section \<open>One path\<close>

definition keyed :: "'db Store \<Rightarrow> bool" where
  "keyed s \<longleftrightarrow> (\<forall>i p. entry s i = Some p \<longrightarrow> pr_id p = i)"

definition no_dangling :: "'e Collector \<Rightarrow> bool" where
  "no_dangling c \<longleftrightarrow> (\<forall>a i. fmlookup (co_byAddress c) a = Some i \<longrightarrow> fmlookup (co_peers c) i \<noteq> None)"

definition collector_ok :: "('db, 'e Collector) system \<Rightarrow> bool" where
  "collector_ok sys \<longleftrightarrow> keyed (fst sys) \<and> registry_ids (snd sys) \<and> no_dangling (snd sys) \<and> sources_inv sys"

text \<open>A path of the BGP-LS family from an address of the registry, and the number of paths counted.\<close>

definition counted :: "'e Collector \<Rightarrow> LsPath \<Rightarrow> bool" where
  "counted c path \<longleftrightarrow> pa_LS path \<and> Addr_String (pa_PeerAddress path) |\<in>| fmdom (co_byAddress c)"

definition counter_sum :: "counter \<Rightarrow> nat" where
  "counter_sum m = (\<Sum>l\<in>fmdom' m. the (fmlookup m l))"

lemma counter_sum_Inc [simp]: "counter_sum (Inc l m) = Suc (counter_sum m)"
proof -
  let ?n = "case fmlookup m l of None \<Rightarrow> 0 | Some n \<Rightarrow> n"
  have "(\<Sum>k\<in>fmdom' m - {l}. the (fmlookup (Inc l m) k)) = (\<Sum>k\<in>fmdom' m - {l}. the (fmlookup m k))"
    by (intro sum.cong) (auto simp: Inc_def)
  moreover have "counter_sum m = ?n + (\<Sum>k\<in>fmdom' m - {l}. the (fmlookup m k))"
    by (cases "fmlookup m l") (auto simp: counter_sum_def fmlookup_dom'_iff sum.remove[of "fmdom' m" l] intro!: sum.cong)
  moreover have "counter_sum (Inc l m) = Suc ?n + (\<Sum>k\<in>fmdom' m - {l}. the (fmlookup (Inc l m) k))"
    unfolding counter_sum_def by (subst sum.remove[of _ l]) (auto simp: Inc_def insert_Diff_if)
  ultimately show ?thesis by simp
qed

lemma config_rejected [simp]: "config_of (p\<lparr>pr_rejected_updates := n\<rparr>) = config_of p"
  by (simp add: config_of_def)

lemma Apply_peer_cases:
  assumes "pebble_laws P cont" and "Apply P None now (peer_mutation p False reason) s = (s', v, res)"
  shows "(\<exists>f. res = Inl f \<and> entry s' = entry s) \<or>
    (\<exists>ev. res = Inr ev \<and> stored s p s' \<and> entry s' = (entry s)(pr_id p \<mapsto> versioned s p))"
proof (cases res)
  case (Inl f)
  then show ?thesis using Apply_Inl[OF assms(1) assms(2)[unfolded Inl]] by (auto simp: entry_def)
next
  case (Inr ev)
  have "stored s p s'" using Apply_Inr[OF assms(2)[unfolded Inr]]
    by (auto simp: stored_def versioned_def stamped_def applyMemoryLocked_def)
  then show ?thesis using Inr stored_entry by blast
qed

lemma incrementRejected_ok:
  assumes "pebble_laws P cont" and "keyed s" and "incrementRejected P now peer s = (s', r)"
  shows "r = Inr () \<and> keyed s' \<and> same_config (entry s') (entry s)"
proof (cases "entry s (pr_id peer)")
  case None
  then show ?thesis using assms by (simp add: incrementRejected_def Get_peer_eq same_config_def)
next
  case (Some p)
  let ?q = "p\<lparr>pr_rejected_updates := pr_rejected_updates p + 1\<rparr>"
  obtain v res where app: "Apply P None now (peer_mutation ?q False ''BGP-LS update rejected'') s = (s', v, res)" and r: "r = Inr ()"
    using assms(3) Some by (auto simp: incrementRejected_def Get_peer_eq split: prod.splits)
  have id: "pr_id p = pr_id peer" using assms(2) Some by (simp add: keyed_def)
  show ?thesis using Apply_peer_cases[OF assms(1) app] r assms(2) Some id by (auto simp: keyed_def same_config_def split: if_splits)
qed

lemma sources_inv_cong: "co_sources d = co_sources e \<Longrightarrow> sources_inv (y, e) \<Longrightarrow> sources_inv (x, d)"
  by (simp add: sources_inv_def sources_ok_def)

lemma known_path_ok:
  assumes "pebble_laws P cont" and "iter_order (w_it w)" and "pr_id peer \<noteq> []" and "keyed s" and "sources_inv (s, c)"
    and "pa_Nlri path \<noteq> LsAddrPrefix None" and "known_path P w peer path (s, c) = ((s', c'), r)"
  shows "r = Inr () \<and> keyed s' \<and> sources_inv (s', c') \<and> same_registry c c' \<and> same_config (entry s') (entry s) \<and>
    counter_sum (co_pathsTotal c') = Suc (counter_sum (co_pathsTotal c))"
proof -
  obtain s1 c1 q where run: "reconcile_path P w peer path (s, c) = ((s1, c1), q)" by (metis prod.collapse)
  note fr = reconcile_path_frame[OF assms(1-3,5) run]
  have k1: "keyed s1" using fr assms(4) by (simp add: keyed_def)
  have "\<exists>kind. nlriKind path = Inr kind" using assms(6) by (auto simp: nlriKind_def split: Nlri.split option.split)
  then obtain kind where kind: "nlriKind path = Inr kind" by blast
  obtain s2 r2 where inc: "incrementRejected P (w_later w) peer s1 = (s2, r2)" by (cases "incrementRejected P (w_later w) peer s1")
  note ok2 = incrementRejected_ok[OF assms(1) k1 inc]
  note src = sources_inv_cong[of _ c1]
  show ?thesis
  proof (cases q)
    case (Inr u)
    then show ?thesis using assms(7) run kind fr k1 by (auto simp: known_path_def same_config_def intro: src)
  next
    case (Inl f)
    then obtain e where e: "q = Inl (Error e)" using fr by blast
    show ?thesis
      using assms(7) run kind fr k1 ok2 inc by (auto simp: known_path_def e same_config_def intro: src split: if_splits)
  qed
qed

text \<open>
  The paths that stop the process: those of an address whose peer is gone, and those of a known peer
  whose NLRI is a nil pointer of its type, which \<open>nlriKind\<close> follows outside the reach of \<open>recover\<close>.
\<close>

definition fatal :: "'e Collector \<Rightarrow> LsPath \<Rightarrow> bool" where
  "fatal c path \<longleftrightarrow> pa_LS path \<and> (case peerForAddress c (Addr_String (pa_PeerAddress path)) of None \<Rightarrow> False
     | Some None \<Rightarrow> True | Some (Some p) \<Rightarrow> pa_Nlri path = LsAddrPrefix None)"

definition events_ok :: "('db, 'e Collector) system \<Rightarrow> bool" where
  "events_ok sys \<longleftrightarrow> keyed (fst sys) \<and> registry_ids (snd sys) \<and> sources_inv sys"

lemma collector_ok_iff: "collector_ok sys \<longleftrightarrow> events_ok sys \<and> no_dangling (snd sys)"
  by (auto simp: collector_ok_def events_ok_def)

lemma same_registry_simps:
  assumes "same_registry c c'"
  shows "counted c' = counted c" "fatal c' = fatal c" "no_dangling c' = no_dangling c" "registry_ids c' = registry_ids c"
proof -
  note same = assms[unfolded same_registry_def]
  then have peers: "peerForAddress c' = peerForAddress c" by (simp add: peerForAddress_def fun_eq_iff split: option.split)
  show "counted c' = counted c" "no_dangling c' = no_dangling c" "registry_ids c' = registry_ids c"
    using same by (simp_all add: counted_def no_dangling_def registry_ids_def fun_eq_iff)
  show "fatal c' = fatal c" by (simp add: fatal_def fun_eq_iff peers)
qed

lemma not_fatal: "no_dangling c \<Longrightarrow> pa_Nlri path \<noteq> LsAddrPrefix None \<Longrightarrow> \<not> fatal c path"
  by (fastforce simp: fatal_def no_dangling_def peerForAddress_def split: option.splits)

lemma path_step_fatal: "fatal c path \<Longrightarrow> path_step P w path (s, c) = ((s, c), Inl Panic)"
proof (cases "peerForAddress c (Addr_String (pa_PeerAddress path))")
  case (Some q)
  assume f: "fatal c path"
  show ?thesis
  proof (cases q)
    case None
    then show ?thesis using f Some by (simp add: fatal_def path_step_def)
  next
    case (Some peer)
    then have nil: "pa_Nlri path = LsAddrPrefix None" "pa_LS path"
      using f \<open>peerForAddress c _ = Some q\<close> by (simp_all add: fatal_def)
    have "path_entities (w\<lparr>w_ctx := None\<rparr>) (pr_domain_id peer) path = Inl (PathPanic nil_dereference)"
      using nil(1) by (simp add: path_entities_def path_parts_def nlri_of_def panics_def)
    moreover have "nlriKind path = Inl Panic" using nil(1) by (simp add: nlriKind_def)
    ultimately show ?thesis
      using Some \<open>peerForAddress c _ = Some q\<close> nil(2)
      by (simp add: path_step_def known_path_def reconcile_path_def safeHandlePath_def handlePath_advertise errors_Is.simps)
  qed
qed (simp add: fatal_def)

lemma path_step_ok:
  assumes "pebble_laws P cont" and "iter_order (w_it w)" and "events_ok (s, c)" and "\<not> fatal c path"
    and "path_step P w path (s, c) = ((s', c'), r)"
  shows "r = Inr () \<and> events_ok (s', c') \<and> same_registry c c' \<and> same_config (entry s') (entry s) \<and>
    counter_sum (co_pathsTotal c') = counter_sum (co_pathsTotal c) + of_bool (counted c path)"
proof (cases "counted c path")
  case False
  then show ?thesis using assms(3,5)
    by (auto simp: path_step_def counted_def peerForAddress_def fmlookup_dom_iff same_config_def split: if_splits option.splits)
next
  case True
  then obtain i where i: "fmlookup (co_byAddress c) (Addr_String (pa_PeerAddress path)) = Some i" and ls: "pa_LS path"
    by (auto simp: counted_def fmlookup_dom_iff)
  then obtain peer where peer: "fmlookup (co_peers c) i = Some peer" "pa_Nlri path \<noteq> LsAddrPrefix None"
    using assms(4) by (auto simp: fatal_def peerForAddress_def split: option.splits)
  then have "pr_id peer \<noteq> []" using assms(3) by (auto simp: events_ok_def registry_ids_def)
  from known_path_ok[OF assms(1,2) this _ _ peer(2), of s c s' c' r] show ?thesis
    using assms(3,5) i peer ls True
    by (auto simp: path_step_def peerForAddress_def events_ok_def same_registry_def registry_ids_def)
qed


section \<open>Batches of paths\<close>

lemma handlePaths_exact:
  assumes "pebble_laws P cont" and "\<forall>k. iter_order (w_it (w k))"
  shows "events_ok (s, c) \<Longrightarrow> handlePaths P w k paths (s, c) = ((s', c'), r) \<Longrightarrow>
     r = (if list_ex (fatal c) paths then Inl Panic else Inr ()) \<and>
     events_ok (s', c') \<and> same_registry c c' \<and> same_config (entry s') (entry s) \<and>
     counter_sum (co_pathsTotal c') = counter_sum (co_pathsTotal c) + length (filter (counted c) (takeWhile (Not \<circ> fatal c) paths))"
proof (induction paths arbitrary: k s c)
  case Nil
  then show ?case by (simp add: same_config_def)
next
  case (Cons path paths)
  show ?case
  proof (cases "fatal c path")
    case True
    then show ?thesis using Cons.prems path_step_fatal[OF True, of P "w k" s] by (auto simp: same_config_def)
  next
    case False
    obtain s1 c1 r1 where step: "path_step P (w k) path (s, c) = ((s1, c1), r1)" by (metis prod.collapse)
    have one: "r1 = Inr () \<and> events_ok (s1, c1) \<and> same_registry c c1 \<and> same_config (entry s1) (entry s) \<and>
        counter_sum (co_pathsTotal c1) = counter_sum (co_pathsTotal c) + of_bool (counted c path)"
      using path_step_ok[OF assms(1) _ Cons.prems(1) False step] assms(2) by simp
    then have rest: "handlePaths P w (Suc k) paths (s1, c1) = ((s', c'), r)" using Cons.prems(2) step by simp
    note same = same_registry_simps[of c c1]
    show ?thesis
      using Cons.IH[OF _ rest] one same False by (auto simp: same_config_def intro: same_registry_trans)
  qed
qed

lemma path_step_collector_ok:
  assumes "pebble_laws P cont" and "iter_order (w_it w)" and "collector_ok (s, c)" and "pa_Nlri path \<noteq> LsAddrPrefix None"
    and "path_step P w path (s, c) = ((s', c'), r)"
  shows "r = Inr () \<and> collector_ok (s', c') \<and> same_registry c c' \<and> same_config (entry s') (entry s)"
proof -
  have ok: "events_ok (s, c)" "no_dangling c" using assms(3) by (simp_all add: collector_ok_iff)
  show ?thesis
    using path_step_ok[OF assms(1,2) ok(1) not_fatal[OF ok(2) assms(4)] assms(5)] same_registry_simps(3)[of c c'] ok(2)
    by (auto simp: collector_ok_iff)
qed

lemma handlePaths_ok:
  assumes "pebble_laws P cont" and "\<forall>k. iter_order (w_it (w k))" and "collector_ok (s, c)"
    and "\<forall>path\<in>set paths. pa_Nlri path \<noteq> LsAddrPrefix None" and "handlePaths P w k paths (s, c) = ((s', c'), r)"
  shows "r = Inr () \<and> collector_ok (s', c') \<and> same_registry c c' \<and> same_config (entry s') (entry s) \<and>
     counter_sum (co_pathsTotal c') = counter_sum (co_pathsTotal c) + length (filter (counted c) paths)"
proof -
  have ok: "events_ok (s, c)" "no_dangling c" using assms(3) by (simp_all add: collector_ok_iff)
  then have none: "\<forall>path\<in>set paths. \<not> fatal c path" using assms(4) not_fatal by blast
  then have all: "\<not> list_ex (fatal c) paths" "takeWhile (Not \<circ> fatal c) paths = paths"
    by (auto simp: list_ex_iff takeWhile_eq_all_conv)
  show ?thesis
    using handlePaths_exact[OF assms(1,2) ok(1) assms(5), unfolded all(2)] all(1) same_registry_simps(3)[of c c'] ok(2)
    by (simp add: collector_ok_iff)
qed

end
