(* ===== verification/Bgp_Registry.thy ===== *)
theory Bgp_Registry
  imports Bgp_Events
begin

text \<open>
  The registry of the collector beside the engine: along which operations the addresses, the peers and
  the engine's sessions stay the same, what starting does, and where they part.
\<close>

section \<open>What the collector relies on\<close>

text \<open>
  The engine keeps one session per address: it adds a peer only at a new address and deletes one only
  at a known address, and an operation that fails, a reset or starting to watch changes no session.
\<close>

definition engine_laws :: "'e engine \<Rightarrow> ('e \<Rightarrow> string set) \<Rightarrow> bool" where
  "engine_laws E sessions \<longleftrightarrow> sessions (en_NewBgpServer E) = {} \<and>
     (\<forall>g e. sessions (fst (en_StartBgp E g e)) = sessions e) \<and>
     (\<forall>e. sessions (fst (en_WatchEvent E e)) = sessions e) \<and>
     (\<forall>a e. case en_AddPeer E a e of (e', None) \<Rightarrow> ga_NeighborAddress a \<notin> sessions e \<and>
           sessions e' = insert (ga_NeighborAddress a) (sessions e)
         | (e', Some err) \<Rightarrow> sessions e' = sessions e) \<and>
     (\<forall>x e. case en_DeletePeer E x e of (e', None) \<Rightarrow> x \<in> sessions e \<and> sessions e' = sessions e - {x}
         | (e', Some err) \<Rightarrow> x \<notin> sessions e \<and> sessions e' = sessions e) \<and>
     (\<forall>x soft dir e. sessions (fst (en_ResetPeer E x soft dir e)) = sessions e)"

lemma engine_laws_add:
  "engine_laws E sessions \<Longrightarrow> en_AddPeer E a e = (e', None) \<Longrightarrow> ga_NeighborAddress a \<notin> sessions e \<and>
     sessions e' = insert (ga_NeighborAddress a) (sessions e)"
  "engine_laws E sessions \<Longrightarrow> en_AddPeer E a e = (e', Some err) \<Longrightarrow> sessions e' = sessions e"
  unfolding engine_laws_def by (metis (mono_tags, lifting) case_prod_conv option.case)+

lemma engine_laws_delete:
  "engine_laws E sessions \<Longrightarrow> en_DeletePeer E x e = (e', None) \<Longrightarrow> x \<in> sessions e \<and> sessions e' = sessions e - {x}"
  "engine_laws E sessions \<Longrightarrow> en_DeletePeer E x e = (e', Some err) \<Longrightarrow> x \<notin> sessions e \<and> sessions e' = sessions e"
  unfolding engine_laws_def by (metis (mono_tags, lifting) case_prod_conv option.case)+

lemma engine_laws_other:
  "engine_laws E sessions \<Longrightarrow> en_ResetPeer E x soft dir e = (e', err) \<Longrightarrow> sessions e' = sessions e"
  "engine_laws E sessions \<Longrightarrow> en_StartBgp E g e = (e', err) \<Longrightarrow> sessions e' = sessions e"
  "engine_laws E sessions \<Longrightarrow> en_WatchEvent E e = (e', err) \<Longrightarrow> sessions e' = sessions e"
  "engine_laws E sessions \<Longrightarrow> sessions (en_NewBgpServer E) = {}"
  unfolding engine_laws_def by (metis fst_conv)+

text \<open>An engine that keeps the list of its sessions.\<close>

definition list_engine :: "string list engine" where
  "list_engine = \<lparr>en_NewBgpServer = [], en_StartBgp = (\<lambda>g e. (e, None)), en_WatchEvent = (\<lambda>e. (e, None)),
     en_StopBgp = (\<lambda>e. ([], None)), en_Stop = (\<lambda>e. e),
     en_AddPeer = (\<lambda>a e. if ga_NeighborAddress a \<in> set e then (e, Some (External ''the peer exists''))
        else (ga_NeighborAddress a # e, None)),
     en_DeletePeer = (\<lambda>x e. if x \<in> set e then (removeAll x e, None) else (e, Some (External ''no such peer''))),
     en_ResetPeer = (\<lambda>x soft dir e. (e, if x \<in> set e then None else Some (External ''no such peer'')))\<rparr>"

lemma list_engine_laws: "engine_laws list_engine set"
  by (auto simp: engine_laws_def list_engine_def)

section \<open>The registry and the sessions\<close>

definition addresses :: "'e Collector \<Rightarrow> string set" where
  "addresses c = {pr_remote_address p | i p. fmlookup (co_peers c) i = Some p}"

definition registry_inv :: "('e \<Rightarrow> string set) \<Rightarrow> 'e Collector \<Rightarrow> bool" where
  "registry_inv sessions c \<longleftrightarrow> co_started c \<and> (\<exists>e. co_server c = Some e \<and> sessions e = addresses c) \<and>
     (\<forall>i p. fmlookup (co_peers c) i = Some p \<longrightarrow> pr_id p = i \<and> fmlookup (co_byAddress c) (pr_remote_address p) = Some i) \<and>
     (\<forall>a i. fmlookup (co_byAddress c) a = Some i \<longrightarrow> (\<exists>p. fmlookup (co_peers c) i = Some p \<and> pr_remote_address p = a))"

lemma registry_invD:
  assumes "registry_inv sessions c"
  shows "co_started c" and "\<exists>e. co_server c = Some e \<and> sessions e = addresses c"
    and "fmlookup (co_peers c) i = Some p \<Longrightarrow> pr_id p = i \<and> fmlookup (co_byAddress c) (pr_remote_address p) = Some i"
    and "fmlookup (co_byAddress c) a = Some i \<Longrightarrow> \<exists>p. fmlookup (co_peers c) i = Some p \<and> pr_remote_address p = a"
  using assms by (auto simp: registry_inv_def)

lemma same_registry_inv: "registry_inv sessions c \<Longrightarrow> same_registry c c' \<Longrightarrow> registry_inv sessions c'"
  by (auto simp: registry_inv_def same_registry_def addresses_def)

lemma toGoBGPPeer_address [simp]: "ga_NeighborAddress (toGoBGPPeer p) = pr_remote_address p"
  by (simp add: toGoBGPPeer_def)

lemma address_not_known:
  assumes "registry_inv sessions c" and "a \<notin> addresses c"
  shows "fmlookup (co_byAddress c) a = None"
  using registry_invD(4)[OF assms(1), of a] assms(2) by (cases "fmlookup (co_byAddress c) a") (auto simp: addresses_def)

lemma add_inv:
  assumes "engine_laws E sessions" and "registry_inv sessions c" and "fmlookup (co_peers c) (pr_id p) = None"
    and "Upsert E p c = (c', r)"
  shows "registry_inv sessions c'"
proof -
  obtain e where e: "co_server c = Some e" "sessions e = addresses c" using registry_invD(2)[OF assms(2)] by blast
  obtain e' err where add: "en_AddPeer E (toGoBGPPeer p) e = (e', err)" by (cases "en_AddPeer E (toGoBGPPeer p) e")
  show ?thesis
  proof (cases err)
    case (Some x)
    then have "c' = c\<lparr>co_server := Some e'\<rparr>" "sessions e' = sessions e"
      using assms(3,4) registry_invD(1)[OF assms(2)] e add engine_laws_add(2)[OF assms(1)]
      by (auto simp: Upsert_def upsertLocked_def drop_old_def on_server_def)
    then show ?thesis using assms(2) e by (auto simp: registry_inv_def addresses_def)
  next
    case None
    note new = engine_laws_add(1)[OF assms(1) add[unfolded None]]
    have c': "c' = c\<lparr>co_server := Some e', co_peers := fmupd (pr_id p) p (co_peers c),
        co_byAddress := fmupd (pr_remote_address p) (pr_id p) (co_byAddress c)\<rparr>"
      using assms(3,4) registry_invD(1)[OF assms(2)] e add None
      by (auto simp: Upsert_def upsertLocked_def drop_old_def on_server_def)
    have "addresses c' = insert (pr_remote_address p) (addresses c)"
      using assms(3) unfolding c' addresses_def by (auto, metis option.distinct(1))
    moreover have "fmlookup (co_byAddress c) (pr_remote_address p) = None"
      using address_not_known[OF assms(2)] new e(2) by simp
    ultimately show ?thesis
      using assms(2,3) new e unfolding registry_inv_def c' by auto (metis option.distinct(1))
  qed
qed

lemma address_unique:
  assumes "registry_inv sessions c" and "fmlookup (co_peers c) i = Some p" and "fmlookup (co_peers c) j = Some q"
    and "pr_remote_address p = pr_remote_address q"
  shows "i = j"
  using registry_invD(3)[OF assms(1,2)] registry_invD(3)[OF assms(1,3)] assms(4) by simp

lemma change_inv:
  assumes "engine_laws E sessions" and "registry_inv sessions c" and "fmlookup (co_peers c) (pr_id p) = Some old"
    and "pr_remote_address old = pr_remote_address p" and "Upsert E p c = (c', Inr ())"
  shows "registry_inv sessions c'"
proof -
  let ?a = "pr_remote_address p"
  obtain e where e: "co_server c = Some e" "sessions e = addresses c" using registry_invD(2)[OF assms(2)] by blast
  have a: "?a \<in> addresses c" using assms(3) assms(4)[symmetric] unfolding addresses_def by blast
  obtain e1 err where del: "en_DeletePeer E ?a e = (e1, err)" by (cases "en_DeletePeer E ?a e")
  with a e(2) have err: "err = None" using engine_laws_delete(2)[OF assms(1), of ?a e e1] by (cases err) auto
  have s1: "sessions e1 = addresses c - {?a}" using engine_laws_delete(1)[OF assms(1) del[unfolded err]] e(2) by simp
  obtain e2 err2 where add: "en_AddPeer E (toGoBGPPeer p) e1 = (e2, err2)" by (cases "en_AddPeer E (toGoBGPPeer p) e1")
  have c': "c' = c\<lparr>co_server := Some e2, co_peers := fmupd (pr_id p) p (co_peers c),
        co_byAddress := fmupd ?a (pr_id p) (co_byAddress c)\<rparr> \<and> err2 = None"
    using assms(3,5) registry_invD(1)[OF assms(2)] e del err add
    by (auto simp: Upsert_def upsertLocked_def drop_old_def on_server_def assms(4) split: option.splits)
  have "sessions e2 = addresses c" using engine_laws_add(1)[OF assms(1)] add c' s1 a by auto
  moreover have "addresses c' = addresses c"
    using assms(3,4) c' unfolding addresses_def by auto (metis option.inject)
  moreover have "fmlookup (co_byAddress c) ?a = Some (pr_id p)" using registry_invD(3)[OF assms(2,3)] assms(4) by simp
  ultimately show ?thesis using assms(2,3,4) c' unfolding registry_inv_def by auto (metis option.inject)
qed

lemma remove_inv:
  assumes "engine_laws E sessions" and "registry_inv sessions c" and "Delete E i c = (c', r)"
  shows "registry_inv sessions c'"
proof (cases "fmlookup (co_peers c) i")
  case None
  then show ?thesis using assms(2,3) by (simp add: Delete_def)
next
  case (Some p)
  let ?a = "pr_remote_address p"
  obtain e where e: "co_server c = Some e" "sessions e = addresses c" using registry_invD(2)[OF assms(2)] by blast
  have a: "?a \<in> addresses c" using Some unfolding addresses_def by blast
  obtain e1 err where del: "en_DeletePeer E ?a e = (e1, err)" by (cases "en_DeletePeer E ?a e")
  with a e(2) have err: "err = None" using engine_laws_delete(2)[OF assms(1), of ?a e e1] by (cases err) auto
  have c': "c' = c\<lparr>co_server := Some e1, co_byAddress := fmdrop ?a (co_byAddress c), co_peers := fmdrop i (co_peers c)\<rparr>"
    using assms(3) Some e del err by (auto simp: Delete_def on_server_def)
  have uniq: "pr_remote_address q \<noteq> ?a" if "fmlookup (co_peers c) j = Some q" "j \<noteq> i" for j q
    using address_unique[OF assms(2) that(1) Some] that(2) by auto
  have "addresses c' = addresses c - {?a}"
    using Some uniq unfolding c' addresses_def by (auto split: if_splits)
  moreover have "sessions e1 = addresses c - {?a}" using engine_laws_delete(1)[OF assms(1) del[unfolded err]] e(2) by simp
  ultimately show ?thesis
    using assms(2) Some uniq unfolding registry_inv_def c' by (auto split: if_splits) (metis option.inject)
qed

lemma reset_inv:
  assumes "engine_laws E sessions" and "registry_inv sessions c" and "Reset E i soft c = (c', r)"
  shows "registry_inv sessions c'"
proof (cases "fmlookup (co_peers c) i")
  case None
  then show ?thesis using assms(2,3) by (simp add: Reset_def)
next
  case (Some p)
  obtain e where e: "co_server c = Some e" "sessions e = addresses c" using registry_invD(2)[OF assms(2)] by blast
  obtain e1 err where del: "en_ResetPeer E (pr_remote_address p) soft soft e = (e1, err)"
    by (cases "en_ResetPeer E (pr_remote_address p) soft soft e")
  have "c' = c\<lparr>co_server := Some e1\<rparr>" using assms(3) Some e del by (auto simp: Reset_def on_server_def)
  then show ?thesis
    using assms(2) e engine_laws_other(1)[OF assms(1) del] by (auto simp: registry_inv_def addresses_def)
qed

text \<open>
  The operations of the registry that keep the addresses of known peers, with any outcome: adding a
  peer, changing one without moving it, deleting, resetting, and any event. In the accepted steps no
  change of a known peer is refused: its old session would be gone already.
\<close>

inductive registry_step :: "'e engine \<Rightarrow> 'e Collector \<Rightarrow> 'e Collector \<Rightarrow> bool" for E where
  add: "fmlookup (co_peers c) (pr_id p) = None \<Longrightarrow> Upsert E p c = (c', r) \<Longrightarrow> registry_step E c c'"
| change: "fmlookup (co_peers c) (pr_id p) = Some old \<Longrightarrow> pr_remote_address old = pr_remote_address p \<Longrightarrow>
    Upsert E p c = (c', r) \<Longrightarrow> registry_step E c c'"
| remove: "Delete E i c = (c', r) \<Longrightarrow> registry_step E c c'"
| reset: "Reset E i soft c = (c', r) \<Longrightarrow> registry_step E c c'"
| event: "same_registry c c' \<Longrightarrow> registry_step E c c'"

inductive_cases registry_stepE: "registry_step E c c'"

inductive accepted_step :: "'e engine \<Rightarrow> 'e Collector \<Rightarrow> 'e Collector \<Rightarrow> bool" for E where
  add: "fmlookup (co_peers c) (pr_id p) = None \<Longrightarrow> Upsert E p c = (c', r) \<Longrightarrow> accepted_step E c c'"
| change: "fmlookup (co_peers c) (pr_id p) = Some old \<Longrightarrow> pr_remote_address old = pr_remote_address p \<Longrightarrow>
    Upsert E p c = (c', Inr ()) \<Longrightarrow> accepted_step E c c'"
| remove: "Delete E i c = (c', r) \<Longrightarrow> accepted_step E c c'"
| reset: "Reset E i soft c = (c', r) \<Longrightarrow> accepted_step E c c'"
| event: "same_registry c c' \<Longrightarrow> accepted_step E c c'"

inductive_cases accepted_stepE: "accepted_step E c c'"

lemma accepted_steps_inv:
  "(accepted_step E)\<^sup>*\<^sup>* c c' \<Longrightarrow> engine_laws E sessions \<Longrightarrow> registry_inv sessions c \<Longrightarrow> registry_inv sessions c'"
proof (induction rule: rtranclp_induct)
  case (step c1 c2)
  from step.hyps(2) show ?case
    using step by (elim accepted_stepE) (blast intro: add_inv change_inv remove_inv reset_inv same_registry_inv)+
qed simp

text \<open>
  What is left of the invariant when a change of a known peer may be refused: every session is at a
  known address, and a known address leads to a peer with that address.
\<close>

definition session_inv :: "('e \<Rightarrow> string set) \<Rightarrow> 'e Collector \<Rightarrow> bool" where
  "session_inv sessions c \<longleftrightarrow> co_started c \<and> (\<exists>e. co_server c = Some e \<and> sessions e \<subseteq> fmdom' (co_byAddress c)) \<and>
     (\<forall>a i. fmlookup (co_byAddress c) a = Some i \<longrightarrow> (\<exists>p. fmlookup (co_peers c) i = Some p \<and> pr_remote_address p = a))"

lemma registry_session_inv: "registry_inv sessions c \<Longrightarrow> session_inv sessions c"
  unfolding registry_inv_def session_inv_def addresses_def by (auto simp: fmlookup_dom'_iff)

text \<open>An update that keeps the address of the peer, if the peer is known, and what the engine makes of it.\<close>

lemma drop_old_cases:
  assumes "engine_laws E sessions" and "co_server c = Some e" and "drop_old E p c = (c1, r)"
  obtains e1 where "r = Inr ()" "c1 = c\<lparr>co_server := Some e1\<rparr>" "sessions e1 \<subseteq> sessions e"
proof (cases "fmlookup (co_peers c) (pr_id p)")
  case None
  then show ?thesis using assms(2,3) that[of e] by (auto simp: drop_old_def)
next
  case (Some old)
  obtain e1 err where del: "en_DeletePeer E (pr_remote_address old) e = (e1, err)" by fastforce
  then have "sessions e1 \<subseteq> sessions e"
    using engine_laws_delete[OF assms(1), of "pr_remote_address old" e e1] by (cases err) auto
  then show ?thesis using that[of e1] assms(2,3) Some del by (auto simp: drop_old_def on_server_def split: option.splits)
qed

lemma upsert_cases:
  assumes "engine_laws E sessions" and "session_inv sessions c" and "Upsert E p c = (c', r)"
  obtains (refused) e f e' where "co_server c = Some e" "r = Inl f" "c' = c\<lparr>co_server := Some e'\<rparr>" "sessions e' \<subseteq> sessions e"
  | (accepted) e e' where "co_server c = Some e" "r = Inr ()" "sessions e' \<subseteq> insert (pr_remote_address p) (sessions e)"
      "pr_remote_address p \<in> sessions e'"
      "c' = c\<lparr>co_server := Some e', co_peers := fmupd (pr_id p) p (co_peers c),
         co_byAddress := fmupd (pr_remote_address p) (pr_id p) (co_byAddress c)\<rparr>"
proof -
  obtain e where e: "co_server c = Some e" "co_started c" using assms(2) by (auto simp: session_inv_def)
  obtain c1 r1 where old: "drop_old E p c = (c1, r1)" by fastforce
  obtain e1 where d: "r1 = Inr ()" "c1 = c\<lparr>co_server := Some e1\<rparr>" "sessions e1 \<subseteq> sessions e"
    using drop_old_cases[OF assms(1) e(1) old] by metis
  obtain e2 err where add: "en_AddPeer E (toGoBGPPeer p) e1 = (e2, err)" by fastforce
  note up = assms(3) e(2) old d(1,2) add
  show ?thesis
  proof (cases err)
    case (Some x)
    show ?thesis
      by (rule refused[OF e(1), of _ e2]) (use up Some engine_laws_add(2)[OF assms(1)] d(3) in
          \<open>auto simp: Upsert_def upsertLocked_def on_server_def\<close>)
  next
    case None
    show ?thesis
      by (rule accepted[OF e(1), of e2]) (use up None engine_laws_add(1)[OF assms(1) add[unfolded None]] d(3) in
          \<open>auto simp: Upsert_def upsertLocked_def on_server_def\<close>)
  qed
qed

lemma session_step_inv:
  assumes "registry_step E c c'" and "engine_laws E sessions" and "session_inv sessions c"
  shows "session_inv sessions c'"
proof -
  have up: "session_inv sessions c'" if "Upsert E p c = (c', r)"
    "\<forall>old. fmlookup (co_peers c) (pr_id p) = Some old \<longrightarrow> pr_remote_address old = pr_remote_address p" for p r
    using assms(2,3) that(1)
  proof (cases rule: upsert_cases)
    case (refused e f e')
    then show ?thesis using assms(3) by (auto simp: session_inv_def)
  next
    case (accepted e e')
    have "\<exists>q. fmlookup (co_peers c') i = Some q \<and> pr_remote_address q = a" if a: "fmlookup (co_byAddress c') a = Some i" for a i
    proof (cases "a = pr_remote_address p")
      case False
      then obtain q where "fmlookup (co_peers c) i = Some q" "pr_remote_address q = a"
        using a accepted(5) assms(3) by (auto simp: session_inv_def)
      then show ?thesis using False \<open>\<forall>old. _ old\<close> accepted(5) by auto
    qed (use a accepted(5) in auto)
    then show ?thesis using assms(3) accepted by (auto simp: session_inv_def)
  qed
  from assms(1) show ?thesis
  proof (cases rule: registry_step.cases)
    case (remove i r)
    obtain e where e: "co_server c = Some e" using assms(3) by (auto simp: session_inv_def)
    show ?thesis
    proof (cases "fmlookup (co_peers c) i")
      case None
      then show ?thesis using remove assms(3) by (simp add: Delete_def)
    next
      case (Some p)
      obtain e1 err where del: "en_DeletePeer E (pr_remote_address p) e = (e1, err)" by fastforce
      show ?thesis
        using remove Some e del engine_laws_delete[OF assms(2), of "pr_remote_address p" e e1] assms(3)
        by (cases err) (auto simp: Delete_def on_server_def session_inv_def split: if_splits, (metis fmdom'I subsetD option.inject)+)
    qed
  next
    case (reset i soft r)
    obtain e where e: "co_server c = Some e" using assms(3) by (auto simp: session_inv_def)
    obtain p e1 err where "fmlookup (co_peers c) i = None \<or> fmlookup (co_peers c) i = Some p"
      "en_ResetPeer E (pr_remote_address p) soft soft e = (e1, err)" by (metis option.exhaust prod.exhaust)
    then show ?thesis
      using reset e engine_laws_other(1)[OF assms(2), of "pr_remote_address p" soft soft e e1 err] assms(3)
      by (auto simp: Reset_def on_server_def session_inv_def)
  qed (use up assms(3) in \<open>auto simp: same_registry_def session_inv_def\<close>)
qed

lemma registry_steps_inv:
  "(registry_step E)\<^sup>*\<^sup>* c c' \<Longrightarrow> engine_laws E sessions \<Longrightarrow> session_inv sessions c \<Longrightarrow> session_inv sessions c'"
  by (induction rule: rtranclp_induct) (auto intro: session_step_inv)

section \<open>Start\<close>

lemma upsert_all_inv:
  "engine_laws E sessions \<Longrightarrow> registry_inv sessions c \<Longrightarrow> distinct (map pr_id ps) \<Longrightarrow>
     \<forall>p\<in>set ps. fmlookup (co_peers c) (pr_id p) = None \<Longrightarrow> upsert_all E ps c = (c', Inr ()) \<Longrightarrow>
     registry_inv sessions c' \<and> (\<forall>p\<in>set ps. fmlookup (co_peers c') (pr_id p) = Some p) \<and>
     (\<forall>i. i \<notin> pr_id ` set ps \<longrightarrow> fmlookup (co_peers c') i = fmlookup (co_peers c) i)"
proof (induction ps arbitrary: c)
  case (Cons p ps)
  obtain c1 where step: "Upsert E p c = (c1, Inr ())" and rest: "upsert_all E ps c1 = (c', Inr ())"
    using Cons.prems(5) by (auto simp: Upsert_def split: prod.splits sum.splits)
  have c1: "co_peers c1 = fmupd (pr_id p) p (co_peers c)"
    using upsertLocked_cases[of E p c c1 "Inr ()"] step by (auto simp: Upsert_def)
  have inv: "registry_inv sessions c1" using add_inv[OF Cons.prems(1,2) _ step] Cons.prems(4) by simp
  have fresh: "\<forall>q\<in>set ps. fmlookup (co_peers c1) (pr_id q) = None"
    using Cons.prems(3,4) c1 by (auto simp: image_iff)
  show ?case
    using Cons.IH[OF Cons.prems(1) inv _ fresh rest] Cons.prems(3) c1 by auto
qed simp

lemma Start_inv:
  assumes "engine_laws E sessions" and "Start E ps (New_Collector cfg) = (c, Inr ())" and "distinct (map pr_id ps)"
  shows "registry_inv sessions c \<and> (\<forall>p\<in>set ps. fmlookup (co_peers c) (pr_id p) = Some p) \<and>
     (\<forall>i. i \<notin> pr_id ` set ps \<longrightarrow> fmlookup (co_peers c) i = None)"
proof -
  obtain e e' where st: "en_StartBgp E (start_global cfg ps) (en_NewBgpServer E) = (e, None)" "en_WatchEvent E e = (e', None)"
    and all: "upsert_all E ps ((New_Collector cfg)\<lparr>co_server := Some e', co_started := True\<rparr>) = (c, Inr ())"
    using assms(2) by (auto simp: Start_def New_Collector_def split: if_splits prod.splits option.splits)
  have "sessions e' = {}"
    using engine_laws_other(2)[OF assms(1) st(1)] engine_laws_other(3)[OF assms(1) st(2)] engine_laws_other(4)[OF assms(1)] by simp
  then have "registry_inv sessions ((New_Collector cfg)\<lparr>co_server := Some e', co_started := True\<rparr>)"
    by (simp add: registry_inv_def New_Collector_def addresses_def)
  from upsert_all_inv[OF assms(1) this assms(3) _ all] show ?thesis by (simp add: New_Collector_def)
qed

text \<open>
  C6. The registry agrees with the engine: after a start and any sequence of operations and events that
  move no known peer to another address, refused ones included, every session of the engine is at a known
  address, a known address leads to a registered peer with that address, and a peer whose update is then
  accepted has its session and is found under its address. As long as no update of a known peer is
  refused, the engine has exactly the sessions of the registered peers, and every one of them is found;
  a refused update leaves the peer registered and, as the old session is deleted first, without one.
\<close>

theorem registry_consistent:
  assumes "engine_laws E sessions" and "Start E ps (New_Collector cfg) = (c0, Inr ())" and "distinct (map pr_id ps)"
    and "(registry_step E)\<^sup>*\<^sup>* c0 c"
  shows "\<exists>e. co_server c = Some e \<and>
    (\<forall>a\<in>sessions e. peerForAddress c a \<noteq> None) \<and>
    (\<forall>a q. peerForAddress c a = Some q \<longrightarrow> (\<exists>p. q = Some p \<and> pr_remote_address p = a \<and> p \<in> fmran' (co_peers c))) \<and>
    (\<forall>p c'. Upsert E p c = (c', Inr ()) \<longrightarrow> peerForAddress c' (pr_remote_address p) = Some (Some p) \<and>
       (\<exists>e'. co_server c' = Some e' \<and> pr_remote_address p \<in> sessions e')) \<and>
    ((accepted_step E)\<^sup>*\<^sup>* c0 c \<longrightarrow> sessions e = addresses c \<and>
       (\<forall>i p. fmlookup (co_peers c) i = Some p \<longrightarrow> peerForAddress c (pr_remote_address p) = Some (Some p)))"
proof -
  have start: "registry_inv sessions c0" using Start_inv[OF assms(1-3)] by blast
  note inv = registry_steps_inv[OF assms(4,1) registry_session_inv[OF start]]
  obtain e where e: "co_server c = Some e" "sessions e \<subseteq> fmdom' (co_byAddress c)" using inv by (auto simp: session_inv_def)
  have known: "\<forall>a\<in>sessions e. peerForAddress c a \<noteq> None"
    using e(2) by (auto simp: peerForAddress_def fmlookup_dom'_iff split: option.splits)
  have leads: "\<exists>p. q = Some p \<and> pr_remote_address p = a \<and> p \<in> fmran' (co_peers c)" if q: "peerForAddress c a = Some q" for a q
  proof -
    obtain i where i: "fmlookup (co_byAddress c) a = Some i" "fmlookup (co_peers c) i = q"
      using q by (auto simp: peerForAddress_def split: option.splits)
    then obtain p where "fmlookup (co_peers c) i = Some p" "pr_remote_address p = a" using inv by (auto simp: session_inv_def)
    then show ?thesis using i(2) by (auto intro: fmran'I)
  qed
  have up: "peerForAddress c' (pr_remote_address p) = Some (Some p) \<and> (\<exists>e'. co_server c' = Some e' \<and> pr_remote_address p \<in> sessions e')"
    if "Upsert E p c = (c', Inr ())" for p c'
    using assms(1) inv that by (cases rule: upsert_cases) (auto simp: peerForAddress_def)
  have exact: "sessions e = addresses c \<and>
      (\<forall>i p. fmlookup (co_peers c) i = Some p \<longrightarrow> peerForAddress c (pr_remote_address p) = Some (Some p))"
    if "(accepted_step E)\<^sup>*\<^sup>* c0 c"
    using accepted_steps_inv[OF that assms(1) start] e(1) by (auto simp: registry_inv_def peerForAddress_def)
  show ?thesis using e(1) known leads up exact by blast
qed

text \<open>
  A change of a known peer that the engine refuses strands the peer: its session is deleted before the new
  one is added, it stays registered without one, and it cannot be deleted any more, because the engine has
  no session to delete.
\<close>

theorem refused_update_strands:
  assumes "engine_laws E sessions" and "registry_inv sessions c" and "fmlookup (co_peers c) (pr_id p) = Some old"
    and "Upsert E p c = (c', Inl f)"
  shows "fmlookup (co_peers c') (pr_id p) = Some old \<and>
    (\<exists>e. co_server c' = Some e \<and> pr_remote_address old \<notin> sessions e) \<and> (\<exists>c'' g. Delete E (pr_id p) c' = (c'', Inl g))"
proof -
  let ?a = "pr_remote_address old"
  obtain e where e: "co_server c = Some e" "sessions e = addresses c" using registry_invD(2)[OF assms(2)] by blast
  have a: "?a \<in> addresses c" using assms(3) unfolding addresses_def by blast
  obtain e1 err where del: "en_DeletePeer E ?a e = (e1, err)" by fastforce
  then have err: "err = None" using engine_laws_delete(2)[OF assms(1), of ?a e e1] a e(2) by (cases err) auto
  have s1: "?a \<notin> sessions e1" using engine_laws_delete(1)[OF assms(1) del[unfolded err]] by simp
  obtain e2 err2 where add: "en_AddPeer E (toGoBGPPeer p) e1 = (e2, err2)" by fastforce
  have c': "c' = c\<lparr>co_server := Some e2\<rparr>" "err2 \<noteq> None"
    using assms(3,4) registry_invD(1)[OF assms(2)] e del err add
    by (auto simp: Upsert_def upsertLocked_def drop_old_def on_server_def split: option.splits)
  then have s2: "?a \<notin> sessions e2" using s1 engine_laws_add(2)[OF assms(1)] add by auto
  obtain e3 err3 where del2: "en_DeletePeer E ?a e2 = (e3, err3)" by fastforce
  then have "err3 \<noteq> None" using engine_laws_delete(1)[OF assms(1), of ?a e2 e3] s2 by auto
  then show ?thesis using c'(1) s2 assms(3) del2 by (auto simp: Delete_def on_server_def)
qed

definition lab_bgp :: BGP_Config where
  "lab_bgp = \<lparr>bc_router_id = ''127.0.0.1'', bc_listen_port = - 1, bc_listen_addresses = []\<rparr>"

definition lab_collector :: "string list Collector" where
  "lab_collector = fst (Start list_engine [bgp_peer ''p'' ''10.0.0.1''] (New_Collector lab_bgp))"

lemma lab_collector_eq:
  "Start list_engine [bgp_peer ''p'' ''10.0.0.1''] (New_Collector lab_bgp) = (lab_collector, Inr ())"
  "lab_collector = \<lparr>co_server = Some [''10.0.0.1''], co_sources = fmempty,
     co_peers = fmupd ''p'' (bgp_peer ''p'' ''10.0.0.1'') fmempty, co_byAddress = fmupd ''10.0.0.1'' ''p'' fmempty,
     co_cfg = lab_bgp, co_started = True, co_pathsTotal = fmempty, co_decodeErrorsTotal = fmempty\<rparr>"
  by (simp_all add: lab_collector_def Start_def New_Collector_def lab_bgp_def list_engine_def start_global_def upsertLocked_def
      drop_old_def on_server_def bgp_peer_def)

theorem registry_consistent_witness:
  "peerForAddress (fst (Upsert list_engine (bgp_peer ''q'' ''10.0.0.2'') lab_collector)) ''10.0.0.2'' =
     Some (Some (bgp_peer ''q'' ''10.0.0.2''))"
proof -
  let ?q = "bgp_peer ''q'' ''10.0.0.2''"
  obtain c r where up: "Upsert list_engine ?q lab_collector = (c, r)" by fastforce
  have one: "distinct (map pr_id [bgp_peer ''p'' ''10.0.0.1''])" by simp
  have new: "fmlookup (co_peers lab_collector) (pr_id ?q) = None" by (simp add: lab_collector_eq(2) bgp_peer_def)
  have run: "(registry_step list_engine)\<^sup>*\<^sup>* lab_collector c" "(accepted_step list_engine)\<^sup>*\<^sup>* lab_collector c"
    using registry_step.add[OF new up] accepted_step.add[OF new up] by blast+
  have "fmlookup (co_peers c) ''q'' = Some ?q" "pr_remote_address ?q = ''10.0.0.2''"
    using up by (auto simp: lab_collector_eq(2) Upsert_def upsertLocked_def drop_old_def on_server_def list_engine_def bgp_peer_def)
  moreover have "\<forall>i p. fmlookup (co_peers c) i = Some p \<longrightarrow> peerForAddress c (pr_remote_address p) = Some (Some p)"
    using registry_consistent[OF list_engine_laws lab_collector_eq(1) one run(1)] run(2) by blast
  ultimately have "peerForAddress c (pr_remote_address ?q) = Some (Some ?q)" by blast
  then show ?thesis using up \<open>pr_remote_address ?q = _\<close> by simp
qed

lemma Start_synced_rule:
  assumes "engine_laws E sessions" and "store_inv cont lo M H s" and "iter_order it"
    and "Start E (sn_peers (Store_Snapshot it s)) (New_Collector cfg) = (c, Inr ())"
  shows "fmlookup (co_peers c) = entry s \<and> registry_synced (s, c) \<and> registry_inv sessions c"
proof -
  note snap = snapshot_peers[OF assms(2,3)]
  note st = Start_inv[OF assms(1,4) snap(2)]
  have "fmlookup (co_peers c) i = entry s i" for i
  proof (cases "entry s i")
    case None
    then have "i \<notin> pr_id ` set (sn_peers (Store_Snapshot it s))" using snap(1) by force
    then show ?thesis using st None by simp
  next
    case (Some p)
    then have "pr_id p = i" using entry_ok[OF assms(2)] by blast
    then show ?thesis using st snap(1)[of p] Some by auto
  qed
  then show ?thesis using st by (auto simp: registry_synced_def same_config_def fun_eq_iff)
qed

text \<open>
  Starting registers the peers of the store: after a start with the peers of the store's snapshot,
  the registry holds exactly the peers of the store.
\<close>

theorem Start_synced:
  assumes "engine_laws E sessions" and "store_inv cont lo M H s" and "iter_order it"
    and "Start E (sn_peers (Store_Snapshot it s)) (New_Collector cfg) = (c, Inr ())"
  shows "fmlookup (co_peers c) = entry s \<and> registry_synced (s, c) \<and> registry_inv sessions c"
  by (rule Start_synced_rule[OF assms])

definition lab_store :: "contents Store" where
  "lab_store = fst (fst (CreatePeer memory_pebble None id (None, 10) (Some (bgp_peer ''p'' ''10.0.0.1'')) (domain_store, ())))"

lemma lab_revision: "st_revision lab_store = 2"
  by code_simp

lemma lab_store_inv: "\<exists>lo M H. store_inv (\<lambda>c. c) lo M H lab_store"
proof -
  obtain lo M H where inv: "store_inv (\<lambda>c. c) lo M H domain_store" using domain_store_inv by blast
  obtain u r where run: "CreatePeer memory_pebble None id (None, 10) (Some (bgp_peer ''p'' ''10.0.0.1'')) (domain_store, ()) =
      ((lab_store, u), r)" unfolding lab_store_def by (metis prod.collapse)
  have "json_ok (enc_Peer (bgp_peer ''p'' ''10.0.0.1''))" "st_revision domain_store = 1" by code_simp+
  from CreatePeer_steps[OF run] this have "(store_step memory_pebble)\<^sup>*\<^sup>* domain_store lab_store" by simp
  from store_steps_inv[OF memory_pebble_laws inv this] show ?thesis by (auto simp: extends_history_def)
qed

theorem Start_synced_witness:
  "fmlookup (co_peers (fst (Start list_engine (sn_peers (Store_Snapshot id lab_store)) (New_Collector lab_bgp)))) = entry lab_store"
proof -
  obtain lo M H where inv: "store_inv (\<lambda>c. c) lo M H lab_store" using lab_store_inv by blast
  have "\<not> isl (snd (Start list_engine (sn_peers (Store_Snapshot id lab_store)) (New_Collector lab_bgp)))" by code_simp
  then obtain c where "Start list_engine (sn_peers (Store_Snapshot id lab_store)) (New_Collector lab_bgp) = (c, Inr ())"
    by (metis (full_types) old.unit.exhaust prod.collapse sum.collapse(2))
  from Start_synced[OF list_engine_laws inv iter_order_id(1) this] this show ?thesis by simp
qed

lemma lab_system_ok: "collector_ok (lab_store, lab_collector)"
proof -
  have "keyed lab_store" using lab_store_inv entry_ok(1) unfolding keyed_def by blast
  then show ?thesis
    by (auto simp: collector_ok_def lab_collector_eq(2) registry_ids_def no_dangling_def sources_inv_def sources_ok_def bgp_peer_def
        split: if_splits)
qed

lemma lab_system_synced: "registry_synced (lab_store, lab_collector)"
proof -
  have "fmdom' (m_peers (st_memory lab_store)) = {''p''}" by code_simp
  then have "entry lab_store i = None" if "i \<noteq> ''p''" for i
    using that unfolding entry_def by (metis fmdom'_notD singletonD)
  moreover have "map_option config_of (fmlookup (m_peers (st_memory lab_store)) ''p'') = Some (config_of (bgp_peer ''p'' ''10.0.0.1''))"
    by code_simp
  then have "map_option config_of (entry lab_store ''p'') = Some (config_of (bgp_peer ''p'' ''10.0.0.1''))" by (simp add: entry_def)
  ultimately show ?thesis by (simp add: registry_synced_def same_config_def lab_collector_eq(2))
qed

section \<open>Two peers at one address\<close>

text \<open>
  The collector does not start with two peers at one address: when two peers of the store have the
  same remote address, starting fails, and with it the whole process.
\<close>

theorem Start_refuses_duplicates:
  assumes "engine_laws E sessions" and "distinct (map pr_id ps)" and "p \<in> set ps" and "q \<in> set ps" and "p \<noteq> q"
    and "pr_remote_address p = pr_remote_address q"
  shows "snd (Start E ps (New_Collector cfg)) \<noteq> Inr ()"
proof
  assume "snd (Start E ps (New_Collector cfg)) = Inr ()"
  then obtain c where c: "Start E ps (New_Collector cfg) = (c, Inr ())" by (metis prod.collapse)
  have inv: "registry_inv sessions c" and all: "\<forall>p\<in>set ps. fmlookup (co_peers c) (pr_id p) = Some p"
    using Start_inv[OF assms(1) c assms(2)] by blast+
  have "pr_id p = pr_id q" using address_unique[OF inv] all assms(3,4,6) by blast
  then show False using all assms(3-5) by (metis option.inject)
qed

theorem Start_refuses_duplicates_witness:
  "snd (Start list_engine [bgp_peer ''p'' ''10.0.0.1'', bgp_peer ''q'' ''10.0.0.1''] (New_Collector lab_bgp)) \<noteq> Inr ()"
  by (rule Start_refuses_duplicates[OF list_engine_laws, of _ "bgp_peer ''p'' ''10.0.0.1''" "bgp_peer ''q'' ''10.0.0.1''"])
    (simp_all add: bgp_peer_def zero_Peer_def)

text \<open>
  How such a store comes about: the service validates a new peer without looking at the addresses
  of the others, writes it, and only then is refused by the engine. The call fails, the peer stays in the
  store, and the next start of the process fails.
\<close>

theorem duplicate_address_blocks_start:
  "let sys = (lab_store, lab_collector);
       answer = CreatePeer memory_pebble (Some (collector_manager list_engine)) id (None, 20)
         (Some (bgp_peer ''q'' ''10.0.0.1'')) sys;
       s' = fst (fst answer)
   in isl (snd answer) \<and> entry s' ''q'' \<noteq> None \<and>
      isl (snd (Start list_engine (sn_peers (Store_Snapshot id s')) (New_Collector lab_bgp)))"
proof -
  have "isl (snd (CreatePeer memory_pebble (Some (collector_manager list_engine)) id (None, 20)
         (Some (bgp_peer ''q'' ''10.0.0.1'')) (lab_store, lab_collector)))" by code_simp
  moreover have "fmlookup (m_peers (st_memory (fst (fst (CreatePeer memory_pebble (Some (collector_manager list_engine)) id (None, 20)
         (Some (bgp_peer ''q'' ''10.0.0.1'')) (lab_store, lab_collector)))))) ''q'' \<noteq> None" by code_simp
  moreover have "isl (snd (Start list_engine (sn_peers (Store_Snapshot id (fst (fst (CreatePeer memory_pebble
         (Some (collector_manager list_engine)) id (None, 20) (Some (bgp_peer ''q'' ''10.0.0.1''))
         (lab_store, lab_collector)))))) (New_Collector lab_bgp)))" by code_simp
  ultimately show ?thesis unfolding Let_def entry_def by blast
qed

end
