(* ===== verification/Bgp_Theorems.thy ===== *)
theory Bgp_Theorems
  imports Bgp_Registry
begin

text \<open>
  What the collector does with the events of the engine, together with the store and the service:
  session events, the configuration of the peers, and the cases in which events are lost or stop the
  process.
\<close>

section \<open>Session events\<close>

lemma config_session [simp]: "config_of (session_peer ev observed p) = config_of p"
  by (simp add: session_peer_def config_of_def Let_def)

lemma session_peer_id [simp]: "pr_id (session_peer ev observed p) = pr_id p"
  by (simp add: session_peer_def Let_def)

lemma session_json:
  "json_ok (enc_Peer p) \<Longrightarrow> utf8_valid (formatAddr (pe_RouterID ev)) \<Longrightarrow> utf8_valid (pe_DisconnectMessage ev) \<Longrightarrow>
     json_ok (enc_Peer (session_peer ev observed p))"
  by (simp add: json_ok_Peer session_peer_def Let_def)

text \<open>
  A session event of a registered peer is written to the store: the peer has the session state of
  the event, the time of the change, the error and, once established, the time of that, and its
  configuration is as registered. All other fields are those of the registered copy too, the count of
  rejected updates included: what the store has counted since the peer was registered is lost.
\<close>

theorem handlePeer_effect:
  assumes "pebble_laws P cont" and "\<And>db ops. fst (db_commit P db ops) = None"
    and "peerForAddress c (Addr_String (pe_NeighborAddress ev)) = Some (Some p)" and "pe_is_state ev" and "pr_id p \<noteq> []"
    and "json_ok (enc_Peer p)" and "utf8_valid (formatAddr (pe_RouterID ev))" and "utf8_valid (pe_DisconnectMessage ev)"
  shows "\<exists>s' q. handlePeer P now (Some ev) observed (s, c) = ((s', c), Inr ()) \<and>
    entry s' = (entry s)(pr_id p \<mapsto> q) \<and> config_of q = config_of p \<and>
    pr_session_state q = mapFSM (pe_SessionState ev) \<and> pr_last_state_change q = Some observed \<and>
    pr_last_error q = pe_DisconnectMessage ev \<and>
    pr_established_at q = (if pe_SessionState ev = BGP_FSM_ESTABLISHED then Some observed else pr_established_at p) \<and>
    pr_rejected_updates q = pr_rejected_updates p"
proof -
  let ?q = "session_peer ev observed p"
  obtain s' v res where app: "Apply P None now (peer_mutation ?q False ''BGP session state changed'') s = (s', v, res)"
    by (metis prod.collapse)
  have "utf8_valid (pr_domain_id p)" "utf8_valid (pr_id p)" using assms(6) by (simp_all add: json_ok_Peer)
  then have "mutation_ok (peer_mutation ?q False ''BGP session state changed'')"
    using session_json[OF assms(6-8)]
    by (simp add: mutation_ok_def enc_entity_def utf8_ascii) (simp add: session_peer_def Let_def)
  then obtain r where "res = Inr r" using Apply_succeeds_lemma[of _ P s now] assms(2,5) app by fastforce
  then have "entry s' = (entry s)(pr_id p \<mapsto> versioned s ?q)" using Apply_peer_cases[OF assms(1) app] by auto
  moreover have "handlePeer P now (Some ev) observed (s, c) = ((s', c), Inr ())"
    using app assms(3,4) by (simp add: handlePeer_def)
  moreover have "mapFSM (pe_SessionState ev) = PEER_SESSION_STATE_ESTABLISHED \<longleftrightarrow> pe_SessionState ev = BGP_FSM_ESTABLISHED"
    by (cases "pe_SessionState ev") simp_all
  ultimately show ?thesis
    by (intro exI[of _ s'] exI[of _ "versioned s ?q"]) (simp add: versioned_def session_peer_def config_of_def Let_def)
qed

definition lab_event :: PeerEvent where
  "lab_event = \<lparr>pe_is_state = True, pe_NeighborAddress = Addr4 0x0A000001, pe_SessionState = BGP_FSM_ESTABLISHED,
     pe_RouterID = NoAddr, pe_DisconnectMessage = []\<rparr>"

lemma lab_address: "Addr_String (Addr4 0x0A000001) = ''10.0.0.1''"
  by code_simp

theorem handlePeer_effect_witness:
  "\<exists>s' q. handlePeer memory_pebble 30 (Some lab_event) 30 (lab_store, lab_collector) = ((s', lab_collector), Inr ()) \<and>
     entry s' ''p'' = Some q \<and> pr_session_state q = PEER_SESSION_STATE_ESTABLISHED \<and> pr_established_at q = Some 30"
proof -
  have "peerForAddress lab_collector (Addr_String (pe_NeighborAddress lab_event)) = Some (Some (bgp_peer ''p'' ''10.0.0.1''))"
    by (simp add: lab_event_def lab_address peerForAddress_def lab_collector_eq(2))
  moreover have "json_ok (enc_Peer (bgp_peer ''p'' ''10.0.0.1''))" by code_simp
  moreover have "pr_id (bgp_peer ''p'' ''10.0.0.1'') = ''p''" by (simp add: bgp_peer_def)
  ultimately obtain s' q where "handlePeer memory_pebble 30 (Some lab_event) 30 (lab_store, lab_collector) = ((s', lab_collector), Inr ())"
    "entry s' = (entry lab_store)(''p'' \<mapsto> q)" "pr_session_state q = mapFSM (pe_SessionState lab_event)"
    "pr_established_at q = (if pe_SessionState lab_event = BGP_FSM_ESTABLISHED then Some 30 else pr_established_at (bgp_peer ''p'' ''10.0.0.1''))"
    using handlePeer_effect[OF memory_pebble_laws(1) memory_commits, of lab_collector lab_event "bgp_peer ''p'' ''10.0.0.1''" 30 30 lab_store]
    by (auto simp: lab_event_def formatAddr_def)
  then show ?thesis by (auto simp: lab_event_def)
qed

section \<open>Events and configurations\<close>

lemma handlePeer_synced:
  assumes "pebble_laws P cont" and "registry_synced (s, c)" and "registry_ids c"
    and "handlePeer P now event observed (s, c) = ((s', c'), r)"
  shows "registry_synced (s', c') \<and> c' = c"
proof -
  have "\<forall>ev i p. event = Some ev \<longrightarrow> fmlookup (co_peers c) i = Some p \<longrightarrow>
      same_config (entry (fst (Apply P None now (peer_mutation (session_peer ev observed p) False ''BGP session state changed'') s)))
        (fmlookup (co_peers c))"
  proof (intro allI impI)
    fix ev i p assume p: "fmlookup (co_peers c) i = Some p"
    obtain s1 v res where app: "Apply P None now (peer_mutation (session_peer ev observed p) False ''BGP session state changed'') s = (s1, v, res)"
      by (metis prod.collapse)
    have "pr_id p = i" using assms(3) p by (simp add: registry_ids_def)
    then show "same_config (entry (fst (Apply P None now (peer_mutation (session_peer ev observed p) False ''BGP session state changed'') s)))
        (fmlookup (co_peers c))"
      using Apply_peer_cases[OF assms(1) app] assms(2) p by (auto simp: app registry_synced_def same_config_def)
  qed
  then show ?thesis
    using assms(2,4) by (auto simp: handlePeer_def peerForAddress_def registry_synced_def split: option.splits if_splits prod.splits) fastforce+
qed

text \<open>
  No event changes a configuration: when the store and the registry have the same configurations,
  they have after a session event and after a batch of paths, and the registry is unchanged.
\<close>

theorem events_keep_synced:
  assumes "pebble_laws P cont" and "registry_synced (s, c)" and "collector_ok (s, c)"
  shows "(handlePeer P now event observed (s, c) = ((s', c'), r) \<longrightarrow> registry_synced (s', c') \<and> c' = c) \<and>
    ((\<forall>k. iter_order (w_it (w k))) \<and> (\<forall>path\<in>set paths. pa_Nlri path \<noteq> LsAddrPrefix None) \<and>
     handlePaths P w k paths (s, c) = ((s', c'), r) \<longrightarrow> registry_synced (s', c') \<and> same_registry c c')"
proof (intro conjI impI)
  show "registry_synced (s', c')" "c' = c" if "handlePeer P now event observed (s, c) = ((s', c'), r)"
    using handlePeer_synced[OF assms(1,2) _ that] assms(3) by (auto simp: collector_ok_def)
  assume h: "(\<forall>k. iter_order (w_it (w k))) \<and> (\<forall>path\<in>set paths. pa_Nlri path \<noteq> LsAddrPrefix None) \<and>
     handlePaths P w k paths (s, c) = ((s', c'), r)"
  have "same_registry c c' \<and> same_config (entry s') (entry s)" using handlePaths_ok[OF assms(1) _ assms(3)] h by blast
  then show "registry_synced (s', c')" "same_registry c c'"
    using assms(2) by (auto simp: registry_synced_def same_config_def same_registry_def)
qed

theorem events_keep_synced_witness:
  "registry_synced (fst (handlePeer memory_pebble 30 (Some lab_event) 30 (lab_store, lab_collector)))"
proof -
  obtain s' c' r where run: "handlePeer memory_pebble 30 (Some lab_event) 30 (lab_store, lab_collector) = ((s', c'), r)"
    by (metis prod.collapse)
  then show ?thesis
    using events_keep_synced[OF memory_pebble_laws(1) lab_system_synced lab_system_ok] by fastforce
qed

text \<open>
  C16. The service keeps the collector in step: when a call that creates, changes, enables, disables,
  deletes, resets or imports peers succeeds, the peers of the store and of the collector's registry have
  the same configurations if they had before.
\<close>

theorem service_keeps_synced:
  assumes "pebble_laws P cont" and "registry_synced (s, c)" and "M = Some (collector_manager E)"
  shows "(CreatePeer P M it tick req (s, c) = (sys', Inr p) \<longrightarrow> registry_synced sys') \<and>
    (UpdatePeer P M it tick req expected (s, c) = (sys', Inr p) \<longrightarrow> registry_synced sys') \<and>
    (SetPeerAdminState P M tick i enabled expected (s, c) = (sys', Inr p) \<longrightarrow> registry_synced sys') \<and>
    (DeletePeer P M tick i expected (s, c) = (sys', Inr u) \<longrightarrow> registry_synced sys') \<and>
    (ResetPeer M i soft (s, c) = (sys', Inr p) \<longrightarrow> registry_synced sys') \<and>
    (ImportPeerConfig P M unyaml it clk data replace (s, c) = (sys', Inr ps) \<longrightarrow> registry_synced sys')"
proof -
  obtain s' c' where sys: "sys' = (s', c')" by (cases sys')
  note rules = cm.write_peer_synced[where E = E, unfolded registry_synced_cm, OF assms(1) _ assms(2)]
    cm.DeletePeer_synced[where E = E, unfolded registry_synced_cm, OF assms(1) _ assms(2)]
    cm.ResetPeer_synced[where E = E, unfolded registry_synced_cm, OF _ assms(2)]
    cm.ImportPeerConfig_synced[where E = E, unfolded registry_synced_cm, OF assms(1) _ assms(2)]
  show ?thesis
    unfolding assms(3) sys CreatePeer_def UpdatePeer_def SetPeerAdminState_def by (intro conjI impI; erule rules)
qed

theorem service_keeps_synced_witness:
  "registry_synced (fst (CreatePeer memory_pebble (Some (collector_manager list_engine)) id (None, 20)
     (Some (bgp_peer ''q'' ''10.0.0.2'')) (lab_store, lab_collector)))"
proof -
  let ?a = "CreatePeer memory_pebble (Some (collector_manager list_engine)) id (None, 20)
     (Some (bgp_peer ''q'' ''10.0.0.2'')) (lab_store, lab_collector)"
  have "\<not> isl (snd ?a)" by code_simp
  then obtain p where "?a = (fst ?a, Inr p)" by (metis prod.collapse sum.collapse(2))
  then show ?thesis
    using service_keeps_synced[OF memory_pebble_laws(1) lab_system_synced refl] by metis
qed

section \<open>Batches of paths\<close>

definition bad_path :: LsPath where
  "bad_path = (sample_node_path False)\<lparr>pa_Nlri := LsAddrPrefix (Some (Some (NodeNLRI (Some \<lparr>nn_ProtocolID = 2, nn_Identifier = 7,
     nn_LocalNodeDesc = OtherSlot\<rparr>))))\<rparr>"

lemma lab_counted: "counted lab_collector bad_path" "counted lab_collector (sample_node_path False)"
  by (simp_all add: counted_def bad_path_def sample_node_path_def lab_address lab_collector_eq(2))

text \<open>
  C13. How a batch of paths ends: it is handled to its end unless it has a path that stops the process,
  one of a known address whose peer is gone or one of a known peer whose NLRI is a nil pointer; at the
  first such path the handler panics. Whatever else the paths before it carry, malformed ones included,
  every BGP-LS path of them from a known address is counted once, and neither the registry nor the
  configuration of a peer changes.
\<close>

theorem handlePaths_total:
  assumes "pebble_laws P cont" and "\<forall>k. iter_order (w_it (w k))" and "keyed s" and "registry_ids c" and "sources_inv (s, c)"
  shows "\<exists>s' c'. handlePaths P w k paths (s, c) = ((s', c'), if list_ex (fatal c) paths then Inl Panic else Inr ()) \<and>
    keyed s' \<and> sources_inv (s', c') \<and> same_registry c c' \<and> same_config (entry s') (entry s) \<and>
    counter_sum (co_pathsTotal c') =
      counter_sum (co_pathsTotal c) + length (filter (counted c) (takeWhile (\<lambda>path. \<not> fatal c path) paths))"
proof -
  obtain s' c' r where run: "handlePaths P w k paths (s, c) = ((s', c'), r)" by (metis prod.collapse)
  have "events_ok (s, c)" using assms(3-5) by (simp add: events_ok_def)
  from handlePaths_exact[OF assms(1,2) this run] run show ?thesis by (simp add: events_ok_def comp_def)
qed

theorem handlePaths_total_witness:
  "(\<exists>s' c'. handlePaths memory_pebble (\<lambda>k. sample_world) 0 [bad_path, sample_node_path False] (lab_store, lab_collector) =
     ((s', c'), Inr ()) \<and> counter_sum (co_pathsTotal c') = 2) \<and>
   (\<exists>s' c'. handlePaths memory_pebble (\<lambda>k. sample_world) 0 [bad_path, bad_path\<lparr>pa_Nlri := LsAddrPrefix None\<rparr>, bad_path]
     (lab_store, lab_collector) = ((s', c'), Inl Panic) \<and> counter_sum (co_pathsTotal c') = 1)"
proof -
  have known: "peerForAddress lab_collector ''10.0.0.1'' = Some (Some (bgp_peer ''p'' ''10.0.0.1''))"
    by (simp add: peerForAddress_def lab_collector_eq(2))
  have fatal: "\<not> fatal lab_collector bad_path" "\<not> fatal lab_collector (sample_node_path False)"
    "fatal lab_collector (bad_path\<lparr>pa_Nlri := LsAddrPrefix None\<rparr>)"
    by (simp_all add: fatal_def bad_path_def sample_node_path_def lab_address known)
  have ok: "keyed lab_store" "registry_ids lab_collector" "sources_inv (lab_store, lab_collector)"
    using lab_system_ok by (simp_all add: collector_ok_def)
  have "iter_order (w_it sample_world)" by (simp add: sample_world_def iter_order_id)
  then have order: "\<forall>k::nat. iter_order (w_it sample_world)" by simp
  have zero: "counter_sum (co_pathsTotal lab_collector) = 0" by (simp add: lab_collector_eq(2) counter_sum_def)
  note run = handlePaths_total[where w = "\<lambda>k. sample_world" and k = 0, OF memory_pebble_laws(1) order ok]
  show ?thesis
    using run[of "[bad_path, sample_node_path False]"] run[of "[bad_path, bad_path\<lparr>pa_Nlri := LsAddrPrefix None\<rparr>, bad_path]"]
      fatal lab_counted zero by auto
qed

text \<open>
  What a path that cannot be translated does: it adds one to the peer's count of rejected updates
  in the store, and to the metrics; the sources and every entity but the peer are as before. A path of
  an unsupported type only adds to the metrics.
\<close>

theorem rejected_path_effect:
  assumes "pebble_laws P cont" and "\<And>db ops. fst (db_commit P db ops) = None"
    and "path_entities (w\<lparr>w_ctx := None\<rparr>) (pr_domain_id peer) path = Inl f"
    and "pa_Nlri path \<noteq> LsAddrPrefix None" and "entry s (pr_id peer) = Some p" and "pr_id p = pr_id peer"
    and "pr_id p \<noteq> []" and "json_ok (enc_Peer p)"
  shows "\<exists>s' c'. known_path P w peer path (s, c) = ((s', c'), Inr ()) \<and> co_sources c' = co_sources c \<and>
    same_registry c c' \<and> counter_sum (co_decodeErrorsTotal c') = Suc (counter_sum (co_decodeErrorsTotal c)) \<and>
    (case f of PathError e \<Rightarrow> if errors_Is e errUnsupportedNLRI then s' = s
        else stored s (p\<lparr>pr_rejected_updates := pr_rejected_updates p + 1\<rparr>) s'
     | PathPanic msg \<Rightarrow> stored s (p\<lparr>pr_rejected_updates := pr_rejected_updates p + 1\<rparr>) s' | PathHang \<Rightarrow> False)"
proof -
  let ?q = "p\<lparr>pr_rejected_updates := pr_rejected_updates p + 1\<rparr>"
  have hp: "handlePath P (w\<lparr>w_ctx := None\<rparr>) peer path r = (r, Inl f)" for r :: "'a Reconciler"
    by (simp add: handlePath_advertise assms(3))
  have f: "f \<noteq> PathHang" using assms(3) path_entities_no_hang by metis
  have "\<exists>kind. nlriKind path = Inr kind" using assms(4) by (auto simp: nlriKind_def split: Nlri.split option.split)
  then obtain kind where kind: "nlriKind path = Inr kind" by blast
  have mut: "mutation_ok (peer_mutation ?q False ''BGP-LS update rejected'')"
    using assms(6,8) by (simp add: mutation_ok_def enc_entity_def json_ok_Peer utf8_ascii)
  obtain s' v res where app: "Apply P None (w_later w) (peer_mutation ?q False ''BGP-LS update rejected'') s = (s', v, res)"
    by (metis prod.collapse)
  obtain ev where "res = Inr ev"
    using Apply_succeeds_lemma[OF mut, of P s "w_later w"] assms(2,7) app by auto
  then have st: "stored s ?q s'" using Apply_peer_cases[OF assms(1) app] by auto
  have inc: "incrementRejected P (w_later w) peer s = (s', Inr ())"
    using app by (simp add: incrementRejected_def Get_peer_eq assms(5))
  show ?thesis
    using f by (cases f) (auto simp: known_path_def reconcile_path_def safeHandlePath_def hp kind inc st same_registry_def
        count_error_def count_path_def errors_Is.simps)
qed

theorem rejected_path_effect_witness:
  "\<exists>s' c'. known_path memory_pebble sample_world (bgp_peer ''p'' ''10.0.0.1'') bad_path (lab_store, lab_collector) = ((s', c'), Inr ()) \<and>
     map_option pr_rejected_updates (entry s' ''p'') = Some 1"
proof -
  let ?b = "bgp_peer ''p'' ''10.0.0.1''"
  obtain lo M H where inv: "store_inv (\<lambda>c. c) lo M H lab_store" using lab_store_inv by blast
  have "map_option pr_rejected_updates (fmlookup (m_peers (st_memory lab_store)) ''p'') = Some 0" by code_simp
  then obtain p where p: "entry lab_store ''p'' = Some p" "pr_rejected_updates p = 0" by (auto simp: entry_def)
  have b: "pr_id ?b = ''p''" "pr_domain_id ?b = ''d''" by (simp_all add: bgp_peer_def)
  note ok = entry_ok[OF inv p(1)]
  have bad: "path_entities (sample_world\<lparr>w_ctx := None\<rparr>) (pr_domain_id ?b) bad_path =
      Inl (PathError (New ''node local descriptor is missing''))"
    by (simp add: path_entities_def path_parts_def bad_path_def sample_node_path_def nlri_of_def panics_def nlri_entities_def
        descriptor_def)
  obtain s' c' where run: "known_path memory_pebble sample_world ?b bad_path (lab_store, lab_collector) = ((s', c'), Inr ())"
    "stored lab_store (p\<lparr>pr_rejected_updates := pr_rejected_updates p + 1\<rparr>) s'"
    using rejected_path_effect[OF memory_pebble_laws(1) memory_commits bad, of lab_store p lab_collector] p ok b
    by (auto simp: bad_path_def)
  have "entry s' = (entry lab_store)(''p'' \<mapsto> versioned lab_store (p\<lparr>pr_rejected_updates := 1\<rparr>))"
    using stored_entry[OF run(2)] p(2) ok(1) by simp
  then show ?thesis using run(1) by (auto simp: versioned_def)
qed

section \<open>Lost and fatal events\<close>

text \<open>
  C39. A peer that is given another address leaves its old address behind in the registry, with every
  engine. When the peer is then deleted, the old address leads to no peer, and a path or a session event
  that still arrives from there stops the process with a nil dereference outside the reach of
  \<open>recover\<close>, before anything is stored.
\<close>

theorem moved_peer_panics:
  assumes "fmlookup (co_byAddress c) old = Some (pr_id p)" and "pr_remote_address p \<noteq> old"
    and "Upsert E p c = (c1, Inr ())" and "Delete E (pr_id p) c1 = (c2, Inr ())"
    and "pa_LS path" and "Addr_String (pa_PeerAddress path) = old"
    and "pe_is_state ev" and "Addr_String (pe_NeighborAddress ev) = old"
  shows "handlePaths P w k (path # paths) (s, c2) = ((s, c2), Inl Panic) \<and>
    handlePeer P now (Some ev) observed (s, c2) = ((s, c2), Inl Panic)"
proof -
  have up: "co_peers c1 = fmupd (pr_id p) p (co_peers c)" "co_byAddress c1 = fmupd (pr_remote_address p) (pr_id p) (co_byAddress c)"
    using upsertLocked_cases[of E p c c1 "Inr ()"] assms(3) by (auto simp: Upsert_def)
  have "co_peers c2 = fmdrop (pr_id p) (co_peers c1)" "co_byAddress c2 = fmdrop (pr_remote_address p) (co_byAddress c1)"
    using Delete_cases[OF assms(4)] up(1) by auto
  then have "peerForAddress c2 old = Some None" using assms(1,2) up by (simp add: peerForAddress_def)
  then show ?thesis using assms(5-8) by (simp add: path_step_def handlePeer_def)
qed

theorem moved_peer_panics_witness:
  "handlePaths memory_pebble (\<lambda>k. sample_world) 0 [sample_node_path False] (lab_store,
      fst (Delete list_engine ''p'' (fst (Upsert list_engine (bgp_peer ''p'' ''10.0.0.2'') lab_collector)))) =
    ((lab_store, fst (Delete list_engine ''p'' (fst (Upsert list_engine (bgp_peer ''p'' ''10.0.0.2'') lab_collector)))), Inl Panic)"
proof -
  let ?p = "bgp_peer ''p'' ''10.0.0.2''"
  let ?c1 = "fst (Upsert list_engine ?p lab_collector)"
  have p: "pr_id ?p = ''p''" "pr_remote_address ?p = ''10.0.0.2''" by (simp_all add: bgp_peer_def)
  have "snd (Upsert list_engine ?p lab_collector) = Inr ()" "snd (Delete list_engine (pr_id ?p) ?c1) = Inr ()"
    by (simp_all add: lab_collector_eq(2) Upsert_def upsertLocked_def drop_old_def on_server_def list_engine_def bgp_peer_def Delete_def)
  then have run: "Upsert list_engine ?p lab_collector = (?c1, Inr ())"
    "Delete list_engine (pr_id ?p) ?c1 = (fst (Delete list_engine (pr_id ?p) ?c1), Inr ())" by (simp_all add: prod_eq_iff)
  have reg: "fmlookup (co_byAddress lab_collector) ''10.0.0.1'' = Some (pr_id ?p)" "pr_remote_address ?p \<noteq> ''10.0.0.1''"
    by (simp_all add: lab_collector_eq(2) p)
  have ev: "pa_LS (sample_node_path False)" "Addr_String (pa_PeerAddress (sample_node_path False)) = ''10.0.0.1''"
    "pe_is_state lab_event" "Addr_String (pe_NeighborAddress lab_event) = ''10.0.0.1''"
    by (simp_all add: sample_node_path_def lab_event_def lab_address)
  show ?thesis using moved_peer_panics[OF reg run ev] unfolding p by blast
qed

text \<open>
  Addresses are compared as texts. A peer whose address is configured in another form than the one
  Go prints passes validation, but its paths and session events are dropped without an error.
\<close>

theorem noncanonical_address_dropped:
  "let p = bgp_peer ''v6'' ''2001:DB8::1''; c = fst (Upsert list_engine p lab_collector)
   in validatePeer (Some p) (Store_Snapshot id lab_store) = [] \<and> snd (Upsert list_engine p lab_collector) = Inr () \<and>
      ParseAddr ''2001:DB8::1'' = Some (Addr6 0x20010DB8000000000000000000000001 []) \<and>
      handlePaths P w k [(sample_node_path False)\<lparr>pa_PeerAddress := Addr6 0x20010DB8000000000000000000000001 []\<rparr>] (s, c) =
        ((s, c), Inr ())"
proof -
  let ?p = "bgp_peer ''v6'' ''2001:DB8::1''"
  have addr: "Addr_String (Addr6 0x20010DB8000000000000000000000001 []) = ''2001:db8::1''" by code_simp
  have "validatePeer (Some ?p) (Store_Snapshot id lab_store) = []" by code_simp
  moreover have "ParseAddr ''2001:DB8::1'' = Some (Addr6 0x20010DB8000000000000000000000001 [])" by code_simp
  moreover have "snd (Upsert list_engine ?p lab_collector) = Inr ()"
    by (simp add: lab_collector_eq(2) Upsert_def upsertLocked_def drop_old_def on_server_def list_engine_def bgp_peer_def)
  moreover have "fmlookup (co_byAddress (fst (Upsert list_engine ?p lab_collector))) ''2001:db8::1'' = None"
    by (simp add: lab_collector_eq(2) Upsert_def upsertLocked_def drop_old_def on_server_def list_engine_def bgp_peer_def)
  then have "handlePaths P w k [(sample_node_path False)\<lparr>pa_PeerAddress := Addr6 0x20010DB8000000000000000000000001 []\<rparr>]
      (s, fst (Upsert list_engine ?p lab_collector)) = ((s, fst (Upsert list_engine ?p lab_collector)), Inr ())"
    by (simp add: path_step_def addr peerForAddress_def)
  ultimately show ?thesis unfolding Let_def by blast
qed

end
