(* ===== verification/Bgp_Metrics.thy ===== *)
theory Bgp_Metrics
  imports Bgp_Theorems
begin

text \<open>
  The counters of the collector: which labels they can have after any run of it.
\<close>

definition path_kinds :: "string set" where
  "path_kinds = {''unexpected'', ''node'', ''link'', ''prefix_v4'', ''prefix_v6'', ''unsupported''}"

definition path_label_sets :: "string set \<Rightarrow> string list set" where
  "path_label_sets ids = {[i, operation, freshness, outcome, kind] | i operation freshness outcome kind.
     i \<in> ids \<and> operation \<in> {''announce'', ''withdraw''} \<and> freshness \<in> {''active'', ''stale''} \<and>
     outcome \<in> {''accepted'', ''ignored'', ''rejected''} \<and> kind \<in> path_kinds}"

definition error_label_sets :: "string set \<Rightarrow> string list set" where
  "error_label_sets ids = {[i, cls] | i cls. i \<in> ids \<and> cls \<in> {''unsupported_nlri'', ''missing_descriptor'', ''invalid_prefix'',
     ''unexpected_nlri'', ''malformed_decoded_path'', ''normalization_error''}}"

lemma path_kinds: "''unexpected'' \<in> path_kinds" "''node'' \<in> path_kinds" "''link'' \<in> path_kinds" "''prefix_v4'' \<in> path_kinds"
  "''prefix_v6'' \<in> path_kinds" "''unsupported'' \<in> path_kinds"
  by (simp_all add: path_kinds_def)

lemma nlriKind_bounded: "nlriKind path = Inr kind \<Longrightarrow> kind \<in> path_kinds"
  unfolding nlriKind_def by (cases "pa_Nlri path") (auto simp: path_kinds split: option.split_asm LsNLRI.split_asm)

lemma path_labels_bounded:
  assumes "pr_id peer \<in> ids" and "outcome \<in> {''accepted'', ''ignored'', ''rejected''}" and "kind \<in> path_kinds"
  shows "path_labels peer path outcome kind \<in> path_label_sets ids"
  using assms unfolding path_labels_def path_label_sets_def by simp

lemma error_labels_bounded: "i \<in> ids \<Longrightarrow> [i, ''unsupported_nlri''] \<in> error_label_sets ids" "i \<in> ids \<Longrightarrow> [i, classifyDecodeError e] \<in> error_label_sets ids"
  by (simp_all add: error_label_sets_def classifyDecodeError_def Let_def)

definition metrics_in :: "string set \<Rightarrow> 'e Collector \<Rightarrow> bool" where
  "metrics_in ids c \<longleftrightarrow> fmdom' (co_pathsTotal c) \<subseteq> path_label_sets ids \<and> fmdom' (co_decodeErrorsTotal c) \<subseteq> error_label_sets ids"

lemma metrics_in_count:
  "metrics_in ids c \<Longrightarrow> l \<in> path_label_sets ids \<Longrightarrow> metrics_in ids (count_path l c)"
  "metrics_in ids c \<Longrightarrow> l \<in> error_label_sets ids \<Longrightarrow> metrics_in ids (count_error l c)"
  "metrics_in ids (c\<lparr>co_sources := src\<rparr>) = metrics_in ids c"
  by (auto simp: metrics_in_def count_path_def count_error_def Inc_def)

lemma known_path_metrics:
  assumes "known_path P w peer path (s, c) = ((s', c'), r)" and "pr_id peer \<in> ids" and "metrics_in ids c"
  shows "metrics_in ids c' \<and> co_peers c' = co_peers c \<and> co_byAddress c' = co_byAddress c"
proof -
  obtain s1 c1 res where run: "reconcile_path P w peer path (s, c) = ((s1, c1), res)" by (metis prod.collapse)
  then have c1: "metrics_in ids c1" "co_peers c1 = co_peers c" "co_byAddress c1 = co_byAddress c"
    using assms(3) by (auto simp: reconcile_path_def metrics_in_count(3) split: prod.splits)
  note labels = metrics_in_count(1)[OF _ path_labels_bounded[OF assms(2)]] metrics_in_count(2)[OF _ error_labels_bounded(1)[OF assms(2)]]
    metrics_in_count(2)[OF _ error_labels_bounded(2)[OF assms(2)]]
  have frames: "co_peers (count_path l d) = co_peers d" "co_byAddress (count_path l d) = co_byAddress d"
    "co_peers (count_error l d) = co_peers d" "co_byAddress (count_error l d) = co_byAddress d" for l and d :: "'b Collector"
    by (simp_all add: count_path_def count_error_def)
  show ?thesis
    using assms(1) c1 unfolding known_path_def run
    by (auto simp: frames path_kinds split: sum.splits fault.splits if_splits prod.splits intro!: labels dest: nlriKind_bounded)
qed

section \<open>Runs of the collector\<close>

text \<open>
  What happens to a collector: it is started and closed, peers are upserted, deleted and reset, events
  come from the engine, and whatever else the services do with the store.
\<close>

inductive collector_step ::
  "'db pebble \<Rightarrow> 'e engine \<Rightarrow> ('db, 'e Collector) system \<Rightarrow> ('db, 'e Collector) system \<Rightarrow> bool" for P E where
  start: "Start E ps c = (c', r) \<Longrightarrow> collector_step P E (s, c) (s, c')"
| close: "Close E c = (c', r) \<Longrightarrow> collector_step P E (s, c) (s, c')"
| upsert: "Upsert E p c = (c', r) \<Longrightarrow> collector_step P E (s, c) (s, c')"
| delete: "Delete E i c = (c', r) \<Longrightarrow> collector_step P E (s, c) (s, c')"
| reset: "Reset E i soft c = (c', r) \<Longrightarrow> collector_step P E (s, c) (s, c')"
| session: "handlePeer P now event observed (s, c) = ((s', c'), r) \<Longrightarrow> collector_step P E (s, c) (s', c')"
| paths: "handlePaths P w k paths (s, c) = ((s', c'), r) \<Longrightarrow> collector_step P E (s, c) (s', c')"
| store: "collector_step P E (s, c) (s', c)"

inductive_cases collector_stepE: "collector_step P E (s, c) (s', c')"

text \<open>Peers are registered under their identifiers.\<close>

definition peers_keyed :: "'e Collector \<Rightarrow> bool" where
  "peers_keyed c \<longleftrightarrow> (\<forall>i p. fmlookup (co_peers c) i = Some p \<longrightarrow> pr_id p = i)"

definition same_metrics :: "'e Collector \<Rightarrow> 'e Collector \<Rightarrow> bool" where
  "same_metrics c c' \<longleftrightarrow> co_pathsTotal c' = co_pathsTotal c \<and> co_decodeErrorsTotal c' = co_decodeErrorsTotal c \<and>
     (peers_keyed c \<longrightarrow> peers_keyed c')"

lemma on_server_metrics:
  "on_server f c = (c', r) \<Longrightarrow> co_pathsTotal c' = co_pathsTotal c \<and> co_decodeErrorsTotal c' = co_decodeErrorsTotal c \<and>
     co_peers c' = co_peers c"
  by (auto simp: on_server_def split: option.splits prod.splits)

lemma drop_old_metrics:
  "drop_old E p c = (c', r) \<Longrightarrow> co_pathsTotal c' = co_pathsTotal c \<and> co_decodeErrorsTotal c' = co_decodeErrorsTotal c"
  by (auto simp: drop_old_def dest!: on_server_metrics split: option.splits prod.splits sum.splits fault.splits)

lemma upsertLocked_metrics: "upsertLocked E p c = (c', r) \<Longrightarrow> same_metrics c c'"
proof -
  assume up: "upsertLocked E p c = (c', r)"
  obtain c1 r1 where old: "drop_old E p c = (c1, r1)" by fastforce
  obtain c2 r2 where add: "on_server (en_AddPeer E (toGoBGPPeer p)) c1 = (c2, r2)" by fastforce
  have "c' \<in> {c, c1, c2} \<or> (\<exists>ps as. c' = c2\<lparr>co_peers := ps, co_byAddress := as\<rparr>)"
    using up old add by (auto simp: upsertLocked_def split: if_splits sum.splits fault.splits)
  then have "co_pathsTotal c' = co_pathsTotal c \<and> co_decodeErrorsTotal c' = co_decodeErrorsTotal c"
    using drop_old_metrics[OF old] on_server_metrics[OF add] by auto
  moreover have "peers_keyed c \<longrightarrow> peers_keyed c'"
    using upsertLocked_cases[OF up] by (auto simp: peers_keyed_def split: if_split_asm)
  ultimately show ?thesis by (simp add: same_metrics_def)
qed

lemma same_metrics_trans: "same_metrics c d \<Longrightarrow> same_metrics d e \<Longrightarrow> same_metrics c e"
  by (simp add: same_metrics_def)

lemma upsert_all_metrics: "upsert_all E ps c = (c', r) \<Longrightarrow> same_metrics c c'"
proof (induction ps arbitrary: c)
  case (Cons p ps)
  obtain c1 r1 where up: "upsertLocked E p c = (c1, r1)" by fastforce
  then show ?case
    using Cons upsertLocked_metrics[OF up] by (cases r1) (auto intro: same_metrics_trans)
qed (simp add: same_metrics_def)

lemma Start_metrics: "Start E ps c = (c', r) \<Longrightarrow> same_metrics c c'"
  by (auto simp: Start_def same_metrics_def peers_keyed_def dest!: upsert_all_metrics split: if_splits prod.splits option.splits)

lemma Delete_metrics: "Delete E i c = (c', r) \<Longrightarrow> same_metrics c c'"
  by (auto simp: Delete_def same_metrics_def peers_keyed_def dest!: on_server_metrics
      split: option.splits prod.splits sum.splits if_split_asm)

lemma Reset_metrics: "Reset E i soft c = (c', r) \<Longrightarrow> same_metrics c c'"
  by (auto simp: Reset_def same_metrics_def peers_keyed_def dest!: on_server_metrics split: option.splits)

lemma Close_metrics: "Close E c = (c', r) \<Longrightarrow> same_metrics c c'"
  by (auto simp: Close_def same_metrics_def peers_keyed_def dest!: on_server_metrics
      split: if_splits prod.splits sum.splits fault.splits)

lemma handlePeer_metrics: "handlePeer P now event observed (s, c) = ((s', c'), r) \<Longrightarrow> c' = c"
  by (auto simp: handlePeer_def split: option.splits if_splits prod.splits)

lemma path_step_metrics:
  assumes "path_step P w path (s, c) = ((s', c'), r)" and "peers_keyed c" and "metrics_in ids c" and "fmdom' (co_peers c) \<subseteq> ids"
  shows "metrics_in ids c' \<and> co_peers c' = co_peers c"
proof (cases "\<exists>peer. pa_LS path \<and> peerForAddress c (Addr_String (pa_PeerAddress path)) = Some (Some peer)")
  case True
  then obtain peer where p: "pa_LS path" "peerForAddress c (Addr_String (pa_PeerAddress path)) = Some (Some peer)" by blast
  then have "pr_id peer \<in> ids"
    using assms(2,4) by (auto simp: peerForAddress_def peers_keyed_def fmlookup_dom'_iff split: option.splits)
  then show ?thesis using known_path_metrics assms(1,3) p by (fastforce simp: path_step_def)
next
  case False
  then show ?thesis using assms(1,3) by (auto simp: path_step_def split: if_splits option.splits)
qed

lemma handlePaths_metrics:
  "handlePaths P w k paths (s, c) = ((s', c'), r) \<Longrightarrow> peers_keyed c \<Longrightarrow> metrics_in ids c \<Longrightarrow> fmdom' (co_peers c) \<subseteq> ids \<Longrightarrow>
     metrics_in ids c' \<and> co_peers c' = co_peers c"
proof (induction paths arbitrary: k s c)
  case (Cons path paths)
  obtain s1 c1 r1 where step: "path_step P (w k) path (s, c) = ((s1, c1), r1)" by (metis prod.collapse)
  have one: "metrics_in ids c1 \<and> co_peers c1 = co_peers c" by (rule path_step_metrics[OF step Cons.prems(2-4)])
  show ?case
  proof (cases r1)
    case (Inl f)
    then show ?thesis using one step Cons.prems(1) by simp
  next
    case (Inr u)
    then have rest: "handlePaths P w (Suc k) paths (s1, c1) = ((s', c'), r)" using Cons.prems(1) step by simp
    show ?thesis using Cons.IH[OF rest] one Cons.prems(2,4) by (simp add: peers_keyed_def)
  qed
qed simp

lemma collector_step_metrics:
  assumes "collector_step P E (s, c) (s', c')" and "peers_keyed c" and "metrics_in ids c" and "fmdom' (co_peers c) \<subseteq> ids"
  shows "peers_keyed c' \<and> metrics_in ids c'"
proof -
  have same: "peers_keyed c' \<and> metrics_in ids c'" if "same_metrics c c'"
    using that assms(2,3) by (simp add: same_metrics_def metrics_in_def)
  from assms(1) show ?thesis
  proof (cases rule: collector_step.cases)
    case (session now event observed r)
    then show ?thesis using handlePeer_metrics assms(2,3) by blast
  next
    case (paths w k paths r)
    from handlePaths_metrics[OF this assms(2-4)] show ?thesis using assms(2) by (simp add: peers_keyed_def)
  qed (use assms(2,3) in \<open>auto simp: Upsert_def intro!: same dest: Start_metrics Close_metrics upsertLocked_metrics Delete_metrics Reset_metrics\<close>)
qed

text \<open>The identifiers of the peers that are registered in one of the states.\<close>

definition registered_ids :: "('db, 'e Collector) system list \<Rightarrow> string set" where
  "registered_ids run = (\<Union>sys\<in>set run. fmdom' (co_peers (snd sys)))"

lemma metrics_in_mono:
  assumes "ids \<subseteq> ids'" and "metrics_in ids c"
  shows "metrics_in ids' c"
proof -
  have "path_label_sets ids \<subseteq> path_label_sets ids'"
    unfolding path_label_sets_def by (rule subsetI) (elim CollectE exE conjE, use assms(1) in auto)
  moreover have "error_label_sets ids \<subseteq> error_label_sets ids'"
    unfolding error_label_sets_def by (rule subsetI) (elim CollectE exE conjE, use assms(1) in auto)
  ultimately show ?thesis using assms(2) by (auto simp: metrics_in_def)
qed

lemma run_metrics:
  "successively (collector_step P E) (run @ [(s, c)]) \<Longrightarrow> snd (hd (run @ [(s, c)])) = New_Collector cfg \<Longrightarrow>
     peers_keyed c \<and> metrics_in (registered_ids run) c"
proof (induction run arbitrary: s c rule: rev_induct)
  case Nil
  then show ?case by (simp add: New_Collector_def metrics_in_def peers_keyed_def)
next
  case (snoc x run)
  obtain s0 c0 where x: "x = (s0, c0)" by (cases x)
  have chain: "successively (collector_step P E) (run @ [(s0, c0)])" "collector_step P E (s0, c0) (s, c)"
    using snoc.prems(1) unfolding x by (simp_all add: successively_append_iff)
  have "snd (hd (run @ [(s0, c0)])) = New_Collector cfg" using snoc.prems(2) x by (cases run) simp_all
  from snoc.IH[OF chain(1) this] have "peers_keyed c0" "metrics_in (registered_ids (run @ [x])) c0"
    by (simp_all add: metrics_in_mono[of "registered_ids run"] registered_ids_def)
  from collector_step_metrics[OF chain(2) this] show ?case by (simp add: registered_ids_def x)
qed

lemma label_sets_finite:
  assumes "finite ids"
  shows "finite (path_label_sets ids)" "finite (error_label_sets ids)"
proof -
  have "path_label_sets ids \<subseteq> (\<lambda>(i, op, fr, out, kind). [i, op, fr, out, kind]) ` (ids \<times> {''announce'', ''withdraw''} \<times>
      {''active'', ''stale''} \<times> {''accepted'', ''ignored'', ''rejected''} \<times> path_kinds)"
    unfolding path_label_sets_def by force
  then show "finite (path_label_sets ids)" by (rule finite_subset) (simp add: path_kinds_def assms)
  have "error_label_sets ids \<subseteq> (\<lambda>(i, cls). [i, cls]) ` (ids \<times> {''unsupported_nlri'', ''missing_descriptor'', ''invalid_prefix'',
     ''unexpected_nlri'', ''malformed_decoded_path'', ''normalization_error''})"
    unfolding error_label_sets_def by force
  then show "finite (error_label_sets ids)" by (rule finite_subset) (simp add: assms)
qed

text \<open>
  C31. The labels of the metrics are bounded, as the README says: from a new collector on, along any sequence
  of starts, peer operations, session events and batches of paths, whatever they carry and however they
  end, the counters have only labels made of fixed words and of the identifiers of peers that were
  registered before; no error message and nothing that a peer sends becomes a label. The labels of a
  deleted peer stay.
\<close>

theorem metrics_bounded:
  assumes "successively (collector_step P E) (run @ [(s, c)])" and "snd (hd (run @ [(s, c)])) = New_Collector cfg"
  shows "fmdom' (co_pathsTotal c) \<subseteq> path_label_sets (registered_ids run) \<and>
    fmdom' (co_decodeErrorsTotal c) \<subseteq> error_label_sets (registered_ids run) \<and>
    finite (path_label_sets (registered_ids run)) \<and> finite (error_label_sets (registered_ids run))"
proof -
  have "finite (registered_ids run)" by (simp add: registered_ids_def)
  then show ?thesis using run_metrics[OF assms] label_sets_finite by (simp add: metrics_in_def)
qed

theorem metrics_bounded_witness:
  "\<exists>s' c' r. handlePaths memory_pebble (\<lambda>k. sample_world) 0 [bad_path, sample_node_path False] (lab_store, lab_collector) = ((s', c'), r) \<and>
     fmdom' (co_pathsTotal c') \<subseteq> path_label_sets {''p''} \<and> fmdom' (co_decodeErrorsTotal c') \<subseteq> error_label_sets {''p''}"
proof -
  obtain s' c' r where run: "handlePaths memory_pebble (\<lambda>k. sample_world) 0 [bad_path, sample_node_path False] (lab_store, lab_collector) =
      ((s', c'), r)" by (metis prod.collapse)
  let ?run = "[(lab_store, New_Collector lab_bgp), (lab_store, lab_collector)]"
  have "successively (collector_step memory_pebble list_engine) (?run @ [(s', c')])"
    using collector_step.start[OF lab_collector_eq(1)] collector_step.paths[OF run] by simp
  moreover have "registered_ids ?run = {''p''}" by (simp add: registered_ids_def New_Collector_def lab_collector_eq(2))
  ultimately show ?thesis using metrics_bounded[of memory_pebble list_engine ?run s' c' lab_bgp] run by simp
qed

end
