(* ===== verification/Flags.thy ===== *)
theory Flags
  imports Prelude
begin

text \<open>
  Command lines as Go's \<open>flag\<close> package reads them: string, unsigned and boolean flags, with the
  numbers that \<open>strconv.ParseUint\<close> accepts in base 0 and the truth values of \<open>strconv.ParseBool\<close>.
\<close>

unbundle bit_operations_syntax

section \<open>Numbers\<close>

text \<open>\<open>lower\<close> sets the bit by which an upper case letter differs from the lower case one.\<close>

definition lower :: "char \<Rightarrow> char" where
  "lower c = char_of (of_char c OR 32 :: nat)"

definition uint_digit :: "char \<Rightarrow> u64 option" where
  "uint_digit c = (if CHR ''0'' \<le> c \<and> c \<le> CHR ''9'' then Some (of_char c - 48)
     else if CHR ''a'' \<le> lower c \<and> lower c \<le> CHR ''z'' then Some (of_char (lower c) - 87) else None)"

datatype num_error = ErrSyntax | ErrRange

text \<open>
  The loop over the digits. The product is tested against \<open>cutoff\<close> before it is computed and the sum
  for a wrap after it, on 64 bits.
\<close>

definition cutoff :: "u64 \<Rightarrow> u64" where
  "cutoff base = (- 1) div base + 1"

fun uint_loop :: "u64 \<Rightarrow> string \<Rightarrow> u64 \<Rightarrow> num_error + u64" where
  "uint_loop base [] n = Inr n"
| "uint_loop base (c # cs) n = (if c = CHR ''_'' then uint_loop base cs n
     else case uint_digit c of None \<Rightarrow> Inl ErrSyntax
     | Some d \<Rightarrow> if base \<le> d then Inl ErrSyntax else if cutoff base \<le> n then Inl ErrRange
        else if n * base + d < n * base then Inl ErrRange else uint_loop base cs (n * base + d))"

definition base_prefix :: "string \<Rightarrow> u64 \<times> string" where
  "base_prefix s = (if HasPrefix s ''0'' then
      (if 3 \<le> length s \<and> lower (s ! 1) = CHR ''b'' then (2, drop 2 s)
       else if 3 \<le> length s \<and> lower (s ! 1) = CHR ''o'' then (8, drop 2 s)
       else if 3 \<le> length s \<and> lower (s ! 1) = CHR ''x'' then (16, drop 2 s)
       else (8, drop 1 s))
     else (10, s))"

text \<open>Underscores only between digits; the base prefix counts as a digit. The last argument is the
  kind of the character before.\<close>

datatype seen = Start_seen | Digit_seen | Underscore_seen | Other_seen

fun underscores_loop :: "bool \<Rightarrow> string \<Rightarrow> seen \<Rightarrow> bool" where
  "underscores_loop hex [] i = (i \<noteq> Underscore_seen)"
| "underscores_loop hex (c # cs) i =
     (if CHR ''0'' \<le> c \<and> c \<le> CHR ''9'' \<or> hex \<and> CHR ''a'' \<le> lower c \<and> lower c \<le> CHR ''f''
      then underscores_loop hex cs Digit_seen
      else if c = CHR ''_'' then i = Digit_seen \<and> underscores_loop hex cs Underscore_seen
      else i \<noteq> Underscore_seen \<and> underscores_loop hex cs Other_seen)"

definition underscoreOK :: "string \<Rightarrow> bool" where
  "underscoreOK s0 = (let s = (if HasPrefix s0 ''-'' \<or> HasPrefix s0 ''+'' then drop 1 s0 else s0) in
     if 2 \<le> length s \<and> hd s = CHR ''0'' \<and> lower (s ! 1) \<in> {CHR ''b'', CHR ''o'', CHR ''x''}
     then underscores_loop (lower (s ! 1) = CHR ''x'') (drop 2 s) Digit_seen
     else underscores_loop False s Start_seen)"

definition ParseUint_auto :: "string \<Rightarrow> num_error + u64" where
  "ParseUint_auto s = (if s = [] then Inl ErrSyntax else
     case base_prefix s of (base, digits) \<Rightarrow> (case uint_loop base digits 0 of Inl e \<Rightarrow> Inl e
     | Inr n \<Rightarrow> if CHR ''_'' \<in> set digits \<and> \<not> underscoreOK s then Inl ErrSyntax else Inr n))"

definition ParseBool :: "string \<Rightarrow> bool option" where
  "ParseBool s = (if s \<in> {''1'', ''t'', ''T'', ''true'', ''TRUE'', ''True''} then Some True
     else if s \<in> {''0'', ''f'', ''F'', ''false'', ''FALSE'', ''False''} then Some False else None)"

section \<open>Flags\<close>

datatype flag_value = StringFlag string | Uint64Flag u64 | BoolFlag bool

type_synonym flag_set = "string \<rightharpoonup> flag_value"

definition errParse :: go_error where
  "errParse = New ''parse error''"

definition errRange :: go_error where
  "errRange = New ''value out of range''"

fun Set_flag :: "flag_value \<Rightarrow> string \<Rightarrow> go_error + flag_value" where
  "Set_flag (StringFlag old) v = Inr (StringFlag v)"
| "Set_flag (Uint64Flag old) v = (case ParseUint_auto v of Inr n \<Rightarrow> Inr (Uint64Flag n)
     | Inl ErrSyntax \<Rightarrow> Inl errParse | Inl ErrRange \<Rightarrow> Inl errRange)"
| "Set_flag (BoolFlag old) v = (case ParseBool v of Some b \<Rightarrow> Inr (BoolFlag b) | None \<Rightarrow> Inl errParse)"

fun IsBoolFlag :: "flag_value \<Rightarrow> bool" where
  "IsBoolFlag (BoolFlag b) = True"
| "IsBoolFlag v = False"

text \<open>The name of a flag and, after an equals sign that is not its first character, its value.\<close>

definition split_flag :: "string \<Rightarrow> string \<times> string option" where
  "split_flag name = (case dropWhile (\<lambda>c. c \<noteq> CHR ''='') (tl name) of
     [] \<Rightarrow> (name, None) | e # v \<Rightarrow> (hd name # takeWhile (\<lambda>c. c \<noteq> CHR ''='') (tl name), Some v))"

definition flag_name :: "string \<Rightarrow> string" where
  "flag_name s = (if HasPrefix s ''--'' then drop 2 s else drop 1 s)"

definition set_named ::
  "(string \<Rightarrow> string) \<Rightarrow> flag_set \<Rightarrow> string \<Rightarrow> flag_value \<Rightarrow> string \<Rightarrow> string \<Rightarrow> go_error + flag_set" where
  "set_named q fs name old v what = (case Set_flag old v of
     Inl e \<Rightarrow> Inl (New (''invalid '' @ what @ q v @ (if IsBoolFlag old then '' for -'' else '' for flag -'') @ name @ '': '' @ error_text e))
   | Inr new \<Rightarrow> Inr (fs(name \<mapsto> new)))"

fun Parse :: "(string \<Rightarrow> string) \<Rightarrow> flag_set \<Rightarrow> string list \<Rightarrow> go_error + flag_set" where
  "Parse q fs [] = Inr fs"
| "Parse q fs (s # args) =
    (if length s < 2 \<or> hd s \<noteq> CHR ''-'' then Inr fs
     else if s = ''--'' then Inr fs
     else let nm = flag_name s in
     if nm = [] \<or> hd nm = CHR ''-'' \<or> hd nm = CHR ''='' then Inl (New (''bad flag syntax: '' @ s))
     else case split_flag nm of (name, value) \<Rightarrow>
     (case fs name of
        None \<Rightarrow> if name = ''help'' \<or> name = ''h'' then Inl (New ''flag: help requested'')
                else Inl (New (''flag provided but not defined: -'' @ name))
      | Some old \<Rightarrow>
          if IsBoolFlag old then
            (case value of
               None \<Rightarrow> Parse q (fs(name \<mapsto> BoolFlag True)) args
             | Some v \<Rightarrow> (case set_named q fs name old v ''boolean value '' of Inl e \<Rightarrow> Inl e | Inr fs' \<Rightarrow> Parse q fs' args))
          else
            (case value of
               Some v \<Rightarrow> (case set_named q fs name old v ''value '' of Inl e \<Rightarrow> Inl e | Inr fs' \<Rightarrow> Parse q fs' args)
             | None \<Rightarrow> (case args of [] \<Rightarrow> Inl (New (''flag needs an argument: -'' @ name))
                | v # rest \<Rightarrow> (case set_named q fs name old v ''value '' of Inl e \<Rightarrow> Inl e | Inr fs' \<Rightarrow> Parse q fs' rest)))))"

declare Parse.simps(2) [simp del]

text \<open>What the pointers that \<open>String\<close>, \<open>Uint64\<close> and \<open>Bool\<close> return hold after parsing.\<close>

fun string_flag :: "flag_value option \<Rightarrow> string" where
  "string_flag (Some (StringFlag s)) = s"
| "string_flag v = []"

fun uint64_flag :: "flag_value option \<Rightarrow> u64" where
  "uint64_flag (Some (Uint64Flag n)) = n"
| "uint64_flag v = 0"

fun bool_flag :: "flag_value option \<Rightarrow> bool" where
  "bool_flag (Some (BoolFlag b)) = b"
| "bool_flag v = False"

end
