(* ===== verification/Server.thy ===== *)
theory Server
  imports Collector_API Auth Paths
begin

text \<open>
  The HTTP server: the procedures that \<open>gen/bgpls/v1/bgplsv1connect\<close> registers, the multiplexer, the
  handlers of \<open>internal/api/server.go\<close> and \<open>internal/ui/ui.go\<close>, and the chain of handlers that a
  request passes. Connect, which decodes a request and encodes the answer, is outside the
  repository: a service handler takes what connect makes of a method as an argument.
\<close>

section \<open>Procedures\<close>

datatype TopologyMethod = GetSummaryM | ListDomainsM | GetNodeM | ListNodesM | GetNeighborsM | GetLinkM
  | ListLinksM | GetPrefixM | ListPrefixesM | ResolveM | StreamSnapshotM | WatchTopologyM

datatype PathMethod = ComputePathsM | AnalyzeImpactM

datatype HistoryMethod = ListChangesM | DiffTopologyM

datatype CollectorMethod = GetStatusM | GetPeerM | ListPeersM | CreatePeerM | UpdatePeerM | DeletePeerM
  | SetPeerAdminStateM | ResetPeerM | ValidatePeerConfigM | ExportPeerConfigM | ImportPeerConfigM

fun topology_procedure :: "TopologyMethod \<Rightarrow> string" where
  "topology_procedure GetSummaryM = ''/bgpls.v1.TopologyService/GetSummary''"
| "topology_procedure ListDomainsM = ''/bgpls.v1.TopologyService/ListDomains''"
| "topology_procedure GetNodeM = ''/bgpls.v1.TopologyService/GetNode''"
| "topology_procedure ListNodesM = ''/bgpls.v1.TopologyService/ListNodes''"
| "topology_procedure GetNeighborsM = ''/bgpls.v1.TopologyService/GetNeighbors''"
| "topology_procedure GetLinkM = ''/bgpls.v1.TopologyService/GetLink''"
| "topology_procedure ListLinksM = ''/bgpls.v1.TopologyService/ListLinks''"
| "topology_procedure GetPrefixM = ''/bgpls.v1.TopologyService/GetPrefix''"
| "topology_procedure ListPrefixesM = ''/bgpls.v1.TopologyService/ListPrefixes''"
| "topology_procedure ResolveM = ''/bgpls.v1.TopologyService/Resolve''"
| "topology_procedure StreamSnapshotM = ''/bgpls.v1.TopologyService/StreamSnapshot''"
| "topology_procedure WatchTopologyM = ''/bgpls.v1.TopologyService/WatchTopology''"

fun path_procedure :: "PathMethod \<Rightarrow> string" where
  "path_procedure ComputePathsM = ''/bgpls.v1.PathService/ComputePaths''"
| "path_procedure AnalyzeImpactM = ''/bgpls.v1.PathService/AnalyzeImpact''"

fun history_procedure :: "HistoryMethod \<Rightarrow> string" where
  "history_procedure ListChangesM = ''/bgpls.v1.HistoryService/ListChanges''"
| "history_procedure DiffTopologyM = ''/bgpls.v1.HistoryService/DiffTopology''"

fun collector_procedure :: "CollectorMethod \<Rightarrow> string" where
  "collector_procedure GetStatusM = ''/bgpls.v1.CollectorService/GetStatus''"
| "collector_procedure GetPeerM = ''/bgpls.v1.CollectorService/GetPeer''"
| "collector_procedure ListPeersM = ''/bgpls.v1.CollectorService/ListPeers''"
| "collector_procedure CreatePeerM = ''/bgpls.v1.CollectorService/CreatePeer''"
| "collector_procedure UpdatePeerM = ''/bgpls.v1.CollectorService/UpdatePeer''"
| "collector_procedure DeletePeerM = ''/bgpls.v1.CollectorService/DeletePeer''"
| "collector_procedure SetPeerAdminStateM = ''/bgpls.v1.CollectorService/SetPeerAdminState''"
| "collector_procedure ResetPeerM = ''/bgpls.v1.CollectorService/ResetPeer''"
| "collector_procedure ValidatePeerConfigM = ''/bgpls.v1.CollectorService/ValidatePeerConfig''"
| "collector_procedure ExportPeerConfigM = ''/bgpls.v1.CollectorService/ExportPeerConfig''"
| "collector_procedure ImportPeerConfigM = ''/bgpls.v1.CollectorService/ImportPeerConfig''"

section \<open>Service handlers\<close>

definition http_NotFound :: "('body, 's, 'a) handler" where
  "http_NotFound r s = (s, HttpError 404 ''404 page not found'')"

text \<open>The switch on the path of a request, with the cases in the order of the code.\<close>

definition switch_path ::
  "('m \<Rightarrow> string) \<Rightarrow> 'm list \<Rightarrow> ('m \<Rightarrow> ('body, 's, 'a) handler) \<Rightarrow> ('body, 's, 'a) handler" where
  "switch_path procedure methods svc r s = (case find (\<lambda>m. rq_path r = procedure m) methods of
     None \<Rightarrow> http_NotFound r s | Some m \<Rightarrow> svc m r s)"

definition NewTopologyServiceHandler ::
  "(TopologyMethod \<Rightarrow> ('body, 's, 'a) handler) \<Rightarrow> string \<times> ('body, 's, 'a) handler" where
  "NewTopologyServiceHandler svc = (''/bgpls.v1.TopologyService/'', switch_path topology_procedure
     [GetSummaryM, ListDomainsM, GetNodeM, ListNodesM, GetNeighborsM, GetLinkM, ListLinksM, GetPrefixM,
      ListPrefixesM, ResolveM, StreamSnapshotM, WatchTopologyM] svc)"

definition NewPathServiceHandler ::
  "(PathMethod \<Rightarrow> ('body, 's, 'a) handler) \<Rightarrow> string \<times> ('body, 's, 'a) handler" where
  "NewPathServiceHandler svc = (''/bgpls.v1.PathService/'', switch_path path_procedure [ComputePathsM, AnalyzeImpactM] svc)"

definition NewHistoryServiceHandler ::
  "(HistoryMethod \<Rightarrow> ('body, 's, 'a) handler) \<Rightarrow> string \<times> ('body, 's, 'a) handler" where
  "NewHistoryServiceHandler svc = (''/bgpls.v1.HistoryService/'', switch_path history_procedure [ListChangesM, DiffTopologyM] svc)"

definition NewCollectorServiceHandler ::
  "(CollectorMethod \<Rightarrow> ('body, 's, 'a) handler) \<Rightarrow> string \<times> ('body, 's, 'a) handler" where
  "NewCollectorServiceHandler svc = (''/bgpls.v1.CollectorService/'', switch_path collector_procedure
     [GetStatusM, GetPeerM, ListPeersM, CreatePeerM, UpdatePeerM, DeletePeerM, SetPeerAdminStateM, ResetPeerM,
      ValidatePeerConfigM, ExportPeerConfigM, ImportPeerConfigM] svc)"

section \<open>The multiplexer\<close>

text \<open>
  \<open>http.ServeMux\<close> with patterns of literal segments, for requests with a method other than CONNECT.
  A path is cleaned first; a request for another path is redirected to the clean one. A pattern that
  ends in a slash matches every path below it, and of the patterns that match the longest wins. A
  path without its final slash is redirected when only the path with it is a pattern.
\<close>

definition path_segments :: "string \<Rightarrow> string list" where
  "path_segments p = split_at (CHR ''/'') (drop 1 p)"

definition cleanPath :: "string \<Rightarrow> string" where
  "cleanPath p0 = (if p0 = [] then ''/'' else
     let p = (if hd p0 \<noteq> CHR ''/'' then CHR ''/'' # p0 else p0);
         np = path_Clean p
     in if last p = CHR ''/'' \<and> np \<noteq> ''/'' then np @ ''/'' else np)"

fun percent_decode :: "string \<Rightarrow> string option" where
  "percent_decode [] = Some []"
| "percent_decode (c # cs) = (if c = CHR ''%'' then
     (case cs of a # b # rest \<Rightarrow> (case (hex_value a, hex_value b) of
         (Some x, Some y) \<Rightarrow> map_option ((#) (char_of (unat (x * 16 + y)))) (percent_decode rest) | _ \<Rightarrow> None)
      | _ \<Rightarrow> None)
     else map_option ((#) c) (percent_decode cs))"

definition pathUnescape :: "string \<Rightarrow> string" where
  "pathUnescape s = (case percent_decode s of None \<Rightarrow> s | Some d \<Rightarrow> d)"

definition pattern_matches :: "string \<Rightarrow> string \<Rightarrow> bool" where
  "pattern_matches pat p = (let ps = path_segments pat; qs = map pathUnescape (path_segments p) in
     if last ps = [] then length ps \<le> length qs \<and> take (length ps - 1) qs = butlast ps else ps = qs)"

fun mux_match :: "(string \<times> 'h) list \<Rightarrow> string \<Rightarrow> (string \<times> 'h) option" where
  "mux_match [] p = None"
| "mux_match ((pat, h) # rest) p = (case mux_match rest p of
     None \<Rightarrow> if pattern_matches pat p then Some (pat, h) else None
   | Some (pat', h') \<Rightarrow> if pattern_matches pat p \<and> length pat' < length pat then Some (pat, h) else Some (pat', h'))"

text \<open>Whether the match is the pattern itself and not a path below it.\<close>

definition exactMatch :: "(string \<times> 'h) option \<Rightarrow> string \<Rightarrow> bool" where
  "exactMatch n p = (case n of None \<Rightarrow> False
     | Some (pat, h) \<Rightarrow> length (path_segments pat) = length (path_segments p) \<and>
         (last (path_segments pat) = [] \<longrightarrow> last p = CHR ''/''))"

definition mux_ServeHTTP :: "(string \<times> ('body, 's, 'a) handler) list \<Rightarrow> ('body, 's, 'a) handler" where
  "mux_ServeHTTP patterns r s =
     (let p = cleanPath (rq_escaped_path r); n = mux_match patterns p in
      if \<not> exactMatch n p \<and> last p \<noteq> CHR ''/'' \<and> exactMatch (mux_match patterns (p @ ''/'')) (p @ ''/'')
      then (s, MuxRedirect (p @ ''/''))
      else if p \<noteq> rq_escaped_path r then (s, MuxRedirect p)
      else case n of None \<Rightarrow> http_NotFound r s | Some (pat, h) \<Rightarrow> h r s)"

section \<open>Handlers\<close>

definition healthz :: "('body, 's, 'a) handler" where
  "healthz r s = (s, Body ''application/json''
     [CHR ''{'', CHR 0x22, CHR ''s'', CHR ''t'', CHR ''a'', CHR ''t'', CHR ''u'', CHR ''s'', CHR 0x22, CHR '':'',
      CHR 0x22, CHR ''S'', CHR ''E'', CHR ''R'', CHR ''V'', CHR ''I'', CHR ''N'', CHR ''G'', CHR 0x22, CHR ''}''])"

definition ui_Handler :: "('body, 's, 'a) handler" where
  "ui_Handler r s = (s, StaticFile
     (if HasPrefix (rq_path r) ''vendor/'' \<or> HasPrefix (rq_path r) ''/vendor/''
      then ''public, max-age=31536000, immutable'' else ''no-cache'') (rq_path r))"

definition StripPrefix :: "string \<Rightarrow> ('body, 's, 'a) handler \<Rightarrow> ('body, 's, 'a) handler" where
  "StripPrefix pre h r s =
     (if HasPrefix (rq_path r) pre \<and> (rq_raw_path r = [] \<or> HasPrefix (rq_raw_path r) pre)
      then h (r\<lparr>rq_path := TrimPrefix (rq_path r) pre, rq_raw_path := TrimPrefix (rq_raw_path r) pre\<rparr>) s
      else http_NotFound r s)"

definition root_handler :: "('body, 's, 'a) handler" where
  "root_handler r s = (if rq_path r \<noteq> ''/'' then http_NotFound r s else (s, Redirect ''/ui/'' 302))"

definition recoverMiddleware :: "('body, 's, 'a) handler \<Rightarrow> ('body, 's, 'a) handler" where
  "recoverMiddleware next_handler r s = (case next_handler r s of
     (s', Panicked) \<Rightarrow> (s', HttpError 500 ''internal server error'') | out \<Rightarrow> out)"

record ('body, 's, 'a) Services =
  sv_topology :: "TopologyMethod \<Rightarrow> ('body, 's, 'a) handler"
  sv_path :: "PathMethod \<Rightarrow> ('body, 's, 'a) handler"
  sv_history :: "HistoryMethod \<Rightarrow> ('body, 's, 'a) handler"
  sv_collector :: "CollectorMethod \<Rightarrow> ('body, 's, 'a) handler"

definition api_mux :: "('body, 's, 'a) Services \<Rightarrow> ('body, 's, 'a) handler" where
  "api_mux svc = mux_ServeHTTP
     [NewTopologyServiceHandler (sv_topology svc), NewPathServiceHandler (sv_path svc),
      NewHistoryServiceHandler (sv_history svc), NewCollectorServiceHandler (sv_collector svc),
      (''/healthz'', healthz), (''/ui/'', StripPrefix ''/ui/'' ui_Handler), (''/'', root_handler)]"

definition NewHandler ::
  "(string \<Rightarrow> string) \<Rightarrow> Authorizer option \<Rightarrow> ('body, 's, 'a) Services \<Rightarrow> ('body, 's, 'a) handler" where
  "NewHandler uni authorizer svc = recoverMiddleware (case authorizer of
     None \<Rightarrow> api_mux svc | Some a \<Rightarrow> Middleware uni a (api_mux svc))"

section \<open>The collector service behind connect\<close>

text \<open>
  The decoders of the requests are arguments; a body that does not decode is answered with an error
  by connect and does not reach the service. \<open>env\<close> holds what a call reads besides the request.
\<close>

record ('body, 'db, 'p) collector_env =
  ce_pebble :: "'db pebble"
  ce_peers :: "'p PeerManager option"
  ce_order :: "string list \<Rightarrow> string list"
  ce_clock :: clock
  ce_version :: string
  ce_started :: time
  ce_yaml :: "Peer list \<Rightarrow> go_error + string"
  ce_unyaml :: "string \<Rightarrow> go_error + Peer option list"
  ce_id :: "'body \<Rightarrow> string option"
  ce_list :: "'body \<Rightarrow> (string \<times> Page option) option"
  ce_peer :: "'body \<Rightarrow> Peer option option"
  ce_versioned :: "'body \<Rightarrow> (Peer option \<times> u64) option"
  ce_delete :: "'body \<Rightarrow> (string \<times> u64) option"
  ce_admin :: "'body \<Rightarrow> (string \<times> bool \<times> u64) option"
  ce_reset :: "'body \<Rightarrow> (string \<times> bool) option"
  ce_import :: "'body \<Rightarrow> (string \<times> bool) option"

datatype rpc_answer =
    StatusAnswer GetStatusResponse
  | PeerAnswer Peer
  | PeersAnswer "Peer list" PageResult
  | DeletedAnswer
  | ValidityAnswer bool "string list"
  | YamlAnswer string
  | ImportedAnswer "Peer list"
  | RpcError failure
  | Undecodable

definition rpc_reply :: "('a \<Rightarrow> rpc_answer) \<Rightarrow> 'a response \<Rightarrow> rpc_answer reply" where
  "rpc_reply f r = (case r of Inl Crash \<Rightarrow> Panicked | Inl e \<Rightarrow> Reply (RpcError e) | Inr x \<Rightarrow> Reply (f x))"

definition decoded ::
  "'req option \<Rightarrow> 's \<Rightarrow> ('req \<Rightarrow> 's \<times> rpc_answer reply) \<Rightarrow> 's \<times> rpc_answer reply" where
  "decoded req s call = (case req of None \<Rightarrow> (s, Reply Undecodable) | Some q \<Rightarrow> call q)"

definition collector_service ::
  "('body, 'db, 'p) collector_env \<Rightarrow> CollectorMethod \<Rightarrow> ('body, ('db, 'p) system, rpc_answer) handler" where
  "collector_service env method r sys = (let b = rq_body r; P = ce_pebble env; peers = ce_peers env; it = ce_order env;
       clk = ce_clock env; reply = (\<lambda>f (sys', x). (sys', rpc_reply f x)) in
     case method of
       GetStatusM \<Rightarrow> (sys, rpc_reply StatusAnswer (GetStatus P (ce_version env) (ce_started env) (fst sys)))
     | GetPeerM \<Rightarrow> decoded (ce_id env b) sys (\<lambda>i. (sys, rpc_reply PeerAnswer (GetPeer (fst sys) i)))
     | ListPeersM \<Rightarrow> decoded (ce_list env b) sys (\<lambda>(domain, page).
         (sys, rpc_reply (\<lambda>(ps, pr). PeersAnswer ps pr) (ListPeers it (fst sys) domain page)))
     | CreatePeerM \<Rightarrow> decoded (ce_peer env b) sys (\<lambda>p. reply PeerAnswer (CreatePeer P peers it (clk 0) p sys))
     | UpdatePeerM \<Rightarrow> decoded (ce_versioned env b) sys (\<lambda>(p, v). reply PeerAnswer (UpdatePeer P peers it (clk 0) p v sys))
     | DeletePeerM \<Rightarrow> decoded (ce_delete env b) sys (\<lambda>(i, v).
         case DeletePeer P peers (clk 0) i v sys of (sys', x) \<Rightarrow> (sys', rpc_reply (\<lambda>u. DeletedAnswer) x))
     | SetPeerAdminStateM \<Rightarrow> decoded (ce_admin env b) sys (\<lambda>(i, on, v).
         reply PeerAnswer (SetPeerAdminState P peers (clk 0) i on v sys))
     | ResetPeerM \<Rightarrow> decoded (ce_reset env b) sys (\<lambda>(i, soft). reply PeerAnswer (ResetPeer peers i soft sys))
     | ValidatePeerConfigM \<Rightarrow> decoded (ce_peer env b) sys (\<lambda>p.
         (sys, rpc_reply (\<lambda>(ok, errs). ValidityAnswer ok errs) (ValidatePeerConfig it (fst sys) p)))
     | ExportPeerConfigM \<Rightarrow> (sys, rpc_reply YamlAnswer (ExportPeerConfig (ce_yaml env) it (fst sys)))
     | ImportPeerConfigM \<Rightarrow> decoded (ce_import env b) sys (\<lambda>(doc, replace).
         case ImportPeerConfig P peers (ce_unyaml env) it clk doc replace sys of (sys', x) \<Rightarrow> (sys', rpc_reply ImportedAnswer x)))"

end
