(* ===== verification/Serve.thy ===== *)
theory Serve
  imports Config Server
begin

text \<open>
  The start of the process and its background work in \<open>cmd/bgpls/main.go\<close>: bootstrapping an empty
  store from the configuration, the authorizers of the two listeners, a reload on SIGHUP and a tick of
  the retention loop.
\<close>

section \<open>Bootstrap\<close>

definition domain_mutation :: "Domain_Config \<Rightarrow> Mutation" where
  "domain_mutation d = \<lparr>mu_kind = ENTITY_KIND_UNSPECIFIED, mu_id = dc_id d, mu_domain_id = [], mu_peer_id = [],
     mu_reason = ''domain bootstrapped from configuration'', mu_delete = False, mu_value = Some (DomainE (Domain_Proto d))\<rparr>"

definition bootstrap_peer_mutation :: "Peer_Config \<Rightarrow> Mutation" where
  "bootstrap_peer_mutation p = peer_mutation (Peer_Proto p) False ''peer bootstrapped from configuration''"

fun apply_all ::
  "'db pebble \<Rightarrow> clock \<Rightarrow> nat \<Rightarrow> Mutation list \<Rightarrow> 'db Store \<Rightarrow> 'db Store \<times> fault option" where
  "apply_all P clk k [] s = (s, None)"
| "apply_all P clk k (m # ms) s = (case Apply P (fst (clk k)) (snd (clk k)) m s of
     (s', v, Inl f) \<Rightarrow> (s', Some f) | (s', v, Inr ev) \<Rightarrow> apply_all P clk (Suc k) ms s')"

definition bootstrap :: "'db pebble \<Rightarrow> clock \<Rightarrow> Config \<Rightarrow> 'db Store \<Rightarrow> 'db Store \<times> fault option" where
  "bootstrap P clk cfg s = (if Store_Revision s = 0
     then apply_all P clk 0 (map domain_mutation (cf_domains cfg) @ map bootstrap_peer_mutation (cf_peers cfg)) s
     else (s, None))"

section \<open>Listeners\<close>

definition api_authorizer :: "Config \<Rightarrow> Authorizer" where
  "api_authorizer cfg = NewAuthorizer (ap_rbac (cf_api cfg)) (tl_development_insecure (ap_tls (cf_api cfg)))
     (tl_allow_anonymous_reader (ap_tls (cf_api cfg)))"

definition ui_authorizer :: "Config \<Rightarrow> Authorizer" where
  "ui_authorizer cfg = NewAuthorizer (ap_rbac (cf_api cfg)) False True"

text \<open>
  What a SIGHUP does: the new configuration and its certificates are loaded first, and only when both
  are good the TLS settings and the authorizer change. The TLS settings and the fields of the
  authorizer are set one after the other.
\<close>

definition reload ::
  "('cert, 'pool) x509 \<Rightarrow> (string \<Rightarrow> string) \<Rightarrow> go_error + Config \<times> go_error option
    \<Rightarrow> ('cert, 'pool) tls_config \<times> Authorizer \<Rightarrow> ('cert, 'pool) tls_config \<times> Authorizer" where
  "reload X q loaded st = (case loaded of
     Inr (cfg, None) \<Rightarrow> (case TLSConfig X q (ap_tls (cf_api cfg)) of Inl e \<Rightarrow> st
       | Inr nextTLS \<Rightarrow> (nextTLS, Reload (ap_rbac (cf_api cfg)) (tl_allow_anonymous_reader (ap_tls (cf_api cfg))) (snd st)))
   | _ \<Rightarrow> st)"

definition retention_tick ::
  "'db pebble \<Rightarrow> (nat \<Rightarrow> go_error option) \<Rightarrow> time \<Rightarrow> Retention \<Rightarrow> 'db Store \<Rightarrow> 'db Store" where
  "retention_tick P ctx now r s = fst (CompactHistory P ctx (now - rt_duration r) (rt_max_bytes r) s)"

end
