(* ===== verification/Cli.thy ===== *)
theory Cli
  imports Flags Serve Path_API
begin

text \<open>
  The command line of \<open>cmd/bgpls/main.go\<close>: the flags of every command, the client certificates, the
  request a command sends through the clients of \<open>gen/bgpls/v1/bgplsv1connect\<close> and what it prints. The
  environment, the files, the certificates and the network are arguments.
\<close>

section \<open>Clients\<close>

definition TrimRight_slash :: "string \<Rightarrow> string" where
  "TrimRight_slash s = rev (dropWhile (\<lambda>c. c = CHR ''/'') (rev s))"

text \<open>A client holds, for every method, the URL to which connect sends its requests.\<close>

definition NewTopologyServiceClient :: "string \<Rightarrow> TopologyMethod \<Rightarrow> string" where
  "NewTopologyServiceClient baseURL m = TrimRight_slash baseURL @ topology_procedure m"

definition NewPathServiceClient :: "string \<Rightarrow> PathMethod \<Rightarrow> string" where
  "NewPathServiceClient baseURL m = TrimRight_slash baseURL @ path_procedure m"

definition NewHistoryServiceClient :: "string \<Rightarrow> HistoryMethod \<Rightarrow> string" where
  "NewHistoryServiceClient baseURL m = TrimRight_slash baseURL @ history_procedure m"

definition NewCollectorServiceClient :: "string \<Rightarrow> CollectorMethod \<Rightarrow> string" where
  "NewCollectorServiceClient baseURL m = TrimRight_slash baseURL @ collector_procedure m"

section \<open>Client flags\<close>

record clientFlags =
  cl_server :: string
  cl_ca :: string
  cl_cert :: string
  cl_key :: string

text \<open>
  What the program takes from outside: the environment, whether a path is there and is a directory, the
  certificates of the system, the reading of files and certificates, and the JSON of a peer.
\<close>

record ('cert, 'pool) cli_env =
  en_getenv :: "string \<Rightarrow> string"
  en_stat :: "string \<Rightarrow> go_error + bool"
  en_system_pool :: "go_error + 'pool"
  en_x509 :: "('cert, 'pool) x509"
  en_unjson :: "string \<Rightarrow> go_error + Peer"
  en_quote :: "string \<Rightarrow> string"

definition addClientFlags :: "flag_set \<Rightarrow> flag_set" where
  "addClientFlags fs = fs(''server'' \<mapsto> StringFlag ''https://127.0.0.1:7443'', ''ca'' \<mapsto> StringFlag [],
     ''cert'' \<mapsto> StringFlag [], ''key'' \<mapsto> StringFlag [])"

definition client_of :: "flag_set \<Rightarrow> clientFlags" where
  "client_of fs = \<lparr>cl_server = string_flag (fs ''server''), cl_ca = string_flag (fs ''ca''),
     cl_cert = string_flag (fs ''cert''), cl_key = string_flag (fs ''key'')\<rparr>"

definition fileExists :: "('cert, 'pool) cli_env \<Rightarrow> string \<Rightarrow> bool" where
  "fileExists env path = (case en_stat env path of Inl e \<Rightarrow> False | Inr is_dir \<Rightarrow> \<not> is_dir)"

definition env_default :: "('cert, 'pool) cli_env \<Rightarrow> string \<Rightarrow> string \<Rightarrow> string" where
  "env_default env name v = (if v = [] \<and> en_getenv env name \<noteq> [] then en_getenv env name else v)"

fun lab_files :: "('cert, 'pool) cli_env \<Rightarrow> string \<Rightarrow> string list \<Rightarrow> clientFlags \<Rightarrow> clientFlags" where
  "lab_files env role [] c = c"
| "lab_files env role (base # bases) c =
     (let ca = filepath_Join [base, ''ca.crt'']; cert = filepath_Join [base, role @ ''.crt''];
          key = filepath_Join [base, role @ ''.key'']
      in if fileExists env ca \<and> fileExists env cert \<and> fileExists env key
         then c\<lparr>cl_ca := ca, cl_cert := cert, cl_key := key\<rparr> else lab_files env role bases c)"

definition applyLabDefaults :: "('cert, 'pool) cli_env \<Rightarrow> clientFlags \<Rightarrow> clientFlags" where
  "applyLabDefaults env c0 =
     (let c = c0\<lparr>cl_ca := env_default env ''BGPLS_CA'' (cl_ca c0), cl_cert := env_default env ''BGPLS_CERT'' (cl_cert c0),
            cl_key := env_default env ''BGPLS_KEY'' (cl_key c0)\<rparr>
      in if cl_ca c \<noteq> [] \<or> cl_cert c \<noteq> [] \<or> cl_key c \<noteq> [] then c
         else lab_files env (if en_getenv env ''BGPLS_ROLE'' = [] then ''admin'' else en_getenv env ''BGPLS_ROLE'')
           [''clab/pki'', filepath_Join [''clab'', ''pki'']] c)"

text \<open>The HTTP client: the authorities it trusts and the certificate it shows, if any.\<close>

record ('cert, 'pool) http_client =
  hc_min_version :: TLSVersion
  hc_root_cas :: 'pool
  hc_certificates :: "'cert list"

definition root_pool :: "('cert, 'pool) cli_env \<Rightarrow> string \<Rightarrow> 'pool \<Rightarrow> go_error + 'pool" where
  "root_pool env ca pool = (if ca = [] then Inr pool else
     case x_read_file (en_x509 env) ca of Inl e \<Rightarrow> Inl e
     | Inr data \<Rightarrow> (case x_append_certs (en_x509 env) pool data of
         (pool', ok) \<Rightarrow> if \<not> ok then Inl (New ''CA file has no certificates'') else Inr pool'))"

definition client_certificates :: "('cert, 'pool) cli_env \<Rightarrow> string \<Rightarrow> string \<Rightarrow> go_error + 'cert list" where
  "client_certificates env cert key = (if cert = [] \<and> key = [] then Inr []
     else case x_load_key_pair (en_x509 env) cert key of Inl e \<Rightarrow> Inl e | Inr c \<Rightarrow> Inr [c])"

definition httpClient :: "('cert, 'pool) cli_env \<Rightarrow> clientFlags \<Rightarrow> go_error + ('cert, 'pool) http_client" where
  "httpClient env c0 = (let c = applyLabDefaults env c0 in
     bindR (en_system_pool env) (\<lambda>system.
     bindR (root_pool env (cl_ca c) system) (\<lambda>pool.
     bindR (client_certificates env (cl_cert c) (cl_key c)) (\<lambda>certs.
     Inr \<lparr>hc_min_version = VersionTLS13, hc_root_cas = pool, hc_certificates = certs\<rparr>))))"

section \<open>Requests\<close>

datatype cli_request =
    GetSummaryQ "TopologyFilter option"
  | ListNodesQ ListRequest
  | ListLinksQ ListRequest
  | ListPrefixesQ ListRequest
  | ComputePathsQ ComputePathsRequest
  | ListChangesQ ListChangesRequest
  | DiffTopologyQ u64 u64 "TopologyFilter option"
  | ListPeersQ string "Page option"
  | GetPeerQ string
  | SetPeerAdminStateQ string bool u64
  | ResetPeerQ string bool
  | DeletePeerQ string u64
  | CreatePeerQ "Peer option"
  | UpdatePeerQ "Peer option" u64
  | ExportPeerConfigQ
  | ImportPeerConfigQ string bool

text \<open>The method of the client that a command calls, with the URL of that method.\<close>

fun request_url :: "string \<Rightarrow> cli_request \<Rightarrow> string" where
  "request_url server (GetSummaryQ f) = NewTopologyServiceClient server GetSummaryM"
| "request_url server (ListNodesQ r) = NewTopologyServiceClient server ListNodesM"
| "request_url server (ListLinksQ r) = NewTopologyServiceClient server ListLinksM"
| "request_url server (ListPrefixesQ r) = NewTopologyServiceClient server ListPrefixesM"
| "request_url server (ComputePathsQ r) = NewPathServiceClient server ComputePathsM"
| "request_url server (ListChangesQ r) = NewHistoryServiceClient server ListChangesM"
| "request_url server (DiffTopologyQ from to f) = NewHistoryServiceClient server DiffTopologyM"
| "request_url server (ListPeersQ d pg) = NewCollectorServiceClient server ListPeersM"
| "request_url server (GetPeerQ i) = NewCollectorServiceClient server GetPeerM"
| "request_url server (SetPeerAdminStateQ i on v) = NewCollectorServiceClient server SetPeerAdminStateM"
| "request_url server (ResetPeerQ i soft) = NewCollectorServiceClient server ResetPeerM"
| "request_url server (DeletePeerQ i v) = NewCollectorServiceClient server DeletePeerM"
| "request_url server (CreatePeerQ p) = NewCollectorServiceClient server CreatePeerM"
| "request_url server (UpdatePeerQ p v) = NewCollectorServiceClient server UpdatePeerM"
| "request_url server ExportPeerConfigQ = NewCollectorServiceClient server ExportPeerConfigM"
| "request_url server (ImportPeerConfigQ doc replace) = NewCollectorServiceClient server ImportPeerConfigM"

text \<open>Where the answer goes: to the standard output as JSON, or, for an export, as it is to a file or
  to the standard output.\<close>

datatype sink = PrintProto | WriteYaml string

datatype ('cert, 'pool) action =
    Serve string
  | ShowVersion
  | Call "('cert, 'pool) http_client" string cli_request sink
  | CheckHealth "('cert, 'pool) http_client" string

definition call_action ::
  "('cert, 'pool) http_client \<Rightarrow> clientFlags \<Rightarrow> cli_request \<times> sink \<Rightarrow> ('cert, 'pool) action" where
  "call_action client cf q = Call client (request_url (cl_server cf) (fst q)) (fst q) (snd q)"

section \<open>Commands\<close>

definition zero_filter :: TopologyFilter where
  "zero_filter = \<lparr>tf_domain_ids = [], tf_protocols = [], tf_multi_topology_ids = [], tf_freshness = [],
     tf_source_peer_ids = [], tf_conflicts_only = False, tf_query = []\<rparr>"

definition cli_page :: "Page option" where
  "cli_page = Some \<lparr>pg_page_size = 1000, pg_page_token = []\<rparr>"

definition topology_flags :: flag_set where
  "topology_flags = (addClientFlags Map.empty)(''domain'' \<mapsto> StringFlag [], ''revision'' \<mapsto> Uint64Flag 0)"

definition topology_request :: "string \<Rightarrow> flag_set \<Rightarrow> go_error + cli_request" where
  "topology_request cmd fs =
     (let domain = string_flag (fs ''domain'');
          f = (if domain \<noteq> [] then zero_filter\<lparr>tf_domain_ids := [domain]\<rparr> else zero_filter);
          req = \<lparr>lr_filter = Some f, lr_page = cli_page, lr_revision = uint64_flag (fs ''revision'')\<rparr>
      in if cmd = ''summary'' then Inr (GetSummaryQ (Some f))
         else if cmd = ''nodes'' then Inr (ListNodesQ req)
         else if cmd = ''links'' then Inr (ListLinksQ req)
         else if cmd = ''prefixes'' then Inr (ListPrefixesQ req)
         else Inl (New ''unknown topology command''))"

definition topologyCommand :: "('cert, 'pool) cli_env \<Rightarrow> string list \<Rightarrow> go_error + ('cert, 'pool) action" where
  "topologyCommand env args = (case args of
     [] \<Rightarrow> Inl (New ''usage: bgpls topology <summary|nodes|links|prefixes>'')
   | cmd # rest \<Rightarrow>
      bindR (Parse (en_quote env) topology_flags rest) (\<lambda>fs.
      bindR (httpClient env (client_of fs)) (\<lambda>client.
      bindR (topology_request cmd fs) (\<lambda>req. Inr (call_action client (client_of fs) (req, PrintProto))))))"

definition path_metric :: "string \<Rightarrow> PathMetric" where
  "path_metric m = (if m = ''te'' then PATH_METRIC_TE else if m = ''delay'' then PATH_METRIC_DELAY
     else PATH_METRIC_IGP)"

definition path_flags :: flag_set where
  "path_flags = (addClientFlags Map.empty)(''domain'' \<mapsto> StringFlag [], ''source'' \<mapsto> StringFlag [],
     ''destination'' \<mapsto> StringFlag [], ''metric'' \<mapsto> StringFlag ''igp'', ''revision'' \<mapsto> Uint64Flag 0)"

definition path_request :: "flag_set \<Rightarrow> go_error + cli_request" where
  "path_request fs =
     (let domain = string_flag (fs ''domain''); source = string_flag (fs ''source''); destination = string_flag (fs ''destination'') in
      if domain = [] \<or> source = [] \<or> destination = [] then Inl (New ''domain, source, and destination are required'')
      else Inr (ComputePathsQ \<lparr>rq_domain_id = domain, rq_source = source, rq_destination = destination,
          rq_metric = path_metric (string_flag (fs ''metric'')), rq_constraints = None,
          rq_max_paths = 1, rq_revision = uint64_flag (fs ''revision'')\<rparr>))"

definition pathCommand :: "('cert, 'pool) cli_env \<Rightarrow> string list \<Rightarrow> go_error + ('cert, 'pool) action" where
  "pathCommand env args =
     (if args = [] \<or> hd args \<noteq> ''compute'' then Inl (New ''usage: bgpls path compute --domain ID --source NODE --destination NODE'')
      else bindR (Parse (en_quote env) path_flags (tl args)) (\<lambda>fs.
      bindR (path_request fs) (\<lambda>req.
      bindR (httpClient env (client_of fs)) (\<lambda>client. Inr (call_action client (client_of fs) (req, PrintProto))))))"

definition history_flags :: flag_set where
  "history_flags = (addClientFlags Map.empty)(''after'' \<mapsto> Uint64Flag 0, ''before'' \<mapsto> Uint64Flag 0)"

definition history_request :: "string \<Rightarrow> flag_set \<Rightarrow> go_error + cli_request" where
  "history_request cmd fs = (let after = uint64_flag (fs ''after''); before = uint64_flag (fs ''before'') in
     if cmd = ''changes'' then Inr (ListChangesQ \<lparr>lq_after_revision = after, lq_before_revision = before,
         lq_filter = None, lq_page = cli_page\<rparr>)
     else if cmd = ''diff'' then
       (if before = 0 then Inl (New ''--before is required for diff'') else Inr (DiffTopologyQ after before None))
     else Inl (New ''unknown history command''))"

definition historyCommand :: "('cert, 'pool) cli_env \<Rightarrow> string list \<Rightarrow> go_error + ('cert, 'pool) action" where
  "historyCommand env args = (case args of
     [] \<Rightarrow> Inl (New ''usage: bgpls history <changes|diff>'')
   | cmd # rest \<Rightarrow>
      bindR (Parse (en_quote env) history_flags rest) (\<lambda>fs.
      bindR (httpClient env (client_of fs)) (\<lambda>client.
      bindR (history_request cmd fs) (\<lambda>req. Inr (call_action client (client_of fs) (req, PrintProto))))))"

definition peers_flags :: flag_set where
  "peers_flags = (addClientFlags Map.empty)(''id'' \<mapsto> StringFlag [], ''resource-version'' \<mapsto> Uint64Flag 0,
     ''file'' \<mapsto> StringFlag [], ''replace'' \<mapsto> BoolFlag False, ''soft'' \<mapsto> BoolFlag False)"

definition peers_request :: "('cert, 'pool) cli_env \<Rightarrow> string \<Rightarrow> flag_set \<Rightarrow> go_error + cli_request \<times> sink" where
  "peers_request env cmd fs =
     (let i = string_flag (fs ''id''); v = uint64_flag (fs ''resource-version''); file = string_flag (fs ''file'')
      in if cmd = ''list'' then Inr (ListPeersQ [] cli_page, PrintProto)
         else if cmd = ''get'' then Inr (GetPeerQ i, PrintProto)
         else if cmd = ''enable'' \<or> cmd = ''disable'' then Inr (SetPeerAdminStateQ i (cmd = ''enable'') v, PrintProto)
         else if cmd = ''reset'' then Inr (ResetPeerQ i (bool_flag (fs ''soft'')), PrintProto)
         else if cmd = ''delete'' then Inr (DeletePeerQ i v, PrintProto)
         else if cmd = ''add'' \<or> cmd = ''update'' then
           (if file = [] then Inl (New ''--file peer.json is required'')
            else bindR (x_read_file (en_x509 env) file) (\<lambda>data.
              bindR (en_unjson env data) (\<lambda>peer.
              Inr (if cmd = ''add'' then CreatePeerQ (Some peer) else UpdatePeerQ (Some peer) v, PrintProto))))
         else if cmd = ''export'' then Inr (ExportPeerConfigQ, WriteYaml file)
         else if cmd = ''import'' then
           (if file = [] then Inl (New ''--file peers.yaml is required'')
            else bindR (x_read_file (en_x509 env) file) (\<lambda>data.
              Inr (ImportPeerConfigQ data (bool_flag (fs ''replace'')), PrintProto)))
         else Inl (New ''unknown peers command''))"

definition peersCommand :: "('cert, 'pool) cli_env \<Rightarrow> string list \<Rightarrow> go_error + ('cert, 'pool) action" where
  "peersCommand env args = (case args of
     [] \<Rightarrow> Inl (New ''usage: bgpls peers <list|get|enable|disable|reset|add|update|delete|export|import>'')
   | cmd # rest \<Rightarrow>
      bindR (Parse (en_quote env) peers_flags rest) (\<lambda>fs.
      bindR (httpClient env (client_of fs)) (\<lambda>client.
      bindR (peers_request env cmd fs) (\<lambda>q. Inr (call_action client (client_of fs) q)))))"

definition healthCommand :: "('cert, 'pool) cli_env \<Rightarrow> string list \<Rightarrow> go_error + ('cert, 'pool) action" where
  "healthCommand env args =
     bindR (Parse (en_quote env) (addClientFlags Map.empty) args) (\<lambda>fs.
     bindR (httpClient env (client_of fs)) (\<lambda>client. Inr (CheckHealth client (cl_server (client_of fs) @ ''/healthz''))))"

definition serve_path :: "('cert, 'pool) cli_env \<Rightarrow> string list \<Rightarrow> go_error + ('cert, 'pool) action" where
  "serve_path env args = bindR (Parse (en_quote env) [''config'' \<mapsto> StringFlag ''bgpls.yaml''] args)
     (\<lambda>fs. Inr (Serve (string_flag (fs ''config''))))"

definition usage :: go_error where
  "usage = New ''command is required''"

definition run :: "('cert, 'pool) cli_env \<Rightarrow> string list \<Rightarrow> go_error + ('cert, 'pool) action" where
  "run env args = (case args of [] \<Rightarrow> Inl usage
   | cmd # rest \<Rightarrow>
      if cmd = ''serve'' then serve_path env rest
      else if cmd = ''topology'' then topologyCommand env rest
      else if cmd = ''path'' then pathCommand env rest
      else if cmd = ''history'' then historyCommand env rest
      else if cmd = ''peers'' then peersCommand env rest
      else if cmd = ''health'' then healthCommand env rest
      else if cmd = ''version'' then Inr ShowVersion
      else Inl usage)"

section \<open>Calls and output\<close>

text \<open>
  The network and the output: connect's call of a URL, a GET with its status, the JSON of a message,
  the document in the answer of an export, and the writing of files and of the standard output.
\<close>

record ('cert, 'pool, 'msg) net =
  nt_call :: "('cert, 'pool) http_client \<Rightarrow> string \<Rightarrow> cli_request \<Rightarrow> go_error + 'msg"
  nt_get :: "('cert, 'pool) http_client \<Rightarrow> string \<Rightarrow> go_error + int \<times> string"
  nt_json :: "'msg \<Rightarrow> go_error + string"
  nt_yaml :: "'msg \<Rightarrow> string"
  nt_write :: "string \<Rightarrow> string \<Rightarrow> go_error option"

datatype effect = Printed string | Wrote string string

definition line :: "string \<Rightarrow> string" where
  "line s = s @ [CHR 0x0A]"

definition printProto :: "('cert, 'pool, 'msg) net \<Rightarrow> 'msg \<Rightarrow> effect list \<times> go_error option" where
  "printProto N v = (case nt_json N v of Inl e \<Rightarrow> ([], Some e) | Inr data \<Rightarrow> ([Printed (line data)], None))"

text \<open>The effects of a command and the error with which it returns; \<open>srv\<close> is the error of \<open>serve\<close> with
  a configuration.\<close>

fun perform ::
  "(string \<Rightarrow> go_error option) \<Rightarrow> string \<Rightarrow> ('cert, 'pool, 'msg) net \<Rightarrow> ('cert, 'pool) action \<Rightarrow> effect list \<times> go_error option" where
  "perform srv version N (Serve path) = ([], srv path)"
| "perform srv version N ShowVersion = ([Printed (line version)], None)"
| "perform srv version N (Call client url req out) = (case nt_call N client url req of Inl e \<Rightarrow> ([], Some e)
     | Inr msg \<Rightarrow> (case out of PrintProto \<Rightarrow> printProto N msg
        | WriteYaml file \<Rightarrow> if file \<noteq> [] then ([Wrote file (nt_yaml N msg)], nt_write N file (nt_yaml N msg))
            else ([Printed (nt_yaml N msg)], nt_write N [] (nt_yaml N msg))))"
| "perform srv version N (CheckHealth client url) = (case nt_get N client url of Inl e \<Rightarrow> ([], Some e)
     | Inr (code, status) \<Rightarrow> if code \<noteq> 200 then ([], Some (New (''health check returned '' @ status)))
        else ([Printed (line ''SERVING'')], None))"

text \<open>\<open>main\<close>: the effects and the status with which the process exits.\<close>

definition main ::
  "(string \<Rightarrow> go_error option) \<Rightarrow> string \<Rightarrow> ('cert, 'pool) cli_env \<Rightarrow> ('cert, 'pool, 'msg) net \<Rightarrow> string list \<Rightarrow> effect list \<times> nat" where
  "main srv version env N args = (case run env args of Inl e \<Rightarrow> ([], 1)
     | Inr a \<Rightarrow> (case perform srv version N a of (effs, err) \<Rightarrow> (effs, if err = None then 0 else 1)))"

end
