(* ===== verification/Server_Theorems.thy ===== *)
theory Server_Theorems
  imports Server Import_Theorems
begin

text \<open>
  The properties of the server: who is let in, that every procedure reaches its method, and who can
  change the configuration of the peers.
\<close>

section \<open>Authorization\<close>

text \<open>What the middleware promises, without the loops that compute it.\<close>

definition permitted :: "(string \<Rightarrow> string) \<Rightarrow> Authorizer \<Rightarrow> 'body Request \<Rightarrow> bool" where
  "permitted uni a r \<longleftrightarrow> (case rq_tls r of
     None \<Rightarrow> au_insecure a \<or> au_anonymousReader a \<and> requiredRole (rq_path r) = RoleReader
   | Some tls \<Rightarrow> (case cs_verified_chains tls of
       [] \<Rightarrow> au_anonymousReader a \<and> requiredRole (rq_path r) = RoleReader
     | [] # others \<Rightarrow> False
     | (cert # rest) # others \<Rightarrow> \<exists>m \<in> set (au_mappings a). mapping_matches m cert \<and>
         requiredRole (rq_path r) \<le> roleValue uni (rm_role m)))"

lemma requiredRole_cases: "requiredRole p = RoleReader \<or> requiredRole p = RoleOperator \<or> requiredRole p = RoleAdmin"
  by (simp add: requiredRole_def)

lemma requiredRole_some: "RoleNone < requiredRole p"
  using requiredRole_cases[of p] by (auto simp: less_Role_def)

lemma Role_le_Admin: "r \<le> RoleAdmin" "requiredRole p \<le> RoleReader \<longleftrightarrow> requiredRole p = RoleReader"
  using requiredRole_cases[of p] by (cases r; auto simp: less_eq_Role_def)+

lemma request_role_permitted:
  assumes "request_role uni a r = Inr role"
  shows "\<not> role < requiredRole (rq_path r) \<longleftrightarrow> permitted uni a r"
  using assms role_of_at_least[OF requiredRole_some, of "rq_path r" uni a] requiredRole_some[of "rq_path r"]
  by (auto simp: request_role_def permitted_def not_less Role_le_Admin split: if_splits option.splits list.splits)

lemma Middleware_eq:
  "Middleware uni a next_handler r s = (if permitted uni a r then next_handler r s
     else (s, if request_role uni a r = Inl Panic then Panicked
       else HttpError 403 ''client certificate is not authorized for this procedure''))"
proof (cases "request_role uni a r")
  case (Inl e)
  then have "e = Panic" "\<not> permitted uni a r"
    by (auto simp: request_role_def permitted_def split: if_splits option.splits list.splits)
  then show ?thesis using Inl by (simp add: Middleware_def)
next
  case (Inr role)
  then show ?thesis using request_role_permitted[OF Inr] by (auto simp: Middleware_def)
qed

lemmas Middleware_served = Middleware_eq[THEN trans, OF if_P]

text \<open>
  The middleware serves exactly the requests that are permitted: without TLS when the server runs
  insecurely, with a verified client certificate when a mapping that matches one of its names gives
  at least the role that the path needs, and without a certificate only where anonymous readers are
  allowed and the path needs no more than the reader role. Every other request is refused and
  changes nothing.
\<close>

theorem Middleware_serves:
  "Middleware uni a next_handler r s = (if permitted uni a r then next_handler r s
     else (s, if request_role uni a r = Inl Panic then Panicked
       else HttpError 403 ''client certificate is not authorized for this procedure''))"
  by (rule Middleware_eq)

text \<open>
  The role of a certificate is the best role of the mappings that match it, so it does not
  depend on the order of the mappings or of the names, and adding a mapping never takes a role away.
\<close>

theorem role_is_best:
  "role_of uni a cert =
     Max (insert RoleNone {roleValue uni (rm_role m) | m. m \<in> set (au_mappings a) \<and> mapping_matches m cert})"
proof -
  have "(\<lambda>m. roleValue uni (rm_role m)) ` {m \<in> set (au_mappings a). mapping_matches m cert} =
      {roleValue uni (rm_role m) | m. m \<in> set (au_mappings a) \<and> mapping_matches m cert}" by auto
  then show ?thesis by (simp only: role_of_Max)
qed

lemma collector_roles:
  "requiredRole (collector_procedure c) =
     (case c of CreatePeerM \<Rightarrow> RoleAdmin | UpdatePeerM \<Rightarrow> RoleAdmin | DeletePeerM \<Rightarrow> RoleAdmin
      | ImportPeerConfigM \<Rightarrow> RoleAdmin | ExportPeerConfigM \<Rightarrow> RoleAdmin
      | SetPeerAdminStateM \<Rightarrow> RoleOperator | ResetPeerM \<Rightarrow> RoleOperator | _ \<Rightarrow> RoleReader)"
  by (cases c) (hypsubst, code_simp)+

text \<open>
  The roles that the documentation names: the calls that read the topology, its paths and its
  history need the reader role, session control the operator role, and creating, changing, deleting,
  exporting and importing peers the admin role.
\<close>

theorem requiredRole_procedures:
  "requiredRole (topology_procedure t) = RoleReader \<and> requiredRole (path_procedure p) = RoleReader \<and>
   requiredRole (history_procedure h) = RoleReader \<and>
   requiredRole (collector_procedure c) =
     (case c of CreatePeerM \<Rightarrow> RoleAdmin | UpdatePeerM \<Rightarrow> RoleAdmin | DeletePeerM \<Rightarrow> RoleAdmin
      | ImportPeerConfigM \<Rightarrow> RoleAdmin | ExportPeerConfigM \<Rightarrow> RoleAdmin
      | SetPeerAdminStateM \<Rightarrow> RoleOperator | ResetPeerM \<Rightarrow> RoleOperator | _ \<Rightarrow> RoleReader)"
proof -
  have "requiredRole (topology_procedure t) = RoleReader" by (cases t) (hypsubst, code_simp)+
  moreover have "requiredRole (path_procedure p) = RoleReader" by (cases p) (hypsubst, code_simp)+
  moreover have "requiredRole (history_procedure h) = RoleReader" by (cases h) (hypsubst, code_simp)+
  ultimately show ?thesis using collector_roles by blast
qed

section \<open>Routing\<close>

lemma mux_match_map:
  "mux_match (map (\<lambda>(pat, k). (pat, f k)) ps) p = map_option (\<lambda>(pat, k). (pat, f k)) (mux_match ps p)"
  by (induction ps) (auto split: option.splits)

lemma mux_match_member: "mux_match ps p = Some x \<Longrightarrow> x \<in> set ps"
  by (induction ps) (auto split: option.splits if_splits)

definition api_patterns :: "(string \<times> nat) list" where
  "api_patterns = [(''/bgpls.v1.TopologyService/'', 0), (''/bgpls.v1.PathService/'', 1), (''/bgpls.v1.HistoryService/'', 2),
     (''/bgpls.v1.CollectorService/'', 3), (''/healthz'', 4), (''/ui/'', 5), (''/'', 6)]"

definition api_handlers :: "('body, 's, 'a) Services \<Rightarrow> ('body, 's, 'a) handler list" where
  "api_handlers svc = [snd (NewTopologyServiceHandler (sv_topology svc)), snd (NewPathServiceHandler (sv_path svc)),
     snd (NewHistoryServiceHandler (sv_history svc)), snd (NewCollectorServiceHandler (sv_collector svc)),
     healthz, StripPrefix ''/ui/'' ui_Handler, root_handler]"

lemma api_mux_eq: "api_mux svc = mux_ServeHTTP (map (\<lambda>(pat, k). (pat, api_handlers svc ! k)) api_patterns)"
  by (simp add: api_mux_def api_patterns_def api_handlers_def NewTopologyServiceHandler_def NewPathServiceHandler_def
      NewHistoryServiceHandler_def NewCollectorServiceHandler_def)

text \<open>The pattern that a clean path selects.\<close>

definition selects :: "string \<Rightarrow> nat \<Rightarrow> bool" where
  "selects p k \<longleftrightarrow> cleanPath p = p \<and> map_option snd (mux_match api_patterns p) = Some k \<and>
     \<not> (\<not> exactMatch (mux_match api_patterns p) p \<and> last p \<noteq> CHR ''/'' \<and>
        exactMatch (mux_match api_patterns (p @ ''/'')) (p @ ''/''))"

lemma exactMatch_map: "exactMatch (map_option (\<lambda>(pat, k). (pat, f k)) n) p = exactMatch n p"
  by (auto simp: exactMatch_def split: option.split)

lemma mux_selects:
  assumes "selects (rq_escaped_path r) k"
  shows "api_mux svc r s = (api_handlers svc ! k) r s"
  using assms by (auto simp: api_mux_eq mux_ServeHTTP_def selects_def mux_match_map exactMatch_map Let_def)

lemma procedures_select:
  "selects (topology_procedure t) 0" "selects (path_procedure p) 1" "selects (history_procedure h) 2"
  "selects (collector_procedure c) 3"
proof -
  show "selects (topology_procedure t) 0" by (cases t) (hypsubst, code_simp)+
  show "selects (path_procedure p) 1" by (cases p) (hypsubst, code_simp)+
  show "selects (history_procedure h) 2" by (cases h) (hypsubst, code_simp)+
  show "selects (collector_procedure c) 3" by (cases c) (hypsubst, code_simp)+
qed

lemma switch_finds:
  assumes "rq_path r = procedure m" and "find (\<lambda>m'. procedure m = procedure m') methods = Some m"
  shows "switch_path procedure methods svc r s = svc m r s"
  using assms by (simp add: switch_path_def)

lemma find_procedures:
  "find (\<lambda>m. topology_procedure t = topology_procedure m)
     [GetSummaryM, ListDomainsM, GetNodeM, ListNodesM, GetNeighborsM, GetLinkM, ListLinksM, GetPrefixM,
      ListPrefixesM, ResolveM, StreamSnapshotM, WatchTopologyM] = Some t"
  "find (\<lambda>m. path_procedure p = path_procedure m) [ComputePathsM, AnalyzeImpactM] = Some p"
  "find (\<lambda>m. history_procedure h = history_procedure m) [ListChangesM, DiffTopologyM] = Some h"
  "find (\<lambda>m. collector_procedure c = collector_procedure m)
     [GetStatusM, GetPeerM, ListPeersM, CreatePeerM, UpdatePeerM, DeletePeerM, SetPeerAdminStateM, ResetPeerM,
      ValidatePeerConfigM, ExportPeerConfigM, ImportPeerConfigM] = Some c"
proof -
  show "find (\<lambda>m. topology_procedure t = topology_procedure m)
     [GetSummaryM, ListDomainsM, GetNodeM, ListNodesM, GetNeighborsM, GetLinkM, ListLinksM, GetPrefixM,
      ListPrefixesM, ResolveM, StreamSnapshotM, WatchTopologyM] = Some t" by (cases t) simp_all
  show "find (\<lambda>m. path_procedure p = path_procedure m) [ComputePathsM, AnalyzeImpactM] = Some p" by (cases p) simp_all
  show "find (\<lambda>m. history_procedure h = history_procedure m) [ListChangesM, DiffTopologyM] = Some h" by (cases h) simp_all
  show "find (\<lambda>m. collector_procedure c = collector_procedure m)
     [GetStatusM, GetPeerM, ListPeersM, CreatePeerM, UpdatePeerM, DeletePeerM, SetPeerAdminStateM, ResetPeerM,
      ValidatePeerConfigM, ExportPeerConfigM, ImportPeerConfigM] = Some c" by (cases c) simp_all
qed

lemma mux_dispatch:
  assumes "rq_escaped_path r = rq_path r"
  shows "rq_path r = topology_procedure t \<Longrightarrow> api_mux svc r s = sv_topology svc t r s"
    "rq_path r = path_procedure p \<Longrightarrow> api_mux svc r s = sv_path svc p r s"
    "rq_path r = history_procedure h \<Longrightarrow> api_mux svc r s = sv_history svc h r s"
    "rq_path r = collector_procedure c \<Longrightarrow> api_mux svc r s = sv_collector svc c r s"
proof -
  have sel: "selects (rq_path r) k \<Longrightarrow> api_mux svc r s = (api_handlers svc ! k) r s" for k
    using mux_selects[of r k svc s] assms by simp
  show "api_mux svc r s = sv_topology svc t r s" if "rq_path r = topology_procedure t"
    using sel[of 0] procedures_select(1)[of t] that
    by (simp add: api_handlers_def NewTopologyServiceHandler_def switch_finds[OF that find_procedures(1)])
  show "api_mux svc r s = sv_path svc p r s" if "rq_path r = path_procedure p"
    using sel[of 1] procedures_select(2)[of p] that
    by (simp add: api_handlers_def NewPathServiceHandler_def switch_finds[OF that find_procedures(2)])
  show "api_mux svc r s = sv_history svc h r s" if "rq_path r = history_procedure h"
    using sel[of 2] procedures_select(3)[of h] that
    by (simp add: api_handlers_def NewHistoryServiceHandler_def switch_finds[OF that find_procedures(3)])
  show "api_mux svc r s = sv_collector svc c r s" if "rq_path r = collector_procedure c"
    using sel[of 3] procedures_select(4)[of c] that
    by (simp add: api_handlers_def NewCollectorServiceHandler_def switch_finds[OF that find_procedures(4)])
qed

text \<open>
  Every procedure reaches its method: a permitted request for the path of a procedure is
  answered by the method of that procedure, and a panic of the method becomes a response with
  status 500.
\<close>

theorem NewHandler_dispatch:
  assumes "permitted uni a r" and "rq_escaped_path r = rq_path r"
  shows "(rq_path r = topology_procedure t \<longrightarrow>
      NewHandler uni (Some a) svc r s = recoverMiddleware (sv_topology svc t) r s) \<and>
    (rq_path r = path_procedure p \<longrightarrow> NewHandler uni (Some a) svc r s = recoverMiddleware (sv_path svc p) r s) \<and>
    (rq_path r = history_procedure h \<longrightarrow> NewHandler uni (Some a) svc r s = recoverMiddleware (sv_history svc h) r s) \<and>
    (rq_path r = collector_procedure c \<longrightarrow> NewHandler uni (Some a) svc r s = recoverMiddleware (sv_collector svc c) r s)"
proof -
  have mid: "NewHandler uni (Some a) svc r s = recoverMiddleware h r s" if "api_mux svc r s = h r s" for h
    using assms(1) that by (simp add: NewHandler_def recoverMiddleware_def Middleware_served)
  show ?thesis using mux_dispatch[OF assms(2), of _ svc s] by (auto intro!: mid)
qed

section \<open>Who changes the peers\<close>

lemma switch_effect:
  "switch_path procedure methods svc r s = (s', rep) \<Longrightarrow>
     (s' = s \<and> (\<forall>a. rep \<noteq> Reply a)) \<or> (\<exists>m. rq_path r = procedure m \<and> svc m r s = (s', rep))"
  by (auto simp: switch_path_def http_NotFound_def find_Some_iff split: option.splits)

text \<open>What is no procedure is answered without a message, and leaves the state as it is.\<close>

definition handler_effect :: "('body, 's, 'a) Services \<Rightarrow> 'body Request \<Rightarrow> 's \<Rightarrow> 's \<Rightarrow> 'a reply \<Rightarrow> bool" where
  "handler_effect svc r s s' rep \<longleftrightarrow> (s' = s \<and> (\<forall>a. rep \<noteq> Reply a)) \<or>
     (\<exists>t. rq_path r = topology_procedure t \<and> sv_topology svc t r s = (s', rep)) \<or>
     (\<exists>p. rq_path r = path_procedure p \<and> sv_path svc p r s = (s', rep)) \<or>
     (\<exists>q. rq_path r = history_procedure q \<and> sv_history svc q r s = (s', rep)) \<or>
     (\<exists>c. rq_path r = collector_procedure c \<and> sv_collector svc c r s = (s', rep))"

lemma handlers_effect:
  assumes "h \<in> set (api_handlers svc)" and "h r s = (s', rep)"
  shows "handler_effect svc r s s' rep"
  using assms
  by (auto simp: handler_effect_def api_handlers_def NewTopologyServiceHandler_def NewPathServiceHandler_def
      NewHistoryServiceHandler_def NewCollectorServiceHandler_def healthz_def StripPrefix_def ui_Handler_def
      root_handler_def http_NotFound_def dest!: switch_effect split: if_splits)

lemma api_mux_effect:
  assumes "api_mux svc r s = (s', rep)"
  shows "handler_effect svc r s s' rep"
proof -
  let ?n = "mux_match (map (\<lambda>(pat, k). (pat, api_handlers svc ! k)) api_patterns) (cleanPath (rq_escaped_path r))"
  have "(s' = s \<and> (\<forall>a. rep \<noteq> Reply a)) \<or> (\<exists>x. ?n = Some x \<and> snd x r s = (s', rep))"
    using assms unfolding api_mux_eq mux_ServeHTTP_def Let_def
    by (cases ?n) (auto simp: http_NotFound_def split: if_splits)
  then consider "handler_effect svc r s s' rep" | x where "?n = Some x" "snd x r s = (s', rep)"
    unfolding handler_effect_def by blast
  then show ?thesis
  proof cases
    case 2
    obtain pat k where k: "(pat, k) \<in> set api_patterns" "snd x = api_handlers svc ! k"
      using mux_match_member[OF 2(1)] by auto
    have "length (api_handlers svc) = 7" by (simp add: api_handlers_def)
    moreover have "k < 7" using k(1) by (auto simp: api_patterns_def)
    ultimately have "snd x \<in> set (api_handlers svc)" using k(2) by simp
    from handlers_effect[OF this, of r s, OF 2(2)] show ?thesis .
  qed simp
qed

lemma NewHandler_effect:
  assumes "NewHandler uni (Some a) svc r s = (s', rep)" and "s' \<noteq> s \<or> rep = Reply x"
  shows "permitted uni a r \<and> (\<exists>rep'. api_mux svc r s = (s', rep') \<and> (rep = Reply x \<longrightarrow> rep' = rep))"
proof -
  obtain rep' where "Middleware uni a (api_mux svc) r s = (s', rep')" "rep = Reply x \<longrightarrow> rep' = rep"
    using assms(1) by (auto simp: NewHandler_def recoverMiddleware_def split: prod.splits reply.splits)
  then show ?thesis using assms(2) by (auto simp: Middleware_eq split: if_splits)
qed

text \<open>The methods that change the peers: all others leave the table as it is.\<close>

definition changes_peers :: "CollectorMethod \<Rightarrow> bool" where
  "changes_peers c = (c \<in> {CreatePeerM, UpdatePeerM, DeletePeerM, SetPeerAdminStateM, ImportPeerConfigM})"

lemma collector_service_reads:
  assumes "\<not> changes_peers c" and "collector_service env c r sys = (sys', rep)"
  shows "fst sys' = fst sys"
  using assms ResetPeer_store[of "ce_peers env" _ _ "fst sys" "snd sys" "fst sys'" "snd sys'"]
  by (cases c) (auto simp: collector_service_def changes_peers_def decoded_def Let_def split: option.splits prod.splits)

lemma peers_guarded_rule:
  assumes "\<And>c r sys. fst (sv_collector svc c r sys) = fst (collector_service env c r sys)"
    and "\<And>t r sys. entry (fst (fst (sv_topology svc t r sys))) = entry (fst sys)"
    and "\<And>p r sys. entry (fst (fst (sv_path svc p r sys))) = entry (fst sys)"
    and "\<And>h r sys. entry (fst (fst (sv_history svc h r sys))) = entry (fst sys)"
    and "NewHandler uni (Some a) svc r sys = (sys', rep)" and "entry (fst sys') \<noteq> entry (fst sys)"
  shows "\<exists>c. rq_path r = collector_procedure c \<and> changes_peers c \<and> RoleOperator \<le> requiredRole (rq_path r) \<and>
    (au_insecure a \<and> rq_tls r = None \<or>
     (\<exists>tls cert rest others m. rq_tls r = Some tls \<and> cs_verified_chains tls = (cert # rest) # others \<and>
        m \<in> set (au_mappings a) \<and> mapping_matches m cert \<and> requiredRole (rq_path r) \<le> roleValue uni (rm_role m)))"
proof -
  have "sys' \<noteq> sys" using assms(6) by blast
  from NewHandler_effect[OF assms(5) disjI1[OF this]] obtain rep' where perm: "permitted uni a r"
    and mux: "api_mux svc r sys = (sys', rep')" by blast
  have "\<exists>c. rq_path r = collector_procedure c \<and> sv_collector svc c r sys = (sys', rep')"
    using api_mux_effect[OF mux] assms(2-4)[of _ r sys] assms(6) unfolding handler_effect_def by (metis fst_conv)
  then obtain c rep2 where c: "rq_path r = collector_procedure c" "collector_service env c r sys = (sys', rep2)"
    using assms(1) by (metis fst_conv prod.collapse)
  have ch: "changes_peers c" using collector_service_reads[OF _ c(2)] assms(6) by metis
  have role: "RoleOperator \<le> requiredRole (rq_path r)" "requiredRole (rq_path r) \<noteq> RoleReader"
    using ch collector_roles[of c] unfolding c(1) by (cases c; simp add: changes_peers_def less_eq_Role_def)+
  have "au_insecure a \<and> rq_tls r = None \<or>
     (\<exists>tls cert rest others m. rq_tls r = Some tls \<and> cs_verified_chains tls = (cert # rest) # others \<and>
        m \<in> set (au_mappings a) \<and> mapping_matches m cert \<and> requiredRole (rq_path r) \<le> roleValue uni (rm_role m))"
    using perm role(2) by (auto simp: permitted_def split: option.splits list.splits)
  then show ?thesis using c(1) ch role(1) by blast
qed

section \<open>A sample server\<close>

definition sample_authorizer :: Authorizer where
  "sample_authorizer = NewAuthorizer [\<lparr>rm_role = ''reader'', rm_uri_sans = [], rm_dns_sans = [''*.lab'']\<rparr>,
     \<lparr>rm_role = ''Admin'', rm_uri_sans = [''spiffe://lab/admin/*''], rm_dns_sans = []\<rparr>] False True"

definition sample_request :: "string \<Rightarrow> Peer Request" where
  "sample_request path = \<lparr>rq_tls = Some \<lparr>cs_verified_chains =
       [[\<lparr>ct_uris = [''spiffe://lab/admin/alice''], ct_dns_names = [''host.lab'']\<rparr>]]\<rparr>,
     rq_path = path, rq_raw_path = [], rq_escaped_path = path, rq_body = sample_peer ''x'' ''one''\<rparr>"

definition sample_env :: "(Peer, contents, unit) collector_env" where
  "sample_env = \<lparr>ce_pebble = memory_pebble, ce_peers = None, ce_order = id, ce_clock = sample_clock, ce_version = ''dev'',
     ce_started = 0, ce_yaml = sample_yaml, ce_unyaml = sample_unyaml, ce_id = (\<lambda>b. Some (pr_id b)),
     ce_list = (\<lambda>b. None), ce_peer = (\<lambda>b. Some (Some b)), ce_versioned = (\<lambda>b. Some (Some b, pr_resource_version b)),
     ce_delete = (\<lambda>b. Some (pr_id b, pr_resource_version b)), ce_admin = (\<lambda>b. None), ce_reset = (\<lambda>b. None),
     ce_import = (\<lambda>b. None)\<rparr>"

definition sample_services :: "(Peer, (contents, unit) system, rpc_answer) Services" where
  "sample_services = \<lparr>sv_topology = (\<lambda>m r s. (s, Reply Undecodable)), sv_path = (\<lambda>m r s. (s, Reply Undecodable)),
     sv_history = (\<lambda>m r s. (s, Reply Undecodable)), sv_collector = collector_service sample_env\<rparr>"

lemma sample_permitted: "permitted id sample_authorizer (sample_request (collector_procedure CreatePeerM))"
proof -
  have "request_role id sample_authorizer (sample_request (collector_procedure CreatePeerM)) = Inr RoleAdmin" by code_simp
  from request_role_permitted[OF this] show ?thesis
    using Role_le_Admin(1) by (simp add: not_less)
qed

theorem NewHandler_dispatch_witness:
  "snd (NewHandler id (Some sample_authorizer) sample_services (sample_request (collector_procedure CreatePeerM)) (domain_store, ())) =
   snd (recoverMiddleware (collector_service sample_env CreatePeerM) (sample_request (collector_procedure CreatePeerM)) (domain_store, ()))"
proof -
  have "rq_escaped_path (sample_request p) = rq_path (sample_request p)" "rq_path (sample_request p) = p" for p
    by (simp_all add: sample_request_def)
  then show ?thesis
    using NewHandler_dispatch[OF sample_permitted, of _ sample_services "(domain_store, ())" _ _ CreatePeerM]
    by (simp add: sample_services_def)
qed

end
