(* ===== verification/Cli_Theorems.thy ===== *)
theory Cli_Theorems
  imports Cli Server_Theorems History_Theorems
begin

text \<open>
  The properties of the command line: numbers are read exactly or refused, what a command sends is what
  its flags say, and it reaches the method of the server that it names.
\<close>

section \<open>Numbers\<close>

lemma digit_value_range: "digit_value c = Some d \<Longrightarrow> 0 \<le> d \<and> d \<le> 9"
  using of_nat_of_char[of c, where ?'a = int] by (auto simp: digit_value_def less_eq_char_def split: if_splits)

text \<open>The number that a text of digits stands for in a base, if all of them are digits of it.\<close>

fun number_value :: "int \<Rightarrow> int \<Rightarrow> string \<Rightarrow> int option" where
  "number_value b acc [] = Some acc"
| "number_value b acc (c # cs) = (case digit_value c of None \<Rightarrow> None
     | Some d \<Rightarrow> if b \<le> d then None else number_value b (acc * b + d) cs)"

lemma number_value_10: "number_value 10 acc s = digits_value acc s"
proof (induction s arbitrary: acc)
  case (Cons c cs)
  then show ?case using digit_value_range[of c] by (auto split: option.splits)
qed simp

lemma number_value_mono: "number_value b acc s = Some v \<Longrightarrow> 1 \<le> b \<Longrightarrow> 0 \<le> acc \<Longrightarrow> acc \<le> v"
proof (induction s arbitrary: acc)
  case (Cons c cs)
  then obtain d where d: "digit_value c = Some d" "number_value b (acc * b + d) cs = Some v"
    by (auto split: option.splits if_splits)
  have "acc \<le> acc * b" "0 \<le> d" using Cons.prems(2,3) digit_value_range[OF d(1)] by (simp_all add: mult_le_cancel_left1)
  with Cons.IH[OF d(2)] Cons.prems(2,3) show ?case by simp
qed simp

lemma of_int_of_char: "of_int (of_char c) = (of_char c :: 'a::len word)"
  by (metis of_char_def of_nat_of_char of_int_of_nat_eq)

lemma uint_digit_decimal: "digit_value c = Some d \<Longrightarrow> uint_digit c = Some (of_int d)"
  by (auto simp: digit_value_def uint_digit_def of_int_of_char split: if_splits)

lemma digit_no_underscore: "digit_value c = Some d \<Longrightarrow> c \<noteq> CHR ''_''"
  by (auto simp: digit_value_def less_eq_char_def)

text \<open>The two bases of a text of digits: ten, and eight when it begins with a zero.\<close>

lemma cutoff_exact:
  fixes n b :: u64
  assumes "b = 8 \<or> b = 10"
  shows "n < cutoff b \<longleftrightarrow> uint n * uint b < 2 ^ 64"
proof -
  have "cutoff 8 = 2305843009213693952" "cutoff 10 = 1844674407370955162" by code_simp+
  then show ?thesis using assms by (auto simp: word_less_def)
qed

lemma uint_of_digit: "0 \<le> d \<Longrightarrow> d \<le> 9 \<Longrightarrow> uint (of_int d :: u64) = d"
  by (simp add: uint_word_of_int_eq take_bit_int_eq_self)

lemma uint_step:
  fixes n b :: u64
  assumes "uint n * uint b < 2 ^ 64" and "0 \<le> d" and "d \<le> 9"
  shows "n * b + of_int d < n * b \<longleftrightarrow> 2 ^ 64 \<le> uint n * uint b + d"
    and "uint n * uint b + d < 2 ^ 64 \<Longrightarrow> uint (n * b + of_int d) = uint n * uint b + d"
proof -
  let ?m = "uint n * uint b"
  have n: "0 \<le> ?m" by simp
  have m: "uint (n * b) = ?m" using n assms(1) by (simp add: uint_word_ariths(3) mod_pos_pos_trivial)
  have sum: "uint (n * b + of_int d) = (?m + d) mod 2 ^ 64"
    using assms(2,3) by (simp add: uint_word_ariths(1) m uint_of_digit)
  then show small: "?m + d < 2 ^ 64 \<Longrightarrow> uint (n * b + of_int d) = ?m + d"
    using n assms(2) by (simp add: mod_pos_pos_trivial)
  have "(?m + d) mod 2 ^ 64 = ?m + d - 2 ^ 64" if "2 ^ 64 \<le> ?m + d"
    using n assms that mod_pos_pos_trivial[of "?m + d - 2 ^ 64" "2 ^ 64"] minus_mod_self2[of "?m + d" "2 ^ 64"] by simp
  then show "n * b + of_int d < n * b \<longleftrightarrow> 2 ^ 64 \<le> ?m + d"
    using small assms by (cases "2 ^ 64 \<le> ?m + d") (simp_all add: word_less_def sum m)
qed

lemma uint_loop_exact:
  assumes "b = 8 \<or> b = 10"
  shows "number_value (uint b) (uint n) s = Some v \<Longrightarrow> uint_loop b s n = (if v < 2 ^ 64 then Inr (of_int v) else Inl ErrRange)"
proof (induction s arbitrary: n)
  case Nil
  then have "v = uint n" by simp
  then show ?case using uint_bounded[of n] by simp
next
  case (Cons c cs)
  have base: "1 \<le> uint b" using assms by auto
  obtain d where d: "digit_value c = Some d" "number_value (uint b) (uint n * uint b + d) cs = Some v" "d < uint b"
    using Cons.prems by (auto split: option.splits if_splits)
  note r = digit_value_range[OF d(1)]
  have small: "\<not> b \<le> (of_int d :: u64)" using r d(3) by (simp add: word_le_def uint_of_digit)
  have ge: "uint n * uint b + d \<le> v" using number_value_mono[OF d(2) base] r by simp
  note simps = uint_digit_decimal[OF d(1)] digit_no_underscore[OF d(1)] small
  show ?case
  proof (cases "n < cutoff b")
    case False
    then have "2 ^ 64 \<le> v" using ge r by (simp add: cutoff_exact[OF assms])
    then show ?thesis using False by (simp add: simps not_less)
  next
    case True
    note step = uint_step[OF True[unfolded cutoff_exact[OF assms]], of d]
    have lt: "\<not> cutoff b \<le> n" using True by simp
    show ?thesis
    proof (cases "uint n * uint b + d < 2 ^ 64")
      case True
      have "\<not> n * b + of_int d < n * b" using step(1) r True by simp
      moreover have "number_value (uint b) (uint (n * b + of_int d)) cs = Some v" using step(2) r True d(2) by simp
      ultimately show ?thesis using Cons.IH lt by (simp add: simps)
    next
      case False
      then have "n * b + of_int d < n * b" using step(1) r by simp
      then show ?thesis using lt False ge by (simp add: simps)
    qed
  qed
qed

lemma uint_loop_refuses:
  assumes "b = 8 \<or> b = 10"
  shows "number_value (uint b) acc s = None \<Longrightarrow> list_all (\<lambda>c. digit_value c \<noteq> None) s \<Longrightarrow> \<exists>e. uint_loop b s n = Inl e"
proof (induction s arbitrary: acc n)
  case (Cons c cs)
  then obtain d where d: "digit_value c = Some d" by auto
  note r = digit_value_range[OF d]
  have le: "b \<le> (of_int d :: u64) \<longleftrightarrow> uint b \<le> d" using r by (simp add: word_le_def uint_of_digit)
  then show ?case
    using Cons d by (auto simp: uint_digit_decimal[OF d] digit_no_underscore[OF d] split: if_splits)
qed simp

lemma digits_no_underscore: "list_all (\<lambda>c. digit_value c \<noteq> None) s \<Longrightarrow> CHR ''_'' \<notin> set s"
  by (auto simp: list_all_iff dest: digit_no_underscore)

lemma digits_value_digits: "digits_value acc s = Some v \<Longrightarrow> list_all (\<lambda>c. digit_value c \<noteq> None) s"
  by (induction s arbitrary: acc) (auto split: option.splits)

definition number_base :: "string \<Rightarrow> int" where
  "number_base s = (if s \<noteq> [] \<and> hd s = CHR ''0'' then 8 else 10)"

lemma digit_letters: "digit_value c \<noteq> None \<Longrightarrow> lower c \<noteq> CHR ''b'' \<and> lower c \<noteq> CHR ''o'' \<and> lower c \<noteq> CHR ''x''"
proof -
  assume "digit_value c \<noteq> None"
  then have n: "48 \<le> (of_char c :: nat)" "(of_char c :: nat) < 58" by (auto simp: digit_value_def less_eq_char_def split: if_splits)
  then have "(of_char c :: nat) \<in> {48, 49, 50, 51, 52, 53, 54, 55, 56, 57}" by simp presburger
  then have "char_of (of_char c :: nat) \<in> set ''0123456789''" by (elim insertE emptyE; simp add: char_of_def bit_0)
  then have "c \<in> set ''0123456789''" by simp
  moreover have "list_all (\<lambda>c. lower c \<noteq> CHR ''b'' \<and> lower c \<noteq> CHR ''o'' \<and> lower c \<noteq> CHR ''x'') ''0123456789''" by code_simp
  ultimately show ?thesis unfolding list_all_iff by blast
qed

lemma ParseUint_exact:
  assumes "list_all (\<lambda>c. digit_value c \<noteq> None) s" and "s \<noteq> []"
  shows "case number_value (number_base s) 0 s of
      Some v \<Rightarrow> ParseUint_auto s = (if v < 2 ^ 64 then Inr (of_int v) else Inl ErrRange) \<and> 0 \<le> v
    | None \<Rightarrow> \<exists>e. ParseUint_auto s = Inl e"
proof -
  obtain c cs where s: "s = c # cs" using assms(2) by (cases s) auto
  let ?b = "if c = CHR ''0'' then 8 else 10 :: u64" and ?digits = "if c = CHR ''0'' then cs else s"
  have b: "?b = 8 \<or> ?b = 10" "uint ?b = number_base s" by (simp_all add: number_base_def s)
  have "lower (s ! 1) \<noteq> CHR ''b'' \<and> lower (s ! 1) \<noteq> CHR ''o'' \<and> lower (s ! 1) \<noteq> CHR ''x''" if "3 \<le> length s"
    using digit_letters[of "s ! 1"] assms(1) that by (simp add: list_all_iff)
  then have prefix: "base_prefix s = (?b, ?digits)" by (auto simp: base_prefix_def s)
  have val: "number_value (number_base s) 0 s = number_value (uint ?b) (uint (0 :: u64)) ?digits"
    by (simp add: s number_base_def digit_value_def)
  have digits: "list_all (\<lambda>c. digit_value c \<noteq> None) ?digits" using assms(1) by (simp add: s)
  have parse: "ParseUint_auto s = uint_loop ?b ?digits 0"
    using assms(2) digits_no_underscore[OF digits] prefix
    by (cases "c = CHR ''0''") (simp_all add: ParseUint_auto_def split: sum.split)
  show ?thesis
  proof (cases "number_value (number_base s) 0 s")
    case None
    then show ?thesis using uint_loop_refuses[OF b(1) _ digits, of "uint (0 :: u64)" 0] val parse by simp
  next
    case (Some v)
    then have "0 \<le> v" using number_value_mono[OF Some] by (simp add: number_base_def)
    moreover have "uint_loop ?b ?digits 0 = (if v < 2 ^ 64 then Inr (of_int v) else Inl ErrRange)"
      by (rule uint_loop_exact[OF b(1)]) (use Some val in simp)
    ultimately show ?thesis using parse Some by simp
  qed
qed

section \<open>Flags\<close>

definition good_name :: "string \<Rightarrow> bool" where
  "good_name name \<longleftrightarrow> name \<noteq> [] \<and> hd name \<noteq> CHR ''-'' \<and> CHR ''='' \<notin> set name"

lemma split_good_name: "good_name name \<Longrightarrow> split_flag name = (name, None)"
proof -
  assume "good_name name"
  then obtain c cs where "name = c # cs" "CHR ''='' \<notin> set cs" by (cases name) (auto simp: good_name_def)
  moreover from this(2) have "dropWhile (\<lambda>c. c \<noteq> CHR ''='') cs = []" by (induction cs) auto
  ultimately show ?thesis by (simp only: split_flag_def list.sel list.case)
qed

lemma Parse_flag:
  assumes "good_name name" and "fs name = Some old" and "\<not> IsBoolFlag old"
  shows "Parse q fs ((''--'' @ name) # v # rest) =
     bindR (set_named q fs name old v ''value '') (\<lambda>fs'. Parse q fs' rest)"
proof -
  have "hd name \<noteq> CHR ''=''" "name \<noteq> []" "hd name \<noteq> CHR ''-''" using assms(1) by (cases name; auto simp: good_name_def)+
  moreover have "flag_name (CHR ''-'' # CHR ''-'' # name) = name" by (simp add: flag_name_def)
  ultimately show ?thesis
    using assms by (simp add: Parse.simps(2) split_good_name Let_def bindR_def split: sum.split)
qed

lemma Set_Sprint: "Set_flag (Uint64Flag old) (Sprint_u64 n) = Inr (Uint64Flag n)"
proof -
  have "decimal m \<noteq> ''0'' \<longrightarrow> hd (decimal m) \<noteq> CHR ''0''" for m
  proof (induction m rule: decimal.induct)
    case (1 m)
    show ?case
    proof (cases "m < 10")
      case True
      have "list_all (\<lambda>d. hd (decimal d) = CHR ''0'' \<longrightarrow> decimal d = ''0'') [0..<10]" by code_simp
      with True show ?thesis by (auto simp: list_all_iff simp del: upt_conv_Cons)
    next
      case False
      have "decimal (m div 10) \<noteq> ''0''"
      proof
        assume zero: "decimal (m div 10) = ''0''"
        have "digits_value 0 (decimal (m div 10)) = Some (int (m div 10))" by (rule digits_value_decimal)
        then have "m div 10 = 0" unfolding zero by (simp add: digit_value_def)
        then show False using False by simp
      qed
      then have "hd (decimal (m div 10)) \<noteq> CHR ''0''" using 1 False by simp
      then show ?thesis using False by (subst (2) decimal.simps) (simp add: hd_append)
    qed
  qed
  then have base: "number_base (decimal (unat n)) = 10 \<or> decimal (unat n) = ''0''" by (auto simp: number_base_def)
  have val: "digits_value 0 (decimal (unat n)) = Some (int (unat n))" by (rule digits_value_decimal)
  then have "number_value (number_base (decimal (unat n))) 0 (decimal (unat n)) = Some (int (unat n))"
    using base by (auto simp: number_value_10 number_base_def digit_value_def)
  moreover have "decimal (unat n) \<noteq> []" by (subst decimal.simps) simp
  ultimately have "ParseUint_auto (Sprint_u64 n) = (if int (unat n) < 2 ^ 64 then Inr (of_int (int (unat n))) else Inl ErrRange)"
    using ParseUint_exact[OF digits_value_digits[OF val]] by (simp add: Sprint_u64_def)
  then show ?thesis using uint_bounded[of n] by simp
qed

lemma peers_flags_look:
  "peers_flags ''id'' = Some (StringFlag [])" "peers_flags ''resource-version'' = Some (Uint64Flag 0)"
  "peers_flags ''server'' = Some (StringFlag ''https://127.0.0.1:7443'')" "peers_flags ''ca'' = Some (StringFlag [])"
  "peers_flags ''cert'' = Some (StringFlag [])" "peers_flags ''key'' = Some (StringFlag [])"
  by (simp_all add: peers_flags_def addClientFlags_def)

definition peer_args :: "string \<Rightarrow> string \<Rightarrow> string \<Rightarrow> string list" where
  "peer_args server i version = [''--server'', server, ''--id'', i, ''--resource-version'', version]"

lemma good_names: "good_name ''server''" "good_name ''id''" "good_name ''resource-version''"
  by (simp_all add: good_name_def)

lemma Parse_peer_args:
  "Parse q peers_flags (peer_args server i version @ rest) =
     bindR (set_named q (peers_flags(''server'' \<mapsto> StringFlag server, ''id'' \<mapsto> StringFlag i)) ''resource-version'' (Uint64Flag 0) version ''value '')
       (\<lambda>fs. Parse q fs rest)"
  using Parse_flag[OF good_names(1), of peers_flags "StringFlag ''https://127.0.0.1:7443''" q server]
    Parse_flag[OF good_names(2), of "peers_flags(''server'' \<mapsto> StringFlag server)" "StringFlag []" q i]
    Parse_flag[OF good_names(3), of "peers_flags(''server'' \<mapsto> StringFlag server, ''id'' \<mapsto> StringFlag i)" "Uint64Flag 0" q version rest]
  by (simp add: peer_args_def set_named_def peers_flags_look)

lemmas Parse_peer_args_only = Parse_peer_args[of _ _ _ _ "[]", simplified]

text \<open>The arguments of a command with a version, where a file may follow, and what it asks for.\<close>

definition version_args :: "string \<Rightarrow> string \<Rightarrow> string \<Rightarrow> string \<Rightarrow> string list" where
  "version_args server i version path = peer_args server i version @ (if path = [] then [] else [''--file'', path])"

definition version_call :: "string \<Rightarrow> string \<Rightarrow> Peer \<Rightarrow> u64 \<Rightarrow> CollectorMethod \<times> cli_request" where
  "version_call cmd i peer v = (if cmd = ''delete'' then (DeletePeerM, DeletePeerQ i v)
     else if cmd = ''update'' then (UpdatePeerM, UpdatePeerQ (Some peer) v)
     else (SetPeerAdminStateM, SetPeerAdminStateQ i (cmd = ''enable'') v))"

lemma Parse_version_args:
  assumes "Set_flag (Uint64Flag 0) version = Inr (Uint64Flag v)"
  shows "Parse q peers_flags (version_args server i version path) =
     Inr (peers_flags(''server'' \<mapsto> StringFlag server, ''id'' \<mapsto> StringFlag i, ''resource-version'' \<mapsto> Uint64Flag v,
       ''file'' \<mapsto> StringFlag path))"
proof -
  let ?fs = "peers_flags(''server'' \<mapsto> StringFlag server, ''id'' \<mapsto> StringFlag i, ''resource-version'' \<mapsto> Uint64Flag v)"
  have look: "?fs ''file'' = Some (StringFlag [])" "good_name ''file''" by (simp_all add: peers_flags_def good_name_def)
  then have "?fs(''file'' \<mapsto> StringFlag []) = ?fs" by (simp add: fun_upd_idem)
  then show ?thesis
    using Parse_flag[where name = "''file''" and fs = ?fs and q = q and v = path and rest = "[]", OF look(2,1)] assms
    by (cases "path = []") (simp_all add: version_args_def Parse_peer_args Parse_peer_args_only set_named_def del: Set_flag.simps(2))
qed

lemma run_version_refused:
  assumes "Set_flag (Uint64Flag 0) version = Inl e"
  shows "run env (''peers'' # cmd # version_args server i version path) =
    Inl (New (''invalid value '' @ en_quote env version @ '' for flag -resource-version: '' @ error_text e))"
  using assms
  by (simp add: run_def peersCommand_def version_args_def Parse_peer_args set_named_def del: Set_flag.simps(2))

lemma run_version_sent:
  assumes "Set_flag (Uint64Flag 0) version = Inr (Uint64Flag v)" and "cmd \<in> {''enable'', ''disable'', ''delete'', ''update''}"
    and "cmd = ''update'' \<longrightarrow> path \<noteq> [] \<and> x_read_file (en_x509 env) path = Inr data \<and> en_unjson env data = Inr peer"
    and "httpClient env \<lparr>cl_server = server, cl_ca = [], cl_cert = [], cl_key = []\<rparr> = Inr client"
  shows "run env (''peers'' # cmd # version_args server i version path) =
    Inr (Call client (TrimRight_slash server @ collector_procedure (fst (version_call cmd i peer v))) (snd (version_call cmd i peer v)) PrintProto)"
  using assms
  by (auto simp: run_def peersCommand_def peers_request_def Parse_version_args client_of_def peers_flags_look version_call_def
        call_action_def NewCollectorServiceClient_def Let_def simp del: Set_flag.simps collector_procedure.simps)

text \<open>
  C37. A resource version on the command line is read exactly or refused, never truncated: for a text of
  decimal digits of any length, read in base ten or, when it begins with a zero, in base eight, the commands
  to enable, disable, delete or update a peer ask for just that version when the number fits 64 bits; when
  it does not, or has a digit that the base does not have, nothing is sent and the command fails.
\<close>

theorem resource_version_exact:
  assumes "list_all (\<lambda>c. digit_value c \<noteq> None) version" and "version \<noteq> []"
    and "cmd \<in> {''enable'', ''disable'', ''delete'', ''update''}"
    and "cmd = ''update'' \<longrightarrow> path \<noteq> [] \<and> x_read_file (en_x509 env) path = Inr data \<and> en_unjson env data = Inr peer"
    and "httpClient env \<lparr>cl_server = server, cl_ca = [], cl_cert = [], cl_key = []\<rparr> = Inr client"
  shows "case number_value (number_base version) 0 version of
      Some v \<Rightarrow> if v < 2 ^ 64
        then \<exists>w. uint w = v \<and> run env (''peers'' # cmd # version_args server i version path) =
          Inr (Call client (TrimRight_slash server @ collector_procedure (fst (version_call cmd i peer w))) (snd (version_call cmd i peer w)) PrintProto)
        else run env (''peers'' # cmd # version_args server i version path) =
          Inl (New (''invalid value '' @ en_quote env version @ '' for flag -resource-version: value out of range''))
    | None \<Rightarrow> \<exists>e. run env (''peers'' # cmd # version_args server i version path) = Inl e"
proof -
  note parse = ParseUint_exact[OF assms(1,2)] and sent = run_version_sent[OF _ assms(3-5)]
  show ?thesis
  proof (cases "number_value (number_base version) 0 version")
    case None
    then obtain e where "ParseUint_auto version = Inl e" using parse by auto
    then obtain e' where "Set_flag (Uint64Flag 0) version = Inl e'" by (cases e) simp_all
    from run_version_refused[OF this, of env cmd server i path] None show ?thesis by auto
  next
    case (Some v)
    show ?thesis
    proof (cases "v < 2 ^ 64")
      case True
      then have "uint (of_int v :: u64) = v" "Set_flag (Uint64Flag 0) version = Inr (Uint64Flag (of_int v))"
        using parse Some by (simp_all add: uint_word_of_int_eq take_bit_int_eq_self)
      then show ?thesis using Some True sent[of version "of_int v"] by (auto intro!: exI[of _ "of_int v"])
    next
      case False
      then show ?thesis using parse Some run_version_refused[of version errRange] by (simp add: errRange_def)
    qed
  qed
qed

lemma run_peer_command:
  assumes "httpClient env \<lparr>cl_server = server, cl_ca = [], cl_cert = [], cl_key = []\<rparr> = Inr client"
  shows "cmd = ''enable'' \<or> cmd = ''disable'' \<Longrightarrow> run env (''peers'' # cmd # peer_args server i (Sprint_u64 v)) =
      Inr (Call client (TrimRight_slash server @ collector_procedure SetPeerAdminStateM) (SetPeerAdminStateQ i (cmd = ''enable'') v) PrintProto)"
    and "run env (''peers'' # ''delete'' # peer_args server i (Sprint_u64 v)) =
      Inr (Call client (TrimRight_slash server @ collector_procedure DeletePeerM) (DeletePeerQ i v) PrintProto)"
  using assms by (auto simp: run_def peersCommand_def peers_request_def Parse_peer_args_only set_named_def Set_Sprint client_of_def peers_flags_look
        call_action_def NewCollectorServiceClient_def Let_def simp del: Set_flag.simps)

section \<open>From the command line to the store\<close>

text \<open>
  C36. A command reaches the store: enabling or disabling a peer from the command line, with its identifier
  and the version that was read before, sends a request to the address of the server which, when it is
  permitted and connect delivers it as it was sent, runs \<open>SetPeerAdminState\<close> for that peer, state and
  version on the store and answers with what that returns; a deletion runs \<open>DeletePeer\<close>.
\<close>

theorem command_reaches_store:
  assumes "httpClient cenv \<lparr>cl_server = server, cl_ca = [], cl_cert = [], cl_key = []\<rparr> = Inr client"
    and "run cenv (''peers'' # cmd # peer_args server i (Sprint_u64 v)) = Inr (Call client url req out)"
    and "cmd = ''enable'' \<or> cmd = ''disable'' \<or> cmd = ''delete''"
    and "url = TrimRight_slash server @ rq_path r" and "rq_escaped_path r = rq_path r" and "rq_body r = wire req"
    and "\<And>j on w. ce_admin env (wire (SetPeerAdminStateQ j on w)) = Some (j, on, w)"
    and "\<And>j w. ce_delete env (wire (DeletePeerQ j w)) = Some (j, w)"
    and "sv_collector svc = collector_service env" and "permitted uni a r"
  shows "NewHandler uni (Some a) svc r sys = recoverMiddleware (\<lambda>r sys.
    if cmd = ''delete''
    then case DeletePeer (ce_pebble env) (ce_peers env) (ce_clock env 0) i v sys of (sys', x) \<Rightarrow> (sys', rpc_reply (\<lambda>u. DeletedAnswer) x)
    else case SetPeerAdminState (ce_pebble env) (ce_peers env) (ce_clock env 0) i (cmd = ''enable'') v sys of
      (sys', x) \<Rightarrow> (sys', rpc_reply PeerAnswer x)) r sys"
proof -
  note sent = run_peer_command[OF assms(1)]
  have served: "NewHandler uni (Some a) svc r sys = recoverMiddleware (collector_service env c) r sys"
    if "rq_path r = collector_procedure c" for c
    using assms(9,10) mux_dispatch(4)[OF assms(5) that, of svc sys]
    by (simp add: NewHandler_def recoverMiddleware_def Middleware_served)
  show ?thesis
  proof (cases "cmd = ''delete''")
    case True
    then have "rq_path r = collector_procedure DeletePeerM" "req = DeletePeerQ i v"
      using sent(2)[of i v] assms(2,4) by auto
    then show ?thesis using served[of DeletePeerM] True assms(6,8)
      by (simp add: recoverMiddleware_def collector_service_def decoded_def Let_def)
  next
    case False
    then have "rq_path r = collector_procedure SetPeerAdminStateM" "req = SetPeerAdminStateQ i (cmd = ''enable'') v"
      using sent(1)[of cmd i v] assms(2,3,4) by auto
    then show ?thesis using served[of SetPeerAdminStateM] False assms(6,7)
      by (simp add: recoverMiddleware_def collector_service_def decoded_def Let_def)
  qed
qed

section \<open>Roles and defaults\<close>

definition command_role :: "string list \<Rightarrow> Role" where
  "command_role args = (if take 1 args \<noteq> [''peers''] then RoleReader
     else if args ! 1 \<in> {''add'', ''update'', ''delete'', ''export'', ''import''} then RoleAdmin
     else if args ! 1 \<in> {''enable'', ''disable'', ''reset''} then RoleOperator else RoleReader)"

lemma reader_roles: "requiredRole (topology_procedure t) = RoleReader" "requiredRole (path_procedure p) = RoleReader"
  "requiredRole (history_procedure h) = RoleReader"
proof -
  show "requiredRole (topology_procedure t) = RoleReader" by (cases t) (hypsubst, code_simp)+
  show "requiredRole (path_procedure p) = RoleReader" by (cases p) (hypsubst, code_simp)+
  show "requiredRole (history_procedure h) = RoleReader" by (cases h) (hypsubst, code_simp)+
qed

lemma request_url_Nil [simp]: "TrimRight_slash [] = []"
  by (simp add: TrimRight_slash_def)

lemmas client_defs = NewTopologyServiceClient_def NewPathServiceClient_def NewHistoryServiceClient_def NewCollectorServiceClient_def

lemma read_requests:
  "topology_request cmd fs = Inr req \<Longrightarrow> requiredRole (request_url [] req) = RoleReader"
  "path_request fs = Inr req \<Longrightarrow> requiredRole (request_url [] req) = RoleReader"
  "history_request cmd fs = Inr req \<Longrightarrow> requiredRole (request_url [] req) = RoleReader"
  by (auto simp: topology_request_def path_request_def history_request_def Let_def client_defs reader_roles
      simp del: topology_procedure.simps path_procedure.simps history_procedure.simps split: if_splits)

lemma read_commands:
  "topologyCommand env args = Inr (Call client url req out) \<Longrightarrow> requiredRole (request_url [] req) = RoleReader"
  "pathCommand env args = Inr (Call client url req out) \<Longrightarrow> requiredRole (request_url [] req) = RoleReader"
  "historyCommand env args = Inr (Call client url req out) \<Longrightarrow> requiredRole (request_url [] req) = RoleReader"
  by (auto simp: topologyCommand_def pathCommand_def historyCommand_def bindR_Inr_iff call_action_def read_requests
      split: list.splits if_splits)

lemma peer_request_roles:
  "requiredRole (request_url [] (ListPeersQ d pg)) = RoleReader" "requiredRole (request_url [] (GetPeerQ i)) = RoleReader"
  "requiredRole (request_url [] (SetPeerAdminStateQ i on v)) = RoleOperator" "requiredRole (request_url [] (ResetPeerQ i on)) = RoleOperator"
  "requiredRole (request_url [] (DeletePeerQ i v)) = RoleAdmin" "requiredRole (request_url [] (CreatePeerQ p)) = RoleAdmin"
  "requiredRole (request_url [] (UpdatePeerQ p v)) = RoleAdmin" "requiredRole (request_url [] ExportPeerConfigQ) = RoleAdmin"
  "requiredRole (request_url [] (ImportPeerConfigQ doc on)) = RoleAdmin"
  by (simp_all add: client_defs collector_roles del: collector_procedure.simps)

lemma peers_roles:
  "command_role (''peers'' # ''list'' # args) = RoleReader" "command_role (''peers'' # ''get'' # args) = RoleReader"
  "command_role (''peers'' # ''enable'' # args) = RoleOperator" "command_role (''peers'' # ''disable'' # args) = RoleOperator"
  "command_role (''peers'' # ''reset'' # args) = RoleOperator" "command_role (''peers'' # ''delete'' # args) = RoleAdmin"
  "command_role (''peers'' # ''add'' # args) = RoleAdmin" "command_role (''peers'' # ''update'' # args) = RoleAdmin"
  "command_role (''peers'' # ''export'' # args) = RoleAdmin" "command_role (''peers'' # ''import'' # args) = RoleAdmin"
  by (simp_all add: command_role_def)

lemma peers_request_role:
  assumes "peers_request env cmd fs = Inr (req, out)"
  shows "requiredRole (request_url [] req) = command_role (''peers'' # cmd # args)"
proof -
  have "cmd \<in> {''list'', ''get'', ''enable'', ''disable'', ''reset'', ''delete'', ''add'', ''update'', ''export'', ''import''}"
  proof (rule ccontr)
    assume "cmd \<notin> {''list'', ''get'', ''enable'', ''disable'', ''reset'', ''delete'', ''add'', ''update'', ''export'', ''import''}"
    then show False using assms by (simp add: peers_request_def)
  qed
  then consider "cmd = ''list''" | "cmd = ''get''" | "cmd = ''enable''" | "cmd = ''disable''" | "cmd = ''reset''" | "cmd = ''delete''"
    | "cmd = ''add''" | "cmd = ''update''" | "cmd = ''export''" | "cmd = ''import''" unfolding insert_iff empty_iff by metis
  then show ?thesis
    using assms
    by cases (auto simp: peers_request_def Let_def peers_roles peer_request_roles bindR_Inr_iff simp del: request_url.simps split: if_split_asm)
qed

lemma peers_command_role:
  assumes "peersCommand env (cmd # args) = Inr (Call client url req out)"
  shows "requiredRole (request_url [] req) = command_role (''peers'' # cmd # args)"
  using assms by (auto simp: peersCommand_def bindR_Inr_iff call_action_def intro: peers_request_role)

text \<open>
  The role a command needs is the one its name suggests: whatever its flags, a call that a command
  sends needs the administrator role for adding, updating, deleting, exporting and importing peers, the
  operator role for enabling, disabling and resetting one, and the reader role for everything else.
\<close>

theorem command_roles:
  assumes "run env args = Inr (Call client url req out)"
  shows "requiredRole (request_url [] req) = command_role args"
proof (cases args)
  case Nil
  then show ?thesis using assms by (simp add: run_def)
next
  case (Cons cmd rest)
  show ?thesis
  proof (cases "cmd = ''peers''")
    case True
    then have "peersCommand env rest = Inr (Call client url req out)" using assms Cons by (simp add: run_def)
    moreover from this obtain sub rest' where "rest = sub # rest'" by (cases rest) (auto simp: peersCommand_def)
    ultimately show ?thesis using peers_command_role True Cons by simp
  next
    case False
    then have "topologyCommand env rest = Inr (Call client url req out) \<or> pathCommand env rest = Inr (Call client url req out) \<or>
        historyCommand env rest = Inr (Call client url req out)"
      using assms Cons by (auto simp: run_def serve_path_def healthCommand_def bindR_Inr_iff split: if_splits)
    then show ?thesis using read_commands[of env rest client url req out] False Cons by (auto simp: command_role_def)
  qed
qed

definition lab_credentials :: "('cert, 'pool) cli_env \<Rightarrow> string list" where
  "lab_credentials env = (let role = (if en_getenv env ''BGPLS_ROLE'' = [] then ''admin'' else en_getenv env ''BGPLS_ROLE'') in
     [''clab/pki/ca.crt'', filepath_Join [''clab/pki'', role @ ''.crt''], filepath_Join [''clab/pki'', role @ ''.key'']])"

definition given_credentials :: "('cert, 'pool) cli_env \<Rightarrow> clientFlags \<Rightarrow> string list" where
  "given_credentials env c = [if cl_ca c = [] then en_getenv env ''BGPLS_CA'' else cl_ca c,
     if cl_cert c = [] then en_getenv env ''BGPLS_CERT'' else cl_cert c, if cl_key c = [] then en_getenv env ''BGPLS_KEY'' else cl_key c]"

text \<open>
  The certificates of the client: a flag is kept, a missing one is taken from the environment, and
  only when none of the three is given in either way the files of the lab are used, all three of them or,
  when one is missing, none; the address of the server never changes.
\<close>

theorem lab_defaults:
  "cl_server (applyLabDefaults env c) = cl_server c \<and>
   [cl_ca (applyLabDefaults env c), cl_cert (applyLabDefaults env c), cl_key (applyLabDefaults env c)] =
     (if given_credentials env c = [[], [], []] \<and> list_all (fileExists env) (lab_credentials env)
      then lab_credentials env else given_credentials env c)"
proof -
  have join: "filepath_Join [''clab/pki'', ''ca.crt''] = ''clab/pki/ca.crt''" "filepath_Join [''clab'', ''pki''] = ''clab/pki''"
    by code_simp+
  show ?thesis unfolding applyLabDefaults_def join lab_files.simps Let_def env_default_def lab_credentials_def given_credentials_def by auto
qed

text \<open>
  An unknown metric is not an error: a path is computed as for \<open>igp\<close> whatever else than \<open>te\<close> and \<open>delay\<close>
  the flag names, in upper case too.
\<close>

theorem unknown_metric_is_igp:
  assumes "m \<noteq> ''te''" and "m \<noteq> ''delay''"
  shows "pathCommand env [''compute'', ''--domain'', d, ''--source'', s, ''--destination'', t, ''--metric'', m] =
    pathCommand env [''compute'', ''--domain'', d, ''--source'', s, ''--destination'', t, ''--metric'', ''igp'']"
  using assms
  by (simp add: pathCommand_def path_request_def path_flags_def Parse.simps(2) flag_name_def split_flag_def set_named_def addClientFlags_def path_metric_def client_of_def
      Let_def)

section \<open>A sample session\<close>

definition cli_sample :: "(unit, unit) cli_env" where
  "cli_sample = \<lparr>en_getenv = (\<lambda>n. []), en_stat = (\<lambda>p. Inl (External ''no such file'')), en_system_pool = Inr (),
     en_x509 = \<lparr>x_load_key_pair = (\<lambda>c k. Inl (External ''no such file'')), x_read_file = (\<lambda>f. Inl (External ''no such file'')),
       x_new_pool = (), x_append_certs = (\<lambda>p d. (p, False))\<rparr>,
     en_unjson = (\<lambda>d. Inl (External ''unexpected token'')), en_quote = id\<rparr>"

definition sample_client :: "(unit, unit) http_client" where
  "sample_client = \<lparr>hc_min_version = VersionTLS13, hc_root_cas = (), hc_certificates = []\<rparr>"

lemma cli_sample_client: "httpClient cli_sample \<lparr>cl_server = server, cl_ca = [], cl_cert = [], cl_key = []\<rparr> = Inr sample_client"
  by (simp add: httpClient_def applyLabDefaults_def cli_sample_def env_default_def fileExists_def root_pool_def
      client_certificates_def sample_client_def)

theorem resource_version_exact_witness:
  "(\<exists>w. uint w = 18446744073709551615 \<and> run cli_sample (''peers'' # ''delete'' # version_args ''https://lab/'' ''x'' ''18446744073709551615'' []) =
      Inr (Call sample_client (TrimRight_slash ''https://lab/'' @ collector_procedure DeletePeerM) (DeletePeerQ ''x'' w) PrintProto)) \<and>
   run cli_sample (''peers'' # ''enable'' # version_args ''https://lab/'' ''x'' ''18446744073709551616'' []) =
      Inl (New (''invalid value '' @ en_quote cli_sample ''18446744073709551616'' @ '' for flag -resource-version: value out of range'')) \<and>
   (\<exists>w. uint w = 8 \<and> run cli_sample (''peers'' # ''disable'' # version_args ''https://lab/'' ''x'' ''010'' []) =
      Inr (Call sample_client (TrimRight_slash ''https://lab/'' @ collector_procedure SetPeerAdminStateM) (SetPeerAdminStateQ ''x'' False w) PrintProto))"
proof -
  have digits: "list_all (\<lambda>c. digit_value c \<noteq> None) ''18446744073709551615''" "list_all (\<lambda>c. digit_value c \<noteq> None) ''18446744073709551616''"
    "list_all (\<lambda>c. digit_value c \<noteq> None) ''010''" by code_simp+
  have vals: "number_value (number_base ''18446744073709551615'') 0 ''18446744073709551615'' = Some 18446744073709551615"
    "number_value (number_base ''18446744073709551616'') 0 ''18446744073709551616'' = Some 18446744073709551616"
    "number_value (number_base ''010'') 0 ''010'' = Some 8" by code_simp+
  note run = resource_version_exact[OF _ _ _ _ cli_sample_client[of "''https://lab/''"], where i = "''x''" and path = "[]" and data = "[]"
      and peer = "sample_peer ''x'' ''one''"]
  show ?thesis
    using run[OF digits(1), of "''delete''", unfolded vals] run[OF digits(2), of "''enable''", unfolded vals]
      run[OF digits(3), of "''disable''", unfolded vals]
    by (simp add: version_call_def del: collector_procedure.simps)
qed

theorem command_roles_witness: "command_role [''peers'', ''list''] = RoleReader"
proof -
  have "run cli_sample [''peers'', ''list''] = Inr (Call sample_client
      (NewCollectorServiceClient ''https://127.0.0.1:7443'' ListPeersM) (ListPeersQ [] cli_page) PrintProto)"
    using cli_sample_client[of "''https://127.0.0.1:7443''"]
    by (simp add: run_def peersCommand_def peers_request_def client_of_def peers_flags_look call_action_def)
  from command_roles[OF this] show ?thesis by (simp add: client_defs collector_roles del: collector_procedure.simps)
qed

theorem unknown_metric_is_igp_witness:
  "pathCommand cli_sample [''compute'', ''--domain'', ''d'', ''--source'', ''a'', ''--destination'', ''b'', ''--metric'', ''TE''] =
   pathCommand cli_sample [''compute'', ''--domain'', ''d'', ''--source'', ''a'', ''--destination'', ''b'', ''--metric'', ''igp'']"
  by (rule unknown_metric_is_igp) simp_all

definition wire_env :: "(cli_request, contents, unit) collector_env" where
  "wire_env = \<lparr>ce_pebble = memory_pebble, ce_peers = None, ce_order = id, ce_clock = sample_clock, ce_version = ''dev'',
     ce_started = 0, ce_yaml = sample_yaml, ce_unyaml = sample_unyaml, ce_id = (\<lambda>b. None), ce_list = (\<lambda>b. None),
     ce_peer = (\<lambda>b. None), ce_versioned = (\<lambda>b. None),
     ce_delete = (\<lambda>b. case b of DeletePeerQ i v \<Rightarrow> Some (i, v) | _ \<Rightarrow> None),
     ce_admin = (\<lambda>b. case b of SetPeerAdminStateQ i on v \<Rightarrow> Some (i, on, v) | _ \<Rightarrow> None),
     ce_reset = (\<lambda>b. None), ce_import = (\<lambda>b. None)\<rparr>"

definition wire_services :: "(cli_request, (contents, unit) system, rpc_answer) Services" where
  "wire_services = \<lparr>sv_topology = (\<lambda>m r s. (s, Reply Undecodable)), sv_path = (\<lambda>m r s. (s, Reply Undecodable)),
     sv_history = (\<lambda>m r s. (s, Reply Undecodable)), sv_collector = collector_service wire_env\<rparr>"

definition wire_request :: "cli_request Request" where
  "wire_request = \<lparr>rq_tls = None, rq_path = collector_procedure SetPeerAdminStateM, rq_raw_path = [],
     rq_escaped_path = collector_procedure SetPeerAdminStateM, rq_body = SetPeerAdminStateQ ''x'' True 7\<rparr>"

theorem command_reaches_store_witness:
  "NewHandler id (Some (NewAuthorizer [] True False)) wire_services wire_request (domain_store, ()) =
   recoverMiddleware (\<lambda>r sys. if ''enable'' = ''delete''
     then case DeletePeer (ce_pebble wire_env) (ce_peers wire_env) (ce_clock wire_env 0) ''x'' 7 sys of
       (sys', x) \<Rightarrow> (sys', rpc_reply (\<lambda>u. DeletedAnswer) x)
     else case SetPeerAdminState (ce_pebble wire_env) (ce_peers wire_env) (ce_clock wire_env 0) ''x'' (''enable'' = ''enable'') 7 sys of
       (sys', x) \<Rightarrow> (sys', rpc_reply PeerAnswer x)) wire_request (domain_store, ())"
proof -
  have sent: "run cli_sample (''peers'' # ''enable'' # peer_args ''https://lab/'' ''x'' (Sprint_u64 7)) =
      Inr (Call sample_client (TrimRight_slash ''https://lab/'' @ collector_procedure SetPeerAdminStateM)
        (SetPeerAdminStateQ ''x'' True 7) PrintProto)"
    using run_peer_command(1)[OF cli_sample_client, of "''enable''" "''https://lab/''" "''x''" 7] by simp
  have codec: "ce_admin wire_env (SetPeerAdminStateQ j on w) = Some (j, on, w)" "ce_delete wire_env (DeletePeerQ j w) = Some (j, w)"
    for j on w by (simp_all add: wire_env_def)
  show ?thesis
    by (rule command_reaches_store[OF cli_sample_client sent, where wire = "\<lambda>req. req"])
      (simp_all add: wire_request_def wire_services_def permitted_def NewAuthorizer_def codec)
qed

end
