(* ===== verification/Connect.thy ===== *)
theory Connect
  imports Cli_Theorems
begin

text \<open>
  The rest of \<open>gen/bgpls/v1/bgplsv1connect\<close>: the methods of the four clients, the kind of handler that the
  server makes for every method, and the handlers that implement nothing. Connect itself is an
  argument: a client method hands its request to connect with the URL of the method, and what connect
  does with a unary call or a call with a stream of answers is the function \<open>call\<close>.
\<close>

section \<open>Client methods\<close>

datatype call_kind = Unary | ServerStream

fun topologyServiceClient ::
  "(call_kind \<Rightarrow> string \<Rightarrow> 'req \<Rightarrow> 'res) \<Rightarrow> (TopologyMethod \<Rightarrow> string) \<Rightarrow> TopologyMethod \<Rightarrow> 'req \<Rightarrow> 'res" where
  "topologyServiceClient call c GetSummaryM req = call Unary (c GetSummaryM) req"
| "topologyServiceClient call c ListDomainsM req = call Unary (c ListDomainsM) req"
| "topologyServiceClient call c GetNodeM req = call Unary (c GetNodeM) req"
| "topologyServiceClient call c ListNodesM req = call Unary (c ListNodesM) req"
| "topologyServiceClient call c GetNeighborsM req = call Unary (c GetNeighborsM) req"
| "topologyServiceClient call c GetLinkM req = call Unary (c GetLinkM) req"
| "topologyServiceClient call c ListLinksM req = call Unary (c ListLinksM) req"
| "topologyServiceClient call c GetPrefixM req = call Unary (c GetPrefixM) req"
| "topologyServiceClient call c ListPrefixesM req = call Unary (c ListPrefixesM) req"
| "topologyServiceClient call c ResolveM req = call Unary (c ResolveM) req"
| "topologyServiceClient call c StreamSnapshotM req = call ServerStream (c StreamSnapshotM) req"
| "topologyServiceClient call c WatchTopologyM req = call ServerStream (c WatchTopologyM) req"

fun pathServiceClient ::
  "(call_kind \<Rightarrow> string \<Rightarrow> 'req \<Rightarrow> 'res) \<Rightarrow> (PathMethod \<Rightarrow> string) \<Rightarrow> PathMethod \<Rightarrow> 'req \<Rightarrow> 'res" where
  "pathServiceClient call c ComputePathsM req = call Unary (c ComputePathsM) req"
| "pathServiceClient call c AnalyzeImpactM req = call Unary (c AnalyzeImpactM) req"

fun historyServiceClient ::
  "(call_kind \<Rightarrow> string \<Rightarrow> 'req \<Rightarrow> 'res) \<Rightarrow> (HistoryMethod \<Rightarrow> string) \<Rightarrow> HistoryMethod \<Rightarrow> 'req \<Rightarrow> 'res" where
  "historyServiceClient call c ListChangesM req = call Unary (c ListChangesM) req"
| "historyServiceClient call c DiffTopologyM req = call Unary (c DiffTopologyM) req"

fun collectorServiceClient ::
  "(call_kind \<Rightarrow> string \<Rightarrow> 'req \<Rightarrow> 'res) \<Rightarrow> (CollectorMethod \<Rightarrow> string) \<Rightarrow> CollectorMethod \<Rightarrow> 'req \<Rightarrow> 'res" where
  "collectorServiceClient call c GetStatusM req = call Unary (c GetStatusM) req"
| "collectorServiceClient call c GetPeerM req = call Unary (c GetPeerM) req"
| "collectorServiceClient call c ListPeersM req = call Unary (c ListPeersM) req"
| "collectorServiceClient call c CreatePeerM req = call Unary (c CreatePeerM) req"
| "collectorServiceClient call c UpdatePeerM req = call Unary (c UpdatePeerM) req"
| "collectorServiceClient call c DeletePeerM req = call Unary (c DeletePeerM) req"
| "collectorServiceClient call c SetPeerAdminStateM req = call Unary (c SetPeerAdminStateM) req"
| "collectorServiceClient call c ResetPeerM req = call Unary (c ResetPeerM) req"
| "collectorServiceClient call c ValidatePeerConfigM req = call Unary (c ValidatePeerConfigM) req"
| "collectorServiceClient call c ExportPeerConfigM req = call Unary (c ExportPeerConfigM) req"
| "collectorServiceClient call c ImportPeerConfigM req = call Unary (c ImportPeerConfigM) req"

section \<open>The kinds of the handlers\<close>

text \<open>Which of \<open>connect.NewUnaryHandler\<close> and \<open>connect.NewServerStreamHandler\<close> makes the handler of a method.\<close>

fun topology_handler_kind :: "TopologyMethod \<Rightarrow> call_kind" where
  "topology_handler_kind GetSummaryM = Unary"
| "topology_handler_kind ListDomainsM = Unary"
| "topology_handler_kind GetNodeM = Unary"
| "topology_handler_kind ListNodesM = Unary"
| "topology_handler_kind GetNeighborsM = Unary"
| "topology_handler_kind GetLinkM = Unary"
| "topology_handler_kind ListLinksM = Unary"
| "topology_handler_kind GetPrefixM = Unary"
| "topology_handler_kind ListPrefixesM = Unary"
| "topology_handler_kind ResolveM = Unary"
| "topology_handler_kind StreamSnapshotM = ServerStream"
| "topology_handler_kind WatchTopologyM = ServerStream"

fun path_handler_kind :: "PathMethod \<Rightarrow> call_kind" where
  "path_handler_kind ComputePathsM = Unary"
| "path_handler_kind AnalyzeImpactM = Unary"

fun history_handler_kind :: "HistoryMethod \<Rightarrow> call_kind" where
  "history_handler_kind ListChangesM = Unary"
| "history_handler_kind DiffTopologyM = Unary"

fun collector_handler_kind :: "CollectorMethod \<Rightarrow> call_kind" where
  "collector_handler_kind GetStatusM = Unary"
| "collector_handler_kind GetPeerM = Unary"
| "collector_handler_kind ListPeersM = Unary"
| "collector_handler_kind CreatePeerM = Unary"
| "collector_handler_kind UpdatePeerM = Unary"
| "collector_handler_kind DeletePeerM = Unary"
| "collector_handler_kind SetPeerAdminStateM = Unary"
| "collector_handler_kind ResetPeerM = Unary"
| "collector_handler_kind ValidatePeerConfigM = Unary"
| "collector_handler_kind ExportPeerConfigM = Unary"
| "collector_handler_kind ImportPeerConfigM = Unary"

section \<open>Handlers that implement nothing\<close>

definition unimplemented :: "string \<Rightarrow> 'a response" where
  "unimplemented msg = Inl (ConnectError CodeUnimplemented (New msg))"

fun UnimplementedTopologyServiceHandler :: "TopologyMethod \<Rightarrow> 'a response" where
  "UnimplementedTopologyServiceHandler GetSummaryM = unimplemented ''bgpls.v1.TopologyService.GetSummary is not implemented''"
| "UnimplementedTopologyServiceHandler ListDomainsM = unimplemented ''bgpls.v1.TopologyService.ListDomains is not implemented''"
| "UnimplementedTopologyServiceHandler GetNodeM = unimplemented ''bgpls.v1.TopologyService.GetNode is not implemented''"
| "UnimplementedTopologyServiceHandler ListNodesM = unimplemented ''bgpls.v1.TopologyService.ListNodes is not implemented''"
| "UnimplementedTopologyServiceHandler GetNeighborsM = unimplemented ''bgpls.v1.TopologyService.GetNeighbors is not implemented''"
| "UnimplementedTopologyServiceHandler GetLinkM = unimplemented ''bgpls.v1.TopologyService.GetLink is not implemented''"
| "UnimplementedTopologyServiceHandler ListLinksM = unimplemented ''bgpls.v1.TopologyService.ListLinks is not implemented''"
| "UnimplementedTopologyServiceHandler GetPrefixM = unimplemented ''bgpls.v1.TopologyService.GetPrefix is not implemented''"
| "UnimplementedTopologyServiceHandler ListPrefixesM = unimplemented ''bgpls.v1.TopologyService.ListPrefixes is not implemented''"
| "UnimplementedTopologyServiceHandler ResolveM = unimplemented ''bgpls.v1.TopologyService.Resolve is not implemented''"
| "UnimplementedTopologyServiceHandler StreamSnapshotM = unimplemented ''bgpls.v1.TopologyService.StreamSnapshot is not implemented''"
| "UnimplementedTopologyServiceHandler WatchTopologyM = unimplemented ''bgpls.v1.TopologyService.WatchTopology is not implemented''"

fun UnimplementedPathServiceHandler :: "PathMethod \<Rightarrow> 'a response" where
  "UnimplementedPathServiceHandler ComputePathsM = unimplemented ''bgpls.v1.PathService.ComputePaths is not implemented''"
| "UnimplementedPathServiceHandler AnalyzeImpactM = unimplemented ''bgpls.v1.PathService.AnalyzeImpact is not implemented''"

fun UnimplementedHistoryServiceHandler :: "HistoryMethod \<Rightarrow> 'a response" where
  "UnimplementedHistoryServiceHandler ListChangesM = unimplemented ''bgpls.v1.HistoryService.ListChanges is not implemented''"
| "UnimplementedHistoryServiceHandler DiffTopologyM = unimplemented ''bgpls.v1.HistoryService.DiffTopology is not implemented''"

fun UnimplementedCollectorServiceHandler :: "CollectorMethod \<Rightarrow> 'a response" where
  "UnimplementedCollectorServiceHandler GetStatusM = unimplemented ''bgpls.v1.CollectorService.GetStatus is not implemented''"
| "UnimplementedCollectorServiceHandler GetPeerM = unimplemented ''bgpls.v1.CollectorService.GetPeer is not implemented''"
| "UnimplementedCollectorServiceHandler ListPeersM = unimplemented ''bgpls.v1.CollectorService.ListPeers is not implemented''"
| "UnimplementedCollectorServiceHandler CreatePeerM = unimplemented ''bgpls.v1.CollectorService.CreatePeer is not implemented''"
| "UnimplementedCollectorServiceHandler UpdatePeerM = unimplemented ''bgpls.v1.CollectorService.UpdatePeer is not implemented''"
| "UnimplementedCollectorServiceHandler DeletePeerM = unimplemented ''bgpls.v1.CollectorService.DeletePeer is not implemented''"
| "UnimplementedCollectorServiceHandler SetPeerAdminStateM = unimplemented ''bgpls.v1.CollectorService.SetPeerAdminState is not implemented''"
| "UnimplementedCollectorServiceHandler ResetPeerM = unimplemented ''bgpls.v1.CollectorService.ResetPeer is not implemented''"
| "UnimplementedCollectorServiceHandler ValidatePeerConfigM = unimplemented ''bgpls.v1.CollectorService.ValidatePeerConfig is not implemented''"
| "UnimplementedCollectorServiceHandler ExportPeerConfigM = unimplemented ''bgpls.v1.CollectorService.ExportPeerConfig is not implemented''"
| "UnimplementedCollectorServiceHandler ImportPeerConfigM = unimplemented ''bgpls.v1.CollectorService.ImportPeerConfig is not implemented''"

text \<open>
  A handler that implements nothing names the procedure that was called, so the constants of the
  procedures and the messages agree.
\<close>

definition procedure_name :: "string \<Rightarrow> string" where
  "procedure_name p = map (\<lambda>c. if c = CHR ''/'' then CHR ''.'' else c) (tl p)"

theorem unimplemented_names_procedure:
  "UnimplementedTopologyServiceHandler t = unimplemented (procedure_name (topology_procedure t) @ '' is not implemented'') \<and>
   UnimplementedPathServiceHandler p = unimplemented (procedure_name (path_procedure p) @ '' is not implemented'') \<and>
   UnimplementedHistoryServiceHandler h = unimplemented (procedure_name (history_procedure h) @ '' is not implemented'') \<and>
   UnimplementedCollectorServiceHandler c = unimplemented (procedure_name (collector_procedure c) @ '' is not implemented'')"
proof (intro conjI)
  show "UnimplementedTopologyServiceHandler t = unimplemented (procedure_name (topology_procedure t) @ '' is not implemented'')"
    by (cases t) (simp_all add: procedure_name_def)
  show "UnimplementedPathServiceHandler p = unimplemented (procedure_name (path_procedure p) @ '' is not implemented'')"
    by (cases p) (simp_all add: procedure_name_def)
  show "UnimplementedHistoryServiceHandler h = unimplemented (procedure_name (history_procedure h) @ '' is not implemented'')"
    by (cases h) (simp_all add: procedure_name_def)
  show "UnimplementedCollectorServiceHandler c = unimplemented (procedure_name (collector_procedure c) @ '' is not implemented'')"
    by (cases c) (simp_all add: procedure_name_def)
qed

section \<open>From a client to the method of the server\<close>

text \<open>
  The path of a URL with a scheme and a host, without query and without escapes, and the request that
  arrives when connect sends a body to such a URL.
\<close>

definition url_path :: "string \<Rightarrow> string" where
  "url_path u = dropWhile (\<lambda>c. c \<noteq> CHR ''/'') (drop 2 (dropWhile (\<lambda>c. c \<noteq> CHR ''/'') u))"

definition rpc_request :: "ConnectionState option \<Rightarrow> string \<Rightarrow> 'body \<Rightarrow> 'body Request" where
  "rpc_request tls path body = \<lparr>rq_tls = tls, rq_path = path, rq_raw_path = [], rq_escaped_path = path, rq_body = body\<rparr>"

definition http_request :: "ConnectionState option \<Rightarrow> string \<Rightarrow> 'body \<Rightarrow> 'body Request" where
  "http_request tls url body = rpc_request tls (url_path url) body"

text \<open>A call of connect over the handler of a server, where \<open>encode\<close> is the body that connect writes.\<close>

definition connect_call ::
  "('body, 's, 'a) handler \<Rightarrow> ConnectionState option \<Rightarrow> (call_kind \<Rightarrow> 'req \<Rightarrow> 'body) \<Rightarrow> call_kind \<Rightarrow> string \<Rightarrow> 'req \<Rightarrow> 's \<Rightarrow> 's \<times> 'a reply" where
  "connect_call h tls encode kind url req s = h (http_request tls url (encode kind req)) s"

text \<open>The base URL of a server: scheme, host and any number of slashes.\<close>

definition server_url :: "string \<Rightarrow> string \<Rightarrow> nat \<Rightarrow> string" where
  "server_url scheme host n = scheme @ ''://'' @ host @ replicate n (CHR ''/'')"

definition plain_host :: "string \<Rightarrow> bool" where
  "plain_host h \<longleftrightarrow> h \<noteq> [] \<and> CHR ''/'' \<notin> set h"

lemma TrimRight_server:
  assumes "plain_host host"
  shows "TrimRight_slash (server_url scheme host n) = scheme @ ''://'' @ host"
proof -
  have "last host \<noteq> CHR ''/''" using assms by (metis plain_host_def last_in_set)
  then obtain xs x where "host = xs @ [x]" "x \<noteq> CHR ''/''"
    using assms by (metis plain_host_def append_butlast_last_id)
  moreover have "dropWhile (\<lambda>c. c = CHR ''/'') (replicate n (CHR ''/'') @ ys) = dropWhile (\<lambda>c. c = CHR ''/'') ys" for ys
    by (induction n) simp_all
  ultimately show ?thesis by (simp add: TrimRight_slash_def server_url_def)
qed

lemma url_path_server:
  assumes "plain_host host" and "CHR ''/'' \<notin> set scheme"
  shows "url_path ((scheme @ ''://'' @ host) @ CHR ''/'' # p) = CHR ''/'' # p"
  using assms by (auto simp: url_path_def plain_host_def dropWhile_append)

text \<open>
  The contract between a client and a server of one service: the server routes the path of a method to
  that method, the client sends to this path, and both agree on the kind of the call.
\<close>

locale connect_service =
  fixes procedure :: "'m \<Rightarrow> string"
    and new_client :: "string \<Rightarrow> 'm \<Rightarrow> string"
    and stub :: "(call_kind \<Rightarrow> string \<Rightarrow> 'req \<Rightarrow> 's \<Rightarrow> 's \<times> 'a reply) \<Rightarrow> ('m \<Rightarrow> string) \<Rightarrow> 'm \<Rightarrow> 'req \<Rightarrow> 's \<Rightarrow> 's \<times> 'a reply"
    and kind :: "'m \<Rightarrow> call_kind"
    and serve :: "('body, 's, 'a) Services \<Rightarrow> 'm \<Rightarrow> ('body, 's, 'a) handler"
  assumes absolute: "hd (procedure m) = CHR ''/''" "procedure m \<noteq> []"
    and sends: "new_client base m = TrimRight_slash base @ procedure m"
    and calls: "stub call c m req = call (kind m) (c m) req"
    and routes: "rq_escaped_path r = rq_path r \<Longrightarrow> rq_path r = procedure m \<Longrightarrow> api_mux svc r s = serve svc m r s"
begin

lemma path_of_url:
  assumes "plain_host host" and "CHR ''/'' \<notin> set scheme"
  shows "url_path (new_client (server_url scheme host n) m) = procedure m"
  using url_path_server[OF assms, of "tl (procedure m)"] absolute[of m]
  by (simp add: sends TrimRight_server[OF assms(1)]) (metis list.collapse)

lemma client_served:
  assumes "plain_host host" and "CHR ''/'' \<notin> set scheme"
    and "permitted uni a (rpc_request tls (procedure m) (encode (kind m) req))"
  shows "stub (connect_call (NewHandler uni (Some a) svc) tls encode) (new_client (server_url scheme host n)) m req s =
    recoverMiddleware (serve svc m) (rpc_request tls (procedure m) (encode (kind m) req)) s"
proof -
  have "api_mux svc (rpc_request tls (procedure m) (encode (kind m) req)) s =
      serve svc m (rpc_request tls (procedure m) (encode (kind m) req)) s"
    by (rule routes) (simp_all add: rpc_request_def)
  then show ?thesis
    by (simp add: calls connect_call_def http_request_def path_of_url[OF assms(1,2)] NewHandler_def recoverMiddleware_def
        Middleware_served[OF assms(3)])
qed

end

interpretation topology_rpc: connect_service topology_procedure NewTopologyServiceClient topologyServiceClient topology_handler_kind sv_topology
proof
  show "hd (topology_procedure m) = CHR ''/''" "topology_procedure m \<noteq> []" for m by (cases m; simp)+
  show "topologyServiceClient call c m req = call (topology_handler_kind m) (c m) req"
    for call :: "call_kind \<Rightarrow> string \<Rightarrow> 'a \<Rightarrow> 'b \<Rightarrow> 'b \<times> 'c reply" and c m req by (cases m) simp_all
qed (simp_all add: NewTopologyServiceClient_def mux_dispatch(1))

interpretation path_rpc: connect_service path_procedure NewPathServiceClient pathServiceClient path_handler_kind sv_path
proof
  show "hd (path_procedure m) = CHR ''/''" "path_procedure m \<noteq> []" for m by (cases m; simp)+
  show "pathServiceClient call c m req = call (path_handler_kind m) (c m) req"
    for call :: "call_kind \<Rightarrow> string \<Rightarrow> 'a \<Rightarrow> 'b \<Rightarrow> 'b \<times> 'c reply" and c m req by (cases m) simp_all
qed (simp_all add: NewPathServiceClient_def mux_dispatch(2))

interpretation history_rpc: connect_service history_procedure NewHistoryServiceClient historyServiceClient history_handler_kind sv_history
proof
  show "hd (history_procedure m) = CHR ''/''" "history_procedure m \<noteq> []" for m by (cases m; simp)+
  show "historyServiceClient call c m req = call (history_handler_kind m) (c m) req"
    for call :: "call_kind \<Rightarrow> string \<Rightarrow> 'a \<Rightarrow> 'b \<Rightarrow> 'b \<times> 'c reply" and c m req by (cases m) simp_all
qed (simp_all add: NewHistoryServiceClient_def mux_dispatch(3))

interpretation collector_rpc: connect_service collector_procedure NewCollectorServiceClient collectorServiceClient collector_handler_kind sv_collector
proof
  show "hd (collector_procedure m) = CHR ''/''" "collector_procedure m \<noteq> []" for m by (cases m; simp)+
  show "collectorServiceClient call c m req = call (collector_handler_kind m) (c m) req"
    for call :: "call_kind \<Rightarrow> string \<Rightarrow> 'a \<Rightarrow> 'b \<Rightarrow> 'b \<times> 'c reply" and c m req by (cases m) simp_all
qed (simp_all add: NewCollectorServiceClient_def mux_dispatch(4))

text \<open>
  C35. Every method of every client reaches the same method of the server: with the base URL of a server, with
  or without slashes at its end, a permitted call runs the method of the same name behind connect, with
  the body that connect writes for the kind of call for which the handler of that method was made, and a
  panic becomes a response with status 500. No call ends in a redirect, in another service or at a
  handler of the other kind.
\<close>

theorem client_reaches_method:
  assumes "plain_host host" and "CHR ''/'' \<notin> set scheme"
    and "call = connect_call (NewHandler uni (Some a) svc) tls encode" and "base = server_url scheme host n"
    and "tq = rpc_request tls (topology_procedure t) (encode (topology_handler_kind t) req)"
    and "pq = rpc_request tls (path_procedure p) (encode (path_handler_kind p) req)"
    and "hq = rpc_request tls (history_procedure h) (encode (history_handler_kind h) req)"
    and "cq = rpc_request tls (collector_procedure c) (encode (collector_handler_kind c) req)"
  shows "(permitted uni a tq \<longrightarrow> topologyServiceClient call (NewTopologyServiceClient base) t req s =
      recoverMiddleware (sv_topology svc t) tq s) \<and>
    (permitted uni a pq \<longrightarrow> pathServiceClient call (NewPathServiceClient base) p req s =
      recoverMiddleware (sv_path svc p) pq s) \<and>
    (permitted uni a hq \<longrightarrow> historyServiceClient call (NewHistoryServiceClient base) h req s =
      recoverMiddleware (sv_history svc h) hq s) \<and>
    (permitted uni a cq \<longrightarrow> collectorServiceClient call (NewCollectorServiceClient base) c req s =
      recoverMiddleware (sv_collector svc c) cq s)"
  unfolding assms(3-8)
  by (intro conjI impI topology_rpc.client_served path_rpc.client_served history_rpc.client_served
      collector_rpc.client_served assms(1,2))

text \<open>A watch over a base URL that ends in two slashes, with readers allowed without a certificate.\<close>

definition echo :: "(call_kind \<times> string, unit, TopologyMethod \<times> call_kind \<times> string) Services" where
  "echo = \<lparr>sv_topology = (\<lambda>m r s. (s, Reply (m, rq_body r))), sv_path = (\<lambda>m r s. (s, Panicked)), sv_history = (\<lambda>m r s. (s, Panicked)),
     sv_collector = (\<lambda>m r s. (s, Panicked))\<rparr>"

theorem client_reaches_method_witness:
  "topologyServiceClient (connect_call (NewHandler (\<lambda>s. s) (Some \<lparr>au_mappings = [], au_insecure = False, au_anonymousReader = True\<rparr>)
       echo) None (\<lambda>kind req. (kind, req)))
     (NewTopologyServiceClient (server_url ''https'' ''127.0.0.1:7443'' 2)) WatchTopologyM ''q'' () =
   ((), Reply (WatchTopologyM, ServerStream, ''q''))"
proof -
  have "permitted (\<lambda>s. s) \<lparr>au_mappings = [], au_insecure = False, au_anonymousReader = True\<rparr>
      (rpc_request None (topology_procedure WatchTopologyM) (ServerStream, ''q''))"
    using reader_roles(1)[of WatchTopologyM] by (simp add: permitted_def rpc_request_def)
  moreover have "plain_host ''127.0.0.1:7443''" by (simp add: plain_host_def)
  ultimately show ?thesis
    using client_reaches_method[of "''127.0.0.1:7443''" "''https''" _ "\<lambda>s. s"
        "\<lparr>au_mappings = [], au_insecure = False, au_anonymousReader = True\<rparr>" echo None "\<lambda>kind req. (kind, req)" _ 2 _ WatchTopologyM "''q''"
        _ undefined _ undefined _ undefined "()",
        OF _ _ refl refl refl refl refl refl]
    by (simp add: recoverMiddleware_def rpc_request_def echo_def)
qed

end
