(* ===== verification/Ui_Files.thy ===== *)
theory Ui_Files
  imports Server_Theorems Accept_Theorems
begin

text \<open>
  The user interface of \<open>internal/ui\<close>: the files under \<open>static\<close>, which the build embeds and which are an
  argument, behind the file server of \<open>net/http\<close>. A request carries neither a method nor header fields
  here, so a file is served as a whole.
\<close>

section \<open>The embedded files\<close>

text \<open>The entries of \<open>fs.Sub(files, "static")\<close> by name; the name of the root is a dot.\<close>

datatype fs_entry = Directory | RegularFile string

type_synonym fs_tree = "string \<Rightarrow> fs_entry option"

definition proper_element :: "string \<Rightarrow> bool" where
  "proper_element e \<longleftrightarrow> e \<noteq> [] \<and> e \<noteq> ''.'' \<and> e \<noteq> ''..''"

definition ValidPath :: "string \<Rightarrow> bool" where
  "ValidPath name \<longleftrightarrow> utf8_valid name \<and> (name = ''.'' \<or> list_all proper_element (split_at (CHR ''/'') name))"

definition sub_open :: "fs_tree \<Rightarrow> string \<Rightarrow> fs_entry option" where
  "sub_open tree name = (if ValidPath name then tree name else None)"

text \<open>\<open>mapOpenError\<close> for a name that is not valid: a file on the way makes it a missing file.\<close>

fun map_open_error :: "fs_tree \<Rightarrow> string list \<Rightarrow> string list \<Rightarrow> int" where
  "map_open_error tree pre [] = 500"
| "map_open_error tree pre (x # xs) = (if x = [] then map_open_error tree (pre @ [x]) xs
     else case sub_open tree (join ''/'' (pre @ [x])) of None \<Rightarrow> 500
        | Some Directory \<Rightarrow> map_open_error tree (pre @ [x]) xs | Some (RegularFile c) \<Rightarrow> 404)"

text \<open>Opening a file through \<open>http.FS\<close>; an error is the status that \<open>toHTTPError\<close> makes of it.\<close>

definition http_open :: "fs_tree \<Rightarrow> string \<Rightarrow> int + fs_entry" where
  "http_open tree path = (let name = (if path = ''/'' then ''.'' else TrimPrefix path ''/'') in
     if ValidPath name then (case tree name of None \<Rightarrow> Inl 404 | Some e \<Rightarrow> Inr e)
     else Inl (map_open_error tree [] (split_at (CHR ''/'') name)))"

section \<open>The file server\<close>

datatype file_reply =
    FileBody string string string
  | DirList string string
  | LocalRedirect string string
  | FileError int

definition HasSuffix :: "string \<Rightarrow> string \<Rightarrow> bool" where
  "HasSuffix s suf = HasPrefix (rev s) (rev suf)"

definition TrimSuffix_slash :: "string \<Rightarrow> string" where
  "TrimSuffix_slash s = (if HasSuffix s ''/'' then butlast s else s)"

definition path_Base :: "string \<Rightarrow> string" where
  "path_Base p = (if p = [] then ''.'' else
     let q = rev (dropWhile (\<lambda>c. c = CHR ''/'') (rev p)) in if q = [] then ''/'' else last (split_at (CHR ''/'') q))"

text \<open>
  \<open>serveFile\<close> with the redirects to the one URL of a file or directory. An answer keeps the header
  \<open>Cache-Control\<close> that the handler has set; errors lose it.
\<close>

definition serveFile :: "fs_tree \<Rightarrow> string \<Rightarrow> string \<Rightarrow> string \<Rightarrow> file_reply" where
  "serveFile tree cache url name =
     (if HasSuffix url ''/index.html'' then LocalRedirect cache ''./''
      else case http_open tree name of Inl code \<Rightarrow> FileError code
      | Inr Directory \<Rightarrow> (if last url \<noteq> CHR ''/'' then LocalRedirect cache (path_Base url @ ''/'')
          else let index = TrimSuffix_slash name @ ''/index.html'' in
            case http_open tree index of Inr (RegularFile c) \<Rightarrow> FileBody cache index c
            | Inr Directory \<Rightarrow> DirList cache index | Inl e \<Rightarrow> DirList cache name)
      | Inr (RegularFile c) \<Rightarrow> (if last url = CHR ''/'' then
            (let base = path_Base url in if base = ''/'' \<or> base = ''.'' then FileError 500 else LocalRedirect cache (''../'' @ base))
          else FileBody cache name c))"

definition FileServer :: "fs_tree \<Rightarrow> string \<Rightarrow> string \<Rightarrow> file_reply" where
  "FileServer tree cache p = (let upath = (if HasPrefix p ''/'' then p else CHR ''/'' # p)
     in serveFile tree cache upath (path_Clean upath))"

section \<open>Clean paths\<close>

text \<open>The elements of a clean path.\<close>

definition proper_path :: "string list \<Rightarrow> bool" where
  "proper_path segs \<longleftrightarrow> (\<forall>x\<in>set segs. proper_element x \<and> CHR ''/'' \<notin> set x)"

lemma proper_path_simps [simp]:
  "proper_path []" "proper_path (x # xs) \<longleftrightarrow> proper_element x \<and> CHR ''/'' \<notin> set x \<and> proper_path xs"
  "proper_path (xs @ ys) \<longleftrightarrow> proper_path xs \<and> proper_path ys"
  by (auto simp: proper_path_def)

lemma split_at_plain: "x \<notin> set s \<Longrightarrow> split_at x s = [s]"
  by (induction s) auto

lemma split_at_ne [simp]: "split_at x s \<noteq> []"
  by (induction s) (auto split: list.split)

lemma split_at_app: "split_at x (a @ x # b) = split_at x a @ split_at x b"
  by (induction a) (auto split: list.split)

lemma join_Cons: "xs \<noteq> [] \<Longrightarrow> join sep (x # xs) = x @ sep @ join sep xs"
  by (cases xs) simp_all

lemma join_snoc: "xs \<noteq> [] \<Longrightarrow> join sep (xs @ [y]) = join sep xs @ sep @ y"
proof (induction xs)
  case (Cons x xs)
  then show ?case by (cases "xs = []") (simp_all add: join_Cons)
qed simp

lemma split_join: "segs \<noteq> [] \<Longrightarrow> proper_path segs \<Longrightarrow> split_at (CHR ''/'') (join ''/'' segs) = segs"
proof (induction segs)
  case (Cons x xs)
  then show ?case by (cases xs) (auto simp: split_at_plain split_at_app)
qed simp

lemma clean_proper: "proper_path segs \<Longrightarrow> clean_segments rooted segs out = rev out @ segs"
  by (induction segs arbitrary: out) (auto simp: proper_element_def)

lemma clean_segments_slash: "proper_path segs \<Longrightarrow> clean_segments rooted (segs @ [[]]) out = rev out @ segs"
  by (induction segs arbitrary: out) (auto simp: proper_element_def)

lemma path_Clean_proper:
  assumes "proper_path segs"
  shows "path_Clean (CHR ''/'' # join ''/'' segs) = CHR ''/'' # join ''/'' segs"
    and "segs \<noteq> [] \<Longrightarrow> path_Clean (CHR ''/'' # join ''/'' segs @ ''/'') = CHR ''/'' # join ''/'' segs"
proof -
  show "path_Clean (CHR ''/'' # join ''/'' segs) = CHR ''/'' # join ''/'' segs"
    using assms by (cases "segs = []") (simp_all add: path_Clean_def split_join clean_proper)
  show "path_Clean (CHR ''/'' # join ''/'' segs @ ''/'') = CHR ''/'' # join ''/'' segs" if "segs \<noteq> []"
    using assms that by (simp add: path_Clean_def split_at_app split_join clean_segments_slash)
qed

lemma last_join: "segs \<noteq> [] \<Longrightarrow> proper_path segs \<Longrightarrow> join ''/'' segs \<noteq> [] \<and> last (join ''/'' segs) \<noteq> CHR ''/''"
proof (induction segs rule: rev_induct)
  case (snoc x xs)
  then have "x \<noteq> []" "last x \<noteq> CHR ''/''" by (auto simp: proper_element_def) (metis last_in_set)
  then show ?case by (cases "xs = []") (simp_all add: join_snoc)
qed simp

lemma path_Base_proper:
  assumes "segs \<noteq> []" and "proper_path segs"
  shows "path_Base (CHR ''/'' # join ''/'' segs) = last segs" and "path_Base (CHR ''/'' # join ''/'' segs @ ''/'') = last segs"
proof -
  obtain xs x where j: "join ''/'' segs = xs @ [x]" "x \<noteq> CHR ''/''"
    using last_join[OF assms] by (metis append_butlast_last_id)
  have "last (split_at (CHR ''/'') (CHR ''/'' # xs @ [x])) = last segs"
    using split_join[OF assms] assms(1) unfolding j(1) by simp
  then show "path_Base (CHR ''/'' # join ''/'' segs) = last segs" "path_Base (CHR ''/'' # join ''/'' segs @ ''/'') = last segs"
    using j(2) unfolding path_Base_def Let_def j(1) by simp_all
qed

lemma HasSuffix_iff: "HasSuffix s suf \<longleftrightarrow> (\<exists>u. s = u @ suf)"
proof
  assume "HasSuffix s suf"
  then obtain r where "rev s = rev suf @ r" unfolding HasSuffix_def HasPrefix_iff by blast
  then have "s = rev r @ suf" by (metis rev_append rev_rev_ident)
  then show "\<exists>u. s = u @ suf" ..
qed (auto simp: HasSuffix_def HasPrefix_iff)

lemma index_suffix:
  assumes "segs \<noteq> []" and "proper_path segs"
  shows "HasSuffix (CHR ''/'' # join ''/'' segs) ''/index.html'' \<longleftrightarrow> last segs = ''index.html''"
proof
  assume "HasSuffix (CHR ''/'' # join ''/'' segs) ''/index.html''"
  then obtain u where u: "CHR ''/'' # join ''/'' segs = u @ CHR ''/'' # ''index.html''" by (auto simp only: HasSuffix_iff append.simps)
  have "last (split_at (CHR ''/'') (CHR ''/'' # join ''/'' segs)) = last segs" using split_join[OF assms] assms(1) by simp
  moreover have "last (split_at (CHR ''/'') (u @ CHR ''/'' # ''index.html'')) = ''index.html''"
    unfolding split_at_app by (simp add: split_at_plain)
  ultimately show "last segs = ''index.html''" unfolding u by simp
next
  assume l: "last segs = ''index.html''"
  then obtain xs where segs: "segs = xs @ [''index.html'']" using assms(1) by (metis append_butlast_last_id)
  have "CHR ''/'' # join ''/'' segs = (if xs = [] then [] else CHR ''/'' # join ''/'' xs) @ ''/index.html''"
    unfolding segs by (simp add: join_snoc)
  then show "HasSuffix (CHR ''/'' # join ''/'' segs) ''/index.html''" unfolding HasSuffix_iff by blast
qed

lemma no_index_suffix: "\<not> HasSuffix (s @ ''/'') ''/index.html''"
  by (simp add: HasSuffix_def)

section \<open>Requests to the user interface\<close>

definition entry_name :: "string list \<Rightarrow> string" where
  "entry_name segs = (if segs = [] then ''.'' else join ''/'' segs)"

definition url_name :: "string list \<Rightarrow> string" where
  "url_name segs = CHR ''/'' # join ''/'' segs"

text \<open>What the URL with these elements, with or without a slash at its end, is answered with.\<close>

definition ui_answer :: "fs_tree \<Rightarrow> string \<Rightarrow> string list \<Rightarrow> bool \<Rightarrow> file_reply" where
  "ui_answer tree cache segs slash = (let index = segs @ [''index.html''] in
     if segs \<noteq> [] \<and> \<not> slash \<and> last segs = ''index.html'' then LocalRedirect cache ''./''
     else case tree (entry_name segs) of None \<Rightarrow> FileError 404
     | Some (RegularFile c) \<Rightarrow> if slash then LocalRedirect cache (''../'' @ last segs) else FileBody cache (url_name segs) c
     | Some Directory \<Rightarrow> if segs \<noteq> [] \<and> \<not> slash then LocalRedirect cache (last segs @ ''/'')
         else case tree (entry_name index) of Some (RegularFile c) \<Rightarrow> FileBody cache (url_name index) c
            | Some Directory \<Rightarrow> DirList cache (url_name index) | None \<Rightarrow> DirList cache (url_name segs))"

lemma http_open_name:
  assumes "proper_path segs" and "ascii (join ''/'' segs)"
  shows "http_open tree (url_name segs) = (case tree (entry_name segs) of None \<Rightarrow> Inl 404 | Some e \<Rightarrow> Inr e)"
proof (cases "segs = []")
  case True
  then show ?thesis by (simp add: http_open_def url_name_def entry_name_def ValidPath_def utf8_ascii)
next
  case False
  have "ValidPath (join ''/'' segs)"
    using assms False by (auto simp: ValidPath_def split_join utf8_ascii list_all_iff proper_path_def)
  moreover have "join ''/'' segs \<noteq> []" using last_join[OF False assms(1)] by blast
  ultimately show ?thesis using False by (simp add: http_open_def url_name_def entry_name_def TrimPrefix_def)
qed

lemma index_path:
  assumes "proper_path segs"
  shows "TrimSuffix_slash (url_name segs) @ ''/index.html'' = url_name (segs @ [''index.html''])"
    and "proper_path (segs @ [''index.html''])" and "ascii (join ''/'' segs) \<Longrightarrow> ascii (join ''/'' (segs @ [''index.html'']))"
proof -
  have "HasSuffix (url_name segs) ''/'' \<longleftrightarrow> segs = []"
  proof (cases "segs = []")
    case False
    then obtain xs x where "join ''/'' segs = xs @ [x]" "x \<noteq> CHR ''/''" using last_join[OF False assms] by (metis append_butlast_last_id)
    then show ?thesis using False by (simp add: url_name_def HasSuffix_def)
  qed (simp add: url_name_def HasSuffix_def)
  then show "TrimSuffix_slash (url_name segs) @ ''/index.html'' = url_name (segs @ [''index.html''])"
    by (cases "segs = []") (simp_all add: TrimSuffix_slash_def url_name_def join_snoc)
  show "proper_path (segs @ [''index.html''])" using assms by (simp add: proper_element_def)
  show "ascii (join ''/'' segs) \<Longrightarrow> ascii (join ''/'' (segs @ [''index.html'']))" by (cases "segs = []") (simp_all add: join_snoc)
qed

lemma serveFile_name:
  assumes "proper_path segs" and "ascii (join ''/'' segs)" and "slash \<longrightarrow> segs \<noteq> []" and "tree ''.'' = Some Directory"
  shows "serveFile tree cache (url_name segs @ (if slash then ''/'' else [])) (url_name segs) = ui_answer tree cache segs slash"
proof -
  note idx = index_path[OF assms(1)]
  note opens = http_open_name[OF assms(1,2)] http_open_name[OF idx(2) idx(3)[OF assms(2)]]
  have lst: "last (url_name segs) = CHR ''/'' \<longleftrightarrow> segs = []"
    using last_join[OF _ assms(1)] by (cases "segs = []") (simp_all add: url_name_def)
  show ?thesis
  proof (cases "segs = []")
    case True
    then show ?thesis using opens idx(1) assms(3,4)
      by (auto simp: serveFile_def ui_answer_def Let_def lst entry_name_def HasSuffix_def url_name_def split: option.split fs_entry.split)
  next
    case False
    note base = path_Base_proper[OF False assms(1), folded url_name_def] and suf = index_suffix[OF False assms(1), folded url_name_def]
    have "proper_element (last segs)" using assms(1) False by (simp add: proper_path_def)
    moreover have "CHR ''/'' \<notin> set (last segs)" using assms(1) False by (simp add: proper_path_def)
    ultimately have "last segs \<noteq> ''/''" "last segs \<noteq> ''.''" by (auto simp: proper_element_def)
    then show ?thesis using opens idx(1) False base suf lst no_index_suffix[of "url_name segs"]
      by (cases slash) (auto simp: serveFile_def ui_answer_def Let_def url_name_def split: option.split fs_entry.split)
  qed
qed

lemma ui_match:
  assumes "path_segments p = ''ui'' # rest" and "rest \<noteq> []"
  shows "mux_match api_patterns p = Some (''/ui/'', 5)"
proof -
  have "pathUnescape ''ui'' = ''ui''" by (simp add: pathUnescape_def)
  moreover have "path_segments ''/bgpls.v1.TopologyService/'' = [''bgpls.v1.TopologyService'', []]"
    "path_segments ''/bgpls.v1.PathService/'' = [''bgpls.v1.PathService'', []]"
    "path_segments ''/bgpls.v1.HistoryService/'' = [''bgpls.v1.HistoryService'', []]"
    "path_segments ''/bgpls.v1.CollectorService/'' = [''bgpls.v1.CollectorService'', []]"
    "path_segments ''/healthz'' = [''healthz'']" "path_segments ''/ui/'' = [''ui'', []]" "path_segments ''/'' = [[]]"
    by (simp_all add: path_segments_def)
  moreover obtain y ys where "rest = y # ys" using assms(2) by (cases rest) auto
  ultimately show ?thesis using assms(1) by (simp add: api_patterns_def pattern_matches_def Let_def)
qed

definition ui_url :: "string list \<Rightarrow> bool \<Rightarrow> string" where
  "ui_url segs slash = ''/ui/'' @ join ''/'' segs @ (if slash then ''/'' else [])"

lemma ui_selects:
  assumes "proper_path segs" and "slash \<longrightarrow> segs \<noteq> []"
  shows "selects (ui_url segs slash) 5"
proof -
  let ?us = "''ui'' # segs" and ?closed = "slash \<or> segs = []"
  have us: "proper_path ?us" using assms(1) by (simp add: proper_element_def)
  have p: "ui_url segs slash = CHR ''/'' # join ''/'' ?us @ (if ?closed then ''/'' else [])"
    using assms(2) by (cases "segs = []"; cases slash) (simp_all add: ui_url_def join_Cons)
  have j: "join ''/'' ?us \<noteq> []" "last (join ''/'' ?us) \<noteq> CHR ''/''" using last_join[OF _ us] by simp_all
  have clean: "cleanPath (ui_url segs slash) = ui_url segs slash"
    using path_Clean_proper[OF us] j unfolding p by (simp add: cleanPath_def Let_def)
  have segs: "path_segments (ui_url segs slash) = ''ui'' # (segs @ (if ?closed then [[]] else []))"
    unfolding p path_segments_def using split_join[OF _ us] by (simp add: split_at_app)
  have match: "mux_match api_patterns (ui_url segs slash) = Some (''/ui/'', 5)" by (rule ui_match[OF segs]) simp
  have "\<not> exactMatch (mux_match api_patterns (ui_url segs slash @ ''/'')) (ui_url segs slash @ ''/'')" if "\<not> ?closed"
  proof -
    have more: "path_segments (ui_url segs slash @ ''/'') = ''ui'' # segs @ [[]]"
      using that split_join[OF _ us] unfolding p path_segments_def by (simp add: split_at_app)
    have "path_segments ''/ui/'' = [''ui'', []]" by (simp add: path_segments_def)
    then show ?thesis using ui_match[OF more] more that by (simp add: exactMatch_def)
  qed
  moreover have "last (ui_url segs slash) = CHR ''/''" if ?closed using that unfolding p by simp
  ultimately show ?thesis using clean match unfolding selects_def by (metis option.map(2) snd_conv)
qed

definition ui_cache :: "string list \<Rightarrow> bool \<Rightarrow> string" where
  "ui_cache segs slash = (if segs \<noteq> [] \<and> hd segs = ''vendor'' \<and> (slash \<or> tl segs \<noteq> [])
     then ''public, max-age=31536000, immutable'' else ''no-cache'')"

lemma vendor_prefix:
  assumes "CHR ''/'' \<notin> set x"
  shows "HasPrefix (x @ CHR ''/'' # w) ''vendor/'' \<longleftrightarrow> x = ''vendor''" and "\<not> HasPrefix x ''vendor/''"
proof -
  show "HasPrefix (x @ CHR ''/'' # w) ''vendor/'' \<longleftrightarrow> x = ''vendor''"
  proof
    assume "HasPrefix (x @ CHR ''/'' # w) ''vendor/''"
    then obtain z where z: "x @ CHR ''/'' # w = ''vendor'' @ CHR ''/'' # z" unfolding HasPrefix_iff by auto
    from split_at_slash[OF assms _ z] show "x = ''vendor''" by simp
  qed simp
  show "\<not> HasPrefix x ''vendor/''" using assms unfolding HasPrefix_iff by auto
qed

lemma ui_path_cases:
  assumes "proper_path segs" and "slash \<longrightarrow> segs \<noteq> []" and "p = join ''/'' segs @ (if slash then ''/'' else [])"
  shows "(p = [] \<and> segs = []) \<or> (\<exists>x. proper_element x \<and> CHR ''/'' \<notin> set x \<and> p = x \<and> segs = [x] \<and> \<not> slash) \<or>
    (\<exists>x xs w. proper_element x \<and> CHR ''/'' \<notin> set x \<and> p = x @ CHR ''/'' # w \<and> segs = x # xs \<and> (slash \<or> xs \<noteq> []))"
proof (cases segs)
  case Nil
  then show ?thesis using assms by (cases slash) auto
next
  case (Cons x xs)
  then show ?thesis using assms by (cases "xs = []"; cases slash) (auto simp: join_Cons)
qed

lemma ui_path_relative:
  assumes "proper_path segs" and "slash \<longrightarrow> segs \<noteq> []" and "p = join ''/'' segs @ (if slash then ''/'' else [])"
  shows "\<not> HasPrefix p (CHR ''/'' # rest)"
proof -
  have "p = [] \<or> hd p \<noteq> CHR ''/''"
    using ui_path_cases[OF assms] by (elim disjE exE conjE) (auto simp: proper_element_def hd_append dest: hd_in_set)
  then show ?thesis by (cases p) auto
qed

lemma ui_Handler_name:
  assumes "proper_path segs" and "slash \<longrightarrow> segs \<noteq> []" and "rq_path r = join ''/'' segs @ (if slash then ''/'' else [])"
  shows "ui_Handler r s = (s, StaticFile (ui_cache segs slash) (rq_path r))"
proof -
  have "HasPrefix (rq_path r) ''vendor/'' \<longleftrightarrow> segs \<noteq> [] \<and> hd segs = ''vendor'' \<and> (slash \<or> tl segs \<noteq> [])"
    using ui_path_cases[OF assms] by (elim disjE exE conjE) (simp_all add: vendor_prefix)
  moreover have "\<not> HasPrefix (rq_path r) ''/vendor/''" by (rule ui_path_relative[OF assms])
  ultimately show ?thesis by (simp add: ui_Handler_def ui_cache_def)
qed

section \<open>Any path\<close>

text \<open>
  What every answer keeps to: a file or a directory of the tree, named by proper elements, under the
  header that was set, a redirect, or one of two errors.
\<close>

definition inside :: "fs_tree \<Rightarrow> string \<Rightarrow> file_reply \<Rightarrow> bool" where
  "inside tree cache rep = (case rep of
     FileBody h name body \<Rightarrow> h = cache \<and> (\<exists>segs. proper_path segs \<and> name = url_name segs \<and> tree (entry_name segs) = Some (RegularFile body))
   | DirList h name \<Rightarrow> h = cache \<and> (\<exists>segs. proper_path segs \<and> name = url_name segs \<and> tree (entry_name segs) = Some Directory)
   | LocalRedirect h to \<Rightarrow> h = cache | FileError code \<Rightarrow> code = 404 \<or> code = 500)"

lemma split_at_elements: "x \<in> set (split_at c s) \<Longrightarrow> c \<notin> set x"
  by (induction s arbitrary: x) (auto split: if_splits list.splits)

lemma clean_segments_proper:
  "\<forall>x\<in>set segs. CHR ''/'' \<notin> set x \<Longrightarrow> proper_path out \<Longrightarrow> proper_path (clean_segments True segs out)"
proof (induction segs arbitrary: out)
  case Nil
  then show ?case by (simp add: proper_path_def)
next
  case (Cons x xs)
  have "proper_path (tl out)" using Cons.prems(2) by (cases out) simp_all
  then show ?case using Cons by (simp add: proper_element_def)
qed

lemma path_Clean_rooted: "\<exists>segs. proper_path segs \<and> path_Clean (CHR ''/'' # p) = url_name segs"
  using clean_segments_proper[of "split_at (CHR ''/'') (CHR ''/'' # p)" "[]"] split_at_elements
  by (fastforce simp: path_Clean_def url_name_def)

lemma http_open_found:
  assumes "proper_path segs" and "http_open tree (url_name segs) = Inr e"
  shows "tree (entry_name segs) = Some e"
proof (cases "segs = []")
  case True
  then show ?thesis using assms(2) by (simp add: http_open_def url_name_def entry_name_def Let_def split: if_splits option.splits)
next
  case False
  then show ?thesis
    using assms last_join[OF False assms(1)]
    by (simp add: http_open_def url_name_def entry_name_def TrimPrefix_def Let_def split: if_splits option.splits)
qed

lemma map_open_error_codes: "map_open_error tree pre xs = 404 \<or> map_open_error tree pre xs = 500"
  by (induction xs arbitrary: pre) (auto split: option.splits fs_entry.splits)

lemma http_open_codes: "http_open tree name = Inl code \<Longrightarrow> code = 404 \<or> code = 500"
proof -
  assume "http_open tree name = Inl code"
  then obtain xs where "code = 404 \<or> code = map_open_error tree [] xs"
    by (auto simp: http_open_def Let_def simp del: map_open_error.simps split: if_splits option.splits)
  then show ?thesis using map_open_error_codes[of tree "[]" xs] by auto
qed

lemma serveFile_inside:
  assumes "proper_path segs"
  shows "inside tree cache (serveFile tree cache url (url_name segs))"
proof -
  note idx = index_path[OF assms]
  have found: "\<exists>ss. proper_path ss \<and> url_name segs = url_name ss \<and> tree (entry_name ss) = Some e"
    if "http_open tree (url_name segs) = Inr e" for e
    using http_open_found[OF assms that] assms by blast
  have found_index: "\<exists>ss. proper_path ss \<and> url_name (segs @ [''index.html'']) = url_name ss \<and> tree (entry_name ss) = Some e"
    if "http_open tree (url_name (segs @ [''index.html''])) = Inr e" for e
    using http_open_found[OF idx(2) that] idx(2) by blast
  show ?thesis
    unfolding serveFile_def inside_def Let_def idx(1)
    by (auto split: sum.split fs_entry.split dest: http_open_codes intro: found found_index)
qed

lemma FileServer_inside: "inside tree cache (FileServer tree cache p)"
proof -
  obtain q where q: "(if HasPrefix p ''/'' then p else CHR ''/'' # p) = CHR ''/'' # q" by (cases "HasPrefix p ''/''") (auto simp: HasPrefix_iff)
  obtain segs where "proper_path segs" "path_Clean (CHR ''/'' # q) = url_name segs" using path_Clean_rooted by blast
  then show ?thesis using serveFile_inside unfolding FileServer_def q Let_def by simp
qed

lemma ui_served:
  assumes "permitted uni a r" and "selects (rq_escaped_path r) 5" and "HasPrefix (rq_path r) ''/ui/''"
    and "rq_raw_path r = [] \<or> HasPrefix (rq_raw_path r) ''/ui/''" and "p = TrimPrefix (rq_path r) ''/ui/''"
  shows "NewHandler uni (Some a) svc r s = (s, StaticFile
    (if HasPrefix p ''vendor/'' \<or> HasPrefix p ''/vendor/'' then ''public, max-age=31536000, immutable'' else ''no-cache'') p)"
proof -
  have "api_mux svc r s = StripPrefix ''/ui/'' ui_Handler r s"
    using mux_selects[OF assms(2), of svc s] by (simp add: api_handlers_def)
  then show ?thesis
    using assms by (simp add: NewHandler_def recoverMiddleware_def Middleware_served StripPrefix_def ui_Handler_def)
qed

text \<open>
  C40. The user interface serves its files and nothing else: a permitted request that the multiplexer gives to
  it, with whatever path, is answered with a file or the list of a directory of the embedded tree, with a
  redirect, or with the status 404 or 500; no path leads out of the tree. The header lets a cache keep
  what was asked for with a path that begins with \<open>vendor\<close>, which need not be a file below that
  directory. For a clean path of ASCII characters without escapes the answer is the file of that name, the
  index file of a directory or the list of one that has none, a redirect to the one URL of what the path
  names, or the status 404, and only what lies below \<open>vendor\<close> may be kept.
\<close>

theorem ui_serves_files:
  assumes "permitted uni a r"
  shows "(selects (rq_escaped_path r) 5 \<and> HasPrefix (rq_path r) ''/ui/'' \<and> (rq_raw_path r = [] \<or> HasPrefix (rq_raw_path r) ''/ui/'') \<longrightarrow>
      (let p = TrimPrefix (rq_path r) ''/ui/'';
           cache = (if HasPrefix p ''vendor/'' \<or> HasPrefix p ''/vendor/'' then ''public, max-age=31536000, immutable'' else ''no-cache'')
       in NewHandler uni (Some a) svc r s = (s, StaticFile cache p) \<and> inside tree cache (FileServer tree cache p))) \<and>
    (proper_path segs \<and> ascii (join ''/'' segs) \<and> (slash \<longrightarrow> segs \<noteq> []) \<and>
      rq_path r = ui_url segs slash \<and> rq_escaped_path r = rq_path r \<and> rq_raw_path r = [] \<and> tree ''.'' = Some Directory \<longrightarrow>
      (\<exists>p. NewHandler uni (Some a) svc r s = (s, StaticFile (ui_cache segs slash) p) \<and>
        FileServer tree (ui_cache segs slash) p = ui_answer tree (ui_cache segs slash) segs slash))"
proof (intro conjI impI)
  assume "selects (rq_escaped_path r) 5 \<and> HasPrefix (rq_path r) ''/ui/'' \<and> (rq_raw_path r = [] \<or> HasPrefix (rq_raw_path r) ''/ui/'')"
  then show "let p = TrimPrefix (rq_path r) ''/ui/'';
           cache = (if HasPrefix p ''vendor/'' \<or> HasPrefix p ''/vendor/'' then ''public, max-age=31536000, immutable'' else ''no-cache'')
       in NewHandler uni (Some a) svc r s = (s, StaticFile cache p) \<and> inside tree cache (FileServer tree cache p)"
    using ui_served[OF assms _ _ _ refl, of svc s] FileServer_inside unfolding Let_def by blast
next
  let ?p = "join ''/'' segs @ (if slash then ''/'' else [])" and ?c = "ui_cache segs slash"
  assume clean: "proper_path segs \<and> ascii (join ''/'' segs) \<and> (slash \<longrightarrow> segs \<noteq> []) \<and>
      rq_path r = ui_url segs slash \<and> rq_escaped_path r = rq_path r \<and> rq_raw_path r = [] \<and> tree ''.'' = Some Directory"
  then have ok: "proper_path segs" "ascii (join ''/'' segs)" "slash \<longrightarrow> segs \<noteq> []" "tree ''.'' = Some Directory" by blast+
  have "HasPrefix (rq_path r) ''/ui/''" "TrimPrefix (rq_path r) ''/ui/'' = ?p" using clean by (simp_all add: ui_url_def TrimPrefix_def)
  then have handled: "NewHandler uni (Some a) svc r s = (s, StaticFile ?c ?p)"
    using ui_served[OF assms, of ?p svc s] ui_selects[OF ok(1,3)] ui_Handler_name[OF ok(1,3), of "r\<lparr>rq_path := ?p\<rparr>" s] clean
    by (simp add: ui_Handler_def)
  have "\<not> HasPrefix ?p ''/''" by (rule ui_path_relative[OF ok(1,3) refl])
  moreover have "CHR ''/'' # ?p = url_name segs @ (if slash then ''/'' else [])" by (simp add: url_name_def)
  moreover have "path_Clean (CHR ''/'' # ?p) = url_name segs" using path_Clean_proper[OF ok(1)] ok(3) by (simp add: url_name_def)
  ultimately have "FileServer tree ?c ?p = ui_answer tree ?c segs slash"
    using serveFile_name[where tree = tree and slash = slash and cache = ?c, OF ok] by (simp only: FileServer_def Let_def if_False)
  then show "\<exists>p. NewHandler uni (Some a) svc r s = (s, StaticFile ?c p) \<and> FileServer tree ?c p = ui_answer tree ?c segs slash"
    using handled by (intro exI[of _ ?p] conjI)
qed

text \<open>
  The header is chosen by the path before the file server cleans it: an escaped parent element leads out
  of \<open>vendor\<close>, and a file that changes with every release is served as one that never does.
\<close>

theorem ui_cache_escapes:
  assumes "tree ''app.js'' = Some (RegularFile body)"
  shows "selects ''/ui/vendor/%2e%2e/app.js'' 5 \<and> pathUnescape ''/ui/vendor/%2e%2e/app.js'' = ''/ui/vendor/../app.js'' \<and>
    ui_Handler (r\<lparr>rq_path := ''vendor/../app.js''\<rparr>) s = (s, StaticFile ''public, max-age=31536000, immutable'' ''vendor/../app.js'') \<and>
    FileServer tree ''public, max-age=31536000, immutable'' ''vendor/../app.js'' =
      FileBody ''public, max-age=31536000, immutable'' ''/app.js'' body"
proof -
  have "path_Clean ''/vendor/../app.js'' = ''/app.js''" "ValidPath ''app.js''" "\<not> HasSuffix ''/vendor/../app.js'' ''/index.html''"
    by code_simp+
  moreover have "selects ''/ui/vendor/%2e%2e/app.js'' 5" "pathUnescape ''/ui/vendor/%2e%2e/app.js'' = ''/ui/vendor/../app.js''"
    by code_simp+
  ultimately show ?thesis
    using assms by (simp add: ui_Handler_def FileServer_def serveFile_def http_open_def TrimPrefix_def)
qed

text \<open>The files of the repository, with short contents.\<close>

definition sample_tree :: fs_tree where
  "sample_tree = map_of [(''.'', Directory), (''index.html'', RegularFile ''i''), (''app.js'', RegularFile ''a''),
     (''style.css'', RegularFile ''s''), (''vendor'', Directory), (''vendor/cytoscape.min.js'', RegularFile ''c'')]"

theorem ui_serves_files_witness:
  "\<exists>p. NewHandler id (Some sample_authorizer) sample_services (sample_request (ui_url [''vendor'', ''cytoscape.min.js''] False)) (domain_store, ()) =
     ((domain_store, ()), StaticFile ''public, max-age=31536000, immutable'' p) \<and>
   FileServer sample_tree ''public, max-age=31536000, immutable'' p =
     FileBody ''public, max-age=31536000, immutable'' ''/vendor/cytoscape.min.js'' ''c''"
proof -
  let ?segs = "[''vendor'', ''cytoscape.min.js'']"
  have "request_role id sample_authorizer (sample_request (ui_url ?segs False)) = Inr RoleAdmin" by code_simp
  from request_role_permitted[OF this] have perm: "permitted id sample_authorizer (sample_request (ui_url ?segs False))"
    using Role_le_Admin(1) by (simp add: not_less)
  have ok: "proper_path ?segs" "ascii (join ''/'' ?segs)" by (simp_all add: proper_element_def)
  have answer: "ui_cache ?segs False = ''public, max-age=31536000, immutable''"
    "ui_answer sample_tree ''public, max-age=31536000, immutable'' ?segs False =
      FileBody ''public, max-age=31536000, immutable'' ''/vendor/cytoscape.min.js'' ''c''" by code_simp+
  have req: "rq_path (sample_request p) = p" "rq_escaped_path (sample_request p) = p" "rq_raw_path (sample_request p) = []" for p
    by (simp_all add: sample_request_def)
  show ?thesis
    using ui_serves_files[OF perm, of sample_services "(domain_store, ())" sample_tree ?segs False] ok
    unfolding answer req by (simp add: sample_tree_def)
qed

end
