(* ===== verification/Serve_Theorems.thy ===== *)
theory Serve_Theorems
  imports Serve Server_Theorems
begin

text \<open>
  The properties of the configuration and of the process that runs on it: validation, loading,
  bootstrap and reload.
\<close>

section \<open>A valid configuration\<close>

text \<open>What a valid configuration promises.\<close>

definition peer_config_ok :: "string list \<Rightarrow> Peer_Config \<Rightarrow> bool" where
  "peer_config_ok domains p \<longleftrightarrow> pc_id p \<noteq> [] \<and> pc_domain_id p \<in> set domains \<and> ParseIP (pc_remote_address p) \<noteq> None \<and>
     pc_local_as p \<noteq> 0 \<and> pc_remote_as p \<noteq> 0"

definition listens_on_loopback :: "string \<Rightarrow> bool" where
  "listens_on_loopback addr \<longleftrightarrow> (\<exists>host port. SplitHostPort addr = Inr (host, port) \<and>
     (host = ''localhost'' \<or> (\<exists>ip. ParseIP host = Some ip \<and> IsLoopback ip)))"

definition config_ok :: "Config \<Rightarrow> bool" where
  "config_ok c \<longleftrightarrow> cf_data_dir c \<noteq> [] \<and> (\<exists>hp. SplitHostPort (ap_listen (cf_api c)) = Inr hp) \<and>
     (ap_ui_listen (cf_api c) \<noteq> [] \<longrightarrow> (\<exists>hp. SplitHostPort (ap_ui_listen (cf_api c)) = Inr hp)) \<and>
     (if tl_development_insecure (ap_tls (cf_api c)) then listens_on_loopback (ap_listen (cf_api c))
      else tl_certificate (ap_tls (cf_api c)) \<noteq> [] \<and> tl_private_key (ap_tls (cf_api c)) \<noteq> [] \<and>
        tl_client_cas (ap_tls (cf_api c)) \<noteq> []) \<and>
     0 < rt_duration (cf_retention c) \<and> rt_max_bytes (cf_retention c) \<noteq> 0 \<and>
     distinct (map dc_id (cf_domains c)) \<and> list_all (\<lambda>d. dc_id d \<noteq> []) (cf_domains c) \<and>
     distinct (map pc_id (cf_peers c)) \<and> list_all (peer_config_ok (map dc_id (cf_domains c))) (cf_peers c)"

lemma opt_err_Nil [simp]: "opt_err bad msg = [] \<longleftrightarrow> \<not> bad"
  by (simp add: opt_err_def)

lemma listen_errs_Nil: "listen_errs field addr = [] \<longleftrightarrow> (\<exists>hp. SplitHostPort addr = Inr hp)"
  by (simp add: listen_errs_def split: sum.split)

lemma domain_errs_Nil:
  "domain_errs q ds seen = [] \<longleftrightarrow> distinct (map dc_id ds) \<and> (\<forall>d \<in> set ds. dc_id d \<noteq> [] \<and> dc_id d \<notin> set seen)"
  by (induction ds arbitrary: seen) (auto, metis imageI)

lemma peer_errs_Nil:
  "peer_errs q domains ps seen = [] \<longleftrightarrow> distinct (map pc_id ps) \<and>
     (\<forall>p \<in> set ps. peer_config_ok domains p \<and> pc_id p \<notin> set seen)"
  by (induction ps arbitrary: seen) (auto simp: peer_config_ok_def, metis imageI)

lemma tls_errs_Nil:
  assumes "SplitHostPort listen = Inr hp"
  shows "tls_errs listen t = [] \<longleftrightarrow> (if tl_development_insecure t then listens_on_loopback listen
    else tl_certificate t \<noteq> [] \<and> tl_private_key t \<noteq> [] \<and> tl_client_cas t \<noteq> [])"
  using assms by (cases hp) (auto simp: tls_errs_def listens_on_loopback_def Let_def split: option.splits)

lemma Validate_Nil: "Validate q c = [] \<longleftrightarrow> config_ok c"
proof (cases "SplitHostPort (ap_listen (cf_api c))")
  case (Inl e)
  then show ?thesis by (simp add: Validate_def config_ok_def listen_errs_def)
next
  case (Inr hp)
  then show ?thesis
    by (auto simp: Validate_def config_ok_def listen_errs_Nil tls_errs_Nil[OF Inr] domain_errs_Nil peer_errs_Nil list_all_iff
        split: if_splits)
qed

section \<open>Loading\<close>

text \<open>
  C32. Validation is complete: \<open>Validate\<close> reports no error exactly for the configurations that keep
  every promise above; in particular an API without TLS listens on loopback only, and every peer
  belongs to a configured domain.
\<close>

theorem Validate_exact: "errors_Join (Validate q c) = None \<longleftrightarrow> config_ok c"
  by (simp add: errors_Join_def Validate_Nil)

lemma HasPrefix_slash: "HasPrefix p ''/'' \<longleftrightarrow> p \<noteq> [] \<and> hd p = CHR ''/''"
  by (cases p) auto

lemma IsAbs_Clean: "IsAbs p \<Longrightarrow> IsAbs (path_Clean p)"
  by (simp add: IsAbs_def path_Clean_def)

lemma IsAbs_Join: "IsAbs d \<Longrightarrow> IsAbs (filepath_Join [d, p])"
proof -
  assume d: "IsAbs d"
  then have "d \<noteq> []" "IsAbs (join ''/'' [d, p])" by (cases d; auto simp: IsAbs_def HasPrefix_slash)+
  then show ?thesis by (simp add: filepath_Join_def IsAbs_Clean)
qed

lemma IsAbs_Abs: "IsAbs d \<Longrightarrow> filepath_Abs (Inr d) p = Inr b \<Longrightarrow> IsAbs b"
  by (auto simp: filepath_Abs_def IsAbs_Clean IsAbs_Join split: if_splits)

text \<open>
  A configuration that \<open>Load\<close> returns without an error is valid, its data directory is an
  absolute path, and its retention is the parsed duration where the file gives one.
\<close>

theorem Load_valid:
  assumes "Load q fraction read_file unyaml (Inr dir) path = Inr (cfg, None)" and "IsAbs dir"
  shows "config_ok cfg \<and> IsAbs (cf_data_dir cfg) \<and>
    (rt_duration_text (cf_retention cfg) \<noteq> [] \<longrightarrow>
      ParseDuration fraction (rt_duration_text (cf_retention cfg)) = Some (rt_duration (cf_retention cfg)))"
proof -
  obtain base where base: "filepath_Abs (Inr dir) (filepath_Dir path) = Inr base"
    by (cases "IsAbs (filepath_Dir path)") (auto simp: filepath_Abs_def)
  have abs: "IsAbs (filepath_Join [base, p])" for p using IsAbs_Join IsAbs_Abs[OF assms(2) base] by blast
  have "errors_Join (Validate q cfg) = None"
    using assms(1) by (auto simp: Load_def Let_def split: sum.splits if_splits)
  moreover have "IsAbs (cf_data_dir cfg)"
    using assms(1) abs base by (auto simp: Load_def Let_def split: sum.splits if_splits)
  moreover have "rt_duration_text (cf_retention cfg) \<noteq> [] \<longrightarrow>
      ParseDuration fraction (rt_duration_text (cf_retention cfg)) = Some (rt_duration (cf_retention cfg))"
    using assms(1) by (auto simp: Load_def Let_def split: sum.splits if_splits option.splits)
  ultimately show ?thesis by (simp add: errors_Join_def Validate_Nil split: if_splits)
qed

section \<open>What the bootstrap stores\<close>

lemma apply_all_effect:
  assumes laws: "pebble_laws P cont"
    and "\<forall>m \<in> set ms. \<not> mu_delete m \<and> (\<exists>v. mu_value m = Some v \<and> kind_of v = mu_kind m)"
    and "distinct (map (\<lambda>m. (mu_kind m, mu_id m)) ms)" and "apply_all P clk k ms s = (s', None)"
  shows "(\<forall>m \<in> set ms. \<exists>r now. Get s' (mu_kind m) (mu_id m) = Inr (setRevision r now (the (mu_value m)))) \<and>
    (\<forall>kd i. (kd, i) \<notin> (\<lambda>m. (mu_kind m, mu_id m)) ` set ms \<longrightarrow> Get s' kd i = Get s kd i)"
  using assms(2-4)
proof (induction ms arbitrary: k s)
  case (Cons m ms)
  obtain s1 v res where app: "Apply P (fst (clk k)) (snd (clk k)) m s = (s1, v, res)" by (metis prod.collapse)
  then obtain ev where res: "res = Inr ev" and rest: "apply_all P clk (Suc k) ms s1 = (s', None)"
    using Cons.prems(3) by (cases res) auto
  have val: "\<forall>w. mu_value m = Some w \<longrightarrow> mu_delete m \<or> kind_of w = mu_kind m" "\<not> mu_delete m"
    using Cons.prems(1) by auto
  have one: "Get s1 (mu_kind m) (mu_id m) = Inr (setRevision (st_revision s1) (snd (clk k)) (the (mu_value m)))"
    "\<And>kd i. (kd, i) \<noteq> (mu_kind m, mu_id m) \<Longrightarrow> Get s1 kd i = Get s kd i"
    using Apply_effect[OF laws val(1) app] res val(2) by auto
  have fresh: "(mu_kind m, mu_id m) \<notin> (\<lambda>m. (mu_kind m, mu_id m)) ` set ms" using Cons.prems(2) by simp
  have IH: "(\<forall>m \<in> set ms. \<exists>r now. Get s' (mu_kind m) (mu_id m) = Inr (setRevision r now (the (mu_value m)))) \<and>
      (\<forall>kd i. (kd, i) \<notin> (\<lambda>m. (mu_kind m, mu_id m)) ` set ms \<longrightarrow> Get s' kd i = Get s1 kd i)"
    by (rule Cons.IH[OF _ _ rest]) (use Cons.prems(1,2) in auto)
  have "Get s' (mu_kind m) (mu_id m) = Get s1 (mu_kind m) (mu_id m)" using IH fresh by blast
  then have "\<exists>r now. Get s' (mu_kind m) (mu_id m) = Inr (setRevision r now (the (mu_value m)))" using one(1) by auto
  then show ?case using IH one(2) by auto
qed simp

definition boot_mutations :: "Config \<Rightarrow> Mutation list" where
  "boot_mutations cfg = map domain_mutation (cf_domains cfg) @ map bootstrap_peer_mutation (cf_peers cfg)"

lemma boot_mutations_ok:
  "\<forall>m \<in> set (boot_mutations cfg). \<not> mu_delete m \<and> (\<exists>v. mu_value m = Some v \<and> kind_of v = mu_kind m)"
  by (auto simp: boot_mutations_def domain_mutation_def bootstrap_peer_mutation_def)

lemma boot_keys:
  "map (\<lambda>m. (mu_kind m, mu_id m)) (boot_mutations cfg) =
     map (Pair ENTITY_KIND_UNSPECIFIED) (map dc_id (cf_domains cfg)) @ map (Pair ENTITY_KIND_PEER) (map pc_id (cf_peers cfg))"
  by (simp add: boot_mutations_def domain_mutation_def bootstrap_peer_mutation_def Peer_Proto_def comp_def)

text \<open>
  C33. What a bootstrap stores: when it ends without an error on an empty store, the domains and
  peers of a valid configuration are stored with the revision of their write, every configured peer
  belongs to a stored domain, and the store has no other entity: every one that is found, of any kind, is
  a configured domain or peer.
\<close>

theorem bootstrap_complete:
  assumes "pebble_laws P cont" and "config_ok cfg" and "st_revision s = 0" and "st_memory s = empty_memory"
    and "bootstrap P clk cfg s = (s', None)"
  shows "(\<forall>d \<in> set (cf_domains cfg). \<exists>r. Get s' ENTITY_KIND_UNSPECIFIED (dc_id d) = Inr (DomainE ((Domain_Proto d)\<lparr>dm_revision := r\<rparr>))) \<and>
    (\<forall>p \<in> set (cf_peers cfg). (\<exists>r. entry s' (pc_id p) = Some ((Peer_Proto p)\<lparr>pr_resource_version := r\<rparr>)) \<and>
       (\<exists>d. Get s' ENTITY_KIND_UNSPECIFIED (pc_domain_id p) = Inr (DomainE d))) \<and>
    (\<forall>kd i v. Get s' kd i = Inr v \<longrightarrow> kd = ENTITY_KIND_UNSPECIFIED \<and> i \<in> dc_id ` set (cf_domains cfg) \<or>
       kd = ENTITY_KIND_PEER \<and> i \<in> pc_id ` set (cf_peers cfg))"
proof -
  have run: "apply_all P clk 0 (boot_mutations cfg) s = (s', None)"
    using assms(3,5) by (simp add: bootstrap_def Store_Revision_def boot_mutations_def)
  have "distinct (map (\<lambda>m. (mu_kind m, mu_id m)) (boot_mutations cfg))"
    unfolding boot_keys using assms(2) by (auto simp: config_ok_def distinct_map inj_on_def)
  note eff = apply_all_effect[OF assms(1) boot_mutations_ok this run]
  have dom: "\<exists>r. Get s' ENTITY_KIND_UNSPECIFIED (dc_id d) = Inr (DomainE ((Domain_Proto d)\<lparr>dm_revision := r\<rparr>))"
    if "d \<in> set (cf_domains cfg)" for d
  proof -
    have "domain_mutation d \<in> set (boot_mutations cfg)" using that by (simp add: boot_mutations_def)
    from bspec[OF conjunct1[OF eff] this] show ?thesis by (auto simp: domain_mutation_def)
  qed
  have peer: "\<exists>r. entry s' (pc_id p) = Some ((Peer_Proto p)\<lparr>pr_resource_version := r\<rparr>)" if "p \<in> set (cf_peers cfg)" for p
  proof -
    have "bootstrap_peer_mutation p \<in> set (boot_mutations cfg)" using that by (simp add: boot_mutations_def)
    from bspec[OF conjunct1[OF eff] this] obtain r now where
      "Get s' ENTITY_KIND_PEER (pc_id p) = Inr (setRevision r now (PeerE (Peer_Proto p)))"
      by (auto simp: bootstrap_peer_mutation_def Peer_Proto_def)
    then show ?thesis by (auto simp: Get_peer_eq split: option.splits)
  qed
  have member: "\<exists>d \<in> set (cf_domains cfg). pc_domain_id p = dc_id d" if "p \<in> set (cf_peers cfg)" for p
    using assms(2) that by (auto simp: config_ok_def list_all_iff peer_config_ok_def)
  have other: "kd = ENTITY_KIND_UNSPECIFIED \<and> i \<in> dc_id ` set (cf_domains cfg) \<or> kd = ENTITY_KIND_PEER \<and> i \<in> pc_id ` set (cf_peers cfg)"
    if found: "Get s' kd i = Inr v" for kd i v
  proof (rule ccontr)
    assume "\<not> ?thesis"
    then have "(kd, i) \<notin> set (map (\<lambda>m. (mu_kind m, mu_id m)) (boot_mutations cfg))" unfolding boot_keys by auto
    then have "Get s' kd i = Get s kd i" using eff by simp
    moreover have "\<forall>v. Get s kd i \<noteq> Inr v" using assms(4) by (cases kd) (simp_all add: Get_def empty_memory_def found_def)
    ultimately show False using found by metis
  qed
  have "(\<forall>p \<in> set (cf_peers cfg). (\<exists>r. entry s' (pc_id p) = Some ((Peer_Proto p)\<lparr>pr_resource_version := r\<rparr>)) \<and>
       (\<exists>d. Get s' ENTITY_KIND_UNSPECIFIED (pc_domain_id p) = Inr (DomainE d)))"
    using dom peer member by metis
  then show ?thesis using dom other by blast
qed

definition sample_peer_config :: Peer_Config where
  "sample_peer_config = \<lparr>pc_id = ''x'', pc_domain_id = ''d'', pc_name = ''one'', pc_remote_address = ''192.0.2.1'',
     pc_local_address = [], pc_local_as = 65001, pc_remote_as = 65002, pc_source_preference = 0, pc_enabled = None,
     pc_passive = False, pc_ebgp_multihop = False, pc_multihop_ttl = 0, pc_gtsm = False, pc_tcp_md5_secret = []\<rparr>"

definition sample_config :: "Peer_Config list \<Rightarrow> Config" where
  "sample_config ps = Default\<lparr>cf_api := (cf_api Default)\<lparr>ap_tls := (ap_tls (cf_api Default))\<lparr>tl_development_insecure := True\<rparr>\<rparr>,
     cf_domains := [\<lparr>dc_id = ''d'', dc_name = ''lab'', dc_description = []\<rparr>], cf_peers := ps\<rparr>"

lemma sample_config_ok: "config_ok (sample_config [sample_peer_config])"
proof -
  have "Validate id (sample_config [sample_peer_config]) = []" by code_simp
  then show ?thesis by (simp only: Validate_Nil)
qed

theorem Load_valid_witness:
  "\<exists>cfg. Load id (\<lambda>d u. 0) (\<lambda>f. Inr []) (\<lambda>text c. Inr (sample_config [])) (Inr ''/srv'') ''etc/bgpls.yaml'' = Inr (cfg, None) \<and>
     config_ok cfg \<and> cf_data_dir cfg = ''/srv/etc/data''"
proof -
  let ?run = "Load id (\<lambda>d u. 0) (\<lambda>f. Inr []) (\<lambda>text c. Inr (sample_config [])) (Inr ''/srv'') ''etc/bgpls.yaml''"
  define cfg where "cfg = fst (projr ?run)"
  have "\<not> isl ?run" "snd (projr ?run) = None" by code_simp+
  then have run: "?run = Inr (cfg, None)" unfolding cfg_def by (cases ?run) (auto simp: prod_eq_iff)
  have "IsAbs ''/srv''" "cf_data_dir cfg = ''/srv/etc/data''" unfolding cfg_def by code_simp+
  with Load_valid[OF run] run show ?thesis by blast
qed

theorem bootstrap_complete_witness:
  "\<exists>s' r. bootstrap memory_pebble sample_clock (sample_config [sample_peer_config]) fresh_store = (s', None) \<and>
     entry s' ''x'' = Some ((Peer_Proto sample_peer_config)\<lparr>pr_resource_version := r\<rparr>)"
proof -
  let ?run = "bootstrap memory_pebble sample_clock (sample_config [sample_peer_config]) fresh_store"
  have "snd ?run = None" by code_simp
  then have run: "?run = (fst ?run, None)" by (simp add: prod_eq_iff)
  have peers: "cf_peers (sample_config [sample_peer_config]) = [sample_peer_config]" "pc_id sample_peer_config = ''x''"
    "st_revision fresh_store = 0" "st_memory fresh_store = empty_memory"
    by (simp_all add: sample_config_def sample_peer_config_def fresh_store_def)
  from bootstrap_complete[OF memory_pebble_laws(1) sample_config_ok peers(3,4) run] run show ?thesis
    unfolding peers(1) by (auto simp: peers(2))
qed

text \<open>
  A bootstrap is not atomic and is not resumed: when it is interrupted after the first write, the
  store has a revision, the next start opens it and takes it for initialized, and the rest of the
  configuration is never stored.
\<close>

theorem bootstrap_not_resumed:
  "case bootstrap memory_pebble (\<lambda>k. (if k = 0 then None else Some (New ''context canceled''), 10))
      (sample_config [sample_peer_config]) fresh_store of
     (s1, err) \<Rightarrow> err \<noteq> None \<and> (case Open memory_pebble (Inr (st_db s1)) of Inl e \<Rightarrow> False
       | Inr s2 \<Rightarrow> (case bootstrap memory_pebble sample_clock (sample_config [sample_peer_config]) s2 of
          (s3, err3) \<Rightarrow> err3 = None \<and> st_revision s3 = 1 \<and> entry s3 ''x'' = None))"
  by code_simp

text \<open>
  The configuration file accepts peers that the API refuses: one with both GTSM and multihop, or
  with a local address that is no address, passes \<open>Validate\<close> and is bootstrapped, and then neither an
  update nor an import of the exported configuration accepts it.
\<close>

theorem bootstrap_unimportable:
  "case bootstrap memory_pebble sample_clock
      (sample_config [sample_peer_config\<lparr>pc_gtsm := True, pc_ebgp_multihop := True, pc_multihop_ttl := 5\<rparr>]) fresh_store of
     (s, err) \<Rightarrow> err = None \<and>
       config_ok (sample_config [sample_peer_config\<lparr>pc_gtsm := True, pc_ebgp_multihop := True, pc_multihop_ttl := 5\<rparr>]) \<and>
       isl (import_check (Store_Snapshot id s) (map (Some \<circ> redactPeer) (sn_peers (Store_Snapshot id s))))"
  unfolding Validate_Nil[of id, symmetric] by code_simp

section \<open>Reload and retention\<close>

text \<open>
  A reload with a bad configuration or bad certificates changes nothing; a good one takes over the
  new mappings, and it never changes whether the server accepts requests without TLS.
\<close>

theorem reload_safe:
  "reload X q loaded (tls, a) = (tls, a) \<or>
   (\<exists>cfg nextTLS. loaded = Inr (cfg, None) \<and> TLSConfig X q (ap_tls (cf_api cfg)) = Inr nextTLS \<and>
      reload X q loaded (tls, a) = (nextTLS, (api_authorizer cfg)\<lparr>au_insecure := au_insecure a\<rparr>) \<and>
      tc_min_version nextTLS = VersionTLS13 \<and>
      (tc_client_auth nextTLS = RequireAndVerifyClientCert \<longleftrightarrow> \<not> au_anonymousReader (api_authorizer cfg)))"
proof (cases "\<exists>cfg nextTLS. loaded = Inr (cfg, None) \<and> TLSConfig X q (ap_tls (cf_api cfg)) = Inr nextTLS")
  case True
  then obtain cfg nextTLS where l: "loaded = Inr (cfg, None)" and t: "TLSConfig X q (ap_tls (cf_api cfg)) = Inr nextTLS"
    by blast
  have "reload X q loaded (tls, a) = (nextTLS, (api_authorizer cfg)\<lparr>au_insecure := au_insecure a\<rparr>)"
    by (simp add: reload_def l t Reload_def api_authorizer_def NewAuthorizer_def)
  moreover have "tc_min_version nextTLS = VersionTLS13"
    "tc_client_auth nextTLS = RequireAndVerifyClientCert \<longleftrightarrow> \<not> au_anonymousReader (api_authorizer cfg)"
    using t by (auto simp: TLSConfig_def api_authorizer_def NewAuthorizer_def split: sum.splits)
  ultimately show ?thesis using l t by blast
next
  case False
  then show ?thesis by (auto simp: reload_def split: sum.split option.split)
qed

lemma retention_tick_step: "store_step P s (retention_tick P ctx now r s)"
  unfolding retention_tick_def by (metis compact_step live prod.collapse)

end
