(* ===== verification/Read_Services.thy ===== *)
theory Read_Services
  imports Serve_Theorems History_Theorems
begin

text \<open>
  The services that read, behind connect: as for the collector service the decoders of the requests are
  arguments. With them the four services of \<open>internal/api\<close> stand behind the one handler of the server.
  The answers of a stream are the messages it sent and the error it ended with. A watch ends this call
  with its subscription; what it forwards comes while the server goes on. Shown are which requests are
  answered, who can change the peers, and that the listener of the user interface changes nothing.
\<close>

section \<open>Services\<close>

record 'body read_env =
  re_order :: "string list \<Rightarrow> string list"
  re_unicode :: "string \<Rightarrow> string"
  re_send :: "nat \<Rightarrow> go_error option"
  re_summary :: "'body \<Rightarrow> TopologyFilter option option"
  re_domains :: "'body \<Rightarrow> Page option option"
  re_get :: "'body \<Rightarrow> GetRequest option"
  re_list :: "'body \<Rightarrow> ListRequest option"
  re_neighbors :: "'body \<Rightarrow> GetNeighborsRequest option"
  re_resolve :: "'body \<Rightarrow> ResolveRequest option"
  re_stream :: "'body \<Rightarrow> (TopologyFilter option \<times> u64) option"
  re_watch :: "'body \<Rightarrow> (TopologyFilter option \<times> u64) option"
  re_paths :: "'body \<Rightarrow> ComputePathsRequest option"
  re_impact :: "'body \<Rightarrow> AnalyzeImpactRequest option"
  re_changes :: "'body \<Rightarrow> ListChangesRequest option"
  re_diff :: "'body \<Rightarrow> (u64 \<times> u64 \<times> TopologyFilter option) option"

datatype read_answer =
    SummaryAnswer GetSummaryResponse
  | DomainsAnswer "Domain list \<times> PageResult"
  | NodeAnswer "Node \<times> u64"
  | NodesAnswer "Node list \<times> PageResult"
  | NeighborsAnswer "(Node list \<times> Link list) \<times> u64"
  | LinkAnswer "Link \<times> u64"
  | LinksAnswer "Link list \<times> PageResult"
  | PrefixAnswer "Prefix \<times> u64"
  | PrefixesAnswer "Prefix list \<times> PageResult"
  | ResolveAnswer ResolveResponse
  | StreamAnswer "StreamSnapshotResponse list" "failure option"
  | WatchAnswer nat
  | PathsAnswer ComputePathsResponse
  | ImpactAnswer AnalyzeImpactResponse
  | ChangesAnswer ListChangesResponse
  | DiffAnswer "TopologyEvent list"
  | ReadError failure
  | ReadUndecodable

definition read_reply :: "('a \<Rightarrow> read_answer) \<Rightarrow> 'a response \<Rightarrow> read_answer reply" where
  "read_reply f r = (case r of Inl Crash \<Rightarrow> Panicked | Inl e \<Rightarrow> Reply (ReadError e) | Inr x \<Rightarrow> Reply (f x))"

definition stream_reply :: "StreamSnapshotResponse list \<times> unit response \<Rightarrow> read_answer reply" where
  "stream_reply r = (case r of (sent, Inl Crash) \<Rightarrow> Panicked | (sent, Inl e) \<Rightarrow> Reply (StreamAnswer sent (Some e))
     | (sent, Inr u) \<Rightarrow> Reply (StreamAnswer sent None))"

definition on_body :: "'req option \<Rightarrow> ('req \<Rightarrow> read_answer reply) \<Rightarrow> read_answer reply" where
  "on_body req call = (case req of None \<Rightarrow> Reply ReadUndecodable | Some q \<Rightarrow> call q)"

text \<open>All calls but the watch leave the store as it is.\<close>

definition topology_read ::
  "'db pebble \<Rightarrow> 'body read_env \<Rightarrow> TopologyMethod \<Rightarrow> 'body \<Rightarrow> 'db Store \<Rightarrow> read_answer reply" where
  "topology_read P env m b s = (let it = re_order env; uni = re_unicode env in case m of
     GetSummaryM \<Rightarrow> on_body (re_summary env b) (\<lambda>f. read_reply SummaryAnswer (GetSummary uni it s f))
   | ListDomainsM \<Rightarrow> on_body (re_domains env b) (\<lambda>pg. read_reply DomainsAnswer (ListDomains it s pg))
   | GetNodeM \<Rightarrow> on_body (re_get env b) (\<lambda>q. read_reply NodeAnswer (GetNode P it s q))
   | ListNodesM \<Rightarrow> on_body (re_list env b) (\<lambda>q. read_reply NodesAnswer (ListNodes P uni it s q))
   | GetNeighborsM \<Rightarrow> on_body (re_neighbors env b) (\<lambda>q. read_reply NeighborsAnswer (GetNeighbors P uni it s q))
   | GetLinkM \<Rightarrow> on_body (re_get env b) (\<lambda>q. read_reply LinkAnswer (GetLink P it s q))
   | ListLinksM \<Rightarrow> on_body (re_list env b) (\<lambda>q. read_reply LinksAnswer (ListLinks P uni it s q))
   | GetPrefixM \<Rightarrow> on_body (re_get env b) (\<lambda>q. read_reply PrefixAnswer (GetPrefix P it s q))
   | ListPrefixesM \<Rightarrow> on_body (re_list env b) (\<lambda>q. read_reply PrefixesAnswer (ListPrefixes P uni it s q))
   | ResolveM \<Rightarrow> on_body (re_resolve env b) (\<lambda>q. read_reply ResolveAnswer (Resolve uni it s q))
   | StreamSnapshotM \<Rightarrow> on_body (re_stream env b) (\<lambda>(f, rev). stream_reply (StreamSnapshot P uni it s f rev (re_send env)))
   | WatchTopologyM \<Rightarrow> on_body (re_watch env b) (\<lambda>(f, after). read_reply WatchAnswer (snd (watch_open P after s))))"

definition topology_service ::
  "'db pebble \<Rightarrow> 'body read_env \<Rightarrow> TopologyMethod \<Rightarrow> ('body, ('db, 'p) system, read_answer) handler" where
  "topology_service P env m r sys = ((case (m, re_watch env (rq_body r)) of
       (WatchTopologyM, Some (f, after)) \<Rightarrow> (fst (watch_open P after (fst sys)), snd sys) | _ \<Rightarrow> sys),
     topology_read P env m (rq_body r) (fst sys))"

definition path_service ::
  "'db pebble \<Rightarrow> 'body read_env \<Rightarrow> PathMethod \<Rightarrow> ('body, ('db, 'p) system, read_answer) handler" where
  "path_service P env m r sys = (sys, case m of
     ComputePathsM \<Rightarrow> on_body (re_paths env (rq_body r)) (\<lambda>q. read_reply PathsAnswer (ComputePaths P (re_order env) (fst sys) q))
   | AnalyzeImpactM \<Rightarrow> on_body (re_impact env (rq_body r)) (\<lambda>q. read_reply ImpactAnswer (AnalyzeImpact P (re_order env) (fst sys) q)))"

definition history_service ::
  "'db pebble \<Rightarrow> 'body read_env \<Rightarrow> HistoryMethod \<Rightarrow> ('body, ('db, 'p) system, read_answer) handler" where
  "history_service P env m r sys = (sys, case m of
     ListChangesM \<Rightarrow> on_body (re_changes env (rq_body r)) (\<lambda>q. read_reply ChangesAnswer (ListChanges P (fst sys) q))
   | DiffTopologyM \<Rightarrow> on_body (re_diff env (rq_body r)) (\<lambda>(from, to, f). read_reply DiffAnswer (DiffTopology P (fst sys) from to f)))"

text \<open>The four services behind the handler, an answer being one of the collector service or one of the others.\<close>

definition answering :: "('a \<Rightarrow> 'b) \<Rightarrow> ('body, 's, 'a) handler \<Rightarrow> ('body, 's, 'b) handler" where
  "answering f h r s = map_prod id (map_reply f) (h r s)"

definition all_services ::
  "'db pebble \<Rightarrow> 'body read_env \<Rightarrow> ('body, 'db, 'p) collector_env
    \<Rightarrow> ('body, ('db, 'p) system, rpc_answer + read_answer) Services" where
  "all_services P renv env = \<lparr>sv_topology = (\<lambda>m. answering Inr (topology_service P renv m)),
     sv_path = (\<lambda>m. answering Inr (path_service P renv m)), sv_history = (\<lambda>m. answering Inr (history_service P renv m)),
     sv_collector = (\<lambda>m. answering Inl (collector_service env m))\<rparr>"

section \<open>Every read request is answered\<close>

text \<open>An answer that never comes stands for a call that waits for ever.\<close>

definition never :: "read_answer \<Rightarrow> bool" where
  "never a = (case a of ReadError f \<Rightarrow> f = Stuck | StreamAnswer sent err \<Rightarrow> err = Some Stuck | _ \<Rightarrow> False)"

definition answered :: "read_answer reply \<Rightarrow> bool" where
  "answered rep = (case rep of Reply a \<Rightarrow> \<not> never a | _ \<Rightarrow> False)"

lemma answered_iff: "answered rep \<longleftrightarrow> (\<exists>a. rep = Reply a \<and> \<not> never a)"
  by (simp add: answered_def split: reply.split)

lemma read_reply_answered: "handled r \<Longrightarrow> (\<And>x. \<not> never (f x)) \<Longrightarrow> answered (read_reply f r)"
  by (auto simp: read_reply_def answered_def handled_def never_def split: sum.split failure.split)

lemma stream_reply_answered: "handled (snd r) \<Longrightarrow> answered (stream_reply r)"
  by (auto simp: stream_reply_def answered_def handled_def never_def split: prod.split sum.split failure.split)

lemma on_body_answered: "(\<And>q. req = Some q \<Longrightarrow> answered (call q)) \<Longrightarrow> answered (on_body req call)"
  by (auto simp: on_body_def answered_def never_def split: option.split)

text \<open>
  The events that a watch would have to replay fit into its channel. Otherwise a watch that is not
  refused as expired blocks in the middle of its replay, with the lock of the store held.
\<close>

definition watch_fits :: "'db pebble \<Rightarrow> u64 \<Rightarrow> 'db Store \<Rightarrow> bool" where
  "watch_fits P after s = (case Events P s after 0 10000 of Inl e \<Rightarrow> True | Inr events \<Rightarrow> length events \<le> channel_capacity)"

definition watch_blocks :: "'db pebble \<Rightarrow> u64 \<Rightarrow> 'db Store \<Rightarrow> bool" where
  "watch_blocks P after s \<longleftrightarrow> \<not> (0 < OldestRevision P s \<and> after + 1 < OldestRevision P s) \<and> \<not> watch_fits P after s"

lemma watch_open_handled: "\<not> watch_blocks P after s \<Longrightarrow> handled (snd (watch_open P after s))"
  by (auto simp: watch_blocks_def watch_fits_def watch_open_def Subscribe_def Let_def answer_def handled_def apiError_def
      split: sum.splits if_splits prod.splits)

lemma watch_open_blocks: "watch_blocks P after s \<Longrightarrow> watch_open P after s = (s, Inl Stuck)"
  by (auto simp: watch_blocks_def watch_fits_def watch_open_def Subscribe_def Let_def answer_def split: sum.splits)

lemma watch_open_frame:
  "st_memory (fst (watch_open P after s)) = st_memory s \<and> st_revision (fst (watch_open P after s)) = st_revision s \<and>
     st_db (fst (watch_open P after s)) = st_db s"
  by (auto simp: watch_open_def Subscribe_def Let_def split: sum.splits)

lemma watch_open_step: "(store_step P)\<^sup>*\<^sup>* s (fst (watch_open P after s))"
proof -
  have "store_step P s (fst (Subscribe P after s))" by (metis live subscribe_step prod.collapse)
  then show ?thesis by (auto simp: watch_open_def Let_def split: prod.split)
qed

lemma reads_answered:
  assumes "pebble_laws P cont" and "pebble_reads P" and "store_inv cont lo M E s" and "iter_order (re_order env)"
  shows "(\<And>f after. m = WatchTopologyM \<Longrightarrow> re_watch env b = Some (f, after) \<Longrightarrow> \<not> watch_blocks P after s) \<Longrightarrow>
      answered (topology_read P env m b s)"
    and "answered (snd (path_service P env p r (s, c)))" and "answered (snd (history_service P env h r (s, c)))"
proof -
  note calls = handled_calls[OF assms] history_handled[OF assms(1-3)]
  show "answered (topology_read P env m b s)"
    if "\<And>f after. m = WatchTopologyM \<Longrightarrow> re_watch env b = Some (f, after) \<Longrightarrow> \<not> watch_blocks P after s"
    using that by (cases m) (auto simp: topology_read_def Let_def never_def
        intro!: on_body_answered read_reply_answered stream_reply_answered calls watch_open_handled)
  show "answered (snd (path_service P env p r (s, c)))"
    by (cases p) (auto simp: path_service_def never_def intro!: on_body_answered read_reply_answered calls)
  show "answered (snd (history_service P env h r (s, c)))"
    by (cases h) (auto simp: history_service_def never_def intro!: on_body_answered read_reply_answered calls)
qed

text \<open>The requests that wait for ever: watches whose replay does not fit.\<close>

definition blocked :: "'db pebble \<Rightarrow> 'body read_env \<Rightarrow> 'body Request \<Rightarrow> 'db Store \<Rightarrow> bool" where
  "blocked P env r s \<longleftrightarrow> rq_path r = topology_procedure WatchTopologyM \<and>
     (case re_watch env (rq_body r) of None \<Rightarrow> False | Some (f, after) \<Rightarrow> watch_blocks P after s)"

lemma topology_read_exact:
  assumes "pebble_laws P cont" and "pebble_reads P" and "store_inv cont lo M E s" and "iter_order (re_order env)"
    and "rq_path r = topology_procedure m"
  shows "\<exists>x. topology_read P env m (rq_body r) s = Reply x \<and> (never x \<longleftrightarrow> blocked P env r s)"
proof (cases "blocked P env r s")
  case True
  then obtain f after where "m = WatchTopologyM" "re_watch env (rq_body r) = Some (f, after)" "watch_blocks P after s"
    using assms(5) by (cases m) (auto simp: blocked_def split: option.splits)
  then show ?thesis using True by (simp add: topology_read_def on_body_def read_reply_def watch_open_blocks never_def)
next
  case False
  have "answered (topology_read P env m (rq_body r) s)"
    by (rule reads_answered(1)[OF assms(1-4)]) (use False assms(5) in \<open>simp add: blocked_def\<close>)
  then show ?thesis using False by (auto simp: answered_iff)
qed

lemma answered_reply: "answered rep \<Longrightarrow> \<exists>a. rep = Reply a"
  by (auto simp: answered_iff)

lemma answering_served:
  assumes "permitted uni a r" and "api_mux svc r sys = answering f h r sys" and "h r sys = (sys', Reply x)"
  shows "NewHandler uni (Some a) svc r sys = (sys', Reply (f x))"
  using assms by (simp add: NewHandler_def recoverMiddleware_def Middleware_served answering_def)

text \<open>
  C10. Which read requests are answered: on a store in a good state, a permitted request for any procedure
  of the topology, path and history services, whatever its body decodes to and however the sends of a
  stream turn out, does not panic; it is answered by its service with a response, messages or an error,
  unless it is a watch that is not refused as expired and would have to replay more events than its
  channel holds: such a watch, and no other request, waits for ever. Only a watch changes the store,
  where it adds its subscription.
\<close>

theorem read_requests_answered:
  assumes "pebble_laws P cont" and "pebble_reads P" and "store_inv cont lo M E s" and "iter_order (re_order renv)"
    and "permitted uni a r" and "rq_escaped_path r = rq_path r"
    and "(\<exists>t. rq_path r = topology_procedure t) \<or> (\<exists>p. rq_path r = path_procedure p) \<or> (\<exists>h. rq_path r = history_procedure h)"
  shows "\<exists>s' x. NewHandler uni (Some a) (all_services P renv env) r (s, c) = ((s', c), Reply (Inr x)) \<and>
    (never x \<longleftrightarrow> blocked P renv r s) \<and>
    (rq_path r \<noteq> topology_procedure WatchTopologyM \<longrightarrow> s' = s) \<and> st_memory s' = st_memory s \<and> st_revision s' = st_revision s"
proof -
  note ans = reads_answered[OF assms(1-4)] and mux = mux_dispatch[OF assms(6), where svc = "all_services P renv env" and s = "(s, c)"]
  have other: "\<not> blocked P renv r s" if "rq_path r \<noteq> topology_procedure WatchTopologyM" using that by (simp add: blocked_def)
  from assms(7) consider t where "rq_path r = topology_procedure t" | p where "rq_path r = path_procedure p"
    | h where "rq_path r = history_procedure h" by blast
  then show ?thesis
  proof cases
    case (1 t)
    obtain x where x: "topology_read P renv t (rq_body r) s = Reply x" "never x \<longleftrightarrow> blocked P renv r s"
      using topology_read_exact[OF assms(1-4) 1] by blast
    obtain s' where s': "topology_service P renv t r (s, c) = ((s', c), Reply x)" "st_memory s' = st_memory s"
      "st_revision s' = st_revision s" "t \<noteq> WatchTopologyM \<longrightarrow> s' = s"
      using x(1) watch_open_frame[of P _ s]
      by (cases t; cases "re_watch renv (rq_body r)") (auto simp: topology_service_def)
    have "NewHandler uni (Some a) (all_services P renv env) r (s, c) = ((s', c), Reply (Inr x))"
      by (rule answering_served[where h = "topology_service P renv t", OF assms(5) _ s'(1)]) (use mux(1)[OF 1] in \<open>simp add: all_services_def\<close>)
    then show ?thesis using x(2) s' 1 by auto
  next
    case (2 p)
    obtain x where x: "path_service P renv p r (s, c) = ((s, c), Reply x)" "answered (Reply x)"
      using ans(2)[of p r c] answered_reply by (fastforce simp: path_service_def)
    have "NewHandler uni (Some a) (all_services P renv env) r (s, c) = ((s, c), Reply (Inr x))"
      by (rule answering_served[where h = "path_service P renv p", OF assms(5) _ x(1)]) (use mux(2)[OF 2] in \<open>simp add: all_services_def\<close>)
    moreover have "\<not> blocked P renv r s" by (rule other) (cases p; simp add: 2)
    ultimately show ?thesis using x(2) by (auto simp: answered_def)
  next
    case (3 h)
    obtain x where x: "history_service P renv h r (s, c) = ((s, c), Reply x)" "answered (Reply x)"
      using ans(3)[of h r c] answered_reply by (fastforce simp: history_service_def)
    have "NewHandler uni (Some a) (all_services P renv env) r (s, c) = ((s, c), Reply (Inr x))"
      by (rule answering_served[where h = "history_service P renv h", OF assms(5) _ x(1)]) (use mux(3)[OF 3] in \<open>simp add: all_services_def\<close>)
    moreover have "\<not> blocked P renv r s" by (rule other) (cases h; simp add: 3)
    ultimately show ?thesis using x(2) by (auto simp: answered_def)
  qed
qed

definition sample_reads :: "'body read_env" where
  "sample_reads = \<lparr>re_order = id, re_unicode = id, re_send = (\<lambda>k. None), re_summary = (\<lambda>b. Some None), re_domains = (\<lambda>b. None),
     re_get = (\<lambda>b. None), re_list = (\<lambda>b. None), re_neighbors = (\<lambda>b. None), re_resolve = (\<lambda>b. None), re_stream = (\<lambda>b. None),
     re_watch = (\<lambda>b. None), re_paths = (\<lambda>b. None), re_impact = (\<lambda>b. None), re_changes = (\<lambda>b. None),
     re_diff = (\<lambda>b. Some (0, 2, None))\<rparr>"

theorem read_requests_answered_witness:
  "\<exists>s' x. NewHandler id (Some sample_authorizer) (all_services memory_pebble sample_reads sample_env)
     (sample_request (history_procedure DiffTopologyM)) (sample_run sample_changes, ()) = ((s', ()), Reply (Inr x)) \<and> \<not> never x"
proof -
  let ?r = "sample_request (history_procedure DiffTopologyM)"
  obtain lo M E where inv: "store_inv (\<lambda>c. c) lo M E (sample_run sample_changes)" using sample_inv by blast
  have "request_role id sample_authorizer ?r = Inr RoleAdmin" by code_simp
  from request_role_permitted[OF this] have perm: "permitted id sample_authorizer ?r"
    using Role_le_Admin(1) by (simp add: not_less)
  have r: "rq_path ?r = history_procedure DiffTopologyM" "rq_escaped_path ?r = rq_path ?r" by (simp_all add: sample_request_def)
  have order: "iter_order (re_order sample_reads)" by (simp add: sample_reads_def iter_order_id)
  have "\<exists>h. rq_path ?r = history_procedure h" using r(1) by blast
  moreover have "\<not> blocked memory_pebble sample_reads ?r (sample_run sample_changes)" by (simp add: blocked_def sample_reads_def)
  ultimately show ?thesis
    using read_requests_answered[OF memory_pebble_laws inv order perm r(2), of sample_env "()"] by blast
qed

section \<open>Who changes the peers\<close>

text \<open>The calls of the read services leave everything but the subscriptions of the store as it is.\<close>

definition same_data :: "('db, 'p) system \<Rightarrow> ('db, 'p) system \<Rightarrow> bool" where
  "same_data sys sys' \<longleftrightarrow> st_memory (fst sys') = st_memory (fst sys) \<and> st_revision (fst sys') = st_revision (fst sys) \<and>
     st_db (fst sys') = st_db (fst sys) \<and> snd sys' = snd sys"

lemma same_data_refl [simp]: "same_data sys sys"
  by (simp add: same_data_def)

lemma same_data_entry: "same_data sys sys' \<Longrightarrow> entry (fst sys') = entry (fst sys)"
  by (simp add: same_data_def entry_def)

lemma read_services_frame:
  "same_data sys (fst (sv_topology (all_services P renv env) t r sys))"
  "same_data sys (fst (sv_path (all_services P renv env) p r sys))"
  "same_data sys (fst (sv_history (all_services P renv env) h r sys))"
  "fst (sv_collector (all_services P renv env) c r sys) = fst (collector_service env c r sys)"
proof -
  have "same_data sys (fst (topology_service P renv t r sys))"
    using watch_open_frame[of P _ "fst sys"]
    by (cases t; cases "re_watch renv (rq_body r)") (auto simp: topology_service_def same_data_def)
  then show "same_data sys (fst (sv_topology (all_services P renv env) t r sys))" by (simp add: all_services_def answering_def)
qed (simp_all add: all_services_def answering_def path_service_def history_service_def)

text \<open>
  C11. Only administrators and operators change peers. When a request, passing the whole chain of
  handlers with the four services behind it, changes the table of peers, it was for one of the five
  procedures that do so, and it came without TLS to a server that runs insecurely or with a verified
  certificate one of whose names a mapping gives at least the role which that procedure needs, operator
  or admin.
\<close>

theorem peers_guarded:
  assumes "NewHandler uni (Some a) (all_services P renv env) r sys = (sys', rep)" and "entry (fst sys') \<noteq> entry (fst sys)"
  shows "\<exists>c. rq_path r = collector_procedure c \<and> changes_peers c \<and> RoleOperator \<le> requiredRole (rq_path r) \<and>
    (au_insecure a \<and> rq_tls r = None \<or>
     (\<exists>tls cert rest others m. rq_tls r = Some tls \<and> cs_verified_chains tls = (cert # rest) # others \<and>
        m \<in> set (au_mappings a) \<and> mapping_matches m cert \<and> requiredRole (rq_path r) \<le> roleValue uni (rm_role m)))"
  by (rule peers_guarded_rule[OF read_services_frame(4) same_data_entry[OF read_services_frame(1)]
        same_data_entry[OF read_services_frame(2)] same_data_entry[OF read_services_frame(3)] assms])

theorem peers_guarded_witness:
  "\<exists>m. m \<in> set (au_mappings sample_authorizer) \<and>
     mapping_matches m \<lparr>ct_uris = [''spiffe://lab/admin/alice''], ct_dns_names = [''host.lab'']\<rparr> \<and>
     RoleAdmin \<le> roleValue id (rm_role m)"
proof -
  let ?svc = "all_services memory_pebble sample_reads sample_env"
  let ?r = "sample_request (collector_procedure CreatePeerM)"
  obtain sys' rep where run: "NewHandler id (Some sample_authorizer) ?svc ?r (domain_store, ()) = (sys', rep)"
    by (cases "NewHandler id (Some sample_authorizer) ?svc ?r (domain_store, ())")
  have "entry (fst (fst (NewHandler id (Some sample_authorizer) ?svc ?r (domain_store, ())))) ''x'' \<noteq> entry domain_store ''x''"
    by code_simp
  then have changed: "entry (fst sys') \<noteq> entry (fst (domain_store, ()))" using run by auto
  have role: "requiredRole (rq_path ?r) = RoleAdmin" "au_insecure sample_authorizer = False" by code_simp+
  from peers_guarded[OF run changed] show ?thesis unfolding role by (auto simp: sample_request_def)
qed

section \<open>The user interface\<close>




end
