(* ===== verification/Process.thy ===== *)
theory Process
  imports Serve Bgp_Collector
begin

text \<open>
  The server process of \<open>cmd/bgpls/main.go\<close>, from the configuration to the listeners: what \<open>serve\<close>
  does before it waits. The operating system, the certificates, GoBGP and the database are arguments.
\<close>

record 'db os =
  os_mkdir :: "string \<Rightarrow> go_error option"
  os_open_db :: "string \<Rightarrow> go_error + 'db"
  os_listen :: "string \<Rightarrow> go_error option"

text \<open>
  A running process: its configuration, store and collector, the authorizers of the API and of the user
  interface, and the TLS settings of the API, which has none in development mode.
\<close>

record ('db, 'e, 'cert, 'pool) Running =
  rn_cfg :: Config
  rn_store :: "'db Store"
  rn_collector :: "'e Collector"
  rn_authorizer :: Authorizer
  rn_ui :: "Authorizer option"
  rn_tls :: "('cert, 'pool) tls_config option"

definition start_listeners ::
  "('cert, 'pool) x509 \<Rightarrow> (string \<Rightarrow> string) \<Rightarrow> 'db os \<Rightarrow> Config \<Rightarrow> 'db Store \<Rightarrow> 'e Collector
    \<Rightarrow> fault + ('db, 'e, 'cert, 'pool) Running" where
  "start_listeners X q os cfg s c =
     (let run = \<lparr>rn_cfg = cfg, rn_store = s, rn_collector = c, rn_authorizer = api_authorizer cfg,
            rn_ui = (if ap_ui_listen (cf_api cfg) \<noteq> [] then Some (ui_authorizer cfg) else None), rn_tls = None\<rparr>
      in if tl_development_insecure (ap_tls (cf_api cfg)) then Inr run
         else case TLSConfig X q (ap_tls (cf_api cfg)) of Inl e \<Rightarrow> Inl (Error e)
         | Inr tls \<Rightarrow> (case os_listen os (ap_listen (cf_api cfg)) of Some e \<Rightarrow> Inl (Error e)
            | None \<Rightarrow> Inr (run\<lparr>rn_tls := Some tls\<rparr>)))"

text \<open>
  The first component is the store as it is on disk when \<open>serve\<close> gives up or goes on to wait.
\<close>

definition serve ::
  "'db pebble \<Rightarrow> 'e engine \<Rightarrow> ('cert, 'pool) x509 \<Rightarrow> (string \<Rightarrow> string) \<Rightarrow> 'db os \<Rightarrow> (string list \<Rightarrow> string list) \<Rightarrow> clock
    \<Rightarrow> go_error + Config \<times> go_error option \<Rightarrow> 'db Store option \<times> (fault + ('db, 'e, 'cert, 'pool) Running)" where
  "serve P E X q os it clk loaded = (case loaded of
     Inl e \<Rightarrow> (None, Inl (Error e))
   | Inr (cfg, Some e) \<Rightarrow> (None, Inl (Error e))
   | Inr (cfg, None) \<Rightarrow> (case os_mkdir os (cf_data_dir cfg) of Some e \<Rightarrow> (None, Inl (Error e))
   | None \<Rightarrow> (case Open P (os_open_db os (filepath_Join [cf_data_dir cfg, ''topology''])) of Inl e \<Rightarrow> (None, Inl (Error e))
   | Inr s0 \<Rightarrow> (case bootstrap P clk cfg s0 of (s, Some f) \<Rightarrow> (Some s, Inl f)
   | (s, None) \<Rightarrow> (case Start E (sn_peers (Store_Snapshot it s)) (New_Collector (cf_bgp cfg)) of
        (c, Inl f) \<Rightarrow> (Some s, Inl f)
      | (c, Inr u) \<Rightarrow> (Some s, start_listeners X q os cfg s c))))))"

text \<open>How \<open>serve\<close> ends: by a signal, with the error of the shutdown, or with the error of a listener.\<close>

datatype serve_end = Signalled "go_error option" | ListenerFailed go_error bool

fun serve_error :: "serve_end \<Rightarrow> go_error option" where
  "serve_error (Signalled shutdown_error) = shutdown_error"
| "serve_error (ListenerFailed e server_closed) = (if server_closed then None else Some e)"

end
