(* ===== verification/Process_Theorems.thy ===== *)
theory Process_Theorems
  imports Process Serve_Theorems Bgp_Theorems
begin

text \<open>
  The process as a whole: what holds once it serves, and that a restart brings the same peers back.
\<close>

lemma apply_all_steps:
  "\<forall>m\<in>set ms. mutation_ok m \<Longrightarrow> unat (st_revision s) + length ms < 2 ^ 64 \<Longrightarrow> apply_all P clk k ms s = (s', err) \<Longrightarrow>
     pebble_laws P cont \<Longrightarrow> (store_step P)\<^sup>*\<^sup>* s s'"
proof (induction ms arbitrary: k s)
  case (Cons m ms)
  obtain s1 v res where app: "Apply P (fst (clk k)) (snd (clk k)) m s = (s1, v, res)" by (metis prod.collapse)
  have step: "store_step P s s1" using apply_step[OF app] Cons.prems(1,2) by (auto intro: live)
  show ?case
  proof (cases res)
    case (Inl f)
    then show ?thesis using Cons.prems(3) app step by auto
  next
    case (Inr ev)
    have "unat (st_revision s1) \<le> Suc (unat (st_revision s))" using Apply_revision[OF app] Cons.prems(2) by simp
    then have "(store_step P)\<^sup>*\<^sup>* s1 s'"
      using Cons.IH[of s1 "Suc k"] Cons.prems app Inr by auto
    then show ?thesis using step by (meson converse_rtranclp_into_rtranclp)
  qed
qed simp

lemma bootstrap_steps:
  assumes "\<forall>m\<in>set (boot_mutations cfg). mutation_ok m" and "length (boot_mutations cfg) < 2 ^ 64"
    and "bootstrap P clk cfg s = (s', err)" and "pebble_laws P cont"
  shows "(store_step P)\<^sup>*\<^sup>* s s'"
  using apply_all_steps[OF assms(1) _ _ assms(4), of s clk 0 s' err] assms(2,3)
  by (auto simp: bootstrap_def boot_mutations_def Store_Revision_def split: if_splits)

lemma serve_Inr:
  assumes "serve P E X q os it clk loaded = (st, Inr run)"
  shows "\<exists>cfg s0 s c. loaded = Inr (cfg, None) \<and> Open P (os_open_db os (filepath_Join [cf_data_dir cfg, ''topology''])) = Inr s0 \<and>
    bootstrap P clk cfg s0 = (s, None) \<and> Start E (sn_peers (Store_Snapshot it s)) (New_Collector (cf_bgp cfg)) = (c, Inr ()) \<and>
    start_listeners X q os cfg s c = Inr run \<and> st = Some s"
  using assms by (auto simp: serve_def split: sum.splits prod.splits option.splits)

lemma start_listeners_Inr:
  assumes "start_listeners X q os cfg s c = Inr run"
  shows "rn_cfg run = cfg \<and> rn_store run = s \<and> rn_collector run = c \<and> rn_authorizer run = api_authorizer cfg \<and>
    (rn_tls run = None \<longleftrightarrow> tl_development_insecure (ap_tls (cf_api cfg))) \<and>
    (\<forall>tls. rn_tls run = Some tls \<longrightarrow> TLSConfig X q (ap_tls (cf_api cfg)) = Inr tls)"
  using assms by (auto simp: start_listeners_def Let_def split: if_splits sum.splits option.splits)

text \<open>
  C7. What holds once the process serves on a store that it opened in a good state: the store is in a
  good state, the collector has registered exactly the peers of the store and the engine has exactly
  their sessions; and the API speaks plain HTTP only when it listens on the loopback, where requests
  need no certificate, while with TLS the authorizer is not in its insecure mode.
\<close>

theorem serve_ready:
  assumes "pebble_laws P cont" and "pebble_reads P" and "engine_laws E sessions" and "iter_order it"
    and "serve P E X q os it clk (Load q fraction read_file unyaml cwd path) = (st, Inr run)"
    and "Open P (os_open_db os (filepath_Join [cf_data_dir (rn_cfg run), ''topology''])) = Inr s0" and "store_inv cont lo M H s0"
    and "\<forall>m\<in>set (boot_mutations (rn_cfg run)). mutation_ok m" and "length (boot_mutations (rn_cfg run)) < 2 ^ 64"
  shows "(\<exists>lo' M' H'. store_inv cont lo' M' H' (rn_store run)) \<and>
    fmlookup (co_peers (rn_collector run)) = entry (rn_store run) \<and> registry_inv sessions (rn_collector run) \<and>
    (if rn_tls run = None then listens_on_loopback (ap_listen (cf_api (rn_cfg run))) else \<not> au_insecure (rn_authorizer run))"
proof -
  obtain cfg s1 s c where load: "Load q fraction read_file unyaml cwd path = Inr (cfg, None)"
    and opened: "Open P (os_open_db os (filepath_Join [cf_data_dir cfg, ''topology''])) = Inr s1"
    and boot: "bootstrap P clk cfg s1 = (s, None)"
    and start: "Start E (sn_peers (Store_Snapshot it s)) (New_Collector (cf_bgp cfg)) = (c, Inr ())"
    and lis: "start_listeners X q os cfg s c = Inr run"
    using serve_Inr[OF assms(5)] by blast
  note run = start_listeners_Inr[OF lis]
  have "s1 = s0" using opened assms(6) run by simp
  note boot = boot[unfolded this]
  obtain lo' M' H' where inv: "store_inv cont lo' M' H' s"
    using store_steps_inv[OF assms(1,2,7) bootstrap_steps[OF _ _ boot assms(1)]] assms(8,9) run by (auto simp: extends_history_def)
  have "errors_Join (Validate q cfg) = None"
    using load by (auto simp: Load_def Let_def split: sum.splits if_splits)
  then have "config_ok cfg" by (simp add: errors_Join_def Validate_Nil split: if_splits)
  then have "if rn_tls run = None then listens_on_loopback (ap_listen (cf_api cfg)) else \<not> au_insecure (rn_authorizer run)"
    using run by (auto simp: config_ok_def api_authorizer_def NewAuthorizer_def)
  moreover have "fmlookup (co_peers c) = entry s \<and> registry_inv sessions c"
    using Start_synced_rule[OF assms(3) inv assms(4) start] by blast
  ultimately show ?thesis using inv run by auto
qed

lemma restart_rule:
  assumes "pebble_laws P cont" and "pebble_reads P" and "engine_laws E sessions" and "iter_order it"
    and "store_inv cont lo M H s" and "st_revision s \<noteq> 0"
    and "os_open_db os (filepath_Join [cf_data_dir cfg, ''topology'']) = Inr (st_db s)"
    and "serve P E X q os it clk (Inr (cfg, None)) = (st, Inr run)"
  shows "st_memory (rn_store run) = st_memory s \<and> st_revision (rn_store run) = st_revision s \<and>
    fmlookup (co_peers (rn_collector run)) = entry s"
proof -
  note open_eq = Open_eq[OF assms(1,2,5)] and inv = store_inv_reopened[OF assms(5)]
  obtain s1 c where boot: "bootstrap P clk cfg (projr (Open P (Inr (st_db s)))) = (s1, None)"
    and start: "Start E (sn_peers (Store_Snapshot it s1)) (New_Collector (cf_bgp cfg)) = (c, Inr ())"
    and lis: "start_listeners X q os cfg s1 c = Inr run"
    using serve_Inr[OF assms(8)] assms(7) by auto
  have s1: "s1 = projr (Open P (Inr (st_db s)))"
    using boot assms(6) by (simp add: open_eq bootstrap_def Store_Revision_def)
  have "store_inv cont lo M H s1" using inv by (simp add: s1 open_eq)
  from Start_synced_rule[OF assms(3) this assms(4) start] show ?thesis
    using start_listeners_Inr[OF lis] by (simp add: s1 open_eq entry_def)
qed

text \<open>
  C17. A restart brings everything back: when a process ended with a store to which something had been
  written, so that its revision is not zero, a process that starts on the same database has the same
  entities and revision, whatever its configuration says of domains and peers, and registers the same
  peers. A database that is still at revision zero is bootstrapped from the new configuration instead.
\<close>

theorem restart_recovers:
  assumes "pebble_laws P cont" and "pebble_reads P" and "engine_laws E sessions" and "iter_order it"
    and "store_inv cont lo M H s" and "st_revision s \<noteq> 0"
    and "os_open_db os (filepath_Join [cf_data_dir cfg, ''topology'']) = Inr (st_db s)"
    and "serve P E X q os it clk (Inr (cfg, None)) = (st, Inr run)"
  shows "st_memory (rn_store run) = st_memory s \<and> st_revision (rn_store run) = st_revision s \<and>
    fmlookup (co_peers (rn_collector run)) = entry s"
  by (rule restart_rule[OF assms])

section \<open>A sample process\<close>

definition sample_os :: "contents \<Rightarrow> contents os" where
  "sample_os db = \<lparr>os_mkdir = (\<lambda>d. None), os_open_db = (\<lambda>d. Inr db), os_listen = (\<lambda>a. None)\<rparr>"

definition no_files :: "(unit, unit) x509" where
  "no_files = \<lparr>x_load_key_pair = (\<lambda>c k. Inl (External ''no such file'')), x_read_file = (\<lambda>f. Inl (External ''no such file'')),
     x_new_pool = (), x_append_certs = (\<lambda>p d. (p, False))\<rparr>"

definition sample_load :: "go_error + Config \<times> go_error option" where
  "sample_load = Load id (\<lambda>d u. 0) (\<lambda>f. Inr []) (\<lambda>text c. Inr (sample_config [sample_peer_config])) (Inr ''/srv'') ''etc/bgpls.yaml''"

definition sample_serve :: "contents \<Rightarrow> contents Store option \<times> (fault + (contents, string list, unit, unit) Running)" where
  "sample_serve db = serve memory_pebble list_engine no_files id (sample_os db) id sample_clock sample_load"

lemma sample_loaded:
  "\<exists>cfg. sample_load = Inr (cfg, None) \<and> (\<forall>m\<in>set (boot_mutations cfg). mutation_ok m) \<and> length (boot_mutations cfg) < 2 ^ 64"
proof -
  have good: "\<not> isl sample_load" "snd (projr sample_load) = None" "list_all mutation_ok (boot_mutations (fst (projr sample_load)))"
    "length (boot_mutations (fst (projr sample_load))) = 2" by code_simp+
  obtain cfg where load: "sample_load = Inr (cfg, None)" using good(1,2) by (metis prod.collapse sum.collapse(2))
  show ?thesis using good(3,4) unfolding load by (simp add: list_all_iff)
qed

lemma sample_started: "\<exists>st run. sample_serve fmempty = (st, Inr run)"
proof -
  have "\<not> isl (snd (sample_serve fmempty))" by code_simp
  then show ?thesis by (metis prod.collapse sum.collapse(2))
qed

lemma fresh_opened: "Open memory_pebble (os_open_db (sample_os fmempty) d) = Inr fresh_store"
  using Open_eq[OF memory_pebble_laws fresh_store_inv] by (simp add: sample_os_def fresh_store_def)

theorem serve_ready_witness:
  "\<exists>st run. sample_serve fmempty = (st, Inr run) \<and> fmlookup (co_peers (rn_collector run)) = entry (rn_store run) \<and>
     registry_inv set (rn_collector run)"
proof -
  obtain cfg where load: "sample_load = Inr (cfg, None)"
    and ok: "\<forall>m\<in>set (boot_mutations cfg). mutation_ok m" "length (boot_mutations cfg) < 2 ^ 64" using sample_loaded by blast
  obtain st run where run: "sample_serve fmempty = (st, Inr run)" using sample_started by blast
  obtain s c where "start_listeners no_files id (sample_os fmempty) cfg s c = Inr run"
    using serve_Inr[OF run[unfolded sample_serve_def load]] by auto
  then have "rn_cfg run = cfg" using start_listeners_Inr by blast
  with ok serve_ready[OF memory_pebble_laws list_engine_laws iter_order_id(1) run[unfolded sample_serve_def sample_load_def]
      fresh_opened fresh_store_inv] run
  show ?thesis by blast
qed

theorem restart_recovers_witness:
  "\<exists>st run. sample_serve (st_db lab_store) = (st, Inr run) \<and> st_memory (rn_store run) = st_memory lab_store \<and>
     fmlookup (co_peers (rn_collector run)) = entry lab_store"
proof -
  have "\<not> isl (snd (sample_serve (st_db lab_store)))" by code_simp
  then obtain st run where run: "sample_serve (st_db lab_store) = (st, Inr run)" by (metis prod.collapse sum.collapse(2))
  obtain cfg where load: "sample_load = Inr (cfg, None)" using sample_loaded by blast
  have rev: "st_revision lab_store \<noteq> 0" by (simp add: lab_revision)
  obtain lo M H where inv: "store_inv (\<lambda>c. c) lo M H lab_store" using lab_store_inv by blast
  have db: "os_open_db (sample_os (st_db lab_store)) d = Inr (st_db lab_store)" for d by (simp add: sample_os_def)
  from restart_recovers[OF memory_pebble_laws list_engine_laws iter_order_id(1) inv rev db run[unfolded sample_serve_def, unfolded load]] run
  show ?thesis by blast
qed

end
