(* ===== verification/Server_Run.thy ===== *)
theory Server_Run
  imports Read_Services Process_Theorems
begin

text \<open>
  The running server: HTTP requests through the whole chain of handlers, session events and batches of
  paths from the engine, what the streams of watches do, and ticks of the retention loop, one after the
  other, on the store and the collector that they share. A run is a list of such operations and goes on
  after requests that failed half way.
\<close>

section \<open>Operations\<close>

text \<open>The retention loop ticks until its context is done; the errors of a tick are only logged.\<close>

fun retentionLoop ::
  "'db pebble \<Rightarrow> (nat \<Rightarrow> go_error option) \<Rightarrow> Retention \<Rightarrow> time list \<Rightarrow> 'db Store \<Rightarrow> 'db Store" where
  "retentionLoop P ctx r [] s = s"
| "retentionLoop P ctx r (now # ticks) s = retentionLoop P ctx r ticks (retention_tick P ctx now r s)"

text \<open>
  A request comes with what a call reads besides it, an event with the time of its writes. A watch takes
  an event from its channel to send it, or ends when its context does.
\<close>

datatype ('body, 'db, 'e) server_op =
    Http "('body, 'db, 'e Collector) collector_env" "'body read_env" "'body Request"
  | SessionEvent time "PeerEvent option" time
  | PathEvents "nat \<Rightarrow> world" "LsPath list"
  | WatchReceive nat
  | WatchEnd nat
  | RetentionTick "nat \<Rightarrow> go_error option" time Retention

text \<open>What does not change while the server runs.\<close>

record ('db, 'e) server =
  se_pebble :: "'db pebble"
  se_engine :: "'e engine"
  se_upper :: "string \<Rightarrow> string"
  se_authorizer :: Authorizer

definition server_env ::
  "('db, 'e) server \<Rightarrow> ('body, 'db, 'e Collector) collector_env \<Rightarrow> ('body, 'db, 'e Collector) collector_env" where
  "server_env S env = env\<lparr>ce_pebble := se_pebble S, ce_peers := Some (collector_manager (se_engine S))\<rparr>"

definition server_handler ::
  "('db, 'e) server \<Rightarrow> ('body, 'db, 'e Collector) collector_env \<Rightarrow> 'body read_env
    \<Rightarrow> ('body, ('db, 'e Collector) system, rpc_answer + read_answer) handler" where
  "server_handler S env renv = NewHandler (se_upper S) (Some (se_authorizer S)) (all_services (se_pebble S) renv (server_env S env))"

text \<open>
  A panic in a request is caught by the middleware; nothing catches one in a handler of events, and it
  ends the process. A request that waits for ever does so with the lock of the store in its hand, and
  the server with it.
\<close>

definition waits :: "(rpc_answer + read_answer) reply \<Rightarrow> bool" where
  "waits rep = (case rep of Reply (Inl a) \<Rightarrow> a = RpcError Stuck | Reply (Inr a) \<Rightarrow> never a | _ \<Rightarrow> False)"

fun run_op ::
  "('db, 'e) server \<Rightarrow> ('body, 'db, 'e) server_op \<Rightarrow> ('db, 'e Collector) system \<Rightarrow> ('db, 'e Collector) system \<times> unit result" where
  "run_op S (Http env renv r) sys = (case server_handler S env renv r sys of (sys', rep) \<Rightarrow>
     (sys', if waits rep then Inl Hang else Inr ()))"
| "run_op S (SessionEvent now ev observed) sys = handlePeer (se_pebble S) now ev observed sys"
| "run_op S (PathEvents w paths) sys = handlePaths (se_pebble S) w 0 paths sys"
| "run_op S (WatchReceive k) sys = ((fst (receive k (fst sys)), snd sys), Inr ())"
| "run_op S (WatchEnd i) sys = ((unsubscribe i (fst sys), snd sys), Inr ())"
| "run_op S (RetentionTick ctx now r) sys = ((retention_tick (se_pebble S) ctx now r (fst sys), snd sys), Inr ())"

fun run_ops ::
  "('db, 'e) server \<Rightarrow> ('body, 'db, 'e) server_op list \<Rightarrow> ('db, 'e Collector) system
    \<Rightarrow> ('db, 'e Collector) system \<times> unit result" where
  "run_ops S [] sys = (sys, Inr ())"
| "run_ops S (oper # opers) sys = (case run_op S oper sys of (sys', Inl f) \<Rightarrow> (sys', Inl f) | (sys', Inr u) \<Rightarrow> run_ops S opers sys')"

section \<open>What a request does\<close>

text \<open>A request that reaches a method of the collector service is one call of it, or none.\<close>

inductive service_call ::
  "('body, 'db, 'p) collector_env \<Rightarrow> 'body \<Rightarrow> CollectorMethod \<Rightarrow> ('db, 'p) system \<Rightarrow> ('db, 'p) system \<Rightarrow> bool" for env b where
  no_call: "service_call env b m sys sys"
| create_call: "ce_peer env b = Some req \<Longrightarrow> CreatePeer (ce_pebble env) (ce_peers env) (ce_order env) (ce_clock env 0) req sys = (sys', x) \<Longrightarrow>
    service_call env b CreatePeerM sys sys'"
| update_call: "ce_versioned env b = Some (req, v) \<Longrightarrow>
    UpdatePeer (ce_pebble env) (ce_peers env) (ce_order env) (ce_clock env 0) req v sys = (sys', x) \<Longrightarrow> service_call env b UpdatePeerM sys sys'"
| delete_call: "DeletePeer (ce_pebble env) (ce_peers env) (ce_clock env 0) i v sys = (sys', u) \<Longrightarrow> service_call env b DeletePeerM sys sys'"
| admin_call: "SetPeerAdminState (ce_pebble env) (ce_peers env) (ce_clock env 0) i on v sys = (sys', x) \<Longrightarrow>
    service_call env b SetPeerAdminStateM sys sys'"
| reset_call: "ResetPeer (ce_peers env) i soft sys = (sys', x) \<Longrightarrow> service_call env b ResetPeerM sys sys'"
| import_call: "ce_import env b = Some (doc, replace) \<Longrightarrow>
    ImportPeerConfig (ce_pebble env) (ce_peers env) (ce_unyaml env) (ce_order env) (ce_clock env) doc replace sys = (sys', xs) \<Longrightarrow>
    service_call env b ImportPeerConfigM sys sys'"

lemma collector_service_call:
  assumes "collector_service env m r sys = (sys', rep)"
  shows "service_call env (rq_body r) m sys sys'"
  using assms
  by (cases m) (auto simp: collector_service_def decoded_def Let_def intro: service_call.intros split: option.splits prod.splits)

text \<open>A step that changes subscriptions only.\<close>

definition idle :: "'db pebble \<Rightarrow> 'db Store \<Rightarrow> 'db Store \<Rightarrow> bool" where
  "idle P s s' \<longleftrightarrow> entry s' = entry s \<and> (store_step P)\<^sup>*\<^sup>* s s'"

lemma idle_refl [simp]: "idle P s s"
  by (simp add: idle_def)

lemma topology_service_idle:
  assumes "topology_service P renv t r (s, c) = ((s', c'), rep)"
  shows "c' = c \<and> idle P s s'"
proof -
  have "(s', c') = (s, c) \<or> (\<exists>after. (s', c') = (fst (watch_open P after s), c))"
    using assms by (auto simp: topology_service_def split: prod.splits TopologyMethod.splits option.splits)
  moreover have "idle P s (fst (watch_open P after s))" for after
    using watch_open_frame[of P after s] watch_open_step[of P s after] by (simp add: idle_def entry_def fun_eq_iff)
  ultimately show ?thesis by auto
qed

lemma answering_eq: "answering f h r s = (s', rep) \<longleftrightarrow> (\<exists>rep'. h r s = (s', rep') \<and> rep = map_reply f rep')"
  by (cases "h r s") (auto simp: answering_def)

lemma handler_cases:
  assumes "server_handler S env renv r (s, c) = ((s', c'), rep)"
  shows "(c' = c \<and> idle (se_pebble S) s s') \<or>
    (\<exists>m. rq_path r = collector_procedure m \<and> service_call (server_env S env) (rq_body r) m (s, c) (s', c'))"
proof (cases "(s', c') = (s, c)")
  case False
  let ?svc = "all_services (se_pebble S) renv (server_env S env)"
  from NewHandler_effect[OF assms[unfolded server_handler_def] disjI1[OF False]] obtain rep' where
    mux: "api_mux ?svc r (s, c) = ((s', c'), rep')" by blast
  from api_mux_effect[OF mux] False consider
      t q where "topology_service (se_pebble S) renv t r (s, c) = ((s', c'), q)"
    | m q where "rq_path r = collector_procedure m" "collector_service (server_env S env) m r (s, c) = ((s', c'), q)"
    unfolding all_services_def handler_effect_def by (auto simp: answering_eq path_service_def history_service_def)
  then show ?thesis
  proof cases
    case 1
    then show ?thesis using topology_service_idle by metis
  next
    case 2
    then show ?thesis using collector_service_call by metis
  qed
qed simp

text \<open>A request waits for ever only in a call that reads: no call of the collector service does.\<close>

lemma map_reply_eq: "map_reply f rep = Reply x \<longleftrightarrow> (\<exists>y. rep = Reply y \<and> x = f y)"
  by (cases rep) auto

lemma handler_waits:
  assumes "server_handler S env renv r (s, c) = (sys', rep)" and "waits rep"
  shows "(\<exists>t. rq_path r = topology_procedure t \<and> \<not> answered (topology_read (se_pebble S) renv t (rq_body r) s)) \<or>
    (\<exists>p. \<not> answered (snd (path_service (se_pebble S) renv p r (s, c)))) \<or>
    (\<exists>h. \<not> answered (snd (history_service (se_pebble S) renv h r (s, c)))) \<or>
    (\<exists>m. snd (collector_service (server_env S env) m r (s, c)) = Reply (RpcError Stuck))"
proof -
  let ?svc = "all_services (se_pebble S) renv (server_env S env)"
  obtain x where x: "rep = Reply x" "waits (Reply x)" using assms(2) by (auto simp: waits_def split: reply.splits)
  from NewHandler_effect[OF assms(1)[unfolded server_handler_def] disjI2[OF x(1)]] x(1) have
    mux: "api_mux ?svc r (s, c) = (sys', Reply x)" by auto
  from api_mux_effect[OF mux] consider
      t y where "rq_path r = topology_procedure t" "topology_service (se_pebble S) renv t r (s, c) = (sys', Reply y)" "x = Inr y"
    | p y where "path_service (se_pebble S) renv p r (s, c) = (sys', Reply y)" "x = Inr y"
    | h y where "history_service (se_pebble S) renv h r (s, c) = (sys', Reply y)" "x = Inr y"
    | m y where "collector_service (server_env S env) m r (s, c) = (sys', Reply y)" "x = Inl y"
    unfolding all_services_def handler_effect_def by (auto simp: answering_eq map_reply_eq eq_commute[of "Reply x"])
  then show ?thesis
  proof cases
    case 1
    then have "topology_read (se_pebble S) renv t (rq_body r) s = Reply y" by (simp add: topology_service_def)
    then show ?thesis using 1 x(2) by (auto simp: waits_def answered_iff)
  next
    case (2 p y)
    then have "\<not> answered (snd (path_service (se_pebble S) renv p r (s, c)))" using x(2) by (simp add: waits_def answered_iff)
    then show ?thesis by blast
  next
    case (3 h y)
    then have "\<not> answered (snd (history_service (se_pebble S) renv h r (s, c)))" using x(2) by (simp add: waits_def answered_iff)
    then show ?thesis by blast
  next
    case (4 m y)
    then have "snd (collector_service (server_env S env) m r (s, c)) = Reply (RpcError Stuck)" using x(2) by (simp add: waits_def)
    then show ?thesis by blast
  qed
qed

definition goes_on :: "'a response \<Rightarrow> bool" where
  "goes_on r \<longleftrightarrow> r \<noteq> Inl Stuck"

lemma goes_on_simps [simp]:
  "goes_on (Inr x)" "goes_on (Inl f) \<longleftrightarrow> f \<noteq> Stuck" "apiError e \<noteq> Stuck" "goes_on (api_result err x)"
  by (simp_all add: goes_on_def apiError_def api_result_def split: option.split)

lemma goes_on_bindR: "goes_on r \<Longrightarrow> (\<And>x. r = Inr x \<Longrightarrow> goes_on (f x)) \<Longrightarrow> goes_on (bindR r f)"
  by (cases r) (auto simp: goes_on_def)

lemma rpc_reply_goes_on: "goes_on r \<Longrightarrow> (\<And>x. f x \<noteq> RpcError Stuck) \<Longrightarrow> rpc_reply f r \<noteq> Reply (RpcError Stuck)"
  by (auto simp: rpc_reply_def goes_on_def split: sum.split failure.split)

lemma checks_go_on:
  "goes_on (get_peer s i)" "goes_on (create_check it s req)" "goes_on (update_check it s req v)" "goes_on (version_check s i v)"
  "goes_on (import_check snap ps)"
proof -
  show peer: "goes_on (get_peer s i)" for i by (auto simp: get_peer_def split: sum.split entity.split)
  show "goes_on (create_check it s req)" by (auto simp: create_check_def Let_def split: option.split sum.split)
  show "goes_on (update_check it s req v)"
    by (auto simp: update_check_def Let_def split: option.split intro!: goes_on_bindR peer)
  show "goes_on (version_check s i v)" by (auto simp: version_check_def intro!: goes_on_bindR peer)
  show "goes_on (import_check snap ps)" by (induction ps) (auto simp: Let_def split: option.split)
qed

lemma put_goes_on: "pebble_laws P cont \<Longrightarrow> put_and_upsert P peers tick p reason sys = (sys', r) \<Longrightarrow> goes_on r"
  using put_and_upsert_cases[of P cont peers tick p reason "fst sys" "snd sys" "fst sys'" "snd sys'" r] by auto

lemma drop_goes_on: "pebble_laws P cont \<Longrightarrow> drop_peer P tick p reason s = (s', r) \<Longrightarrow> goes_on r"
  using drop_peer_cases[of P cont tick p reason s s' r] by auto

lemma write_goes_on:
  "pebble_laws P cont \<Longrightarrow> goes_on checked \<Longrightarrow> write_peer P peers tick reason checked sys = (sys', r) \<Longrightarrow> goes_on r"
  by (auto simp: write_peer_def split: sum.splits prod.splits intro!: goes_on_bindR dest!: put_goes_on)

lemma import_loop_goes_on:
  "pebble_laws P cont \<Longrightarrow> import_loop P peers clk k ps out sys = (sys', r) \<Longrightarrow> goes_on r"
proof (induction ps arbitrary: k out sys)
  case (Cons p ps)
  then show ?case by (auto simp: Let_def dest: put_goes_on split: sum.splits entity.splits prod.splits if_splits)
qed auto

lemma replace_loop_goes_on:
  "pebble_laws P cont \<Longrightarrow> replace_loop P peers clk k incoming qs sys = (sys', r) \<Longrightarrow> goes_on r"
proof (induction qs arbitrary: k sys)
  case (Cons q qs)
  then show ?case by (auto dest: drop_goes_on split: sum.splits option.splits prod.splits if_splits)
qed auto

lemma import_goes_on:
  assumes "pebble_laws P cont" and "ImportPeerConfig P peers unyaml it clk data replace sys = (sys', r)"
  shows "goes_on r"
proof -
  have "import_check snap ps = Inl e \<Longrightarrow> e \<noteq> Stuck" for snap ps e using checks_go_on(5)[of snap ps] by auto
  then show ?thesis
    using assms(2) by (auto simp: ImportPeerConfig_def Let_def dest!: import_loop_goes_on[OF assms(1)] replace_loop_goes_on[OF assms(1)]
        split: sum.splits prod.splits if_splits)
qed

lemma reset_goes_on: "ResetPeer peers i soft sys = (sys', r) \<Longrightarrow> goes_on r"
  by (auto simp: ResetPeer_def split: sum.splits option.splits prod.splits entity.splits)

lemma delete_goes_on:
  assumes "pebble_laws P cont" and "DeletePeer P peers tick i v sys = (sys', r)"
  shows "goes_on r"
proof (cases "version_check (fst sys) i v")
  case (Inl e)
  then show ?thesis using assms(2) checks_go_on(4)[of "fst sys" i v] by (auto simp: DeletePeer_def)
next
  case (Inr p)
  then show ?thesis using assms(2)
    by (auto simp: DeletePeer_def dest: drop_goes_on[OF assms(1)] split: option.splits prod.splits)
qed

lemma list_goes_on: "goes_on (ListPeers it s domain page)"
proof -
  have "handled (list_page (page_of pr_id (\<lambda>p. Inr (\<not> (domain \<noteq> [] \<and> pr_domain_id p \<noteq> domain))) page ps) snap)" for ps snap
    by (intro handled_list_page page_of_returns) (simp add: returns_def)
  then have "goes_on (list_page (page_of pr_id (\<lambda>p. Inr (\<not> (domain \<noteq> [] \<and> pr_domain_id p \<noteq> domain))) page ps) snap)" for ps snap
    unfolding handled_def goes_on_def by blast
  then show ?thesis unfolding ListPeers_def Let_def by (intro goes_on_bindR) (auto split: prod.split)
qed

lemma calls_go_on:
  assumes "pebble_laws P cont"
  shows "CreatePeer P peers it tick req sys = (sys', r) \<Longrightarrow> goes_on r"
    and "UpdatePeer P peers it tick req v sys = (sys', r) \<Longrightarrow> goes_on r"
    and "SetPeerAdminState P peers tick i on v sys = (sys', r) \<Longrightarrow> goes_on r"
  unfolding CreatePeer_def UpdatePeer_def SetPeerAdminState_def
  by (erule write_goes_on[OF assms, rotated], auto intro!: checks_go_on goes_on_bindR simp: Let_def)+

lemma reads_go_on:
  "goes_on (GetStatus P v st s)" "goes_on (GetPeer s i)" "goes_on (ValidatePeerConfig it s p)" "goes_on (ExportPeerConfig yaml it s)"
  by (auto simp: GetStatus_def GetPeer_def ValidatePeerConfig_def ExportPeerConfig_def Let_def split: sum.split
      intro!: goes_on_bindR checks_go_on)

lemma collector_goes_on:
  assumes "pebble_laws (ce_pebble env) cont"
  shows "snd (collector_service env m r sys) \<noteq> Reply (RpcError Stuck)"
  by (cases m) (auto simp: collector_service_def decoded_def Let_def split: option.splits prod.splits
      dest!: calls_go_on[OF assms] reset_goes_on delete_goes_on[OF assms] import_goes_on[OF assms]
      dest: rpc_reply_goes_on[THEN notE, rotated -1] intro: reads_go_on list_goes_on)

lemma server_env_simps [simp]:
  "ce_pebble (server_env S env) = se_pebble S" "ce_peers (server_env S env) = Some (collector_manager (se_engine S))"
  "ce_peer (server_env S env) = ce_peer env" "ce_versioned (server_env S env) = ce_versioned env"
  "ce_import (server_env S env) = ce_import env" "ce_unyaml (server_env S env) = ce_unyaml env"
  "ce_order (server_env S env) = ce_order env"
  by (simp_all add: server_env_def)

section \<open>The other operations\<close>

lemma retention_tick_idle: "idle P s (retention_tick P ctx now r s)"
proof -
  have "st_memory (retention_tick P ctx now r s) = st_memory s"
    by (auto simp: retention_tick_def CompactHistory_def Let_def split: sum.splits prod.splits option.splits)
  then show ?thesis using retention_tick_step[of P s ctx now r] by (simp add: idle_def entry_def fun_eq_iff)
qed

lemma watch_idle: "idle P s (fst (receive k s))" "idle P s (unsubscribe i s)"
proof -
  show "idle P s (fst (receive k s))"
  proof (cases "receive k s")
    case (Pair s' e)
    have "st_memory s' = st_memory s" "e = None \<Longrightarrow> s' = s"
      using Pair by (auto simp: receive_def split: option.splits list.splits)
    moreover have "store_step P s s'" if "e = Some x" for x using live[OF receive_step] Pair that by metis
    ultimately show ?thesis using Pair by (cases e) (auto simp: idle_def entry_def fun_eq_iff)
  qed
  have "st_memory (unsubscribe i s) = st_memory s" by (simp add: unsubscribe_def split: option.split)
  then show "idle P s (unsubscribe i s)"
    using live[OF unsubscribe_step] by (auto simp: idle_def entry_def fun_eq_iff)
qed

lemma idle_op:
  assumes "run_op S oper (s, c) = ((s', c'), r)"
    and "(\<exists>k. oper = WatchReceive k) \<or> (\<exists>i. oper = WatchEnd i) \<or> (\<exists>ctx now q. oper = RetentionTick ctx now q)"
  shows "r = Inr () \<and> c' = c \<and> idle (se_pebble S) s s'"
  using assms watch_idle retention_tick_idle by fastforce

end
