(* ===== verification/Server_Safety.thy ===== *)
theory Server_Safety
  imports Server_Run
begin

text \<open>
  The running server never panics: an invariant of the peers in the store and in the registry of the
  collector, which every operation of the server keeps, and by which no handler of events meets a peer
  that is not there.
\<close>

section \<open>The invariant\<close>

text \<open>
  Every known address leads to the registered peer that has it, and every registered peer is in the
  store, under the same address. The converse need not hold: a call that was refused by the engine leaves
  a peer in the store that is not registered.
\<close>

definition peers_agree :: "('db, 'e Collector) system \<Rightarrow> bool" where
  "peers_agree sys \<longleftrightarrow> keyed (fst sys) \<and> entry (fst sys) [] = None \<and> registry_ids (snd sys) \<and>
     (\<forall>a i. fmlookup (co_byAddress (snd sys)) a = Some i \<longrightarrow> (\<exists>p. fmlookup (co_peers (snd sys)) i = Some p \<and> pr_remote_address p = a)) \<and>
     (\<forall>i p. fmlookup (co_peers (snd sys)) i = Some p \<longrightarrow> (\<exists>q. entry (fst sys) i = Some q \<and> pr_remote_address q = pr_remote_address p))"

definition running_ok :: "('db, 'e Collector) system \<Rightarrow> bool" where
  "running_ok sys \<longleftrightarrow> peers_agree sys \<and> sources_inv sys"

lemma running_collector_ok: "running_ok sys \<Longrightarrow> collector_ok sys"
  by (fastforce simp: running_ok_def peers_agree_def collector_ok_def no_dangling_def)

text \<open>A peer may be written when it does not move: the store has none with its identifier, or at its address.\<close>

definition stays :: "'db Store \<Rightarrow> Peer \<Rightarrow> bool" where
  "stays s p \<longleftrightarrow> (\<forall>old. entry s (pr_id p) = Some old \<longrightarrow> pr_remote_address old = pr_remote_address p)"

lemma staysD: "stays s p \<Longrightarrow> entry s (pr_id p) = Some old \<Longrightarrow> pr_remote_address old = pr_remote_address p"
  by (simp add: stays_def)

section \<open>The operations of the collector\<close>

lemma manager_sources:
  "co_sources (fst (pm_upsert (collector_manager E) p c)) = co_sources c"
  "co_sources (fst (pm_delete (collector_manager E) i c)) = co_sources c"
  "co_sources (fst (pm_reset (collector_manager E) i soft c)) = co_sources c"
  by (auto simp: collector_manager_def Upsert_def upsertLocked_def drop_old_def Delete_def Reset_def map_prod_def
      dest!: on_server_frame split: option.splits prod.splits sum.splits fault.splits)

lemma manager_upsert_cases:
  assumes "pm_upsert (collector_manager E) p c = (c', err)"
  shows "(co_peers c' = co_peers c \<and> co_byAddress c' = co_byAddress c) \<or>
    (co_peers c' = fmupd (pr_id p) p (co_peers c) \<and> co_byAddress c' = fmupd (pr_remote_address p) (pr_id p) (co_byAddress c))"
  using assms upsertLocked_cases[of E p c c' "snd (Upsert E p c)"]
  by (auto simp: collector_manager_def Upsert_def map_prod_def split: prod.splits)

lemma manager_delete_cases:
  assumes "pm_delete (collector_manager E) i c = (c', err)"
  shows "(err \<noteq> None \<and> co_peers c' = co_peers c \<and> co_byAddress c' = co_byAddress c) \<or>
    (\<exists>p. err = None \<and> fmlookup (co_peers c) i = Some p \<and> co_peers c' = fmdrop i (co_peers c) \<and>
      co_byAddress c' = fmdrop (pr_remote_address p) (co_byAddress c))"
  using assms Delete_cases[of E i c c' "snd (Delete E i c)"]
  by (auto simp: collector_manager_def map_prod_def manager_error_def split: prod.splits fault.splits)

lemma manager_reset_frame:
  "pm_reset (collector_manager E) i soft c = (c', err) \<Longrightarrow> co_peers c' = co_peers c \<and> co_byAddress c' = co_byAddress c"
  using Reset_frame[of E i soft c c' "snd (Reset E i soft c)"]
  by (auto simp: collector_manager_def map_prod_def split: prod.splits)

lemma versioned_same [simp]: "pr_remote_address (versioned s p) = pr_remote_address p"
  by (simp add: versioned_def)

lemma put_agree:
  assumes "peers_agree (s, c)" and "pr_id p \<noteq> []" and "stays s p" and "stored s p s'"
    and "pm_upsert (collector_manager E) (versioned s p) c = (c', err)"
  shows "peers_agree (s', c')"
proof -
  have e: "entry s' = (entry s)(pr_id p \<mapsto> versioned s p)" by (rule stored_entry[OF assms(4)])
  have old: "pr_remote_address q = pr_remote_address p" if "fmlookup (co_peers c) (pr_id p) = Some q" for q
    using assms(1,3) that unfolding peers_agree_def stays_def by fastforce
  from manager_upsert_cases[OF assms(5)] consider
      "co_peers c' = co_peers c" "co_byAddress c' = co_byAddress c"
    | "co_peers c' = fmupd (pr_id p) (versioned s p) (co_peers c)" "co_byAddress c' = fmupd (pr_remote_address p) (pr_id p) (co_byAddress c)"
    by auto
  then show ?thesis
  proof cases
    case 1
    then show ?thesis using assms(1,2) e old by (auto simp: peers_agree_def keyed_def registry_ids_def)
  next
    case 2
    note inv = assms(1)[unfolded peers_agree_def fst_conv snd_conv]
    have "\<exists>p'. fmlookup (co_peers c') i = Some p' \<and> pr_remote_address p' = a" if known: "fmlookup (co_byAddress c') a = Some i" for a i
    proof (cases "a = pr_remote_address p")
      case True
      then show ?thesis using known 2 by auto
    next
      case False
      then have "fmlookup (co_byAddress c) a = Some i" using known 2(2) by simp
      then obtain p' where p': "fmlookup (co_peers c) i = Some p'" "pr_remote_address p' = a" using inv by blast
      then have "i \<noteq> pr_id p" using old False by blast
      then show ?thesis using p' 2(1) by auto
    qed
    moreover have "keyed s'" "entry s' [] = None" "registry_ids c'"
      using inv e 2(1) assms(2) by (auto simp: keyed_def registry_ids_def)
    moreover have "\<exists>q. entry s' i = Some q \<and> pr_remote_address q = pr_remote_address p'" if "fmlookup (co_peers c') i = Some p'" for i p'
      using inv that 2(1) e by (cases "i = pr_id p") auto
    ultimately show ?thesis unfolding peers_agree_def by simp
  qed
qed

lemma put_and_upsert_running:
  assumes "pebble_laws P cont" and "running_ok (s, c)" and "pr_id p \<noteq> []" and "stays s p"
    and "put_and_upsert P (Some (collector_manager E)) tick p reason (s, c) = ((s', c'), r)"
  shows "running_ok (s', c') \<and> (entry s' = entry s \<or> entry s' = (entry s)(pr_id p \<mapsto> versioned s p))"
proof -
  from put_and_upsert_cases[OF assms(1,5)] consider "untouched cont s s'" "c' = c"
    | "stored s p s'" "c' = fst (pm_upsert (collector_manager E) (versioned s p) c)" by (auto simp: manager_def)
  then show ?thesis
  proof cases
    case 1
    then have "entry s' = entry s" by (simp add: untouched_def entry_def)
    then show ?thesis using assms(2) 1 by (auto simp: running_ok_def peers_agree_def keyed_def intro: sources_inv_cong[OF refl])
  next
    case 2
    obtain err where up: "pm_upsert (collector_manager E) (versioned s p) c = (c', err)" using 2(2) by (metis prod.collapse)
    have "peers_agree (s', c')" using put_agree[OF _ assms(3,4) 2(1) up] assms(2) by (simp add: running_ok_def)
    moreover have "sources_inv (s', c')"
      using sources_inv_cong[of c' c s s'] assms(2) 2(2) manager_sources(1)[of E] by (simp add: running_ok_def)
    ultimately show ?thesis using stored_entry[OF 2(1)] by (simp add: running_ok_def)
  qed
qed

lemma write_peer_running:
  assumes "pebble_laws P cont" and "running_ok (s, c)"
    and "\<And>p. checked = Inr p \<Longrightarrow> pr_id p \<noteq> [] \<and> stays s p"
    and "write_peer P (Some (collector_manager E)) tick reason checked (s, c) = ((s', c'), r)"
  shows "running_ok (s', c')"
proof (cases checked)
  case (Inl e)
  then show ?thesis using assms by (simp add: write_peer_def)
next
  case (Inr p)
  obtain s1 c1 r1 where put: "put_and_upsert P (Some (collector_manager E)) tick p reason (s, c) = ((s1, c1), r1)" by (metis prod.collapse)
  have "s1 = s'" "c1 = c'" using assms(4) Inr put by (auto simp: write_peer_def)
  then show ?thesis using put_and_upsert_running[OF assms(1,2) _ _ put] assms(3)[OF Inr] by simp
qed

lemma drop_running:
  assumes "pebble_laws P cont" and "running_ok (s, c)"
    and "pm_delete (collector_manager E) (pr_id p) c = (c', None)" and "drop_peer P tick p reason s = (s', r)"
  shows "running_ok (s', c') \<and> (entry s' = entry s \<or> entry s' = (entry s)(pr_id p := None))"
proof -
  obtain q where q: "fmlookup (co_peers c) (pr_id p) = Some q" "co_peers c' = fmdrop (pr_id p) (co_peers c)"
    "co_byAddress c' = fmdrop (pr_remote_address q) (co_byAddress c)"
    using manager_delete_cases[OF assms(3)] by auto
  have e: "entry s' = entry s \<or> entry s' = (entry s)(pr_id p := None)"
    using drop_peer_cases[OF assms(1,4)] removed_entry by (auto simp: untouched_def entry_def)
  have inv: "peers_agree (s, c)" using assms(2) by (simp add: running_ok_def)
  have other: "entry s' i = entry s i" if "i \<noteq> pr_id p" for i using e that by auto
  have "keyed s' \<and> entry s' [] = None" using inv e by (auto simp: peers_agree_def keyed_def split: if_splits)
  moreover have "registry_ids c'" using inv q(2) by (auto simp: peers_agree_def registry_ids_def)
  moreover have "\<exists>p'. fmlookup (co_peers c') i = Some p' \<and> pr_remote_address p' = a" if "fmlookup (co_byAddress c') a = Some i" for a i
  proof -
    have known: "a \<noteq> pr_remote_address q" "fmlookup (co_byAddress c) a = Some i" using that q(3) by (auto split: if_splits)
    then obtain p' where "fmlookup (co_peers c) i = Some p'" "pr_remote_address p' = a"
      using inv unfolding peers_agree_def by fastforce
    then show ?thesis using known(1) q(1,2) by auto
  qed
  moreover have "\<exists>q. entry s' i = Some q \<and> pr_remote_address q = pr_remote_address p'" if "fmlookup (co_peers c') i = Some p'" for i p'
  proof -
    have known: "i \<noteq> pr_id p" "fmlookup (co_peers c) i = Some p'" using that q(2) by (auto split: if_splits)
    then show ?thesis using inv other[of i] unfolding peers_agree_def by fastforce
  qed
  ultimately have "peers_agree (s', c')" unfolding peers_agree_def by simp
  moreover have "sources_inv (s', c')"
    using sources_inv_cong[of c' c s s'] assms(2,3) manager_sources(2)[of E "pr_id p" c] by (simp add: running_ok_def)
  ultimately show ?thesis using e by (simp add: running_ok_def)
qed

lemma refused_running:
  assumes "running_ok (s, c)" and "co_peers c' = co_peers c" "co_byAddress c' = co_byAddress c" "co_sources c' = co_sources c"
  shows "running_ok (s, c')"
  using assms by (simp add: running_ok_def peers_agree_def registry_ids_def sources_inv_def)

lemma delete_refused_running:
  assumes "running_ok (s, c)" and "pm_delete (collector_manager E) i c = (c', Some e)"
  shows "running_ok (s, c')"
  using refused_running[OF assms(1), of c'] manager_delete_cases[OF assms(2)] manager_sources(2)[of E i c] assms(2) by simp

lemma DeletePeer_running:
  assumes "pebble_laws P cont" and "running_ok (s, c)"
    and "DeletePeer P (Some (collector_manager E)) tick i expected (s, c) = ((s', c'), r)"
  shows "running_ok (s', c')"
proof (cases "version_check s i expected")
  case (Inl e)
  then show ?thesis using assms by (simp add: DeletePeer_def)
next
  case (Inr p)
  obtain c1 err where del: "pm_delete (collector_manager E) (pr_id p) c = (c1, err)" by fastforce
  obtain s1 r1 where drop: "drop_peer P tick p ''peer deleted'' s = (s1, r1)" by fastforce
  show ?thesis
  proof (cases err)
    case None
    then have "s' = s1" "c' = c1" using assms(3) Inr del drop by (auto simp: DeletePeer_def manager_def)
    then show ?thesis using drop_running[OF assms(1,2) del[unfolded None] drop] by simp
  next
    case (Some e)
    then have "s' = s" "c' = c1" using assms(3) Inr del by (auto simp: DeletePeer_def manager_def)
    then show ?thesis using delete_refused_running[OF assms(2) del[unfolded Some]] by simp
  qed
qed

lemma ResetPeer_running:
  assumes "running_ok (s, c)" and "ResetPeer (Some (collector_manager E)) i soft (s, c) = ((s', c'), r)"
  shows "running_ok (s', c')"
proof -
  obtain c1 err where res: "pm_reset (collector_manager E) i soft c = (c1, err)" by fastforce
  have "running_ok (s, c1)"
    using refused_running[OF assms(1), of c1] manager_reset_frame[OF res] manager_sources(3)[of E i soft c] res by simp
  then show ?thesis
    using assms res by (auto simp: ResetPeer_def manager_def split: sum.splits option.splits)
qed

section \<open>Imports\<close>

definition import_stays :: "'db Store \<Rightarrow> Peer list \<Rightarrow> bool" where
  "import_stays s ps \<longleftrightarrow> (\<forall>p\<in>set ps. stays s p) \<and>
     (\<forall>p\<in>set ps. \<forall>q\<in>set ps. pr_id p = pr_id q \<longrightarrow> pr_remote_address p = pr_remote_address q)"

lemma imported_same [simp]: "pr_id (imported old p) = pr_id p" "pr_remote_address (imported old p) = pr_remote_address p"
  by (simp_all add: imported_def split: option.split)

lemma stays_upd:
  assumes "stays s q" and "pr_id q = pr_id p \<Longrightarrow> pr_remote_address q = pr_remote_address p"
    and "entry s' = entry s \<or> entry s' = (entry s)(pr_id p \<mapsto> v)" and "pr_remote_address v = pr_remote_address p"
  shows "stays s' q"
  using assms by (cases "pr_id q = pr_id p") (auto simp: stays_def)

lemma import_loop_running:
  "pebble_laws P cont \<Longrightarrow> running_ok (s, c) \<Longrightarrow> \<forall>p\<in>set ps. pr_id p \<noteq> [] \<Longrightarrow> import_stays s ps \<Longrightarrow>
     import_loop P (Some (collector_manager E)) clk k ps out (s, c) = ((s', c'), r) \<Longrightarrow> running_ok (s', c')"
proof (induction ps arbitrary: k out s c)
  case (Cons p ps)
  let ?p = "imported (entry s (pr_id p)) p"
  obtain s1 c1 r1 where put: "put_and_upsert P (Some (collector_manager E)) (clk k) ?p ''peer configuration imported'' (s, c) = ((s1, c1), r1)"
    by (metis prod.collapse)
  have "stays s ?p" using Cons.prems(4) by (simp add: import_stays_def stays_def)
  note one = put_and_upsert_running[OF Cons.prems(1,2) _ this put]
  have ok1: "running_ok (s1, c1)" using one Cons.prems(3) by simp
  show ?case
  proof (cases r1)
    case (Inl e)
    then show ?thesis using Cons.prems(5) put ok1 by (auto simp: import_loop_Cons simp del: import_loop.simps)
  next
    case (Inr q)
    have upd: "entry s1 = entry s \<or> entry s1 = (entry s)(pr_id p \<mapsto> versioned s ?p)" using one Cons.prems(3) by simp
    have "stays s1 q" if "q \<in> set ps" for q
    proof (rule stays_upd[OF _ _ upd])
      show "stays s q" using Cons.prems(4) that unfolding import_stays_def by (meson list.set_intros(2))
      show "pr_remote_address q = pr_remote_address p" if "pr_id q = pr_id p"
        using Cons.prems(4) \<open>q \<in> set ps\<close> that unfolding import_stays_def by (meson list.set_intros)
    qed simp
    moreover have "\<forall>p\<in>set ps. \<forall>q\<in>set ps. pr_id p = pr_id q \<longrightarrow> pr_remote_address p = pr_remote_address q"
      using Cons.prems(4) unfolding import_stays_def by (meson list.set_intros(2))
    ultimately have "import_stays s1 ps" unfolding import_stays_def by blast
    moreover have "import_loop P (Some (collector_manager E)) clk (Suc k) ps (out @ [q]) (s1, c1) = ((s', c'), r)"
      using Cons.prems(5) put Inr by (simp add: import_loop_Cons del: import_loop.simps)
    ultimately show ?thesis using Cons.IH[OF Cons.prems(1) ok1] Cons.prems(3) by simp
  qed
qed simp

lemma replace_loop_running:
  "pebble_laws P cont \<Longrightarrow> running_ok (s, c) \<Longrightarrow>
     replace_loop P (Some (collector_manager E)) clk k incoming ps (s, c) = ((s', c'), r) \<Longrightarrow> running_ok (s', c')"
proof (induction ps arbitrary: k s c)
  case (Cons p ps)
  obtain c1 err where del: "pm_delete (collector_manager E) (pr_id p) c = (c1, err)" by fastforce
  obtain s1 r1 where drop: "drop_peer P (clk k) p ''peer removed by configuration import'' s = (s1, r1)" by fastforce
  consider "pr_id p \<in> set incoming" | e where "pr_id p \<notin> set incoming" "err = Some e" | "pr_id p \<notin> set incoming" "err = None"
    by (cases err) auto
  then show ?case
  proof cases
    case 1
    then show ?thesis using Cons by simp
  next
    case 2
    then show ?thesis using Cons.prems(3) del delete_refused_running[OF Cons.prems(2) del[unfolded 2(2)]] by (auto simp: manager_def)
  next
    case 3
    note ok1 = drop_running[OF Cons.prems(1,2) del[unfolded 3(2)] drop]
    show ?thesis
      using Cons.prems(3) del drop 3 ok1 Cons.IH[OF Cons.prems(1), of s1 c1] by (cases r1) (auto simp: manager_def)
  qed
qed simp

lemma import_check_ids:
  "import_check snap inputs = Inr u \<Longrightarrow> \<forall>p\<in>set (List.map_filter (\<lambda>p. p) inputs). pr_id p \<noteq> []"
  by (auto simp: import_check_Inr List.map_filter_def dest!: validatePeer_id)

lemma ImportPeerConfig_running:
  assumes "pebble_laws P cont" and "running_ok (s, c)"
    and "\<And>inputs. unyaml data = Inr inputs \<Longrightarrow> import_stays s (List.map_filter (\<lambda>p. p) inputs)"
    and "ImportPeerConfig P (Some (collector_manager E)) unyaml it clk data replace (s, c) = ((s', c'), r)"
  shows "running_ok (s', c')"
proof (cases "unyaml data")
  case (Inl e)
  then show ?thesis using assms(2,4) by (simp add: ImportPeerConfig_def)
next
  case (Inr inputs)
  let ?ps = "List.map_filter (\<lambda>p. p) inputs" and ?snap = "Store_Snapshot it s"
  show ?thesis
  proof (cases "import_check ?snap inputs")
    case (Inl e)
    then show ?thesis using assms(2,4) Inr by (simp add: ImportPeerConfig_def)
  next
    case chk: (Inr u)
    obtain s1 c1 r1 where imp: "import_loop P (Some (collector_manager E)) clk 0 ?ps [] (s, c) = ((s1, c1), r1)" by (metis prod.collapse)
    have ok1: "running_ok (s1, c1)"
      by (rule import_loop_running[OF assms(1,2) import_check_ids[OF chk] assms(3)[OF Inr] imp])
    obtain s2 c2 r2 where rep: "replace_loop P (Some (collector_manager E)) clk (length ?ps) (map pr_id ?ps) (sn_peers ?snap) (s1, c1) =
      ((s2, c2), r2)" by (metis prod.collapse)
    have ok2: "running_ok (s2, c2)" by (rule replace_loop_running[OF assms(1) ok1 rep])
    have "(s', c') = (s1, c1) \<or> (s', c') = (s2, c2)"
      using assms(4) Inr chk imp rep by (cases r1; cases r2; cases replace) (auto simp: ImportPeerConfig_def)
    then show ?thesis using ok1 ok2 by auto
  qed
qed

section \<open>Requests\<close>

definition update_stays :: "('body, 'db, 'p) collector_env \<Rightarrow> 'body \<Rightarrow> 'db Store \<Rightarrow> bool" where
  "update_stays env b s = (case ce_versioned env b of Some (Some p, v) \<Rightarrow> stays s p | _ \<Rightarrow> True)"

definition imports_stay :: "('body, 'db, 'p) collector_env \<Rightarrow> 'body \<Rightarrow> 'db Store \<Rightarrow> bool" where
  "imports_stay env b s = (case ce_import env b of None \<Rightarrow> True
     | Some (doc, replace) \<Rightarrow> (case ce_unyaml env doc of Inl e \<Rightarrow> True
        | Inr inputs \<Rightarrow> import_stays s (List.map_filter (\<lambda>p. p) inputs)))"

definition request_stays :: "('body, 'db, 'p) collector_env \<Rightarrow> 'body Request \<Rightarrow> 'db Store \<Rightarrow> bool" where
  "request_stays env r s \<longleftrightarrow> (rq_path r = collector_procedure UpdatePeerM \<longrightarrow> update_stays env (rq_body r) s) \<and>
     (rq_path r = collector_procedure ImportPeerConfigM \<longrightarrow> imports_stay env (rq_body r) s)"

lemma version_check_stays:
  assumes "running_ok (s, c)" and "version_check s i expected = Inr p"
  shows "pr_id p = i" "i \<noteq> []" "entry s i = Some p"
  using assms by (auto simp: version_check_Inr running_ok_def peers_agree_def keyed_def)

lemma checks_running:
  assumes "running_ok (s, c)"
  shows "create_check it s req = Inr p \<Longrightarrow> pr_id p \<noteq> [] \<and> stays s p"
    and "update_check it s req expected = Inr p \<Longrightarrow> (\<And>q. req = Some q \<Longrightarrow> stays s q) \<Longrightarrow> pr_id p \<noteq> [] \<and> stays s p"
    and "bindR (version_check s i expected) (\<lambda>p. let p1 = p\<lparr>pr_enabled := on\<rparr> in Inr (if \<not> pr_enabled p1 then
      p1\<lparr>pr_session_state := PEER_SESSION_STATE_DISABLED\<rparr> else p1)) = Inr q \<Longrightarrow> pr_id q \<noteq> [] \<and> stays s q"
proof -
  show "pr_id p \<noteq> [] \<and> stays s p" if "create_check it s req = Inr p"
    using that validatePeer_id by (auto simp: create_check_Inr stays_def)
  show "pr_id p \<noteq> [] \<and> stays s p" if "update_check it s req expected = Inr p" "\<And>q. req = Some q \<Longrightarrow> stays s q"
    using that validatePeer_id by (auto simp: update_check_Inr updated_peer_def stays_def)
  show "pr_id q \<noteq> [] \<and> stays s q"
    if chk: "bindR (version_check s i expected) (\<lambda>p. let p1 = p\<lparr>pr_enabled := on\<rparr> in Inr (if \<not> pr_enabled p1 then
      p1\<lparr>pr_session_state := PEER_SESSION_STATE_DISABLED\<rparr> else p1)) = Inr q"
  proof -
    obtain p where p: "version_check s i expected = Inr p" "pr_id q = pr_id p" "pr_remote_address q = pr_remote_address p"
      using chk by (auto simp: bindR_Inr_iff Let_def split: if_splits)
    show ?thesis using version_check_stays[OF assms p(1)] p(2,3) by (auto simp: stays_def)
  qed
qed

lemma service_call_running:
  assumes "service_call env b m (s, c) (s', c')" and "pebble_laws (ce_pebble env) cont" and "ce_peers env = Some (collector_manager E)"
    and "running_ok (s, c)" and "m = UpdatePeerM \<Longrightarrow> update_stays env b s" and "m = ImportPeerConfigM \<Longrightarrow> imports_stay env b s"
  shows "running_ok (s', c')"
  using assms(1)
proof cases
  case no_call
  then show ?thesis using assms(4) by simp
next
  case (create_call req x)
  show ?thesis
    by (rule write_peer_running[OF assms(2,4) checks_running(1)[OF assms(4)]]) (use create_call(3) in \<open>simp_all add: CreatePeer_def assms(3)\<close>)
next
  case (update_call req v x)
  have stay: "stays s q" if "req = Some q" for q using assms(5) update_call(1,2) that by (simp add: update_stays_def)
  show ?thesis
    by (rule write_peer_running[OF assms(2,4) checks_running(2)[OF assms(4) _ stay]])
      (use update_call(3) in \<open>simp_all add: UpdatePeer_def assms(3)\<close>)
next
  case (delete_call i v u)
  then show ?thesis using DeletePeer_running[OF assms(2,4)] assms(3) by simp
next
  case (admin_call i on v x)
  show ?thesis
    by (rule write_peer_running[OF assms(2,4) checks_running(3)[OF assms(4)]])
      (use admin_call(2) in \<open>simp_all add: SetPeerAdminState_def assms(3)\<close>)
next
  case (reset_call i soft x)
  then show ?thesis using ResetPeer_running[OF assms(4)] assms(3) by simp
next
  case (import_call doc replace xs)
  show ?thesis
    by (rule ImportPeerConfig_running[OF assms(2,4)]) (use import_call assms(3,6) in \<open>auto simp: imports_stay_def\<close>)
qed

lemma entry_cong_running:
  assumes "running_ok (s, c)" and "entry s' = entry s"
  shows "running_ok (s', c)"
  using assms by (simp add: running_ok_def peers_agree_def keyed_def sources_inv_def sources_ok_def)

lemma idle_running: "running_ok (s, c) \<Longrightarrow> idle P s s' \<Longrightarrow> running_ok (s', c)"
  by (auto simp: idle_def intro: entry_cong_running)

lemma handler_running:
  assumes "pebble_laws (se_pebble S) cont" and "running_ok (s, c)" and "request_stays env r s"
    and "server_handler S env renv r (s, c) = ((s', c'), rep)"
  shows "running_ok (s', c')"
  using handler_cases[OF assms(4)]
proof (elim disjE exE conjE)
  assume "c' = c" and "idle (se_pebble S) s s'"
  then show ?thesis using idle_running[OF assms(2)] by simp
next
  fix m assume m: "rq_path r = collector_procedure m" "service_call (server_env S env) (rq_body r) m (s, c) (s', c')"
  show ?thesis
    by (rule service_call_running[OF m(2) _ server_env_simps(2) assms(2)])
      (use assms(1,3) m(1) in \<open>auto simp: request_stays_def update_stays_def imports_stay_def split: option.split sum.split\<close>)
qed

section \<open>Events\<close>

lemma config_address: "config_of p = config_of q \<Longrightarrow> pr_remote_address p = pr_remote_address q \<and> pr_id p = pr_id q"
  by (drule arg_cong[of _ _ "\<lambda>x. (pr_remote_address x, pr_id x)"]) (simp add: config_of_def)

lemma same_config_running:
  assumes "peers_agree (s, c)" and "same_config (entry s') (entry s)" and "same_registry c c'"
  shows "peers_agree (s', c')"
proof -
  have there: "\<exists>q. entry s' i = Some q \<and> config_of q = config_of p" if "entry s i = Some p" for i p
    using assms(2) that by (metis (no_types) same_config_def map_option_eq_Some)
  have forth: "\<exists>p. entry s i = Some p \<and> config_of q = config_of p" if "entry s' i = Some q" for i q
    using assms(2) that by (metis (no_types) same_config_def map_option_eq_Some)
  have "keyed s'" unfolding keyed_def
  proof (intro allI impI)
    fix i q assume "entry s' i = Some q"
    then obtain p where "entry s i = Some p" "config_of q = config_of p" using forth by blast
    then show "pr_id q = i" using assms(1) config_address[of q p] by (simp add: peers_agree_def keyed_def)
  qed
  moreover have "entry s' [] = None" using forth[of "[]"] assms(1) by (cases "entry s' []") (auto simp: peers_agree_def)
  moreover have "\<exists>q. entry s' i = Some q \<and> pr_remote_address q = pr_remote_address p" if reg: "fmlookup (co_peers c) i = Some p" for i p
  proof -
    obtain q where "entry s i = Some q" "pr_remote_address q = pr_remote_address p"
      using assms(1) reg unfolding peers_agree_def fst_conv snd_conv by blast
    then show ?thesis using there[of i q] config_address by metis
  qed
  ultimately show ?thesis using assms(1,3) by (simp add: peers_agree_def same_registry_def registry_ids_def)
qed

lemma handlePeer_running:
  assumes "pebble_laws P cont" and "running_ok (s, c)" and "handlePeer P now event observed (s, c) = ((s', c'), r)"
  shows "r = Inr () \<and> running_ok (s', c')"
proof (cases "\<exists>ev p. event = Some ev \<and> pe_is_state ev \<and> peerForAddress c (Addr_String (pe_NeighborAddress ev)) = Some (Some p)")
  case False
  have "peerForAddress c a \<noteq> Some None" for a
    using assms(2) by (fastforce simp: running_ok_def peers_agree_def peerForAddress_def split: option.splits)
  then have "(s', c') = (s, c) \<and> r = Inr ()"
    using False assms(3) by (cases event) (auto simp: handlePeer_def split: option.splits if_splits)
  then show ?thesis using assms(2) by simp
next
  case True
  then obtain ev p where ev: "event = Some ev" "pe_is_state ev" "peerForAddress c (Addr_String (pe_NeighborAddress ev)) = Some (Some p)"
    by blast
  let ?q = "session_peer ev observed p"
  have reg: "fmlookup (co_peers c) (pr_id p) = Some p" "pr_id p \<noteq> []"
    using ev(3) assms(2) by (auto simp: peerForAddress_def running_ok_def peers_agree_def registry_ids_def split: option.splits)
  have addr: "pr_remote_address ?q = pr_remote_address p" by (simp add: session_peer_def Let_def)
  obtain v res where app: "Apply P None now (peer_mutation ?q False ''BGP session state changed'') s = (s', v, res)"
    and c': "c' = c" "r = Inr ()"
    using assms(3) ev by (auto simp: handlePeer_def split: prod.splits)
  have "entry s' = entry s \<or> entry s' = (entry s)(pr_id p \<mapsto> versioned s ?q)" using Apply_peer_cases[OF assms(1) app] by auto
  then have "peers_agree (s', c)" using assms(2) reg addr by (fastforce simp: running_ok_def peers_agree_def keyed_def)
  then show ?thesis using assms(2) c' sources_inv_cong[of c c s s'] by (simp add: running_ok_def)
qed

lemma handlePaths_running:
  assumes "pebble_laws P cont" and "running_ok (s, c)" and "\<forall>k. iter_order (w_it (w k))"
    and "\<forall>path\<in>set paths. pa_Nlri path \<noteq> LsAddrPrefix None" and "handlePaths P w k paths (s, c) = ((s', c'), r)"
  shows "r = Inr () \<and> running_ok (s', c')"
  using handlePaths_ok[OF assms(1,3) running_collector_ok[OF assms(2)] assms(4,5)] assms(2) same_config_running[of s c s' c']
  by (simp add: running_ok_def collector_ok_def)

section \<open>Runs\<close>

fun op_ok :: "('body, 'db, 'e) server_op \<Rightarrow> 'db Store \<Rightarrow> bool" where
  "op_ok (Http env renv r) s = request_stays env r s"
| "op_ok (PathEvents w paths) s = ((\<forall>k. iter_order (w_it (w k))) \<and> (\<forall>path\<in>set paths. pa_Nlri path \<noteq> LsAddrPrefix None))"
| "op_ok oper s = True"

fun ops_ok :: "('db, 'e) server \<Rightarrow> ('body, 'db, 'e) server_op list \<Rightarrow> ('db, 'e Collector) system \<Rightarrow> bool" where
  "ops_ok S [] sys = True"
| "ops_ok S (oper # opers) sys = (op_ok oper (fst sys) \<and> ops_ok S opers (fst (run_op S oper sys)))"

lemma run_op_running:
  assumes "pebble_laws (se_pebble S) cont" and "running_ok (s, c)" and "op_ok oper s"
    and "run_op S oper (s, c) = ((s', c'), r)"
  shows "r \<in> {Inr (), Inl Hang} \<and> running_ok (s', c')"
proof (cases oper)
  case (Http env renv q)
  obtain rep where "server_handler S env renv q (s, c) = ((s', c'), rep)" "r \<in> {Inr (), Inl Hang}"
    using assms(4) Http by (auto split: prod.splits if_splits)
  then show ?thesis using handler_running[OF assms(1,2)] assms(3) Http by simp
next
  case (SessionEvent now ev observed)
  then show ?thesis using handlePeer_running[OF assms(1,2)] assms(4) by simp
next
  case (PathEvents w paths)
  then show ?thesis using handlePaths_running[OF assms(1,2), of w paths 0 s' c' r] assms(3,4) by simp
qed (use idle_op[OF assms(4)] idle_running[OF assms(2)] in blast)+

lemma run_ops_running:
  "pebble_laws (se_pebble S) cont \<Longrightarrow> running_ok sys \<Longrightarrow> ops_ok S opers sys \<Longrightarrow>
     \<exists>sys' r. run_ops S opers sys = (sys', r) \<and> r \<in> {Inr (), Inl Hang} \<and> running_ok sys'"
proof (induction opers arbitrary: sys)
  case (Cons oper opers)
  obtain s c s' c' r where sys: "sys = (s, c)" and run: "run_op S oper (s, c) = ((s', c'), r)" by (metis prod.collapse)
  have one: "r \<in> {Inr (), Inl Hang} \<and> running_ok (s', c')" using run_op_running[OF Cons.prems(1) _ _ run] Cons.prems(2,3) sys by simp
  show ?case
  proof (cases r)
    case (Inl f)
    then show ?thesis using one sys run by auto
  next
    case (Inr u)
    then show ?thesis using Cons.IH[OF Cons.prems(1)] one Cons.prems(3) sys run by simp
  qed
qed simp

section \<open>From the start\<close>

lemma upsert_all_sources: "upsert_all E ps c = (c', r) \<Longrightarrow> co_sources c' = co_sources c"
proof (induction ps arbitrary: c)
  case (Cons p ps)
  obtain c1 r1 where up: "upsertLocked E p c = (c1, r1)" by fastforce
  have "co_sources c1 = co_sources c"
    using manager_sources(1)[of E p c] up by (simp add: collector_manager_def Upsert_def)
  then show ?case using Cons up by (cases r1) auto
qed simp

lemma Start_sources: "Start E ps (New_Collector cfg) = (c, r) \<Longrightarrow> co_sources c = fmempty"
  by (auto simp: Start_def New_Collector_def dest!: upsert_all_sources split: if_splits prod.splits option.splits)

lemma started_running:
  assumes "engine_laws E sessions" and "store_inv cont lo M H s" and "iter_order it"
    and "Start E (sn_peers (Store_Snapshot it s)) (New_Collector cfg) = (c, Inr ())"
  shows "running_ok (s, c)"
proof -
  have st: "fmlookup (co_peers c) = entry s" "registry_inv sessions c" using Start_synced_rule[OF assms] by blast+
  have "keyed s" "entry s [] = None" "registry_ids c"
    using entry_ok[OF assms(2)] st(1) by (auto simp: keyed_def registry_ids_def) (metis not_None_eq)
  moreover have "sources_inv (s, c)" using Start_sources[OF assms(4)] by (simp add: sources_inv_def sources_ok_def)
  ultimately show ?thesis using registry_invD(4)[OF st(2)] st(1) by (simp add: running_ok_def peers_agree_def)
qed

lemma serve_running:
  assumes "pebble_laws P cont" and "pebble_reads P" and "engine_laws E sessions" and "iter_order it"
    and "serve P E X q os it clk (Inr (cfg, None)) = (st, Inr run)"
    and "Open P (os_open_db os (filepath_Join [cf_data_dir cfg, ''topology''])) = Inr s0" and "store_inv cont lo M H s0"
    and "\<forall>m\<in>set (boot_mutations cfg). mutation_ok m" and "length (boot_mutations cfg) < 2 ^ 64"
  shows "running_ok (rn_store run, rn_collector run)"
proof -
  obtain s c where boot: "bootstrap P clk cfg s0 = (s, None)"
    and start: "Start E (sn_peers (Store_Snapshot it s)) (New_Collector (cf_bgp cfg)) = (c, Inr ())"
    and lis: "start_listeners X q os cfg s c = Inr run"
    using serve_Inr[OF assms(5)] assms(6) by auto
  obtain lo' M' H' where "store_inv cont lo' M' H' s"
    using store_steps_inv[OF assms(1,2,7) bootstrap_steps[OF assms(8,9) boot assms(1)]] by (auto simp: extends_history_def)
  from started_running[OF assms(3) this assms(4) start] show ?thesis using start_listeners_Inr[OF lis] by simp
qed

text \<open>
  C9. A running server is not stopped by its events, as long as no update and no import moves a peer of
  the store to another address and no path carries a nil pointer as its NLRI: once the process serves,
  whatever requests come in besides, also ones that fail half way, whatever watches read, whatever sessions
  come and go and whatever the peers announce, no event handler panics. The run goes on to its end, unless a
  request waits for ever. All along, every address that the collector knows leads to the registered peer
  with that address, and every registered peer is in the store.
\<close>

theorem server_runs_safely:
  assumes "pebble_laws P cont" and "pebble_reads P" and "engine_laws E sessions" and "iter_order it"
    and "serve P E X q os it clk (Inr (cfg, None)) = (st, Inr run)"
    and "Open P (os_open_db os (filepath_Join [cf_data_dir cfg, ''topology''])) = Inr s0" and "store_inv cont lo M H s0"
    and "\<forall>m\<in>set (boot_mutations cfg). mutation_ok m" and "length (boot_mutations cfg) < 2 ^ 64"
    and "se_pebble S = P" and "ops_ok S opers (rn_store run, rn_collector run)"
  shows "\<exists>s c res. run_ops S opers (rn_store run, rn_collector run) = ((s, c), res) \<and> (res = Inr () \<or> res = Inl Hang) \<and>
    (\<forall>a r. peerForAddress c a = Some r \<longrightarrow> (\<exists>p q. r = Some p \<and> pr_remote_address p = a \<and>
       entry s (pr_id p) = Some q \<and> pr_remote_address q = a))"
proof -
  have "pebble_laws (se_pebble S) cont" using assms(1,10) by simp
  from run_ops_running[OF this serve_running[OF assms(1-9)] assms(11)]
  obtain s c res where run: "run_ops S opers (rn_store run, rn_collector run) = ((s, c), res)" "res \<in> {Inr (), Inl Hang}"
    and ok: "running_ok (s, c)" by (metis prod.collapse)
  have "\<exists>p q. r = Some p \<and> pr_remote_address p = a \<and> entry s (pr_id p) = Some q \<and> pr_remote_address q = a"
    if look: "peerForAddress c a = Some r" for a r
  proof -
    obtain i where i: "fmlookup (co_byAddress c) a = Some i" "r = fmlookup (co_peers c) i"
      using look by (auto simp: peerForAddress_def split: option.splits)
    then obtain p where p: "fmlookup (co_peers c) i = Some p" "pr_remote_address p = a"
      using ok by (auto simp: running_ok_def peers_agree_def)
    moreover have "pr_id p = i" using ok p(1) by (simp add: running_ok_def peers_agree_def registry_ids_def)
    ultimately show ?thesis using ok i(2) unfolding running_ok_def peers_agree_def by (metis fst_conv snd_conv)
  qed
  then show ?thesis using run by auto
qed

definition lab_env :: "(Peer, contents, string list Collector) collector_env" where
  "lab_env = \<lparr>ce_pebble = memory_pebble, ce_peers = None, ce_order = id, ce_clock = sample_clock, ce_version = ''dev'',
     ce_started = 0, ce_yaml = sample_yaml, ce_unyaml = sample_unyaml, ce_id = (\<lambda>b. Some (pr_id b)),
     ce_list = (\<lambda>b. None), ce_peer = (\<lambda>b. Some (Some b)), ce_versioned = (\<lambda>b. Some (Some b, pr_resource_version b)),
     ce_delete = (\<lambda>b. Some (pr_id b, pr_resource_version b)), ce_admin = (\<lambda>b. None), ce_reset = (\<lambda>b. None),
     ce_import = (\<lambda>b. None)\<rparr>"

definition lab_server :: "(contents, string list) server" where
  "lab_server = \<lparr>se_pebble = memory_pebble, se_engine = list_engine, se_upper = id, se_authorizer = sample_authorizer\<rparr>"

definition lab_request :: "string \<Rightarrow> Peer \<Rightarrow> (Peer, contents, string list) server_op" where
  "lab_request path b = Http lab_env sample_reads ((sample_request path)\<lparr>rq_body := b\<rparr>)"

text \<open>
  The creation of a peer at an address, a path from there that cannot be translated, a session event,
  and a request that reads.
\<close>

definition lab_ops :: "(Peer, contents, string list) server_op list" where
  "lab_ops = [lab_request (collector_procedure CreatePeerM) (bgp_peer ''q'' ''10.0.0.1''),
     PathEvents (\<lambda>k. sample_world) [bad_path], SessionEvent 40 (Some lab_event) 40, WatchReceive 0,
     RetentionTick (\<lambda>i. None) 50 \<lparr>rt_duration = 0, rt_duration_text = [], rt_max_bytes = 0\<rparr>,
     lab_request (history_procedure DiffTopologyM) (bgp_peer ''q'' ''10.0.0.1'')]"

lemma lab_paths: "collector_procedure CreatePeerM \<noteq> collector_procedure UpdatePeerM"
  "collector_procedure CreatePeerM \<noteq> collector_procedure ImportPeerConfigM"
  "history_procedure DiffTopologyM \<noteq> collector_procedure m" "history_procedure DiffTopologyM \<noteq> topology_procedure t"
  by simp_all (cases m; cases t; simp)+

theorem server_runs_safely_witness:
  "\<exists>run s c res. snd (sample_serve fmempty) = Inr run \<and>
     run_ops lab_server lab_ops (rn_store run, rn_collector run) = ((s, c), res) \<and> (res = Inr () \<or> res = Inl Hang)"
proof -
  obtain cfg where load: "sample_load = Inr (cfg, None)"
    and ok: "\<forall>m\<in>set (boot_mutations cfg). mutation_ok m" "length (boot_mutations cfg) < 2 ^ 64" using sample_loaded by blast
  obtain st run where run: "sample_serve fmempty = (st, Inr run)" using sample_started by blast
  have S: "se_pebble lab_server = memory_pebble" by (simp add: lab_server_def)
  have ops: "ops_ok lab_server lab_ops sys" for sys
    unfolding lab_ops_def lab_request_def by (simp add: request_stays_def sample_request_def bad_path_def sample_node_path_def
        sample_world_def lab_paths del: collector_procedure.simps history_procedure.simps)
  show ?thesis
    using server_runs_safely[OF memory_pebble_laws list_engine_laws iter_order_id(1) run[unfolded sample_serve_def load]
        fresh_opened fresh_store_inv ok S ops] run by auto
qed

end
