(* ===== verification/Server_Invariant.thy ===== *)
theory Server_Invariant
  imports Server_Safety
begin

text \<open>
  The running server keeps the invariant of the store: every request, session event, batch of paths and
  tick is a sequence of steps of the store, so that what holds of these (recovery, older revisions, the
  streams of the subscribers) holds of the whole program.
\<close>

section \<open>Advertisements\<close>

lemma Reconciler_store_step:
  assumes "clean r" and "clean_ad a" and "sources_ok r" and "ad_ok a" and "iter_order it"
    and "utf8_valid (ad_id a)" and "utf8_valid (ad_domain_id a)" and "Suc (unat (st_revision (rc_store r))) < 2 ^ 64"
    and "Reconciler_Apply P it ctxErr now a r = (r', res)"
  shows "store_step P (rc_store r) (rc_store r') \<and> unat (st_revision (rc_store r')) \<le> Suc (unat (st_revision (rc_store r)))"
proof -
  note ok = Reconciler_mutation_ok[OF assms(1-4,6,7)]
  obtain s' v where app: "Apply P ctxErr now \<lparr>mu_kind = ad_kind a, mu_id = ad_id a, mu_domain_id = ad_domain_id a, mu_peer_id = ad_peer_id a,
     mu_reason = (if updated_sources a r = fmempty then ''last source withdrawn'' else ''canonical topology reconciled''),
     mu_delete = (updated_sources a r = fmempty),
     mu_value = (if updated_sources a r = fmempty then None else Some (canonical (ordered_sources_of a r)))\<rparr> (rc_store r) = (s', v, res)"
    and "rc_store r' = s'"
    using assms(9) unfolding Reconciler_Apply_eq[OF assms(3-5)] Let_def by (auto split: prod.splits)
  then show ?thesis using apply_step[OF app ok assms(8)] Apply_revision[OF app assms(8)] by (auto intro: live)
qed

lemma advertise_steps:
  assumes "iter_order (w_it w)" and "pr_id peer \<noteq> []" and "utf8_valid (pr_id peer)" and "utf8_valid (pr_domain_id peer)"
  shows "clean r \<Longrightarrow> sources_ok r \<Longrightarrow> \<forall>(i, v)\<in>set es. ascii i \<and> i \<noteq> [] \<and> ident_of v = i \<and> mark_stale v \<noteq> None \<and>
      value_json (fresh stale v) \<Longrightarrow> unat (st_revision (rc_store r)) + length es < 2 ^ 64 \<Longrightarrow>
    advertise P w peer withdraw stale es r = (r', res) \<Longrightarrow>
    (store_step P)\<^sup>*\<^sup>* (rc_store r) (rc_store r') \<and> clean r' \<and>
    unat (st_revision (rc_store r')) \<le> unat (st_revision (rc_store r)) + length es"
proof (induction es arbitrary: r)
  case (Cons e es)
  obtain i v where e: "e = (i, v)" by (cases e)
  with Cons.prems(3) have iv: "ascii i" "i \<noteq> []" "ident_of v = i" "mark_stale v \<noteq> None" "value_json (fresh stale v)" by auto
  let ?a = "path_ad peer withdraw i (fresh stale v)"
  have ok: "ad_ok ?a" "clean_ad ?a" "utf8_valid (ad_id ?a)" "utf8_valid (ad_domain_id ?a)"
    using assms iv by (simp_all add: ad_ok_def clean_ad_def path_ad_def utf8_ascii)
  obtain r1 q where run: "Reconciler_Apply P (w_it w) (w_ctx w) (w_now w) ?a r = (r1, q)"
    by (cases "Reconciler_Apply P (w_it w) (w_ctx w) (w_now w) ?a r")
  have room: "Suc (unat (st_revision (rc_store r))) < 2 ^ 64" using Cons.prems(4) by simp
  note one = Reconciler_store_step[OF Cons.prems(1) ok(2) Cons.prems(2) ok(1) assms(1) ok(3,4) room run]
  have after: "clean r1" "sources_ok r1"
    using clean_after[OF Cons.prems(1) ok(2) Cons.prems(2) ok(1) assms(1) run] sources_after(1)[OF Cons.prems(2) ok(1) assms(1) run] by simp_all
  have ad: "apply_ad P w peer withdraw (kind_of v) i (fresh stale v) r = (r1, case q of Inl f \<Rightarrow> Inl (to_path_fault f) | Inr ev \<Rightarrow> Inr ())"
    using run by (simp add: apply_ad_def path_ad_def kind_fresh[OF iv(4)] split: sum.split)
  show ?case
  proof (cases q)
    case (Inl f)
    then show ?thesis using Cons.prems(5) ad e one after by auto
  next
    case (Inr ev)
    then have "advertise P w peer withdraw stale es r1 = (r', res)" using Cons.prems(5) ad e by simp
    from Cons.IH[OF after _ _ this] show ?thesis
      using Cons.prems(3,4) one by (auto intro: converse_rtranclp_into_rtranclp)
  qed
qed auto

section \<open>Paths\<close>

text \<open>What a path writes at most, and that JSON can carry what it writes.\<close>

definition path_weight :: "world \<Rightarrow> string \<Rightarrow> LsPath \<Rightarrow> nat" where
  "path_weight w domain path = (case path_entities w domain path of Inl f \<Rightarrow> 1 | Inr es \<Rightarrow> Suc (length es))"

definition path_json :: "world \<Rightarrow> string \<Rightarrow> LsPath \<Rightarrow> bool" where
  "path_json w domain path = (case path_entities w domain path of Inl f \<Rightarrow> True
     | Inr es \<Rightarrow> list_all (\<lambda>(i, v). value_json (fresh (pa_Stale path) v)) es)"

lemma path_weight_pos: "0 < path_weight w domain path"
  by (simp add: path_weight_def split: sum.split)

lemma handlePath_steps:
  assumes "path_json w (pr_domain_id peer) path" and "clean r" and "sources_ok r" and "iter_order (w_it w)" and "pr_id peer \<noteq> []"
    and "utf8_valid (pr_id peer)" and "utf8_valid (pr_domain_id peer)"
    and "unat (st_revision (rc_store r)) + path_weight w (pr_domain_id peer) path \<le> 2 ^ 64" and "handlePath P w peer path r = (r', res)"
  shows "(store_step P)\<^sup>*\<^sup>* (rc_store r) (rc_store r') \<and> clean r' \<and>
    Suc (unat (st_revision (rc_store r'))) \<le> unat (st_revision (rc_store r)) + path_weight w (pr_domain_id peer) path"
proof (cases "path_entities w (pr_domain_id peer) path")
  case (Inl f)
  then show ?thesis using assms(2,9) by (simp add: handlePath_advertise path_weight_def)
next
  case (Inr es)
  have "\<forall>(i, v)\<in>set es. ascii i \<and> i \<noteq> [] \<and> ident_of v = i \<and> mark_stale v \<noteq> None \<and> value_json (fresh (pa_Stale path) v)"
    using assms(1) path_entities_fields[OF Inr] by (auto simp: path_json_def Inr list_all_iff)
  moreover have "advertise P w peer (pa_Withdrawal path) (pa_Stale path) es r = (r', res)"
    using assms(9) by (simp add: handlePath_advertise Inr)
  ultimately show ?thesis
    using advertise_steps[OF assms(4-7,2,3), of es "pa_Stale path" P "pa_Withdrawal path" r' res] assms(8)
    by (auto simp: path_weight_def Inr)
qed

section \<open>Peers that JSON can carry\<close>

definition peers_json :: "('db, 'e Collector) system \<Rightarrow> bool" where
  "peers_json sys \<longleftrightarrow> (\<forall>i p. entry (fst sys) i = Some p \<longrightarrow> json_ok (enc_Peer p)) \<and>
     (\<forall>i p. fmlookup (co_peers (snd sys)) i = Some p \<longrightarrow> json_ok (enc_Peer p))"

lemma versioned_json: "json_ok (enc_Peer p) \<Longrightarrow> json_ok (enc_Peer (versioned s p))"
  by (simp add: json_ok_Peer versioned_def)

lemma put_and_upsert_json:
  assumes "pebble_laws P cont" and "peers_json (s, c)" and "json_ok (enc_Peer p)"
    and "put_and_upsert P (Some (collector_manager E)) tick p reason (s, c) = ((s', c'), r)"
  shows "peers_json (s', c')"
proof -
  from put_and_upsert_cases[OF assms(1,4)] consider "untouched cont s s'" "c' = c"
    | "stored s p s'" "c' = fst (pm_upsert (collector_manager E) (versioned s p) c)" by (auto simp: manager_def)
  then show ?thesis
  proof cases
    case 1
    then have "entry s' = entry s" by (simp add: untouched_def entry_def)
    then show ?thesis using assms(2) 1 by (simp add: peers_json_def)
  next
    case 2
    obtain err where up: "pm_upsert (collector_manager E) (versioned s p) c = (c', err)" using 2(2) by (metis prod.collapse)
    show ?thesis
      using assms(2) stored_entry[OF 2(1)] manager_upsert_cases[OF up] versioned_json[OF assms(3)]
      by (auto simp: peers_json_def split: if_splits)
  qed
qed

lemma write_peer_json:
  assumes "pebble_laws P cont" and "peers_json (s, c)" and "\<And>p. checked = Inr p \<Longrightarrow> json_ok (enc_Peer p)"
    and "write_peer P (Some (collector_manager E)) tick reason checked (s, c) = ((s', c'), r)"
  shows "peers_json (s', c')"
proof (cases checked)
  case (Inl e)
  then show ?thesis using assms by (simp add: write_peer_def)
next
  case (Inr p)
  obtain s1 c1 r1 where put: "put_and_upsert P (Some (collector_manager E)) tick p reason (s, c) = ((s1, c1), r1)" by (metis prod.collapse)
  have "s1 = s'" "c1 = c'" using assms(4) Inr put by (auto simp: write_peer_def)
  then show ?thesis using put_and_upsert_json[OF assms(1,2) _ put] assms(3)[OF Inr] by simp
qed

text \<open>Calls that add no peer: what they leave was there before.\<close>

definition fewer_peers :: "('db, 'e Collector) system \<Rightarrow> ('db, 'e Collector) system \<Rightarrow> bool" where
  "fewer_peers sys sys' \<longleftrightarrow> (\<forall>i p. entry (fst sys') i = Some p \<longrightarrow> entry (fst sys) i = Some p) \<and>
     (\<forall>i p. fmlookup (co_peers (snd sys')) i = Some p \<longrightarrow> fmlookup (co_peers (snd sys)) i = Some p)"

lemma fewer_json: "fewer_peers sys sys' \<Longrightarrow> peers_json sys \<Longrightarrow> peers_json sys'"
  unfolding fewer_peers_def peers_json_def by blast

lemma fewer_refl [simp]: "fewer_peers sys sys"
  by (simp add: fewer_peers_def)

lemma fewer_trans: "fewer_peers a b \<Longrightarrow> fewer_peers b c \<Longrightarrow> fewer_peers a c"
  by (auto simp: fewer_peers_def)

lemma delete_fewer:
  assumes "pm_delete (collector_manager E) i c = (c', err)"
  shows "fewer_peers (s, c) (s, c')"
  using manager_delete_cases[OF assms] by (auto simp: fewer_peers_def split: if_splits)

lemma drop_fewer:
  assumes "pebble_laws P cont" and "drop_peer P tick p reason s = (s', r)"
  shows "fewer_peers (s, c) (s', c)"
proof -
  from drop_peer_cases[OF assms] consider "untouched cont s s'" | "removed s (pr_id p) s'" by blast
  then show ?thesis
  proof cases
    case 1
    then show ?thesis by (simp add: untouched_def entry_def fewer_peers_def)
  next
    case 2
    then show ?thesis using removed_entry[OF 2] by (auto simp: fewer_peers_def split: if_splits)
  qed
qed

lemma DeletePeer_fewer:
  assumes "pebble_laws P cont" and "DeletePeer P (Some (collector_manager E)) tick i expected (s, c) = ((s', c'), r)"
  shows "fewer_peers (s, c) (s', c')"
proof (cases "version_check s i expected")
  case (Inl e)
  then show ?thesis using assms by (simp add: DeletePeer_def)
next
  case (Inr p)
  obtain c1 err where del: "pm_delete (collector_manager E) (pr_id p) c = (c1, err)" by fastforce
  obtain s1 r1 where drop: "drop_peer P tick p ''peer deleted'' s = (s1, r1)" by fastforce
  have "(s', c') = (s, c1) \<or> (s', c') = (s1, c1)"
    using assms(2) Inr del drop by (cases err) (auto simp: DeletePeer_def manager_def)
  then show ?thesis using delete_fewer[OF del, of s] drop_fewer[OF assms(1) drop, of c1] fewer_trans by blast
qed

lemma ResetPeer_fewer:
  assumes "ResetPeer (Some (collector_manager E)) i soft (s, c) = ((s', c'), r)"
  shows "fewer_peers (s, c) (s', c')"
proof -
  obtain c1 err where res: "pm_reset (collector_manager E) i soft c = (c1, err)" by fastforce
  show ?thesis
    using assms res manager_reset_frame[OF res] by (auto simp: ResetPeer_def manager_def fewer_peers_def split: sum.splits option.splits)
qed

lemma replace_loop_fewer:
  "pebble_laws P cont \<Longrightarrow> replace_loop P (Some (collector_manager E)) clk k incoming ps (s, c) = ((s', c'), r) \<Longrightarrow>
     fewer_peers (s, c) (s', c')"
proof (induction ps arbitrary: k s c)
  case (Cons p ps)
  obtain c1 err where del: "pm_delete (collector_manager E) (pr_id p) c = (c1, err)" by fastforce
  obtain s1 r1 where drop: "drop_peer P (clk k) p ''peer removed by configuration import'' s = (s1, r1)" by fastforce
  note one = delete_fewer[OF del, of s] and two = fewer_trans[OF delete_fewer[OF del] drop_fewer[OF Cons.prems(1) drop]]
  consider "pr_id p \<in> set incoming" | e where "pr_id p \<notin> set incoming" "err = Some e" | "pr_id p \<notin> set incoming" "err = None"
    by (cases err) auto
  then show ?case
  proof cases
    case 1
    then show ?thesis using Cons by simp
  next
    case 2
    then show ?thesis using Cons.prems(2) del one by (auto simp: manager_def)
  next
    case 3
    then show ?thesis
      using Cons.prems(2) del drop two Cons.IH[OF Cons.prems(1), of "Suc k" s1 c1] fewer_trans
      by (cases r1) (auto simp: manager_def)
  qed
qed simp

lemma imported_json:
  "json_ok (enc_Peer p) \<Longrightarrow> (\<And>q. old = Some q \<Longrightarrow> json_ok (enc_Peer q)) \<Longrightarrow> json_ok (enc_Peer (imported old p))"
  by (auto simp: imported_def json_ok_Peer split: option.split)

lemma import_loop_json:
  "pebble_laws P cont \<Longrightarrow> peers_json (s, c) \<Longrightarrow> \<forall>p\<in>set ps. json_ok (enc_Peer p) \<Longrightarrow>
     import_loop P (Some (collector_manager E)) clk k ps out (s, c) = ((s', c'), r) \<Longrightarrow> peers_json (s', c')"
proof (induction ps arbitrary: k out s c)
  case (Cons p ps)
  let ?p = "imported (entry s (pr_id p)) p"
  obtain s1 c1 r1 where put: "put_and_upsert P (Some (collector_manager E)) (clk k) ?p ''peer configuration imported'' (s, c) = ((s1, c1), r1)"
    by (metis prod.collapse)
  have "json_ok (enc_Peer ?p)" using Cons.prems(2,3) by (intro imported_json) (auto simp: peers_json_def)
  from put_and_upsert_json[OF Cons.prems(1,2) this put] have "peers_json (s1, c1)" .
  then show ?case
    using Cons.prems(3,4) put Cons.IH[OF Cons.prems(1), of s1 c1] by (cases r1) (auto simp: import_loop_Cons simp del: import_loop.simps)
qed simp

lemma ImportPeerConfig_json:
  assumes "pebble_laws P cont" and "peers_json (s, c)"
    and "\<And>inputs. unyaml data = Inr inputs \<Longrightarrow> \<forall>p. Some p \<in> set inputs \<longrightarrow> json_ok (enc_Peer p)"
    and "ImportPeerConfig P (Some (collector_manager E)) unyaml it clk data replace (s, c) = ((s', c'), r)"
  shows "peers_json (s', c')"
proof (cases "\<exists>inputs u. unyaml data = Inr inputs \<and> import_check (Store_Snapshot it s) inputs = Inr u")
  case False
  then have "(s', c') = (s, c)" using assms(4) by (auto simp: ImportPeerConfig_def Let_def split: sum.splits)
  then show ?thesis using assms(2) by simp
next
  case True
  then obtain inputs u where inp: "unyaml data = Inr inputs" "import_check (Store_Snapshot it s) inputs = Inr u" by blast
  let ?ps = "List.map_filter (\<lambda>p. p) inputs" and ?snap = "Store_Snapshot it s"
  obtain s1 c1 r1 where imp: "import_loop P (Some (collector_manager E)) clk 0 ?ps [] (s, c) = ((s1, c1), r1)" by (metis prod.collapse)
  obtain s2 c2 r2 where rep: "replace_loop P (Some (collector_manager E)) clk (length ?ps) (map pr_id ?ps) (sn_peers ?snap) (s1, c1) =
      ((s2, c2), r2)" by (metis prod.collapse)
  have "\<forall>p\<in>set ?ps. json_ok (enc_Peer p)" using assms(3)[OF inp(1)] by (auto simp: List.map_filter_def)
  from import_loop_json[OF assms(1,2) this imp] have "peers_json (s1, c1)" .
  moreover from this have "peers_json (s2, c2)" by (rule fewer_json[OF replace_loop_fewer[OF assms(1) rep]])
  moreover have "(s', c') = (s1, c1) \<or> (s', c') = (s2, c2)"
    using assms(4) inp imp rep by (cases r1; cases r2; cases replace) (auto simp: ImportPeerConfig_def)
  ultimately show ?thesis by auto
qed

section \<open>The invariant\<close>

definition server_inv ::
  "('db \<Rightarrow> contents) \<Rightarrow> nat \<Rightarrow> (nat \<Rightarrow> memory) \<Rightarrow> (nat \<Rightarrow> TopologyEvent) \<Rightarrow> ('db, 'e Collector) system \<Rightarrow> bool" where
  "server_inv cont lo M H sys \<longleftrightarrow> store_inv cont lo M H (fst sys) \<and> running_ok sys \<and>
     clean \<lparr>rc_store = fst sys, rc_sources = co_sources (snd sys)\<rparr> \<and> peers_json sys"

text \<open>An operation that takes steps of the store and keeps the rest of the invariant.\<close>

definition server_steps :: "'db pebble \<Rightarrow> ('db, 'e Collector) system \<Rightarrow> ('db, 'e Collector) system \<Rightarrow> bool" where
  "server_steps P sys sys' \<longleftrightarrow> (store_step P)\<^sup>*\<^sup>* (fst sys) (fst sys') \<and> peers_json sys' \<and>
     clean \<lparr>rc_store = fst sys', rc_sources = co_sources (snd sys')\<rparr>"

lemma clean_cong: "rc_sources r = rc_sources r' \<Longrightarrow> clean r \<longleftrightarrow> clean r'"
  by (simp add: clean_def sources_of_def)

lemma upd_json:
  assumes "peers_json (s, c)" and "json_ok (enc_Peer p)" and "entry s' = entry s \<or> entry s' = (entry s)(i \<mapsto> p)"
  shows "peers_json (s', c)"
  using assms by (auto simp: peers_json_def split: if_splits)

lemma incrementRejected_steps:
  assumes "peers_json (s, c)" and "keyed s" and "Suc (unat (st_revision s)) < 2 ^ 64" and "pebble_laws P cont"
    and "incrementRejected P now peer s = (s', r)"
  shows "(store_step P)\<^sup>*\<^sup>* s s' \<and> peers_json (s', c) \<and> unat (st_revision s') \<le> Suc (unat (st_revision s))"
proof (cases "entry s (pr_id peer)")
  case None
  then show ?thesis using assms by (simp add: incrementRejected_def Get_peer_eq)
next
  case (Some p)
  let ?q = "p\<lparr>pr_rejected_updates := pr_rejected_updates p + 1\<rparr>"
  have json: "json_ok (enc_Peer p)" using assms(1) Some by (simp add: peers_json_def)
  obtain v res where app: "Apply P None now (peer_mutation ?q False ''BGP-LS update rejected'') s = (s', v, res)"
    using assms(5) Some by (auto simp: incrementRejected_def Get_peer_eq split: prod.splits)
  have "mutation_ok (peer_mutation ?q False ''BGP-LS update rejected'')"
    using json by (simp add: mutation_ok_def enc_entity_def json_ok_Peer utf8_ascii)
  from apply_step[OF app this assms(3)] have "store_step P s s'" by (rule live)
  moreover have "json_ok (enc_Peer (versioned s ?q))" using json by (simp add: json_ok_Peer versioned_def)
  then have "peers_json (s', c)" by (rule upd_json[OF assms(1)]) (use Apply_peer_cases[OF assms(4) app] in auto)
  ultimately show ?thesis using Apply_revision[OF app assms(3)] by blast
qed

lemma peers_json_cong: "entry s' = entry s \<Longrightarrow> co_peers c' = co_peers c \<Longrightarrow> peers_json (s, c) \<Longrightarrow> peers_json (s', c')"
  by (simp add: peers_json_def)

lemma reconcile_path_steps:
  assumes "pebble_laws P cont" and "iter_order (w_it w)" and "pr_id peer \<noteq> []" and "sources_inv (s, c)"
    and "clean \<lparr>rc_store = s, rc_sources = co_sources c\<rparr>" and "json_ok (enc_Peer peer)"
    and "path_json (w\<lparr>w_ctx := None\<rparr>) (pr_domain_id peer) path"
    and "unat (st_revision s) + path_weight (w\<lparr>w_ctx := None\<rparr>) (pr_domain_id peer) path < 2 ^ 64"
    and "reconcile_path P w peer path (s, c) = ((s', c'), res)"
  shows "(store_step P)\<^sup>*\<^sup>* s s' \<and> clean \<lparr>rc_store = s', rc_sources = co_sources c'\<rparr> \<and>
    Suc (unat (st_revision s')) \<le> unat (st_revision s) + path_weight (w\<lparr>w_ctx := None\<rparr>) (pr_domain_id peer) path"
proof -
  let ?r = "\<lparr>rc_store = s, rc_sources = co_sources c\<rparr>" and ?w = "w\<lparr>w_ctx := None\<rparr>"
  obtain r' q where run: "handlePath P ?w peer path ?r = (r', q)" by (cases "handlePath P ?w peer path ?r")
  have eq: "s' = rc_store r'" "rc_sources r' = co_sources c'"
    using assms(9) run by (auto simp: reconcile_path_def safeHandlePath_def split: sum.splits path_fault.splits)
  have utf: "utf8_valid (pr_id peer)" "utf8_valid (pr_domain_id peer)" using assms(6) by (simp_all add: json_ok_Peer)
  have "(store_step P)\<^sup>*\<^sup>* (rc_store ?r) (rc_store r') \<and> clean r' \<and>
      Suc (unat (st_revision (rc_store r'))) \<le> unat (st_revision (rc_store ?r)) + path_weight ?w (pr_domain_id peer) path"
    by (rule handlePath_steps[OF assms(7,5) _ _ assms(3) utf _ run]) (use assms(2,4,8) in \<open>simp_all add: sources_inv_def\<close>)
  then show ?thesis using eq clean_cong[of r' "\<lparr>rc_store = s', rc_sources = co_sources c'\<rparr>"] by simp
qed

lemma known_path_steps:
  assumes "pebble_laws P cont" and "iter_order (w_it w)" and "pr_id peer \<noteq> []" and "keyed s" and "sources_inv (s, c)"
    and "pa_Nlri path \<noteq> LsAddrPrefix None"
    and "clean \<lparr>rc_store = s, rc_sources = co_sources c\<rparr>" and "json_ok (enc_Peer peer)" and "peers_json (s, c)"
    and "path_json (w\<lparr>w_ctx := None\<rparr>) (pr_domain_id peer) path"
    and "unat (st_revision s) + path_weight (w\<lparr>w_ctx := None\<rparr>) (pr_domain_id peer) path < 2 ^ 64"
    and "known_path P w peer path (s, c) = ((s', c'), r)"
  shows "server_steps P (s, c) (s', c') \<and>
    unat (st_revision s') \<le> unat (st_revision s) + path_weight (w\<lparr>w_ctx := None\<rparr>) (pr_domain_id peer) path"
proof -
  obtain s1 c1 q where run: "reconcile_path P w peer path (s, c) = ((s1, c1), q)" by (metis prod.collapse)
  note fr = reconcile_path_frame[OF assms(1-3,5) run] and st = reconcile_path_steps[OF assms(1-3,5,7,8,10,11) run]
  have pj: "peers_json (s1, c1)" by (rule peers_json_cong[OF _ _ assms(9)]) (use fr in \<open>simp_all add: same_registry_def\<close>)
  have k1: "keyed s1" using fr assms(4) by (simp add: keyed_def)
  obtain s2 r2 where inc: "incrementRejected P (w_later w) peer s1 = (s2, r2)" by (cases "incrementRejected P (w_later w) peer s1")
  have room: "Suc (unat (st_revision s1)) < 2 ^ 64" using st assms(11) by linarith
  note rej = incrementRejected_steps[OF pj k1 room assms(1) inc]
  have "\<exists>kind. nlriKind path = Inr kind" using assms(6) by (auto simp: nlriKind_def split: Nlri.split option.split)
  then obtain kind where kind: "nlriKind path = Inr kind" by blast
  have "(s' = s1 \<or> s' = s2) \<and> co_sources c' = co_sources c1 \<and> co_peers c' = co_peers c1"
  proof (cases q)
    case (Inr u)
    then show ?thesis using assms(12) run kind by (auto simp: known_path_def count_path_def)
  next
    case (Inl f)
    then obtain e where "q = Inl (Error e)" using fr by blast
    then show ?thesis using assms(12) run kind inc by (auto simp: known_path_def count_path_def count_error_def split: if_splits)
  qed
  then show ?thesis
    using st rej pj clean_cong[of "\<lparr>rc_store = s', rc_sources = co_sources c'\<rparr>" "\<lparr>rc_store = s1, rc_sources = co_sources c1\<rparr>"]
    by (auto simp: server_steps_def peers_json_def)
qed

section \<open>Events\<close>

fun batch_json :: "'e Collector \<Rightarrow> (nat \<Rightarrow> world) \<Rightarrow> nat \<Rightarrow> LsPath list \<Rightarrow> bool" where
  "batch_json c w k [] = True"
| "batch_json c w k (path # paths) = ((case peerForAddress c (Addr_String (pa_PeerAddress path)) of
     Some (Some peer) \<Rightarrow> path_json ((w k)\<lparr>w_ctx := None\<rparr>) (pr_domain_id peer) path | _ \<Rightarrow> True) \<and> batch_json c w (Suc k) paths)"

fun batch_weight :: "'e Collector \<Rightarrow> (nat \<Rightarrow> world) \<Rightarrow> nat \<Rightarrow> LsPath list \<Rightarrow> nat" where
  "batch_weight c w k [] = 0"
| "batch_weight c w k (path # paths) = (case peerForAddress c (Addr_String (pa_PeerAddress path)) of
     Some (Some peer) \<Rightarrow> path_weight ((w k)\<lparr>w_ctx := None\<rparr>) (pr_domain_id peer) path | _ \<Rightarrow> 0) + batch_weight c w (Suc k) paths"

lemma batch_cong:
  assumes "same_registry c c'"
  shows "batch_json c' w k paths = batch_json c w k paths" and "batch_weight c' w k paths = batch_weight c w k paths"
proof -
  have "peerForAddress c' = peerForAddress c" using assms by (auto simp: fun_eq_iff peerForAddress_def same_registry_def split: option.splits)
  then show "batch_json c' w k paths = batch_json c w k paths" "batch_weight c' w k paths = batch_weight c w k paths"
    by (induction paths arbitrary: k) simp_all
qed

lemma server_steps_refl:
  "peers_json sys \<Longrightarrow> clean \<lparr>rc_store = fst sys, rc_sources = co_sources (snd sys)\<rparr> \<Longrightarrow> server_steps P sys sys"
  by (simp add: server_steps_def)

lemma server_steps_trans: "server_steps P a b \<Longrightarrow> server_steps P b c \<Longrightarrow> server_steps P a c"
  by (auto simp: server_steps_def)

lemma path_step_steps:
  assumes "pebble_laws P cont" and "iter_order (w_it w)" and "collector_ok (s, c)" and "pa_Nlri path \<noteq> LsAddrPrefix None"
    and "clean \<lparr>rc_store = s, rc_sources = co_sources c\<rparr>" and "peers_json (s, c)"
    and "batch_json c (\<lambda>k. w) 0 [path]" and "unat (st_revision s) + batch_weight c (\<lambda>k. w) 0 [path] < 2 ^ 64"
    and "path_step P w path (s, c) = ((s', c'), r)"
  shows "server_steps P (s, c) (s', c') \<and> unat (st_revision s') \<le> unat (st_revision s) + batch_weight c (\<lambda>k. w) 0 [path]"
proof (cases "\<exists>peer. pa_LS path \<and> peerForAddress c (Addr_String (pa_PeerAddress path)) = Some (Some peer)")
  case True
  then obtain peer where peer: "pa_LS path" "peerForAddress c (Addr_String (pa_PeerAddress path)) = Some (Some peer)" by blast
  then obtain i where "fmlookup (co_peers c) i = Some peer" by (auto simp: peerForAddress_def split: option.splits)
  then have reg: "pr_id peer \<noteq> []" "json_ok (enc_Peer peer)"
    using assms(3,6) by (auto simp: collector_ok_def registry_ids_def peers_json_def)
  have ok: "keyed s" "sources_inv (s, c)" using assms(3) by (simp_all add: collector_ok_def)
  have run: "known_path P w peer path (s, c) = ((s', c'), r)" using assms(9) peer by (simp add: path_step_def)
  show ?thesis
    using known_path_steps[OF assms(1,2) reg(1) ok assms(4,5) reg(2) assms(6) _ _ run] assms(7,8) peer(2) by simp
next
  case False
  then have "(s', c') = (s, c)"
    using assms(9) by (auto simp: path_step_def split: if_splits option.splits)
  then show ?thesis using assms(5,6) by (simp add: server_steps_def)
qed

lemma handlePaths_steps:
  "pebble_laws P cont \<Longrightarrow> \<forall>k. iter_order (w_it (w k)) \<Longrightarrow> collector_ok (s, c) \<Longrightarrow>
     \<forall>path\<in>set paths. pa_Nlri path \<noteq> LsAddrPrefix None \<Longrightarrow> clean \<lparr>rc_store = s, rc_sources = co_sources c\<rparr> \<Longrightarrow> peers_json (s, c) \<Longrightarrow>
     batch_json c w k paths \<Longrightarrow> unat (st_revision s) + batch_weight c w k paths < 2 ^ 64 \<Longrightarrow>
     handlePaths P w k paths (s, c) = ((s', c'), r) \<Longrightarrow> server_steps P (s, c) (s', c')"
proof (induction paths arbitrary: k s c)
  case Nil
  then show ?case by (simp add: server_steps_def)
next
  case (Cons path paths)
  obtain s1 c1 r1 where step: "path_step P (w k) path (s, c) = ((s1, c1), r1)" by (metis prod.collapse)
  have one: "r1 = Inr ()" "collector_ok (s1, c1)" "same_registry c c1"
    using path_step_collector_ok[OF Cons.prems(1) _ Cons.prems(3) _ step] Cons.prems(2,4) by auto
  have st: "server_steps P (s, c) (s1, c1) \<and>
      unat (st_revision s1) \<le> unat (st_revision s) + batch_weight c (\<lambda>j. w k) 0 [path]"
    by (rule path_step_steps[OF Cons.prems(1) _ Cons.prems(3) _ Cons.prems(5,6) _ _ step])
      (use Cons.prems(2,4,7,8) in auto)
  have rest: "handlePaths P w (Suc k) paths (s1, c1) = ((s', c'), r)" using Cons.prems(9) step one(1) by simp
  have fit: "unat (st_revision s1) + batch_weight c1 w (Suc k) paths < 2 ^ 64"
    using st Cons.prems(8) by (simp add: batch_cong(2)[OF one(3)])
  have "server_steps P (s1, c1) (s', c')"
    by (rule Cons.IH[OF Cons.prems(1,2) one(2) _ _ _ _ fit rest])
      (use Cons.prems(4,7) st in \<open>simp_all add: batch_cong(1)[OF one(3)] server_steps_def\<close>)
  then show ?case using st server_steps_trans by blast
qed

lemma handlePeer_steps:
  assumes "pebble_laws P cont" and "running_ok (s, c)" and "peers_json (s, c)" and "clean \<lparr>rc_store = s, rc_sources = co_sources c\<rparr>"
    and "\<And>ev. event = Some ev \<Longrightarrow> utf8_valid (formatAddr (pe_RouterID ev)) \<and> utf8_valid (pe_DisconnectMessage ev)"
    and "Suc (unat (st_revision s)) < 2 ^ 64" and "handlePeer P now event observed (s, c) = ((s', c'), r)"
  shows "server_steps P (s, c) (s', c')"
proof (cases "\<exists>ev p. event = Some ev \<and> pe_is_state ev \<and> peerForAddress c (Addr_String (pe_NeighborAddress ev)) = Some (Some p)")
  case False
  then have "(s', c') = (s, c)"
    using assms(7) by (cases event) (auto simp: handlePeer_def split: option.splits if_splits)
  then show ?thesis using assms(3,4) by (simp add: server_steps_def)
next
  case True
  then obtain ev p where ev: "event = Some ev" "pe_is_state ev" "peerForAddress c (Addr_String (pe_NeighborAddress ev)) = Some (Some p)"
    by blast
  let ?q = "session_peer ev observed p"
  obtain v res where app: "Apply P None now (peer_mutation ?q False ''BGP session state changed'') s = (s', v, res)" and c': "c' = c"
    using assms(7) ev by (auto simp: handlePeer_def split: prod.splits)
  have "\<exists>i. fmlookup (co_peers c) i = Some p" using ev(3) by (auto simp: peerForAddress_def split: option.splits)
  then have json: "json_ok (enc_Peer p)" using assms(3) by (auto simp: peers_json_def)
  have q: "json_ok (enc_Peer ?q)" using session_json[OF json] assms(5)[OF ev(1)] by blast
  then have "mutation_ok (peer_mutation ?q False ''BGP session state changed'')"
    by (simp add: mutation_ok_def enc_entity_def json_ok_Peer utf8_ascii)
  from apply_step[OF app this assms(6)] have "store_step P s s'" by (rule live)
  moreover have "peers_json (s', c)"
    by (rule upd_json[OF assms(3) versioned_json[OF q]]) (use Apply_peer_cases[OF assms(1) app] in auto)
  ultimately show ?thesis
    using assms(4) c' clean_cong[of "\<lparr>rc_store = s', rc_sources = co_sources c\<rparr>" "\<lparr>rc_store = s, rc_sources = co_sources c\<rparr>"]
    by (auto simp: server_steps_def)
qed

section \<open>Requests\<close>

text \<open>What no operation of a peer manager changes, no call of the service changes.\<close>

locale manager_frame =
  fixes M :: "'p PeerManager" and part :: "'p \<Rightarrow> 'a"
  assumes upsert_part: "part (fst (pm_upsert M p m)) = part m"
    and delete_part: "part (fst (pm_delete M i m)) = part m"
    and reset_part: "part (fst (pm_reset M i soft m)) = part m"
begin

lemma put_and_upsert_part: "put_and_upsert P (Some M) tick p reason (s, m) = ((s', m'), r) \<Longrightarrow> part m' = part m"
  using upsert_part by (auto simp: put_and_upsert_def manager_def split: prod.splits sum.splits) (metis fst_conv)

lemma write_peer_part: "write_peer P (Some M) tick reason checked (s, m) = ((s', m'), r) \<Longrightarrow> part m' = part m"
  by (auto simp: write_peer_def split: sum.splits prod.splits dest: put_and_upsert_part)

lemma delete_part_eq: "pm_delete M i m = (m', err) \<Longrightarrow> part m' = part m"
  using delete_part[of i m] by simp

lemma DeletePeer_part: "DeletePeer P (Some M) tick i v (s, m) = ((s', m'), r) \<Longrightarrow> part m' = part m"
  by (auto simp: DeletePeer_def manager_def split: sum.splits prod.splits option.splits dest: delete_part_eq)

lemma ResetPeer_part: "ResetPeer (Some M) i soft (s, m) = ((s', m'), r) \<Longrightarrow> part m' = part m"
  using reset_part[of i soft m] by (auto simp: ResetPeer_def manager_def split: sum.splits prod.splits option.splits)

lemma import_loop_part: "import_loop P (Some M) clk k ps out (s, m) = ((s', m'), r) \<Longrightarrow> part m' = part m"
proof (induction ps arbitrary: k out s m)
  case (Cons p ps)
  obtain s1 m1 r1 where put: "put_and_upsert P (Some M) (clk k) (imported (entry s (pr_id p)) p) ''peer configuration imported'' (s, m) =
    ((s1, m1), r1)" by (metis prod.collapse)
  then show ?case
    using Cons.prems put_and_upsert_part[OF put] Cons.IH[of "Suc k" _ s1 m1]
    by (cases r1) (auto simp: import_loop_Cons simp del: import_loop.simps)
qed simp

lemma replace_loop_part: "replace_loop P (Some M) clk k incoming ps (s, m) = ((s', m'), r) \<Longrightarrow> part m' = part m"
proof (induction ps arbitrary: k s m)
  case (Cons p ps)
  obtain m1 err where del: "pm_delete M (pr_id p) m = (m1, err)" by fastforce
  obtain s1 r1 where drop: "drop_peer P (clk k) p ''peer removed by configuration import'' s = (s1, r1)" by fastforce
  show ?case
  proof (cases "pr_id p \<in> set incoming")
    case True
    then show ?thesis using Cons by simp
  next
    case False
    then show ?thesis
      using Cons.prems del drop delete_part_eq[OF del] Cons.IH[of "Suc k" s1 m1]
      by (cases err; cases r1) (auto simp: manager_def)
  qed
qed simp

lemma ImportPeerConfig_part:
  assumes "ImportPeerConfig P (Some M) unyaml it clk data replace (s, m) = ((s', m'), r)"
  shows "part m' = part m"
proof (cases "\<exists>inputs u. unyaml data = Inr inputs \<and> import_check (Store_Snapshot it s) inputs = Inr u")
  case False
  then show ?thesis using assms by (auto simp: ImportPeerConfig_def Let_def split: sum.splits)
next
  case True
  then obtain inputs u where inp: "unyaml data = Inr inputs" "import_check (Store_Snapshot it s) inputs = Inr u" by blast
  let ?ps = "List.map_filter (\<lambda>p. p) inputs" and ?snap = "Store_Snapshot it s"
  obtain s1 m1 r1 where imp: "import_loop P (Some M) clk 0 ?ps [] (s, m) = ((s1, m1), r1)" by (metis prod.collapse)
  obtain s2 m2 r2 where rep: "replace_loop P (Some M) clk (length ?ps) (map pr_id ?ps) (sn_peers ?snap) (s1, m1) =
      ((s2, m2), r2)" by (metis prod.collapse)
  have "m' = m1 \<or> m' = m2"
    using assms inp imp rep by (cases r1; cases r2; cases replace) (auto simp: ImportPeerConfig_def)
  then show ?thesis using import_loop_part[OF imp] replace_loop_part[OF rep] by auto
qed

end

interpretation cs: manager_frame "collector_manager E" co_sources for E :: "'e engine"
  by unfold_locales (rule manager_sources)+

definition request_json :: "('body, 'db, 'p) collector_env \<Rightarrow> 'body Request \<Rightarrow> 'db Store \<Rightarrow> bool" where
  "request_json env r s \<longleftrightarrow> Suc (unat (st_revision s)) < 2 ^ 64 \<and>
     (rq_path r = collector_procedure CreatePeerM \<longrightarrow> (case ce_peer env (rq_body r) of Some (Some p) \<Rightarrow> json_ok (enc_Peer p) | _ \<Rightarrow> True)) \<and>
     (rq_path r = collector_procedure UpdatePeerM \<longrightarrow>
        (case ce_versioned env (rq_body r) of Some (Some p, v) \<Rightarrow> json_ok (enc_Peer p) | _ \<Rightarrow> True)) \<and>
     (rq_path r = collector_procedure ImportPeerConfigM \<longrightarrow> iter_order (ce_order env) \<and>
        (\<forall>doc replace ps. ce_import env (rq_body r) = Some (doc, replace) \<longrightarrow> ce_unyaml env doc = Inr ps \<longrightarrow>
           (\<forall>p. Some p \<in> set ps \<longrightarrow> json_ok (enc_Peer p)) \<and>
           unat (st_revision s) + length ps + length (sn_peers (Store_Snapshot (ce_order env) s)) < 2 ^ 64))"

lemma import_call_steps:
  assumes "ImportPeerConfig P (Some (collector_manager E)) unyaml it clk doc replace (s, c) = ((s', c'), xs)"
    and "pebble_laws P cont" and "pebble_reads P" and "store_inv cont lo M H s" and "peers_json (s, c)" and "iter_order it"
    and "\<And>ps. unyaml doc = Inr ps \<Longrightarrow> (\<forall>p. Some p \<in> set ps \<longrightarrow> json_ok (enc_Peer p)) \<and>
      unat (st_revision s) + length ps + length (sn_peers (Store_Snapshot it s)) < 2 ^ 64"
  shows "(store_step P)\<^sup>*\<^sup>* s s' \<and> peers_json (s', c') \<and> co_sources c' = co_sources c"
proof -
  have "(store_step P)\<^sup>*\<^sup>* s s'" by (rule ImportPeerConfig_steps[OF assms(1-4,6,7)])
  moreover have "peers_json (s', c')" by (rule ImportPeerConfig_json[OF assms(2,5) _ assms(1)]) (use assms(7) in blast)
  ultimately show ?thesis using cs.ImportPeerConfig_part[OF assms(1)] by simp
qed

lemma service_call_steps:
  assumes "service_call env b m (s, c) (s', c')" and "pebble_laws (ce_pebble env) cont" and "pebble_reads (ce_pebble env)"
    and "ce_peers env = Some (collector_manager E)" and "store_inv cont lo M H s" and "peers_json (s, c)"
    and "request_json env r s" and "rq_path r = collector_procedure m" and "rq_body r = b"
  shows "(store_step (ce_pebble env))\<^sup>*\<^sup>* s s' \<and> peers_json (s', c') \<and> co_sources c' = co_sources c"
  using assms(1)
proof cases
  case no_call
  then show ?thesis using assms(6) by simp
next
  case (create_call req x)
  have json: "json_ok (enc_Peer p)" if "req = Some p" for p using assms(7-9) create_call(1,2) that by (simp add: request_json_def)
  note run = create_call(3)[unfolded CreatePeer_def assms(4) fst_conv]
  have "peers_json (s', c')" by (rule write_peer_json[OF assms(2,6) _ run]) (use json in \<open>auto simp: create_check_Inr json_ok_Peer\<close>)
  then show ?thesis
    using CreatePeer_steps[OF create_call(3)] json assms(7) cs.write_peer_part[OF run] by (simp add: request_json_def)
next
  case (update_call req v x)
  have json: "json_ok (enc_Peer p)" if "req = Some p" for p using assms(7-9) update_call(1,2) that by (simp add: request_json_def)
  note run = update_call(3)[unfolded UpdatePeer_def assms(4) fst_conv]
  have "peers_json (s', c')"
    by (rule write_peer_json[OF assms(2,6) _ run])
      (use json assms(6) in \<open>auto simp: update_check_Inr updated_peer_def json_ok_Peer peers_json_def\<close>)
  then show ?thesis
    using UpdatePeer_steps[OF assms(5) update_call(3)] json assms(7) cs.write_peer_part[OF run] by (simp add: request_json_def)
next
  case (delete_call i v u)
  note run = delete_call(2)[unfolded assms(4)]
  show ?thesis
    using DeletePeer_steps[OF assms(5) delete_call(2)] fewer_json[OF DeletePeer_fewer[OF assms(2) run] assms(6)] assms(7)
      cs.DeletePeer_part[OF run] by (simp add: request_json_def)
next
  case (admin_call i on v x)
  note run = admin_call(2)[unfolded SetPeerAdminState_def assms(4) fst_conv]
  have "peers_json (s', c')"
    by (rule write_peer_json[OF assms(2,6) _ run])
      (use assms(6) in \<open>auto simp: bindR_Inr_iff version_check_Inr json_ok_Peer peers_json_def Let_def\<close>)
  then show ?thesis
    using SetPeerAdminState_steps[OF assms(5) admin_call(2)] assms(7) cs.write_peer_part[OF run] by (simp add: request_json_def)
next
  case (reset_call i soft x)
  note run = reset_call(2)[unfolded assms(4)]
  show ?thesis
    using ResetPeer_store[OF run] fewer_json[OF ResetPeer_fewer[OF run] assms(6)] cs.ResetPeer_part[OF run] by simp
next
  case (import_call doc replace xs)
  show ?thesis
    by (rule import_call_steps[OF import_call(3)[unfolded assms(4)] assms(2,3,5,6)])
      (use assms(7-9) import_call(1,2) in \<open>auto simp: request_json_def\<close>)
qed

section \<open>Runs\<close>

fun op_json :: "('db, 'e) server \<Rightarrow> ('body, 'db, 'e) server_op \<Rightarrow> ('db, 'e Collector) system \<Rightarrow> bool" where
  "op_json S (Http env renv r) sys = (request_json env r (fst sys) \<and> iter_order (re_order renv) \<and>
     \<not> blocked (se_pebble S) renv r (fst sys))"
| "op_json S (SessionEvent now event observed) sys = (Suc (unat (st_revision (fst sys))) < 2 ^ 64 \<and>
     (case event of None \<Rightarrow> True | Some ev \<Rightarrow> utf8_valid (formatAddr (pe_RouterID ev)) \<and> utf8_valid (pe_DisconnectMessage ev)))"
| "op_json S (PathEvents w paths) sys = (batch_json (snd sys) w 0 paths \<and>
     unat (st_revision (fst sys)) + batch_weight (snd sys) w 0 paths < 2 ^ 64)"
| "op_json S oper sys = True"

fun ops_json :: "('db, 'e) server \<Rightarrow> ('body, 'db, 'e) server_op list \<Rightarrow> ('db, 'e Collector) system \<Rightarrow> bool" where
  "ops_json S [] sys = True"
| "ops_json S (oper # opers) sys = (op_json S oper sys \<and> ops_json S opers (fst (run_op S oper sys)))"

lemma idle_steps:
  assumes "server_inv cont lo M H (s, c)" and "idle P s s'"
  shows "server_steps P (s, c) (s', c)"
proof -
  note inv = assms(1)[unfolded server_inv_def fst_conv snd_conv]
  have "clean \<lparr>rc_store = s', rc_sources = co_sources c\<rparr>"
    using inv clean_cong[of "\<lparr>rc_store = s', rc_sources = co_sources c\<rparr>" "\<lparr>rc_store = s, rc_sources = co_sources c\<rparr>"] by simp
  then show ?thesis using peers_json_cong[of s' s c c] inv assms(2) by (simp add: server_steps_def idle_def)
qed

lemma handler_steps:
  assumes "pebble_laws (se_pebble S) cont" and "pebble_reads (se_pebble S)" and "server_inv cont lo M H (s, c)"
    and "request_json env q s" and "server_handler S env renv q (s, c) = ((s', c'), rep)"
  shows "server_steps (se_pebble S) (s, c) (s', c')"
  using handler_cases[OF assms(5)]
proof (elim disjE exE conjE)
  assume "c' = c" and "idle (se_pebble S) s s'"
  then show ?thesis using idle_steps[OF assms(3)] by simp
next
  fix m assume m: "rq_path q = collector_procedure m" "service_call (server_env S env) (rq_body q) m (s, c) (s', c')"
  note inv = assms(3)[unfolded server_inv_def fst_conv snd_conv]
  have json: "request_json (server_env S env) q s" using assms(4) by (simp add: request_json_def)
  have "(store_step (se_pebble S))\<^sup>*\<^sup>* s s' \<and> peers_json (s', c') \<and> co_sources c' = co_sources c"
    using service_call_steps[OF m(2) _ _ server_env_simps(2) _ _ json m(1) refl, of cont lo M H] assms(1,2) inv by simp
  moreover have "clean \<lparr>rc_store = s', rc_sources = co_sources c\<rparr>"
    using inv clean_cong[of "\<lparr>rc_store = s', rc_sources = co_sources c\<rparr>" "\<lparr>rc_store = s, rc_sources = co_sources c\<rparr>"] by simp
  ultimately show ?thesis by (simp add: server_steps_def)
qed

lemma run_op_steps:
  assumes "pebble_laws (se_pebble S) cont" and "pebble_reads (se_pebble S)" and "server_inv cont lo M H (s, c)"
    and "op_ok oper s" and "op_json S oper (s, c)" and "run_op S oper (s, c) = ((s', c'), r)"
  shows "server_steps (se_pebble S) (s, c) (s', c')"
proof (cases oper)
  case (Http env renv q)
  then show ?thesis using handler_steps[OF assms(1-3)] assms(5,6) by (auto split: prod.splits)
next
  case (SessionEvent now event observed)
  then show ?thesis
    using handlePeer_steps[OF assms(1), of s c event now observed s' c' r] assms(3)[unfolded server_inv_def] assms(5,6)
    by (simp split: option.splits)
next
  case (PathEvents w paths)
  then show ?thesis
    using handlePaths_steps[OF assms(1) _ running_collector_ok, of w s c paths 0 s' c' r] assms(3)[unfolded server_inv_def] assms(4-6)
    by simp
qed (use idle_op[OF assms(6)] idle_steps[OF assms(3)] in blast)+

text \<open>On a store in a good state no request waits for ever.\<close>

lemma handler_returns:
  assumes "pebble_laws (se_pebble S) cont" and "pebble_reads (se_pebble S)" and "store_inv cont lo M H s"
    and "op_json S (Http env renv q) (s, c)" and "server_handler S env renv q (s, c) = (sys', rep)"
  shows "\<not> waits rep"
proof
  assume "waits rep"
  note reads = reads_answered[OF assms(1-3), of renv]
  have order: "iter_order (re_order renv)" using assms(4) by simp
  have "answered (topology_read (se_pebble S) renv t (rq_body q) s)" if "rq_path q = topology_procedure t" for t
    by (rule reads(1)[OF order]) (use assms(4) that in \<open>auto simp: blocked_def split: option.splits\<close>)
  moreover have "answered (snd (path_service (se_pebble S) renv p q (s, c)))" "answered (snd (history_service (se_pebble S) renv h q (s, c)))"
    for p h by (rule reads(2,3)[OF order])+
  moreover have "snd (collector_service (server_env S env) m q (s, c)) \<noteq> Reply (RpcError Stuck)" for m
    by (rule collector_goes_on[where cont = cont]) (simp add: assms(1))
  ultimately show False using handler_waits[OF assms(5) \<open>waits rep\<close>] by blast
qed

lemma run_op_inv:
  assumes "pebble_laws (se_pebble S) cont" and "pebble_reads (se_pebble S)" and "server_inv cont lo M H (s, c)"
    and "op_ok oper s" and "op_json S oper (s, c)" and "run_op S oper (s, c) = ((s', c'), r)"
  shows "r = Inr () \<and> (\<exists>lo' M' H'. extends_history cont lo M H s lo' M' H' s' \<and> server_inv cont lo' M' H' (s', c'))"
proof -
  note st = run_op_steps[OF assms]
  have inv: "store_inv cont lo M H s" "running_ok (s, c)" using assms(3) by (simp_all add: server_inv_def)
  note run = run_op_running[OF assms(1) inv(2) assms(4,6)]
  have "r = Inr ()"
  proof (cases oper)
    case (Http env renv q)
    obtain sys' rep where h: "server_handler S env renv q (s, c) = (sys', rep)" by fastforce
    have "\<not> waits rep" by (rule handler_returns[OF assms(1,2) inv(1) assms(5)[unfolded Http] h])
    then show ?thesis using assms(6) Http h by simp
  next
    case (SessionEvent now ev observed)
    then show ?thesis using handlePeer_running[OF assms(1) inv(2)] assms(6) by simp
  next
    case (PathEvents w paths)
    then show ?thesis using handlePaths_running[OF assms(1) inv(2), of w paths 0 s' c' r] assms(4,6) by simp
  qed (use assms(6) in auto)
  moreover obtain lo' M' H' where h: "extends_history cont lo M H s lo' M' H' s'"
    using store_steps_inv[OF assms(1,2) inv(1)] st unfolding server_steps_def by (metis fst_conv)
  moreover have "server_inv cont lo' M' H' (s', c')"
    using st run h by (simp add: server_inv_def server_steps_def extends_history_def)
  ultimately show ?thesis by blast
qed

lemma run_ops_inv:
  "pebble_laws (se_pebble S) cont \<Longrightarrow> pebble_reads (se_pebble S) \<Longrightarrow> server_inv cont lo M H sys \<Longrightarrow>
     ops_ok S opers sys \<Longrightarrow> ops_json S opers sys \<Longrightarrow>
     \<exists>sys' lo' M' H'. run_ops S opers sys = (sys', Inr ()) \<and> extends_history cont lo M H (fst sys) lo' M' H' (fst sys') \<and>
       server_inv cont lo' M' H' sys'"
proof (induction opers arbitrary: sys lo M H)
  case Nil
  then show ?case by (auto simp: extends_history_def server_inv_def)
next
  case (Cons oper opers)
  obtain s c s1 c1 r where sys: "sys = (s, c)" and run: "run_op S oper (s, c) = ((s1, c1), r)" by (metis prod.collapse)
  obtain lo1 M1 H1 where one: "r = Inr ()" "extends_history cont lo M H s lo1 M1 H1 s1" "server_inv cont lo1 M1 H1 (s1, c1)"
    using run_op_inv[OF Cons.prems(1,2) _ _ _ run] Cons.prems(3-5) sys by fastforce
  obtain sys' lo' M' H' where "run_ops S opers (s1, c1) = (sys', Inr ())"
    "extends_history cont lo1 M1 H1 s1 lo' M' H' (fst sys')" "server_inv cont lo' M' H' sys'"
    using Cons.IH[OF Cons.prems(1,2) one(3)] Cons.prems(4,5) sys run by auto
  then show ?case
    using sys run one(1) extends_history_trans[OF one(2)] by (intro exI[of _ sys'] exI[of _ lo'] exI[of _ M'] exI[of _ H']) simp
qed

lemma started_inv:
  assumes "engine_laws E sessions" and "store_inv cont lo M H s" and "iter_order it"
    and "Start E (sn_peers (Store_Snapshot it s)) (New_Collector cfg) = (c, Inr ())"
  shows "server_inv cont lo M H (s, c)"
proof -
  have "fmlookup (co_peers c) = entry s" using Start_synced_rule[OF assms] by blast
  then have "peers_json (s, c)" using entry_ok(3)[OF assms(2)] by (simp add: peers_json_def)
  moreover have "clean \<lparr>rc_store = s, rc_sources = co_sources c\<rparr>"
    using Start_sources[OF assms(4)] by (simp add: clean_def sources_of_def)
  ultimately show ?thesis using started_running[OF assms] assms(2) by (simp add: server_inv_def)
qed

lemma serve_inv:
  assumes "pebble_laws P cont" and "pebble_reads P" and "engine_laws E sessions" and "iter_order it"
    and "serve P E X q os it clk (Inr (cfg, None)) = (st, Inr run)"
    and "Open P (os_open_db os (filepath_Join [cf_data_dir cfg, ''topology''])) = Inr s0" and "store_inv cont lo M H s0"
    and "\<forall>m\<in>set (boot_mutations cfg). mutation_ok m" and "length (boot_mutations cfg) < 2 ^ 64"
  shows "\<exists>lo' M' H'. extends_history cont lo M H s0 lo' M' H' (rn_store run) \<and>
    server_inv cont lo' M' H' (rn_store run, rn_collector run)"
proof -
  obtain s c where boot: "bootstrap P clk cfg s0 = (s, None)"
    and start: "Start E (sn_peers (Store_Snapshot it s)) (New_Collector (cf_bgp cfg)) = (c, Inr ())"
    and lis: "start_listeners X q os cfg s c = Inr run"
    using serve_Inr[OF assms(5)] assms(6) by auto
  obtain lo' M' H' where h: "extends_history cont lo M H s0 lo' M' H' s"
    using store_steps_inv[OF assms(1,2,7) bootstrap_steps[OF assms(8,9) boot assms(1)]] by blast
  then have "store_inv cont lo' M' H' s" by (simp add: extends_history_def)
  from started_inv[OF assms(3) this assms(4) start] h show ?thesis using start_listeners_Inr[OF lis] by auto
qed

text \<open>
  C8. The server as a whole keeps its history. The runs are sequences of requests, session events, batches
  of paths, receptions of watches and ticks of the retention loop in which no update or import moves a peer
  of the store, no path has a nil pointer as its NLRI, what is to be stored is UTF-8 and can be written as
  JSON, the revisions are not used up, and no watch has to replay more events than its channel holds.
  Once the process serves, along any such run no event handler panics and no request waits for ever; the
  store stays in a good state, in which the revisions from before the start are what they were and the
  retained events describe the later ones; and whenever the process ends, a process that starts on its
  database has the same entities and registers the same peers.
\<close>

theorem server_keeps_history:
  assumes "pebble_laws P cont" and "pebble_reads P" and "engine_laws E sessions" and "iter_order it"
    and "serve P E X q os it clk (Inr (cfg, None)) = (st, Inr run)"
    and "Open P (os_open_db os (filepath_Join [cf_data_dir cfg, ''topology''])) = Inr s0" and "store_inv cont lo M H s0"
    and "\<forall>m\<in>set (boot_mutations cfg). mutation_ok m" and "length (boot_mutations cfg) < 2 ^ 64"
    and "se_pebble S = P" and "ops_ok S opers (rn_store run, rn_collector run)"
    and "ops_json S opers (rn_store run, rn_collector run)"
  shows "\<exists>s c lo' M' H'. run_ops S opers (rn_store run, rn_collector run) = ((s, c), Inr ()) \<and>
    extends_history cont lo M H s0 lo' M' H' s \<and>
    (\<forall>cfg2 os2 st2 run2. st_revision s \<noteq> 0 \<and> os_open_db os2 (filepath_Join [cf_data_dir cfg2, ''topology'']) = Inr (st_db s) \<and>
       serve P E X q os2 it clk (Inr (cfg2, None)) = (st2, Inr run2) \<longrightarrow>
       st_memory (rn_store run2) = st_memory s \<and> fmlookup (co_peers (rn_collector run2)) = entry s)"
proof -
  obtain lo1 M1 H1 where first: "extends_history cont lo M H s0 lo1 M1 H1 (rn_store run)"
    and inv: "server_inv cont lo1 M1 H1 (rn_store run, rn_collector run)"
    using serve_inv[OF assms(1-9)] by blast
  obtain sys' lo' M' H' where run: "run_ops S opers (rn_store run, rn_collector run) = (sys', Inr ())"
    and second: "extends_history cont lo1 M1 H1 (rn_store run) lo' M' H' (fst sys')"
    using run_ops_inv[OF _ _ inv assms(11,12)] assms(1,2,10) by auto
  obtain s c where sys: "sys' = (s, c)" by (cases sys')
  note h = extends_history_trans[OF first second, unfolded sys fst_conv]
  then have good: "store_inv cont lo' M' H' s" by (simp add: extends_history_def)
  show ?thesis
    using run sys h restart_rule[OF assms(1-4) good] by (intro exI[of _ s] exI[of _ c] exI[of _ lo'] exI[of _ M'] exI[of _ H']) blast
qed

definition lab_run :: "(Peer, contents, string list) server_op list" where
  "lab_run = [lab_request (collector_procedure CreatePeerM) (bgp_peer ''q'' ''10.0.0.1''),
     lab_request (history_procedure DiffTopologyM) (bgp_peer ''q'' ''10.0.0.1''), SessionEvent 40 (Some lab_event) 40,
     RetentionTick (\<lambda>i. None) 50 \<lparr>rt_duration = 0, rt_duration_text = [], rt_max_bytes = 0\<rparr>]"

theorem server_keeps_history_witness:
  "\<exists>run s c lo' M' H'. snd (sample_serve fmempty) = Inr run \<and>
     run_ops lab_server lab_run (rn_store run, rn_collector run) = ((s, c), Inr ()) \<and> store_inv (\<lambda>c. c) lo' M' H' s"
proof -
  let ?run = "projr (snd (sample_serve fmempty))"
  obtain cfg where load: "sample_load = Inr (cfg, None)"
    and ok: "\<forall>m\<in>set (boot_mutations cfg). mutation_ok m" "length (boot_mutations cfg) < 2 ^ 64" using sample_loaded by blast
  obtain st run where run: "sample_serve fmempty = (st, Inr run)" using sample_started by blast
  have S: "se_pebble lab_server = memory_pebble" by (simp add: lab_server_def)
  have "st_revision (rn_store ?run) = 2"
    "st_revision (fst (fst (run_op lab_server (lab_run ! 0) (rn_store ?run, rn_collector ?run)))) = 3"
    "st_revision (fst (fst (run_op lab_server (lab_run ! 1) (fst (run_op lab_server (lab_run ! 0) (rn_store ?run, rn_collector ?run)))))) = 3"
    by code_simp+
  then have room: "st_revision (rn_store run) = 2"
    "st_revision (fst (fst (run_op lab_server (lab_run ! 0) (rn_store run, rn_collector run)))) = 3"
    "st_revision (fst (fst (run_op lab_server (lab_run ! 1) (fst (run_op lab_server (lab_run ! 0) (rn_store run, rn_collector run)))))) = 3"
    using run by simp_all
  have peer: "json_ok (enc_Peer (bgp_peer ''q'' ''10.0.0.1''))" by code_simp
  have ops: "ops_ok lab_server lab_run (rn_store run, rn_collector run)"
    unfolding lab_run_def lab_request_def by (simp add: request_stays_def sample_request_def lab_paths
        del: collector_procedure.simps history_procedure.simps)
  have json: "ops_json lab_server lab_run (rn_store run, rn_collector run)"
    using room peer unfolding lab_run_def lab_request_def
    by (simp add: request_json_def blocked_def sample_request_def lab_env_def lab_event_def formatAddr_def utf8_ascii lab_paths sample_reads_def iter_order_id
        del: run_op.simps collector_procedure.simps history_procedure.simps topology_procedure.simps)
  obtain s c lo' M' H' where "run_ops lab_server lab_run (rn_store run, rn_collector run) = ((s, c), Inr ())"
    "store_inv (\<lambda>c. c) lo' M' H' s"
    using server_keeps_history[OF memory_pebble_laws list_engine_laws iter_order_id(1) run[unfolded sample_serve_def load]
        fresh_opened fresh_store_inv ok S ops json] unfolding extends_history_def by blast
  then show ?thesis using run by (intro exI[of _ run] exI[of _ s] exI[of _ c]) auto
qed

end
