(* ===== verification/Interleaving.thy ===== *)
theory Interleaving
  imports Server_Invariant
begin

text \<open>
  Where an operation gives up a lock between reading and writing, another one can run in between. The
  handler of session events copies the registered peer under the lock of the collector and writes the
  copy to the store later; the reconciler keeps its sources in memory only, so that a restart comes
  between what was read from the peers and what is withdrawn. This theory splits these operations at
  that point.
\<close>

section \<open>Session events and the service\<close>

text \<open>The copy that an event makes of the registered peer, if there is one to make.\<close>

definition session_read :: "PeerEvent option \<Rightarrow> time \<Rightarrow> 'e Collector \<Rightarrow> Peer option result" where
  "session_read event observed c = (case event of None \<Rightarrow> Inr None
   | Some ev \<Rightarrow> if \<not> pe_is_state ev then Inr None
     else case peerForAddress c (Addr_String (pe_NeighborAddress ev)) of
       None \<Rightarrow> Inr None | Some None \<Rightarrow> Inl Panic | Some (Some p) \<Rightarrow> Inr (Some (session_peer ev observed p)))"

definition session_write :: "'db pebble \<Rightarrow> time \<Rightarrow> Peer \<Rightarrow> 'db Store \<Rightarrow> 'db Store \<times> unit result" where
  "session_write P now p s = (case Apply P None now (peer_mutation p False ''BGP session state changed'') s of
     (s', v, r) \<Rightarrow> (s', map_sum id (\<lambda>e. ()) r))"

lemma handlePeer_split:
  "handlePeer P now event observed (s, c) = (case session_read event observed c of
     Inl f \<Rightarrow> ((s, c), Inl f) | Inr None \<Rightarrow> ((s, c), Inr ())
   | Inr (Some p) \<Rightarrow> ((fst (session_write P now p s), c), Inr ()))"
  by (auto simp: handlePeer_def session_read_def session_write_def split: option.split prod.split)

lemma session_write_entry:
  assumes "pebble_laws P cont" and "session_write P now p s = (s', Inr ())"
  shows "entry s' = (entry s)(pr_id p \<mapsto> versioned s p)"
proof -
  obtain s1 v res where app: "Apply P None now (peer_mutation p False ''BGP session state changed'') s = (s1, v, res)"
    by (metis prod.collapse)
  then have "s1 = s'" "\<exists>ev. res = Inr ev" using assms(2) by (cases res; simp add: session_write_def)+
  then show ?thesis using Apply_peer_cases[OF assms(1) app] by auto
qed

lemma session_read_Some:
  assumes "session_read event observed c = Inr (Some q)" and "registry_ids c"
  shows "\<exists>p. fmlookup (co_peers c) (pr_id q) = Some p \<and> config_of q = config_of p"
  using assms
  by (auto simp: session_read_def registry_ids_def peerForAddress_def split: option.splits if_splits)

lemma DeletePeer_done:
  assumes "pebble_laws P cont" and "DeletePeer P (Some (collector_manager E)) tick i expected (s, c) = ((s', c'), Inr ())" and "keyed s"
  shows "entry s' i = None \<and> fmlookup (co_peers c') i = None"
proof -
  obtain p where p: "version_check s i expected = Inr p" and del: "pm_delete (collector_manager E) (pr_id p) c = (c', None)"
    and drop: "drop_peer P tick p ''peer deleted'' s = (s', Inr ())"
    using assms(2) by (auto simp: DeletePeer_def manager_def split: sum.splits prod.splits option.splits)
  have "pr_id p = i" using p assms(3) by (simp add: version_check_Inr keyed_def)
  then show ?thesis using cm.delete_accepted[OF del] drop_peer_cases[OF assms(1) drop] removed_entry[of s i s'] by auto
qed

lemma UpdatePeer_done:
  assumes "pebble_laws P cont" and "UpdatePeer P (Some (collector_manager E)) it tick (Some p) expected (s, c) = ((s', c'), Inr out)"
  shows "\<exists>new. entry s' (pr_id p) = Some new \<and> fmlookup (co_peers c') (pr_id p) = Some new \<and>
    config_of (new\<lparr>pr_tcp_md5_secret := pr_tcp_md5_secret p\<rparr>) = config_of p"
proof -
  obtain q r where q: "update_check it s (Some p) expected = Inr q"
    and put: "put_and_upsert P (Some (collector_manager E)) tick q ''peer updated'' (s, c) = ((s', c'), r)" and r: "\<exists>x. r = Inr x"
    using assms(2) by (auto simp: UpdatePeer_def write_peer_def bindR_Inr_iff split: sum.splits prod.splits)
  obtain old where old: "q = updated_peer old p" using q by (auto simp: update_check_Inr)
  have st: "stored s q s'" "pm_upsert (collector_manager E) (versioned s q) c = (c', None)"
    using put_and_upsert_cases[OF assms(1) put] r by (auto simp: manager_def prod_eq_iff api_result_def split: option.splits)
  have id: "pr_id q = pr_id p" by (simp add: old updated_peer_def)
  have "config_of ((versioned s q)\<lparr>pr_tcp_md5_secret := pr_tcp_md5_secret p\<rparr>) = config_of p"
    by (simp add: old updated_peer_def versioned_def config_of_def)
  then show ?thesis using stored_entry[OF st(1)] cm.upsert_accepted[OF st(2)] id by simp
qed

text \<open>
  A session event that has read the registered peer before a call of the service and writes it
  afterwards undoes the call in the store. After a deletion that succeeded, the peer is back in the store,
  with its configuration, and is not registered; after an update that succeeded, the store has the
  configuration from before and the registry the new one. The next start of the process takes both from
  the store.
\<close>

theorem session_event_undoes_call:
  assumes "pebble_laws P cont" and "registry_ids c" and "session_read event observed c = Inr (Some q)"
    and "session_write P now q s1 = (s2, Inr ())" and "M = Some (collector_manager E)" and "i = pr_id q"
  shows "map_option config_of (entry s2 i) = map_option config_of (fmlookup (co_peers c) i) \<and>
    (DeletePeer P M tick i expected (s, c) = ((s1, c1), Inr ()) \<and> keyed s \<longrightarrow>
      entry s1 i = None \<and> fmlookup (co_peers c1) i = None \<and> entry s2 i \<noteq> None) \<and>
    (UpdatePeer P M it tick (Some p) expected (s, c) = ((s1, c1), Inr out) \<and> pr_id p = i \<longrightarrow>
      (\<exists>new. entry s1 i = Some new \<and> fmlookup (co_peers c1) i = Some new \<and>
         config_of (new\<lparr>pr_tcp_md5_secret := pr_tcp_md5_secret p\<rparr>) = config_of p))"
proof (intro conjI impI)
  obtain old where old: "fmlookup (co_peers c) i = Some old" "config_of q = config_of old"
    using session_read_Some[OF assms(3,2)] assms(6) by blast
  have s2: "entry s2 = (entry s1)(i \<mapsto> versioned s1 q)" using session_write_entry[OF assms(1,4)] assms(6) by simp
  then show "map_option config_of (entry s2 i) = map_option config_of (fmlookup (co_peers c) i)" by (simp add: old)
  show "entry s2 i \<noteq> None" by (simp add: s2)
  show "entry s1 i = None" "fmlookup (co_peers c1) i = None" if "DeletePeer P M tick i expected (s, c) = ((s1, c1), Inr ()) \<and> keyed s"
    using DeletePeer_done[OF assms(1), of E tick i expected s c s1 c1] that assms(5) by simp_all
  show "\<exists>new. entry s1 i = Some new \<and> fmlookup (co_peers c1) i = Some new \<and> config_of (new\<lparr>pr_tcp_md5_secret := pr_tcp_md5_secret p\<rparr>) = config_of p"
    if "UpdatePeer P M it tick (Some p) expected (s, c) = ((s1, c1), Inr out) \<and> pr_id p = i"
    using UpdatePeer_done[OF assms(1), of E it tick p expected s c s1 c1 out] that assms(5) by auto
qed

theorem session_event_undoes_call_witness:
  "\<exists>q s1 c1 s2. session_read (Some lab_event) 30 lab_collector = Inr (Some q) \<and>
     DeletePeer memory_pebble (Some (collector_manager list_engine)) (None, 20) ''p'' 2 (lab_store, lab_collector) = ((s1, c1), Inr ()) \<and>
     session_write memory_pebble 30 q s1 = (s2, Inr ()) \<and> entry s1 ''p'' = None \<and> entry s2 ''p'' \<noteq> None"
proof -
  define d where "d = DeletePeer memory_pebble (Some (collector_manager list_engine)) (None, 20) ''p'' 2 (lab_store, lab_collector)"
  define q where "q = session_peer lab_event 30 (bgp_peer ''p'' ''10.0.0.1'')"
  have "\<not> isl (snd d)" "\<not> isl (snd (session_write memory_pebble 30 q (fst (fst d))))" unfolding d_def q_def by code_simp+
  then have del: "d = ((fst (fst d), snd (fst d)), Inr ())"
    and wr: "session_write memory_pebble 30 q (fst (fst d)) = (fst (session_write memory_pebble 30 q (fst (fst d))), Inr ())"
    by (auto simp: prod_eq_iff isl_def) (metis old.unit.exhaust sum.exhaust)+
  have rd: "session_read (Some lab_event) 30 lab_collector = Inr (Some q)"
    by (simp add: session_read_def lab_event_def lab_address peerForAddress_def lab_collector_eq(2) q_def)
  have ids: "registry_ids lab_collector" "keyed lab_store" using lab_system_ok by (simp_all add: collector_ok_def)
  have "''p'' = pr_id q" by (simp add: q_def bgp_peer_def)
  from session_event_undoes_call[OF memory_pebble_laws(1) ids(1) rd wr refl this, of list_engine "(None, 20)" 2 lab_store "snd (fst d)"]
  show ?thesis using del[unfolded d_def, folded d_def] wr rd ids(2) d_def by metis
qed

section \<open>Sources and restarts\<close>

text \<open>
  A restart forgets who advertised what. The entities of the store come back, but the sources of the
  reconciler are empty, so that the first withdrawal by any peer deletes an entity which, without the
  restart, another peer would have kept.
\<close>

theorem restart_forgets_sources:
  assumes "pebble_laws P cont" and "pebble_reads P" and "engine_laws E sessions" and "iter_order it"
    and "store_inv cont lo M H (rc_store r)" and "st_revision (rc_store r) \<noteq> 0"
    and "os_open_db os (filepath_Join [cf_data_dir cfg, ''topology'']) = Inr (st_db (rc_store r))"
    and "serve P E X q os it clk (Inr (cfg, None)) = (st, Inr run)"
    and "sources_ok r" and "ad_ok a" and "ad_withdraw a" and "iter_order it'"
    and "fmlookup (sources_of r (sourceKey (ad_kind a) (ad_id a))) other = Some b" and "other \<noteq> ad_peer_id a"
    and "Reconciler_Apply P it' ctxErr now a r = (r1, Inr ev1)"
    and "Reconciler_Apply P it' ctxErr now a \<lparr>rc_store = rn_store run, rc_sources = co_sources (rn_collector run)\<rparr> = (r2, Inr ev2)"
  shows "(\<forall>k i. Get (rn_store run) k i = Get (rc_store r) k i) \<and>
    (\<exists>v. Get (rc_store r1) (ad_kind a) (ad_id a) = Inr v) \<and>
    Get (rc_store r2) (ad_kind a) (ad_id a) = Inl (Sentinel ErrNotFound)"
proof (intro conjI allI)
  let ?r = "\<lparr>rc_store = rn_store run, rc_sources = co_sources (rn_collector run)\<rparr>" and ?k = "sourceKey (ad_kind a) (ad_id a)"
  have mem: "st_memory (rn_store run) = st_memory (rc_store r)" using restart_rule[OF assms(1-8)] by blast
  then show "Get (rn_store run) k i = Get (rc_store r) k i" for k i by (simp add: Get_def)
  obtain s c where start: "Start E (sn_peers (Store_Snapshot it s)) (New_Collector (cf_bgp cfg)) = (c, Inr ())"
    and lis: "start_listeners X q os cfg s c = Inr run"
    using serve_Inr[OF assms(8)] by blast
  have src: "co_sources (rn_collector run) = fmempty" using Start_sources[OF start] start_listeners_Inr[OF lis] by simp
  have "fmlookup (updated_sources a r) other = Some b" using assms(11,13,14) by (simp add: updated_sources_def Let_def)
  then have "updated_sources a r \<noteq> fmempty" by auto
  then show "\<exists>v. Get (rc_store r1) (ad_kind a) (ad_id a) = Inr v"
    using Reconciler_Apply_rule[OF assms(1,9,10,12,15)] by simp
  have "sources_ok ?r" "updated_sources a ?r = fmempty"
    using assms(11) by (simp_all add: src sources_ok_def updated_sources_def sources_of_def)
  then show "Get (rc_store r2) (ad_kind a) (ad_id a) = Inl (Sentinel ErrNotFound)"
    using Reconciler_Apply_rule[OF assms(1) _ assms(10,12,16)] by simp
qed

text \<open>A node that two peers advertise, a restart, and the withdrawal of one of them.\<close>

definition lab_ad :: "string \<Rightarrow> Advertisement" where
  "lab_ad peer = sample_ad peer 9 (NodeE (named_node ''r1''))"

definition lab_sources :: "contents Reconciler" where
  "lab_sources = fst (Reconciler_Apply memory_pebble id None 20 (lab_ad ''q'')
     (fst (Reconciler_Apply memory_pebble id None 20 (lab_ad ''p'') \<lparr>rc_store = lab_store, rc_sources = fmempty\<rparr>)))"

lemma lab_ad_ok: "ad_ok (lab_ad p) \<longleftrightarrow> p \<noteq> []" "clean_ad (lab_ad p) \<longleftrightarrow> utf8_valid p" "utf8_valid (ad_id (lab_ad p))"
  "utf8_valid (ad_domain_id (lab_ad p))" "ad_peer_id (lab_ad p) = p" "ad_kind (lab_ad p) = ENTITY_KIND_NODE" "ad_id (lab_ad p) = ''a''"
proof -
  have "value_json (NodeE (named_node ''r1''))" "ident_of (NodeE (named_node ''r1'')) = ''a''" by code_simp+
  then show "ad_ok (lab_ad p) \<longleftrightarrow> p \<noteq> []" "clean_ad (lab_ad p) \<longleftrightarrow> utf8_valid p" "utf8_valid (ad_id (lab_ad p))"
    "utf8_valid (ad_domain_id (lab_ad p))" "ad_peer_id (lab_ad p) = p" "ad_kind (lab_ad p) = ENTITY_KIND_NODE" "ad_id (lab_ad p) = ''a''"
    by (simp_all add: lab_ad_def sample_ad_def ad_ok_def clean_ad_def utf8_ascii)
qed

lemma lab_sources_ok:
  "sources_ok lab_sources" "\<exists>lo M H. store_inv (\<lambda>c. c) lo M H (rc_store lab_sources)"
  "fmlookup (sources_of lab_sources (sourceKey ENTITY_KIND_NODE ''a'')) ''q'' = Some (lab_ad ''q'')"
proof -
  let ?r0 = "\<lparr>rc_store = lab_store, rc_sources = fmempty\<rparr>"
  obtain r1 q1 where one: "Reconciler_Apply memory_pebble id None 20 (lab_ad ''p'') ?r0 = (r1, q1)" by fastforce
  obtain q2 where two: "Reconciler_Apply memory_pebble id None 20 (lab_ad ''q'') r1 = (lab_sources, q2)"
    using one unfolding lab_sources_def by (metis fst_conv prod.collapse)
  have ads: "ad_ok (lab_ad ''p'')" "ad_ok (lab_ad ''q'')" "clean_ad (lab_ad ''p'')" "clean_ad (lab_ad ''q'')"
    by (simp_all add: lab_ad_ok utf8_ascii)
  have zero: "sources_ok ?r0" "clean ?r0" by (simp_all add: sources_ok_def clean_def sources_of_def)
  note it = iter_order_id(1)
  have r1: "sources_ok r1" "clean r1"
    using sources_after(1)[OF zero(1) ads(1) it one] clean_after[OF zero(2) ads(3) zero(1) ads(1) it one] by simp_all
  show "sources_ok lab_sources" using sources_after(1)[OF r1(1) ads(2) it two] .
  show "fmlookup (sources_of lab_sources (sourceKey ENTITY_KIND_NODE ''a'')) ''q'' = Some (lab_ad ''q'')"
    using sources_after(2)[OF r1(1) ads(2) it two] by (simp add: lab_ad_ok updated_sources_def Let_def) (simp add: lab_ad_def sample_ad_def)
  have s1: "store_step memory_pebble lab_store (rc_store r1)" "unat (st_revision (rc_store r1)) \<le> 3"
    using Reconciler_store_step[OF zero(2) ads(3) zero(1) ads(1) it lab_ad_ok(3,4) _ one] by (simp_all add: lab_revision)
  then have s2: "store_step memory_pebble (rc_store r1) (rc_store lab_sources)"
    using Reconciler_store_step[OF r1(2) ads(4) r1(1) ads(2) it lab_ad_ok(3,4) _ two] by simp
  have "(store_step memory_pebble)\<^sup>*\<^sup>* lab_store (rc_store lab_sources)"
    by (rule converse_rtranclp_into_rtranclp[OF s1(1) r_into_rtranclp[of "store_step memory_pebble", OF s2]])
  moreover obtain lo M H where "store_inv (\<lambda>c. c) lo M H lab_store" using lab_store_inv by blast
  ultimately show "\<exists>lo M H. store_inv (\<lambda>c. c) lo M H (rc_store lab_sources)"
    using store_steps_inv[OF memory_pebble_laws] unfolding extends_history_def by blast
qed

theorem restart_forgets_sources_witness:
  "\<exists>st run r1 r2 ev1 ev2. sample_serve (st_db (rc_store lab_sources)) = (st, Inr run) \<and>
     Reconciler_Apply memory_pebble id None 30 ((lab_ad ''p'')\<lparr>ad_withdraw := True\<rparr>) lab_sources = (r1, Inr ev1) \<and>
     Reconciler_Apply memory_pebble id None 30 ((lab_ad ''p'')\<lparr>ad_withdraw := True\<rparr>)
       \<lparr>rc_store = rn_store run, rc_sources = co_sources (rn_collector run)\<rparr> = (r2, Inr ev2) \<and>
     (\<exists>v. Get (rc_store r1) ENTITY_KIND_NODE ''a'' = Inr v) \<and> Get (rc_store r2) ENTITY_KIND_NODE ''a'' = Inl (Sentinel ErrNotFound)"
proof -
  let ?a = "(lab_ad ''p'')\<lparr>ad_withdraw := True\<rparr>" and ?s = "sample_serve (st_db (rc_store lab_sources))"
  have good: "\<not> isl (snd ?s)" "st_revision (rc_store lab_sources) \<noteq> 0"
    "\<not> isl (snd (Reconciler_Apply memory_pebble id None 30 ?a lab_sources))"
    "\<not> isl (snd (Reconciler_Apply memory_pebble id None 30 ?a
       \<lparr>rc_store = rn_store (projr (snd ?s)), rc_sources = co_sources (rn_collector (projr (snd ?s)))\<rparr>))" by code_simp+
  obtain cfg where load: "sample_load = Inr (cfg, None)" using sample_loaded by blast
  obtain st run where run: "?s = (st, Inr run)" using good(1) by (metis prod.collapse sum.collapse(2))
  obtain r1 ev1 where one: "Reconciler_Apply memory_pebble id None 30 ?a lab_sources = (r1, Inr ev1)"
    using good(3) by (metis prod.collapse sum.collapse(2))
  obtain r2 ev2 where two: "Reconciler_Apply memory_pebble id None 30 ?a \<lparr>rc_store = rn_store run, rc_sources = co_sources (rn_collector run)\<rparr> =
      (r2, Inr ev2)" using good(4) run by (metis prod.collapse sum.collapse(2) snd_conv sum.sel(2))
  obtain lo M H where inv: "store_inv (\<lambda>c. c) lo M H (rc_store lab_sources)" using lab_sources_ok(2) by blast
  have a: "ad_ok ?a" "ad_withdraw ?a" "ad_kind ?a = ENTITY_KIND_NODE" "ad_id ?a = ''a''" "ad_peer_id ?a = ''p''"
    using lab_ad_ok[of "''p''"] by (simp_all add: ad_ok_def)
  have db: "os_open_db (sample_os (st_db (rc_store lab_sources))) d = Inr (st_db (rc_store lab_sources))" for d by (simp add: sample_os_def)
  have src: "fmlookup (sources_of lab_sources (sourceKey (ad_kind ?a) (ad_id ?a))) ''q'' = Some (lab_ad ''q'')" "''q'' \<noteq> ad_peer_id ?a"
    using lab_sources_ok(3) a by simp_all
  from restart_forgets_sources[OF memory_pebble_laws list_engine_laws iter_order_id(1) inv good(2) db
      run[unfolded sample_serve_def, unfolded load] lab_sources_ok(1) a(1,2) iter_order_id(1) src one two]
  show ?thesis using run one two a(3,4) by (metis (no_types, lifting))
qed

end
