(* ===== verification/Spec2Isabelle.thy ===== *)
theory Spec2Isabelle
  imports Reconcile_Theorems Path_Theorems Bgp_Metrics Connect Ui_Files Interleaving
begin

text \<open>
  bgPLS is a BGP Link-State collector: it holds BGP-LS sessions through GoBGP, turns the paths of its
  peers into nodes, links and prefixes, keeps them with a numbered history in a Pebble database and
  serves them, with path computation and failure analysis, over connect RPC behind TLS and roles. This
  development models its Go code and proves what makes it correct.

  \<^bold>\<open>The parts and how they interact.\<close> GoBGP calls the collector (\<open>internal/bgp/collector.go\<close>) with session
  events and batches of paths. The collector translates a path into advertisements and hands them to
  the reconciler (\<open>internal/topology/reconcile.go\<close>), which merges the advertisements of several peers and
  writes the result to the store (\<open>internal/store/store.go\<close>). The services (\<open>internal/api\<close>) read snapshots
  of the store, run the graph (\<open>internal/topology/graph.go\<close>) on them and change the configured peers,
  which they register with the collector through the interface \<open>PeerManager\<close>. The server
  (\<open>internal/api/server.go\<close>, \<open>auth.go\<close>, \<open>internal/ui\<close>) routes and authorizes requests. The program
  (\<open>cmd/bgpls/main.go\<close>) loads the configuration (\<open>internal/config\<close>), starts all of this, and is the
  command line client too.

  \<^bold>\<open>Conventions.\<close> \<open>Prelude\<close>: machine integers are words of their width, Go strings are byte strings, a Go
  map is a finite map, and an operation that ranges over a map takes the order as an argument of which
  only \<open>iter_order\<close> is known. Errors are values (\<open>go_error\<close>); a result is a fault or a value, and a fault is
  an error, a panic or a call that never returns, so that their absence is proved. State is passed
  explicitly as a record. Code outside the repository is an argument: Pebble (\<open>pebble_laws\<close>,
  \<open>pebble_reads\<close>), GoBGP (\<open>engine_laws\<close>), YAML, certificates, files, the clock, Unicode's tables, the wire
  format of connect. Every hypothesis on such an argument is met by an instance (\<open>memory_pebble\<close>,
  \<open>list_engine\<close>) in the witnesses. Go's standard library is modelled where the program uses it: \<open>Base64\<close>,
  \<open>Keys\<close>, \<open>Netip\<close>, \<open>Formatting\<close>, \<open>Sha256\<close>, \<open>Glob\<close> (\<open>path.Match\<close>), \<open>Paths\<close>, \<open>Flags\<close>, and the JSON of
  structs in \<open>Codec\<close>.

  \<^bold>\<open>Theories.\<close>
  \<^item> \<open>Types\<close>, \<open>Codec\<close>: the messages of \<open>gen/bgpls/v1\<close> as records and datatypes, their JSON, and that decoding
    undoes encoding.
  \<^item> \<open>Heap\<close>, \<open>Graph\<close>, \<open>Graph_Search\<close>, \<open>Graph_Paths\<close>, \<open>Graph_Impact\<close>: \<open>graph.go\<close>. The priority queue is an
    interpretation of a locale of queues; the search is optimal and complete for walks over eligible
    links, with the guards against overflow; waypoints, alternatives, and the components after a
    failure.
  \<^item> \<open>Store\<close>, \<open>Store_Inv\<close>, \<open>Store_History\<close>, \<open>Store_Machine\<close>, \<open>Store_Theorems\<close>: \<open>store.go\<close>. A step relation of
    mutations, compactions, subscriptions and restarts; the invariant that the database holds exactly
    the documents of memory, the retained events and the revision; recovery, older revisions, the
    stream of a subscriber, and that the database is well typed.
  \<^item> \<open>Reconcile\<close>, \<open>Reconcile_Theorems\<close>, \<open>Accept_Theorems\<close>: \<open>reconcile.go\<close>. What a merge selects, that the
    order of advertisements matters neither for the sources nor for the stored entities, what the store
    holds afterwards, which advertisements are accepted.
  \<^item> \<open>Filters\<close>, \<open>Paging\<close>, \<open>Topology_API\<close>, \<open>Path_API\<close>, \<open>API_Theorems\<close>, \<open>Path_Theorems\<close>, \<open>History_Theorems\<close>:
    \<open>filter.go\<close> and \<open>topology.go\<close>. Pages and streams are complete, no read call panics, computed paths are
    sound, the history calls return the retained events.
  \<^item> \<open>Collector_API\<close>, \<open>Collector_Theorems\<close>, \<open>Import_Theorems\<close>: \<open>internal/api/collector.go\<close>. The calls refine a
    table of versioned peers; versions, secrets, import and export.
  \<^item> \<open>Auth\<close>, \<open>Server\<close>, \<open>Server_Theorems\<close>: \<open>auth.go\<close>, \<open>server.go\<close>, \<open>ui.go\<close> and the generated handlers. Who is
    let in and that every procedure reaches its method.
  \<^item> \<open>Gobgp\<close>, \<open>Bgp_Paths\<close>, \<open>Bgp_Collector\<close>, \<open>Bgp_Path_Theorems\<close>, \<open>Bgp_Sync\<close>, \<open>Bgp_Events\<close>, \<open>Bgp_Registry\<close>,
    \<open>Bgp_Theorems\<close>, \<open>Bgp_Metrics\<close>: \<open>internal/bgp/collector.go\<close>. Identifiers separate nodes, a withdrawal undoes
    its announcement, exactly two kinds of paths stop a batch, the registry agrees with the engine along
    every sequence of operations that moves no peer, fully so as long as no update is refused, and with the
    store; the labels of the metrics are bounded along every run. The locale \<open>managed_peers\<close> is the interface between the
    service and a peer manager; the collector interprets it.
  \<^item> \<open>Config\<close>, \<open>Serve\<close>, \<open>Serve_Theorems\<close>, \<open>Process\<close>, \<open>Process_Theorems\<close>: \<open>config.go\<close> and the server process.
    Validation is exact, a bootstrap stores the configuration, what holds once the process serves, and
    that a restart brings everything back.
  \<^item> \<open>Cli\<close>, \<open>Cli_Theorems\<close>: the commands of \<open>main.go\<close> and the clients of \<open>bgplsv1connect\<close>. Numbers are read
    exactly or refused, and a command runs the method of the server on the store.
  \<^item> \<open>Ui_Files\<close>: \<open>internal/ui\<close> with the file server of \<open>net/http\<close> over the embedded files, which are an argument:
    no path leads out of the tree, and what every clean URL below \<open>/ui/\<close> is answered with.
  \<^item> \<open>Connect\<close>: the methods of the generated clients, the kinds of the generated handlers and the handlers
    that implement nothing. The locale \<open>connect_service\<close> is the contract of a client and a server of one
    service, interpreted by the four services: every client method reaches the method of its name.
  \<^item> \<open>Read_Services\<close>: the topology, path and history services behind the handler of the server, and with
    them all four services: which permitted read requests are answered, who can change peers, and that the
    listener of the user interface changes nothing.
  \<^item> \<open>Server_Run\<close>, \<open>Server_Safety\<close>, \<open>Server_Invariant\<close>: the whole process at work, as a run of requests through
    the chain of handlers, session events, batches of paths, watches and ticks of the retention loop on the
    shared store and collector, also after requests that failed half way. On the runs that move no stored
    peer and carry no nil NLRI (\<open>ops_ok\<close>) no handler of events panics; if moreover what is stored can be
    written as JSON, the revisions are not used up and no watch replays more than its channel holds
    (\<open>ops_json\<close>), no request waits for ever, the invariant of the store holds all along and its history is
    kept. \<open>moved_peer_panics\<close>, \<open>handlePaths_total\<close> and \<open>Subscribe_blocks\<close> show what happens otherwise. The locale
    \<open>manager_frame\<close> says what no call of the service changes when no operation of the manager does.
  \<^item> \<open>Interleaving\<close>: where the state of the process is split, between the two locks of a session event and
    between memory and database, with what is lost there.

  \<^bold>\<open>Bounds and fuel.\<close> The revision is a 64-bit word that the program increments without a test; the steps
  of the store are those with room for one more revision and with a well-formed mutation (\<open>mutation_ok\<close>:
  texts that are UTF-8, as every protobuf string is, a value that JSON can carry, and the kind and identifier
  of that value). The loop over the groups of an IPv6 address has
  eight units of fuel, the number of groups it can read. A run of the server ends with the fault \<open>Hang\<close> when
  a request waits for ever, which a watch does that has to replay more events than its channel holds. The loop of \<open>DiffTopology\<close> is a partial function
  whose result is proved to exist. All other loops are total functions with a termination proof.

  \<^bold>\<open>Not modelled.\<close> The wire format and reflection of the generated protobuf code, the transport of connect
  and the network (a request arrives as it was sent, which is a hypothesis), the assets of the user interface, logging, the metrics endpoint,
  the goroutines of the listeners and the locks: an operation that holds a lock is one step, and the
  places where the program gives up a lock between a check and a write are stated as properties of
  interleaved steps. Doubles are rationals with infinities and NaN, since the program only converts and
  compares them. Times, durations and the listen port are unbounded integers, since nothing is computed
  with them near their bounds. The four generated switches on the path of a request are one definition,
  given the list of the methods, and the two loops of \<open>Analyze\<close> over one map take the same order. The
  messages of errors are not searched for secrets.
\<close>

end
